(* ===== verification/Prelude.thy ===== *)
theory Prelude
  imports Main "HOL-Library.Char_ord" "HOL-Library.List_Lexorder" "HOL-Library.Multiset"
    "HOL-Library.Sublist"
begin

text \<open>
  Shared vocabulary of the development.

  \<^item> Rust \<open>String\<close> / \<open>&str\<close> values are HOL strings: the sequence of the string's
    \<open>char\<close>s, for code points below 256. The byte order of UTF-8 is the order of code
    points, so \<open>str::cmp\<close> is the lexicographic order of \<open>List_Lexorder\<close>, and
    \<open>str::trim\<close> removes exactly the \<open>White_Space\<close> code points below 256.
  \<^item> A \<open>&mut self\<close> method returning \<open>Result\<close> is a function from the state to the
    pair of the result and the state it leaves behind, also on the error path.
  \<^item> \<open>Vec::drain(0..overflow)\<close> after a push, \<open>iter_mut().find(..)\<close>, \<open>retain\<close> and
    \<open>sort_by\<close> are the list functions below.
\<close>

named_theorems op_defs \<open>definitions of the operations of an aggregate\<close>
named_theorems op_wf \<open>operations keep the well-formedness invariant\<close>
named_theorems op_frame \<open>what an operation leaves unchanged\<close>

section \<open>Strings\<close>

definition is_white :: "char \<Rightarrow> bool" where
  "is_white c \<longleftrightarrow> (let n = (of_char c :: nat) in (9 \<le> n \<and> n \<le> 13) \<or> n = 32 \<or> n = 133 \<or> n = 160)"

definition is_ascii_digit :: "char \<Rightarrow> bool" where
  "is_ascii_digit c \<longleftrightarrow> (let n = (of_char c :: nat) in 48 \<le> n \<and> n \<le> 57)"

definition trim :: "string \<Rightarrow> string" where
  "trim s = rev (dropWhile is_white (rev (dropWhile is_white s)))"

definition is_blank :: "string \<Rightarrow> bool" where
  "is_blank s \<longleftrightarrow> trim s = []"

lemma dropWhile_idem [simp]: "dropWhile P (dropWhile P xs) = dropWhile P xs"
  by (induction xs) auto

lemma dropWhile_rev_dropWhile_stable:
  assumes "dropWhile P xs = xs"
  shows "dropWhile P (rev (dropWhile P (rev xs))) = rev (dropWhile P (rev xs))"
proof (cases "dropWhile P (rev xs) = []")
  case True
  show ?thesis unfolding True by simp
next
  case False
  have split: "xs = rev (dropWhile P (rev xs)) @ rev (takeWhile P (rev xs))"
    by (metis rev_append rev_rev_ident takeWhile_dropWhile_id)
  have ne: "xs \<noteq> []" using False by auto
  have hd_eq: "hd (rev (dropWhile P (rev xs))) = hd xs"
    using False split by (metis hd_append2 rev_is_Nil_conv)
  have "\<not> P (hd xs)"
    using assms ne by (metis hd_dropWhile)
  with hd_eq False show ?thesis
    by (metis dropWhile.simps(2) list.exhaust_sel rev_is_Nil_conv)
qed

lemma trim_idem [simp]: "trim (trim s) = trim s"
proof -
  let ?d = "dropWhile is_white s"
  have "dropWhile is_white (rev (dropWhile is_white (rev ?d))) = rev (dropWhile is_white (rev ?d))"
    by (rule dropWhile_rev_dropWhile_stable) simp
  then show ?thesis unfolding trim_def by simp
qed

lemma trim_Nil [simp]: "trim [] = []"
  by (simp add: trim_def)

lemma is_blank_Nil [simp]: "is_blank []"
  by (simp add: is_blank_def)

lemma is_blank_trim [simp]: "is_blank (trim s) = is_blank s"
  by (simp add: is_blank_def)

lemma is_blank_iff_all_white: "is_blank s \<longleftrightarrow> (\<forall>c \<in> set s. is_white c)"
proof
  assume "is_blank s"
  then have "dropWhile is_white (rev (dropWhile is_white s)) = []"
    by (simp add: is_blank_def trim_def)
  then have all: "\<forall>c \<in> set (dropWhile is_white s). is_white c"
    by (simp add: dropWhile_eq_Nil_conv)
  then have "dropWhile is_white s = []"
    using hd_dropWhile hd_in_set by blast
  then show "\<forall>c \<in> set s. is_white c"
    by (simp add: dropWhile_eq_Nil_conv)
next
  assume "\<forall>c \<in> set s. is_white c"
  then have none: "dropWhile is_white s = []" by (simp add: dropWhile_eq_Nil_conv)
  show "is_blank s" unfolding is_blank_def trim_def none by simp
qed

text \<open>\<open>format!("{n}")\<close> of an unsigned integer.\<close>

fun nat_str :: "nat \<Rightarrow> string" where
  "nat_str n = (if n < 10 then [char_of (48 + n)] else nat_str (n div 10) @ [char_of (48 + n mod 10)])"

declare nat_str.simps [simp del]

lemma nat_str_digits: "c \<in> set (nat_str n) \<Longrightarrow> 48 \<le> (of_char c :: nat) \<and> of_char c \<le> (57 :: nat)"
proof (induction n rule: nat_str.induct)
  case (1 n)
  show ?case
  proof (cases "n < 10")
    case True
    with 1(2) show ?thesis by (simp add: nat_str.simps [of n])
  next
    case False
    with 1(2) consider "c \<in> set (nat_str (n div 10))" | "c = char_of (48 + n mod 10)"
      by (auto simp: nat_str.simps [of n])
    then show ?thesis using 1(1) False by cases simp_all
  qed
qed

lemma nat_str_inj: "nat_str m = nat_str n \<Longrightarrow> m = n"
proof (induction m arbitrary: n rule: nat_str.induct)
  case (1 m)
  have d: "char_of (48 + j) = (char_of (48 + k) :: char) \<longleftrightarrow> j = k" if "j < 10" "k < 10" for j k :: nat
  proof
    assume "char_of (48 + j) = (char_of (48 + k) :: char)"
    then have "of_char (char_of (48 + j) :: char) = (of_char (char_of (48 + k) :: char) :: nat)"
      by (rule arg_cong)
    then show "j = k" using that by simp
  qed simp
  have ne: "nat_str k \<noteq> []" for k by (subst nat_str.simps) simp
  show ?case
  proof (cases "m < 10 \<or> n < 10")
    case True
    then show ?thesis
      using 1(2) d [of m n] ne [of "m div 10"] ne [of "n div 10"] by (auto simp: nat_str.simps [of m] nat_str.simps [of n] split: if_splits)
  next
    case False
    then have "nat_str (m div 10) = nat_str (n div 10)" "m mod 10 = n mod 10"
      using 1(2) d [of "m mod 10" "n mod 10"] by (simp_all add: nat_str.simps [of m] nat_str.simps [of n])
    with 1(1) [of "n div 10"] False have "m div 10 = n div 10" by simp
    with \<open>m mod 10 = n mod 10\<close> show ?thesis by (metis mod_div_mult_eq)
  qed
qed

lemma trim_hd: "trim s \<noteq> [] \<Longrightarrow> \<not> is_white (hd (trim s))"
  by (metis dropWhile_idem hd_dropWhile dropWhile_rev_dropWhile_stable trim_def)

lemma not_blank_take_trim: "\<not> is_blank s \<Longrightarrow> 0 < n \<Longrightarrow> \<not> is_blank (take n (trim s))"
proof -
  assume s: "\<not> is_blank s" and n: "0 < n"
  then have "hd (trim s) \<in> set (take n (trim s))" and "\<not> is_white (hd (trim s))"
    by (auto simp: is_blank_def trim_hd) (cases n; cases "trim s"; simp)
  then show ?thesis by (auto simp: is_blank_iff_all_white)
qed

text \<open>\<open>[x, ..].join(sep)\<close>, \<open>str::split(p)\<close> and the character functions the program uses.\<close>

fun join :: "string \<Rightarrow> string list \<Rightarrow> string" where
  "join sep [] = []"
| "join sep [x] = x"
| "join sep (x # y # ys) = x @ sep @ join sep (y # ys)"

definition to_lowercase :: "string \<Rightarrow> string" where
  "to_lowercase = map (\<lambda>c. let n = (of_char c :: nat) in
     if (65 \<le> n \<and> n \<le> 90) \<or> (192 \<le> n \<and> n \<le> 222 \<and> n \<noteq> 215) then char_of (n + 32) else c)"

definition is_alphanumeric :: "char \<Rightarrow> bool" where
  "is_alphanumeric c \<longleftrightarrow> (let n = (of_char c :: nat) in
     (48 \<le> n \<and> n \<le> 57) \<or> (65 \<le> n \<and> n \<le> 90) \<or> (97 \<le> n \<and> n \<le> 122)
     \<or> n \<in> {170, 178, 179, 181, 185, 186, 188, 189, 190}
     \<or> (192 \<le> n \<and> n \<noteq> 215 \<and> n \<noteq> 247))"

definition byte_len :: "string \<Rightarrow> nat" where
  "byte_len s = sum_list (map (\<lambda>c. if (of_char c :: nat) < 128 then 1 else 2) s)"

lemma byte_len_append [simp]: "byte_len (s @ t) = byte_len s + byte_len t"
  by (simp add: byte_len_def)

text \<open>\<open>s.get(..n)\<close>: the first \<open>n\<close> bytes, if there are as many and they end on a character.\<close>

fun take_bytes :: "nat \<Rightarrow> string \<Rightarrow> string option" where
  "take_bytes 0 s = Some []"
| "take_bytes (Suc n) [] = None"
| "take_bytes (Suc n) (c # s) =
     (if byte_len [c] \<le> Suc n then map_option (Cons c) (take_bytes (Suc n - byte_len [c]) s) else None)"

text \<open>Decimal numbers padded with zeros to a width, and their value.\<close>

definition pad_digits :: "nat \<Rightarrow> string \<Rightarrow> string" where
  "pad_digits n s = replicate (n - length s) CHR ''0'' @ s"

fun dec_value :: "nat \<Rightarrow> string \<Rightarrow> nat" where
  "dec_value a [] = a"
| "dec_value a (c # cs) = dec_value (10 * a + (of_char c - 48)) cs"

lemma dec_value_append [simp]: "dec_value a (s @ t) = dec_value (dec_value a s) t"
  by (induction s arbitrary: a) auto

lemma dec_value_nat_str [simp]: "dec_value 0 (nat_str n) = n"
proof (induction n rule: nat_str.induct)
  case (1 n)
  then show ?case by (cases "n < 10") (simp_all add: nat_str.simps [of n] of_char_of)
qed

lemma dec_value_zeros [simp]: "dec_value 0 (replicate k CHR ''0'') = 0"
  by (induction k) simp_all

lemma pad_digits_inj: "pad_digits w (nat_str m) = pad_digits w (nat_str n) \<Longrightarrow> m = n"
  by (drule arg_cong [of _ _ "dec_value 0"]) (simp add: pad_digits_def)

text \<open>
  \<open>str::parse\<close> of an unsigned integer type whose largest value is \<open>m\<close>: digits, with an optional plus sign.
\<close>

definition parse_uint :: "nat \<Rightarrow> string \<Rightarrow> nat option" where
  "parse_uint m s =
     (let d = (case s of [] \<Rightarrow> [] | c # cs \<Rightarrow> if c = CHR ''+'' then cs else s) in
      if d \<noteq> [] \<and> list_all is_ascii_digit d \<and> dec_value 0 d \<le> m then Some (dec_value 0 d) else None)"

lemma nat_str_not_Nil [simp]: "nat_str n \<noteq> []"
  by (subst nat_str.simps) simp

lemma all_digits_nat_str: "list_all is_ascii_digit (pad_digits w (nat_str n))"
  using nat_str_digits [of _ n] by (auto simp: list_all_iff pad_digits_def is_ascii_digit_def Let_def)

lemma plus_no_digit: "is_ascii_digit c \<Longrightarrow> c \<noteq> CHR ''+''"
  by (auto simp: is_ascii_digit_def)

lemma parse_uint_digits:
  assumes "list_all is_ascii_digit d" and "d \<noteq> []"
  shows "parse_uint m d = (if dec_value 0 d \<le> m then Some (dec_value 0 d) else None)"
  using assms by (cases d) (auto simp: parse_uint_def dest: plus_no_digit)

lemma parse_uint_printed: "n \<le> m \<Longrightarrow> parse_uint m (pad_digits w (nat_str n)) = Some n"
  by (subst parse_uint_digits [OF all_digits_nat_str]) (simp_all add: pad_digits_def)

text \<open>Signed 64-bit arithmetic that saturates.\<close>

definition U64_MAX :: nat where "U64_MAX = 18446744073709551615"
definition I64_MAX :: int where "I64_MAX = 9223372036854775807"
definition I64_MIN :: int where "I64_MIN = - 9223372036854775808"

definition i64_saturating_add :: "int \<Rightarrow> int \<Rightarrow> int" where
  "i64_saturating_add a b = max I64_MIN (min I64_MAX (a + b))"

fun split_on :: "(char \<Rightarrow> bool) \<Rightarrow> string \<Rightarrow> string list" where
  "split_on p [] = [[]]"
| "split_on p (c # cs) =
     (if p c then [] # split_on p cs
      else (c # hd (split_on p cs)) # tl (split_on p cs))"

definition is_ascii_alphanumeric :: "char \<Rightarrow> bool" where
  "is_ascii_alphanumeric c \<longleftrightarrow> (let n = (of_char c :: nat) in
     (48 \<le> n \<and> n \<le> 57) \<or> (65 \<le> n \<and> n \<le> 90) \<or> (97 \<le> n \<and> n \<le> 122))"

definition ascii_lower :: "char \<Rightarrow> char" where
  "ascii_lower c = (let n = (of_char c :: nat) in if 65 \<le> n \<and> n \<le> 90 then char_of (n + 32) else c)"

lemma ascii_lower_idem [simp]: "ascii_lower (ascii_lower c) = ascii_lower c"
  by (auto simp: ascii_lower_def Let_def)

text \<open>\<open>str::contains\<close>, \<open>starts_with\<close>, \<open>ends_with\<close> and the splitting methods.\<close>

definition contains_str :: "string \<Rightarrow> string \<Rightarrow> bool" where
  "contains_str s sub \<longleftrightarrow> (\<exists>k \<in> set [0..<Suc (length s)]. take (length sub) (drop k s) = sub)"

definition starts_with :: "string \<Rightarrow> string \<Rightarrow> bool" where
  "starts_with s p \<longleftrightarrow> take (length p) s = p"

definition ends_with :: "string \<Rightarrow> string \<Rightarrow> bool" where
  "ends_with s p \<longleftrightarrow> length p \<le> length s \<and> drop (length s - length p) s = p"

definition strip_prefix :: "string \<Rightarrow> string \<Rightarrow> string option" where
  "strip_prefix p s = (if starts_with s p then Some (drop (length p) s) else None)"

definition strip_suffix :: "string \<Rightarrow> string \<Rightarrow> string option" where
  "strip_suffix p s = (if ends_with s p then Some (take (length s - length p) s) else None)"

fun split_once :: "string \<Rightarrow> string \<Rightarrow> (string \<times> string) option" where
  "split_once sub s =
     (if starts_with s sub then Some ([], drop (length sub) s)
      else case s of [] \<Rightarrow> None | c # cs \<Rightarrow> map_option (\<lambda>(a, b). (c # a, b)) (split_once sub cs))"

declare split_once.simps [simp del]

lemma starts_with_append [simp]: "starts_with (p @ s) p"
  by (simp add: starts_with_def)

lemma starts_with_iff: "starts_with s p \<longleftrightarrow> (\<exists>r. s = p @ r)"
  by (metis append_take_drop_id append_eq_conv_conj starts_with_def)

lemma strip_prefix_Some: "strip_prefix p s = Some r \<longleftrightarrow> s = p @ r"
  by (auto simp: strip_prefix_def starts_with_iff)

lemma ends_with_iff: "ends_with s p \<longleftrightarrow> (\<exists>r. s = r @ p)"
proof
  show "\<exists>r. s = r @ p" if "ends_with s p"
    using that append_take_drop_id [of "length s - length p" s] unfolding ends_with_def by metis
qed (auto simp: ends_with_def)

lemma strip_suffix_Some: "strip_suffix p s = Some r \<longleftrightarrow> s = r @ p"
  by (auto simp: strip_suffix_def ends_with_iff)

lemma contains_str_iff: "contains_str s sub \<longleftrightarrow> (\<exists>a b. s = a @ sub @ b)"
proof
  assume "contains_str s sub"
  then obtain k where "take (length sub) (drop k s) = sub" by (auto simp: contains_str_def)
  then have "s = take k s @ sub @ drop (length sub) (drop k s)" by (metis append_take_drop_id)
  then show "\<exists>a b. s = a @ sub @ b" by blast
next
  assume "\<exists>a b. s = a @ sub @ b"
  then obtain a b where "s = a @ sub @ b" by blast
  then show "contains_str s sub"
    unfolding contains_str_def by (intro bexI [of _ "length a"]) auto
qed

lemma split_once_Some: "split_once sub s = Some (a, b) \<Longrightarrow> s = a @ sub @ b"
proof (induction s arbitrary: a)
  case Nil
  then show ?case by (auto simp: split_once.simps starts_with_iff split: if_splits)
next
  case (Cons c cs)
  then show ?case
    by (cases "starts_with (c # cs) sub") (auto simp: split_once.simps [of sub "c # cs"] starts_with_iff)
qed

lemma split_once_None: "split_once sub s = None \<longleftrightarrow> \<not> contains_str s sub"
proof (induction s)
  case Nil
  then show ?case by (auto simp: split_once.simps contains_str_iff starts_with_iff)
next
  case (Cons c cs)
  have "contains_str (c # cs) sub \<longleftrightarrow> starts_with (c # cs) sub \<or> contains_str cs sub"
    by (auto simp: contains_str_iff starts_with_iff Cons_eq_append_conv append_eq_Cons_conv)
  then show ?case using Cons by (simp add: split_once.simps [of sub "c # cs"])
qed

section \<open>List helpers for the Rust collection methods\<close>

text \<open>\<open>xs.iter_mut().find(p)\<close> followed by a mutation: the first match is rewritten.\<close>

fun update_first :: "('a \<Rightarrow> bool) \<Rightarrow> ('a \<Rightarrow> 'a) \<Rightarrow> 'a list \<Rightarrow> 'a list" where
  "update_first p f [] = []"
| "update_first p f (x # xs) = (if p x then f x # xs else x # update_first p f xs)"

lemma update_first_length [simp]: "length (update_first p f xs) = length xs"
  by (induction xs) auto

lemma update_first_none [simp]: "find p xs = None \<Longrightarrow> update_first p f xs = xs"
  by (induction xs) (auto split: if_splits)

lemma set_update_first: "set (update_first p f xs) \<subseteq> set xs \<union> f ` {x \<in> set xs. p x}"
  by (induction xs) auto

lemma update_first_map [simp]:
  "(\<And>x. p x \<Longrightarrow> g (f x) = g x) \<Longrightarrow> map g (update_first p f xs) = map g xs"
  by (induction xs) auto

lemma update_first_all:
  "\<forall>x \<in> set xs. P x \<Longrightarrow> (\<And>x. p x \<Longrightarrow> P x \<Longrightarrow> P (f x)) \<Longrightarrow> \<forall>x \<in> set (update_first p f xs). P x"
  by (induction xs) auto

lemma find_update_first_same:
  "find p xs = Some x \<Longrightarrow> p (f x) \<Longrightarrow> find p (update_first p f xs) = Some (f x)"
  by (induction xs) (auto split: if_splits)

lemma find_update_first_other:
  "(\<And>x. p x \<Longrightarrow> \<not> q x) \<Longrightarrow> (\<And>x. p x \<Longrightarrow> \<not> q (f x)) \<Longrightarrow> find q (update_first p f xs) = find q xs"
  by (induction xs) auto

lemma find_Some_props: "find p xs = Some x \<Longrightarrow> x \<in> set xs \<and> p x"
  by (induction xs) (auto split: if_splits)

lemma find_None_all: "find p xs = None \<longleftrightarrow> (\<forall>x \<in> set xs. \<not> p x)"
  by (induction xs) auto

lemma find_skip: "\<forall>x \<in> set xs. \<not> P x \<Longrightarrow> find P (xs @ ys) = find P ys"
  by (induction xs) auto

text \<open>\<open>position(p)\<close> followed by \<open>remove(i)\<close>: the first match is taken out.\<close>

fun remove_first :: "('a \<Rightarrow> bool) \<Rightarrow> 'a list \<Rightarrow> 'a list" where
  "remove_first p [] = []"
| "remove_first p (x # xs) = (if p x then xs else x # remove_first p xs)"

lemma remove_first_length: "find p xs \<noteq> None \<Longrightarrow> Suc (length (remove_first p xs)) = length xs"
  by (induction xs) auto

lemma set_remove_first: "set (remove_first p xs) \<subseteq> set xs"
  by (induction xs) auto

lemma remove_first_keeps: "x \<in> set xs \<Longrightarrow> \<not> p x \<Longrightarrow> x \<in> set (remove_first p xs)"
  by (induction xs) auto

lemma remove_first_filter: "(\<And>x. p x \<Longrightarrow> \<not> q x) \<Longrightarrow> filter q (remove_first p xs) = filter q xs"
  by (induction xs) auto

lemma remove_first_unique:
  "distinct (map f xs) \<Longrightarrow> remove_first (\<lambda>x. f x = k) xs = filter (\<lambda>x. f x \<noteq> k) xs"
proof (induction xs)
  case Nil
  then show ?case by simp
next
  case (Cons x xs)
  show ?case
  proof (cases "f x = k")
    case True
    with Cons.prems have "\<forall>y \<in> set xs. f y \<noteq> k" by (force simp: image_iff)
    then have "filter (\<lambda>y. f y \<noteq> k) xs = xs" by (rule filter_True)
    with True show ?thesis by simp
  next
    case False
    with Cons show ?thesis by simp
  qed
qed

lemma find_distinct:
  "distinct (map f xs) \<Longrightarrow> x \<in> set xs \<Longrightarrow> find (\<lambda>y. f y = f x) xs = Some x"
  by (induction xs) (auto simp: rev_image_eqI)

text \<open>A push followed by \<open>drain(0..len.saturating_sub(cap))\<close>: the newest \<open>cap\<close> survive.\<close>

definition keep_newest :: "nat \<Rightarrow> 'a list \<Rightarrow> 'a list" where
  "keep_newest cap xs = drop (length xs - cap) xs"

lemma keep_newest_length [simp]: "length (keep_newest cap xs) = min cap (length xs)"
  by (simp add: keep_newest_def min_def)

lemma keep_newest_small: "length xs \<le> cap \<Longrightarrow> keep_newest cap xs = xs"
  by (simp add: keep_newest_def)

lemma keep_newest_suffix: "suffix (keep_newest cap xs) xs"
  by (simp add: keep_newest_def suffix_drop)

lemma set_keep_newest: "set (keep_newest cap xs) \<subseteq> set xs"
  by (simp add: keep_newest_def set_drop_subset)

lemma keep_newest_snoc:
  "0 < cap \<Longrightarrow> keep_newest cap (xs @ [x]) = keep_newest (cap - 1) xs @ [x]"
  by (simp add: keep_newest_def)

lemma keep_newest_append:
  "keep_newest cap (keep_newest cap xs @ ys) = keep_newest cap (xs @ ys)"
proof (cases "length xs \<le> cap")
  case True
  then show ?thesis by (simp add: keep_newest_small)
next
  case False
  let ?k = "length xs - cap"
  have "keep_newest cap (keep_newest cap xs @ ys) = drop (length ys) (drop ?k xs @ ys)"
    using False by (simp add: keep_newest_def)
  also have "\<dots> = drop (length ys + ?k) (xs @ ys)"
    by (metis diff_diff_cancel diff_is_0_eq' diff_le_self drop0 drop_append drop_drop)
  also have "length ys + ?k = length (xs @ ys) - cap"
    using False by simp
  finally show ?thesis by (simp add: keep_newest_def)
qed

text \<open>
  A capped append-only log. Every bounded history of the program (verdict history, parked
  work, activity feed, evidence, failures, journal, tuning trail) promises this interface;
  its clients rely on the three lemmas of the locale only.
\<close>

locale capped_log =
  fixes view :: "'s \<Rightarrow> 'a list"
    and push :: "'a \<Rightarrow> 's \<Rightarrow> 's"
    and cap :: nat
  assumes cap_pos: "0 < cap"
    and view_push: "view (push x s) = keep_newest cap (view s @ [x])"
begin

lemma push_bounded: "length (view (push x s)) \<le> cap"
  by (simp add: view_push)

lemma push_newest: "view (push x s) \<noteq> [] \<and> last (view (push x s)) = x"
  using cap_pos by (simp add: view_push keep_newest_snoc)

lemma push_all:
  "length (view s) \<le> cap \<Longrightarrow> view (fold push xs s) = keep_newest cap (view s @ xs)"
proof (induction xs arbitrary: s)
  case Nil
  then show ?case by (simp add: keep_newest_small)
next
  case (Cons x xs)
  have "view (fold push xs (push x s)) = keep_newest cap (view (push x s) @ xs)"
    using push_bounded by (rule Cons.IH)
  also have "\<dots> = keep_newest cap (view s @ x # xs)"
    by (simp add: view_push keep_newest_append)
  finally show ?case by simp
qed

lemma push_all_keeps_tail:
  assumes "length (view s) \<le> cap" and "length xs \<le> cap"
  shows "suffix xs (view (fold push xs s))"
proof -
  have "view (fold push xs s) = drop (length (view s) + length xs - cap) (view s) @ xs"
    using assms by (simp add: push_all keep_newest_def)
  then show ?thesis by (simp add: suffix_def)
qed

end

section \<open>Stable sorting by a comparator\<close>

text \<open>\<open>slice::sort_by\<close> is a stable sort; \<open>le a b\<close> is \<open>cmp(a, b) != Greater\<close>.\<close>

fun insort_by :: "('a \<Rightarrow> 'a \<Rightarrow> bool) \<Rightarrow> 'a \<Rightarrow> 'a list \<Rightarrow> 'a list" where
  "insort_by le x [] = [x]"
| "insort_by le x (y # ys) = (if le x y then x # y # ys else y # insort_by le x ys)"

definition sort_by :: "('a \<Rightarrow> 'a \<Rightarrow> bool) \<Rightarrow> 'a list \<Rightarrow> 'a list" where
  "sort_by le xs = foldr (insort_by le) xs []"

lemma mset_insort_by [simp]: "mset (insort_by le x xs) = add_mset x (mset xs)"
  by (induction xs) auto

lemma mset_sort_by [simp]: "mset (sort_by le xs) = mset xs"
  by (induction xs) (auto simp: sort_by_def)

lemma set_sort_by [simp]: "set (sort_by le xs) = set xs"
  by (rule mset_eq_setD [OF mset_sort_by])

lemma set_insort_by [simp]: "set (insort_by le x xs) = insert x (set xs)"
  by (induction xs) auto

lemma length_sort_by [simp]: "length (sort_by le xs) = length xs"
  by (rule mset_eq_length [OF mset_sort_by])

lemma distinct_sort_by [simp]: "distinct (sort_by le xs) = distinct xs"
  by (rule mset_eq_imp_distinct_iff [OF mset_sort_by])

lemma distinct_map_sort_by [simp]: "distinct (map f (sort_by le xs)) = distinct (map f xs)"
  by (rule mset_eq_imp_distinct_iff) simp

text \<open>The comparators of the program are total preorders; their sorts are ordered.\<close>

locale total_preorder =
  fixes le :: "'a \<Rightarrow> 'a \<Rightarrow> bool"
  assumes le_total: "le x y \<or> le y x"
    and le_trans: "le x y \<Longrightarrow> le y z \<Longrightarrow> le x z"
begin

lemma sorted_insort_by: "sorted_wrt le xs \<Longrightarrow> sorted_wrt le (insort_by le x xs)"
proof (induction xs)
  case Nil
  then show ?case by simp
next
  case (Cons y ys)
  then show ?case using le_total le_trans by auto
qed

lemma sorted_sort_by: "sorted_wrt le (sort_by le xs)"
  by (induction xs) (auto simp: sort_by_def intro: sorted_insort_by)

lemma le_refl: "le x x"
  using le_total by blast

lemma hd_sort_by_le:
  assumes "x \<in> set xs"
  shows "le (hd (sort_by le xs)) x"
proof -
  have "x \<in> set (sort_by le xs)" using assms by simp
  then show ?thesis
    using sorted_sort_by [of xs] le_refl by (cases "sort_by le xs") auto
qed

end

section \<open>Methods that may fail\<close>

type_synonym ('s, 'e, 'a) op = "'s \<Rightarrow> ('e + 'a) \<times> 's"

definition is_ok :: "('e + 'a) \<times> 's \<Rightarrow> bool" where
  "is_ok r = (case fst r of Inl _ \<Rightarrow> False | Inr _ \<Rightarrow> True)"

text \<open>The \<open>?\<close> operator: an error returns at once, with the state as it is then.\<close>

definition and_then :: "('s, 'e, 'a) op \<Rightarrow> ('a \<Rightarrow> ('s, 'e, 'b) op) \<Rightarrow> ('s, 'e, 'b) op" where
  "and_then m f s = (case m s of (Inl e, s') \<Rightarrow> (Inl e, s') | (Inr a, s') \<Rightarrow> f a s')"

text \<open>A method is atomic when a refused call leaves the state as it was.\<close>

definition atomic :: "('s, 'e, 'a) op \<Rightarrow> bool" where
  "atomic m \<longleftrightarrow> (\<forall>s e s'. m s = (Inl e, s') \<longrightarrow> s' = s)"

lemma is_ok_simps [simp]:
  "is_ok (Inl e, s) = False"
  "is_ok (Inr a, s) = True"
  by (simp_all add: is_ok_def)

lemma is_ok_iff: "is_ok r \<longleftrightarrow> (\<exists>a s. r = (Inr a, s))"
  by (cases r; cases "fst r") (auto simp: is_ok_def)

lemma atomicI: "(\<And>s e s'. m s = (Inl e, s') \<Longrightarrow> s' = s) \<Longrightarrow> atomic m"
  by (auto simp: atomic_def)

lemma atomicD: "atomic m \<Longrightarrow> m s = (Inl e, s') \<Longrightarrow> s' = s"
  by (auto simp: atomic_def)

section \<open>Reachable states of a guarded state machine\<close>

text \<open>
  A component whose state changes only through its operations: \<open>init\<close> is what its
  constructor may return, \<open>step\<close> one successful call. An invariant of both holds of every
  state the component can be in.
\<close>

inductive reach :: "('s \<Rightarrow> bool) \<Rightarrow> ('s \<Rightarrow> 's \<Rightarrow> bool) \<Rightarrow> 's \<Rightarrow> bool"
  for init :: "'s \<Rightarrow> bool" and step :: "'s \<Rightarrow> 's \<Rightarrow> bool" where
  reach_init: "init s \<Longrightarrow> reach init step s"
| reach_step: "reach init step s \<Longrightarrow> step s t \<Longrightarrow> reach init step t"

locale invariant_system =
  fixes init :: "'s \<Rightarrow> bool"
    and step :: "'s \<Rightarrow> 's \<Rightarrow> bool"
    and inv :: "'s \<Rightarrow> bool"
  assumes inv_init: "init s \<Longrightarrow> inv s"
    and inv_step: "inv s \<Longrightarrow> step s t \<Longrightarrow> inv t"
begin

lemma reach_inv: "reach init step s \<Longrightarrow> inv s"
  by (induction rule: reach.induct) (auto intro: inv_init inv_step)

lemma steps_inv: "step\<^sup>*\<^sup>* s t \<Longrightarrow> inv s \<Longrightarrow> inv t"
  by (induction rule: rtranclp_induct) (auto intro: inv_step)

end

end
