(* ===== verification/Kinds.thy ===== *)
theory Kinds
  imports Prelude
begin

text \<open>
  The value objects of the domain crate: ticket kind, priority, sizing, lifecycle status and
  team role (\<open>domain/src/kinds.rs\<close>), the newtype identifiers (\<open>ids.rs\<close>), the domain errors
  (\<open>error.rs\<close>) and the domain events (\<open>events.rs\<close>). Constructors keep the source's names;
  where two enums share one (\<open>Medium\<close>) the second carries a prefix.
\<close>

section \<open>Enumerations (kinds.rs)\<close>

datatype ticket_type = Feature | Bug | Chore

definition ticket_type_key :: "ticket_type \<Rightarrow> string" where
  "ticket_type_key k = (case k of Feature \<Rightarrow> ''feature'' | Bug \<Rightarrow> ''bug'' | Chore \<Rightarrow> ''chore'')"

datatype intervention_kind =
    ReadyApprove | VerifyPass | VerifySendBack | CostApprove
  | HumanPrReviewed | HumanPrDismissed | UndoAutoApprove

definition intervention_key :: "intervention_kind \<Rightarrow> string" where
  "intervention_key k =
     (case k of
        ReadyApprove \<Rightarrow> ''ready_approve''
      | VerifyPass \<Rightarrow> ''verify_pass''
      | VerifySendBack \<Rightarrow> ''verify_send_back''
      | CostApprove \<Rightarrow> ''cost_approve''
      | HumanPrReviewed \<Rightarrow> ''human_pr_reviewed''
      | HumanPrDismissed \<Rightarrow> ''human_pr_dismissed''
      | UndoAutoApprove \<Rightarrow> ''undo_auto_approve'')"

definition intervention_ALL :: "intervention_kind list" where
  "intervention_ALL =
     [ReadyApprove, VerifyPass, VerifySendBack, CostApprove, HumanPrReviewed,
      HumanPrDismissed, UndoAutoApprove]"

datatype priority = Low | Medium | High

text \<open>The derived \<open>Ord\<close> of \<open>Priority\<close> follows the declaration order.\<close>

instantiation priority :: linorder
begin

definition less_eq_priority :: "priority \<Rightarrow> priority \<Rightarrow> bool" where
  "p \<le> q \<longleftrightarrow> p = Low \<or> q = High \<or> p = q"

definition less_priority :: "priority \<Rightarrow> priority \<Rightarrow> bool" where
  "(p :: priority) < q \<longleftrightarrow> p \<le> q \<and> p \<noteq> q"

instance
proof
  fix p q r :: priority
  show "p < q \<longleftrightarrow> p \<le> q \<and> \<not> q \<le> p"
    by (cases p; cases q) (auto simp: less_priority_def less_eq_priority_def)
  show "p \<le> p" by (simp add: less_eq_priority_def)
  show "p \<le> q \<Longrightarrow> q \<le> r \<Longrightarrow> p \<le> r" by (auto simp: less_eq_priority_def)
  show "p \<le> q \<Longrightarrow> q \<le> p \<Longrightarrow> p = q" by (auto simp: less_eq_priority_def)
  show "p \<le> q \<or> q \<le> p"
    by (cases p; cases q) (auto simp: less_eq_priority_def)
qed

end

datatype complexity = Small | CMedium | Large

datatype status =
    Pending | Ready | InProgress | Done | Documented | Rejected | OnHold
  | Open | Fixed | Verified

datatype role = Ba | Po | Sm | Sa | Pd | DevBug | DevFeature | Test | Docs | User | System

section \<open>Domain errors (error.rs)\<close>

datatype domain_error =
    Empty string
  | InvalidTransition ticket_type status status
  | FieldNotPermitted role string
  | TransitionNotPermitted role status status
  | NotReady string
  | CoverageIncomplete nat string
  | InvalidVersion string
  | AlreadyClaimed string

section \<open>Identifiers (ids.rs)\<close>

datatype ticket_id = TicketId (ticket_id_str: string)

datatype goal_id = GoalId (goal_id_str: string)

datatype worker_id = WorkerId (worker_id_str: string)

definition ticket_id_new :: "string \<Rightarrow> domain_error + ticket_id" where
  "ticket_id_new raw = (if is_blank raw then Inl (Empty ''ticket_id'') else Inr (TicketId raw))"

definition goal_id_new :: "string \<Rightarrow> domain_error + goal_id" where
  "goal_id_new raw = (if is_blank raw then Inl (Empty ''goal_id'') else Inr (GoalId raw))"

definition worker_id_new :: "string \<Rightarrow> domain_error + worker_id" where
  "worker_id_new raw = (if is_blank raw then Inl (Empty ''worker_id'') else Inr (WorkerId raw))"

text \<open>The derived \<open>Ord\<close> of \<open>TicketId\<close> is the order of the wrapped strings.\<close>

instantiation ticket_id :: linorder
begin

definition less_eq_ticket_id :: "ticket_id \<Rightarrow> ticket_id \<Rightarrow> bool" where
  "a \<le> b \<longleftrightarrow> ticket_id_str a \<le> ticket_id_str b"

definition less_ticket_id :: "ticket_id \<Rightarrow> ticket_id \<Rightarrow> bool" where
  "a < b \<longleftrightarrow> ticket_id_str a < ticket_id_str b"

instance
  by standard (auto simp: less_eq_ticket_id_def less_ticket_id_def intro: ticket_id.expand)

end

section \<open>Domain events (events.rs)\<close>

datatype design_part = Technical | Ux

datatype event_kind =
    TicketCreated ticket_id
  | TicketTransitioned ticket_id status status
  | PriorityChanged ticket_id
  | DesignAttached ticket_id design_part

record domain_event =
  ev_at :: string
  ev_actor :: role
  ev_kind :: event_kind

definition domain_event_new :: "string \<Rightarrow> role \<Rightarrow> event_kind \<Rightarrow> domain_event" where
  "domain_event_new t actor kind = \<lparr>ev_at = t, ev_actor = actor, ev_kind = kind\<rparr>"

section \<open>Lemmas\<close>

lemma ticket_id_new_ok_iff: "(\<exists>i. ticket_id_new raw = Inr i) \<longleftrightarrow> \<not> is_blank raw"
  by (simp add: ticket_id_new_def)

lemma ticket_id_new_str: "ticket_id_new raw = Inr i \<Longrightarrow> ticket_id_str i = raw \<and> \<not> is_blank raw"
  by (auto simp: ticket_id_new_def split: if_splits)

lemma inj_ticket_type_key: "inj ticket_type_key"
  by (rule injI) (auto simp: ticket_type_key_def split: ticket_type.splits)

text \<open>
  The wire keys of the interventions are pairwise distinct and \<open>ALL\<close> lists every kind once:
  an aggregated row zero-filled from \<open>ALL\<close> has one cell per kind.
\<close>

lemma intervention_ALL_complete: "set intervention_ALL = UNIV"
proof -
  have "k \<in> set intervention_ALL" for k by (cases k) (simp_all add: intervention_ALL_def)
  then show ?thesis by blast
qed

lemma intervention_ALL_distinct_keys: "distinct (map intervention_key intervention_ALL)"
  by (simp add: intervention_ALL_def intervention_key_def)

end
