(* ===== verification/Test_Case.thy ===== *)
theory Test_Case
  imports Kinds
begin

text \<open>
  Test cases, their verdicts, evidence and bounded verdict history, and the pure part of the
  coverage matrix (\<open>domain/src/test_case.rs\<close> and \<open>domain/src/coverage.rs\<close>). The methods
  that work on a whole ticket are in \<open>Ticket_Cases\<close>; here are the data and what one case
  does when a verdict, an image, a reproduction link or a source list arrives.
\<close>

section \<open>Data\<close>

datatype test_case_status = TcPending | TcPassed | TcFailed

definition MAX_VERDICT_HISTORY :: nat where
  "MAX_VERDICT_HISTORY = 12"

datatype record_kind = Verdict | EvidenceRefresh

record verdict_record =
  vr_kind :: record_kind
  vr_status :: test_case_status
  vr_note :: "string option"
  vr_image :: "string option"
  vr_at :: string

record case_evidence =
  ce_image :: "string option"
  ce_note :: "string option"
  ce_repro :: "string option"
  ce_at :: string

definition case_evidence_empty :: case_evidence where
  "case_evidence_empty = \<lparr>ce_image = None, ce_note = None, ce_repro = None, ce_at = ''''\<rparr>"

record test_case =
  tc_description :: string
  tc_status :: test_case_status
  tc_evidence :: "case_evidence option"
  tc_sources :: "string list"
  tc_history :: "verdict_record list"

definition test_case_fresh :: "string \<Rightarrow> test_case" where
  "test_case_fresh ac =
     \<lparr>tc_description = ac, tc_status = TcPending, tc_evidence = None, tc_sources = [],
      tc_history = []\<rparr>"

section \<open>What one case does\<close>

definition trim_verdict_history :: "test_case \<Rightarrow> test_case" where
  "trim_verdict_history tc = tc\<lparr>tc_history := keep_newest MAX_VERDICT_HISTORY (tc_history tc)\<rparr>"

definition push_record :: "verdict_record \<Rightarrow> test_case \<Rightarrow> test_case" where
  "push_record r tc = trim_verdict_history (tc\<lparr>tc_history := tc_history tc @ [r]\<rparr>)"

text \<open>The body of \<open>set_test_case_result\<close> on the case that matched.\<close>

definition record_verdict ::
  "bool \<Rightarrow> string option \<Rightarrow> string option \<Rightarrow> string \<Rightarrow> test_case \<Rightarrow> test_case" where
  "record_verdict passed note img tm tc =
     (let st = (if passed then TcPassed else TcFailed);
          keep_image = (case img of Some i \<Rightarrow> Some i
                        | None \<Rightarrow> Option.bind (tc_evidence tc) ce_image);
          keep_repro = Option.bind (tc_evidence tc) ce_repro;
          ev = \<lparr>ce_image = keep_image, ce_note = note, ce_repro = keep_repro, ce_at = tm\<rparr>
      in push_record
           \<lparr>vr_kind = Verdict, vr_status = st, vr_note = ce_note ev, vr_image = ce_image ev,
            vr_at = tm\<rparr>
           (tc\<lparr>tc_status := st, tc_evidence := Some ev\<rparr>))"

text \<open>The body of \<open>set_test_case_image\<close>: evidence without a new verdict.\<close>

definition record_image :: "string \<Rightarrow> string \<Rightarrow> test_case \<Rightarrow> test_case" where
  "record_image img tm tc =
     (let ev = \<lparr>ce_image = Some img, ce_note = Option.bind (tc_evidence tc) ce_note,
                ce_repro = Option.bind (tc_evidence tc) ce_repro, ce_at = tm\<rparr>
      in push_record
           \<lparr>vr_kind = EvidenceRefresh, vr_status = tc_status tc, vr_note = ce_note ev,
            vr_image = ce_image ev, vr_at = tm\<rparr>
           (tc\<lparr>tc_evidence := Some ev\<rparr>))"

text \<open>The body of \<open>set_test_case_repro\<close>: \<open>get_or_insert_with(CaseEvidence::empty)\<close>.\<close>

definition record_repro :: "string \<Rightarrow> test_case \<Rightarrow> test_case" where
  "record_repro repro tc =
     (let ev = (case tc_evidence tc of Some e \<Rightarrow> e | None \<Rightarrow> case_evidence_empty)
      in tc\<lparr>tc_evidence := Some (ev\<lparr>ce_repro := Some repro\<rparr>)\<rparr>)"

section \<open>Coverage (coverage.rs)\<close>

datatype coverage_status = Covered | PartiallyCovered | NotTested

record coverage_entry =
  cov_criterion :: string
  cov_status :: coverage_status
  cov_sources :: "string list"

definition status_of_case :: "test_case option \<Rightarrow> coverage_status" where
  "status_of_case c =
     (case map_option tc_status c of
        Some TcPassed \<Rightarrow> Covered
      | Some TcFailed \<Rightarrow> PartiallyCovered
      | Some TcPending \<Rightarrow> NotTested
      | None \<Rightarrow> NotTested)"

definition find_case :: "string \<Rightarrow> test_case list \<Rightarrow> test_case option" where
  "find_case d cases = find (\<lambda>c. tc_description c = d) cases"

definition uncovered :: "string list \<Rightarrow> test_case list \<Rightarrow> string list" where
  "uncovered criteria cases =
     filter (\<lambda>ac. map_option tc_status (find_case ac cases) \<noteq> Some TcPassed) criteria"

definition matrix_rows :: "string list \<Rightarrow> test_case list \<Rightarrow> coverage_entry list" where
  "matrix_rows criteria cases =
     map (\<lambda>ac. let c = find_case ac cases in
            \<lparr>cov_criterion = ac, cov_status = status_of_case c,
             cov_sources = (case c of Some x \<Rightarrow> tc_sources x | None \<Rightarrow> [])\<rparr>) criteria"

section \<open>Lemmas\<close>

lemma status_of_case_covered:
  "status_of_case c = Covered \<longleftrightarrow> map_option tc_status c = Some TcPassed"
  by (cases c) (auto simp: status_of_case_def split: test_case_status.splits)

lemma uncovered_eq_rows:
  "uncovered criteria cases =
     map cov_criterion (filter (\<lambda>e. cov_status e \<noteq> Covered) (matrix_rows criteria cases))"
  by (induction criteria)
    (auto simp: uncovered_def matrix_rows_def Let_def status_of_case_covered)

lemma uncovered_Nil_iff:
  "uncovered criteria cases = [] \<longleftrightarrow>
     (\<forall>ac \<in> set criteria. \<exists>c. find_case ac cases = Some c \<and> tc_status c = TcPassed)"
  by (auto simp: uncovered_def filter_empty_conv)

lemma matrix_rows_criteria: "map cov_criterion (matrix_rows criteria cases) = criteria"
  by (induction criteria) (auto simp: matrix_rows_def Let_def)

lemma find_case_Some: "find_case d cs = Some c \<Longrightarrow> c \<in> set cs \<and> tc_description c = d"
  unfolding find_case_def by (drule find_Some_props) simp

text \<open>The verdict history is a capped log.\<close>

interpretation verdicts: capped_log tc_history push_record MAX_VERDICT_HISTORY
  by unfold_locales
    (simp_all add: MAX_VERDICT_HISTORY_def push_record_def trim_verdict_history_def)

lemma push_record_frame [simp]:
  "tc_description (push_record r tc) = tc_description tc"
  "tc_status (push_record r tc) = tc_status tc"
  "tc_evidence (push_record r tc) = tc_evidence tc"
  "tc_sources (push_record r tc) = tc_sources tc"
  by (simp_all add: push_record_def trim_verdict_history_def)

lemma record_verdict_frame [simp]:
  "tc_description (record_verdict p n i a tc) = tc_description tc"
  "tc_status (record_verdict p n i a tc) = (if p then TcPassed else TcFailed)"
  "tc_sources (record_verdict p n i a tc) = tc_sources tc"
  by (simp_all add: record_verdict_def Let_def)

lemma record_image_frame [simp]:
  "tc_description (record_image i a tc) = tc_description tc"
  "tc_status (record_image i a tc) = tc_status tc"
  "tc_sources (record_image i a tc) = tc_sources tc"
  by (simp_all add: record_image_def Let_def)

lemma record_repro_frame [simp]:
  "tc_description (record_repro r tc) = tc_description tc"
  "tc_status (record_repro r tc) = tc_status tc"
  "tc_history (record_repro r tc) = tc_history tc"
  by (simp_all add: record_repro_def Let_def)

lemma record_verdict_bounded:
  "length (tc_history (record_verdict p n i a tc)) \<le> MAX_VERDICT_HISTORY"
  unfolding record_verdict_def Let_def by (rule verdicts.push_bounded)

lemma record_image_bounded:
  "length (tc_history (record_image i a tc)) \<le> MAX_VERDICT_HISTORY"
  unfolding record_image_def Let_def by (rule verdicts.push_bounded)

text \<open>A verdict without an image never erases the screenshot already attached.\<close>

lemma record_verdict_keeps_image:
  assumes "tc_evidence tc = Some e" and "ce_image e = Some img"
  shows "Option.bind (tc_evidence (record_verdict p n None a tc)) ce_image = Some img"
  using assms by (simp add: record_verdict_def Let_def)

lemma record_verdict_keeps_repro:
  "Option.bind (tc_evidence (record_verdict p n i a tc)) ce_repro =
   Option.bind (tc_evidence tc) ce_repro"
  by (simp add: record_verdict_def Let_def)

text \<open>The pass/fail trajectory: only verdicts are steps of it.\<close>

definition trajectory :: "test_case \<Rightarrow> test_case_status list" where
  "trajectory tc = map vr_status (filter (\<lambda>r. vr_kind r = Verdict) (tc_history tc))"

lemma trajectory_push:
  "length (tc_history tc) < MAX_VERDICT_HISTORY \<Longrightarrow>
   trajectory (push_record r tc) =
     trajectory tc @ (if vr_kind r = Verdict then [vr_status r] else [])"
  by (simp add: trajectory_def push_record_def trim_verdict_history_def keep_newest_def)

lemma trajectory_verdict:
  assumes "length (tc_history tc) < MAX_VERDICT_HISTORY"
  shows "trajectory (record_verdict p n i a tc) = trajectory tc @ [if p then TcPassed else TcFailed]"
proof -
  have "trajectory (tc\<lparr>tc_status := s, tc_evidence := e\<rparr>) = trajectory tc" for s e
    by (simp add: trajectory_def)
  then show ?thesis using assms by (simp add: record_verdict_def Let_def trajectory_push)
qed

lemma trajectory_image:
  assumes "length (tc_history tc) < MAX_VERDICT_HISTORY"
  shows "trajectory (record_image i a tc) = trajectory tc"
proof -
  have "trajectory (tc\<lparr>tc_evidence := e\<rparr>) = trajectory tc" for e
    by (simp add: trajectory_def)
  then show ?thesis using assms by (simp add: record_image_def Let_def trajectory_push)
qed

end
