(* ===== verification/Ticket.thy ===== *)
theory Ticket
  imports Transitions Test_Case
begin

text \<open>
  The \<open>Ticket\<close> aggregate root (\<open>domain/src/ticket.rs\<close>): its record, its constructor and its
  guarded mutations. Every method that may be refused returns the \<open>Result\<close> together with the
  ticket it leaves behind, so that "a refused call changes nothing" is a theorem and not an
  artefact of the model.
\<close>

section \<open>Data\<close>

record technical_design =
  td_approach :: string
  td_files :: "string list"
  td_api_contract :: string
  td_data_changes :: string
  td_test_plan :: string
  td_alternatives :: string

record ux_design =
  ux_user_flow :: string
  ux_screens :: "string list"
  ux_component_states :: "string list"
  ux_responsive_notes :: string

record design =
  d_technical :: "technical_design option"
  d_ux :: "ux_design option"

record wip_checkpoint =
  wc_ref_name :: string
  wc_sha :: string
  wc_note :: string
  wc_recorded_at :: string

record ticket =
  tk_id :: ticket_id
  tk_kind :: ticket_type
  tk_title :: string
  tk_description :: string
  tk_priority :: priority
  tk_complexity :: complexity
  tk_status :: status
  tk_has_ui :: bool
  tk_design :: design
  tk_parent_id :: "ticket_id option"
  tk_depends_on :: "ticket_id list"
  tk_acceptance_criteria :: "string list"
  tk_test_cases :: "test_case list"
  tk_claimed_by :: "string option"
  tk_claimed_at :: "string option"
  tk_assignee :: "string option"
  tk_goal_id :: "goal_id option"
  tk_created_at :: "string option"
  tk_wip_checkpoints :: "wip_checkpoint list"
  tk_service_tag :: "string option"

type_synonym 'a ticket_op = "(ticket, domain_error, 'a) op"

definition technical_design_default :: technical_design where
  "technical_design_default =
     \<lparr>td_approach = '''', td_files = [], td_api_contract = '''', td_data_changes = '''',
      td_test_plan = '''', td_alternatives = ''''\<rparr>"

definition ux_design_default :: ux_design where
  "ux_design_default =
     \<lparr>ux_user_flow = '''', ux_screens = [], ux_component_states = [], ux_responsive_notes = ''''\<rparr>"

definition design_default :: design where
  "design_default = \<lparr>d_technical = None, d_ux = None\<rparr>"

section \<open>Construction and unguarded setters\<close>

definition ticket_new ::
  "ticket_id \<Rightarrow> ticket_type \<Rightarrow> string \<Rightarrow> string \<Rightarrow> priority \<Rightarrow> complexity \<Rightarrow> bool
   \<Rightarrow> domain_error + ticket" where
  "ticket_new i k ttl descr prio cpx ui =
     (if is_blank ttl then Inl (Empty ''title'')
      else Inr
        \<lparr>tk_id = i, tk_kind = k, tk_title = ttl, tk_description = descr, tk_priority = prio,
         tk_complexity = cpx,
         tk_status = (case k of Bug \<Rightarrow> Open | Feature \<Rightarrow> Pending | Chore \<Rightarrow> Pending),
         tk_has_ui = ui, tk_design = design_default, tk_parent_id = None, tk_depends_on = [],
         tk_acceptance_criteria = [], tk_test_cases = [], tk_claimed_by = None,
         tk_claimed_at = None, tk_assignee = None, tk_goal_id = None, tk_created_at = None,
         tk_wip_checkpoints = [], tk_service_tag = None\<rparr>)"

definition set_acceptance_criteria :: "string list \<Rightarrow> ticket \<Rightarrow> ticket" where
  "set_acceptance_criteria criteria t =
     t\<lparr>tk_acceptance_criteria := take 5 (filter (\<lambda>c. c \<noteq> []) (map trim criteria))\<rparr>"

definition assign_to_human :: "string \<Rightarrow> ticket \<Rightarrow> ticket" where
  "assign_to_human username t =
     (let u = trim username in t\<lparr>tk_assignee := (if u = [] then None else Some u)\<rparr>)"

definition stamp_created_at :: "string \<Rightarrow> ticket \<Rightarrow> ticket" where
  "stamp_created_at tm t =
     (if tk_created_at t = None then t\<lparr>tk_created_at := Some tm\<rparr> else t)"

section \<open>Guarded setters\<close>

definition set_goal_id :: "role \<Rightarrow> goal_id \<Rightarrow> unit ticket_op" where
  "set_goal_id actor g t =
     (if \<not> field_permitted actor ''goal_id''
      then (Inl (FieldNotPermitted actor ''goal_id''), t)
      else (Inr (), t\<lparr>tk_goal_id := Some g\<rparr>))"

definition set_service_tag :: "role \<Rightarrow> string \<Rightarrow> unit ticket_op" where
  "set_service_tag actor tag t =
     (if \<not> field_permitted actor ''service_tag''
      then (Inl (FieldNotPermitted actor ''service_tag''), t)
      else let tag' = trim tag in
        (Inr (), t\<lparr>tk_service_tag := (if tag' = [] then None else Some tag')\<rparr>))"

definition edit :: "role \<Rightarrow> string \<Rightarrow> string \<Rightarrow> unit ticket_op" where
  "edit actor ttl descr t =
     (if actor \<notin> {Po, User} then (Inl (FieldNotPermitted actor ''title''), t)
      else if is_blank ttl then (Inl (Empty ''title''), t)
      else (Inr (), t\<lparr>tk_title := ttl, tk_description := descr\<rparr>))"

definition clarify :: "role \<Rightarrow> string \<Rightarrow> unit ticket_op" where
  "clarify actor descr t =
     (if actor \<notin> {Ba, Po, User} then (Inl (FieldNotPermitted actor ''description''), t)
      else if is_blank descr then (Inl (Empty ''description''), t)
      else (Inr (), t\<lparr>tk_description := trim descr\<rparr>))"

definition set_priority :: "role \<Rightarrow> priority \<Rightarrow> unit ticket_op" where
  "set_priority actor p t =
     (if \<not> field_permitted actor ''priority''
      then (Inl (FieldNotPermitted actor ''priority''), t)
      else (Inr (), t\<lparr>tk_priority := p\<rparr>))"

definition set_technical_design :: "role \<Rightarrow> technical_design \<Rightarrow> unit ticket_op" where
  "set_technical_design actor d t =
     (if \<not> field_permitted actor ''design.technical''
      then (Inl (FieldNotPermitted actor ''design.technical''), t)
      else (Inr (), t\<lparr>tk_design := (tk_design t)\<lparr>d_technical := Some d\<rparr>\<rparr>))"

definition set_ux_design :: "role \<Rightarrow> ux_design \<Rightarrow> unit ticket_op" where
  "set_ux_design actor d t =
     (if \<not> field_permitted actor ''design.ux''
      then (Inl (FieldNotPermitted actor ''design.ux''), t)
      else (Inr (), t\<lparr>tk_design := (tk_design t)\<lparr>d_ux := Some d\<rparr>\<rparr>))"

definition set_parent :: "role \<Rightarrow> ticket_id \<Rightarrow> unit ticket_op" where
  "set_parent actor parent t =
     (if \<not> field_permitted actor ''parent_id''
      then (Inl (FieldNotPermitted actor ''parent_id''), t)
      else (Inr (), t\<lparr>tk_parent_id := Some parent\<rparr>))"

definition remove_dependency :: "role \<Rightarrow> string \<Rightarrow> unit ticket_op" where
  "remove_dependency actor dep t =
     (if \<not> field_permitted actor ''depends_on''
      then (Inl (FieldNotPermitted actor ''depends_on''), t)
      else (Inr (), t\<lparr>tk_depends_on := filter (\<lambda>d. ticket_id_str d \<noteq> dep) (tk_depends_on t)\<rparr>))"

definition add_dependency :: "role \<Rightarrow> ticket_id \<Rightarrow> unit ticket_op" where
  "add_dependency actor dep t =
     (if \<not> field_permitted actor ''depends_on''
      then (Inl (FieldNotPermitted actor ''depends_on''), t)
      else if dep \<in> set (tk_depends_on t) then (Inr (), t)
      else (Inr (), t\<lparr>tk_depends_on := tk_depends_on t @ [dep]\<rparr>))"

section \<open>Status, claims and recovery\<close>

definition check_ready :: "ticket \<Rightarrow> domain_error + unit" where
  "check_ready t =
     (if d_technical (tk_design t) = None then Inl (NotReady ''design.technical'')
      else if tk_has_ui t \<and> d_ux (tk_design t) = None then Inl (NotReady ''design.ux'')
      else Inr ())"

definition check_covered :: "ticket \<Rightarrow> domain_error + unit" where
  "check_covered t =
     (case uncovered (tk_acceptance_criteria t) (tk_test_cases t) of
        [] \<Rightarrow> Inr ()
      | first # rest \<Rightarrow> Inl (CoverageIncomplete (length (first # rest)) first))"

definition transition_to :: "role \<Rightarrow> status \<Rightarrow> unit ticket_op" where
  "transition_to actor dst t =
     (let frm = tk_status t in
      if \<not> transition_allowed (tk_kind t) frm dst
      then (Inl (InvalidTransition (tk_kind t) frm dst), t)
      else if \<not> can_transition actor frm dst
      then (Inl (TransitionNotPermitted actor frm dst), t)
      else case (if dst = Ready then check_ready t else Inr ()) of Inl e \<Rightarrow> (Inl e, t)
      | Inr _ \<Rightarrow> (case (if dst = Verified then check_covered t else Inr ()) of Inl e \<Rightarrow> (Inl e, t)
      | Inr _ \<Rightarrow>
          (let t' = t\<lparr>tk_status := dst\<rparr> in
           (Inr (), if dst \<noteq> InProgress
                    then t'\<lparr>tk_claimed_by := None, tk_claimed_at := None\<rparr> else t'))))"

definition claim :: "role \<Rightarrow> string \<Rightarrow> string \<Rightarrow> unit ticket_op" where
  "claim actor worker now t =
     (case tk_claimed_by t of
        Some holder \<Rightarrow> (Inl (AlreadyClaimed holder), t)
      | None \<Rightarrow>
          and_then (transition_to actor InProgress)
            (\<lambda>_ t'. (Inr (), t'\<lparr>tk_claimed_by := Some worker, tk_claimed_at := Some now\<rparr>)) t)"

definition release_claim :: "role \<Rightarrow> unit ticket_op" where
  "release_claim actor t =
     (if actor \<noteq> System then (Inl (FieldNotPermitted actor ''claim''), t)
      else if tk_status t \<noteq> InProgress
      then (Inl (InvalidTransition (tk_kind t) (tk_status t) (tk_status t)), t)
      else (Inr (), t\<lparr>tk_status := (case tk_kind t of Bug \<Rightarrow> Open | Feature \<Rightarrow> Ready | Chore \<Rightarrow> Ready),
                      tk_claimed_by := None, tk_claimed_at := None\<rparr>))"

definition reclaim_misfiled :: "role \<Rightarrow> bool ticket_op" where
  "reclaim_misfiled actor t =
     (if actor \<noteq> System then (Inl (FieldNotPermitted actor ''status''), t)
      else if \<not> (tk_kind t = Bug \<and> tk_status t \<in> {Pending, Ready, Done, Documented})
      then (Inr False, t)
      else (Inr True, t\<lparr>tk_status := Open, tk_claimed_by := None, tk_claimed_at := None\<rparr>))"

definition take_over :: "role \<Rightarrow> string \<Rightarrow> string \<Rightarrow> string option ticket_op" where
  "take_over actor worker now t =
     (if actor \<noteq> System then (Inl (FieldNotPermitted actor ''claim''), t)
      else if tk_status t \<noteq> InProgress
      then (Inl (InvalidTransition (tk_kind t) (tk_status t) (tk_status t)), t)
      else (Inr (tk_claimed_by t),
            t\<lparr>tk_claimed_by := Some worker, tk_claimed_at := Some now\<rparr>))"

lemmas [op_defs] =
  set_goal_id_def set_service_tag_def edit_def clarify_def set_priority_def
  set_technical_design_def set_ux_design_def set_parent_def remove_dependency_def
  add_dependency_def transition_to_def claim_def and_then_def release_claim_def
  reclaim_misfiled_def take_over_def Let_def

section \<open>What each method does\<close>

definition dor :: "ticket \<Rightarrow> bool" where
  "dor t \<longleftrightarrow> d_technical (tk_design t) \<noteq> None \<and> (tk_has_ui t \<longrightarrow> d_ux (tk_design t) \<noteq> None)"

lemma check_ready_iff: "check_ready t = Inr () \<longleftrightarrow> dor t"
  by (auto simp: check_ready_def dor_def)

lemma check_ready_cases: "check_ready t = Inr () \<or> (\<exists>m. check_ready t = Inl (NotReady m))"
  by (simp add: check_ready_def)

definition covered :: "ticket \<Rightarrow> bool" where
  "covered t \<longleftrightarrow> uncovered (tk_acceptance_criteria t) (tk_test_cases t) = []"

lemma check_covered_iff: "check_covered t = Inr () \<longleftrightarrow> covered t"
  by (auto simp: check_covered_def covered_def split: list.splits)

text \<open>The guards of a transition, as one predicate, and its effect, as one function.\<close>

definition may_move :: "role \<Rightarrow> status \<Rightarrow> ticket \<Rightarrow> bool" where
  "may_move actor dst t \<longleftrightarrow>
     transition_allowed (tk_kind t) (tk_status t) dst \<and> can_transition actor (tk_status t) dst
     \<and> (dst = Ready \<longrightarrow> dor t) \<and> (dst = Verified \<longrightarrow> covered t)"

definition moved :: "status \<Rightarrow> ticket \<Rightarrow> ticket" where
  "moved dst t =
     (if dst = InProgress then t\<lparr>tk_status := InProgress\<rparr>
      else t\<lparr>tk_status := dst, tk_claimed_by := None, tk_claimed_at := None\<rparr>)"

lemma transition_to_ok: "may_move actor dst t \<Longrightarrow> transition_to actor dst t = (Inr (), moved dst t)"
  by (auto simp: transition_to_def may_move_def moved_def Let_def
      check_ready_iff [symmetric] check_covered_iff [symmetric] split: sum.splits)

lemma transition_to_err: "\<not> may_move actor dst t \<Longrightarrow> \<exists>e. transition_to actor dst t = (Inl e, t)"
proof (cases "transition_allowed (tk_kind t) (tk_status t) dst
    \<and> can_transition actor (tk_status t) dst")
  case False
  then show ?thesis
    by (cases "transition_allowed (tk_kind t) (tk_status t) dst")
      (simp_all add: transition_to_def Let_def)
next
  case True
  assume no: "\<not> may_move actor dst t"
  show ?thesis
  proof (cases "dst = Ready")
    case ready: True
    with no True have "\<not> dor t" by (simp add: may_move_def)
    then obtain m where "check_ready t = Inl (NotReady m)"
      using check_ready_cases check_ready_iff by blast
    with True ready show ?thesis by (simp add: transition_to_def)
  next
    case False
    with no True have "dst = Verified" "\<not> covered t" by (simp_all add: may_move_def)
    then obtain e where "check_covered t = Inl e"
      using check_covered_iff by (metis old.sum.exhaust old.unit.exhaust)
    with True \<open>dst = Verified\<close> show ?thesis by (simp add: transition_to_def)
  qed
qed

lemma transition_to_ok_iff: "is_ok (transition_to actor dst t) \<longleftrightarrow> may_move actor dst t"
  using transition_to_ok transition_to_err by (metis is_ok_simps)

lemma transition_to_split:
  "transition_to actor dst t = (r, t') \<Longrightarrow>
   (may_move actor dst t \<and> r = Inr () \<and> t' = moved dst t)
   \<or> (\<not> may_move actor dst t \<and> (\<exists>e. r = Inl e) \<and> t' = t)"
  using transition_to_ok [of actor dst t] transition_to_err [of actor dst t]
  by (cases "may_move actor dst t") auto

lemma claim_ok:
  assumes "tk_claimed_by t = None" and "may_move actor InProgress t"
  shows "claim actor w now t =
    (Inr (), t\<lparr>tk_status := InProgress, tk_claimed_by := Some w, tk_claimed_at := Some now\<rparr>)"
  using assms by (simp add: claim_def and_then_def transition_to_ok moved_def)

lemma claim_ok_iff:
  "is_ok (claim actor w now t) \<longleftrightarrow> tk_claimed_by t = None \<and> may_move actor InProgress t"
proof (cases "tk_claimed_by t")
  case None
  show ?thesis
  proof (cases "may_move actor InProgress t")
    case True
    with None show ?thesis by (simp add: claim_ok)
  next
    case False
    then obtain e where "transition_to actor InProgress t = (Inl e, t)"
      using transition_to_err by blast
    with None False show ?thesis by (simp add: claim_def and_then_def)
  qed
next
  case (Some h)
  then show ?thesis by (simp add: claim_def)
qed

lemma claim_held: "tk_claimed_by t = Some h \<Longrightarrow> claim actor w now t = (Inl (AlreadyClaimed h), t)"
  by (simp add: claim_def)

lemma claim_result:
  "claim actor w now t = (Inr (), t') \<Longrightarrow>
   t' = t\<lparr>tk_status := InProgress, tk_claimed_by := Some w, tk_claimed_at := Some now\<rparr>
   \<and> tk_claimed_by t = None \<and> may_move actor InProgress t"
  using claim_ok_iff [of actor w now t] claim_ok [of t actor w now] by auto

section \<open>A refused call changes nothing\<close>

lemma atomic_setters:
  "atomic (set_goal_id a g)" "atomic (set_service_tag a tag)" "atomic (edit a ttl d)"
  "atomic (clarify a d)" "atomic (set_priority a p)" "atomic (set_technical_design a td)"
  "atomic (set_ux_design a ux)" "atomic (set_parent a i)" "atomic (remove_dependency a dep)"
  "atomic (add_dependency a i)" "atomic (release_claim a)" "atomic (reclaim_misfiled a)"
  "atomic (take_over a w now)"
  by (rule atomicI; simp add: op_defs split: if_splits)+

lemma atomic_transition_to: "atomic (transition_to a dst)"
  by (rule atomicI) (auto dest: transition_to_split)

lemma atomic_claim: "atomic (claim a w now)"
proof (rule atomicI)
  fix t e t' assume *: "claim a w now t = (Inl e, t')"
  show "t' = t"
  proof (cases "tk_claimed_by t")
    case (Some h)
    with * show ?thesis by (simp add: claim_held)
  next
    case None
    with * have "transition_to a InProgress t = (Inl e, t')"
      by (auto simp: claim_def and_then_def split: prod.splits sum.splits)
    then show ?thesis using atomic_transition_to by (rule atomicD [rotated])
  qed
qed

end
