(* ===== verification/Ticket_Cases.thy ===== *)
theory Ticket_Cases
  imports Ticket
begin

text \<open>
  The seams of the aggregate that live in files of their own: reconciling the test cases with
  the acceptance criteria and recording verdicts, images, reproduction links and sources
  (\<open>domain/src/test_case.rs\<close>), the traceability matrix (\<open>coverage.rs\<close>) and the bounded list
  of parked work (\<open>wip_checkpoint.rs\<close>).
\<close>

section \<open>Reconciling test cases with the criteria\<close>

definition sync_test_cases_from_acceptance :: "ticket \<Rightarrow> ticket" where
  "sync_test_cases_from_acceptance t =
     t\<lparr>tk_test_cases :=
        map (\<lambda>ac. case find_case ac (tk_test_cases t) of
                     Some existing \<Rightarrow> existing
                   | None \<Rightarrow> test_case_fresh ac)
          (tk_acceptance_criteria t)\<rparr>"

definition cases_in_sync :: "ticket \<Rightarrow> bool" where
  "cases_in_sync t \<longleftrightarrow>
     length (tk_test_cases t) = length (tk_acceptance_criteria t)
     \<and> list_all (\<lambda>(tc, ac). tc_description tc = ac)
          (zip (tk_test_cases t) (tk_acceptance_criteria t))"

definition ensure_test_cases_from_acceptance :: "ticket \<Rightarrow> ticket" where
  "ensure_test_cases_from_acceptance t =
     (if cases_in_sync t then t else sync_test_cases_from_acceptance t)"

section \<open>Recording on one case\<close>

definition on_case :: "string \<Rightarrow> (test_case \<Rightarrow> test_case) \<Rightarrow> ticket \<Rightarrow> bool \<times> ticket" where
  "on_case descr f t =
     (case find_case descr (tk_test_cases t) of
        None \<Rightarrow> (False, t)
      | Some _ \<Rightarrow>
          (True, t\<lparr>tk_test_cases :=
                    update_first (\<lambda>c. tc_description c = descr) f (tk_test_cases t)\<rparr>))"

definition set_test_case_result ::
  "string \<Rightarrow> bool \<Rightarrow> string option \<Rightarrow> string option \<Rightarrow> string \<Rightarrow> ticket \<Rightarrow> bool \<times> ticket" where
  "set_test_case_result descr passed note img tm t =
     on_case descr (record_verdict passed note img tm) t"

definition set_test_case_image :: "string \<Rightarrow> string \<Rightarrow> string \<Rightarrow> ticket \<Rightarrow> bool \<times> ticket" where
  "set_test_case_image descr img tm t = on_case descr (record_image img tm) t"

definition set_test_case_repro :: "string \<Rightarrow> string \<Rightarrow> ticket \<Rightarrow> bool \<times> ticket" where
  "set_test_case_repro descr repro t =
     (if is_blank repro then (False, t) else on_case descr (record_repro repro) t)"

definition set_test_case_sources :: "string \<Rightarrow> string list \<Rightarrow> ticket \<Rightarrow> bool \<times> ticket" where
  "set_test_case_sources descr sources t =
     on_case descr (\<lambda>tc. tc\<lparr>tc_sources := sources\<rparr>) t"

definition matrix_for :: "ticket \<Rightarrow> coverage_entry list" where
  "matrix_for t = matrix_rows (tk_acceptance_criteria t) (tk_test_cases t)"

section \<open>Parked work (wip_checkpoint.rs)\<close>

definition MAX_WIP_CHECKPOINTS :: nat where
  "MAX_WIP_CHECKPOINTS = 3"

definition record_wip_checkpoint :: "role \<Rightarrow> wip_checkpoint \<Rightarrow> unit ticket_op" where
  "record_wip_checkpoint actor cp t =
     (if \<not> field_permitted actor ''wip_checkpoints''
      then (Inl (FieldNotPermitted actor ''wip_checkpoints''), t)
      else (Inr (), t\<lparr>tk_wip_checkpoints :=
                        keep_newest MAX_WIP_CHECKPOINTS (tk_wip_checkpoints t @ [cp])\<rparr>))"

definition clear_wip_checkpoints :: "role \<Rightarrow> unit ticket_op" where
  "clear_wip_checkpoints actor t =
     (if \<not> field_permitted actor ''wip_checkpoints''
      then (Inl (FieldNotPermitted actor ''wip_checkpoints''), t)
      else (Inr (), t\<lparr>tk_wip_checkpoints := []\<rparr>))"

lemmas [op_defs] = record_wip_checkpoint_def clear_wip_checkpoints_def

section \<open>Lemmas on reconciling\<close>

lemma sync_descriptions:
  "map tc_description (tk_test_cases (sync_test_cases_from_acceptance t)) = tk_acceptance_criteria t"
proof -
  have "tc_description (case find_case ac cs of Some c \<Rightarrow> c | None \<Rightarrow> test_case_fresh ac) = ac" for ac cs
    by (auto simp: test_case_fresh_def dest: find_case_Some split: option.splits)
  then show ?thesis by (simp add: sync_test_cases_from_acceptance_def o_def)
qed

lemma cases_in_sync_iff:
  "cases_in_sync t \<longleftrightarrow> map tc_description (tk_test_cases t) = tk_acceptance_criteria t"
  by (auto simp: cases_in_sync_def list_all_length list_eq_iff_nth_eq)

lemma ensure_in_sync: "cases_in_sync (ensure_test_cases_from_acceptance t)"
proof (cases "cases_in_sync t")
  case True
  then show ?thesis by (simp add: ensure_test_cases_from_acceptance_def)
next
  case False
  have "tk_acceptance_criteria (sync_test_cases_from_acceptance t) = tk_acceptance_criteria t"
    by (simp add: sync_test_cases_from_acceptance_def)
  with False show ?thesis
    by (simp add: ensure_test_cases_from_acceptance_def cases_in_sync_iff sync_descriptions)
qed

lemma find_case_map:
  assumes "\<And>ac. tc_description (f ac) = ac" and "d \<in> set xs"
  shows "find_case d (map f xs) = Some (f d)"
  using assms(2) unfolding find_case_def by (induction xs) (auto simp: assms(1))

lemma sync_find_case:
  assumes "ac \<in> set (tk_acceptance_criteria t)"
  shows "find_case ac (tk_test_cases (sync_test_cases_from_acceptance t)) =
    Some (case find_case ac (tk_test_cases t) of Some c \<Rightarrow> c | None \<Rightarrow> test_case_fresh ac)"
proof -
  let ?f = "\<lambda>ac. case find_case ac (tk_test_cases t) of Some c \<Rightarrow> c | None \<Rightarrow> test_case_fresh ac"
  have "tc_description (?f d) = d" for d
    by (auto simp: test_case_fresh_def dest: find_case_Some split: option.splits)
  then have "find_case ac (map ?f (tk_acceptance_criteria t)) = Some (?f ac)"
    using assms by (rule find_case_map)
  then show ?thesis by (simp add: sync_test_cases_from_acceptance_def)
qed

lemma sync_uncovered:
  "uncovered (tk_acceptance_criteria t) (tk_test_cases (sync_test_cases_from_acceptance t)) =
   uncovered (tk_acceptance_criteria t) (tk_test_cases t)"
proof -
  have "map_option tc_status (find_case ac (tk_test_cases (sync_test_cases_from_acceptance t)))
          = Some TcPassed
        \<longleftrightarrow> map_option tc_status (find_case ac (tk_test_cases t)) = Some TcPassed"
    if "ac \<in> set (tk_acceptance_criteria t)" for ac
    using that by (cases "find_case ac (tk_test_cases t)")
      (auto simp: sync_find_case test_case_fresh_def)
  then show ?thesis unfolding uncovered_def by (intro filter_cong) blast+
qed

lemma ensure_uncovered:
  "uncovered (tk_acceptance_criteria t) (tk_test_cases (ensure_test_cases_from_acceptance t)) =
   uncovered (tk_acceptance_criteria t) (tk_test_cases t)"
  by (simp add: ensure_test_cases_from_acceptance_def sync_uncovered)

lemma ensure_criteria [simp]:
  "tk_acceptance_criteria (ensure_test_cases_from_acceptance t) = tk_acceptance_criteria t"
  by (simp add: ensure_test_cases_from_acceptance_def sync_test_cases_from_acceptance_def)

section \<open>Lemmas on recording\<close>

lemma on_case_frame:
  "on_case d f t = (b, t') \<Longrightarrow> t' = t\<lparr>tk_test_cases := tk_test_cases t'\<rparr>"
  by (auto simp: on_case_def split: option.splits)

lemma on_case_miss: "fst (on_case d f t) = False \<longleftrightarrow> d \<notin> tc_description ` set (tk_test_cases t)"
  by (auto simp: on_case_def find_case_def find_None_all split: option.splits
      dest: find_Some_props)

lemma on_case_find_other:
  assumes "\<And>tc. tc_description (f tc) = tc_description tc" and "d' \<noteq> d"
  shows "find_case d' (tk_test_cases (snd (on_case d f t))) = find_case d' (tk_test_cases t)"
  unfolding on_case_def find_case_def
  using assms(2) by (cases "find (\<lambda>c. tc_description c = d) (tk_test_cases t)")
    (auto intro!: find_update_first_other simp: assms(1))

lemma on_case_find_same:
  assumes "\<And>tc. tc_description (f tc) = tc_description tc"
  shows "find_case d (tk_test_cases (snd (on_case d f t))) =
    map_option f (find_case d (tk_test_cases t))"
proof (cases "find (\<lambda>c. tc_description c = d) (tk_test_cases t)")
  case None
  then show ?thesis by (simp add: on_case_def find_case_def)
next
  case (Some c)
  then have "tc_description c = d" by (auto dest: find_Some_props)
  with Some show ?thesis
    by (auto simp: on_case_def find_case_def assms intro!: find_update_first_same)
qed

lemma on_case_descriptions:
  assumes "\<And>tc. tc_description (f tc) = tc_description tc"
  shows "map tc_description (tk_test_cases (snd (on_case d f t))) = map tc_description (tk_test_cases t)"
  unfolding on_case_def using assms by (auto split: option.splits)

lemma on_case_histories:
  assumes "\<forall>c \<in> set (tk_test_cases t). length (tc_history c) \<le> n"
    and "\<And>tc. length (tc_history tc) \<le> n \<Longrightarrow> length (tc_history (f tc)) \<le> n"
  shows "\<forall>c \<in> set (tk_test_cases (snd (on_case d f t))). length (tc_history c) \<le> n"
proof (cases "find_case d (tk_test_cases t)")
  case None
  with assms(1) show ?thesis by (simp add: on_case_def)
next
  case (Some c)
  have "\<forall>c \<in> set (update_first (\<lambda>c. tc_description c = d) f (tk_test_cases t)).
      length (tc_history c) \<le> n"
    by (rule update_first_all [OF assms(1)]) (rule assms(2))
  with Some show ?thesis by (simp add: on_case_def)
qed

lemma matrix_for_uncovered:
  "covered t \<longleftrightarrow> (\<forall>e \<in> set (matrix_for t). cov_status e = Covered)"
  by (auto simp: covered_def matrix_for_def uncovered_eq_rows filter_empty_conv)

text \<open>Passing every criterion, one by one, in any order.\<close>

definition pass_all :: "(string \<times> string option \<times> string option \<times> string) list \<Rightarrow> ticket \<Rightarrow> ticket" where
  "pass_all vs t = fold (\<lambda>(d, note, img, tm) s. snd (set_test_case_result d True note img tm s)) vs t"

lemma pass_all_keeps_passed:
  assumes "\<exists>c. find_case d (tk_test_cases t) = Some c \<and> tc_status c = TcPassed"
  shows "\<exists>c. find_case d (tk_test_cases (pass_all vs t)) = Some c \<and> tc_status c = TcPassed"
  using assms
proof (induction vs arbitrary: t)
  case Nil
  then show ?case by (simp add: pass_all_def)
next
  case (Cons v vs)
  obtain d' nt img tm where v: "v = (d', nt, img, tm)" by (cases v) auto
  let ?t = "snd (set_test_case_result d' True nt img tm t)"
  have "\<exists>c. find_case d (tk_test_cases ?t) = Some c \<and> tc_status c = TcPassed"
  proof (cases "d = d'")
    case True
    with Cons.prems show ?thesis by (auto simp: set_test_case_result_def on_case_find_same)
  next
    case False
    with Cons.prems show ?thesis by (auto simp: set_test_case_result_def on_case_find_other)
  qed
  then have "\<exists>c. find_case d (tk_test_cases (pass_all vs ?t)) = Some c \<and> tc_status c = TcPassed"
    by (rule Cons.IH)
  then show ?case by (simp add: pass_all_def v)
qed

lemma pass_all_passes:
  assumes "d \<in> fst ` set vs" and "find_case d (tk_test_cases t) \<noteq> None"
  shows "\<exists>c. find_case d (tk_test_cases (pass_all vs t)) = Some c \<and> tc_status c = TcPassed"
  using assms
proof (induction vs arbitrary: t)
  case Nil
  then show ?case by simp
next
  case (Cons v vs)
  obtain d' nt img tm where v: "v = (d', nt, img, tm)" by (cases v) auto
  let ?t = "snd (set_test_case_result d' True nt img tm t)"
  have step: "pass_all (v # vs) t = pass_all vs ?t" by (simp add: pass_all_def v)
  show ?case
  proof (cases "d = d'")
    case True
    with Cons.prems have "\<exists>c. find_case d (tk_test_cases ?t) = Some c \<and> tc_status c = TcPassed"
      by (auto simp: set_test_case_result_def on_case_find_same)
    then show ?thesis unfolding step by (rule pass_all_keeps_passed)
  next
    case False
    with Cons.prems v have "d \<in> fst ` set vs" by auto
    moreover from False Cons.prems have "find_case d (tk_test_cases ?t) \<noteq> None"
      by (auto simp: set_test_case_result_def on_case_find_other)
    ultimately show ?thesis unfolding step by (rule Cons.IH)
  qed
qed

lemma pass_all_frame:
  "tk_acceptance_criteria (pass_all vs t) = tk_acceptance_criteria t"
  "tk_status (pass_all vs t) = tk_status t"
  "tk_kind (pass_all vs t) = tk_kind t"
proof -
  have "tk_acceptance_criteria (pass_all vs t) = tk_acceptance_criteria t
      \<and> tk_status (pass_all vs t) = tk_status t \<and> tk_kind (pass_all vs t) = tk_kind t"
    by (induction vs arbitrary: t)
      (auto simp: pass_all_def set_test_case_result_def on_case_def split: option.splits)
  then show "tk_acceptance_criteria (pass_all vs t) = tk_acceptance_criteria t"
    "tk_status (pass_all vs t) = tk_status t" "tk_kind (pass_all vs t) = tk_kind t" by simp_all
qed

text \<open>The parked-work list is a capped log of the orchestrator's calls.\<close>

interpretation wip: capped_log tk_wip_checkpoints
  "\<lambda>cp t. snd (record_wip_checkpoint System cp t)" MAX_WIP_CHECKPOINTS
  by unfold_locales (simp_all add: MAX_WIP_CHECKPOINTS_def record_wip_checkpoint_def)

lemma atomic_wip:
  "atomic (record_wip_checkpoint a cp)" "atomic (clear_wip_checkpoints a)"
  by (rule atomicI; simp add: op_defs split: if_splits)+

lemma wip_permitted: "field_permitted a ''wip_checkpoints'' \<longleftrightarrow> a = System"
  by (simp add: field_permitted_def)

end
