(* ===== verification/Ticket_Machine.thy ===== *)
theory Ticket_Machine
  imports Ticket_Cases
begin

text \<open>
  The ticket as a state machine. A ticket starts as what \<open>Ticket::new\<close> returns and changes by
  successful calls of the aggregate's public methods only; \<open>wf_ticket\<close> is what the aggregate
  promises of every ticket built that way ("a ticket in an invalid state cannot exist").
\<close>

section \<open>The well-formedness invariant\<close>

definition claim_consistent :: "ticket \<Rightarrow> bool" where
  "claim_consistent t \<longleftrightarrow>
     (tk_claimed_by t \<noteq> None \<longrightarrow> tk_status t = InProgress)
     \<and> (tk_claimed_by t = None \<longleftrightarrow> tk_claimed_at t = None)"

definition design_gated :: "ticket \<Rightarrow> bool" where
  "design_gated t \<longleftrightarrow>
     (tk_kind t \<noteq> Bug \<and> tk_status t \<in> {Ready, InProgress, Done, Documented} \<longrightarrow> dor t)"

definition text_ok :: "ticket \<Rightarrow> bool" where
  "text_ok t \<longleftrightarrow>
     \<not> is_blank (tk_title t)
     \<and> length (tk_acceptance_criteria t) \<le> 5
     \<and> (\<forall>c \<in> set (tk_acceptance_criteria t). c \<noteq> [] \<and> trim c = c)
     \<and> (\<forall>s. tk_assignee t = Some s \<longrightarrow> s \<noteq> [] \<and> trim s = s)
     \<and> (\<forall>s. tk_service_tag t = Some s \<longrightarrow> s \<noteq> [] \<and> trim s = s)"

definition bounded_lists :: "ticket \<Rightarrow> bool" where
  "bounded_lists t \<longleftrightarrow>
     distinct (tk_depends_on t)
     \<and> length (tk_wip_checkpoints t) \<le> MAX_WIP_CHECKPOINTS
     \<and> (\<forall>c \<in> set (tk_test_cases t). length (tc_history c) \<le> MAX_VERDICT_HISTORY)"

definition wf_ticket :: "ticket \<Rightarrow> bool" where
  "wf_ticket t \<longleftrightarrow>
     tk_status t \<in> lifecycle (tk_kind t) \<and> claim_consistent t \<and> design_gated t
     \<and> text_ok t \<and> bounded_lists t"

lemmas wf_defs =
  wf_ticket_def claim_consistent_def design_gated_def text_ok_def bounded_lists_def dor_def

section \<open>Steps\<close>

definition ticket_init :: "ticket \<Rightarrow> bool" where
  "ticket_init t \<longleftrightarrow> (\<exists>i k ttl d p c ui. ticket_new i k ttl d p c ui = Inr t)"

inductive ticket_step :: "ticket \<Rightarrow> ticket \<Rightarrow> bool" where
  step_criteria: "ticket_step t (set_acceptance_criteria cs t)"
| step_assign: "ticket_step t (assign_to_human u t)"
| step_stamp: "ticket_step t (stamp_created_at tm t)"
| step_goal: "set_goal_id a g t = (Inr (), t') \<Longrightarrow> ticket_step t t'"
| step_tag: "set_service_tag a tag t = (Inr (), t') \<Longrightarrow> ticket_step t t'"
| step_edit: "edit a ttl d t = (Inr (), t') \<Longrightarrow> ticket_step t t'"
| step_clarify: "clarify a d t = (Inr (), t') \<Longrightarrow> ticket_step t t'"
| step_priority: "set_priority a p t = (Inr (), t') \<Longrightarrow> ticket_step t t'"
| step_technical: "set_technical_design a td t = (Inr (), t') \<Longrightarrow> ticket_step t t'"
| step_ux: "set_ux_design a ux t = (Inr (), t') \<Longrightarrow> ticket_step t t'"
| step_parent: "set_parent a i t = (Inr (), t') \<Longrightarrow> ticket_step t t'"
| step_remove_dep: "remove_dependency a dep t = (Inr (), t') \<Longrightarrow> ticket_step t t'"
| step_add_dep: "add_dependency a i t = (Inr (), t') \<Longrightarrow> ticket_step t t'"
| step_transition: "transition_to a dst t = (Inr (), t') \<Longrightarrow> ticket_step t t'"
| step_claim: "claim a w now t = (Inr (), t') \<Longrightarrow> ticket_step t t'"
| step_release: "release_claim a t = (Inr (), t') \<Longrightarrow> ticket_step t t'"
| step_reclaim: "reclaim_misfiled a t = (Inr b, t') \<Longrightarrow> ticket_step t t'"
| step_take_over: "take_over a w now t = (Inr prev, t') \<Longrightarrow> ticket_step t t'"
| step_sync: "ticket_step t (sync_test_cases_from_acceptance t)"
| step_ensure: "ticket_step t (ensure_test_cases_from_acceptance t)"
| step_result: "set_test_case_result d ok n img tm t = (True, t') \<Longrightarrow> ticket_step t t'"
| step_image: "set_test_case_image d im tm t = (True, t') \<Longrightarrow> ticket_step t t'"
| step_repro: "set_test_case_repro d r t = (True, t') \<Longrightarrow> ticket_step t t'"
| step_sources: "set_test_case_sources d srcs t = (True, t') \<Longrightarrow> ticket_step t t'"
| step_park: "record_wip_checkpoint a cp t = (Inr (), t') \<Longrightarrow> ticket_step t t'"
| step_unpark: "clear_wip_checkpoints a t = (Inr (), t') \<Longrightarrow> ticket_step t t'"

section \<open>Every method keeps the invariant\<close>

lemma ticket_new_wf: "ticket_new i k ttl d p c ui = Inr t \<Longrightarrow> wf_ticket t"
  by (cases k) (auto simp: ticket_new_def wf_defs lifecycle_def split: if_splits)

text \<open>A call that keeps status and claim keeps the invariant if it keeps the rest of it.\<close>

lemma wf_keep_status:
  assumes "wf_ticket t"
    and "tk_kind t' = tk_kind t" "tk_status t' = tk_status t"
    and "tk_claimed_by t' = tk_claimed_by t" "tk_claimed_at t' = tk_claimed_at t"
    and "dor t \<Longrightarrow> dor t'" "text_ok t \<Longrightarrow> text_ok t'" "bounded_lists t \<Longrightarrow> bounded_lists t'"
  shows "wf_ticket t'"
proof -
  have "claim_consistent t' = claim_consistent t"
    unfolding claim_consistent_def assms(3-5) by (rule refl)
  moreover have "design_gated t \<Longrightarrow> design_gated t'"
    unfolding design_gated_def assms(2,3) using assms(6) by blast
  ultimately show ?thesis using assms(1-3,7,8) by (simp add: wf_ticket_def)
qed

lemma trim_nonempty: "c \<in> set (take n (filter (\<lambda>c. c \<noteq> []) (map trim cs))) \<Longrightarrow> c \<noteq> [] \<and> trim c = c"
  by (auto dest!: in_set_takeD)

lemma text_ok_criteria:
  "text_ok t \<Longrightarrow> length cs \<le> 5 \<Longrightarrow> \<forall>c \<in> set cs. c \<noteq> [] \<and> trim c = c
   \<Longrightarrow> text_ok (t\<lparr>tk_acceptance_criteria := cs\<rparr>)"
  by (simp add: text_ok_def)

lemma criteria_wf [op_wf]:
  assumes "wf_ticket t"
  shows "wf_ticket (set_acceptance_criteria cs t)"
proof -
  let ?cs = "take 5 (filter (\<lambda>c. c \<noteq> []) (map trim cs))"
  have ok: "\<forall>c \<in> set ?cs. c \<noteq> [] \<and> trim c = c" using trim_nonempty by blast
  have len: "length ?cs \<le> 5" by simp
  show ?thesis
    unfolding set_acceptance_criteria_def
  proof (rule wf_keep_status [OF assms])
    show "text_ok (t\<lparr>tk_acceptance_criteria := ?cs\<rparr>)" if "text_ok t"
      using that len ok by (rule text_ok_criteria)
  qed (simp_all add: dor_def bounded_lists_def)
qed

lemma assign_wf [op_wf]: "wf_ticket t \<Longrightarrow> wf_ticket (assign_to_human u t)"
  unfolding assign_to_human_def Let_def
  by (erule wf_keep_status) (simp_all add: dor_def text_ok_def bounded_lists_def)

lemma stamp_wf [op_wf]: "wf_ticket t \<Longrightarrow> wf_ticket (stamp_created_at tm t)"
  unfolding stamp_created_at_def
  by (erule wf_keep_status) (simp_all add: dor_def text_ok_def bounded_lists_def)

lemma setters_wf [op_wf]:
  "set_goal_id a g t = (Inr (), t') \<Longrightarrow> wf_ticket t \<Longrightarrow> wf_ticket t'"
  "set_service_tag a tag t = (Inr (), t') \<Longrightarrow> wf_ticket t \<Longrightarrow> wf_ticket t'"
  "edit a ttl d t = (Inr (), t') \<Longrightarrow> wf_ticket t \<Longrightarrow> wf_ticket t'"
  "clarify a d t = (Inr (), t') \<Longrightarrow> wf_ticket t \<Longrightarrow> wf_ticket t'"
  "set_priority a p t = (Inr (), t') \<Longrightarrow> wf_ticket t \<Longrightarrow> wf_ticket t'"
  "set_technical_design a td t = (Inr (), t') \<Longrightarrow> wf_ticket t \<Longrightarrow> wf_ticket t'"
  "set_ux_design a ux t = (Inr (), t') \<Longrightarrow> wf_ticket t \<Longrightarrow> wf_ticket t'"
  "set_parent a i t = (Inr (), t') \<Longrightarrow> wf_ticket t \<Longrightarrow> wf_ticket t'"
  "remove_dependency a dep t = (Inr (), t') \<Longrightarrow> wf_ticket t \<Longrightarrow> wf_ticket t'"
  "add_dependency a i t = (Inr (), t') \<Longrightarrow> wf_ticket t \<Longrightarrow> wf_ticket t'"
  "record_wip_checkpoint a cp t = (Inr (), t') \<Longrightarrow> wf_ticket t \<Longrightarrow> wf_ticket t'"
  "clear_wip_checkpoints a t = (Inr (), t') \<Longrightarrow> wf_ticket t \<Longrightarrow> wf_ticket t'"
  by (rule wf_keep_status [of t];
      clarsimp simp: set_goal_id_def set_service_tag_def edit_def clarify_def set_priority_def
        set_technical_design_def set_ux_design_def set_parent_def remove_dependency_def
        add_dependency_def record_wip_checkpoint_def clear_wip_checkpoints_def Let_def
        dor_def text_ok_def bounded_lists_def split: if_splits)+

lemma moved_frame [simp]:
  "tk_kind (moved s t) = tk_kind t" "tk_status (moved s t) = s"
  "tk_design (moved s t) = tk_design t" "tk_has_ui (moved s t) = tk_has_ui t"
  "text_ok (moved s t) = text_ok t" "bounded_lists (moved s t) = bounded_lists t"
  "dor (moved s t) = dor t" "tk_id (moved s t) = tk_id t"
  by (simp_all add: moved_def text_ok_def bounded_lists_def dor_def)

lemma moved_claims: "claim_consistent t \<Longrightarrow> (s = InProgress \<longrightarrow> tk_status t = InProgress \<or> tk_claimed_by t = None)
    \<Longrightarrow> claim_consistent (moved s t)"
  by (auto simp: claim_consistent_def moved_def)

lemma move_design_gated:
  assumes "design_gated t" and "may_move a s t"
  shows "design_gated (moved s t)"
proof -
  have "dor t" if k: "tk_kind t \<noteq> Bug" and s: "s \<in> {Ready, InProgress, Done, Documented}"
  proof (cases "s = Ready")
    case True
    with assms(2) show ?thesis by (simp add: may_move_def)
  next
    case False
    with assms(2) k s have "tk_status t \<in> {Ready, InProgress, Done, Documented}"
      by (cases "tk_kind t") (auto simp: may_move_def transition_allowed_def)
    with assms(1) k show ?thesis unfolding design_gated_def by blast
  qed
  then show ?thesis by (auto simp: design_gated_def)
qed

lemma transition_wf [op_wf]:
  assumes "transition_to a s t = (Inr (), t')" and "wf_ticket t"
  shows "wf_ticket t'"
proof -
  have t': "t' = moved s t" and m: "may_move a s t"
    using transition_to_split [OF assms(1)] by auto
  have "s \<in> lifecycle (tk_kind t)"
    using assms(2) m lifecycle_edge by (auto simp: wf_ticket_def may_move_def)
  moreover have "claim_consistent (moved s t)"
    using assms(2) by (auto simp: wf_ticket_def claim_consistent_def moved_def)
  moreover have "design_gated (moved s t)"
    using assms(2) m by (intro move_design_gated) (auto simp: wf_ticket_def)
  ultimately show ?thesis using assms(2) t' by (simp add: wf_ticket_def)
qed

lemma claim_wf [op_wf]:
  assumes "claim a w now t = (Inr (), t')" and "wf_ticket t"
  shows "wf_ticket t'"
proof -
  have t': "t' = t\<lparr>tk_status := InProgress, tk_claimed_by := Some w, tk_claimed_at := Some now\<rparr>"
    and m: "may_move a InProgress t"
    using claim_result [OF assms(1)] by auto
  have "wf_ticket (moved InProgress t)"
    using transition_wf [OF transition_to_ok [OF m] assms(2)] .
  then show ?thesis
    unfolding t' moved_def wf_ticket_def claim_consistent_def design_gated_def text_ok_def
      bounded_lists_def dor_def by simp
qed

text \<open>A call that only rewrites status and claim.\<close>

lemma wf_set_status:
  assumes "wf_ticket t" and "s \<in> lifecycle (tk_kind t)"
    and "tk_kind t \<noteq> Bug \<Longrightarrow> s \<in> {Ready, InProgress, Done, Documented} \<Longrightarrow> dor t"
  shows "wf_ticket (t\<lparr>tk_status := s, tk_claimed_by := None, tk_claimed_at := None\<rparr>)"
  using assms unfolding wf_ticket_def claim_consistent_def design_gated_def
  by (simp add: text_ok_def bounded_lists_def dor_def)

lemma in_progress_dor: "wf_ticket t \<Longrightarrow> tk_kind t \<noteq> Bug \<Longrightarrow> tk_status t = InProgress \<Longrightarrow> dor t"
  by (simp add: wf_ticket_def design_gated_def)

lemma release_wf [op_wf]:
  assumes "release_claim a t = (Inr (), t')" and wf: "wf_ticket t"
  shows "wf_ticket t'"
proof -
  let ?s = "case tk_kind t of Bug \<Rightarrow> Open | Feature \<Rightarrow> Ready | Chore \<Rightarrow> Ready"
  have t': "t' = t\<lparr>tk_status := ?s, tk_claimed_by := None, tk_claimed_at := None\<rparr>"
    and ip: "tk_status t = InProgress"
    using assms(1) by (simp_all add: release_claim_def split: if_splits)
  have "?s \<in> lifecycle (tk_kind t)" by (cases "tk_kind t") (simp_all add: lifecycle_def)
  then show ?thesis unfolding t' using in_progress_dor [OF wf _ ip] wf by (intro wf_set_status)
qed

lemma reclaim_wf [op_wf]: "reclaim_misfiled a t = (Inr b, t') \<Longrightarrow> wf_ticket t \<Longrightarrow> wf_ticket t'"
  using wf_set_status [of t Open] by (auto simp: reclaim_misfiled_def lifecycle_def split: if_splits)

lemma take_over_wf [op_wf]: "take_over a w now t = (Inr prev, t') \<Longrightarrow> wf_ticket t \<Longrightarrow> wf_ticket t'"
  unfolding wf_ticket_def claim_consistent_def design_gated_def
  by (clarsimp simp: take_over_def text_ok_def bounded_lists_def dor_def split: if_splits)

lemma with_cases_wf:
  assumes "wf_ticket t" and "\<forall>c \<in> set cs. length (tc_history c) \<le> MAX_VERDICT_HISTORY"
  shows "wf_ticket (t\<lparr>tk_test_cases := cs\<rparr>)"
  by (rule wf_keep_status [OF assms(1)])
    (use assms(2) in \<open>simp_all add: dor_def text_ok_def bounded_lists_def\<close>)

lemma sync_wf [op_wf]: "wf_ticket t \<Longrightarrow> wf_ticket (sync_test_cases_from_acceptance t)"
  unfolding sync_test_cases_from_acceptance_def
  by (rule with_cases_wf)
    (auto simp: wf_ticket_def bounded_lists_def test_case_fresh_def dest: find_case_Some
      split: option.splits)

lemma ensure_wf [op_wf]: "wf_ticket t \<Longrightarrow> wf_ticket (ensure_test_cases_from_acceptance t)"
  by (simp add: ensure_test_cases_from_acceptance_def sync_wf)

lemma on_case_wf:
  assumes "wf_ticket t"
    and "\<And>tc. length (tc_history tc) \<le> MAX_VERDICT_HISTORY \<Longrightarrow>
           length (tc_history (f tc)) \<le> MAX_VERDICT_HISTORY"
  shows "wf_ticket (snd (on_case d f t))"
proof -
  let ?t = "snd (on_case d f t)"
  have "\<forall>c \<in> set (tk_test_cases ?t). length (tc_history c) \<le> MAX_VERDICT_HISTORY"
    using assms by (intro on_case_histories) (auto simp: wf_ticket_def bounded_lists_def)
  then have "wf_ticket (t\<lparr>tk_test_cases := tk_test_cases ?t\<rparr>)"
    using assms(1) by (rule with_cases_wf [rotated])
  then show ?thesis using on_case_frame [of d f t "fst (on_case d f t)" ?t] by simp
qed

lemma result_wf [op_wf]:
  "set_test_case_result d ok n img tm t = (b, t') \<Longrightarrow> wf_ticket t \<Longrightarrow> wf_ticket t'"
  using on_case_wf [of t "record_verdict ok n img tm" d] record_verdict_bounded
  by (simp add: set_test_case_result_def)

lemma image_wf [op_wf]:
  "set_test_case_image d im tm t = (b, t') \<Longrightarrow> wf_ticket t \<Longrightarrow> wf_ticket t'"
  using on_case_wf [of t "record_image im tm" d] record_image_bounded
  by (simp add: set_test_case_image_def)

lemma repro_wf [op_wf]:
  "set_test_case_repro d r t = (b, t') \<Longrightarrow> wf_ticket t \<Longrightarrow> wf_ticket t'"
  using on_case_wf [of t "record_repro r" d]
  by (auto simp: set_test_case_repro_def split: if_splits)

lemma sources_wf [op_wf]:
  "set_test_case_sources d srcs t = (b, t') \<Longrightarrow> wf_ticket t \<Longrightarrow> wf_ticket t'"
  using on_case_wf [of t "\<lambda>tc. tc\<lparr>tc_sources := srcs\<rparr>" d]
  by (simp add: set_test_case_sources_def)

lemma ticket_step_wf: "ticket_step t t' \<Longrightarrow> wf_ticket t \<Longrightarrow> wf_ticket t'"
  by (induction rule: ticket_step.induct) (auto intro: op_wf)

interpretation ticket_sys: invariant_system ticket_init ticket_step wf_ticket
  by unfold_locales (auto simp: ticket_init_def intro: ticket_new_wf ticket_step_wf)

section \<open>What no method changes\<close>

definition identity_of :: "ticket \<Rightarrow> ticket_id \<times> ticket_type \<times> bool \<times> complexity" where
  "identity_of t = (tk_id t, tk_kind t, tk_has_ui t, tk_complexity t)"

lemma on_case_frame_fields:
  assumes "on_case d f t = (b, t')"
  shows "identity_of t' = identity_of t" "tk_status t' = tk_status t"
    "tk_claimed_by t' = tk_claimed_by t" "tk_claimed_at t' = tk_claimed_at t"
    "tk_design t' = tk_design t" "tk_created_at t' = tk_created_at t"
  using assms by (auto simp: on_case_def identity_of_def split: option.splits)

lemmas case_ops_def =
  set_test_case_result_def set_test_case_image_def set_test_case_repro_def
  set_test_case_sources_def

lemmas plain_ops_def =
  set_acceptance_criteria_def assign_to_human_def stamp_created_at_def
  sync_test_cases_from_acceptance_def ensure_test_cases_from_acceptance_def Let_def

lemma ticket_step_identity: "ticket_step t t' \<Longrightarrow> identity_of t' = identity_of t"
proof (induction rule: ticket_step.induct)
  case (step_transition a dst t t')
  then show ?case using transition_to_split by (fastforce simp: identity_of_def moved_def)
next
  case (step_claim a w now t t')
  then show ?case by (auto simp: identity_of_def dest!: claim_result)
qed (auto simp: identity_of_def plain_ops_def op_defs case_ops_def on_case_def
    split: if_splits option.splits)

lemma ticket_step_rejected:
  "ticket_step t t' \<Longrightarrow> tk_status t = Rejected \<Longrightarrow> tk_status t' = Rejected"
proof (induction rule: ticket_step.induct)
  case (step_transition a dst t t')
  then show ?case
    using transition_to_split [OF step_transition(1)] rejected_edge
    by (auto simp: may_move_def)
next
  case (step_claim a w now t t')
  then show ?case using rejected_edge by (auto simp: may_move_def dest!: claim_result)
qed (auto simp: plain_ops_def op_defs case_ops_def on_case_def split: if_splits option.splits)

lemma ticket_steps_rejected:
  "ticket_step\<^sup>*\<^sup>* t t' \<Longrightarrow> tk_status t = Rejected \<Longrightarrow> tk_status t' = Rejected"
  by (induction rule: rtranclp_induct) (auto intro: ticket_step_rejected)

lemma ticket_step_created:
  "ticket_step t t' \<Longrightarrow> tk_created_at t = Some c \<Longrightarrow> tk_created_at t' = Some c"
proof (induction rule: ticket_step.induct)
  case (step_transition a dst t t')
  then show ?case using transition_to_split by (fastforce simp: moved_def)
next
  case (step_claim a w now t t')
  then show ?case by (auto dest!: claim_result)
qed (auto simp: plain_ops_def op_defs case_ops_def on_case_def split: if_splits option.splits)

end
