(* ===== verification/Social.thy ===== *)
theory Social
  imports Prelude
begin

text \<open>
  The social shard of the project state (\<open>application/src/state/shards.rs\<close>, \<open>state/chat.rs\<close>,
  \<open>state/mod.rs\<close>): comments with reactions and the team chat. Channels and agent questions
  live in \<open>Channels\<close> and \<open>Questions\<close>. \<open>now_rfc3339()\<close> and \<open>mint_id()\<close> read the clock and
  a process-wide counter; what they return is the argument \<open>now\<close> resp. \<open>mid\<close>.
\<close>

section \<open>Data\<close>

record attachment =
  at_name :: string
  at_url :: string
  at_mime :: string
  at_size :: nat

record reaction =
  re_emoji :: string
  re_users :: "string list"

record comment =
  cm_id :: string
  cm_at :: string
  cm_author :: string
  cm_by :: string
  cm_body :: string
  cm_ticket :: "string option"
  cm_attachments :: "attachment list"
  cm_reactions :: "reaction list"

record chat_msg =
  ch_id :: string
  ch_at :: string
  ch_user :: string
  ch_body :: string
  ch_edited :: "string option"
  ch_channel :: string
  ch_attachments :: "attachment list"
  ch_reactions :: "reaction list"
  ch_thread_id :: "string option"
  ch_reply_count :: nat
  ch_deleted :: bool

record channel =
  cn_id :: string
  cn_name :: string
  cn_owner :: string
  cn_members :: "string list"
  cn_inviters :: "string list"
  cn_created_at :: string
  cn_kind :: string
  cn_project :: string
  cn_topic :: string
  cn_parent :: string
  cn_open_invite :: bool

record agent_question =
  aq_id :: string
  aq_ticket :: string
  aq_from :: string
  aq_to :: string
  aq_body :: string
  aq_answer :: string
  aq_asked_at :: string
  aq_answered_at :: string
  aq_forwarded :: bool
  aq_escalated :: bool
  aq_deferred :: bool

record social =
  so_comments :: "comment list"
  so_chat :: "chat_msg list"
  so_channels :: "channel list"
  so_questions :: "agent_question list"

definition social_default :: social where
  "social_default = \<lparr>so_comments = [], so_chat = [], so_channels = [], so_questions = []\<rparr>"

definition MAX_COMMENTS :: nat where "MAX_COMMENTS = 500"

definition MAX_CHAT :: nat where "MAX_CHAT = 500"

definition GENERAL_CHANNEL :: string where "GENERAL_CHANNEL = ''general''"

definition AGENTS_CHANNEL :: string where "AGENTS_CHANNEL = ''agents''"

section \<open>Comments\<close>

definition push_comment :: "comment \<Rightarrow> social \<Rightarrow> social" where
  "push_comment c s = s\<lparr>so_comments := keep_newest MAX_COMMENTS (so_comments s @ [c])\<rparr>"

definition post_comment_att ::
  "string \<Rightarrow> string \<Rightarrow> string \<Rightarrow> string \<Rightarrow> string option \<Rightarrow> attachment list \<Rightarrow> social \<Rightarrow> social" where
  "post_comment_att mid now author body tkt atts s =
     push_comment \<lparr>cm_id = mid, cm_at = now, cm_author = author, cm_by = '''', cm_body = body,
       cm_ticket = tkt, cm_attachments = atts, cm_reactions = []\<rparr> s"

definition post_comment ::
  "string \<Rightarrow> string \<Rightarrow> string \<Rightarrow> string \<Rightarrow> string option \<Rightarrow> social \<Rightarrow> social" where
  "post_comment mid now author body tkt s = post_comment_att mid now author body tkt [] s"

definition post_comment_by ::
  "string \<Rightarrow> string \<Rightarrow> string \<Rightarrow> string \<Rightarrow> string \<Rightarrow> string option \<Rightarrow> social \<Rightarrow> social" where
  "post_comment_by mid now author who body tkt s =
     push_comment \<lparr>cm_id = mid, cm_at = now, cm_author = author, cm_by = who, cm_body = body,
       cm_ticket = tkt, cm_attachments = [], cm_reactions = []\<rparr> s"

text \<open>The reaction toggle of \<open>react_comment\<close>, on the reactions of one comment.\<close>

definition toggle_user :: "string \<Rightarrow> string list \<Rightarrow> string list" where
  "toggle_user u us = (if u \<in> set us then remove1 u us else us @ [u])"

definition toggle_reaction :: "string \<Rightarrow> string \<Rightarrow> reaction list \<Rightarrow> reaction list" where
  "toggle_reaction user emoji rs =
     filter (\<lambda>r. re_users r \<noteq> [])
       (case find (\<lambda>r. re_emoji r = emoji) rs of
          Some _ \<Rightarrow> update_first (\<lambda>r. re_emoji r = emoji)
                      (\<lambda>r. r\<lparr>re_users := toggle_user user (re_users r)\<rparr>) rs
        | None \<Rightarrow> rs @ [\<lparr>re_emoji = emoji, re_users = [user]\<rparr>])"

definition react_comment ::
  "string \<Rightarrow> string \<Rightarrow> string \<Rightarrow> social \<Rightarrow> comment option \<times> social" where
  "react_comment i user emoji s =
     (let f = (\<lambda>c. c\<lparr>cm_reactions := toggle_reaction user emoji (cm_reactions c)\<rparr>) in
      case find (\<lambda>c. cm_id c = i) (so_comments s) of
        None \<Rightarrow> (None, s)
      | Some c \<Rightarrow>
          (Some (f c), s\<lparr>so_comments := update_first (\<lambda>c. cm_id c = i) f (so_comments s)\<rparr>))"

section \<open>Team chat\<close>

definition push_chat :: "chat_msg \<Rightarrow> social \<Rightarrow> social" where
  "push_chat m s = s\<lparr>so_chat := keep_newest MAX_CHAT (so_chat s @ [m])\<rparr>"

definition post_chat_in ::
  "string \<Rightarrow> string \<Rightarrow> string \<Rightarrow> string \<Rightarrow> string \<Rightarrow> attachment list \<Rightarrow> social \<Rightarrow> social" where
  "post_chat_in mid now user body chan atts s =
     push_chat \<lparr>ch_id = mid, ch_at = now, ch_user = user, ch_body = body, ch_edited = None,
       ch_channel = chan, ch_attachments = atts, ch_reactions = [], ch_thread_id = None,
       ch_reply_count = 0, ch_deleted = False\<rparr> s"

definition post_chat_att ::
  "string \<Rightarrow> string \<Rightarrow> string \<Rightarrow> string \<Rightarrow> attachment list \<Rightarrow> social \<Rightarrow> social" where
  "post_chat_att mid now user body atts s = post_chat_in mid now user body GENERAL_CHANNEL atts s"

definition post_chat :: "string \<Rightarrow> string \<Rightarrow> string \<Rightarrow> string \<Rightarrow> social \<Rightarrow> social" where
  "post_chat mid now user body s = post_chat_att mid now user body [] s"

definition chat_in :: "string \<Rightarrow> social \<Rightarrow> chat_msg list" where
  "chat_in chan s = filter (\<lambda>m. ch_channel m = chan) (so_chat s)"

definition chat_reply ::
  "string \<Rightarrow> string \<Rightarrow> string \<Rightarrow> string \<Rightarrow> string \<Rightarrow> string \<Rightarrow> chat_msg" where
  "chat_reply mid now user body chan thread =
     \<lparr>ch_id = mid, ch_at = now, ch_user = user, ch_body = body, ch_edited = None,
      ch_channel = chan, ch_attachments = [], ch_reactions = [], ch_thread_id = Some thread,
      ch_reply_count = 0, ch_deleted = False\<rparr>"

section \<open>Lemmas\<close>

interpretation comment_log: capped_log so_comments push_comment MAX_COMMENTS
  by unfold_locales (simp_all add: MAX_COMMENTS_def push_comment_def)

interpretation chat_log: capped_log so_chat push_chat MAX_CHAT
  by unfold_locales (simp_all add: MAX_CHAT_def push_chat_def)

text \<open>
  The reactions of a comment as a relation between emoji and users: the toggle flips exactly
  one pair, whatever the list looked like, as long as it lists every emoji and user once.
\<close>

definition reacted :: "reaction list \<Rightarrow> string \<Rightarrow> string \<Rightarrow> bool" where
  "reacted rs e u \<longleftrightarrow> (\<exists>r \<in> set rs. re_emoji r = e \<and> u \<in> set (re_users r))"

definition reactions_ok :: "reaction list \<Rightarrow> bool" where
  "reactions_ok rs \<longleftrightarrow>
     distinct (map re_emoji rs) \<and> (\<forall>r \<in> set rs. re_users r \<noteq> [] \<and> distinct (re_users r))"

lemma set_toggle_user:
  "distinct us \<Longrightarrow> set (toggle_user u us) = (if u \<in> set us then set us - {u} else insert u (set us))"
  by (simp add: toggle_user_def)

lemma distinct_toggle_user: "distinct us \<Longrightarrow> distinct (toggle_user u us)"
  by (simp add: toggle_user_def)

lemma reacted_Cons:
  "reacted (r # rs) e u \<longleftrightarrow> (re_emoji r = e \<and> u \<in> set (re_users r)) \<or> reacted rs e u"
  by (auto simp: reacted_def)

lemma reacted_filter: "reacted (filter (\<lambda>r. re_users r \<noteq> []) rs) e u = reacted rs e u"
  by (auto simp: reacted_def)

lemma reacted_absent: "e \<notin> re_emoji ` set rs \<Longrightarrow> \<not> reacted rs e u"
  by (auto simp: reacted_def)

lemma update_reacted:
  assumes "distinct (map re_emoji rs)" and "\<forall>r \<in> set rs. distinct (re_users r)"
    and "e \<in> re_emoji ` set rs"
  shows "reacted (update_first (\<lambda>r. re_emoji r = e)
            (\<lambda>r. r\<lparr>re_users := toggle_user u (re_users r)\<rparr>) rs) e' u'
         \<longleftrightarrow> (if e' = e \<and> u' = u then \<not> reacted rs e u else reacted rs e' u')"
  using assms
proof (induction rs)
  case (Cons r rs)
  show ?case
  proof (cases "re_emoji r = e")
    case True
    then have "\<not> reacted rs e v" for v using Cons.prems(1) by (intro reacted_absent) auto
    with True Cons.prems show ?thesis
      by (auto simp: reacted_Cons set_toggle_user split: if_splits)
  next
    case False
    then have "e \<in> re_emoji ` set rs" using Cons.prems(3) by auto
    with False Cons show ?thesis by (auto simp: reacted_Cons)
  qed
qed simp

lemma toggle_reaction_flips:
  assumes "reactions_ok rs"
  shows "reacted (toggle_reaction user emoji rs) e u
         \<longleftrightarrow> (if e = emoji \<and> u = user then \<not> reacted rs e u else reacted rs e u)"
proof (cases "find (\<lambda>r. re_emoji r = emoji) rs")
  case None
  then have "emoji \<notin> re_emoji ` set rs" by (auto simp: find_None_all)
  then have "\<not> reacted rs emoji v" for v by (rule reacted_absent)
  then show ?thesis
    using None by (auto simp: toggle_reaction_def reacted_filter) (auto simp: reacted_def)
next
  case (Some r)
  then have "emoji \<in> re_emoji ` set rs" by (auto dest!: find_Some_props)
  then show ?thesis
    using Some assms update_reacted [of rs emoji user e u]
    by (auto simp: toggle_reaction_def reacted_filter reactions_ok_def)
qed

lemma toggle_reaction_ok: "reactions_ok rs \<Longrightarrow> reactions_ok (toggle_reaction user emoji rs)"
proof -
  assume ok: "reactions_ok rs"
  let ?f = "\<lambda>r. r\<lparr>re_users := toggle_user user (re_users r)\<rparr>"
  let ?rs = "case find (\<lambda>r. re_emoji r = emoji) rs of
      Some _ \<Rightarrow> update_first (\<lambda>r. re_emoji r = emoji) ?f rs
    | None \<Rightarrow> rs @ [\<lparr>re_emoji = emoji, re_users = [user]\<rparr>]"
  have "distinct (map re_emoji ?rs)"
    using ok by (auto simp: reactions_ok_def find_None_all split: option.split)
  moreover have "\<forall>r \<in> set (update_first (\<lambda>r. re_emoji r = emoji) ?f rs). distinct (re_users r)"
    using ok by (intro update_first_all) (auto simp: reactions_ok_def distinct_toggle_user)
  then have "\<forall>r \<in> set ?rs. distinct (re_users r)"
    using ok by (auto simp: reactions_ok_def split: option.split)
  ultimately show ?thesis
    by (auto simp: toggle_reaction_def reactions_ok_def distinct_map_filter)
qed

lemma chat_in_post:
  assumes "length (so_chat s) < MAX_CHAT"
  shows "chat_in c (post_chat_in mid now user body chan atts s) =
    chat_in c s @ (if c = chan then
      [\<lparr>ch_id = mid, ch_at = now, ch_user = user, ch_body = body, ch_edited = None,
        ch_channel = chan, ch_attachments = atts, ch_reactions = [], ch_thread_id = None,
        ch_reply_count = 0, ch_deleted = False\<rparr>] else [])"
  using assms by (simp add: chat_in_def post_chat_in_def push_chat_def keep_newest_small)

end
