(* ===== verification/Project_State.thy ===== *)
theory Project_State
  imports Ticket_Machine Social
begin

text \<open>
  The project state (\<open>application/src/state/mod.rs\<close>, \<open>state/work.rs\<close>, \<open>state/ops.rs\<close>,
  \<open>state/chat.rs\<close>) as far as ticket lookup, selection, sprints, the bounded ledgers and the
  question log read or write it; the other fields of the source's struct belong to parts that
  are not modelled. A \<open>BTreeMap\<close> is a partial function; \<open>now_rfc3339()\<close> is the argument
  \<open>now\<close>; \<open>u64\<close> and \<open>usize\<close> counters are \<open>nat\<close>.
\<close>

section \<open>Data\<close>

record activity_entry =
  ac_at :: string
  ac_agent :: string
  ac_action :: string
  ac_ticket :: "string option"

datatype revert_decision = RvPending | RvApproved | RvDismissed

record revert_event =
  rv_sha :: string
  rv_subject :: string
  rv_ticket :: string
  rv_role :: string
  rv_reverted_at :: string
  rv_detected_at :: string
  rv_decision :: revert_decision
  rv_decided_at :: "string option"
  rv_decided_by :: "string option"

record engine_incident =
  ei_engine :: string
  ei_reason :: string
  ei_role :: string
  ei_since :: string
  ei_hits :: nat

record sprint =
  sp_number :: nat
  sp_goal :: string
  sp_started_cycle :: nat
  sp_length_cycles :: nat
  sp_committed :: "ticket_id list"
  sp_started_at :: string
  sp_bug_burn_floor :: "priority option"

record planned_sprint =
  ps_id :: nat
  ps_goal :: string
  ps_tickets :: "ticket_id list"
  ps_created_at :: string
  ps_by :: string

record sprint_record =
  sr_number :: nat
  sr_goal :: string
  sr_committed :: nat
  sr_done :: nat
  sr_at :: string

record milestone =
  ms_name :: string
  ms_goal :: string
  ms_target_version :: string
  ms_goal_complete :: bool
  ms_fulfilled :: bool

datatype failure_layer = LSpec | LGate | LDesign | LInfra

record attempt_failure =
  af_attempt :: nat
  af_layer :: failure_layer
  af_gate :: string
  af_detail :: string
  af_files :: "string list"

record evidence =
  evd_kind :: string
  evd_label :: string
  evd_detail :: string
  evd_at :: string
  evd_source_gates :: "string list"
  evd_actor :: string

record tuning =
  tu_bugs_first :: bool
  tu_skip_ba :: bool
  tu_burn_mode :: bool
  tu_burn_until_bugs_le :: "nat option"
  tu_last_eval_day :: string

record tuning_audit_entry =
  ta_at :: string
  ta_actor :: string
  ta_source :: string
  ta_brake :: string
  ta_from :: bool
  ta_to :: bool
  ta_reason :: string
  ta_until :: "string option"

record doc_refresh_mark =
  dm_at :: string
  dm_fails :: nat

record project_state =
  st_tickets :: "ticket list"
  st_reverted_work :: "revert_event list"
  st_activity :: "activity_entry list"
  st_sprint :: "sprint option"
  st_sprints :: "sprint_record list"
  st_sprint_queue :: "planned_sprint list"
  st_hold_reasons :: "string \<rightharpoonup> string"
  st_milestones :: "milestone list"
  st_doc_refresh :: "string \<rightharpoonup> doc_refresh_mark"
  st_sprint_goal :: string
  st_tuning :: tuning
  st_tuning_history :: "tuning_audit_entry list"
  st_ticket_evidence :: "string \<rightharpoonup> evidence list"
  st_ticket_fail_attempts :: "string \<rightharpoonup> nat"
  st_ticket_journal :: "string \<rightharpoonup> string list"
  st_ticket_failures :: "string \<rightharpoonup> attempt_failure list"
  st_social :: social
  st_engine_incidents :: "engine_incident list"

definition tuning_default :: tuning where
  "tuning_default =
     \<lparr>tu_bugs_first = False, tu_skip_ba = False, tu_burn_mode = False,
      tu_burn_until_bugs_le = None, tu_last_eval_day = ''''\<rparr>"

definition tuning_is_default :: "tuning \<Rightarrow> bool" where
  "tuning_is_default t \<longleftrightarrow>
     \<not> tu_bugs_first t \<and> \<not> tu_skip_ba t \<and> \<not> tu_burn_mode t
     \<and> tu_burn_until_bugs_le t = None \<and> tu_last_eval_day t = []"

definition project_state_default :: project_state where
  "project_state_default =
     \<lparr>st_tickets = [], st_reverted_work = [], st_activity = [], st_sprint = None,
      st_sprints = [], st_sprint_queue = [], st_hold_reasons = Map.empty, st_milestones = [],
      st_doc_refresh = Map.empty, st_sprint_goal = '''', st_tuning = tuning_default,
      st_tuning_history = [], st_ticket_evidence = Map.empty,
      st_ticket_fail_attempts = Map.empty, st_ticket_journal = Map.empty,
      st_ticket_failures = Map.empty, st_social = social_default, st_engine_incidents = []\<rparr>"

section \<open>Tickets\<close>

definition ticket :: "project_state \<Rightarrow> ticket_id \<Rightarrow> ticket option" where
  "ticket s i = find (\<lambda>t. tk_id t = i) (st_tickets s)"

text \<open>\<open>ticket_mut(id)\<close> followed by a call of \<open>f\<close> on the ticket found.\<close>

definition with_ticket_mut :: "ticket_id \<Rightarrow> (ticket \<Rightarrow> ticket) \<Rightarrow> project_state \<Rightarrow> project_state" where
  "with_ticket_mut i f s =
     s\<lparr>st_tickets := update_first (\<lambda>t. tk_id t = i) f (st_tickets s)\<rparr>"

section \<open>Bounded ledgers\<close>

definition MAX_ACTIVITY :: nat where "MAX_ACTIVITY = 60"

definition MAX_REVERT_EVENTS :: nat where "MAX_REVERT_EVENTS = 100"

definition MAX_TUNING_HISTORY :: nat where "MAX_TUNING_HISTORY = 500"

definition push_activity :: "activity_entry \<Rightarrow> project_state \<Rightarrow> project_state" where
  "push_activity e s = s\<lparr>st_activity := keep_newest MAX_ACTIVITY (st_activity s @ [e])\<rparr>"

definition log_activity ::
  "string \<Rightarrow> string \<Rightarrow> string \<Rightarrow> string option \<Rightarrow> project_state \<Rightarrow> project_state" where
  "log_activity now agent action tkt s =
     push_activity \<lparr>ac_at = now, ac_agent = agent, ac_action = action, ac_ticket = tkt\<rparr> s"

definition record_revert :: "revert_event \<Rightarrow> project_state \<Rightarrow> bool \<times> project_state" where
  "record_revert ev s =
     (if \<exists>e \<in> set (st_reverted_work s). rv_sha e = rv_sha ev then (False, s)
      else (True, s\<lparr>st_reverted_work :=
                      keep_newest MAX_REVERT_EVENTS (st_reverted_work s @ [ev])\<rparr>))"

definition decide_revert ::
  "string \<Rightarrow> string \<Rightarrow> revert_decision \<Rightarrow> string \<Rightarrow> project_state \<Rightarrow> bool \<times> project_state" where
  "decide_revert now sha dec who s =
     (let p = (\<lambda>e. rv_sha e = sha \<and> rv_decision e = RvPending) in
      case find p (st_reverted_work s) of
        None \<Rightarrow> (False, s)
      | Some _ \<Rightarrow>
          (True, s\<lparr>st_reverted_work :=
             update_first p (\<lambda>e. e\<lparr>rv_decision := dec, rv_decided_at := Some now,
                                   rv_decided_by := Some who\<rparr>) (st_reverted_work s)\<rparr>))"

text \<open>\<open>map.entry(k).or_default()\<close>, a push and a drain to the newest \<open>cap\<close> entries.\<close>

definition log_entry :: "(string \<rightharpoonup> 'a list) \<Rightarrow> string \<Rightarrow> 'a list" where
  "log_entry m k = (case m k of None \<Rightarrow> [] | Some l \<Rightarrow> l)"

definition push_entry :: "nat \<Rightarrow> string \<Rightarrow> 'a \<Rightarrow> (string \<rightharpoonup> 'a list) \<Rightarrow> (string \<rightharpoonup> 'a list)" where
  "push_entry cap k x m = m(k \<mapsto> keep_newest cap (log_entry m k @ [x]))"

definition push_evidence :: "string \<Rightarrow> evidence \<Rightarrow> project_state \<Rightarrow> project_state" where
  "push_evidence k e s = s\<lparr>st_ticket_evidence := push_entry 6 k e (st_ticket_evidence s)\<rparr>"

definition add_evidence_for ::
  "string \<Rightarrow> string \<Rightarrow> string \<Rightarrow> string \<Rightarrow> string \<Rightarrow> string list \<Rightarrow> string
   \<Rightarrow> project_state \<Rightarrow> project_state" where
  "add_evidence_for now tkt kind label detail gates actor s =
     push_evidence tkt
       \<lparr>evd_kind = kind, evd_label = take 120 label, evd_detail = take 1200 detail, evd_at = now,
        evd_source_gates = gates, evd_actor = actor\<rparr> s"

definition add_evidence ::
  "string \<Rightarrow> string \<Rightarrow> string \<Rightarrow> string \<Rightarrow> string \<Rightarrow> project_state \<Rightarrow> project_state" where
  "add_evidence now tkt kind label detail s = add_evidence_for now tkt kind label detail [] '''' s"

definition record_attempt_failure :: "string \<Rightarrow> attempt_failure \<Rightarrow> project_state \<Rightarrow> project_state" where
  "record_attempt_failure k f s = s\<lparr>st_ticket_failures := push_entry 6 k f (st_ticket_failures s)\<rparr>"

definition attempt_failures :: "project_state \<Rightarrow> string \<Rightarrow> attempt_failure list" where
  "attempt_failures s k = log_entry (st_ticket_failures s) k"

definition push_note :: "string \<Rightarrow> string \<Rightarrow> project_state \<Rightarrow> project_state" where
  "push_note k n s = s\<lparr>st_ticket_journal := push_entry 4 k n (st_ticket_journal s)\<rparr>"

definition journal_note :: "string \<Rightarrow> string \<Rightarrow> project_state \<Rightarrow> project_state" where
  "journal_note tkt txt s =
     (let entry = take 500 (trim txt) in if entry = [] then s else push_note tkt entry s)"

definition record_tuning_change :: "tuning_audit_entry \<Rightarrow> project_state \<Rightarrow> project_state" where
  "record_tuning_change e s =
     s\<lparr>st_tuning_history := keep_newest MAX_TUNING_HISTORY (st_tuning_history s @ [e])\<rparr>"

section \<open>Engine incidents\<close>

definition U32_MAX :: nat where "U32_MAX = 4294967295"

definition open_engine_incident ::
  "string \<Rightarrow> string \<Rightarrow> string \<Rightarrow> string \<Rightarrow> project_state \<Rightarrow> project_state" where
  "open_engine_incident now engine role_label reason s =
     (let r = take 300 (trim reason); p = (\<lambda>i. ei_engine i = engine) in
      case find p (st_engine_incidents s) of
        Some _ \<Rightarrow>
          s\<lparr>st_engine_incidents :=
             update_first p (\<lambda>i. i\<lparr>ei_hits := min U32_MAX (ei_hits i + 1), ei_reason := r\<rparr>)
               (st_engine_incidents s)\<rparr>
      | None \<Rightarrow>
          s\<lparr>st_engine_incidents := st_engine_incidents s @
             [\<lparr>ei_engine = engine, ei_reason = r, ei_role = role_label, ei_since = now,
               ei_hits = 1\<rparr>]\<rparr>)"

definition close_engine_incident ::
  "string \<Rightarrow> project_state \<Rightarrow> engine_incident option \<times> project_state" where
  "close_engine_incident engine s =
     (let p = (\<lambda>i. ei_engine i = engine) in
      case find p (st_engine_incidents s) of
        None \<Rightarrow> (None, s)
      | Some i \<Rightarrow> (Some i, s\<lparr>st_engine_incidents := remove_first p (st_engine_incidents s)\<rparr>))"

section \<open>Lemmas\<close>

lemma ticket_Some: "ticket s i = Some t \<Longrightarrow> t \<in> set (st_tickets s) \<and> tk_id t = i"
  unfolding ticket_def by (drule find_Some_props) simp

lemma ticket_None: "ticket s i = None \<longleftrightarrow> i \<notin> tk_id ` set (st_tickets s)"
  by (auto simp: ticket_def find_None_all)

lemma ticket_member:
  "distinct (map tk_id (st_tickets s)) \<Longrightarrow> t \<in> set (st_tickets s) \<Longrightarrow> ticket s (tk_id t) = Some t"
  unfolding ticket_def by (rule find_distinct)

lemma tuning_is_default_iff: "tuning_is_default t \<longleftrightarrow> t = tuning_default"
  by (cases t) (auto simp: tuning_is_default_def tuning_default_def)

interpretation activity_log: capped_log st_activity push_activity MAX_ACTIVITY
  by unfold_locales (simp_all add: MAX_ACTIVITY_def push_activity_def)

interpretation tuning_log: capped_log st_tuning_history record_tuning_change MAX_TUNING_HISTORY
  by unfold_locales (simp_all add: MAX_TUNING_HISTORY_def record_tuning_change_def)

interpretation evidence_log:
  capped_log "\<lambda>s. log_entry (st_ticket_evidence s) k" "push_evidence k" 6 for k
  by unfold_locales (simp_all add: push_evidence_def push_entry_def log_entry_def)

interpretation failure_log:
  capped_log "\<lambda>s. attempt_failures s k" "record_attempt_failure k" 6 for k
  by unfold_locales
    (simp_all add: record_attempt_failure_def attempt_failures_def push_entry_def log_entry_def)

interpretation journal_log:
  capped_log "\<lambda>s. log_entry (st_ticket_journal s) k" "push_note k" 4 for k
  by unfold_locales (simp_all add: push_note_def push_entry_def log_entry_def)

text \<open>The revert ledger: one event per commit, bounded, decisions final.\<close>

definition revert_ledger_ok :: "project_state \<Rightarrow> bool" where
  "revert_ledger_ok s \<longleftrightarrow>
     distinct (map rv_sha (st_reverted_work s))
     \<and> length (st_reverted_work s) \<le> MAX_REVERT_EVENTS"

lemma distinct_keep_newest: "distinct (map f xs) \<Longrightarrow> distinct (map f (keep_newest n xs))"
  by (simp add: keep_newest_def drop_map [symmetric])

lemma record_revert_ok: "revert_ledger_ok s \<Longrightarrow> revert_ledger_ok (snd (record_revert ev s))"
proof (cases "\<exists>e \<in> set (st_reverted_work s). rv_sha e = rv_sha ev")
  case False
  assume "revert_ledger_ok s"
  with False have "distinct (map rv_sha (st_reverted_work s @ [ev]))"
    by (auto simp: revert_ledger_ok_def)
  then have "distinct (map rv_sha (keep_newest MAX_REVERT_EVENTS (st_reverted_work s @ [ev])))"
    by (rule distinct_keep_newest)
  with False show ?thesis by (simp add: record_revert_def revert_ledger_ok_def)
qed (simp add: record_revert_def)

lemma decide_revert_ok: "revert_ledger_ok s \<Longrightarrow> revert_ledger_ok (snd (decide_revert now sha d w s))"
  by (simp add: decide_revert_def revert_ledger_ok_def Let_def split: option.split)

text \<open>Incidents: one per engine.\<close>

lemma open_engine_incident_distinct:
  assumes "distinct (map ei_engine (st_engine_incidents s))"
  shows "distinct (map ei_engine (st_engine_incidents (open_engine_incident now e r why s)))"
  using assms
  by (auto simp: open_engine_incident_def Let_def find_None_all split: option.splits)

end
