(* ===== verification/Dependency_Graph.thy ===== *)
theory Dependency_Graph
  imports Project_State "HOL-Library.AList"
begin

text \<open>
  Structural validation of the backlog (\<open>ProjectState::validate\<close> and
  \<open>first_dependency_cycle\<close> in \<open>application/src/state/mod.rs\<close>). The cycle search is the
  source's iterative depth-first search with an explicit stack and a colour map; the theory
  proves that it ends, that what it reports is on a cycle, and that it reports nothing only
  when the dependency graph has no cycle.
\<close>

section \<open>The search\<close>

datatype color = White | Grey | Black

type_synonym colors = "(ticket_id \<times> color) list"
type_synonym dfs_stack = "(ticket_id \<times> bool) list"

definition deps :: "project_state \<Rightarrow> ticket_id \<Rightarrow> ticket_id list" where
  "deps s n = (case ticket s n of Some t \<Rightarrow> tk_depends_on t | None \<Rightarrow> [])"

text \<open>
  The inner loop over \<open>depends_on\<close>: a grey dependency ends the search, a black one is
  skipped, every other one is pushed. The head of the list is the top of the stack.
\<close>

fun scan_deps :: "colors \<Rightarrow> ticket_id list \<Rightarrow> dfs_stack \<Rightarrow> ticket_id + dfs_stack" where
  "scan_deps c [] stk = Inr stk"
| "scan_deps c (d # ds) stk =
     (case map_of c d of
        Some Grey \<Rightarrow> Inl d
      | Some Black \<Rightarrow> scan_deps c ds stk
      | Some White \<Rightarrow> scan_deps c ds ((d, False) # stk)
      | None \<Rightarrow> scan_deps c ds ((d, False) # stk))"

definition whites :: "colors \<Rightarrow> nat" where
  "whites c = card {n. map_of c n = Some White}"

lemma finite_whites: "finite {n. map_of c n = Some White}"
proof -
  have "{n. map_of c n = Some White} \<subseteq> dom (map_of c)" by auto
  then show ?thesis using finite_dom_map_of finite_subset by blast
qed

lemma whites_update_le: "k \<noteq> White \<Longrightarrow> whites (AList.update n k c) \<le> whites c"
  unfolding whites_def by (rule card_mono [OF finite_whites]) (auto simp: update_conv')

lemma whites_enter:
  assumes "map_of c n = Some White" and "k \<noteq> White"
  shows "whites (AList.update n k c) < whites c"
  unfolding whites_def
proof (rule psubset_card_mono [OF finite_whites])
  show "{m. map_of (AList.update n k c) m = Some White} \<subset> {m. map_of c m = Some White}"
    using assms by (auto simp: update_conv')
qed

function dfs :: "project_state \<Rightarrow> colors \<Rightarrow> dfs_stack \<Rightarrow> ticket_id option \<times> colors" where
  "dfs s c [] = (None, c)"
| "dfs s c ((node, exiting) # stk) =
     (if exiting then dfs s (AList.update node Black c) stk
      else if map_of c node \<noteq> Some White then dfs s c stk
      else (let c' = AList.update node Grey c in
            case scan_deps c' (deps s node) ((node, True) # stk) of
              Inl d \<Rightarrow> (Some d, c')
            | Inr stk' \<Rightarrow> dfs s c' stk'))"
  by pat_completeness auto
termination
proof (relation "measures [\<lambda>(s, c, stk). whites c, \<lambda>(s, c, stk). length stk]")
  show "wf (measures [\<lambda>(s, c, stk). whites c, \<lambda>(s, c, stk). length stk])" by simp
next
  fix s c node exiting stk
  show "((s, AList.update node Black c, stk), s, c, (node, exiting) # stk)
     \<in> measures [\<lambda>(s, c, stk). whites c, \<lambda>(s, c, stk). length stk]"
    using whites_update_le [of Black node c] by (auto simp: le_less)
next
  fix s c node exiting stk
  show "((s, c, stk), s, c, (node, exiting) # stk)
     \<in> measures [\<lambda>(s, c, stk). whites c, \<lambda>(s, c, stk). length stk]" by simp
next
  fix s :: project_state and c node exiting stk and x :: colors and y :: dfs_stack
  assume "\<not> exiting" "\<not> map_of c node \<noteq> Some White"
    and "x = AList.update node Grey c"
  then show "((s, x, y), s, c, (node, exiting) # stk)
     \<in> measures [\<lambda>(s, c, stk). whites c, \<lambda>(s, c, stk). length stk]"
    using whites_enter [of c node Grey] by simp
qed

declare dfs.simps [simp del]

fun cycle_from :: "project_state \<Rightarrow> colors \<Rightarrow> ticket_id list \<Rightarrow> ticket_id option" where
  "cycle_from s c [] = None"
| "cycle_from s c (start # rest) =
     (if map_of c start \<noteq> Some White then cycle_from s c rest
      else case dfs s c [(start, False)] of
             (Some d, _) \<Rightarrow> Some d
           | (None, c') \<Rightarrow> cycle_from s c' rest)"

definition first_dependency_cycle :: "project_state \<Rightarrow> ticket_id option" where
  "first_dependency_cycle s =
     cycle_from s (map (\<lambda>t. (tk_id t, White)) (st_tickets s)) (map tk_id (st_tickets s))"

section \<open>validate\<close>

fun first_duplicate :: "ticket_id list \<Rightarrow> ticket_id list \<Rightarrow> ticket_id option" where
  "first_duplicate seen [] = None"
| "first_duplicate seen (i # rest) =
     (if i \<in> set seen then Some i else first_duplicate (i # seen) rest)"

fun first_unknown :: "ticket_id list \<Rightarrow> ticket list \<Rightarrow> (ticket_id \<times> ticket_id) option" where
  "first_unknown seen [] = None"
| "first_unknown seen (t # ts) =
     (case find (\<lambda>d. d \<notin> set seen) (tk_depends_on t) of
        Some d \<Rightarrow> Some (tk_id t, d)
      | None \<Rightarrow> first_unknown seen ts)"

definition validate :: "project_state \<Rightarrow> string + unit" where
  "validate s =
     (let ids = map tk_id (st_tickets s) in
      case first_duplicate [] ids of
        Some i \<Rightarrow> Inl (''duplicate ticket id: '' @ ticket_id_str i)
      | None \<Rightarrow>
      (case first_unknown ids (st_tickets s) of
        Some (i, d) \<Rightarrow>
          Inl (''ticket '' @ ticket_id_str i @ '' depends on unknown ticket '' @ ticket_id_str d)
      | None \<Rightarrow>
      (case first_dependency_cycle s of
        Some n \<Rightarrow> Inl (''dependency cycle involving ticket '' @ ticket_id_str n)
      | None \<Rightarrow> Inr ())))"

section \<open>The invariant of the search\<close>

definition edge :: "project_state \<Rightarrow> ticket_id \<Rightarrow> ticket_id \<Rightarrow> bool" where
  "edge s a b \<longleftrightarrow> b \<in> set (deps s a)"

text \<open>The nodes on the stack with an exit marker, and the nearest of them.\<close>

definition entered :: "dfs_stack \<Rightarrow> ticket_id set" where
  "entered stk = {n. (n, True) \<in> set stk}"

fun top_entered :: "dfs_stack \<Rightarrow> ticket_id option" where
  "top_entered [] = None"
| "top_entered ((n, b) # stk) = (if b then Some n else top_entered stk)"

definition settled :: "colors \<Rightarrow> ticket_id \<Rightarrow> bool" where
  "settled c d \<longleftrightarrow> map_of c d = Some Black \<or> map_of c d = None"

text \<open>
  Reading the stack from the top, with \<open>A\<close> the nodes above: no node has an exit marker
  below itself, every node was reached from the nearest exit marker below it, and every
  dependency of an entered node is settled or still above its marker.
\<close>

fun stack_ok :: "project_state \<Rightarrow> colors \<Rightarrow> ticket_id set \<Rightarrow> dfs_stack \<Rightarrow> bool" where
  "stack_ok s c A [] = True"
| "stack_ok s c A ((n, b) # stk) =
     (n \<notin> entered stk
      \<and> (\<forall>p. top_entered stk = Some p \<longrightarrow> edge s p n)
      \<and> (b \<longrightarrow> (\<forall>d. edge s n d \<longrightarrow> settled c d \<or> d \<in> A))
      \<and> stack_ok s c (insert n A) stk)"

definition blacks :: "colors \<Rightarrow> ticket_id set" where
  "blacks c = {n. map_of c n = Some Black}"

definition black_ok :: "project_state \<Rightarrow> colors \<Rightarrow> bool" where
  "black_ok s c \<longleftrightarrow>
     (\<forall>n \<in> blacks c. \<forall>d. edge s n d \<longrightarrow> settled c d)
     \<and> acyclicP (\<lambda>a b. a \<in> blacks c \<and> b \<in> blacks c \<and> edge s a b)"

definition dfs_inv :: "project_state \<Rightarrow> colors \<Rightarrow> dfs_stack \<Rightarrow> bool" where
  "dfs_inv s c stk \<longleftrightarrow>
     stack_ok s c {} stk \<and> black_ok s c \<and> {n. map_of c n = Some Grey} = entered stk"

lemma entered_simps [simp]:
  "entered [] = {}"
  "entered ((n, True) # stk) = insert n (entered stk)"
  "entered ((n, False) # stk) = entered stk"
  by (auto simp: entered_def)

lemma stack_ok_mono:
  "stack_ok s c A stk \<Longrightarrow> (\<And>d. settled c d \<or> d \<in> A \<Longrightarrow> settled c' d \<or> d \<in> A')
   \<Longrightarrow> stack_ok s c' A' stk"
proof (induction stk arbitrary: A A')
  case Nil
  then show ?case by simp
next
  case (Cons x stk)
  obtain n b where x: "x = (n, b)" by (cases x)
  have "stack_ok s c' (insert n A') stk"
  proof (rule Cons.IH)
    show "stack_ok s c (insert n A) stk" using Cons.prems(1) x by simp
    show "settled c d \<or> d \<in> insert n A \<Longrightarrow> settled c' d \<or> d \<in> insert n A'" for d
      using Cons.prems(2) by blast
  qed
  with Cons.prems x show ?case by auto
qed

lemma top_entered_exists: "d \<in> entered stk \<Longrightarrow> \<exists>q. top_entered stk = Some q"
  by (induction stk rule: top_entered.induct) (auto simp: entered_def)

text \<open>Every entered node reaches the topmost entered node.\<close>

lemma entered_path:
  "stack_ok s c A stk \<Longrightarrow> top_entered stk = Some p \<Longrightarrow> d \<in> entered stk \<Longrightarrow> (edge s)\<^sup>*\<^sup>* d p"
proof (induction stk arbitrary: A p)
  case Nil
  then show ?case by simp
next
  case (Cons x stk)
  obtain n b where x: "x = (n, b)" by (cases x)
  show ?case
  proof (cases b)
    case False
    with Cons x show ?thesis by auto
  next
    case True
    with Cons.prems x have p: "p = n" by simp
    show ?thesis
    proof (cases "d = n")
      case True
      with p show ?thesis by simp
    next
      case False
      with Cons.prems True x have d: "d \<in> entered stk" by simp
      then obtain q where q: "top_entered stk = Some q" by (auto dest: top_entered_exists)
      have "stack_ok s c (insert n A) stk" using Cons.prems(1) x by simp
      then have "(edge s)\<^sup>*\<^sup>* d q" using q d by (rule Cons.IH)
      moreover have "edge s q n" using Cons.prems(1) x q by simp
      ultimately show ?thesis using p by (simp add: rtranclp.rtrancl_into_rtrancl)
    qed
  qed
qed

section \<open>One step of the search keeps the invariant\<close>

lemma scan_deps_Inl:
  "scan_deps c ds stk = Inl d \<Longrightarrow> d \<in> set ds \<and> map_of c d = Some Grey"
  by (induction ds arbitrary: stk) (auto split: option.splits color.splits)

lemma scan_deps_Inr:
  "scan_deps c ds stk = Inr stk' \<Longrightarrow>
   \<exists>pend. stk' = map (\<lambda>d. (d, False)) pend @ stk \<and> set pend \<subseteq> set ds
     \<and> (\<forall>d \<in> set pend. map_of c d \<noteq> Some Grey)
     \<and> (\<forall>d \<in> set ds. d \<in> set pend \<or> map_of c d = Some Black)"
proof (induction ds arbitrary: stk)
  case Nil
  then show ?case by simp
next
  case (Cons d ds)
  show ?case
  proof (cases "map_of c d = Some Black")
    case True
    with Cons.prems have "scan_deps c ds stk = Inr stk'" by simp
    from Cons.IH [OF this] True show ?thesis by auto
  next
    case False
    with Cons.prems have ng: "map_of c d \<noteq> Some Grey"
      and sc: "scan_deps c ds ((d, False) # stk) = Inr stk'"
      by (auto split: option.splits color.splits)
    from Cons.IH [OF sc] obtain pend where
      "stk' = map (\<lambda>d. (d, False)) (pend @ [d]) @ stk" "set pend \<subseteq> set ds"
      "\<forall>d \<in> set pend. map_of c d \<noteq> Some Grey"
      "\<forall>d \<in> set ds. d \<in> set pend \<or> map_of c d = Some Black" by auto
    with ng show ?thesis by (intro exI [of _ "pend @ [d]"]) auto
  qed
qed

lemma stack_ok_pending:
  assumes "\<forall>d \<in> set pend. d \<notin> entered stk \<and> (\<forall>p. top_entered stk = Some p \<longrightarrow> edge s p d)"
    and "stack_ok s c (A \<union> set pend) stk"
  shows "stack_ok s c A (map (\<lambda>d. (d, False)) pend @ stk)"
  using assms
proof (induction pend arbitrary: A)
  case Nil
  then show ?case by simp
next
  case (Cons d pend)
  have same: "entered (map (\<lambda>d. (d, False)) xs @ stk) = entered stk"
    "top_entered (map (\<lambda>d. (d, False)) xs @ stk) = top_entered stk" for xs
    by (induction xs) auto
  have "stack_ok s c (insert d A) (map (\<lambda>d. (d, False)) pend @ stk)"
    using Cons.prems by (intro Cons.IH) (simp_all add: insert_commute)
  with Cons.prems show ?case by (simp add: same)
qed

lemma black_ok_add:
  assumes ok: "black_ok s c" and grey: "map_of c n = Some Grey"
    and out: "\<forall>d. edge s n d \<longrightarrow> settled c d"
  shows "black_ok s (AList.update n Black c)"
proof -
  let ?c = "AList.update n Black c"
  let ?R = "\<lambda>c a b. a \<in> blacks c \<and> b \<in> blacks c \<and> edge s a b"
  have b: "blacks ?c = insert n (blacks c)" by (auto simp: blacks_def update_conv')
  have nb: "n \<notin> blacks c" using grey by (simp add: blacks_def)
  have st: "settled ?c d" if "settled c d" for d
    using that by (auto simp: settled_def update_conv')
  have closed: "\<forall>m \<in> blacks ?c. \<forall>d. edge s m d \<longrightarrow> settled ?c d"
    using ok out st by (auto simp: black_ok_def b)
  have no_in: "\<not> ?R ?c a n" for a
  proof
    assume r: "?R ?c a n"
    then have "settled c n" using ok out b by (auto simp: black_ok_def)
    then show False using grey by (simp add: settled_def)
  qed
  have "acyclicP (?R ?c)"
    unfolding acyclic_def
  proof (intro allI notI)
    fix x assume "(x, x) \<in> {(a, b). ?R ?c a b}\<^sup>+"
    then have xx: "(?R ?c)\<^sup>+\<^sup>+ x x" by (simp add: tranclp_unfold)
    have sub: "(?R ?c)\<^sup>+\<^sup>+ x y \<Longrightarrow> x \<noteq> n \<Longrightarrow> (?R c)\<^sup>+\<^sup>+ x y" for y
    proof (induction rule: tranclp_induct)
      case (base y)
      from base.hyps no_in have "y \<noteq> n" by blast
      with base b have "?R c x y" by blast
      then show ?case by (rule tranclp.r_into_trancl)
    next
      case (step y z)
      from step.hyps(1) obtain w where "?R ?c w y" by (cases rule: tranclp.cases) blast+
      with no_in have "y \<noteq> n" by blast
      moreover have "z \<noteq> n" using step.hyps(2) no_in by blast
      ultimately have "?R c y z" using step.hyps(2) b by blast
      with step.IH [OF step.prems] show ?case by (rule tranclp.trancl_into_trancl)
    qed
    from xx obtain w where "?R ?c w x" by (cases rule: tranclp.cases) blast+
    with no_in have "x \<noteq> n" by blast
    with sub xx have "(?R c)\<^sup>+\<^sup>+ x x" by blast
    then show False using ok by (simp add: black_ok_def acyclic_def tranclp_unfold)
  qed
  with closed show ?thesis by (simp add: black_ok_def)
qed

lemma dfs_inv_exit:
  assumes "dfs_inv s c ((n, True) # stk)"
  shows "dfs_inv s (AList.update n Black c) stk"
proof -
  let ?c = "AList.update n Black c"
  have ok: "stack_ok s c {n} stk" and out: "\<forall>d. edge s n d \<longrightarrow> settled c d"
    and new: "n \<notin> entered stk" and grey: "map_of c n = Some Grey"
    and greys: "{m. map_of c m = Some Grey} = insert n (entered stk)"
    using assms by (auto simp: dfs_inv_def)
  have "stack_ok s ?c {} stk"
    using ok by (rule stack_ok_mono) (auto simp: settled_def update_conv')
  moreover have "black_ok s ?c"
    using assms grey out by (intro black_ok_add) (simp_all add: dfs_inv_def)
  moreover have "{m. map_of ?c m = Some Grey} = entered stk"
    using greys new by (auto simp: update_conv')
  ultimately show ?thesis by (simp add: dfs_inv_def)
qed

lemma dfs_inv_skip:
  assumes "dfs_inv s c ((n, False) # stk)" and "map_of c n \<noteq> Some White"
  shows "dfs_inv s c stk"
proof -
  have "n \<notin> entered stk" and greys: "{m. map_of c m = Some Grey} = entered stk"
    and ok: "stack_ok s c {n} stk"
    using assms(1) by (auto simp: dfs_inv_def)
  then have "map_of c n \<noteq> Some Grey" by auto
  with assms(2) have "settled c n"
    by (auto simp: settled_def) (metis color.exhaust)
  then have "stack_ok s c {} stk" by (intro stack_ok_mono [OF ok]) auto
  with greys assms(1) show ?thesis by (simp add: dfs_inv_def)
qed

lemma black_ok_grey:
  assumes "black_ok s c" and "map_of c n = Some White"
  shows "black_ok s (AList.update n Grey c)"
proof -
  have b: "blacks (AList.update n Grey c) = blacks c"
    using assms(2) by (auto simp: blacks_def update_conv')
  have "settled (AList.update n Grey c) d" if "settled c d" for d
    using that assms(2) by (auto simp: settled_def update_conv')
  with assms(1) b show ?thesis by (auto simp: black_ok_def)
qed

lemma dfs_inv_enter:
  assumes inv: "dfs_inv s c ((n, False) # stk)" and white: "map_of c n = Some White"
    and sc: "scan_deps (AList.update n Grey c) (deps s n) ((n, True) # stk) = Inr stk'"
  shows "dfs_inv s (AList.update n Grey c) stk'"
proof -
  let ?c = "AList.update n Grey c"
  obtain pend where stk': "stk' = map (\<lambda>d. (d, False)) pend @ (n, True) # stk"
    and sub: "set pend \<subseteq> set (deps s n)" and ng: "\<forall>d \<in> set pend. map_of ?c d \<noteq> Some Grey"
    and all: "\<forall>d \<in> set (deps s n). d \<in> set pend \<or> map_of ?c d = Some Black"
    using scan_deps_Inr [OF sc] by blast
  have greys: "{m. map_of ?c m = Some Grey} = insert n (entered stk)"
    using inv by (auto simp: dfs_inv_def update_conv')
  have ok: "stack_ok s c {n} stk" and link: "n \<notin> entered stk"
    "\<forall>p. top_entered stk = Some p \<longrightarrow> edge s p n"
    using inv by (auto simp: dfs_inv_def)
  have below: "stack_ok s ?c (insert n (set pend)) stk"
    using ok by (rule stack_ok_mono) (use white in \<open>auto simp: settled_def update_conv'\<close>)
  have "stack_ok s ?c (set pend) ((n, True) # stk)"
    using below link all by (auto simp: edge_def settled_def)
  moreover have "\<forall>d \<in> set pend. d \<notin> entered ((n, True) # stk)
      \<and> (\<forall>p. top_entered ((n, True) # stk) = Some p \<longrightarrow> edge s p d)"
    using sub ng greys by (auto simp: edge_def)
  ultimately have "stack_ok s ?c {} stk'"
    unfolding stk' by (intro stack_ok_pending) simp_all
  moreover have "entered stk' = insert n (entered stk)"
    unfolding stk' by (auto simp: entered_def)
  ultimately show ?thesis
    using inv greys white black_ok_grey by (simp add: dfs_inv_def)
qed

section \<open>Correctness of the search\<close>

text \<open>A grey dependency closes a cycle.\<close>

lemma dfs_inv_cycle:
  assumes inv: "dfs_inv s c ((n, False) # stk)"
    and sc: "scan_deps (AList.update n Grey c) (deps s n) ((n, True) # stk) = Inl d"
  shows "(edge s)\<^sup>+\<^sup>+ d d"
proof -
  have e: "edge s n d" and "map_of (AList.update n Grey c) d = Some Grey"
    using scan_deps_Inl [OF sc] by (auto simp: edge_def)
  then have d: "d = n \<or> d \<in> entered stk"
    using inv by (auto simp: dfs_inv_def update_conv' split: if_splits)
  have "(edge s)\<^sup>*\<^sup>* d n"
  proof (cases "d = n")
    case False
    with d have de: "d \<in> entered stk" by simp
    then obtain q where q: "top_entered stk = Some q" by (auto dest: top_entered_exists)
    have "stack_ok s c {n} stk" and "edge s q n" using inv q by (auto simp: dfs_inv_def)
    then show ?thesis
      using entered_path [OF _ q de] by (meson rtranclp.rtrancl_into_rtrancl)
  qed simp
  with e show ?thesis by (simp add: rtranclp_into_tranclp1)
qed

lemma dfs_sound:
  "dfs_inv s c stk \<Longrightarrow>
   (case dfs s c stk of (Some d, _) \<Rightarrow> (edge s)\<^sup>+\<^sup>+ d d | (None, c') \<Rightarrow> dfs_inv s c' [])"
proof (induction s c stk rule: dfs.induct)
  case (1 s c)
  then show ?case by (simp add: dfs.simps)
next
  case (2 s c node exiting stk)
  show ?case
  proof (cases exiting)
    case True
    with 2 dfs_inv_exit show ?thesis by (simp add: dfs.simps(2) [of s c node])
  next
    case ne: False
    show ?thesis
    proof (cases "map_of c node = Some White")
      case False
      with 2 ne dfs_inv_skip show ?thesis by (simp add: dfs.simps(2) [of s c node])
    next
      case True
      let ?c = "AList.update node Grey c"
      show ?thesis
      proof (cases "scan_deps ?c (deps s node) ((node, True) # stk)")
        case (Inl d)
        then have "(edge s)\<^sup>+\<^sup>+ d d" using 2(4) ne dfs_inv_cycle by simp
        with Inl ne True show ?thesis by (simp add: dfs.simps(2) [of s c node])
      next
        case (Inr stk')
        then have "dfs_inv s ?c stk'" using 2(4) ne True dfs_inv_enter by simp
        with 2(3) [OF ne _ refl Inr] ne True Inr show ?thesis
          by (simp add: dfs.simps(2) [of s c node])
      qed
    qed
  qed
qed

text \<open>Colours only move away from white, and everything on the stack is visited.\<close>

definition visits :: "colors \<Rightarrow> colors \<Rightarrow> ticket_id set \<Rightarrow> bool" where
  "visits c c' N \<longleftrightarrow>
     dom (map_of c) \<subseteq> dom (map_of c')
     \<and> (\<forall>n. map_of c n \<noteq> Some White \<or> n \<in> N \<longrightarrow> map_of c' n \<noteq> Some White)"

lemma visits_update:
  "k \<noteq> White \<Longrightarrow> visits (AList.update n k c) c' N \<Longrightarrow> visits c c' (insert n N)"
  unfolding visits_def by (auto simp: update_conv' split: if_splits)

lemma visits_subset: "visits c c' N \<Longrightarrow> M \<subseteq> N \<Longrightarrow> visits c c' M"
  unfolding visits_def by blast

lemma visits_skip: "visits c c' N \<Longrightarrow> map_of c n \<noteq> Some White \<Longrightarrow> visits c c' (insert n N)"
  unfolding visits_def by blast

lemma dfs_visits: "dfs s c stk = (None, c') \<Longrightarrow> visits c c' (fst ` set stk)"
proof (induction s c stk rule: dfs.induct)
  case (1 s c)
  then show ?case by (simp add: dfs.simps visits_def)
next
  case (2 s c node exiting stk)
  show ?case
  proof (cases exiting)
    case True
    with 2 have "visits (AList.update node Black c) c' (fst ` set stk)"
      by (simp add: dfs.simps(2) [of s c node])
    then show ?thesis using visits_update [of Black] by simp
  next
    case ne: False
    show ?thesis
    proof (cases "map_of c node = Some White")
      case False
      with 2 ne have "visits c c' (fst ` set stk)" by (simp add: dfs.simps(2) [of s c node])
      then show ?thesis using visits_skip False by simp
    next
      case True
      let ?c = "AList.update node Grey c"
      from 2(4) ne True obtain stk' where
        sc: "scan_deps ?c (deps s node) ((node, True) # stk) = Inr stk'"
        and run: "dfs s ?c stk' = (None, c')"
        by (auto simp: dfs.simps(2) [of s c node] Let_def split: sum.splits)
      have "visits ?c c' (fst ` set stk')" using 2(3) [OF ne _ refl sc run] True by simp
      moreover have "insert node (fst ` set stk) \<subseteq> fst ` set stk'"
        using scan_deps_Inr [OF sc] by force
      ultimately have "visits ?c c' (insert node (fst ` set stk))" by (rule visits_subset)
      then show ?thesis using visits_update [of Grey] by fastforce
    qed
  qed
qed

lemma dfs_inv_start: "dfs_inv s c [] \<Longrightarrow> dfs_inv s c [(i, False)]"
  by (simp add: dfs_inv_def)

lemma cycle_from_sound:
  "dfs_inv s c [] \<Longrightarrow> cycle_from s c is = Some d \<Longrightarrow> (edge s)\<^sup>+\<^sup>+ d d"
proof (induction "is" arbitrary: c)
  case Nil
  then show ?case by simp
next
  case (Cons i "is")
  show ?case
  proof (cases "map_of c i = Some White")
    case False
    with Cons show ?thesis by simp
  next
    case True
    obtain r c' where run: "dfs s c [(i, False)] = (r, c')" by (cases "dfs s c [(i, False)]")
    have snd: "case r of Some d \<Rightarrow> (edge s)\<^sup>+\<^sup>+ d d | None \<Rightarrow> dfs_inv s c' []"
      using dfs_sound [OF dfs_inv_start [OF Cons.prems(1), of i]] run by (cases r) auto
    show ?thesis
    proof (cases r)
      case None
      with snd True run Cons.prems(2) Cons.IH [of c'] show ?thesis by simp
    next
      case (Some e)
      with snd True run Cons.prems(2) show ?thesis by simp
    qed
  qed
qed

lemma visits_trans: "visits c c' N \<Longrightarrow> visits c' c'' M \<Longrightarrow> visits c c'' (N \<union> M)"
  unfolding visits_def by blast

lemma cycle_from_complete:
  "dfs_inv s c [] \<Longrightarrow> cycle_from s c is = None \<Longrightarrow>
   \<exists>c'. dfs_inv s c' [] \<and> visits c c' (set is)"
proof (induction "is" arbitrary: c)
  case Nil
  then show ?case by (intro exI [of _ c]) (simp add: visits_def)
next
  case (Cons i "is")
  show ?case
  proof (cases "map_of c i = Some White")
    case False
    with Cons obtain c' where "dfs_inv s c' []" "visits c c' (set is)" by fastforce
    with False visits_skip show ?thesis by (intro exI [of _ c']) simp
  next
    case True
    obtain r c' where run: "dfs s c [(i, False)] = (r, c')" by (cases "dfs s c [(i, False)]")
    with True Cons.prems(2) have r: "r = None" and rest: "cycle_from s c' is = None"
      by (cases r; simp)+
    have "dfs_inv s c' []"
      using dfs_sound [OF dfs_inv_start [OF Cons.prems(1), of i]] run r by simp
    from Cons.IH [OF this rest] obtain c'' where
      "dfs_inv s c'' []" and v: "visits c' c'' (set is)" by blast
    moreover have "visits c c'' ({i} \<union> set is)"
      using dfs_visits [of s c "[(i, False)]" c'] run r v by (intro visits_trans) simp_all
    ultimately show ?thesis by (intro exI [of _ c'']) simp
  qed
qed

lemma edge_source: "edge s a b \<Longrightarrow> a \<in> tk_id ` set (st_tickets s)"
  using ticket_None [of s a] by (auto simp: edge_def deps_def split: option.splits)

lemma initial_inv: "dfs_inv s (map (\<lambda>t. (tk_id t, White)) ts) []"
proof -
  let ?c = "map (\<lambda>t. (tk_id t, White)) ts"
  have w: "map_of ?c n = None \<or> map_of ?c n = Some White" for n
    by (induction ts) auto
  have "map_of ?c n \<noteq> Some Grey" "map_of ?c n \<noteq> Some Black" for n
    using w [of n] by auto
  then show ?thesis by (simp add: dfs_inv_def black_ok_def blacks_def acyclic_def)
qed

lemma dom_initial: "dom (map_of (map (\<lambda>t. (tk_id t, White)) ts)) = tk_id ` set ts"
  by (simp add: dom_map_of_conv_image_fst image_image)

lemma first_dependency_cycle_sound:
  "first_dependency_cycle s = Some d \<Longrightarrow> (edge s)\<^sup>+\<^sup>+ d d"
  unfolding first_dependency_cycle_def using initial_inv by (rule cycle_from_sound)

lemma first_dependency_cycle_complete:
  assumes "first_dependency_cycle s = None"
  shows "acyclicP (edge s)"
proof -
  let ?ids = "tk_id ` set (st_tickets s)"
  obtain c where inv: "dfs_inv s c []"
    and v: "visits (map (\<lambda>t. (tk_id t, White)) (st_tickets s)) c (set (map tk_id (st_tickets s)))"
    using cycle_from_complete [OF initial_inv] assms unfolding first_dependency_cycle_def by blast
  have "?ids \<subseteq> blacks c"
  proof
    fix n assume n: "n \<in> ?ids"
    then have "n \<in> dom (map_of c)"
      using v unfolding visits_def dom_initial by blast
    moreover have "map_of c n \<noteq> Some White"
      using v n by (simp add: visits_def)
    moreover have "map_of c n \<noteq> Some Grey" using inv by (auto simp: dfs_inv_def)
    ultimately show "n \<in> blacks c"
      by (auto simp: blacks_def) (metis color.exhaust)
  qed
  have "(edge s)\<^sup>+\<^sup>+ a b \<Longrightarrow> b \<in> ?ids \<Longrightarrow>
      (\<lambda>a b. a \<in> blacks c \<and> b \<in> blacks c \<and> edge s a b)\<^sup>+\<^sup>+ a b" for a b
  proof (induction rule: tranclp_induct)
    case (base y)
    with edge_source \<open>?ids \<subseteq> blacks c\<close> show ?case by (intro tranclp.r_into_trancl) blast
  next
    case (step y z)
    have "y \<in> ?ids" using step.hyps(2) by (rule edge_source)
    with step \<open>?ids \<subseteq> blacks c\<close> show ?case
      by (intro tranclp.trancl_into_trancl [OF step.IH]) blast+
  qed
  moreover have "(edge s)\<^sup>+\<^sup>+ a a \<Longrightarrow> a \<in> ?ids" for a
    by (metis converse_tranclpE edge_source)
  ultimately have "\<not> (edge s)\<^sup>+\<^sup>+ a a" for a
    using inv unfolding dfs_inv_def black_ok_def acyclic_def tranclp_unfold [symmetric]
    by (metis (no_types, lifting) tranclp_unfold)
  then show ?thesis by (simp add: acyclic_def tranclp_unfold)
qed

lemma first_dependency_cycle_None_iff: "first_dependency_cycle s = None \<longleftrightarrow> acyclicP (edge s)"
proof
  assume "acyclicP (edge s)"
  then have "\<not> (edge s)\<^sup>+\<^sup>+ d d" for d
    by (simp add: acyclic_def tranclp_unfold)
  then show "first_dependency_cycle s = None"
    using first_dependency_cycle_sound by (cases "first_dependency_cycle s") auto
qed (rule first_dependency_cycle_complete)

section \<open>Correctness of validate\<close>

lemma first_duplicate_None:
  "first_duplicate seen is = None \<longleftrightarrow> distinct is \<and> set seen \<inter> set is = {}"
  by (induction "is" arbitrary: seen) auto

lemma first_unknown_None:
  "first_unknown seen ts = None \<longleftrightarrow> (\<forall>t \<in> set ts. set (tk_depends_on t) \<subseteq> set seen)"
  by (induction ts) (auto simp: find_None_all split: option.splits dest: find_Some_props)

definition backlog_ok :: "project_state \<Rightarrow> bool" where
  "backlog_ok s \<longleftrightarrow>
     distinct (map tk_id (st_tickets s))
     \<and> (\<forall>t \<in> set (st_tickets s). set (tk_depends_on t) \<subseteq> tk_id ` set (st_tickets s))
     \<and> acyclicP (edge s)"

lemma validate_iff: "validate s = Inr () \<longleftrightarrow> backlog_ok s"
proof -
  let ?ids = "map tk_id (st_tickets s)"
  have "validate s = Inr () \<longleftrightarrow>
      first_duplicate [] ?ids = None \<and> first_unknown ?ids (st_tickets s) = None
      \<and> first_dependency_cycle s = None"
    by (auto simp: validate_def Let_def split: option.splits)
  then show ?thesis
    by (simp add: backlog_ok_def first_duplicate_None first_unknown_None
        first_dependency_cycle_None_iff)
qed

text \<open>
  In a validated backlog every non-empty set of tickets has a member none of whose
  dependencies is in the set: dependencies alone never deadlock the loop.
\<close>

lemma edge_member:
  "backlog_ok s \<Longrightarrow> t \<in> set (st_tickets s) \<Longrightarrow> edge s (tk_id t) d \<longleftrightarrow> d \<in> set (tk_depends_on t)"
  by (simp add: edge_def deps_def ticket_member backlog_ok_def)

lemma finite_edges: "finite {(a, b). edge s a b}"
proof -
  have "{(a, b). edge s a b} \<subseteq>
      (\<Union>t \<in> set (st_tickets s). {tk_id t} \<times> set (tk_depends_on t))"
    by (auto simp: edge_def deps_def dest!: ticket_Some [OF sym] split: option.splits)
  then show ?thesis by (rule finite_subset) auto
qed

lemma backlog_minimal:
  assumes ok: "backlog_ok s" and "U \<noteq> {}" and "U \<subseteq> set (st_tickets s)"
  shows "\<exists>t \<in> U. \<forall>d \<in> set (tk_depends_on t). d \<notin> tk_id ` U"
proof -
  have "wf ({(a, b). edge s a b}\<inverse>)"
    using finite_acyclic_wf_converse [OF finite_edges] ok by (simp add: backlog_ok_def)
  then obtain m where m: "m \<in> tk_id ` U" and
    min: "\<And>y. (y, m) \<in> {(a, b). edge s a b}\<inverse> \<Longrightarrow> y \<notin> tk_id ` U"
    using assms(2) by (metis image_is_empty wf_eq_minimal ex_in_conv)
  from m obtain t where t: "t \<in> U" "m = tk_id t" by blast
  with min edge_member [OF ok] assms(3) show ?thesis by fastforce
qed

end
