(* ===== verification/Selection.thy ===== *)
theory Selection
  imports Dependency_Graph
begin

text \<open>
  The pure ticket-selection policy (\<open>application/src/selection.rs\<close>): the queues each role
  pulls from, the sprint scope gate, what blocks open work and the brakes on feature work.
  The lemmas show that every queue is exactly the eligible tickets in the documented order,
  that what the queues hand to DEV can be claimed, that a validated backlog is never
  deadlocked by its dependencies, and that the projection of blocked work agrees with the
  scheduler.
\<close>

section \<open>Scope and order\<close>

definition below_bug_burn_floor :: "priority option \<Rightarrow> priority \<Rightarrow> bool" where
  "below_bug_burn_floor floor p = (case floor of None \<Rightarrow> False | Some f \<Rightarrow> p < f)"

definition active_bug_burn_floor :: "project_state \<Rightarrow> priority option" where
  "active_bug_burn_floor s = Option.bind (st_sprint s) sp_bug_burn_floor"

definition in_dev_scope :: "project_state \<Rightarrow> ticket_id \<Rightarrow> bool" where
  "in_dev_scope s i =
     (case ticket s i of
        Some t \<Rightarrow>
          if tk_kind t = Bug \<and> tk_status t = Open
          then \<not> below_bug_burn_floor (active_bug_burn_floor s) (tk_priority t)
          else (case st_sprint s of None \<Rightarrow> True | Some sp \<Rightarrow> i \<in> set (sp_committed sp))
      | None \<Rightarrow> (case st_sprint s of None \<Rightarrow> True | Some sp \<Rightarrow> i \<in> set (sp_committed sp)))"

definition priority_rank :: "priority \<Rightarrow> nat" where
  "priority_rank p = (case p of Low \<Rightarrow> 0 | Medium \<Rightarrow> 1 | High \<Rightarrow> 2)"

text \<open>The comparator of \<open>candidates\<close>: \<open>cand_le s a b\<close> is \<open>cmp(a, b) != Greater\<close>.\<close>

definition cand_le :: "project_state \<Rightarrow> ticket \<Rightarrow> ticket \<Rightarrow> bool" where
  "cand_le s a b =
     (let a_in = in_dev_scope s (tk_id a); b_in = in_dev_scope s (tk_id b) in
      if a_in \<noteq> b_in then a_in
      else if priority_rank (tk_priority b) \<noteq> priority_rank (tk_priority a)
      then priority_rank (tk_priority b) < priority_rank (tk_priority a)
      else ticket_id_str (tk_id a) \<le> ticket_id_str (tk_id b))"

definition candidates :: "project_state \<Rightarrow> (ticket \<Rightarrow> bool) \<Rightarrow> ticket_id list" where
  "candidates s pred = map tk_id (sort_by (cand_le s) (filter pred (st_tickets s)))"

definition is_feature :: "ticket \<Rightarrow> bool" where
  "is_feature t \<longleftrightarrow> tk_kind t \<in> {Feature, Chore}"

section \<open>The queues\<close>

definition first_of :: "'a list \<Rightarrow> 'a option" where
  "first_of xs = (case xs of [] \<Rightarrow> None | x # _ \<Rightarrow> Some x)"

definition open_bug_candidates :: "project_state \<Rightarrow> ticket_id list" where
  "open_bug_candidates s =
     candidates s (\<lambda>t. tk_kind t = Bug \<and> tk_status t \<in> {Open, Ready, Pending}
       \<and> \<not> below_bug_burn_floor (active_bug_burn_floor s) (tk_priority t))"

definition next_open_bug :: "project_state \<Rightarrow> ticket_id option" where
  "next_open_bug s = first_of (open_bug_candidates s)"

definition next_feature_work :: "project_state \<Rightarrow> ticket_id option" where
  "next_feature_work s =
     map_option tk_id (find (\<lambda>t. is_feature t \<and> tk_status t \<in> {Pending, Ready}) (st_tickets s))"

fun position :: "('a \<Rightarrow> bool) \<Rightarrow> 'a list \<Rightarrow> nat option" where
  "position p [] = None"
| "position p (x # xs) = (if p x then Some 0 else map_option Suc (position p xs))"

definition burn_down_scope :: "project_state \<Rightarrow> ticket_id list" where
  "burn_down_scope s =
     (case next_feature_work s of
        None \<Rightarrow> []
      | Some feature \<Rightarrow>
          let feature_pos = position (\<lambda>t. tk_id t = feature) (st_tickets s);
              feature_deps = map_option tk_depends_on (ticket s feature)
          in map (\<lambda>(pos, t). tk_id t)
               (filter (\<lambda>(pos, t).
                   (case feature_deps of None \<Rightarrow> False | Some ds \<Rightarrow> tk_id t \<in> set ds)
                   \<or> (case feature_pos of None \<Rightarrow> False | Some fp \<Rightarrow> pos < fp))
                 (filter (\<lambda>(pos, t). tk_kind t = Bug \<and> tk_status t = Open)
                   (enumerate 0 (st_tickets s)))))"

definition design_candidates :: "project_state \<Rightarrow> ticket_id list" where
  "design_candidates s =
     candidates s (\<lambda>t. is_feature t \<and> tk_status t = Pending \<and> d_technical (tk_design t) = None)"

definition next_feature_needing_design :: "project_state \<Rightarrow> ticket_id option" where
  "next_feature_needing_design s = first_of (design_candidates s)"

definition ux_candidates :: "project_state \<Rightarrow> ticket_id list" where
  "ux_candidates s =
     candidates s (\<lambda>t. is_feature t \<and> tk_status t = Pending \<and> tk_has_ui t
       \<and> d_technical (tk_design t) \<noteq> None \<and> d_ux (tk_design t) = None)"

definition next_feature_needing_ux :: "project_state \<Rightarrow> ticket_id option" where
  "next_feature_needing_ux s = first_of (ux_candidates s)"

definition DOCS_STAGE_FAIL_CAP :: nat where "DOCS_STAGE_FAIL_CAP = 3"

definition documentable_candidates :: "project_state \<Rightarrow> ticket_id list" where
  "documentable_candidates s =
     filter (\<lambda>i. (case st_doc_refresh s (ticket_id_str i) of None \<Rightarrow> 0 | Some m \<Rightarrow> dm_fails m)
                  < DOCS_STAGE_FAIL_CAP)
       (candidates s (\<lambda>t. is_feature t \<and> tk_status t = Done))"

definition next_documentable :: "project_state \<Rightarrow> ticket_id option" where
  "next_documentable s = first_of (documentable_candidates s)"

definition finished_status :: "status \<Rightarrow> bool" where
  "finished_status st \<longleftrightarrow> st \<in> {Done, Documented, Verified}"

definition deps_satisfied :: "project_state \<Rightarrow> ticket \<Rightarrow> bool" where
  "deps_satisfied s t \<longleftrightarrow>
     (\<forall>dep \<in> set (tk_depends_on t).
        case ticket s dep of None \<Rightarrow> False | Some d \<Rightarrow> finished_status (tk_status d))"

definition ready_feature_candidates :: "project_state \<Rightarrow> ticket_id list" where
  "ready_feature_candidates s =
     candidates s (\<lambda>t. is_feature t \<and> tk_status t = Ready \<and> deps_satisfied s t)"

definition next_ready_feature :: "project_state \<Rightarrow> ticket_id option" where
  "next_ready_feature s = first_of (ready_feature_candidates s)"

section \<open>Blocked work\<close>

datatype blocked_reason = DependencyUnsatisfied | OutOfDevScope

record blocked_work =
  bw_id :: ticket_id
  bw_title :: string
  bw_reason :: blocked_reason

definition blocked_reasons :: "project_state \<Rightarrow> ticket \<Rightarrow> blocked_reason list" where
  "blocked_reasons s t =
     (if \<not> deps_satisfied s t then [DependencyUnsatisfied] else [])
     @ (if \<not> in_dev_scope s (tk_id t) then [OutOfDevScope] else [])"

definition work_blockers :: "project_state \<Rightarrow> blocked_work list" where
  "work_blockers s =
     concat (map (\<lambda>t. map (\<lambda>r. \<lparr>bw_id = tk_id t, bw_title = tk_title t, bw_reason = r\<rparr>)
                        (blocked_reasons s t))
       (filter (\<lambda>t. is_feature t \<and> tk_status t \<in> {Pending, Ready, InProgress}) (st_tickets s)))"

section \<open>Brakes on feature work\<close>

definition burn_mode_holds :: "project_state \<Rightarrow> bool" where
  "burn_mode_holds s \<longleftrightarrow>
     tu_burn_mode (st_tuning s)
     \<and> (case tu_burn_until_bugs_le (st_tuning s) of
          Some target \<Rightarrow> length (open_bug_candidates s) > target
        | None \<Rightarrow> True)"

definition clear_burn_mode_if_gate_met :: "project_state \<Rightarrow> bool \<times> project_state" where
  "clear_burn_mode_if_gate_met s =
     (if tu_burn_mode (st_tuning s) \<and> \<not> burn_mode_holds s
      then (True, s\<lparr>st_tuning := (st_tuning s)\<lparr>tu_burn_mode := False\<rparr>\<rparr>)
      else (False, s))"

definition dev_feature_paused :: "project_state \<Rightarrow> bool \<Rightarrow> bool" where
  "dev_feature_paused s bug_slot_worked \<longleftrightarrow>
     (tu_bugs_first (st_tuning s) \<or> burn_mode_holds s) \<and> bug_slot_worked"

definition bug_slot_did_real_work :: "ticket_id option \<Rightarrow> project_state \<Rightarrow> bool" where
  "bug_slot_did_real_work bug_fixed s =
     (case bug_fixed of
        Some i \<Rightarrow>
          (case find (\<lambda>t. tk_id t = i) (st_tickets s) of
             None \<Rightarrow> True
           | Some t \<Rightarrow> tk_status t \<noteq> Rejected)
      | None \<Rightarrow> False)"

section \<open>Lemmas on the order\<close>

interpretation cand_order: total_preorder "cand_le s" for s
proof
  fix x y z :: Ticket.ticket
  show "cand_le s x y \<or> cand_le s y x" by (auto simp: cand_le_def Let_def)
  show "cand_le s x y \<Longrightarrow> cand_le s y z \<Longrightarrow> cand_le s x z"
    by (auto simp: cand_le_def Let_def split: if_splits)
qed

lemma set_candidates: "set (candidates s pred) = tk_id ` {t \<in> set (st_tickets s). pred t}"
  by (simp add: candidates_def)

lemma distinct_candidates:
  "distinct (map tk_id (st_tickets s)) \<Longrightarrow> distinct (candidates s pred)"
  by (simp add: candidates_def distinct_map_filter)

lemma candidates_sorted:
  "\<exists>ts. candidates s pred = map tk_id ts \<and> sorted_wrt (cand_le s) ts
     \<and> mset ts = mset (filter pred (st_tickets s))"
  by (rule exI [of _ "sort_by (cand_le s) (filter pred (st_tickets s))"])
    (simp add: candidates_def cand_order.sorted_sort_by)

lemma candidates_first_best:
  assumes "first_of (candidates s pred) = Some i" and "t \<in> set (st_tickets s)" and "pred t"
  shows "\<exists>b \<in> set (st_tickets s). tk_id b = i \<and> pred b \<and> cand_le s b t"
proof -
  let ?ts = "sort_by (cand_le s) (filter pred (st_tickets s))"
  have ne: "?ts \<noteq> []" and i: "i = tk_id (hd ?ts)"
    using assms(1) by (auto simp: candidates_def first_of_def split: list.splits)
  have "hd ?ts \<in> set (filter pred (st_tickets s))"
    using ne hd_in_set by (metis set_sort_by)
  moreover have "cand_le s (hd ?ts) t"
    using assms(2,3) by (intro cand_order.hd_sort_by_le) simp
  ultimately show ?thesis using i by auto
qed

lemma candidates_Nil_iff: "candidates s pred = [] \<longleftrightarrow> (\<forall>t \<in> set (st_tickets s). \<not> pred t)"
  using set_candidates [of s pred] by (metis (mono_tags, lifting) empty_Collect_eq image_is_empty set_empty)

section \<open>Lemmas on dependencies\<close>

lemma deps_progress:
  assumes ok: "backlog_ok s" and t: "t \<in> set (st_tickets s)"
    and "\<not> finished_status (tk_status t)"
  shows "\<exists>u \<in> set (st_tickets s). \<not> finished_status (tk_status u) \<and> deps_satisfied s u"
proof -
  let ?U = "{u \<in> set (st_tickets s). \<not> finished_status (tk_status u)}"
  have "?U \<noteq> {}" using assms by blast
  then obtain u where u: "u \<in> ?U" and out: "\<forall>d \<in> set (tk_depends_on u). d \<notin> tk_id ` ?U"
    using backlog_minimal [OF ok, of ?U] by blast
  have "deps_satisfied s u"
    unfolding deps_satisfied_def
  proof
    fix d assume d: "d \<in> set (tk_depends_on u)"
    then have "d \<in> tk_id ` set (st_tickets s)"
      using ok u by (auto simp: backlog_ok_def)
    then obtain v where v: "v \<in> set (st_tickets s)" "tk_id v = d" by blast
    then have "ticket s d = Some v" using ok ticket_member by (auto simp: backlog_ok_def)
    moreover have "finished_status (tk_status v)" using out d v by blast
    ultimately show "case ticket s d of None \<Rightarrow> False | Some d \<Rightarrow> finished_status (tk_status d)"
      by simp
  qed
  with u show ?thesis by blast
qed

section \<open>Lemmas on blocked work\<close>

lemma work_blockers_member:
  "\<lparr>bw_id = i, bw_title = ttl, bw_reason = r\<rparr> \<in> set (work_blockers s) \<longleftrightarrow>
   (\<exists>t \<in> set (st_tickets s). is_feature t \<and> tk_status t \<in> {Pending, Ready, InProgress}
      \<and> tk_id t = i \<and> tk_title t = ttl \<and> r \<in> set (blocked_reasons s t))"
  by (auto simp: work_blockers_def)

lemma work_blockers_id:
  "(\<exists>b \<in> set (work_blockers s). bw_id b = i) \<longleftrightarrow>
   (\<exists>t \<in> set (st_tickets s). is_feature t \<and> tk_status t \<in> {Pending, Ready, InProgress}
      \<and> tk_id t = i \<and> blocked_reasons s t \<noteq> [])" (is "?l \<longleftrightarrow> ?r")
proof
  assume ?l
  then obtain ttl r where "\<lparr>bw_id = i, bw_title = ttl, bw_reason = r\<rparr> \<in> set (work_blockers s)"
    by (metis blocked_work.cases blocked_work.select_convs(1))
  then show ?r unfolding work_blockers_member by (metis empty_iff empty_set)
next
  assume ?r
  then obtain t where t: "t \<in> set (st_tickets s)" "is_feature t"
    "tk_status t \<in> {Pending, Ready, InProgress}" "tk_id t = i" "blocked_reasons s t \<noteq> []" by blast
  have "hd (blocked_reasons s t) \<in> set (blocked_reasons s t)" using t(5) by simp
  then have "\<lparr>bw_id = i, bw_title = tk_title t, bw_reason = hd (blocked_reasons s t)\<rparr>
      \<in> set (work_blockers s)"
    using t unfolding work_blockers_member by blast
  then show ?l by (metis blocked_work.select_convs(1))
qed

lemma blocked_reasons_iff:
  "DependencyUnsatisfied \<in> set (blocked_reasons s t) \<longleftrightarrow> \<not> deps_satisfied s t"
  "OutOfDevScope \<in> set (blocked_reasons s t) \<longleftrightarrow> \<not> in_dev_scope s (tk_id t)"
  by (auto simp: blocked_reasons_def)

section \<open>Lemmas on the brakes\<close>

lemma open_bug_candidates_tuning [simp]:
  "open_bug_candidates (s\<lparr>st_tuning := tu\<rparr>) = open_bug_candidates s"
proof -
  have [simp]: "ticket (s\<lparr>st_tuning := tu\<rparr>) = ticket s" by (rule ext) (simp add: ticket_def)
  have "in_dev_scope (s\<lparr>st_tuning := tu\<rparr>) = in_dev_scope s"
    by (rule ext) (simp add: in_dev_scope_def active_bug_burn_floor_def split: option.split)
  then have "cand_le (s\<lparr>st_tuning := tu\<rparr>) = cand_le s"
    by (intro ext) (simp add: cand_le_def)
  then show ?thesis
    by (simp add: open_bug_candidates_def candidates_def active_bug_burn_floor_def)
qed

lemma burn_gate_cleared:
  "clear_burn_mode_if_gate_met s = (True, s') \<Longrightarrow>
   \<not> burn_mode_holds s' \<and> \<not> tu_burn_mode (st_tuning s')
   \<and> tu_bugs_first (st_tuning s') = tu_bugs_first (st_tuning s)
   \<and> clear_burn_mode_if_gate_met s' = (False, s')"
  by (auto simp: clear_burn_mode_if_gate_met_def burn_mode_holds_def split: if_splits)

section \<open>Lemmas on the burn-down scope\<close>

lemma position_Some_lt: "position p xs = Some k \<Longrightarrow> k < length xs \<and> p (xs ! k)"
  by (induction xs arbitrary: k) (auto split: if_splits)

lemma position_find: "find p xs = Some x \<Longrightarrow> \<exists>k. position p xs = Some k \<and> xs ! k = x"
  by (induction xs) (auto split: if_splits)

lemma set_burn_down_scope:
  assumes "next_feature_work s = Some f"
  shows "set (burn_down_scope s) =
    {tk_id (st_tickets s ! k) | k. k < length (st_tickets s)
       \<and> tk_kind (st_tickets s ! k) = Bug \<and> tk_status (st_tickets s ! k) = Open
       \<and> ((\<exists>ft. ticket s f = Some ft \<and> tk_id (st_tickets s ! k) \<in> set (tk_depends_on ft))
          \<or> (\<exists>fp. position (\<lambda>t. tk_id t = f) (st_tickets s) = Some fp \<and> k < fp))}"
  (is "_ = ?R")
proof
  show "set (burn_down_scope s) \<subseteq> ?R"
    using assms
    by (auto simp: burn_down_scope_def Let_def in_set_enumerate_eq split: option.splits; blast)
  show "?R \<subseteq> set (burn_down_scope s)"
    using assms
    by (auto simp: burn_down_scope_def Let_def in_set_enumerate_eq image_iff split: option.splits;
        force)
qed

lemma burn_down_scope_open_bug:
  "i \<in> set (burn_down_scope s) \<Longrightarrow>
   \<exists>t \<in> set (st_tickets s). tk_id t = i \<and> tk_kind t = Bug \<and> tk_status t = Open"
  by (auto simp: burn_down_scope_def Let_def in_set_enumerate_eq split: option.splits
      intro!: bexI [OF _ nth_mem])

lemma distinct_burn_down_scope:
  assumes "distinct (map tk_id (st_tickets s))"
  shows "distinct (burn_down_scope s)"
proof -
  have snd: "map snd (enumerate n xs) = xs" for n and xs :: "Ticket.ticket list"
    by (simp add: enumerate_eq_zip)
  have "map (\<lambda>(p, t). tk_id t) (enumerate 0 (st_tickets s)) = map tk_id (st_tickets s)"
    using snd [of 0 "st_tickets s"] by (metis (no_types, lifting) case_prod_unfold map_eq_conv map_map comp_apply)
  then have "distinct (map (\<lambda>(p, t). tk_id t) (enumerate 0 (st_tickets s)))"
    using assms by simp
  then show ?thesis
    by (auto simp: burn_down_scope_def Let_def split: option.splits
        intro!: distinct_map_filter)
qed

end
