(* ===== verification/Sprint.thy ===== *)
theory Sprint
  imports Selection "HOL-Library.Product_Lexorder"
begin

text \<open>
  The sprint layer (\<open>application/src/sprint.rs\<close>) and its scope bookkeeping
  (\<open>application/src/backlog_scoping.rs\<close>): sizing and filling a commitment, opening and rolling
  over sprints, the queue of planned sprints, the mid-sprint refill and top-up and the parking
  of exhausted tickets.

  The \<open>time\<close> crate is outside the sources: what it answers is the parameter \<open>clock\<close>, the
  current time stamp and, for a stored stamp, the whole minutes and whole days since it
  (\<open>None\<close> when the stamp does not parse). Sprint numbers and cycle counters are \<open>nat\<close>.
\<close>

record clock =
  ck_now :: string
  ck_minutes_since :: "string \<Rightarrow> int option"
  ck_days_since :: "string \<Rightarrow> int option"

section \<open>Scope bookkeeping (backlog\_scoping.rs)\<close>

definition CAPACITY_FLOOR :: nat where "CAPACITY_FLOOR = 3"

definition sprint_capacity :: "project_state \<Rightarrow> nat" where
  "sprint_capacity s =
     (let history = map sr_done (take 5 (rev (st_sprints s))) in
      if history = [] then CAPACITY_FLOOR * 2
      else
        let avg = sum_list history div max (length history) 1;
            reverted = length (filter (\<lambda>e. rv_decision e = RvApproved) (st_reverted_work s))
        in max (avg + avg div 2 - reverted) CAPACITY_FLOOR)"

definition reserved_seat :: "project_state \<Rightarrow> ticket_id list" where
  "reserved_seat s =
     (case find (\<lambda>t. is_feature t \<and> tk_status t = Ready) (st_tickets s) of
        None \<Rightarrow> [] | Some t \<Rightarrow> [tk_id t])"

text \<open>The bug loop of \<open>open_backlog\<close>: seats are handed out until the budget is used up.\<close>

fun seat_bugs :: "nat \<Rightarrow> ticket_id list \<Rightarrow> ticket list \<Rightarrow> ticket_id list" where
  "seat_bugs budget picked [] = picked"
| "seat_bugs budget picked (t # ts) =
     (if budget = 0 then picked
      else if tk_id t \<in> set picked then seat_bugs budget picked ts
      else seat_bugs (budget - 1) (picked @ [tk_id t]) ts)"

definition open_backlog :: "project_state \<Rightarrow> priority option \<Rightarrow> ticket_id list" where
  "open_backlog s bug_burn_floor =
     (let cap = sprint_capacity s;
          picked = reserved_seat s @ burn_down_scope s;
          picked = seat_bugs (cap - length picked) picked
            (filter (\<lambda>t. tk_kind t = Bug \<and> tk_status t = Open
                \<and> \<not> below_bug_burn_floor bug_burn_floor (tk_priority t)) (st_tickets s));
          seats = cap - length picked
      in picked @ map tk_id (take seats
           (filter (\<lambda>t. is_feature t \<and> tk_status t \<notin> {Done, Documented, Rejected}
               \<and> tk_id t \<notin> set picked) (st_tickets s))))"

definition done_count :: "project_state \<Rightarrow> nat" where
  "done_count s =
     (case st_sprint s of
        None \<Rightarrow> 0
      | Some sp \<Rightarrow> length (filter (\<lambda>i. case ticket s i of
            None \<Rightarrow> False | Some t \<Rightarrow> tk_status t \<in> {Done, Documented}) (sp_committed sp)))"

section \<open>Sprint windows\<close>

datatype sprint_window = Days nat | Cycles nat

record sprint_policy =
  sy_window :: sprint_window
  sy_bug_burn_floor :: "priority option"

datatype sprint_unit = UDays | UCycles

text \<open>The three fields of \<open>WorkflowConfig\<close> that \<open>SprintPolicy::from_config\<close> reads, and the floor.\<close>

record workflow_sprint_config =
  wf_sprint_unit :: sprint_unit
  wf_sprint_length_days :: nat
  wf_sprint_length_cycles :: nat
  wf_bug_burn_floor :: "priority option"

definition policy_from_config :: "workflow_sprint_config \<Rightarrow> sprint_policy" where
  "policy_from_config cfg =
     \<lparr>sy_window = (case wf_sprint_unit cfg of
          UDays \<Rightarrow> Days (max (wf_sprint_length_days cfg) 1)
        | UCycles \<Rightarrow> Cycles (max (wf_sprint_length_cycles cfg) 1)),
      sy_bug_burn_floor = wf_bug_burn_floor cfg\<rparr>"

definition policy_cycles :: "nat \<Rightarrow> sprint_policy" where
  "policy_cycles len = \<lparr>sy_window = Cycles len, sy_bug_burn_floor = None\<rparr>"

definition policy_days :: "nat \<Rightarrow> sprint_policy" where
  "policy_days d = \<lparr>sy_window = Days d, sy_bug_burn_floor = None\<rparr>"

definition all_committed_done :: "project_state \<Rightarrow> sprint \<Rightarrow> bool" where
  "all_committed_done s sp \<longleftrightarrow>
     sp_committed sp \<noteq> []
     \<and> (\<forall>i \<in> set (sp_committed sp).
          case find (\<lambda>t. ticket_id_str (tk_id t) = ticket_id_str i) (st_tickets s) of
            None \<Rightarrow> True | Some t \<Rightarrow> tk_status t \<in> {Documented, Verified, Rejected})"

definition MIN_SPRINT_MINUTES :: nat where "MIN_SPRINT_MINUTES = 240"

definition sprint_age_minutes :: "clock \<Rightarrow> string \<Rightarrow> nat" where
  "sprint_age_minutes ck started_at =
     (case ck_minutes_since ck started_at of Some m \<Rightarrow> nat (max m 0) | None \<Rightarrow> U64_MAX)"

definition sprint_age_days :: "clock \<Rightarrow> string \<Rightarrow> nat" where
  "sprint_age_days ck started_at =
     (case ck_days_since ck started_at of Some d \<Rightarrow> nat (max d 0) | None \<Rightarrow> U64_MAX)"

section \<open>Opening and rolling over\<close>

definition goal_from :: "project_state \<Rightarrow> ticket_id list \<Rightarrow> string" where
  "goal_from s committed =
     (let titles = take 3 (List.map_filter (\<lambda>i. map_option tk_title (ticket s i)) committed) in
      if titles = [] then ''Stabilise and polish'' else ''Ship '' @ join '', '' titles)"

definition live_plan :: "project_state \<Rightarrow> planned_sprint \<Rightarrow> ticket_id list" where
  "live_plan s p =
     filter (\<lambda>i. case ticket s i of None \<Rightarrow> False
                 | Some t \<Rightarrow> tk_status t \<notin> {Documented, Verified, Rejected, OnHold})
       (ps_tickets p)"

definition archive_sprint :: "string \<Rightarrow> project_state \<Rightarrow> project_state" where
  "archive_sprint now s =
     (case st_sprint s of
        None \<Rightarrow> s
      | Some closing \<Rightarrow>
          s\<lparr>st_sprints := st_sprints s @
             [\<lparr>sr_number = sp_number closing, sr_goal = sp_goal closing,
               sr_committed = length (sp_committed closing), sr_done = done_count s,
               sr_at = now\<rparr>]\<rparr>)"

definition roll_over ::
  "clock \<Rightarrow> nat \<Rightarrow> nat \<Rightarrow> priority option \<Rightarrow> project_state \<Rightarrow> nat \<times> project_state" where
  "roll_over ck cycle len bug_burn_floor s0 =
     (let s1 = archive_sprint (ck_now ck) s0;
          number = (case st_sprint s1 of None \<Rightarrow> 0 | Some sp \<Rightarrow> sp_number sp) + 1;
          planned = (case st_sprint_queue s1 of [] \<Rightarrow> None | p # _ \<Rightarrow> Some p);
          s2 = s1\<lparr>st_sprint_queue := tl (st_sprint_queue s1)\<rparr>;
          (committed, planned_goal) =
            (case planned of
               Some p \<Rightarrow>
                 if live_plan s2 p = [] then (open_backlog s2 bug_burn_floor, Some (ps_goal p))
                 else (live_plan s2 p, Some (ps_goal p))
             | None \<Rightarrow> (open_backlog s2 bug_burn_floor, None));
          goal =
            (case planned_goal of
               Some g \<Rightarrow>
                 if \<not> is_blank g then trim g
                 else if \<not> is_blank (st_sprint_goal s2) then trim (st_sprint_goal s2)
                 else goal_from s2 committed
             | None \<Rightarrow>
                 if \<not> is_blank (st_sprint_goal s2) then trim (st_sprint_goal s2)
                 else goal_from s2 committed)
      in (number, s2\<lparr>st_sprint := Some
            \<lparr>sp_number = number, sp_goal = goal, sp_started_cycle = cycle, sp_length_cycles = len,
             sp_committed = committed, sp_started_at = ck_now ck,
             sp_bug_burn_floor = bug_burn_floor\<rparr>\<rparr>))"

definition need_open :: "clock \<Rightarrow> nat \<Rightarrow> sprint_policy \<Rightarrow> project_state \<Rightarrow> bool" where
  "need_open ck cycle policy s =
     (case st_sprint s of
        None \<Rightarrow> True
      | Some sp \<Rightarrow>
          (case sy_window policy of
             Cycles len \<Rightarrow>
               cycle - sp_started_cycle sp \<ge> len
               \<and> sprint_age_minutes ck (sp_started_at sp) \<ge> MIN_SPRINT_MINUTES
           | Days d \<Rightarrow> sprint_age_days ck (sp_started_at sp) \<ge> d))"

definition window_length :: "sprint_policy \<Rightarrow> project_state \<Rightarrow> nat" where
  "window_length policy s =
     (case sy_window policy of
        Cycles len \<Rightarrow> len
      | Days _ \<Rightarrow> (case st_sprint s of None \<Rightarrow> 0 | Some sp \<Rightarrow> sp_length_cycles sp))"

definition advance ::
  "clock \<Rightarrow> nat \<Rightarrow> sprint_policy \<Rightarrow> project_state \<Rightarrow> nat option \<times> project_state" where
  "advance ck cycle policy s =
     (let roll = (case roll_over ck cycle (window_length policy s) (sy_bug_burn_floor policy) s of
                    (n, s') \<Rightarrow> (Some n, s'))
      in if (case st_sprint s of None \<Rightarrow> False | Some sp \<Rightarrow> all_committed_done s sp) then roll
         else if \<not> need_open ck cycle policy s then (None, s)
         else roll)"

definition close_now :: "clock \<Rightarrow> nat \<Rightarrow> project_state \<Rightarrow> nat option \<times> project_state" where
  "close_now ck cycle s =
     (case st_sprint s of
        None \<Rightarrow> (None, s)
      | Some sp \<Rightarrow>
          (case roll_over ck cycle (max (sp_length_cycles sp) 1) (sp_bug_burn_floor sp) s of
             (n, s') \<Rightarrow> (Some n, s')))"

section \<open>Scope changes in a running sprint\<close>

text \<open>\<open>if let Some(sprint) = &mut state.sprint { sprint.committed = ... }\<close>\<close>

definition map_committed ::
  "(ticket_id list \<Rightarrow> ticket_id list) \<Rightarrow> project_state \<Rightarrow> project_state" where
  "map_committed f s =
     s\<lparr>st_sprint := map_option (\<lambda>sp. sp\<lparr>sp_committed := f (sp_committed sp)\<rparr>) (st_sprint s)\<rparr>"

definition committed_of :: "project_state \<Rightarrow> ticket_id list" where
  "committed_of s = (case st_sprint s of None \<Rightarrow> [] | Some sp \<Rightarrow> sp_committed sp)"

definition commit_ticket :: "ticket_id \<Rightarrow> project_state \<Rightarrow> bool \<times> project_state" where
  "commit_ticket i s =
     (if ticket s i = None then (False, s)
      else case st_sprint s of
             None \<Rightarrow> (False, s)
           | Some sp \<Rightarrow>
               if i \<in> set (sp_committed sp) then (False, s)
               else (True, map_committed (\<lambda>c. c @ [i]) s))"

definition uncommit_ticket :: "ticket_id \<Rightarrow> project_state \<Rightarrow> bool \<times> project_state" where
  "uncommit_ticket i s =
     (case st_sprint s of
        None \<Rightarrow> (False, s)
      | Some sp \<Rightarrow>
          (length (filter (\<lambda>c. c \<noteq> i) (sp_committed sp)) \<noteq> length (sp_committed sp),
           map_committed (filter (\<lambda>c. c \<noteq> i)) s))"

definition workable :: "project_state \<Rightarrow> ticket_id list" where
  "workable s = ready_feature_candidates s @ open_bug_candidates s"

definition committed_can_progress :: "project_state \<Rightarrow> bool" where
  "committed_can_progress s =
     (case st_sprint s of
        None \<Rightarrow> False
      | Some sp \<Rightarrow> \<exists>i \<in> set (sp_committed sp).
          i \<in> set (workable s)
          \<or> (case ticket s i of None \<Rightarrow> False | Some t \<Rightarrow> tk_status t = InProgress))"

definition committed_has_feature :: "project_state \<Rightarrow> bool" where
  "committed_has_feature s =
     (case st_sprint s of
        None \<Rightarrow> False
      | Some sp \<Rightarrow> \<exists>i \<in> set (sp_committed sp).
          case ticket s i of None \<Rightarrow> False | Some t \<Rightarrow> is_feature t)"

text \<open>The last case of \<open>refill_empty_scope\<close>: reserve one ready feature for a bug-only sprint.\<close>

definition reserve_feature :: "project_state \<Rightarrow> nat \<times> project_state" where
  "reserve_feature s =
     (if committed_has_feature s then (0, s)
      else case find (\<lambda>t. is_feature t \<and> tk_status t = Ready \<and> tk_id t \<notin> set (committed_of s))
                  (st_tickets s) of
             None \<Rightarrow> (0, s)
           | Some ready \<Rightarrow>
               (case st_sprint s of
                  None \<Rightarrow> (0, s)
                | Some _ \<Rightarrow> (1, map_committed (\<lambda>c. c @ [tk_id ready]) s)))"

definition refill_empty_scope :: "project_state \<Rightarrow> nat \<times> project_state" where
  "refill_empty_scope s =
     (if (case st_sprint s of None \<Rightarrow> False | Some sp \<Rightarrow> sp_committed sp = [])
      then let backlog = open_backlog s (active_bug_burn_floor s)
           in (length backlog, map_committed (\<lambda>_. backlog) s)
      else if \<not> committed_can_progress s
      then (case find (\<lambda>i. i \<notin> set (committed_of s)) (workable s) of
              Some i \<Rightarrow>
                (case st_sprint s of
                   Some _ \<Rightarrow> (1, map_committed (\<lambda>c. c @ [i]) s)
                 | None \<Rightarrow> reserve_feature s)
            | None \<Rightarrow> reserve_feature s)
      else reserve_feature s)"

section \<open>The queue of planned sprints\<close>

text \<open>
  \<open>filter(|t| .. && seen.insert(t))\<close> and \<open>retain(|id| seen.insert(id))\<close>: first occurrences.
\<close>

fun retain_new :: "'a list \<Rightarrow> 'a list \<Rightarrow> 'a list" where
  "retain_new seen [] = []"
| "retain_new seen (x # xs) =
     (if x \<in> set seen then retain_new seen xs else x # retain_new (x # seen) xs)"

definition queue_sprint ::
  "clock \<Rightarrow> string \<Rightarrow> ticket_id list \<Rightarrow> string \<Rightarrow> project_state \<Rightarrow> nat \<times> project_state" where
  "queue_sprint ck goal tickets who s =
     (let i = foldr max (map ps_id (st_sprint_queue s)) 0 + 1;
          ts = retain_new [] (filter (\<lambda>t. ticket s t \<noteq> None) tickets)
      in (i, s\<lparr>st_sprint_queue := st_sprint_queue s @
            [\<lparr>ps_id = i, ps_goal = trim goal, ps_tickets = ts, ps_created_at = ck_now ck,
              ps_by = who\<rparr>]\<rparr>))"

fun push_missing :: "'a list \<Rightarrow> 'a list \<Rightarrow> 'a list" where
  "push_missing acc [] = acc"
| "push_missing acc (x # xs) = push_missing (if x \<in> set acc then acc else acc @ [x]) xs"

definition scope_queued_sprint ::
  "nat \<Rightarrow> ticket_id list \<Rightarrow> ticket_id list \<Rightarrow> project_state \<Rightarrow> bool \<times> project_state" where
  "scope_queued_sprint i adds removes s =
     (let valid = filter (\<lambda>t. ticket s t \<noteq> None) adds in
      case find (\<lambda>p. ps_id p = i) (st_sprint_queue s) of
        None \<Rightarrow> (False, s)
      | Some _ \<Rightarrow>
          (True, s\<lparr>st_sprint_queue := update_first (\<lambda>p. ps_id p = i)
             (\<lambda>p. p\<lparr>ps_tickets :=
                push_missing (filter (\<lambda>t. t \<notin> set removes) (ps_tickets p)) valid\<rparr>)
             (st_sprint_queue s)\<rparr>))"

definition delete_queued_sprint :: "nat \<Rightarrow> project_state \<Rightarrow> bool \<times> project_state" where
  "delete_queued_sprint i s =
     (let q = filter (\<lambda>p. ps_id p \<noteq> i) (st_sprint_queue s)
      in (length q \<noteq> length (st_sprint_queue s), s\<lparr>st_sprint_queue := q\<rparr>))"

definition rename_queued_sprint :: "nat \<Rightarrow> string \<Rightarrow> project_state \<Rightarrow> bool \<times> project_state" where
  "rename_queued_sprint i goal s =
     (case find (\<lambda>p. ps_id p = i) (st_sprint_queue s) of
        None \<Rightarrow> (False, s)
      | Some _ \<Rightarrow>
          (True, s\<lparr>st_sprint_queue := update_first (\<lambda>p. ps_id p = i)
             (\<lambda>p. p\<lparr>ps_goal := trim goal\<rparr>) (st_sprint_queue s)\<rparr>))"

definition swap :: "nat \<Rightarrow> nat \<Rightarrow> 'a list \<Rightarrow> 'a list" where
  "swap i j xs = xs[i := xs ! j, j := xs ! i]"

definition move_queued_sprint :: "nat \<Rightarrow> int \<Rightarrow> project_state \<Rightarrow> bool \<times> project_state" where
  "move_queued_sprint i delta s =
     (case position (\<lambda>p. ps_id p = i) (st_sprint_queue s) of
        None \<Rightarrow> (False, s)
      | Some k \<Rightarrow>
          let j = int k + delta in
          if j < 0 \<or> nat j \<ge> length (st_sprint_queue s) then (False, s)
          else (True, s\<lparr>st_sprint_queue := swap k (nat j) (st_sprint_queue s)\<rparr>))"

section \<open>Parking exhausted tickets\<close>

definition HOLD_AFTER_ATTEMPTS :: nat where "HOLD_AFTER_ATTEMPTS = 3"

definition exhausted :: "project_state \<Rightarrow> ticket \<Rightarrow> bool" where
  "exhausted s t \<longleftrightarrow>
     tk_status t \<in> {Pending, Ready, Open}
     \<and> (case st_ticket_fail_attempts s (ticket_id_str (tk_id t)) of
          None \<Rightarrow> False | Some n \<Rightarrow> n \<ge> HOLD_AFTER_ATTEMPTS)"

text \<open>One round of the loop of \<open>auto_hold_exhausted\<close>, with the ids held so far.\<close>

definition hold_one ::
  "clock \<Rightarrow> ticket_id \<Rightarrow> ticket_id list \<times> project_state \<Rightarrow> ticket_id list \<times> project_state" where
  "hold_one ck i = (\<lambda>(held, s).
     case ticket s i of
       None \<Rightarrow> (held, s)
     | Some t \<Rightarrow>
         (case transition_to System OnHold t of
            (Inl _, t') \<Rightarrow> (held, with_ticket_mut i (\<lambda>_. t') s)
          | (Inr _, t') \<Rightarrow>
              let s = with_ticket_mut i (\<lambda>_. t') s;
                  s = map_committed (filter (\<lambda>c. c \<noteq> i)) s;
                  s = s\<lparr>st_hold_reasons := (st_hold_reasons s)
                        (ticket_id_str i \<mapsto> ''auto-held after 3 failed attempts'')\<rparr>;
                  s = log_activity (ck_now ck) ''SYSTEM''
                        ''auto-held after repeated failures - resume it from the ticket when unblocked''
                        (Some (ticket_id_str i)) s
              in (held @ [i], s)))"

definition auto_hold_exhausted :: "clock \<Rightarrow> project_state \<Rightarrow> ticket_id list \<times> project_state" where
  "auto_hold_exhausted ck s =
     fold (hold_one ck) (map tk_id (filter (exhausted s) (st_tickets s))) ([], s)"

definition clear_fail_attempts :: "ticket_id \<Rightarrow> project_state \<Rightarrow> project_state" where
  "clear_fail_attempts i s =
     s\<lparr>st_ticket_fail_attempts := (st_ticket_fail_attempts s)(ticket_id_str i := None),
       st_hold_reasons := (st_hold_reasons s)(ticket_id_str i := None)\<rparr>"

section \<open>Topping up the scope\<close>

definition MIN_ACTIONABLE_SCOPE :: nat where "MIN_ACTIONABLE_SCOPE = 4"

definition active_milestone_goal :: "project_state \<Rightarrow> string option" where
  "active_milestone_goal s =
     map_option (\<lambda>m. to_lowercase (ms_name m @ '' '' @ ms_goal m))
       (find (\<lambda>m. \<not> ms_goal_complete m) (st_milestones s))"

definition pushes_goal :: "string \<Rightarrow> string \<Rightarrow> bool" where
  "pushes_goal goal title \<longleftrightarrow>
     (\<exists>w \<in> set (filter (\<lambda>w. byte_len w \<ge> 5)
                  (split_on (\<lambda>c. \<not> is_alphanumeric c) (to_lowercase title))).
        sublist w goal)"

definition pick_rank :: "priority \<Rightarrow> nat" where
  "pick_rank p = (case p of High \<Rightarrow> 0 | Medium \<Rightarrow> 1 | Low \<Rightarrow> 2)"

definition top_up_pool :: "project_state \<Rightarrow> priority option \<Rightarrow> ticket_id list \<Rightarrow> ticket list" where
  "top_up_pool s bug_burn_floor committed =
     filter (\<lambda>t. tk_id t \<notin> set committed
         \<and> (case tk_status t of
              Ready \<Rightarrow> True
            | Open \<Rightarrow> \<not> below_bug_burn_floor bug_burn_floor (tk_priority t)
            | _ \<Rightarrow> False)) (st_tickets s)"

definition ranked :: "project_state \<Rightarrow> ticket list \<Rightarrow> (nat \<times> nat \<times> ticket_id) list" where
  "ranked s pool =
     (let goal = active_milestone_goal s in
      sort (map (\<lambda>t. (pick_rank (tk_priority t),
          (if (case goal of None \<Rightarrow> False | Some g \<Rightarrow> pushes_goal g (tk_title t)) then 0 else 1),
          tk_id t)) pool))"

definition actionable :: "project_state \<Rightarrow> ticket_id list \<Rightarrow> nat" where
  "actionable s committed =
     length (filter (\<lambda>t. tk_id t \<in> set committed \<and> tk_status t \<in> {Ready, Open}) (st_tickets s))"

definition top_up_scope :: "nat \<Rightarrow> project_state \<Rightarrow> nat \<times> project_state" where
  "top_up_scope floor s0 =
     (let s = map_committed (retain_new []) s0 in
      case st_sprint s of
        None \<Rightarrow> (0, s)
      | Some sp \<Rightarrow>
          let committed = sp_committed sp; act = actionable s committed in
          if act \<ge> floor then (0, s)
          else let want = floor - act;
                   picks = take want (map (\<lambda>(_, _, i). i)
                     (ranked s (top_up_pool s (sp_bug_burn_floor sp) committed)))
               in (length picks, map_committed (\<lambda>c. c @ picks) s))"

end
