(* ===== verification/Sprint_Scope.thy ===== *)
theory Sprint_Scope
  imports Sprint
begin

text \<open>
  Lemmas on the sprint layer: what a commitment consists of and how large it is, the rollover,
  the refill and top-up, parking, and the invariant of the sprint board under every operation.
\<close>

section \<open>The board\<close>

definition ids :: "project_state \<Rightarrow> ticket_id set" where
  "ids s = tk_id ` set (st_tickets s)"

lemma ticket_id_str_inject: "ticket_id_str a = ticket_id_str b \<longleftrightarrow> a = b"
  by (cases a; cases b) simp

lemma ticket_known: "ticket s i \<noteq> None \<longleftrightarrow> i \<in> ids s"
  by (simp add: ticket_None ids_def)

lemma ticket_cong: "st_tickets s' = st_tickets s \<Longrightarrow> ticket s' i = ticket s i"
  by (simp add: ticket_def)

lemma map_committed_frame [simp]:
  "st_tickets (map_committed f s) = st_tickets s"
  "st_sprint_queue (map_committed f s) = st_sprint_queue s"
  "st_sprints (map_committed f s) = st_sprints s"
  "ticket (map_committed f s) = ticket s"
  "committed_of (map_committed f s) = (if st_sprint s = None then [] else f (committed_of s))"
  "st_sprint (map_committed f s) = None \<longleftrightarrow> st_sprint s = None"
  by (auto simp: map_committed_def committed_of_def ticket_def fun_eq_iff split: option.split)

section \<open>Capacity and commitment\<close>

lemma sprint_capacity_floor: "CAPACITY_FLOOR \<le> sprint_capacity s"
  by (simp add: sprint_capacity_def Let_def)

lemma seat_bugs_props:
  "prefix p (seat_bugs b p ts)"
  "set (seat_bugs b p ts) \<subseteq> set p \<union> tk_id ` set ts"
  "length (seat_bugs b p ts) \<le> length p + b"
  "distinct p \<Longrightarrow> distinct (seat_bugs b p ts)"
proof (induction b p ts rule: seat_bugs.induct)
  case (2 b p t ts)
  { case 1 show ?case using 2 by (auto dest: append_prefixD) }
  { case 2 show ?case using "2.IH"(2,6) by auto }
  { case 3 show ?case using "2.IH"(3,7) by auto }
  { case 4 then show ?case using "2.IH"(4,8) by auto }
qed auto

definition committable :: "ticket \<Rightarrow> bool" where
  "committable t \<longleftrightarrow>
     (tk_kind t = Bug \<and> tk_status t = Open)
     \<or> (is_feature t \<and> tk_status t \<notin> {Done, Documented, Rejected})"

lemma reserved_seat_props:
  "length (reserved_seat s) \<le> 1"
  "distinct (reserved_seat s)"
  "i \<in> set (reserved_seat s) \<Longrightarrow>
     \<exists>t \<in> set (st_tickets s). tk_id t = i \<and> is_feature t \<and> tk_status t = Ready"
proof -
  show "i \<in> set (reserved_seat s) \<Longrightarrow>
      \<exists>t \<in> set (st_tickets s). tk_id t = i \<and> is_feature t \<and> tk_status t = Ready"
    by (cases "find (\<lambda>t. is_feature t \<and> tk_status t = Ready) (st_tickets s)")
      (auto simp: reserved_seat_def dest!: find_Some_props)
qed (simp_all add: reserved_seat_def split: option.splits)

lemma reserved_seat_exists:
  "t \<in> set (st_tickets s) \<Longrightarrow> is_feature t \<Longrightarrow> tk_status t = Ready \<Longrightarrow> reserved_seat s \<noteq> []"
  by (auto simp: reserved_seat_def find_None_all split: option.splits)

lemma seat_and_scope_disjoint:
  assumes "distinct (map tk_id (st_tickets s))"
  shows "set (reserved_seat s) \<inter> set (burn_down_scope s) = {}"
proof (rule ccontr)
  assume "\<not> ?thesis"
  then obtain i t u where "t \<in> set (st_tickets s)" "tk_id t = i" "is_feature t"
    and "u \<in> set (st_tickets s)" "tk_id u = i" "tk_kind u = Bug"
    using reserved_seat_props(3) [of _ s] burn_down_scope_open_bug [of _ s] by blast
  then have "t = u" using assms ticket_member by (metis option.inject)
  with \<open>is_feature t\<close> \<open>tk_kind u = Bug\<close> show False by (simp add: is_feature_def)
qed

text \<open>The bug part of a commitment, before the remaining seats go to features.\<close>

definition bug_seats :: "project_state \<Rightarrow> priority option \<Rightarrow> ticket_id list" where
  "bug_seats s fl =
     (let picked = reserved_seat s @ burn_down_scope s in
      seat_bugs (sprint_capacity s - length picked) picked
        (filter (\<lambda>t. tk_kind t = Bug \<and> tk_status t = Open
            \<and> \<not> below_bug_burn_floor fl (tk_priority t)) (st_tickets s)))"

lemma open_backlog_unfold:
  "open_backlog s fl =
     bug_seats s fl @ map tk_id (take (sprint_capacity s - length (bug_seats s fl))
       (filter (\<lambda>t. is_feature t \<and> tk_status t \<notin> {Done, Documented, Rejected}
            \<and> tk_id t \<notin> set (bug_seats s fl)) (st_tickets s)))"
  by (simp add: open_backlog_def bug_seats_def Let_def)

lemma bug_seats_props:
  "prefix (reserved_seat s @ burn_down_scope s) (bug_seats s fl)"
  "length (bug_seats s fl)
     \<le> max (sprint_capacity s) (length (reserved_seat s @ burn_down_scope s))"
  "i \<in> set (bug_seats s fl) \<Longrightarrow> \<exists>t \<in> set (st_tickets s). tk_id t = i \<and> committable t"
  "distinct (map tk_id (st_tickets s)) \<Longrightarrow> distinct (bug_seats s fl)"
proof -
  let ?p = "reserved_seat s @ burn_down_scope s"
  let ?b = "sprint_capacity s - length ?p"
  let ?f = "\<lambda>t. tk_kind t = Bug \<and> tk_status t = Open \<and> \<not> below_bug_burn_floor fl (tk_priority t)"
  let ?ts = "filter ?f (st_tickets s)"
  have eq: "bug_seats s fl = seat_bugs ?b ?p ?ts" by (simp add: bug_seats_def Let_def)
  show "prefix ?p (bug_seats s fl)" unfolding eq by (rule seat_bugs_props)
  show "length (bug_seats s fl) \<le> max (sprint_capacity s) (length ?p)"
    using seat_bugs_props(3) [of ?b ?p ?ts] unfolding eq by linarith
  show "\<exists>t \<in> set (st_tickets s). tk_id t = i \<and> committable t" if "i \<in> set (bug_seats s fl)"
  proof -
    have "i \<in> set (reserved_seat s) \<union> set (burn_down_scope s) \<union> tk_id ` set ?ts"
      using that seat_bugs_props(2) [of ?b ?p ?ts] unfolding eq by auto
    then consider "i \<in> set (reserved_seat s)" | "i \<in> set (burn_down_scope s)" | "i \<in> tk_id ` set ?ts"
      by blast
    then show ?thesis
    proof cases
      case 1
      from reserved_seat_props(3) [OF this] show ?thesis by (force simp: committable_def)
    next
      case 2
      from burn_down_scope_open_bug [OF this] show ?thesis by (force simp: committable_def)
    qed (auto simp: committable_def)
  qed
  show "distinct (bug_seats s fl)" if d: "distinct (map tk_id (st_tickets s))"
    unfolding eq using seat_and_scope_disjoint [OF d] distinct_burn_down_scope [OF d]
    by (intro seat_bugs_props(4)) (simp add: reserved_seat_props)
qed

lemma open_backlog_member:
  assumes "i \<in> set (open_backlog s fl)"
  shows "\<exists>t \<in> set (st_tickets s). tk_id t = i \<and> committable t"
proof -
  consider "i \<in> set (bug_seats s fl)"
    | t where "t \<in> set (st_tickets s)" "tk_id t = i" "is_feature t"
        "tk_status t \<notin> {Done, Documented, Rejected}"
    using assms by (auto simp: open_backlog_unfold dest!: in_set_takeD)
  then show ?thesis
  proof cases
    case 1
    then show ?thesis by (rule bug_seats_props(3))
  qed (auto simp: committable_def)
qed

lemma distinct_open_backlog:
  assumes d: "distinct (map tk_id (st_tickets s))"
  shows "distinct (open_backlog s fl)"
  unfolding open_backlog_unfold using bug_seats_props(4) [OF d]
  by (auto simp: distinct_map_filter [OF d] take_map [symmetric] dest: in_set_takeD)

lemma open_backlog_scope:
  "set (reserved_seat s) \<subseteq> set (open_backlog s fl)"
  "set (burn_down_scope s) \<subseteq> set (open_backlog s fl)"
  using set_mono_prefix [OF bug_seats_props(1) [of s fl]] by (auto simp: open_backlog_unfold)

lemma open_backlog_length:
  "length (open_backlog s fl) \<le> max (sprint_capacity s) (1 + length (burn_down_scope s))"
  using bug_seats_props(2) [of s fl] reserved_seat_props(1) [of s]
  by (simp add: open_backlog_unfold)

section \<open>Rollover\<close>

lemma live_plan_member:
  "i \<in> set (live_plan s p) \<Longrightarrow>
   \<exists>t. ticket s i = Some t \<and> tk_status t \<notin> {Documented, Verified, Rejected, OnHold}"
  by (auto simp: live_plan_def split: option.splits)

lemma live_plan_cong: "ticket s' = ticket s \<Longrightarrow> live_plan s' p = live_plan s p"
  by (simp add: live_plan_def)

lemma archive_sprint_frame [simp]:
  "st_tickets (archive_sprint now s) = st_tickets s"
  "st_sprint (archive_sprint now s) = st_sprint s"
  "st_sprint_queue (archive_sprint now s) = st_sprint_queue s"
  "st_sprint_goal (archive_sprint now s) = st_sprint_goal s"
  "st_reverted_work (archive_sprint now s) = st_reverted_work s"
  by (simp_all add: archive_sprint_def split: option.split)

text \<open>The state a new commitment is computed from: history archived, the plan taken off the queue.\<close>

definition boundary :: "string \<Rightarrow> project_state \<Rightarrow> project_state" where
  "boundary now s = (archive_sprint now s)\<lparr>st_sprint_queue := tl (st_sprint_queue s)\<rparr>"

definition commitment :: "string \<Rightarrow> priority option \<Rightarrow> project_state \<Rightarrow> ticket_id list" where
  "commitment now fl s =
     (case st_sprint_queue s of
        [] \<Rightarrow> open_backlog (boundary now s) fl
      | p # _ \<Rightarrow> if live_plan s p = [] then open_backlog (boundary now s) fl else live_plan s p)"

lemma boundary_frame [simp]:
  "st_tickets (boundary now s) = st_tickets s"
  "st_sprint_queue (boundary now s) = tl (st_sprint_queue s)"
  "st_sprints (boundary now s) = st_sprints (archive_sprint now s)"
  by (simp_all add: boundary_def)

lemma ticket_boundary [simp]: "ticket (boundary now s) = ticket s"
  by (intro ext ticket_cong) simp

lemma roll_over_facts:
  assumes "roll_over ck c len fl s = (n, s')"
  shows "st_tickets s' = st_tickets s"
    and "st_sprints s' = st_sprints (archive_sprint (ck_now ck) s)"
    and "st_sprint_queue s' = tl (st_sprint_queue s)"
    and "n = (case st_sprint s of None \<Rightarrow> 0 | Some sp \<Rightarrow> sp_number sp) + 1"
    and "\<exists>sp. st_sprint s' = Some sp \<and> sp_number sp = n
          \<and> sp_committed sp = commitment (ck_now ck) fl s
          \<and> sp_started_cycle sp = c \<and> sp_started_at sp = ck_now ck
          \<and> sp_length_cycles sp = len \<and> sp_bug_burn_floor sp = fl"
proof -
  have lp: "live_plan ((archive_sprint (ck_now ck) s)\<lparr>st_sprint_queue := q\<rparr>) = live_plan s" for q
    by (intro ext live_plan_cong ticket_cong) simp
  note d = assms [unfolded roll_over_def Let_def]
  show "\<exists>sp. st_sprint s' = Some sp \<and> sp_number sp = n
          \<and> sp_committed sp = commitment (ck_now ck) fl s
          \<and> sp_started_cycle sp = c \<and> sp_started_at sp = ck_now ck
          \<and> sp_length_cycles sp = len \<and> sp_bug_burn_floor sp = fl"
    using d by (auto simp: commitment_def boundary_def lp split: list.splits if_splits)
  show "st_tickets s' = st_tickets s" and "st_sprints s' = st_sprints (archive_sprint (ck_now ck) s)"
    and "st_sprint_queue s' = tl (st_sprint_queue s)"
    and "n = (case st_sprint s of None \<Rightarrow> 0 | Some sp \<Rightarrow> sp_number sp) + 1"
    using d by (auto split: list.splits if_splits prod.splits)
qed

lemma roll_over_committed:
  "roll_over ck c len fl s = (n, s') \<Longrightarrow> committed_of s' = commitment (ck_now ck) fl s"
  using roll_over_facts(5) by (force simp: committed_of_def)

lemma commitment_member:
  assumes "i \<in> set (commitment now fl s)"
  shows "\<exists>t \<in> set (st_tickets s). tk_id t = i
     \<and> (committable t \<or> tk_status t \<notin> {Documented, Verified, Rejected, OnHold})"
proof -
  consider "i \<in> set (open_backlog (boundary now s) fl)" | p where "i \<in> set (live_plan s p)"
    using assms by (auto simp: commitment_def split: list.splits if_splits)
  then show ?thesis
  proof cases
    case 1
    then show ?thesis using open_backlog_member by fastforce
  next
    case 2
    then show ?thesis using live_plan_member ticket_Some by metis
  qed
qed

lemma distinct_commitment:
  assumes "distinct (map tk_id (st_tickets s))" and "\<forall>p \<in> set (st_sprint_queue s). distinct (ps_tickets p)"
  shows "distinct (commitment now fl s)"
  using assms distinct_open_backlog [of "boundary now s" fl]
  by (auto simp: commitment_def live_plan_def split: list.split)

text \<open>A finished sprint is a non-empty commitment of closed tickets; a rollover never opens one.\<close>

lemma commitment_not_done:
  assumes d: "distinct (map tk_id (st_tickets s))" and wf: "\<forall>t \<in> set (st_tickets s). wf_ticket t"
    and i: "i \<in> set (commitment now fl s)"
  shows "\<exists>t. ticket s i = Some t \<and> tk_status t \<notin> {Documented, Verified, Rejected}"
proof -
  obtain t where t: "t \<in> set (st_tickets s)" "tk_id t = i"
    and c: "committable t \<or> tk_status t \<notin> {Documented, Verified, Rejected, OnHold}"
    using commitment_member [OF i] by blast
  have "tk_status t \<in> lifecycle (tk_kind t)" using wf t by (simp add: wf_ticket_def)
  then have "tk_status t \<notin> {Documented, Verified, Rejected}"
    using c by (auto simp: committable_def is_feature_def lifecycle_def split: ticket_type.splits)
  then show ?thesis using t ticket_member [OF d t(1)] by auto
qed

lemma roll_over_not_done:
  assumes "roll_over ck c len fl s = (n, s')" and "distinct (map tk_id (st_tickets s))"
    and "\<forall>t \<in> set (st_tickets s). wf_ticket t" and "st_sprint s' = Some sp"
  shows "\<not> all_committed_done s' sp"
proof
  assume fin: "all_committed_done s' sp"
  then obtain i where i: "i \<in> set (sp_committed sp)"
    by (cases "sp_committed sp") (auto simp: all_committed_done_def)
  then have "i \<in> set (commitment (ck_now ck) fl s)"
    using roll_over_facts(5) [OF assms(1)] assms(4) by auto
  then obtain t where t: "ticket s i = Some t" "tk_status t \<notin> {Documented, Verified, Rejected}"
    using commitment_not_done assms(2,3) by blast
  have "find (\<lambda>t. ticket_id_str (tk_id t) = ticket_id_str i) (st_tickets s') = Some t"
    using t(1) roll_over_facts(1) [OF assms(1)]
    by (simp add: ticket_def ticket_id_str_inject)
  with fin i t(2) show False by (auto simp: all_committed_done_def)
qed

section \<open>Parking\<close>

lemma update_first_by_key:
  "distinct (map g ts) \<Longrightarrow> find (\<lambda>u. g u = k) ts = Some t \<Longrightarrow>
   update_first (\<lambda>u. g u = k) (\<lambda>_. f t) ts = map (\<lambda>u. if g u = k then f u else u) ts"
proof (induction ts)
  case (Cons u us)
  show ?case
  proof (cases "g u = k")
    case True
    with Cons.prems(1) have "\<forall>v \<in> set us. g v \<noteq> k" by (auto simp: image_iff)
    then have "map (\<lambda>v. if g v = k then f v else v) us = us" by (simp add: map_idI)
    with True Cons.prems(2) show ?thesis by simp
  next
    case False
    with Cons show ?thesis by simp
  qed
qed simp

definition held_tickets :: "ticket_id list \<Rightarrow> ticket list \<Rightarrow> ticket list" where
  "held_tickets L = map (\<lambda>u. if tk_id u \<in> set L then moved OnHold u else u)"

lemma held_tickets_ids [simp]: "map tk_id (held_tickets L ts) = map tk_id ts"
  by (simp add: held_tickets_def)

lemma hold_one_ok:
  assumes d: "distinct (map tk_id (st_tickets s))" and t: "ticket s i = Some t"
    and m: "may_move System OnHold t"
  shows "\<exists>s'. hold_one ck i (held, s) = (held @ [i], s')
      \<and> st_tickets s' = held_tickets [i] (st_tickets s)
      \<and> committed_of s' = filter (\<lambda>c. c \<noteq> i) (committed_of s)
      \<and> st_sprint_queue s' = st_sprint_queue s \<and> st_sprints s' = st_sprints s
      \<and> map_option sp_number (st_sprint s') = map_option sp_number (st_sprint s)
      \<and> st_ticket_fail_attempts s' = st_ticket_fail_attempts s"
proof -
  have "update_first (\<lambda>u. tk_id u = i) (\<lambda>_. moved OnHold t) (st_tickets s)
      = held_tickets [i] (st_tickets s)"
    using update_first_by_key [OF d, of i t "moved OnHold"] t
    by (simp add: held_tickets_def ticket_def)
  then show ?thesis
    using t by (auto simp: hold_one_def transition_to_ok [OF m] Let_def with_ticket_mut_def
        map_committed_def committed_of_def log_activity_def push_activity_def split: option.split)
qed

lemma held_tickets_comp: "held_tickets L (held_tickets [i] ts) = held_tickets (i # L) ts"
  by (auto simp: held_tickets_def moved_def)

lemma ticket_held_other:
  assumes "st_tickets s' = held_tickets [i] (st_tickets s)" and "j \<noteq> i"
  shows "ticket s' j = ticket s j"
proof -
  have "find (\<lambda>t. tk_id t = j) (held_tickets [i] ts) = find (\<lambda>t. tk_id t = j) ts" for ts
    using assms(2) by (induction ts) (auto simp: held_tickets_def)
  then show ?thesis using assms(1) by (simp add: ticket_def)
qed

lemma hold_all:
  assumes "distinct (map tk_id (st_tickets s))" and "distinct L"
    and "\<forall>i \<in> set L. \<exists>t. ticket s i = Some t \<and> may_move System OnHold t"
  shows "\<exists>s'. fold (hold_one ck) L (held, s) = (held @ L, s')
      \<and> st_tickets s' = held_tickets L (st_tickets s)
      \<and> committed_of s' = filter (\<lambda>c. c \<notin> set L) (committed_of s)
      \<and> st_sprint_queue s' = st_sprint_queue s \<and> st_sprints s' = st_sprints s
      \<and> map_option sp_number (st_sprint s') = map_option sp_number (st_sprint s)
      \<and> st_ticket_fail_attempts s' = st_ticket_fail_attempts s"
  using assms
proof (induction L arbitrary: s held)
  case Nil
  then show ?case by (simp add: held_tickets_def)
next
  case (Cons i L)
  then obtain t where "ticket s i = Some t" "may_move System OnHold t" by auto
  then obtain s1 where one: "hold_one ck i (held, s) = (held @ [i], s1)"
    and s1: "st_tickets s1 = held_tickets [i] (st_tickets s)"
      "committed_of s1 = filter (\<lambda>c. c \<noteq> i) (committed_of s)"
      "st_sprint_queue s1 = st_sprint_queue s" "st_sprints s1 = st_sprints s"
      "map_option sp_number (st_sprint s1) = map_option sp_number (st_sprint s)"
      "st_ticket_fail_attempts s1 = st_ticket_fail_attempts s"
    using hold_one_ok [OF Cons.prems(1)] by blast
  have "distinct (map tk_id (st_tickets s1))" using Cons.prems(1) s1(1) by simp
  moreover have "\<forall>j \<in> set L. \<exists>t. ticket s1 j = Some t \<and> may_move System OnHold t"
    using Cons.prems(2,3) ticket_held_other [OF s1(1)] by (metis distinct.simps(2) list.set_intros(2))
  ultimately obtain s2 where "fold (hold_one ck) L (held @ [i], s1) = ((held @ [i]) @ L, s2)"
      "st_tickets s2 = held_tickets L (st_tickets s1)"
      "committed_of s2 = filter (\<lambda>c. c \<notin> set L) (committed_of s1)"
      "st_sprint_queue s2 = st_sprint_queue s1" "st_sprints s2 = st_sprints s1"
      "map_option sp_number (st_sprint s2) = map_option sp_number (st_sprint s1)"
      "st_ticket_fail_attempts s2 = st_ticket_fail_attempts s1"
    using Cons.IH [of s1 "held @ [i]"] Cons.prems(2) by auto
  then show ?case using one s1 by (auto simp: held_tickets_comp intro!: filter_cong)
qed

lemma in_play_may_hold:
  "wf_ticket t \<Longrightarrow> tk_status t \<in> {Pending, Ready, Open} \<Longrightarrow> may_move System OnHold t"
  by (cases "tk_kind t") (auto simp: wf_ticket_def may_move_def transition_allowed_def lifecycle_def)

lemma auto_hold_facts:
  assumes d: "distinct (map tk_id (st_tickets s))" and wf: "\<forall>t \<in> set (st_tickets s). wf_ticket t"
    and run: "auto_hold_exhausted ck s = (held, s')"
  shows "held = map tk_id (filter (exhausted s) (st_tickets s))"
    and "st_tickets s' = map (\<lambda>t. if exhausted s t then moved OnHold t else t) (st_tickets s)"
    and "committed_of s' = filter (\<lambda>c. c \<notin> set held) (committed_of s)"
    and "st_sprint_queue s' = st_sprint_queue s" and "st_sprints s' = st_sprints s"
    and "map_option sp_number (st_sprint s') = map_option sp_number (st_sprint s)"
    and "st_ticket_fail_attempts s' = st_ticket_fail_attempts s"
proof -
  let ?L = "map tk_id (filter (exhausted s) (st_tickets s))"
  have dL: "distinct ?L" using d by (rule distinct_map_filter)
  have "\<forall>i \<in> set ?L. \<exists>t. ticket s i = Some t \<and> may_move System OnHold t"
  proof
    fix i assume "i \<in> set ?L"
    then obtain t where t: "t \<in> set (st_tickets s)" "exhausted s t" "tk_id t = i" by auto
    then have "may_move System OnHold t"
      using wf in_play_may_hold unfolding exhausted_def by blast
    with t show "\<exists>t. ticket s i = Some t \<and> may_move System OnHold t"
      using ticket_member [OF d] by blast
  qed
  then obtain s2 where f: "fold (hold_one ck) ?L ([], s) = ([] @ ?L, s2)"
    and s2: "st_tickets s2 = held_tickets ?L (st_tickets s)"
      "committed_of s2 = filter (\<lambda>c. c \<notin> set ?L) (committed_of s)"
      "st_sprint_queue s2 = st_sprint_queue s" "st_sprints s2 = st_sprints s"
      "map_option sp_number (st_sprint s2) = map_option sp_number (st_sprint s)"
      "st_ticket_fail_attempts s2 = st_ticket_fail_attempts s"
    using hold_all [OF d dL, of ck "[]"] by blast
  have eq: "held = ?L" "s' = s2" using run f by (simp_all add: auto_hold_exhausted_def)
  then show "held = ?L" by simp
  have "tk_id t \<in> set ?L \<longleftrightarrow> exhausted s t" if "t \<in> set (st_tickets s)" for t
    using that d by (auto simp: distinct_map dest: inj_onD)
  then show "st_tickets s' = map (\<lambda>t. if exhausted s t then moved OnHold t else t) (st_tickets s)"
    using s2(1) eq by (simp add: held_tickets_def)
  show "committed_of s' = filter (\<lambda>c. c \<notin> set held) (committed_of s)"
    and "st_sprint_queue s' = st_sprint_queue s" and "st_sprints s' = st_sprints s"
    and "map_option sp_number (st_sprint s') = map_option sp_number (st_sprint s)"
    and "st_ticket_fail_attempts s' = st_ticket_fail_attempts s"
    using s2 eq by simp_all
qed

end
