(* ===== verification/Sprint_Machine.thy ===== *)
theory Sprint_Machine
  imports Sprint_Scope
begin

text \<open>
  The sprint board as a state machine: every operation of the sprint layer and every step of a
  ticket on the board is a transition, and one invariant ties the board, the running sprint, the
  queue of planned sprints and the velocity history together.
\<close>

section \<open>List helpers\<close>

lemma retain_new_props:
  "set (retain_new seen xs) = set xs - set seen"
  "distinct (retain_new seen xs)"
proof (induction seen xs rule: retain_new.induct)
  case (2 seen x xs)
  { case 1 show ?case using "2.IH"(1,3) by auto }
  { case 2 show ?case using "2.IH"(2,3,4) by auto }
qed auto

lemma retain_new_distinct: "distinct xs \<Longrightarrow> set xs \<inter> set seen = {} \<Longrightarrow> retain_new seen xs = xs"
  by (induction seen xs rule: retain_new.induct) auto

lemma push_missing_props:
  "set (push_missing acc xs) = set acc \<union> set xs"
  "distinct acc \<Longrightarrow> distinct (push_missing acc xs)"
proof (induction acc xs rule: push_missing.induct)
  case (2 acc x xs)
  { case 1 show ?case using "2.IH"(1) by auto }
  { case 2 then show ?case using "2.IH"(2) by auto }
qed auto

lemma mset_swap: "i < length xs \<Longrightarrow> j < length xs \<Longrightarrow> mset (swap i j xs) = mset xs"
  unfolding swap_def by (rule Multiset.mset_swap)

lemma swap_swap: "i < length xs \<Longrightarrow> j < length xs \<Longrightarrow> swap j i (swap i j xs) = xs"
  unfolding swap_def by (rule nth_equalityI) (auto simp: nth_list_update)

lemma foldr_max_ge: "x \<in> set xs \<Longrightarrow> x \<le> foldr max xs (0::nat)"
  by (induction xs) auto

section \<open>The invariant\<close>

definition board_ok :: "project_state \<Rightarrow> bool" where
  "board_ok s \<longleftrightarrow>
     distinct (map tk_id (st_tickets s)) \<and> (\<forall>t \<in> set (st_tickets s). wf_ticket t)"

definition scope_ok :: "project_state \<Rightarrow> bool" where
  "scope_ok s \<longleftrightarrow> distinct (committed_of s) \<and> set (committed_of s) \<subseteq> ids s"

definition plan_ok :: "project_state \<Rightarrow> planned_sprint \<Rightarrow> bool" where
  "plan_ok s p \<longleftrightarrow> distinct (ps_tickets p) \<and> set (ps_tickets p) \<subseteq> ids s"

definition queue_ok :: "project_state \<Rightarrow> bool" where
  "queue_ok s \<longleftrightarrow>
     distinct (map ps_id (st_sprint_queue s)) \<and> (\<forall>p \<in> set (st_sprint_queue s). plan_ok s p)"

definition history_ok :: "project_state \<Rightarrow> bool" where
  "history_ok s \<longleftrightarrow>
     sorted_wrt (<) (map sr_number (st_sprints s))
     \<and> (\<forall>r \<in> set (st_sprints s). sr_done r \<le> sr_committed r
          \<and> (case st_sprint s of None \<Rightarrow> False | Some sp \<Rightarrow> sr_number r < sp_number sp))"

definition sprint_inv :: "project_state \<Rightarrow> bool" where
  "sprint_inv s \<longleftrightarrow> board_ok s \<and> scope_ok s \<and> queue_ok s \<and> history_ok s"

text \<open>The invariant reads four parts of the state only.\<close>

lemma ids_cong: "map tk_id (st_tickets s') = map tk_id (st_tickets s) \<Longrightarrow> ids s' = ids s"
  unfolding ids_def by (metis set_map)

lemma plan_ok_cong: "ids s' = ids s \<Longrightarrow> plan_ok s' = plan_ok s"
  by (simp add: plan_ok_def fun_eq_iff)

lemma history_ok_cong:
  "st_sprints s' = st_sprints s \<Longrightarrow>
   map_option sp_number (st_sprint s') = map_option sp_number (st_sprint s) \<Longrightarrow>
   history_ok s' = history_ok s"
  by (cases "st_sprint s"; cases "st_sprint s'") (simp_all add: history_ok_def)

lemma map_committed_number [simp]:
  "map_option sp_number (st_sprint (map_committed f s)) = map_option sp_number (st_sprint s)"
  by (simp add: map_committed_def option.map_comp comp_def)

lemma ids_map_committed [simp]: "ids (map_committed f s) = ids s"
  by (simp add: ids_def)

lemma map_committed_inv:
  assumes "sprint_inv s" and "st_sprint s \<noteq> None \<Longrightarrow> distinct (f (committed_of s))"
    and "st_sprint s \<noteq> None \<Longrightarrow> set (f (committed_of s)) \<subseteq> ids s"
  shows "sprint_inv (map_committed f s)"
proof -
  have "history_ok (map_committed f s) = history_ok s" by (rule history_ok_cong) simp_all
  moreover have "plan_ok (map_committed f s) = plan_ok s" by (rule plan_ok_cong) simp
  ultimately show ?thesis using assms
    by (auto simp: sprint_inv_def board_ok_def scope_ok_def queue_ok_def)
qed

lemma queue_change_inv:
  assumes "sprint_inv s" and "distinct (map ps_id q)" and "\<forall>p \<in> set q. plan_ok s p"
  shows "sprint_inv (s\<lparr>st_sprint_queue := q\<rparr>)"
proof -
  let ?s = "s\<lparr>st_sprint_queue := q\<rparr>"
  have "ids ?s = ids s" by (simp add: ids_def)
  then have "plan_ok ?s = plan_ok s" by (rule plan_ok_cong)
  moreover have "history_ok ?s = history_ok s" by (rule history_ok_cong) simp_all
  moreover have "committed_of ?s = committed_of s" by (simp add: committed_of_def)
  ultimately show ?thesis using assms
    by (simp add: sprint_inv_def board_ok_def scope_ok_def queue_ok_def ids_def)
qed

section \<open>Every operation keeps it\<close>

lemma sprint_invD:
  assumes "sprint_inv s"
  shows "distinct (map tk_id (st_tickets s))" "\<forall>t \<in> set (st_tickets s). wf_ticket t"
    "distinct (committed_of s)" "set (committed_of s) \<subseteq> ids s"
    "distinct (map ps_id (st_sprint_queue s))" "\<forall>p \<in> set (st_sprint_queue s). plan_ok s p"
  using assms by (simp_all add: sprint_inv_def board_ok_def scope_ok_def queue_ok_def)

lemma push_committed_inv:
  assumes "sprint_inv s" and "i \<in> ids s" and "i \<notin> set (committed_of s)"
  shows "sprint_inv (map_committed (\<lambda>c. c @ [i]) s)"
  using assms sprint_invD(3,4) [OF assms(1)] by (intro map_committed_inv) auto

lemma commit_inv: "sprint_inv s \<Longrightarrow> sprint_inv (snd (commit_ticket i s))"
  using ticket_known [of s i]
  by (auto simp: commit_ticket_def committed_of_def intro!: push_committed_inv split: option.split)

lemma uncommit_inv: "sprint_inv s \<Longrightarrow> sprint_inv (snd (uncommit_ticket i s))"
  using sprint_invD(3,4) [of s]
  by (auto simp: uncommit_ticket_def intro!: map_committed_inv split: option.split)

lemma workable_known: "i \<in> set (workable s) \<Longrightarrow> i \<in> ids s"
  by (auto simp: workable_def ready_feature_candidates_def open_bug_candidates_def set_candidates ids_def)

lemma reserve_feature_inv: "sprint_inv s \<Longrightarrow> sprint_inv (snd (reserve_feature s))"
  by (auto simp: reserve_feature_def ids_def dest!: find_Some_props
      intro!: push_committed_inv split: option.split)

lemma refill_inv:
  assumes "sprint_inv s"
  shows "sprint_inv (snd (refill_empty_scope s))"
proof -
  let ?b = "open_backlog s (active_bug_burn_floor s)"
  have "distinct ?b" using sprint_invD(1) [OF assms] by (rule distinct_open_backlog)
  moreover have "set ?b \<subseteq> ids s" by (auto simp: ids_def dest: open_backlog_member)
  ultimately have "sprint_inv (map_committed (\<lambda>_. ?b) s)"
    using assms by (intro map_committed_inv) auto
  moreover have "sprint_inv (map_committed (\<lambda>c. c @ [i]) s)"
    if "find (\<lambda>i. i \<notin> set (committed_of s)) (workable s) = Some i" for i
    using find_Some_props [OF that] assms by (intro push_committed_inv) (auto intro: workable_known)
  ultimately show ?thesis
    using reserve_feature_inv [OF assms]
    by (auto simp: refill_empty_scope_def Let_def split: option.split)
qed

lemma queue_inv: "sprint_inv s \<Longrightarrow> sprint_inv (snd (queue_sprint ck g ts w s))"
proof -
  assume inv: "sprint_inv s"
  let ?m = "foldr max (map ps_id (st_sprint_queue s)) 0"
  have "Suc ?m \<notin> ps_id ` set (st_sprint_queue s)"
    using foldr_max_ge [of _ "map ps_id (st_sprint_queue s)"] by (force simp: Suc_le_eq)
  then show ?thesis
    using inv unfolding queue_sprint_def Let_def snd_conv
    by (intro queue_change_inv)
      (auto simp: sprint_inv_def queue_ok_def plan_ok_def retain_new_props ticket_None ids_def)
qed

lemma plans_update_inv:
  assumes inv: "sprint_inv s" and "\<And>p. plan_ok s p \<Longrightarrow> plan_ok s (f p)"
    and "\<And>p. ps_id (f p) = ps_id p"
  shows "sprint_inv (s\<lparr>st_sprint_queue := update_first P f (st_sprint_queue s)\<rparr>)"
proof (rule queue_change_inv [OF inv])
  show "distinct (map ps_id (update_first P f (st_sprint_queue s)))"
    using sprint_invD(5) [OF inv] assms(3) by simp
  show "\<forall>p \<in> set (update_first P f (st_sprint_queue s)). plan_ok s p"
    by (rule update_first_all [OF sprint_invD(6) [OF inv] assms(2)])
qed

lemma scope_queued_inv: "sprint_inv s \<Longrightarrow> sprint_inv (snd (scope_queued_sprint i a r s))"
  by (auto simp: scope_queued_sprint_def Let_def plan_ok_def push_missing_props ticket_None ids_def
      intro!: plans_update_inv split: option.split)

lemma rename_queued_inv: "sprint_inv s \<Longrightarrow> sprint_inv (snd (rename_queued_sprint i g s))"
  by (auto simp: rename_queued_sprint_def plan_ok_def intro!: plans_update_inv split: option.split)

lemma delete_queued_inv: "sprint_inv s \<Longrightarrow> sprint_inv (snd (delete_queued_sprint i s))"
  using sprint_invD(5,6) [of s]
  by (auto simp: delete_queued_sprint_def Let_def distinct_map_filter intro!: queue_change_inv)

lemma move_queued_mset:
  "mset (st_sprint_queue (snd (move_queued_sprint i d s))) = mset (st_sprint_queue s)"
  by (auto simp: move_queued_sprint_def Let_def nat_less_iff dest!: position_Some_lt
      intro!: mset_swap split: option.split)

lemma move_queued_inv: "sprint_inv s \<Longrightarrow> sprint_inv (snd (move_queued_sprint i d s))"
proof -
  assume inv: "sprint_inv s"
  let ?q = "st_sprint_queue (snd (move_queued_sprint i d s))"
  have q: "snd (move_queued_sprint i d s) = s\<lparr>st_sprint_queue := ?q\<rparr>"
    by (simp add: move_queued_sprint_def Let_def split: option.split)
  have m: "mset ?q = mset (st_sprint_queue s)" by (rule move_queued_mset)
  then have "distinct (map ps_id ?q) = distinct (map ps_id (st_sprint_queue s))"
    by (intro mset_eq_imp_distinct_iff) simp
  then show ?thesis
    using inv sprint_invD(5,6) [OF inv] m [THEN mset_eq_setD]
    by (subst q, intro queue_change_inv) simp_all
qed

lemma ticket_change_inv:
  assumes inv: "sprint_inv s" and ids: "map tk_id (st_tickets s') = map tk_id (st_tickets s)"
    and wf: "\<forall>t \<in> set (st_tickets s'). wf_ticket t"
    and c: "distinct (committed_of s')" "set (committed_of s') \<subseteq> set (committed_of s)"
    and q: "st_sprint_queue s' = st_sprint_queue s" and h: "st_sprints s' = st_sprints s"
    and n: "map_option sp_number (st_sprint s') = map_option sp_number (st_sprint s)"
  shows "sprint_inv s'"
proof -
  have i: "ids s' = ids s" using ids by (rule ids_cong)
  then have "plan_ok s' = plan_ok s" by (rule plan_ok_cong)
  moreover have "history_ok s' = history_ok s" using h n by (rule history_ok_cong)
  ultimately show ?thesis
    using inv ids wf c q i sprint_invD(4) [OF inv]
    by (auto simp: sprint_inv_def board_ok_def scope_ok_def queue_ok_def)
qed

lemma auto_hold_inv: "sprint_inv s \<Longrightarrow> sprint_inv (snd (auto_hold_exhausted ck s))"
proof -
  assume inv: "sprint_inv s"
  obtain held s' where run: "auto_hold_exhausted ck s = (held, s')" by fastforce
  note f = auto_hold_facts [OF sprint_invD(1,2) [OF inv] run]
  have "wf_ticket (moved OnHold t)" if "t \<in> set (st_tickets s)" "exhausted s t" for t
  proof -
    have "may_move System OnHold t"
      using that sprint_invD(2) [OF inv] in_play_may_hold unfolding exhausted_def by blast
    then show ?thesis using that sprint_invD(2) [OF inv] transition_wf transition_to_ok by blast
  qed
  then have "\<forall>t \<in> set (st_tickets s'). wf_ticket t"
    using f(2) sprint_invD(2) [OF inv] by auto
  moreover have "map tk_id (st_tickets s') = map tk_id (st_tickets s)" using f(2) by simp
  ultimately have "sprint_inv s'"
    using f(3-6) sprint_invD(3) [OF inv] by (intro ticket_change_inv [OF inv]) auto
  then show ?thesis by (simp add: run)
qed

lemma clear_attempts_inv: "sprint_inv s \<Longrightarrow> sprint_inv (clear_fail_attempts i s)"
  by (frule sprint_invD(2), frule sprint_invD(3), erule ticket_change_inv)
    (simp_all add: clear_fail_attempts_def committed_of_def)

lemma ranked_pool:
  "(p, m, i) \<in> set (ranked s pool) \<Longrightarrow> i \<in> tk_id ` set pool"
  by (auto simp: ranked_def Let_def)

lemma ranked_ids: "mset (map (\<lambda>(_, _, i). i) (ranked s pool)) = mset (map tk_id pool)"
  by (simp add: ranked_def Let_def multiset.map_comp comp_def)

lemma distinct_ranked:
  "distinct (map tk_id pool) \<Longrightarrow> distinct (map (\<lambda>(_, _, i). i) (ranked s pool))"
  using ranked_ids mset_eq_imp_distinct_iff by blast

lemma set_ranked: "set (map (\<lambda>(_, _, i). i) (ranked s pool)) = tk_id ` set pool"
  using ranked_ids [THEN mset_eq_setD] by simp

lemma dedup_inv: "sprint_inv s \<Longrightarrow> sprint_inv (map_committed (retain_new []) s)"
  using sprint_invD(4) [of s] by (intro map_committed_inv) (auto simp: retain_new_props)

lemma top_up_inv:
  assumes "sprint_inv s0"
  shows "sprint_inv (snd (top_up_scope n s0))"
proof -
  define s where "s = map_committed (retain_new []) s0"
  have inv: "sprint_inv s" unfolding s_def using assms by (rule dedup_inv)
  have "sprint_inv (map_committed (\<lambda>c. c @ take k (map (\<lambda>(_, _, i). i)
      (ranked s (top_up_pool s fl (sp_committed sp))))) s)"
    if sp: "st_sprint s = Some sp" for sp k fl
  proof (rule map_committed_inv [OF inv])
    let ?pool = "top_up_pool s fl (sp_committed sp)"
    let ?p = "map (\<lambda>(_, _, i). i) (ranked s ?pool)"
    have c: "committed_of s = sp_committed sp" using sp by (simp add: committed_of_def)
    have "distinct (map tk_id ?pool)"
      unfolding top_up_pool_def by (rule distinct_map_filter [OF sprint_invD(1) [OF inv]])
    then have d: "distinct ?p" by (rule distinct_ranked)
    have "tk_id ` set ?pool \<subseteq> ids s - set (committed_of s)"
      by (auto simp: top_up_pool_def ids_def c)
    then have sub: "set (take k ?p) \<subseteq> ids s - set (committed_of s)"
      using set_ranked [of s ?pool] set_take_subset [of k ?p] by blast
    show "distinct (committed_of s @ take k ?p)"
      using sprint_invD(3) [OF inv] distinct_take [OF d, of k] sub by auto
    show "set (committed_of s @ take k ?p) \<subseteq> ids s"
      using sprint_invD(4) [OF inv] sub by auto
  qed
  then show ?thesis
    using inv unfolding top_up_scope_def Let_def s_def [symmetric]
    by (auto split: option.split)
qed

lemma done_count_le: "done_count s \<le> length (committed_of s)"
  by (simp add: done_count_def committed_of_def split: option.split)

lemma roll_over_inv:
  assumes inv: "sprint_inv s"
  shows "sprint_inv (snd (roll_over ck c len fl s))"
proof -
  obtain n s' where r: "roll_over ck c len fl s = (n, s')" by fastforce
  note f = roll_over_facts [OF r]
  obtain sp where sp: "st_sprint s' = Some sp" "sp_number sp = n" using f(5) by blast
  have i: "ids s' = ids s" using f(1) by (simp add: ids_def)
  have po: "plan_ok s' = plan_ok s" using i by (rule plan_ok_cong)
  have "distinct (commitment (ck_now ck) fl s)"
    using sprint_invD(1,6) [OF inv] by (intro distinct_commitment) (auto simp: plan_ok_def)
  moreover have "set (commitment (ck_now ck) fl s) \<subseteq> ids s"
    by (auto simp: ids_def dest!: commitment_member)
  ultimately have scope: "scope_ok s'"
    using roll_over_committed [OF r] i by (simp add: scope_ok_def)
  have "queue_ok s'"
    using sprint_invD(5,6) [OF inv] f(3) po
    by (cases "st_sprint_queue s") (auto simp: queue_ok_def)
  moreover have "history_ok s'"
    using inv f(2,4) sp done_count_le [of s]
    by (auto simp: sprint_inv_def history_ok_def archive_sprint_def committed_of_def sorted_wrt_append
        split: option.splits)
  ultimately show ?thesis
    using scope sprint_invD(1,2) [OF inv] f(1) r by (simp add: sprint_inv_def board_ok_def)
qed

lemma advance_inv: "sprint_inv s \<Longrightarrow> sprint_inv (snd (advance ck c pol s))"
  using roll_over_inv [of s ck c "window_length pol s" "sy_bug_burn_floor pol"]
  by (auto simp: advance_def Let_def split: prod.split option.split)

lemma close_now_inv: "sprint_inv s \<Longrightarrow> sprint_inv (snd (close_now ck c s))"
proof (cases "st_sprint s")
  case (Some sp)
  assume "sprint_inv s"
  then show ?thesis
    using Some roll_over_inv [of s ck c "max (sp_length_cycles sp) 1" "sp_bug_burn_floor sp"]
    by (auto simp: close_now_def split: prod.split)
qed (simp add: close_now_def)

lemma ticket_op_inv:
  assumes inv: "sprint_inv s" and t: "ticket s i = Some t" and st: "ticket_step t t'"
  shows "sprint_inv (with_ticket_mut i (\<lambda>_. t') s)"
proof (rule ticket_change_inv [OF inv])
  have tid: "tk_id t' = i"
    using ticket_step_identity [OF st] ticket_Some [OF t] by (simp add: identity_of_def)
  then show "map tk_id (st_tickets (with_ticket_mut i (\<lambda>_. t') s)) = map tk_id (st_tickets s)"
    by (simp add: with_ticket_mut_def)
  have "wf_ticket t'"
    using st ticket_Some [OF t] sprint_invD(2) [OF inv] by (blast intro: ticket_step_wf)
  then show "\<forall>t \<in> set (st_tickets (with_ticket_mut i (\<lambda>_. t') s)). wf_ticket t"
    unfolding with_ticket_mut_def
    by simp (rule update_first_all [OF sprint_invD(2) [OF inv]])
qed (use sprint_invD(3) [OF inv] in \<open>simp_all add: with_ticket_mut_def committed_of_def\<close>)

section \<open>The machine\<close>

definition sprint_init :: "project_state \<Rightarrow> bool" where
  "sprint_init s \<longleftrightarrow>
     board_ok s \<and> st_sprint s = None \<and> st_sprints s = [] \<and> st_sprint_queue s = []"

inductive sprint_step :: "project_state \<Rightarrow> project_state \<Rightarrow> bool" where
  step_advance: "sprint_step s (snd (advance ck c pol s))"
| step_close: "sprint_step s (snd (close_now ck c s))"
| step_commit: "sprint_step s (snd (commit_ticket i s))"
| step_uncommit: "sprint_step s (snd (uncommit_ticket i s))"
| step_refill: "sprint_step s (snd (refill_empty_scope s))"
| step_top_up: "sprint_step s (snd (top_up_scope n s))"
| step_queue: "sprint_step s (snd (queue_sprint ck g ts w s))"
| step_scope_queued: "sprint_step s (snd (scope_queued_sprint k a r s))"
| step_delete_queued: "sprint_step s (snd (delete_queued_sprint k s))"
| step_rename_queued: "sprint_step s (snd (rename_queued_sprint k g s))"
| step_move_queued: "sprint_step s (snd (move_queued_sprint k d s))"
| step_auto_hold: "sprint_step s (snd (auto_hold_exhausted ck s))"
| step_clear_attempts: "sprint_step s (clear_fail_attempts i s)"
| step_ticket:
    "ticket s i = Some t \<Longrightarrow> ticket_step t t' \<Longrightarrow> sprint_step s (with_ticket_mut i (\<lambda>_. t') s)"

lemmas sprint_ops_inv =
  advance_inv close_now_inv commit_inv uncommit_inv refill_inv top_up_inv queue_inv
  scope_queued_inv delete_queued_inv rename_queued_inv move_queued_inv auto_hold_inv
  clear_attempts_inv ticket_op_inv

lemma sprint_init_inv: "sprint_init s \<Longrightarrow> sprint_inv s"
  by (simp add: sprint_init_def sprint_inv_def scope_ok_def queue_ok_def history_ok_def
      committed_of_def)

interpretation sprint_sys: invariant_system sprint_init sprint_step sprint_inv
proof
  show "sprint_init s \<Longrightarrow> sprint_inv s" for s by (rule sprint_init_inv)
  show "sprint_inv t" if "sprint_inv s" and "sprint_step s t" for s t
    using that(2,1) by (cases rule: sprint_step.cases) (auto intro: sprint_ops_inv)
qed

end
