(* ===== verification/Claims.thy ===== *)
theory Claims
  imports Sprint_Machine
begin

text \<open>
  Who works on a ticket: the atomic claim of the state store
  (\<open>ports/outbound/state_store.rs\<close>), the pick loop of a DEV runner
  (\<open>use_cases/run_dev/mod.rs\<close>), the repair of misfiled bugs
  (\<open>use_cases/cycle/escalation.rs\<close>) and the takeover and handback of a claim by a person
  (\<open>use_cases/claims.rs\<close>). An emoji or an em dash in a message text is left out or written
  \<open>-\<close>: the strings of the model hold code points below 256 only.
\<close>

section \<open>Messages\<close>

definition status_debug :: "status \<Rightarrow> string" where
  "status_debug st =
     (case st of
        Pending \<Rightarrow> ''Pending'' | Ready \<Rightarrow> ''Ready'' | InProgress \<Rightarrow> ''InProgress''
      | Done \<Rightarrow> ''Done'' | Documented \<Rightarrow> ''Documented'' | Rejected \<Rightarrow> ''Rejected''
      | OnHold \<Rightarrow> ''OnHold'' | Open \<Rightarrow> ''Open'' | Fixed \<Rightarrow> ''Fixed'' | Verified \<Rightarrow> ''Verified'')"

definition role_debug :: "role \<Rightarrow> string" where
  "role_debug r =
     (case r of
        Ba \<Rightarrow> ''Ba'' | Po \<Rightarrow> ''Po'' | Sm \<Rightarrow> ''Sm'' | Sa \<Rightarrow> ''Sa'' | Pd \<Rightarrow> ''Pd''
      | DevBug \<Rightarrow> ''DevBug'' | DevFeature \<Rightarrow> ''DevFeature'' | Test \<Rightarrow> ''Test'' | Docs \<Rightarrow> ''Docs''
      | User \<Rightarrow> ''User'' | System \<Rightarrow> ''System'')"

definition ticket_type_debug :: "ticket_type \<Rightarrow> string" where
  "ticket_type_debug k = (case k of Feature \<Rightarrow> ''Feature'' | Bug \<Rightarrow> ''Bug'' | Chore \<Rightarrow> ''Chore'')"

definition ticked :: "string \<Rightarrow> string" where
  "ticked s = CHR 0x60 # s @ [CHR 0x60]"

definition domain_error_message :: "domain_error \<Rightarrow> string" where
  "domain_error_message e =
     (case e of
        Empty field \<Rightarrow> ''empty '' @ field @ '': must not be blank''
      | InvalidTransition k frm dst \<Rightarrow>
          ''invalid transition for '' @ ticket_type_debug k @ '': '' @ status_debug frm @ '' -> ''
          @ status_debug dst
      | FieldNotPermitted r field \<Rightarrow>
          ''role '' @ role_debug r @ '' is not allowed to change field '' @ ticked field
      | TransitionNotPermitted r frm dst \<Rightarrow>
          ''role '' @ role_debug r @ '' is not allowed to perform transition '' @ status_debug frm
          @ '' -> '' @ status_debug dst
      | NotReady missing \<Rightarrow> ''ticket not ready: missing '' @ missing
      | CoverageIncomplete n first \<Rightarrow>
          ''cannot verify: '' @ nat_str n
          @ '' acceptance criterion(s) not demonstrated by a passing test (first: '' @ ticked first
          @ '')''
      | InvalidVersion v \<Rightarrow> ''invalid version string '' @ ticked v
      | AlreadyClaimed who \<Rightarrow> ''ticket already claimed by '' @ ticked who)"

section \<open>The store's claim and the DEV pick loop\<close>

definition claim_ticket ::
  "ticket_id \<Rightarrow> string \<Rightarrow> string \<Rightarrow> project_state \<Rightarrow> bool \<times> project_state" where
  "claim_ticket i worker now s =
     (case ticket s i of
        None \<Rightarrow> (False, s)
      | Some t \<Rightarrow>
          if tk_claimed_by t \<noteq> None then (False, s)
          else (case claim System worker now t of
                  (Inl _, _) \<Rightarrow> (False, s)
                | (Inr _, t') \<Rightarrow> (True, with_ticket_mut i (\<lambda>_. t') s)))"

datatype dev_mode = BugMode | FeatureMode

text \<open>
  \<open>mine\<close> is the per-service filter of a runner bound to a service (the configured resolver);
  a runner bound to none passes \<open>\<lambda>_. True\<close>.
\<close>

definition dev_candidates :: "dev_mode \<Rightarrow> (ticket_id \<Rightarrow> bool) \<Rightarrow> project_state \<Rightarrow> ticket_id list" where
  "dev_candidates mode mine s =
     filter mine (filter (in_dev_scope s)
       (case mode of BugMode \<Rightarrow> open_bug_candidates s | FeatureMode \<Rightarrow> ready_feature_candidates s))"

text \<open>
  The cost gate of one run: whether the role's estimate exceeds the cap (both in dollars, a
  comparison of floats made once before the loop), who is approved and who is already held.
\<close>

record cost_gate =
  cg_over_cap :: bool
  cg_approved :: "string list"
  cg_holds :: "string list"

definition parked :: "project_state \<Rightarrow> ticket_id \<Rightarrow> bool" where
  "parked s i \<longleftrightarrow>
     (case st_ticket_fail_attempts s (ticket_id_str i) of None \<Rightarrow> 0 | Some n \<Rightarrow> n) \<ge> (3::nat)"

definition cost_held :: "cost_gate \<Rightarrow> ticket_id \<Rightarrow> bool" where
  "cost_held g i \<longleftrightarrow> cg_over_cap g \<and> ticket_id_str i \<notin> set (cg_approved g)"

text \<open>
  The loop walks the candidates of the snapshot \<open>snap\<close> and claims on the store \<open>st\<close>, which
  other runners may have moved on meanwhile; \<open>new_holds\<close> collects the tickets to hold.
\<close>

fun dev_pick ::
  "project_state \<Rightarrow> cost_gate \<Rightarrow> string \<Rightarrow> string \<Rightarrow> string \<Rightarrow> ticket_id list \<Rightarrow> string list
   \<Rightarrow> project_state \<Rightarrow> ticket_id option \<times> string list \<times> project_state" where
  "dev_pick snap g role_label worker now [] new_holds st = (None, new_holds, st)"
| "dev_pick snap g role_label worker now (c # cs) new_holds st =
     (if parked snap c then dev_pick snap g role_label worker now cs new_holds st
      else if cost_held g c then
        dev_pick snap g role_label worker now cs
          (if ticket_id_str c \<in> set (cg_holds g) then new_holds
           else new_holds @ [ticket_id_str c]) st
      else case claim_ticket c worker now st of
             (True, st') \<Rightarrow>
               (Some c, new_holds,
                log_activity now role_label ''started implementing'' (Some (ticket_id_str c)) st')
           | (False, st') \<Rightarrow> dev_pick snap g role_label worker now cs new_holds st')"

text \<open>The sweep that returns misfiled bugs to \<open>Open\<close>.\<close>

definition reclaim_misfiled_bugs :: "project_state \<Rightarrow> string list \<times> project_state" where
  "reclaim_misfiled_bugs s =
     (map (\<lambda>t. ticket_id_str (tk_id t))
        (filter (\<lambda>t. fst (reclaim_misfiled System t) = Inr True) (st_tickets s)),
      s\<lparr>st_tickets := map (\<lambda>t. snd (reclaim_misfiled System t)) (st_tickets s)\<rparr>)"

section \<open>Takeover and handback\<close>

datatype claim_error = NotFound | NotPermitted | Conflict string

definition claim_account :: "string \<Rightarrow> string" where
  "claim_account worker = takeWhile (\<lambda>c. c \<noteq> CHR ''@'') worker"

definition may_touch_claim :: "bool \<Rightarrow> string \<Rightarrow> string option \<Rightarrow> bool" where
  "may_touch_claim can_manage caller holder =
     (case holder of
        None \<Rightarrow> can_manage
      | Some held \<Rightarrow> can_manage \<or> claim_account held = caller)"

definition runner_busy :: "string option \<Rightarrow> string option \<Rightarrow> string option" where
  "runner_busy holder active_runner =
     (case holder of None \<Rightarrow> None
      | Some held \<Rightarrow>
          (case active_runner of None \<Rightarrow> None
           | Some runner \<Rightarrow>
               if runner = held
               then Some (''runner '' @ held @ '' is actively working this ticket - pause it first'')
               else None))"

record takeover_outcome =
  to_previous_holder :: "string option"
  to_claimed_by :: string
  to_claimed_at :: string
  to_ticket :: ticket

definition claimable :: "ticket_type \<Rightarrow> status \<Rightarrow> bool" where
  "claimable k st = (case k of Bug \<Rightarrow> st = Open | Feature \<Rightarrow> st = Ready | Chore \<Rightarrow> st = Ready)"

definition audit ::
  "string \<Rightarrow> string \<Rightarrow> string \<Rightarrow> string \<Rightarrow> string \<Rightarrow> ticket_id \<Rightarrow> project_state \<Rightarrow> project_state" where
  "audit mid now caller action body i s =
     (let s = log_activity now caller action (Some (ticket_id_str i)) s
      in s\<lparr>st_social := post_comment mid now ''USER'' body (Some (ticket_id_str i)) (st_social s)\<rparr>)"

definition takeover_in_state ::
  "string \<Rightarrow> string \<Rightarrow> ticket_id \<Rightarrow> string \<Rightarrow> string \<Rightarrow> bool \<Rightarrow> string \<Rightarrow> string option
   \<Rightarrow> (project_state, claim_error, takeover_outcome) op" where
  "takeover_in_state mid clock_now i worker now can_manage caller active_runner s =
     (case ticket s i of
        None \<Rightarrow> (Inl NotFound, s)
      | Some view \<Rightarrow>
          let holder = tk_claimed_by view in
          if \<not> may_touch_claim can_manage caller holder then (Inl NotPermitted, s)
          else case runner_busy holder active_runner of
                 Some why \<Rightarrow> (Inl (Conflict why), s)
               | None \<Rightarrow>
          (case (case holder of
                   Some h \<Rightarrow>
                     (case take_over System worker now view of
                        (Inl e, _) \<Rightarrow> Inl (Conflict (domain_error_message e))
                      | (Inr prev, t) \<Rightarrow>
                          Inr (prev, ticket_id_str i @ '' taken over by @'' @ caller
                                 @ (case prev of None \<Rightarrow> '''' | Some h \<Rightarrow> '' (was '' @ h @ '')''), t))
                 | None \<Rightarrow>
                     if \<not> claimable (tk_kind view) (tk_status view)
                     then Inl (Conflict (ticket_id_str i @ '' is ''
                            @ to_lowercase (status_debug (tk_status view))
                            @ '' - only a Ready feature/chore or an Open bug can be taken over''))
                     else (case claim System worker now view of
                             (Inl e, _) \<Rightarrow> Inl (Conflict (domain_error_message e))
                           | (Inr _, t) \<Rightarrow>
                               Inr (None, ticket_id_str i @ '' taken over by @'' @ caller, t))) of
             Inl e \<Rightarrow> (Inl e, s)
           | Inr (prev, body, t) \<Rightarrow>
               (Inr \<lparr>to_previous_holder = prev, to_claimed_by = worker, to_claimed_at = now,
                     to_ticket = t\<rparr>,
                audit mid clock_now caller ''took over the ticket'' body i
                  (with_ticket_mut i (\<lambda>_. t) s))))"

definition handback_in_state ::
  "string \<Rightarrow> string \<Rightarrow> ticket_id \<Rightarrow> string \<Rightarrow> string \<Rightarrow> bool \<Rightarrow> string \<Rightarrow> string option
   \<Rightarrow> (project_state, claim_error, status) op" where
  "handback_in_state mid clock_now i remark branch_ref can_manage caller active_runner s =
     (case ticket s i of
        None \<Rightarrow> (Inl NotFound, s)
      | Some view \<Rightarrow>
          let holder = tk_claimed_by view in
          if \<not> may_touch_claim can_manage caller holder then (Inl NotPermitted, s)
          else case runner_busy holder active_runner of
                 Some why \<Rightarrow> (Inl (Conflict why), s)
               | None \<Rightarrow>
          if tk_status view \<noteq> InProgress
          then (Inl (Conflict (ticket_id_str i @ '' is ''
                  @ to_lowercase (status_debug (tk_status view))
                  @ '' - nothing in progress to hand back'')), s)
          else
            let dst = (case tk_kind view of Bug \<Rightarrow> Fixed | Feature \<Rightarrow> Done | Chore \<Rightarrow> Done) in
            (case transition_to System dst view of
               (Inl e, _) \<Rightarrow> (Inl (Conflict (domain_error_message e)), s)
             | (Inr _, t) \<Rightarrow>
                 let body = ''handed back to the loop: '' @ remark
                       @ (if branch_ref = [] then ''''
                          else CHR 0x0A # ''branch/commit: '' @ branch_ref)
                 in (Inr dst, audit mid clock_now caller ''handed back to the loop'' body i
                       (with_ticket_mut i (\<lambda>_. t) s))))"

section \<open>Lemmas on claiming\<close>

lemma wf_claimable:
  assumes "wf_ticket t" and "claimable (tk_kind t) (tk_status t)"
  shows "tk_claimed_by t = None \<and> may_move System InProgress t"
proof
  show "tk_claimed_by t = None"
    using assms by (cases "tk_kind t") (auto simp: wf_ticket_def claim_consistent_def claimable_def)
  show "may_move System InProgress t"
    using assms(2)
    by (cases "tk_kind t") (auto simp: may_move_def transition_allowed_def claimable_def)
qed

lemma claim_ticket_wins:
  assumes "ticket s i = Some t" and "tk_claimed_by t = None" and "may_move System InProgress t"
  shows "claim_ticket i w now s = (True, with_ticket_mut i
    (\<lambda>_. t\<lparr>tk_status := InProgress, tk_claimed_by := Some w, tk_claimed_at := Some now\<rparr>) s)"
  using assms by (simp add: claim_ticket_def claim_ok)

lemma ticket_with_ticket_mut:
  assumes "ticket s i = Some t" and "tk_id t' = i"
  shows "ticket (with_ticket_mut i (\<lambda>_. t') s) i = Some t'"
  using assms find_update_first_same [of "\<lambda>t. tk_id t = i" "st_tickets s" t "\<lambda>_. t'"]
  by (simp add: ticket_def with_ticket_mut_def)

lemma ticket_with_ticket_mut_other:
  assumes "tk_id t' = i" and "j \<noteq> i"
  shows "ticket (with_ticket_mut i (\<lambda>_. t') s) j = ticket s j"
  unfolding ticket_def with_ticket_mut_def
  using assms by (simp, intro find_update_first_other) auto

lemma claim_ticket_result:
  assumes "claim_ticket i w now s = (True, s')"
  obtains t where "ticket s i = Some t" "tk_claimed_by t = None"
    "ticket s' i = Some (t\<lparr>tk_status := InProgress, tk_claimed_by := Some w, tk_claimed_at := Some now\<rparr>)"
    "s' = with_ticket_mut i (\<lambda>_. t\<lparr>tk_status := InProgress, tk_claimed_by := Some w,
        tk_claimed_at := Some now\<rparr>) s"
proof -
  obtain t t' where t: "ticket s i = Some t" "tk_claimed_by t = None"
    and c: "claim System w now t = (Inr (), t')" and s': "s' = with_ticket_mut i (\<lambda>_. t') s"
    using assms by (auto simp: claim_ticket_def split: option.splits if_splits prod.splits sum.splits)
  have t': "t' = t\<lparr>tk_status := InProgress, tk_claimed_by := Some w, tk_claimed_at := Some now\<rparr>"
    using claim_result [OF c] by simp
  have "tk_id t' = i" using ticket_Some [OF t(1)] t' by simp
  then have "ticket s' i = Some t'" using t(1) s' by (simp add: ticket_with_ticket_mut)
  then show thesis using that t t' s' by blast
qed

lemma claim_ticket_lost: "claim_ticket i w now s = (False, s') \<Longrightarrow> s' = s"
  by (auto simp: claim_ticket_def split: option.splits if_splits prod.splits sum.splits)

lemma claim_ticket_held:
  "ticket s i = Some t \<Longrightarrow> tk_claimed_by t \<noteq> None \<Longrightarrow> claim_ticket i w now s = (False, s)"
  by (simp add: claim_ticket_def)

text \<open>A sequence of atomic claims by several runners, and the ones that won.\<close>

fun claim_all ::
  "(ticket_id \<times> string \<times> string) list \<Rightarrow> project_state \<Rightarrow> (ticket_id \<times> string) list \<times> project_state" where
  "claim_all [] s = ([], s)"
| "claim_all ((i, w, now) # cs) s =
     (case claim_ticket i w now s of
        (won, s1) \<Rightarrow>
          (case claim_all cs s1 of (ws, s2) \<Rightarrow> ((if won then [(i, w)] else []) @ ws, s2)))"

lemma claim_all_held:
  "ticket s i = Some t \<Longrightarrow> tk_claimed_by t \<noteq> None \<Longrightarrow> claim_all cs s = (ws, s') \<Longrightarrow>
   i \<notin> fst ` set ws \<and> ticket s' i = Some t"
proof (induction cs arbitrary: s ws)
  case (Cons c cs)
  obtain j w now where c: "c = (j, w, now)" by (cases c) auto
  obtain won s1 where one: "claim_ticket j w now s = (won, s1)" by fastforce
  obtain ws1 where rest: "claim_all cs s1 = (ws1, s')" and ws: "ws = (if won then [(j, w)] else []) @ ws1"
    using Cons.prems(3) c one by (auto split: prod.splits)
  have "ticket s1 i = Some t \<and> (won \<longrightarrow> j \<noteq> i)"
  proof (cases won)
    case True
    with one have *: "claim_ticket j w now s = (True, s1)" by simp
    from claim_ticket_result [OF this] obtain u where u: "ticket s j = Some u" "tk_claimed_by u = None"
      "s1 = with_ticket_mut j (\<lambda>_. u\<lparr>tk_status := InProgress, tk_claimed_by := Some w,
        tk_claimed_at := Some now\<rparr>) s" by metis
    then have "j \<noteq> i" using Cons.prems(1,2) by auto
    then show ?thesis
      using u(3) ticket_Some [OF u(1)] Cons.prems(1) by (simp add: ticket_with_ticket_mut_other)
  next
    case False
    then show ?thesis using one claim_ticket_lost [of j w now s s1] Cons.prems(1) by simp
  qed
  then show ?case using Cons.IH [OF _ Cons.prems(2) rest] ws by auto
qed simp

lemma claim_all_exclusive:
  "claim_all cs s = (ws, s') \<Longrightarrow>
   distinct (map fst ws)
   \<and> (\<forall>(i, w) \<in> set ws. \<exists>t. ticket s' i = Some t \<and> tk_claimed_by t = Some w \<and> tk_status t = InProgress)"
proof (induction cs arbitrary: s ws)
  case (Cons c cs)
  obtain j w now where c: "c = (j, w, now)" by (cases c) auto
  obtain won s1 where one: "claim_ticket j w now s = (won, s1)" by fastforce
  obtain ws1 where rest: "claim_all cs s1 = (ws1, s')" and ws: "ws = (if won then [(j, w)] else []) @ ws1"
    using Cons.prems c one by (auto split: prod.splits)
  show ?case
  proof (cases won)
    case True
    with one have *: "claim_ticket j w now s = (True, s1)" by simp
    from claim_ticket_result [OF this] obtain u where
      u: "ticket s1 j = Some (u\<lparr>tk_status := InProgress, tk_claimed_by := Some w, tk_claimed_at := Some now\<rparr>)"
      by metis
    have "j \<notin> fst ` set ws1 \<and>
        ticket s' j = Some (u\<lparr>tk_status := InProgress, tk_claimed_by := Some w, tk_claimed_at := Some now\<rparr>)"
      using claim_all_held [OF u _ rest] by simp
    then show ?thesis using Cons.IH [OF rest] ws True by auto
  next
    case False
    then show ?thesis using Cons.IH [OF rest] ws by simp
  qed
qed simp

section \<open>Lemmas on the pick loop\<close>

lemma queue_claimable:
  assumes inv: "board_ok s" and i: "i \<in> set (ready_feature_candidates s) \<union> set (open_bug_candidates s)"
  shows "\<exists>t. ticket s i = Some t \<and> claimable (tk_kind t) (tk_status t)"
proof -
  obtain t where t: "t \<in> set (st_tickets s)" "tk_id t = i"
    and k: "(is_feature t \<and> tk_status t = Ready) \<or> (tk_kind t = Bug \<and> tk_status t \<in> {Open, Ready, Pending})"
    using i by (auto simp: ready_feature_candidates_def open_bug_candidates_def set_candidates)
  have "tk_status t \<in> lifecycle (tk_kind t)" using inv t by (auto simp: board_ok_def wf_ticket_def)
  then have "claimable (tk_kind t) (tk_status t)"
    using k by (cases "tk_kind t") (auto simp: claimable_def is_feature_def lifecycle_def)
  moreover have "ticket s i = Some t"
    using inv t ticket_member [of s t] by (simp add: board_ok_def)
  ultimately show ?thesis by blast
qed

lemma dev_candidates_claimable:
  assumes "board_ok s" and "i \<in> set (dev_candidates mode mine s)"
  shows "\<exists>t. ticket s i = Some t \<and> tk_claimed_by t = None \<and> may_move System InProgress t"
proof -
  have "i \<in> set (ready_feature_candidates s) \<union> set (open_bug_candidates s)"
    using assms(2) by (auto simp: dev_candidates_def split: dev_mode.splits)
  then obtain t where t: "ticket s i = Some t" "claimable (tk_kind t) (tk_status t)"
    using queue_claimable [OF assms(1)] by blast
  then have "wf_ticket t" using assms(1) ticket_Some by (auto simp: board_ok_def)
  then show ?thesis using t wf_claimable by blast
qed

lemma dev_pick_first:
  assumes "\<forall>i \<in> set cs. \<exists>t. ticket st i = Some t \<and> tk_claimed_by t = None \<and> may_move System InProgress t"
  shows "fst (dev_pick snap g r w now cs nh st) = find (\<lambda>i. \<not> parked snap i \<and> \<not> cost_held g i) cs"
  using assms
proof (induction cs arbitrary: nh)
  case (Cons c cs)
  then obtain t where "ticket st c = Some t" "tk_claimed_by t = None" "may_move System InProgress t"
    by auto
  from claim_ticket_wins [OF this, of w now] Cons show ?case by simp
qed simp

lemma ticket_log_activity [simp]: "ticket (log_activity now a act tkt s) = ticket s"
  by (simp add: fun_eq_iff ticket_def log_activity_def push_activity_def)

lemma dev_pick_claims:
  "dev_pick snap g r w now cs nh st = (Some i, nh', st') \<Longrightarrow>
   i \<in> set cs \<and> \<not> parked snap i \<and> \<not> cost_held g i
   \<and> (\<exists>t. ticket st i = Some t \<and> tk_claimed_by t = None)
   \<and> (\<exists>t. ticket st' i = Some t \<and> tk_claimed_by t = Some w \<and> tk_status t = InProgress)"
proof (induction cs arbitrary: nh)
  case (Cons c cs)
  obtain won st1 where one: "claim_ticket c w now st = (won, st1)" by fastforce
  show ?case
  proof (cases "parked snap c \<or> cost_held g c")
    case True
    then obtain nh1 where "dev_pick snap g r w now cs nh1 st = (Some i, nh', st')"
      using Cons.prems by (auto split: if_splits)
    from Cons.IH [OF this] show ?thesis by simp
  next
    case False
    show ?thesis
    proof (cases won)
      case True
      with one have win: "claim_ticket c w now st = (True, st1)" by simp
      with False Cons.prems have i: "i = c" "ticket st' = ticket st1" by auto
      from win obtain t where "ticket st c = Some t" "tk_claimed_by t = None"
        "ticket st1 c = Some (t\<lparr>tk_status := InProgress, tk_claimed_by := Some w, tk_claimed_at := Some now\<rparr>)"
        by (rule claim_ticket_result)
      then show ?thesis using False i by simp
    next
      case False2: False
      with one have "claim_ticket c w now st = (False, st)" using claim_ticket_lost [of c w now st st1] by simp
      with False Cons.prems have "dev_pick snap g r w now cs nh st = (Some i, nh', st')" by simp
      from Cons.IH [OF this] show ?thesis by simp
    qed
  qed
qed simp

section \<open>Lemmas on takeover and handback\<close>

lemma audit_frame [simp]:
  "st_tickets (audit mid now c a b i s) = st_tickets s"
  "ticket (audit mid now c a b i s) = ticket s"
  by (simp_all add: audit_def log_activity_def push_activity_def Let_def ticket_def fun_eq_iff)

lemma audit_trail:
  "last (st_activity (audit mid now c a b i s)) =
     \<lparr>ac_at = now, ac_agent = c, ac_action = a, ac_ticket = Some (ticket_id_str i)\<rparr>"
  "cm_body (last (so_comments (st_social (audit mid now c a b i s)))) = b"
  "cm_ticket (last (so_comments (st_social (audit mid now c a b i s)))) = Some (ticket_id_str i)"
  using activity_log.push_newest comment_log.push_newest
  by (simp_all add: audit_def log_activity_def post_comment_def post_comment_att_def Let_def
      push_activity_def)

lemma atomic_takeover: "atomic (takeover_in_state mid cn i w now m c r)"
  by (rule atomicI)
    (auto simp: takeover_in_state_def Let_def split: option.splits if_splits prod.splits sum.splits)

lemma atomic_handback: "atomic (handback_in_state mid cn i rm br m c r)"
  by (rule atomicI)
    (auto simp: handback_in_state_def Let_def split: option.splits if_splits prod.splits sum.splits)

lemma take_over_result:
  "take_over System w now t = (Inr prev, t') \<Longrightarrow>
   tk_status t = InProgress \<and> prev = tk_claimed_by t
   \<and> t' = t\<lparr>tk_claimed_by := Some w, tk_claimed_at := Some now\<rparr>"
  by (auto simp: take_over_def split: if_splits)

lemma takeover_facts:
  assumes "takeover_in_state mid cn i w now m c r s = (Inr out, s')"
  obtains t t' body where "ticket s i = Some t" "may_touch_claim m c (tk_claimed_by t)"
    "runner_busy (tk_claimed_by t) r = None"
    "t' = t\<lparr>tk_status := InProgress, tk_claimed_by := Some w, tk_claimed_at := Some now\<rparr>"
    "tk_claimed_by t \<noteq> None \<and> tk_status t = InProgress
     \<or> tk_claimed_by t = None \<and> claimable (tk_kind t) (tk_status t)"
    "out = \<lparr>to_previous_holder = tk_claimed_by t, to_claimed_by = w, to_claimed_at = now, to_ticket = t'\<rparr>"
    "s' = audit mid cn c ''took over the ticket'' body i (with_ticket_mut i (\<lambda>_. t') s)"
proof -
  obtain t where t: "ticket s i = Some t" "may_touch_claim m c (tk_claimed_by t)"
    and busy: "runner_busy (tk_claimed_by t) r = None"
    using assms by (auto simp: takeover_in_state_def Let_def split: option.splits if_splits)
  show thesis
  proof (cases "tk_claimed_by t")
    case None
    obtain t' where c: "claimable (tk_kind t) (tk_status t)" "claim System w now t = (Inr (), t')"
      and "\<exists>body. s' = audit mid cn c ''took over the ticket'' body i (with_ticket_mut i (\<lambda>_. t') s)"
      and "out = \<lparr>to_previous_holder = None, to_claimed_by = w, to_claimed_at = now, to_ticket = t'\<rparr>"
      using assms t busy None
      by (auto simp: takeover_in_state_def Let_def split: if_splits prod.splits sum.splits)
    then show thesis using that t busy None claim_result [OF c(2)] by auto
  next
    case (Some h)
    obtain prev t' where c: "take_over System w now t = (Inr prev, t')"
      and "\<exists>body. s' = audit mid cn c ''took over the ticket'' body i (with_ticket_mut i (\<lambda>_. t') s)"
      and "out = \<lparr>to_previous_holder = prev, to_claimed_by = w, to_claimed_at = now, to_ticket = t'\<rparr>"
      using assms t busy Some
      by (auto simp: takeover_in_state_def Let_def split: if_splits prod.splits sum.splits)
    then show thesis using that t busy Some take_over_result [OF c] by auto
  qed
qed

lemma handback_facts:
  assumes "handback_in_state mid cn i rm br m c r s = (Inr dst, s')"
  obtains t body where "ticket s i = Some t" "may_touch_claim m c (tk_claimed_by t)"
    "runner_busy (tk_claimed_by t) r = None" "tk_status t = InProgress"
    "dst = (if tk_kind t = Bug then Fixed else Done)"
    "s' = audit mid cn c ''handed back to the loop'' body i (with_ticket_mut i (\<lambda>_. moved dst t) s)"
proof -
  obtain t where t: "ticket s i = Some t" "may_touch_claim m c (tk_claimed_by t)"
    and busy: "runner_busy (tk_claimed_by t) r = None" and st: "tk_status t = InProgress"
    using assms by (auto simp: handback_in_state_def Let_def split: option.splits if_splits)
  let ?dst = "if tk_kind t = Bug then Fixed else Done"
  have kind: "(case tk_kind t of Bug \<Rightarrow> Fixed | Feature \<Rightarrow> Done | Chore \<Rightarrow> Done) = ?dst"
    by (cases "tk_kind t") simp_all
  have "may_move System ?dst t"
    using st by (cases "tk_kind t") (auto simp: may_move_def transition_allowed_def)
  from transition_to_ok [OF this] have "dst = ?dst"
    "\<exists>body. s' = audit mid cn c ''handed back to the loop'' body i
       (with_ticket_mut i (\<lambda>_. moved ?dst t) s)"
    using assms t busy st kind by (auto simp: handback_in_state_def Let_def)
  then show thesis using that t busy st by blast
qed

end
