(* ===== verification/Questions.thy ===== *)
theory Questions
  imports Social
begin

text \<open>
  Questions between agents (\<open>state/chat.rs\<close>, \<open>state/mod.rs\<close>): one open question per ticket,
  one forward per question, a log of at most forty in which answered questions age out first.
\<close>

section \<open>Operations\<close>

definition q_is_open :: "agent_question \<Rightarrow> bool" where
  "q_is_open q \<longleftrightarrow> is_blank (aq_answer q)"

definition open_question :: "string \<Rightarrow> social \<Rightarrow> agent_question option" where
  "open_question tkt s = find (\<lambda>q. aq_ticket q = tkt \<and> q_is_open q) (so_questions s)"

definition MAX_QUESTIONS :: nat where "MAX_QUESTIONS = 40"

text \<open>The \<open>while\<close> loop that bounds the log.\<close>

function (sequential) age_out :: "agent_question list \<Rightarrow> agent_question list" where
  "age_out qs =
     (if length qs > MAX_QUESTIONS then
        age_out (case find (\<lambda>q. \<not> q_is_open q) qs of
                   Some _ \<Rightarrow> remove_first (\<lambda>q. \<not> q_is_open q) qs
                 | None \<Rightarrow> tl qs)
      else qs)"
  by pat_completeness auto

termination age_out
proof (relation "measure length")
  fix qs :: "agent_question list"
  assume "length qs > MAX_QUESTIONS"
  then show "(case find (\<lambda>q. \<not> q_is_open q) qs of
      Some _ \<Rightarrow> remove_first (\<lambda>q. \<not> q_is_open q) qs | None \<Rightarrow> tl qs, qs) \<in> measure length"
    using remove_first_length [of "\<lambda>q. \<not> q_is_open q" qs] by (auto split: option.split)
qed simp

declare age_out.simps [simp del]

definition ask_question ::
  "string \<Rightarrow> string \<Rightarrow> string \<Rightarrow> string \<Rightarrow> string \<Rightarrow> social \<Rightarrow> bool \<times> social" where
  "ask_question now tkt frm dst body s =
     (if is_blank body \<or> open_question tkt s \<noteq> None then (False, s)
      else
        let key = (if tkt = [] then ''open'' else tkt);
            n = length (filter (\<lambda>q. aq_ticket q = tkt) (so_questions s)) + 1;
            q = \<lparr>aq_id = key @ ''#'' @ nat_str n, aq_ticket = tkt, aq_from = frm, aq_to = dst,
                 aq_body = take 600 (trim body), aq_answer = '''', aq_asked_at = now,
                 aq_answered_at = '''', aq_forwarded = False, aq_escalated = False,
                 aq_deferred = False\<rparr>
        in (True, s\<lparr>so_questions := age_out (so_questions s @ [q])\<rparr>))"

definition forward_question :: "string \<Rightarrow> string \<Rightarrow> social \<Rightarrow> bool \<times> social" where
  "forward_question i dst s =
     (case find (\<lambda>q. aq_id q = i) (so_questions s) of
        None \<Rightarrow> (False, s)
      | Some q \<Rightarrow>
          if aq_forwarded q \<or> aq_to q = dst \<or> \<not> q_is_open q then (False, s)
          else (True, s\<lparr>so_questions := update_first (\<lambda>q. aq_id q = i)
                  (\<lambda>q. q\<lparr>aq_to := dst, aq_forwarded := True\<rparr>) (so_questions s)\<rparr>))"

definition answer_question :: "string \<Rightarrow> string \<Rightarrow> string \<Rightarrow> social \<Rightarrow> bool \<times> social" where
  "answer_question now i answer s =
     (if is_blank answer then (False, s)
      else case find (\<lambda>q. aq_id q = i) (so_questions s) of
             None \<Rightarrow> (False, s)
           | Some _ \<Rightarrow>
               (True, s\<lparr>so_questions := update_first (\<lambda>q. aq_id q = i)
                  (\<lambda>q. q\<lparr>aq_answer := take 1500 (trim answer), aq_answered_at := now\<rparr>)
                  (so_questions s)\<rparr>))"

definition answered_questions :: "string \<Rightarrow> social \<Rightarrow> agent_question list" where
  "answered_questions tkt s =
     filter (\<lambda>q. aq_ticket q = tkt \<and> \<not> q_is_open q) (so_questions s)"

section \<open>Ageing out\<close>

lemma age_out_bound: "length (age_out qs) \<le> MAX_QUESTIONS"
proof (induction qs rule: age_out.induct)
  case (1 qs)
  then show ?case by (simp add: age_out.simps [of qs])
qed

lemma age_out_id: "length qs \<le> MAX_QUESTIONS \<Longrightarrow> age_out qs = qs"
  by (simp add: age_out.simps)

text \<open>One question too many: an answered one goes if there is one, else the oldest.\<close>

lemma age_out_push:
  assumes "length qs \<le> MAX_QUESTIONS"
  shows "age_out (qs @ [q]) =
    (if length qs < MAX_QUESTIONS then qs @ [q]
     else if \<exists>x \<in> set (qs @ [q]). \<not> q_is_open x then remove_first (\<lambda>q. \<not> q_is_open q) (qs @ [q])
     else tl (qs @ [q]))"
proof (cases "length qs < MAX_QUESTIONS")
  case True
  then show ?thesis by (simp add: age_out_id)
next
  case False
  with assms have len: "length qs = MAX_QUESTIONS" by simp
  show ?thesis
  proof (cases "find (\<lambda>q. \<not> q_is_open q) (qs @ [q])")
    case None
    then have all: "\<forall>x \<in> set (qs @ [q]). q_is_open x" by (auto simp: find_None_all)
    have "length (tl (qs @ [q])) \<le> MAX_QUESTIONS" using len by simp
    then have "age_out (tl (qs @ [q])) = tl (qs @ [q])" by (rule age_out_id)
    then show ?thesis using None all len by (simp add: age_out.simps [of "qs @ [q]"])
  next
    case (Some x)
    then have ex: "\<exists>x \<in> set (qs @ [q]). \<not> q_is_open x" by (auto dest!: find_Some_props)
    have "Suc (length (remove_first (\<lambda>q. \<not> q_is_open q) (qs @ [q]))) = length (qs @ [q])"
      using Some by (intro remove_first_length) simp
    then have "age_out (remove_first (\<lambda>q. \<not> q_is_open q) (qs @ [q]))
        = remove_first (\<lambda>q. \<not> q_is_open q) (qs @ [q])"
      using len by (intro age_out_id) simp
    then show ?thesis using Some ex len by (simp add: age_out.simps [of "qs @ [q]"])
  qed
qed

section \<open>The invariant\<close>

definition open_of :: "social \<Rightarrow> agent_question list" where
  "open_of s = filter q_is_open (so_questions s)"

definition questions_ok :: "social \<Rightarrow> bool" where
  "questions_ok s \<longleftrightarrow>
     length (so_questions s) \<le> MAX_QUESTIONS \<and> distinct (map aq_ticket (open_of s))"

lemma filter_tl_sub: "set (filter p (tl xs)) \<subseteq> set (filter p xs)"
  by (cases xs) auto

lemma distinct_filter_tl: "distinct (map f (filter p xs)) \<Longrightarrow> distinct (map f (filter p (tl xs)))"
  by (cases xs) (auto split: if_splits)

lemma age_out_open:
  "distinct (map aq_ticket (filter q_is_open qs)) \<Longrightarrow>
   distinct (map aq_ticket (filter q_is_open (age_out qs)))"
proof (induction qs rule: age_out.induct)
  case (1 qs)
  show ?case
  proof (cases "length qs > MAX_QUESTIONS")
    case True
    have "distinct (map aq_ticket (filter q_is_open
        (case find (\<lambda>q. \<not> q_is_open q) qs of
           Some _ \<Rightarrow> remove_first (\<lambda>q. \<not> q_is_open q) qs | None \<Rightarrow> tl qs)))"
      using "1.prems" distinct_filter_tl [OF "1.prems"]
      by (auto simp: remove_first_filter split: option.split)
    with True "1.IH" show ?thesis by (simp add: age_out.simps [of qs])
  next
    case False
    with "1.prems" show ?thesis by (simp add: age_out_id)
  qed
qed

lemma ask_result:
  assumes "ask_question now t f d b s = (ok, s')"
  obtains (refused) "ok = False" "s' = s"
  | (asked) q where "ok = True" "s' = s\<lparr>so_questions := age_out (so_questions s @ [q])\<rparr>"
      "aq_ticket q = t" "q_is_open q" "aq_body q = take 600 (trim b)" "aq_to q = d" "aq_from q = f"
      "open_question t s = None"
  using assms by (auto simp: ask_question_def Let_def q_is_open_def split: if_splits)

lemma ask_ok: "questions_ok s \<Longrightarrow> questions_ok (snd (ask_question now t f d b s))"
proof -
  assume ok: "questions_ok s"
  obtain r s' where ask: "ask_question now t f d b s = (r, s')" by fastforce
  from ask have "questions_ok s'"
  proof (cases rule: ask_result)
    case refused
    with ok show ?thesis by simp
  next
    case (asked q)
    then have "t \<notin> aq_ticket ` set (open_of s)"
      by (auto simp: open_question_def open_of_def find_None_all)
    then have "distinct (map aq_ticket (filter q_is_open (so_questions s @ [q])))"
      using ok asked(3) by (auto simp: questions_ok_def open_of_def)
    from age_out_open [OF this] show ?thesis
      using asked(2) by (simp add: questions_ok_def open_of_def age_out_bound)
  qed
  then show ?thesis by (simp add: ask)
qed

lemma update_open_sub:
  assumes "\<And>q. p q \<Longrightarrow> q_is_open (f q) \<Longrightarrow> q_is_open q \<and> aq_ticket (f q) = aq_ticket q"
    and "distinct (map aq_ticket (filter q_is_open qs))"
  shows "distinct (map aq_ticket (filter q_is_open (update_first p f qs)))
    \<and> aq_ticket ` set (filter q_is_open (update_first p f qs)) \<subseteq> aq_ticket ` set (filter q_is_open qs)"
  using assms
proof (induction qs)
  case (Cons q qs)
  show ?case
  proof (cases "p q")
    case True
    with Cons.prems(1) [of q] Cons.prems(2) show ?thesis by auto
  next
    case False
    with Cons show ?thesis by (auto split: if_splits)
  qed
qed simp

lemma forward_ok: "questions_ok s \<Longrightarrow> questions_ok (snd (forward_question i d s))"
  using update_open_sub [of "\<lambda>q. aq_id q = i" "\<lambda>q. q\<lparr>aq_to := d, aq_forwarded := True\<rparr>" "so_questions s"]
  by (auto simp: forward_question_def questions_ok_def open_of_def q_is_open_def split: option.split)

lemma answer_ok: "questions_ok s \<Longrightarrow> questions_ok (snd (answer_question now i a s))"
  using update_open_sub [of "\<lambda>q. aq_id q = i"
      "\<lambda>q. q\<lparr>aq_answer := take 1500 (trim a), aq_answered_at := now\<rparr>" "so_questions s"]
    not_blank_take_trim [of a 1500]
  by (auto simp: answer_question_def questions_ok_def open_of_def q_is_open_def split: option.split)

inductive question_step :: "social \<Rightarrow> social \<Rightarrow> bool" where
  step_ask: "question_step s (snd (ask_question now t f d b s))"
| step_forward: "question_step s (snd (forward_question i d s))"
| step_answer: "question_step s (snd (answer_question now i a s))"

interpretation question_sys: invariant_system "\<lambda>s. s = social_default" question_step questions_ok
proof
  show "s = social_default \<Longrightarrow> questions_ok s" for s
    by (simp add: questions_ok_def social_default_def open_of_def)
  show "questions_ok t" if "questions_ok s" and "question_step s t" for s t
    using that(2,1) by cases (auto intro: ask_ok forward_ok answer_ok)
qed

section \<open>What an ask and a forward guarantee\<close>

lemma ask_keeps_open:
  assumes ok: "questions_ok s" and ask: "ask_question now t f d b s = (True, s')"
    and q: "q \<in> set (open_of s)"
    and spare: "length (so_questions s) < MAX_QUESTIONS \<or> (\<exists>x \<in> set (so_questions s). \<not> q_is_open x)"
  shows "q \<in> set (open_of s')"
proof -
  obtain x where x: "so_questions s' = age_out (so_questions s @ [x])"
    using ask by (cases rule: ask_result) auto
  have "length (so_questions s) \<le> MAX_QUESTIONS" using ok by (simp add: questions_ok_def)
  then have "so_questions s' = so_questions s @ [x]
      \<or> so_questions s' = remove_first (\<lambda>q. \<not> q_is_open q) (so_questions s @ [x])"
    using spare age_out_push [of "so_questions s" x] x by auto
  then show ?thesis using q by (auto simp: open_of_def intro!: remove_first_keeps)
qed

lemma find_via_filter: "find p xs = (case filter p xs of [] \<Rightarrow> None | x # _ \<Rightarrow> Some x)"
  by (induction xs) auto

lemma age_out_newest:
  assumes len: "length qs \<le> MAX_QUESTIONS" and none: "filter p qs = []"
    and x: "p x" and op: "\<And>q. p q \<Longrightarrow> q_is_open q"
  shows "filter p (age_out (qs @ [x])) = [x]"
proof -
  have "filter p (remove_first (\<lambda>q. \<not> q_is_open q) (qs @ [x])) = [x]"
    using none x op by (subst remove_first_filter) auto
  moreover have "filter p (tl (qs @ [x])) = [x]" if "qs \<noteq> []"
    using none x that by (cases qs) (auto split: if_splits)
  moreover have "\<not> length qs < MAX_QUESTIONS \<Longrightarrow> qs \<noteq> []" by (auto simp: MAX_QUESTIONS_def)
  ultimately show ?thesis using none x by (auto simp: age_out_push [OF len])
qed

lemma ask_opens:
  assumes ok: "questions_ok s" and ask: "ask_question now t f d b s = (True, s')"
  shows "\<exists>q. open_question t s' = Some q \<and> aq_body q = take 600 (trim b) \<and> aq_to q = d \<and> aq_from q = f"
  using ask
proof (cases rule: ask_result)
  case (asked x)
  let ?p = "\<lambda>q. aq_ticket q = t \<and> q_is_open q"
  have "filter ?p (so_questions s) = []"
    using asked(8) by (simp add: open_question_def find_None_all filter_empty_conv)
  then have "filter ?p (age_out (so_questions s @ [x])) = [x]"
    using ok asked(3,4) by (intro age_out_newest) (auto simp: questions_ok_def)
  then show ?thesis
    using asked by (simp add: open_question_def find_via_filter)
qed simp

section \<open>Colliding ids\<close>

text \<open>
  The id of a question counts the questions of its ticket still in the log, so it repeats once
  an older one has aged out. The lemmas follow an ask, its answer and the next ask on a full
  log whose oldest answered question belongs to the same ticket.
\<close>

definition next_id :: "string \<Rightarrow> social \<Rightarrow> string" where
  "next_id t s = (if t = [] then ''open'' else t) @ ''#''
     @ nat_str (length (filter (\<lambda>q. aq_ticket q = t) (so_questions s)) + 1)"

lemma ask_id:
  assumes "ask_question now t f d b s = (True, s')"
  obtains q where "so_questions s' = age_out (so_questions s @ [q])" "aq_id q = next_id t s"
    "aq_ticket q = t" "q_is_open q" "open_question t s = None"
  using assms
  by (auto simp: ask_question_def Let_def q_is_open_def next_id_def split: if_splits)

abbreviation closed_q :: "agent_question \<Rightarrow> bool" where
  "closed_q q \<equiv> \<not> q_is_open q"

lemma remove_first_append: "\<exists>x \<in> set xs. p x \<Longrightarrow> remove_first p (xs @ ys) = remove_first p xs @ ys"
  by (induction xs) auto

lemma filter_remove_first: "filter p (remove_first p xs) = tl (filter p xs)"
  by (induction xs) auto

lemma count_remove_first:
  "find p xs = Some x \<Longrightarrow> q x \<Longrightarrow>
   Suc (length (filter q (remove_first p xs))) = length (filter q xs)"
  by (induction xs) (auto split: if_splits)

lemma push_full:
  assumes "length qs = MAX_QUESTIONS" and "\<exists>x \<in> set qs. closed_q x"
  shows "age_out (qs @ [q]) = remove_first closed_q qs @ [q]"
  using assms age_out_push [of qs q] by (auto simp: remove_first_append)

lemma update_first_append_last:
  "\<forall>x \<in> set xs. \<not> p x \<Longrightarrow> p y \<Longrightarrow> update_first p f (xs @ y # ys) = xs @ f y # ys"
  by (induction xs) auto

lemma find_append_last: "\<forall>x \<in> set xs. \<not> p x \<Longrightarrow> p y \<Longrightarrow> find p (xs @ y # ys) = Some y"
  by (induction xs) auto

lemma id_repeats:
  assumes full: "length (so_questions s) = MAX_QUESTIONS"
    and two: "filter closed_q (so_questions s) = x # y # rest" and x: "aq_ticket x = t"
    and fresh: "next_id t s \<notin> aq_id ` set (so_questions s)"
    and ask1: "ask_question n1 t f1 d1 b1 s = (True, s1)"
    and ans1: "answer_question n2 (next_id t s) a1 s1 = (True, s2)"
    and ask2: "ask_question n3 t f2 d2 b2 s2 = (True, s3)"
  shows "\<exists>q1 q2. so_questions s3 =
      remove_first closed_q (remove_first closed_q (so_questions s)) @ [q1, q2]
    \<and> aq_id q1 = next_id t s \<and> aq_id q2 = next_id t s \<and> aq_ticket q2 = t \<and> q_is_open q2"
proof -
  let ?qs = "so_questions s" and ?i = "next_id t s"
  let ?r = "remove_first closed_q ?qs"
  have fx: "find closed_q ?qs = Some x" by (simp add: find_via_filter two)
  have ex: "\<exists>x \<in> set ?qs. closed_q x" using find_Some_props [OF fx] by blast
  have fy: "filter closed_q ?r = y # rest" by (simp add: filter_remove_first two)
  then have ey: "\<exists>x \<in> set ?r. closed_q x" by (metis filter_False list.distinct(1))
  have rid: "\<forall>q \<in> set ?r. aq_id q \<noteq> ?i" using fresh set_remove_first [of closed_q ?qs] by (metis image_eqI subsetD)
  obtain q1 where s1: "so_questions s1 = ?r @ [q1]" and q1: "aq_id q1 = ?i" "aq_ticket q1 = t"
    using ask_id [OF ask1] push_full [OF full ex] by metis
  let ?q1 = "q1\<lparr>aq_answer := take 1500 (trim a1), aq_answered_at := n2\<rparr>"
  have s2: "so_questions s2 = ?r @ [?q1]" and a1: "\<not> is_blank a1"
    using ans1 s1 update_first_append_last [OF rid, of q1 _ "[]"] q1
    by (auto simp: answer_question_def split: if_splits option.splits)
  have "Suc (length (filter (\<lambda>q. aq_ticket q = t) ?r)) = length (filter (\<lambda>q. aq_ticket q = t) ?qs)"
    using fx x by (rule count_remove_first)
  then have id2: "next_id t s2 = ?i" using s2 q1 by (simp add: next_id_def)
  have "Suc (length ?r) = length ?qs" using fx by (intro remove_first_length) simp
  then have full2: "length (so_questions s2) = MAX_QUESTIONS" using s2 full by simp
  have "remove_first closed_q (?r @ [?q1]) = remove_first closed_q ?r @ [?q1]"
    using ey by (rule remove_first_append)
  moreover have "\<exists>x \<in> set (so_questions s2). closed_q x" using ey s2 by auto
  ultimately obtain q2 where s3: "so_questions s3 = remove_first closed_q ?r @ [?q1, q2]"
    and q2: "aq_id q2 = ?i" "aq_ticket q2 = t" "q_is_open q2"
    using ask_id [OF ask2] push_full [OF full2] s2 id2 by (metis append.assoc append_Cons append_Nil)
  have "aq_id ?q1 = ?i" using q1 by simp
  with s3 q2 show ?thesis by blast
qed

lemma answer_misses:
  assumes qs: "so_questions s = ys @ [q1, q2]" and "i \<notin> aq_id ` set ys" and "aq_id q1 = i"
    and "aq_ticket q2 = t" "q_is_open q2" and "\<not> is_blank a"
  shows "\<exists>s'. answer_question now i a s = (True, s') \<and> open_question t s' \<noteq> None"
proof -
  have ni: "\<forall>q \<in> set ys. aq_id q \<noteq> i" using assms(2) by auto
  have "find (\<lambda>q. aq_id q = i) (so_questions s) = Some q1"
    using find_append_last [OF ni, of q1 "[q2]"] assms(3) by (simp add: qs)
  moreover have "update_first (\<lambda>q. aq_id q = i) f (so_questions s) = ys @ [f q1, q2]" for f
    using update_first_append_last [OF ni, of q1 f "[q2]"] assms(3) by (simp add: qs)
  ultimately show ?thesis
    using assms(4-6) by (auto simp: answer_question_def open_question_def find_None_all)
qed

end
