(* ===== verification/Channels.thy ===== *)
theory Channels
  imports Social
begin

text \<open>
  Chat channels (\<open>state/chat.rs\<close>, \<open>state/mod.rs\<close>): slugs, who may see, invite, remove, and
  the operations that create and change channels. Every refusal is the error string the source
  returns. The lemmas show that a slug is in normal form, that refused calls change nothing, and
  the invariant of the channel list under every operation.
\<close>

section \<open>Slugs\<close>

fun slug_loop :: "string \<Rightarrow> bool \<Rightarrow> string \<Rightarrow> string" where
  "slug_loop out prev_dash [] = out"
| "slug_loop out prev_dash (c # cs) =
     (if is_ascii_alphanumeric c then slug_loop (out @ [ascii_lower c]) False cs
      else if \<not> prev_dash \<and> out \<noteq> [] then slug_loop (out @ ''-'') True cs
      else slug_loop out prev_dash cs)"

definition slugify :: "string \<Rightarrow> string" where
  "slugify name =
     rev (dropWhile (\<lambda>c. c = CHR ''-'') (rev (slug_loop [] False (trim name))))"

section \<open>Rights\<close>

definition is_general :: "channel \<Rightarrow> bool" where
  "is_general c \<longleftrightarrow> cn_id c = GENERAL_CHANNEL"

definition cn_is_open :: "channel \<Rightarrow> bool" where
  "cn_is_open c \<longleftrightarrow> cn_id c = GENERAL_CHANNEL \<or> cn_id c = AGENTS_CHANNEL"

definition can_view :: "channel \<Rightarrow> string \<Rightarrow> bool" where
  "can_view c user \<longleftrightarrow> cn_is_open c \<or> cn_owner c = user \<or> user \<in> set (cn_members c)"

definition can_invite :: "channel \<Rightarrow> string \<Rightarrow> bool" where
  "can_invite c user =
     (if cn_is_open c then True
      else if cn_owner c = user \<or> user \<in> set (cn_inviters c) then True
      else cn_open_invite c \<and> user \<in> set (cn_members c))"

definition can_kick :: "channel \<Rightarrow> string \<Rightarrow> bool" where
  "can_kick c user \<longleftrightarrow> \<not> cn_is_open c \<and> (cn_owner c = user \<or> user \<in> set (cn_inviters c))"

definition can_change_privacy :: "channel \<Rightarrow> bool" where
  "can_change_privacy c \<longleftrightarrow> cn_id c \<noteq> GENERAL_CHANNEL"

section \<open>Operations\<close>

definition system_channel :: "string \<Rightarrow> string \<Rightarrow> channel" where
  "system_channel i name =
     \<lparr>cn_id = i, cn_name = name, cn_owner = '''', cn_members = [], cn_inviters = [],
      cn_created_at = '''', cn_kind = ''general'', cn_project = '''', cn_topic = '''',
      cn_parent = '''', cn_open_invite = False\<rparr>"

definition general_channel_record :: channel where
  "general_channel_record = system_channel GENERAL_CHANNEL ''general''"

definition agents_channel_record :: channel where
  "agents_channel_record = system_channel AGENTS_CHANNEL ''agents''"

definition find_channel :: "string \<Rightarrow> social \<Rightarrow> channel option" where
  "find_channel i s = find (\<lambda>c. cn_id c = i) (so_channels s)"

definition channel_by_id :: "string \<Rightarrow> social \<Rightarrow> channel option" where
  "channel_by_id i s =
     (if i = GENERAL_CHANNEL then Some general_channel_record
      else if i = AGENTS_CHANNEL then Some agents_channel_record
      else find_channel i s)"

definition channels_for :: "string \<Rightarrow> social \<Rightarrow> channel list" where
  "channels_for user s =
     [general_channel_record, agents_channel_record]
     @ filter (\<lambda>c. can_view c user) (so_channels s)"

text \<open>\<open>iter_mut().find(..)\<close> on the channel list, then a write to the channel found.\<close>

definition update_channel :: "string \<Rightarrow> (channel \<Rightarrow> channel) \<Rightarrow> social \<Rightarrow> social" where
  "update_channel i f s = s\<lparr>so_channels := update_first (\<lambda>c. cn_id c = i) f (so_channels s)\<rparr>"

definition quoted :: "string \<Rightarrow> string" where
  "quoted w = CHR 0x27 # w @ [CHR 0x27]"

definition create_channel_with_kind ::
  "string \<Rightarrow> string \<Rightarrow> string \<Rightarrow> string \<Rightarrow> (social, string, channel) op" where
  "create_channel_with_kind now name owner kind s =
     (let i = slugify name in
      if i = [] then (Inl ''channel name must contain letters or numbers'', s)
      else if i = GENERAL_CHANNEL \<or> (\<exists>c \<in> set (so_channels s). cn_id c = i)
      then (Inl (''channel #'' @ i @ '' already exists''), s)
      else if kind \<noteq> ''private'' \<and> kind \<noteq> ''public''
      then (Inl (''kind must be '' @ quoted ''private'' @ '' or '' @ quoted ''public''), s)
      else
        let ch = \<lparr>cn_id = i, cn_name = trim name, cn_owner = owner, cn_members = [owner],
                  cn_inviters = [], cn_created_at = now, cn_kind = kind, cn_project = '''',
                  cn_topic = '''', cn_parent = '''', cn_open_invite = False\<rparr>
        in (Inr ch, s\<lparr>so_channels := so_channels s @ [ch]\<rparr>))"

definition create_channel :: "string \<Rightarrow> string \<Rightarrow> string \<Rightarrow> (social, string, channel) op" where
  "create_channel now name owner = create_channel_with_kind now name owner ''private''"

fun add_members :: "string list \<Rightarrow> string list \<Rightarrow> string list" where
  "add_members ms [] = ms"
| "add_members ms (x # xs) = add_members (if x \<in> set ms then ms else ms @ [x]) xs"

definition create_sub_channel ::
  "string \<Rightarrow> string \<Rightarrow> string \<Rightarrow> string \<Rightarrow> string \<Rightarrow> (social, string, channel) op" where
  "create_sub_channel now parent_id name owner kind s =
     (case find_channel parent_id s of
        None \<Rightarrow> (Inl (''no channel '' @ parent_id), s)
      | Some parent \<Rightarrow>
          if \<not> can_view parent owner then (Inl ''you are not in that channel'', s)
          else and_then (create_channel_with_kind now name owner kind)
            (\<lambda>ch s. case find_channel (cn_id ch) s of
                None \<Rightarrow> (Inl ''channel vanished'', s)
              | Some created \<Rightarrow>
                  let f = (\<lambda>c. c\<lparr>cn_parent := parent_id,
                                 cn_members := add_members (cn_members c) (cn_members parent)\<rparr>)
                  in (Inr (f created), update_channel (cn_id ch) f s)) s)"

definition update_channel_settings ::
  "string \<Rightarrow> string option \<Rightarrow> bool option \<Rightarrow> string option \<Rightarrow> (social, string, channel) op" where
  "update_channel_settings i kind open_invite topic s =
     (case find_channel i s of
        None \<Rightarrow> (Inl (''no channel '' @ i), s)
      | Some ch \<Rightarrow>
          (case kind of
             Some k \<Rightarrow>
               if \<not> can_change_privacy ch then (Inl ''#general cannot be made private'', s)
               else if k \<notin> {''private'', ''public''} then (Inl (''unknown channel kind '' @ k), s)
               else
                 let f = (\<lambda>c. c\<lparr>cn_kind := k,
                      cn_open_invite := (case open_invite of Some b \<Rightarrow> b | None \<Rightarrow> cn_open_invite c),
                      cn_topic := (case topic of Some t \<Rightarrow> take 200 (trim t) | None \<Rightarrow> cn_topic c)\<rparr>)
                 in (Inr (f ch), update_channel i f s)
           | None \<Rightarrow>
               let f = (\<lambda>c. c\<lparr>
                    cn_open_invite := (case open_invite of Some b \<Rightarrow> b | None \<Rightarrow> cn_open_invite c),
                    cn_topic := (case topic of Some t \<Rightarrow> take 200 (trim t) | None \<Rightarrow> cn_topic c)\<rparr>)
               in (Inr (f ch), update_channel i f s)))"

definition remove_channel_member :: "string \<Rightarrow> string \<Rightarrow> (social, string, channel) op" where
  "remove_channel_member i user s =
     (case find_channel i s of
        None \<Rightarrow> (Inl (''no channel '' @ i), s)
      | Some ch \<Rightarrow>
          if cn_owner ch = user
          then (Inl ''the owner cannot be removed from their own channel'', s)
          else
            let f = (\<lambda>c. c\<lparr>cn_members := filter (\<lambda>m. m \<noteq> user) (cn_members c),
                           cn_inviters := filter (\<lambda>m. m \<noteq> user) (cn_inviters c)\<rparr>)
            in (Inr (f ch), update_channel i f s))"

definition push_new :: "string \<Rightarrow> string list \<Rightarrow> string list" where
  "push_new u us = (if u \<in> set us then us else us @ [u])"

definition invite_to_channel :: "string \<Rightarrow> string \<Rightarrow> string \<Rightarrow> (social, string, unit) op" where
  "invite_to_channel i actor invitee s =
     (case find_channel i s of
        None \<Rightarrow> (Inl ''channel not found'', s)
      | Some ch \<Rightarrow>
          if \<not> can_invite ch actor
          then (Inl ''you don't have permission to invite to this channel'', s)
          else if trim invitee = [] then (Inl ''no user to invite'', s)
          else (Inr (), update_channel i
                  (\<lambda>c. if cn_owner c \<noteq> trim invitee
                       then c\<lparr>cn_members := push_new (trim invitee) (cn_members c)\<rparr> else c) s))"

definition delegate_invite :: "string \<Rightarrow> string \<Rightarrow> string \<Rightarrow> (social, string, unit) op" where
  "delegate_invite i actor grantee s =
     (case find_channel i s of
        None \<Rightarrow> (Inl ''channel not found'', s)
      | Some ch \<Rightarrow>
          if cn_owner ch \<noteq> actor
          then (Inl ''only the channel owner can delegate invite permission'', s)
          else if trim grantee = [] then (Inl ''no user to delegate to'', s)
          else (Inr (), update_channel i
                  (\<lambda>c. c\<lparr>cn_members := push_new (trim grantee) (cn_members c),
                         cn_inviters := push_new (trim grantee) (cn_inviters c)\<rparr>) s))"

section \<open>Slugs are in normal form\<close>

definition slug_char :: "char \<Rightarrow> bool" where
  "slug_char c \<longleftrightarrow> c = CHR ''-'' \<or> (is_ascii_alphanumeric c \<and> ascii_lower c = c)"

definition slug_body :: "string \<Rightarrow> bool" where
  "slug_body s \<longleftrightarrow>
     list_all slug_char s \<and> successively (\<lambda>a b. \<not> (a = CHR ''-'' \<and> b = CHR ''-'')) s
     \<and> (s \<noteq> [] \<longrightarrow> hd s \<noteq> CHR ''-'')"

definition slug_ok :: "string \<Rightarrow> bool" where
  "slug_ok s \<longleftrightarrow> slug_body s \<and> (s \<noteq> [] \<longrightarrow> last s \<noteq> CHR ''-'')"

lemma ascii_lower_props:
  assumes "is_ascii_alphanumeric c"
  shows "is_ascii_alphanumeric (ascii_lower c)" "ascii_lower (ascii_lower c) = ascii_lower c"
    "ascii_lower c \<noteq> CHR ''-''"
proof -
  have lt: "n < 256 \<Longrightarrow> of_char (char_of n :: char) = n" for n :: nat by simp
  show "is_ascii_alphanumeric (ascii_lower c)" "ascii_lower (ascii_lower c) = ascii_lower c"
    using assms by (auto simp: is_ascii_alphanumeric_def ascii_lower_def Let_def lt)
  have "of_char (ascii_lower c) \<noteq> (45 :: nat)"
    using assms by (auto simp: is_ascii_alphanumeric_def ascii_lower_def Let_def lt)
  then show "ascii_lower c \<noteq> CHR ''-''" by auto
qed

lemma slug_body_snoc:
  "slug_body s \<Longrightarrow> slug_char c \<Longrightarrow> (c = CHR ''-'' \<Longrightarrow> s \<noteq> [] \<and> last s \<noteq> CHR ''-'') \<Longrightarrow> slug_body (s @ [c])"
  by (cases s) (auto simp: slug_body_def successively_append_iff successively_Cons split: if_splits)

lemma slug_loop_body:
  "slug_body out \<Longrightarrow> (\<not> d \<and> out \<noteq> [] \<Longrightarrow> last out \<noteq> CHR ''-'') \<Longrightarrow> slug_body (slug_loop out d cs)"
proof (induction out d cs rule: slug_loop.induct)
  case (2 out d c cs)
  consider "is_ascii_alphanumeric c" | "\<not> is_ascii_alphanumeric c" "\<not> d \<and> out \<noteq> []"
    | "\<not> is_ascii_alphanumeric c" "\<not> (\<not> d \<and> out \<noteq> [])" by blast
  then show ?case
  proof cases
    case 1
    have "slug_body (out @ [ascii_lower c])"
      using "2.prems"(1) ascii_lower_props [OF 1] by (intro slug_body_snoc) (auto simp: slug_char_def)
    then show ?thesis using 1 "2.IH"(1) ascii_lower_props [OF 1] by simp
  next
    case 2
    have "slug_body (out @ ''-'')"
      using "2.prems" 2 by (intro slug_body_snoc) (auto simp: slug_char_def)
    then show ?thesis using 2 "2.IH"(2) by simp
  next
    case 3
    then show ?thesis using "2.IH"(3) "2.prems" by auto
  qed
qed simp

lemma slug_body_prefix: "slug_body (xs @ ys) \<Longrightarrow> slug_body xs"
proof -
  assume b: "slug_body (xs @ ys)"
  then have "xs \<noteq> [] \<longrightarrow> hd xs \<noteq> CHR ''-''" by (cases xs) (auto simp: slug_body_def)
  with b show ?thesis by (simp add: slug_body_def successively_append_iff)
qed

lemma strip_ok:
  assumes "slug_body s"
  shows "slug_ok (rev (dropWhile (\<lambda>c. c = CHR ''-'') (rev s)))"
proof -
  let ?d = "dropWhile (\<lambda>c. c = CHR ''-'') (rev s)"
  have "s = rev ?d @ rev (takeWhile (\<lambda>c. c = CHR ''-'') (rev s))"
    by (metis rev_append rev_rev_ident takeWhile_dropWhile_id)
  then have "slug_body (rev ?d)" using assms slug_body_prefix by metis
  moreover have "?d \<noteq> [] \<Longrightarrow> last (rev ?d) \<noteq> CHR ''-''"
    using hd_dropWhile [of "\<lambda>c. c = CHR ''-''" "rev s"] by (simp add: last_rev)
  ultimately show ?thesis by (simp add: slug_ok_def)
qed

lemma slugify_ok: "slug_ok (slugify name)"
  unfolding slugify_def by (intro strip_ok slug_loop_body) (simp_all add: slug_body_def)

lemma slug_loop_fixed:
  "list_all slug_char cs \<Longrightarrow> successively (\<lambda>a b. \<not> (a = CHR ''-'' \<and> b = CHR ''-'')) cs \<Longrightarrow>
   (d \<longrightarrow> cs \<noteq> [] \<longrightarrow> hd cs \<noteq> CHR ''-'') \<Longrightarrow> (out = [] \<longrightarrow> cs \<noteq> [] \<longrightarrow> hd cs \<noteq> CHR ''-'') \<Longrightarrow>
   slug_loop out d cs = out @ cs"
proof (induction cs arbitrary: out d)
  case (Cons c cs)
  show ?case
  proof (cases "c = CHR ''-''")
    case True
    then have "\<not> is_ascii_alphanumeric c" by (simp add: is_ascii_alphanumeric_def)
    moreover have "cs \<noteq> [] \<longrightarrow> hd cs \<noteq> CHR ''-''"
      using Cons.prems(2) True by (cases cs) auto
    ultimately show ?thesis using True Cons.prems Cons.IH [of True "out @ ''-''"]
      by (auto simp: successively_Cons)
  next
    case False
    then have "is_ascii_alphanumeric c" "ascii_lower c = c"
      using Cons.prems(1) by (auto simp: slug_char_def)
    then show ?thesis using Cons.prems Cons.IH [of False "out @ [c]"]
      by (auto simp: successively_Cons)
  qed
qed simp

lemma slug_char_not_white: "slug_char c \<Longrightarrow> \<not> is_white c"
  by (auto simp: slug_char_def is_ascii_alphanumeric_def is_white_def Let_def)

lemma trim_no_white: "list_all (\<lambda>c. \<not> is_white c) s \<Longrightarrow> trim s = s"
proof -
  assume "list_all (\<lambda>c. \<not> is_white c) s"
  then have no: "\<forall>c \<in> set s. \<not> is_white c" by (simp add: list_all_iff)
  then have "dropWhile is_white s = s" by (cases s) auto
  moreover have "dropWhile is_white (rev s) = rev s" using no by (cases "rev s") (auto simp: rev_eq_Cons_iff)
  ultimately show ?thesis by (simp add: trim_def)
qed

lemma slugify_fixed: "slug_ok s \<Longrightarrow> slugify s = s"
proof -
  assume s: "slug_ok s"
  then have "list_all (\<lambda>c. \<not> is_white c) s"
    by (auto simp: slug_ok_def slug_body_def list_all_iff slug_char_not_white)
  then have "trim s = s" by (rule trim_no_white)
  moreover have "slug_loop [] False s = s"
    using s slug_loop_fixed [of s False "[]"] by (auto simp: slug_ok_def slug_body_def)
  moreover have "dropWhile (\<lambda>c. c = CHR ''-'') (rev s) = rev s"
    using s by (auto simp: slug_ok_def dropWhile_eq_self_iff hd_rev)
  ultimately show ?thesis by (simp add: slugify_def)
qed

section \<open>The channel list\<close>

definition channel_ok :: "channel \<Rightarrow> bool" where
  "channel_ok c \<longleftrightarrow>
     cn_id c \<noteq> [] \<and> slug_ok (cn_id c) \<and> cn_id c \<noteq> GENERAL_CHANNEL
     \<and> cn_owner c \<in> set (cn_members c) \<and> distinct (cn_members c)
     \<and> set (cn_inviters c) \<subseteq> set (cn_members c) \<and> cn_kind c \<in> {''private'', ''public''}"

definition channels_ok :: "social \<Rightarrow> bool" where
  "channels_ok s \<longleftrightarrow>
     distinct (map cn_id (so_channels s)) \<and> (\<forall>c \<in> set (so_channels s). channel_ok c)"

lemma push_new_props [simp]:
  "set (push_new u us) = insert u (set us)" "distinct us \<Longrightarrow> distinct (push_new u us)"
  by (auto simp: push_new_def)

lemma add_members_props:
  "set (add_members ms xs) = set ms \<union> set xs"
  "distinct ms \<Longrightarrow> distinct (add_members ms xs)"
proof (induction ms xs rule: add_members.induct)
  case (2 ms x xs)
  { case 1 show ?case using "2.IH"(1) by auto }
  { case 2 then show ?case using "2.IH"(2) by auto }
qed auto

lemma find_channel_Some: "find_channel i s = Some c \<Longrightarrow> c \<in> set (so_channels s) \<and> cn_id c = i"
  unfolding find_channel_def by (drule find_Some_props) simp

lemma update_channel_ok:
  assumes "channels_ok s" and "\<And>c. cn_id (f c) = cn_id c"
    and "\<And>c. c \<in> set (so_channels s) \<Longrightarrow> cn_id c = i \<Longrightarrow> channel_ok c \<Longrightarrow> channel_ok (f c)"
  shows "channels_ok (update_channel i f s)"
proof -
  have "\<forall>c \<in> set (update_first (\<lambda>c. cn_id c = i) f (so_channels s)). channel_ok c"
    using assms(1,3) set_update_first [of "\<lambda>c. cn_id c = i" f "so_channels s"]
    by (auto simp: channels_ok_def)
  then show ?thesis using assms(1,2) by (simp add: channels_ok_def update_channel_def)
qed

lemma find_update_channel:
  assumes "find_channel i s = Some c" and "cn_id (f c) = i"
  shows "find_channel i (update_channel i f s) = Some (f c)"
  using assms find_update_first_same [of "\<lambda>c. cn_id c = i" "so_channels s" c f]
  by (simp add: find_channel_def update_channel_def)

lemma find_update_channel_other:
  assumes "j \<noteq> i" and "\<And>c. cn_id (f c) = cn_id c"
  shows "find_channel j (update_channel i f s) = find_channel j s"
  unfolding find_channel_def update_channel_def
  using assms by (simp, intro find_update_first_other) auto

lemma atomic_create: "atomic (create_channel_with_kind now name owner kind)"
  by (rule atomicI) (auto simp: create_channel_with_kind_def Let_def split: if_splits)

lemma create_facts:
  assumes "create_channel_with_kind now name owner kind s = (Inr ch, s')"
  shows "s' = s\<lparr>so_channels := so_channels s @ [ch]\<rparr>" "cn_id ch = slugify name"
    "cn_owner ch = owner" "cn_members ch = [owner]" "cn_kind ch = kind" "cn_inviters ch = []"
    "slugify name \<noteq> []" "slugify name \<noteq> GENERAL_CHANNEL" "kind \<in> {''private'', ''public''}"
    "slugify name \<notin> cn_id ` set (so_channels s)"
  using assms by (auto simp: create_channel_with_kind_def Let_def split: if_splits)

lemma create_ok:
  assumes "channels_ok s" and "create_channel_with_kind now name owner kind s = (Inr ch, s')"
  shows "channels_ok s'" "find_channel (cn_id ch) s' = Some ch"
proof -
  note f = create_facts [OF assms(2)]
  have "channel_ok ch" using f slugify_ok [of name] by (auto simp: channel_ok_def)
  then show "channels_ok s'" using assms(1) f by (auto simp: channels_ok_def)
  have "find (\<lambda>c. cn_id c = cn_id ch) (so_channels s) = None" using f(2,10) by (simp add: find_None_all) (metis image_eqI)
  moreover have "find p (xs @ [y]) = (case find p xs of None \<Rightarrow> if p y then Some y else None | Some x \<Rightarrow> Some x)"
    for p :: "channel \<Rightarrow> bool" and xs y by (induction xs) auto
  ultimately show "find_channel (cn_id ch) s' = Some ch" using f(1) by (simp add: find_channel_def)
qed

lemma sub_channel_facts:
  assumes "create_sub_channel now p name owner kind s = (Inr ch, s')" and "channels_ok s"
  obtains parent s1 c where "find_channel p s = Some parent" "can_view parent owner"
    "create_channel_with_kind now name owner kind s = (Inr c, s1)"
    "ch = c\<lparr>cn_parent := p, cn_members := add_members (cn_members c) (cn_members parent)\<rparr>"
    "s' = update_channel (cn_id c) (\<lambda>c. c\<lparr>cn_parent := p,
        cn_members := add_members (cn_members c) (cn_members parent)\<rparr>) s1"
proof -
  obtain parent where p: "find_channel p s = Some parent" "can_view parent owner"
    using assms(1) by (auto simp: create_sub_channel_def split: option.splits if_splits)
  obtain r s1 where c: "create_channel_with_kind now name owner kind s = (r, s1)" by fastforce
  from assms(1) p c obtain x where r: "r = Inr x"
    by (cases r) (auto simp: create_sub_channel_def and_then_def)
  have "find_channel (cn_id x) s1 = Some x" using create_ok(2) [OF assms(2)] c r by simp
  with assms(1) p c r that show ?thesis
    by (auto simp: create_sub_channel_def and_then_def Let_def)
qed

lemma create_sub_ok:
  assumes ok: "channels_ok s" and run: "create_sub_channel now p name owner kind s = (Inr ch, s')"
  shows "channels_ok s'"
  using run ok
proof (cases rule: sub_channel_facts)
  case (1 parent s1 c)
  have "channels_ok s1" using create_ok(1) [OF ok 1(3)] .
  then show ?thesis
    unfolding 1(5) by (rule update_channel_ok) (auto simp: channel_ok_def add_members_props)
qed

lemma settings_ok:
  "channels_ok s \<Longrightarrow> update_channel_settings i k oi tp s = (Inr ch, s') \<Longrightarrow> channels_ok s'"
  by (auto simp: update_channel_settings_def Let_def channel_ok_def
      intro!: update_channel_ok split: option.splits if_splits)

lemma remove_member_ok:
  assumes ok: "channels_ok s" and run: "remove_channel_member i u s = (Inr ch, s')"
  shows "channels_ok s'"
proof -
  obtain c where c: "find_channel i s = Some c" "cn_owner c \<noteq> u"
    and s': "s' = update_channel i (\<lambda>c. c\<lparr>cn_members := filter (\<lambda>m. m \<noteq> u) (cn_members c),
        cn_inviters := filter (\<lambda>m. m \<noteq> u) (cn_inviters c)\<rparr>) s"
    using run by (auto simp: remove_channel_member_def Let_def split: option.splits if_splits)
  have uniq: "c' = c" if "c' \<in> set (so_channels s)" "cn_id c' = i" for c'
    using that ok find_channel_Some [OF c(1)] by (auto simp: channels_ok_def distinct_map inj_on_def)
  show ?thesis
    unfolding s' using ok
  proof (rule update_channel_ok)
    fix c' assume "c' \<in> set (so_channels s)" "cn_id c' = i" "channel_ok c'"
    then have "cn_owner c' \<noteq> u" using uniq c(2) by blast
    with \<open>channel_ok c'\<close> show "channel_ok (c'\<lparr>cn_members := filter (\<lambda>m. m \<noteq> u) (cn_members c'),
        cn_inviters := filter (\<lambda>m. m \<noteq> u) (cn_inviters c')\<rparr>)"
      by (auto simp: channel_ok_def)
  qed simp
qed

lemma invite_ok:
  "channels_ok s \<Longrightarrow> invite_to_channel i a u s = (Inr (), s') \<Longrightarrow> channels_ok s'"
  by (auto simp: invite_to_channel_def channel_ok_def
      intro!: update_channel_ok split: option.splits if_splits)

lemma delegate_ok:
  "channels_ok s \<Longrightarrow> delegate_invite i a u s = (Inr (), s') \<Longrightarrow> channels_ok s'"
  by (auto simp: delegate_invite_def channel_ok_def
      intro!: update_channel_ok split: option.splits if_splits)

text \<open>A refused call leaves the shard as it was.\<close>

lemma atomic_channel_ops:
  "atomic (update_channel_settings i k oi tp)" "atomic (remove_channel_member i u)"
  "atomic (invite_to_channel i a u)" "atomic (delegate_invite i a u)"
  by (rule atomicI; auto simp: update_channel_settings_def remove_channel_member_def
      invite_to_channel_def delegate_invite_def Let_def split: option.splits if_splits)+

inductive channel_step :: "social \<Rightarrow> social \<Rightarrow> bool" where
  step_create: "create_channel_with_kind now n ow k s = (Inr ch, s') \<Longrightarrow> channel_step s s'"
| step_sub: "create_sub_channel now p n ow k s = (Inr ch, s') \<Longrightarrow> channel_step s s'"
| step_settings: "update_channel_settings i kd oi tp s = (Inr ch, s') \<Longrightarrow> channel_step s s'"
| step_remove: "remove_channel_member i u s = (Inr ch, s') \<Longrightarrow> channel_step s s'"
| step_invite: "invite_to_channel i a u s = (Inr (), s') \<Longrightarrow> channel_step s s'"
| step_delegate: "delegate_invite i a u s = (Inr (), s') \<Longrightarrow> channel_step s s'"

interpretation channel_sys: invariant_system "\<lambda>s. so_channels s = []" channel_step channels_ok
proof
  show "so_channels s = [] \<Longrightarrow> channels_ok s" for s by (simp add: channels_ok_def)
  show "channels_ok t" if "channels_ok s" and "channel_step s t" for s t
    using that(2,1) by cases
      (auto intro: create_ok(1) create_sub_ok settings_ok remove_member_ok invite_ok delegate_ok)
qed

end
