(* ===== verification/Wiki.thy ===== *)
theory Wiki
  imports Channels Ticket
begin

text \<open>
  The wiki of a project (\<open>state/docs.rs\<close>, \<open>state/mod.rs\<close>): pages, folders, where a ticket's
  page belongs and the canonical directory of a folder on disk; and the list of team decisions.
  The lemmas show lookup after every write, that deleting a folder removes exactly its subtree,
  that re-filing is idempotent and that the directory of a folder is a canonical form.
\<close>

section \<open>Data\<close>

record design_system =
  ds_principles :: string
  ds_palette :: "string list"
  ds_typography :: string
  ds_components :: "string list"

definition is_populated :: "design_system \<Rightarrow> bool" where
  "is_populated d \<longleftrightarrow>
     ds_principles d \<noteq> [] \<or> ds_palette d \<noteq> [] \<or> ds_typography d \<noteq> [] \<or> ds_components d \<noteq> []"

record doc_page =
  dp_id :: string
  dp_folder :: string
  dp_category :: string
  dp_title :: string
  dp_body :: string
  dp_updated_at :: string
  dp_updated_by :: string

record wiki =
  wk_docs :: "doc_page list"
  wk_folders :: "string list"

section \<open>Where a page belongs\<close>

definition standard_doc_folder :: "ticket_type \<Rightarrow> string" where
  "standard_doc_folder k =
     (case k of Feature \<Rightarrow> ''Product'' | Chore \<Rightarrow> ''Engineering'' | Bug \<Rightarrow> ''Engineering'')"

definition ENGINEERING :: "string list" where
  "ENGINEERING =
     [''docker'', ''compose'', ''ci '', ''pipeline'', ''clippy'', ''lint'', ''sandbox'',
      ''seatbelt'', ''bwrap'', ''deploy gate'', ''health check'', ''rollback'', ''refactor'',
      ''migration'', ''schema'', ''runner'', ''cargo'', ''build fails'', ''compile'']"

definition doc_space_for :: "ticket_type \<Rightarrow> string \<Rightarrow> string \<Rightarrow> string" where
  "doc_space_for k title desc =
     (let txt = to_lowercase (title @ '' '' @ desc) in
      if \<exists>w \<in> set ENGINEERING. sublist w txt then ''Engineering''
      else (case k of Feature \<Rightarrow> ''Product'' | Chore \<Rightarrow> ''Engineering'' | Bug \<Rightarrow> ''Engineering''))"

definition is_slash :: "char \<Rightarrow> bool" where "is_slash c \<longleftrightarrow> c = CHR ''/''"

definition doc_category_of :: "string \<Rightarrow> string" where
  "doc_category_of folder =
     (let top = map ascii_lower (trim (hd (split_on is_slash folder))) in
      if top \<in> {''architecture'', ''technical'', ''engineering''} then ''technical''
      else if top \<in> {''design'', ''flows''} then ''flows''
      else if top \<in> {''qa'', ''testing'', ''test'', ''tests''} then ''qa''
      else if top \<in> {''operations'', ''ops'', ''release notes'', ''releases''} then ''ops''
      else if top \<in> {''product'', ''features''} then ''product''
      else ''general'')"

text \<open>\<open>slugify_segment\<close> is written out again in the source; it is the loop of \<open>slugify\<close>.\<close>

definition slugify_segment :: "string \<Rightarrow> string" where
  "slugify_segment segment =
     rev (dropWhile (\<lambda>c. c = CHR ''-'') (rev (slug_loop [] False (trim segment))))"

definition wiki_folder_path :: "string \<Rightarrow> string" where
  "wiki_folder_path folder =
     join ''/'' (filter (\<lambda>s. s \<noteq> []) (map slugify_segment (split_on is_slash folder)))"

section \<open>Pages\<close>

definition doc :: "string \<Rightarrow> wiki \<Rightarrow> doc_page option" where
  "doc i w = find (\<lambda>d. dp_id d = i) (wk_docs w)"

definition upsert_doc ::
  "string \<Rightarrow> string \<Rightarrow> string \<Rightarrow> string \<Rightarrow> string \<Rightarrow> string \<Rightarrow> string \<Rightarrow> string \<Rightarrow> wiki
   \<Rightarrow> doc_page \<times> wiki" where
  "upsert_doc mid now i folder category title body author w =
     (case doc i w of
        Some p \<Rightarrow>
          let f = (\<lambda>p. p\<lparr>dp_folder := folder, dp_category := category, dp_title := title,
                         dp_body := body, dp_updated_at := now, dp_updated_by := author\<rparr>)
          in (f p, w\<lparr>wk_docs := update_first (\<lambda>d. dp_id d = i) f (wk_docs w)\<rparr>)
      | None \<Rightarrow>
          let page = \<lparr>dp_id = (if i = [] then mid else i), dp_folder = folder,
                      dp_category = category, dp_title = title, dp_body = body,
                      dp_updated_at = now, dp_updated_by = author\<rparr>
          in (page, w\<lparr>wk_docs := wk_docs w @ [page]\<rparr>))"

definition remove_doc :: "string \<Rightarrow> wiki \<Rightarrow> bool \<times> wiki" where
  "remove_doc i w =
     (let ds = filter (\<lambda>d. dp_id d \<noteq> i) (wk_docs w)
      in (length ds \<noteq> length (wk_docs w), w\<lparr>wk_docs := ds\<rparr>))"

definition trim_slashes :: "string \<Rightarrow> string" where
  "trim_slashes s = rev (dropWhile is_slash (rev (dropWhile is_slash s)))"

definition move_doc :: "string \<Rightarrow> string \<Rightarrow> string \<Rightarrow> wiki \<Rightarrow> bool \<times> wiki" where
  "move_doc now i folder w =
     (case doc i w of
        Some _ \<Rightarrow>
          (True, w\<lparr>wk_docs := update_first (\<lambda>d. dp_id d = i)
             (\<lambda>p. p\<lparr>dp_folder := trim_slashes (trim folder), dp_updated_at := now\<rparr>) (wk_docs w)\<rparr>)
      | None \<Rightarrow> (False, w))"

section \<open>Folders\<close>

definition STANDARD_DOC_FOLDERS :: "string list" where
  "STANDARD_DOC_FOLDERS =
     [''Product'', ''Architecture'', ''Design'', ''Engineering'', ''QA'', ''Release Notes'',
      ''Operations'', ''Team'']"

definition add_doc_folder :: "string \<Rightarrow> wiki \<Rightarrow> wiki" where
  "add_doc_folder path w =
     (let path = trim_slashes (trim path) in
      if path \<noteq> [] \<and> path \<notin> set (wk_folders w)
      then w\<lparr>wk_folders := wk_folders w @ [path]\<rparr> else w)"

definition ensure_standard_folders :: "wiki \<Rightarrow> wiki" where
  "ensure_standard_folders w = fold add_doc_folder STANDARD_DOC_FOLDERS w"

definition under :: "string \<Rightarrow> string \<Rightarrow> bool" where
  "under path f \<longleftrightarrow> f = path \<or> prefix (path @ ''/'') f"

definition remove_doc_folder :: "string \<Rightarrow> wiki \<Rightarrow> string list \<times> wiki" where
  "remove_doc_folder path w =
     (let path = trim_slashes (trim path) in
      if path = [] then ([], w)
      else (map dp_id (filter (\<lambda>d. under path (dp_folder d)) (wk_docs w)),
            w\<lparr>wk_folders := filter (\<lambda>f. \<not> under path f) (wk_folders w),
              wk_docs := filter (\<lambda>d. \<not> under path (dp_folder d)) (wk_docs w)\<rparr>))"

definition doc_route :: "ticket list \<Rightarrow> doc_page \<Rightarrow> (string \<times> string) option" where
  "doc_route tickets d =
     (if prefix ''feat-'' (dp_id d) then
        (case ticket_id_new (drop 5 (dp_id d)) of
           Inl _ \<Rightarrow> None
         | Inr tid \<Rightarrow>
             map_option (\<lambda>t. (dp_id d, standard_doc_folder (tk_kind t)))
               (find (\<lambda>t. tk_id t = tid) tickets))
      else None)"

definition normalize_doc_folders :: "ticket list \<Rightarrow> wiki \<Rightarrow> wiki" where
  "normalize_doc_folders tickets w =
     fold (\<lambda>(i, folder) w. w\<lparr>wk_docs := update_first (\<lambda>d. dp_id d = i)
             (\<lambda>p. p\<lparr>dp_folder := folder\<rparr>) (wk_docs w)\<rparr>)
       (List.map_filter (doc_route tickets) (wk_docs w)) w"

section \<open>Decisions\<close>

definition add_decision :: "string \<Rightarrow> string list \<Rightarrow> string list" where
  "add_decision decision ds =
     (let d = trim (map (\<lambda>c. if c = CHR 0x0A then CHR '' '' else c) (trim decision)) in
      if d = [] \<or> d \<in> set ds then ds else keep_newest 20 (ds @ [d]))"

definition open_refactor_count :: "ticket list \<Rightarrow> nat" where
  "open_refactor_count ts =
     length (filter (\<lambda>t. prefix ''Refactor:'' (tk_title t)
       \<and> tk_status t \<notin> {Done, Documented}) ts)"

section \<open>Lemmas: pages\<close>

lemma find_snoc: "find p (xs @ [y]) =
    (case find p xs of None \<Rightarrow> if p y then Some y else None | Some x \<Rightarrow> Some x)"
  by (induction xs) auto

lemma upsert_doc_lookup:
  assumes "upsert_doc mid now i f c t b a w = (p, w')" and "doc mid w = None"
  shows "doc (dp_id p) w' = Some p \<and> dp_folder p = f \<and> dp_title p = t \<and> dp_body p = b
     \<and> dp_category p = c \<and> dp_updated_by p = a \<and> dp_updated_at p = now"
proof (cases "doc i w")
  case None
  have none: "doc (if i = [] then mid else i) w = None" using assms(2) None by simp
  have p: "p = \<lparr>dp_id = (if i = [] then mid else i), dp_folder = f, dp_category = c, dp_title = t,
      dp_body = b, dp_updated_at = now, dp_updated_by = a\<rparr>"
    and w': "w' = w\<lparr>wk_docs := wk_docs w @ [p]\<rparr>"
    using assms(1) None by (auto simp: upsert_doc_def Let_def)
  have "doc (dp_id p) w' = Some p"
    using none unfolding w' doc_def by (simp add: find_snoc p)
  then show ?thesis by (simp add: p)
next
  case (Some q)
  let ?f = "\<lambda>p. p\<lparr>dp_folder := f, dp_category := c, dp_title := t, dp_body := b,
      dp_updated_at := now, dp_updated_by := a\<rparr>"
  have q: "dp_id q = i"
    using Some find_Some_props [of "\<lambda>d. dp_id d = i" "wk_docs w" q] by (simp add: doc_def)
  then have "find (\<lambda>d. dp_id d = i) (update_first (\<lambda>d. dp_id d = i) ?f (wk_docs w)) = Some (?f q)"
    using Some by (intro find_update_first_same) (simp_all add: doc_def)
  then show ?thesis using assms(1) Some q by (auto simp: upsert_doc_def doc_def)
qed

lemma upsert_doc_other:
  assumes "upsert_doc mid now i f c t b a w = (p, w')" and "j \<noteq> dp_id p" and "j \<noteq> i"
  shows "doc j w' = doc j w"
proof (cases "doc i w")
  case None
  then show ?thesis using assms
    by (auto simp: upsert_doc_def doc_def Let_def find_snoc split: option.splits)
next
  case (Some q)
  then show ?thesis using assms unfolding upsert_doc_def doc_def
    by (auto intro!: find_update_first_other)
qed

lemma find_filter: "(\<And>x. q x \<Longrightarrow> p x) \<Longrightarrow> find q (filter p xs) = find q xs"
  by (induction xs) auto

lemma remove_doc_lookup: "doc j (snd (remove_doc i w)) = (if j = i then None else doc j w)"
  by (auto simp: remove_doc_def doc_def Let_def find_None_all find_filter)

section \<open>Lemmas: folders\<close>

lemma add_doc_folder_distinct: "distinct (wk_folders w) \<Longrightarrow> distinct (wk_folders (add_doc_folder p w))"
  by (simp add: add_doc_folder_def Let_def)

lemma add_doc_folder_set:
  "set (wk_folders (add_doc_folder p w)) =
     set (wk_folders w) \<union> (if trim_slashes (trim p) = [] then {} else {trim_slashes (trim p)})"
  by (auto simp: add_doc_folder_def Let_def)

lemma fold_add_folder:
  "set (wk_folders (fold add_doc_folder ps w)) =
     set (wk_folders w) \<union> ((\<lambda>p. trim_slashes (trim p)) ` set ps - {[]})"
  by (induction ps arbitrary: w) (auto simp: add_doc_folder_set)

lemma add_doc_folder_known:
  "trim_slashes (trim p) \<in> set (wk_folders w) \<Longrightarrow> add_doc_folder p w = w"
  by (simp add: add_doc_folder_def Let_def)

lemma fold_add_folder_id:
  "(\<forall>p \<in> set ps. trim_slashes (trim p) \<in> set (wk_folders w)) \<Longrightarrow> fold add_doc_folder ps w = w"
  by (induction ps) (auto simp: add_doc_folder_known)

lemma standard_normal: "p \<in> set STANDARD_DOC_FOLDERS \<Longrightarrow> trim_slashes (trim p) = p \<and> p \<noteq> []"
  by (auto simp: STANDARD_DOC_FOLDERS_def trim_def trim_slashes_def is_white_def is_slash_def Let_def)

lemma ensure_standard_set:
  "set (wk_folders (ensure_standard_folders w)) = set (wk_folders w) \<union> set STANDARD_DOC_FOLDERS"
  unfolding ensure_standard_folders_def fold_add_folder using standard_normal by force

lemma ensure_standard_idem: "ensure_standard_folders (ensure_standard_folders w) = ensure_standard_folders w"
proof -
  let ?w = "ensure_standard_folders w"
  have "\<forall>p \<in> set STANDARD_DOC_FOLDERS. trim_slashes (trim p) \<in> set (wk_folders ?w)"
    using ensure_standard_set [of w] standard_normal by simp
  then have "fold add_doc_folder STANDARD_DOC_FOLDERS ?w = ?w" by (rule fold_add_folder_id)
  then show ?thesis by (simp add: ensure_standard_folders_def)
qed

lemma remove_doc_folder_facts:
  assumes "remove_doc_folder path w = (gone, w')" and "trim_slashes (trim path) = q" and "q \<noteq> []"
  shows "wk_folders w' = filter (\<lambda>f. \<not> under q f) (wk_folders w)"
    "wk_docs w' = filter (\<lambda>d. \<not> under q (dp_folder d)) (wk_docs w)"
    "gone = map dp_id (filter (\<lambda>d. under q (dp_folder d)) (wk_docs w))"
  using assms by (auto simp: remove_doc_folder_def Let_def)

section \<open>Lemmas: re-filing\<close>

text \<open>Re-filing as one pass over the pages, and the loop of the source as that pass.\<close>

definition refile :: "ticket list \<Rightarrow> doc_page \<Rightarrow> doc_page" where
  "refile ts d = (case doc_route ts d of None \<Rightarrow> d | Some (_, f) \<Rightarrow> d\<lparr>dp_folder := f\<rparr>)"

lemma doc_route_id: "doc_route ts d = Some (i, f) \<Longrightarrow> i = dp_id d"
  by (auto simp: doc_route_def split: if_splits sum.splits)

lemma doc_route_folder [simp]: "doc_route ts (d\<lparr>dp_folder := f\<rparr>) = doc_route ts d"
  by (simp add: doc_route_def split: sum.split)

lemma refile_idem [simp]: "refile ts (refile ts d) = refile ts d"
  by (auto simp: refile_def split: option.split)

lemma update_first_unique_id:
  assumes "distinct (map dp_id (xs @ d # ys))"
  shows "update_first (\<lambda>e. dp_id e = dp_id d) f (xs @ d # ys) = xs @ f d # ys"
  using assms by (induction xs) auto

lemma refile_loop:
  assumes "distinct (map dp_id (ds1 @ ds2))"
  shows "wk_docs (fold (\<lambda>(i, folder) w. w\<lparr>wk_docs := update_first (\<lambda>d. dp_id d = i)
             (\<lambda>p. p\<lparr>dp_folder := folder\<rparr>) (wk_docs w)\<rparr>)
       (List.map_filter (doc_route ts) ds2) (w\<lparr>wk_docs := ds1 @ ds2\<rparr>)) = ds1 @ map (refile ts) ds2"
  using assms
proof (induction ds2 arbitrary: ds1)
  case (Cons d ds)
  show ?case
  proof (cases "doc_route ts d")
    case None
    then have "refile ts d = d" by (simp add: refile_def)
    then show ?thesis using Cons.IH [of "ds1 @ [d]"] Cons.prems None by (simp add: map_filter_simps)
  next
    case (Some r)
    obtain i f where r: "r = (i, f)" by fastforce
    have i: "i = dp_id d" using Some r doc_route_id by blast
    have re: "refile ts d = d\<lparr>dp_folder := f\<rparr>" using Some r by (simp add: refile_def)
    have "update_first (\<lambda>e. dp_id e = i) (\<lambda>p. p\<lparr>dp_folder := f\<rparr>) (ds1 @ d # ds)
        = (ds1 @ [d\<lparr>dp_folder := f\<rparr>]) @ ds"
      unfolding i using update_first_unique_id [OF Cons.prems] by simp
    moreover have "distinct (map dp_id ((ds1 @ [d\<lparr>dp_folder := f\<rparr>]) @ ds))" using Cons.prems by simp
    ultimately show ?thesis
      using Cons.IH [of "ds1 @ [d\<lparr>dp_folder := f\<rparr>]"] Some r re by (simp add: map_filter_simps)
  qed
qed (simp add: map_filter_simps)

lemma normalize_refile:
  assumes "distinct (map dp_id (wk_docs w))"
  shows "wk_docs (normalize_doc_folders ts w) = map (refile ts) (wk_docs w)"
  using refile_loop [of "[]" "wk_docs w" ts w] assms by (simp add: normalize_doc_folders_def)

section \<open>Lemmas: canonical directories\<close>

lemma split_on_ne [simp]: "split_on p s \<noteq> []"
  by (induction s) auto

lemma split_on_append_sep:
  "list_all (\<lambda>c. \<not> p c) x \<Longrightarrow> p c \<Longrightarrow> split_on p (x @ c # y) = x # split_on p y"
  by (induction x) auto

lemma split_on_none: "list_all (\<lambda>c. \<not> p c) x \<Longrightarrow> split_on p x = [x]"
  by (induction x) auto

lemma split_join:
  "xs \<noteq> [] \<Longrightarrow> \<forall>x \<in> set xs. list_all (\<lambda>c. \<not> is_slash c) x \<Longrightarrow> split_on is_slash (join ''/'' xs) = xs"
proof (induction "''/'' :: string" xs rule: join.induct)
  case (3 x y ys)
  then show ?case
    using split_on_append_sep [of is_slash x "CHR ''/''" "join ''/'' (y # ys)"]
    by (simp add: is_slash_def)
qed (auto simp: split_on_none)

lemma slugify_segment_slugify: "slugify_segment = slugify"
  by (simp add: fun_eq_iff slugify_segment_def slugify_def)

lemma slug_no_slash: "slug_ok s \<Longrightarrow> list_all (\<lambda>c. \<not> is_slash c) s"
proof -
  assume s: "slug_ok s"
  have "\<not> slug_char (CHR ''/'')" by (simp add: slug_char_def is_ascii_alphanumeric_def)
  then have "\<forall>c \<in> set s. \<not> is_slash c"
    using s unfolding slug_ok_def slug_body_def list_all_iff is_slash_def by blast
  then show ?thesis by (simp add: list_all_iff)
qed

text \<open>The segments of a canonical path are non-empty slugs.\<close>

definition segments :: "string \<Rightarrow> string list" where
  "segments folder = filter (\<lambda>s. s \<noteq> []) (map slugify (split_on is_slash folder))"

lemma wiki_path_segments: "wiki_folder_path f = join ''/'' (segments f)"
  by (simp add: wiki_folder_path_def segments_def slugify_segment_slugify)

lemma segments_ok: "s \<in> set (segments f) \<Longrightarrow> slug_ok s \<and> s \<noteq> []"
  by (auto simp: segments_def slugify_ok)

lemma segments_path: "segments (wiki_folder_path f) = segments f"
proof (cases "segments f = []")
  case True
  have "slugify [] = []" by (simp add: slugify_def)
  with True show ?thesis by (simp add: wiki_path_segments segments_def)
next
  case False
  have "split_on is_slash (join ''/'' (segments f)) = segments f"
    using False segments_ok slug_no_slash by (intro split_join) blast+
  moreover have "map slugify (segments f) = segments f"
    using segments_ok slugify_fixed by (intro map_idI) blast
  moreover have "filter (\<lambda>s. s \<noteq> []) (segments f) = segments f" by (simp add: segments_def)
  ultimately show ?thesis unfolding wiki_path_segments by (simp add: segments_def [of "join _ _"])
qed

lemma wiki_path_idem: "wiki_folder_path (wiki_folder_path f) = wiki_folder_path f"
  using segments_path by (simp add: wiki_path_segments)

text \<open>Paths that differ in letter case only share one directory.\<close>

lemma ascii_lower_alnum [simp]: "is_ascii_alphanumeric (ascii_lower c) = is_ascii_alphanumeric c"
  by (auto simp: is_ascii_alphanumeric_def ascii_lower_def Let_def)

lemma ascii_lower_white [simp]: "is_white (ascii_lower c) = is_white c"
  by (auto simp: is_white_def ascii_lower_def Let_def)

lemma is_slash_code: "is_slash d \<longleftrightarrow> of_char d = (47::nat)"
proof -
  have "of_char (CHR ''/'') = (47::nat)" by simp
  then show ?thesis unfolding is_slash_def by (metis char_of_char)
qed

lemma ascii_lower_slash [simp]: "is_slash (ascii_lower c) = is_slash c"
  by (auto simp: is_slash_code ascii_lower_def Let_def)

lemma trim_lower: "trim (map ascii_lower s) = map ascii_lower (trim s)"
  by (simp add: trim_def dropWhile_map comp_def rev_map)

lemma slug_loop_lower: "slug_loop out d (map ascii_lower cs) = slug_loop out d cs"
  by (induction cs arbitrary: out d) auto

lemma slugify_lower: "slugify (map ascii_lower s) = slugify s"
  by (simp add: slugify_def trim_lower slug_loop_lower)

lemma split_on_lower:
  "split_on is_slash (map ascii_lower s) = map (map ascii_lower) (split_on is_slash s)"
proof (induction s)
  case (Cons c s)
  then show ?case by (cases "split_on is_slash s") simp_all
qed simp

lemma wiki_path_lower: "wiki_folder_path (map ascii_lower f) = wiki_folder_path f"
  by (simp add: wiki_path_segments segments_def split_on_lower slugify_lower comp_def)

end
