(* ===== verification/Social_Properties.thy ===== *)
theory Social_Properties
  imports Questions Channels Wiki
begin

text \<open>The properties of questions, channels and the wiki.\<close>

section \<open>Questions\<close>

text \<open>
  Whatever agents ask, forward and answer, the question log holds at most forty questions
  and at most one open question per ticket.
\<close>

theorem questions_reachable:
  assumes "reach (\<lambda>s. s = social_default) question_step s"
  shows "length (so_questions s) \<le> 40 \<and> distinct (map aq_ticket (filter q_is_open (so_questions s)))"
  using question_sys.reach_inv [OF assms] by (simp add: questions_ok_def open_of_def MAX_QUESTIONS_def)

theorem questions_reachable_witness:
  "length (so_questions (snd (ask_question ''t'' ''A'' ''DEV'' ''BA'' ''why?'' social_default))) \<le> 40"
proof -
  have "reach (\<lambda>s. s = social_default) question_step
      (snd (ask_question ''t'' ''A'' ''DEV'' ''BA'' ''why?'' social_default))"
    by (rule reach_step [of _ _ social_default]) (auto intro: reach_init step_ask)
  from questions_reachable [OF this] show ?thesis by blast
qed

text \<open>
  An accepted question becomes the open question of its ticket, and no other open question
  is lost unless the log is full of open questions only.
\<close>

theorem ask_accepted:
  assumes "reach (\<lambda>s. s = social_default) question_step s"
    and "ask_question now t f d b s = (True, s')"
  shows "(\<exists>q. open_question t s' = Some q \<and> aq_body q = take 600 (trim b) \<and> aq_to q = d \<and> aq_from q = f)
    \<and> (length (so_questions s) < 40 \<or> (\<exists>x \<in> set (so_questions s). \<not> q_is_open x) \<longrightarrow>
        set (filter q_is_open (so_questions s)) \<subseteq> set (filter q_is_open (so_questions s')))"
proof -
  have ok: "questions_ok s" using assms(1) by (rule question_sys.reach_inv)
  show ?thesis
    using ask_opens [OF ok assms(2)] ask_keeps_open [OF ok assms(2)]
    unfolding open_of_def MAX_QUESTIONS_def by blast
qed

theorem ask_accepted_witness:
  "\<exists>s' q. ask_question ''t'' ''A'' ''DEV'' ''BA'' ''why?'' social_default = (True, s')
     \<and> open_question ''A'' s' = Some q"
proof -
  have r: "reach (\<lambda>s. s = social_default) question_step social_default" by (rule reach_init) simp
  have "fst (ask_question ''t'' ''A'' ''DEV'' ''BA'' ''why?'' social_default)"
    by (simp add: ask_question_def social_default_def open_question_def is_blank_def trim_def
        is_white_def Let_def)
  then obtain s' where a: "ask_question ''t'' ''A'' ''DEV'' ''BA'' ''why?'' social_default = (True, s')"
    by (metis prod.collapse)
  from ask_accepted [OF r a] a show ?thesis by blast
qed

text \<open>
  Question ids are not stable identities: on a full log whose oldest answered question
  belongs to ticket \<open>t\<close> (and at least one more is answered), asking on \<open>t\<close>, answering and
  asking again gives the new question the id of the one just answered, and an answer to that
  id is accepted but attached to the old question: the open question stays open.
\<close>

theorem question_id_clash:
  assumes "length (so_questions s) = 40"
    and "filter (\<lambda>q. \<not> q_is_open q) (so_questions s) = x # y # rest" and "aq_ticket x = t"
    and "next_id t s \<notin> aq_id ` set (so_questions s)"
    and "ask_question n1 t f1 d1 b1 s = (True, s1)"
    and "answer_question n2 (next_id t s) a1 s1 = (True, s2)"
    and "ask_question n3 t f2 d2 b2 s2 = (True, s3)" and "\<not> is_blank a2"
  shows "\<exists>s4. answer_question n4 (next_id t s) a2 s3 = (True, s4) \<and> open_question t s4 \<noteq> None"
proof -
  obtain q1 q2 where "so_questions s3 = remove_first closed_q (remove_first closed_q (so_questions s)) @ [q1, q2]"
    and "aq_id q1 = next_id t s" "aq_ticket q2 = t" "q_is_open q2"
    using id_repeats [OF assms(1) [folded MAX_QUESTIONS_def] assms(2-7)] by blast
  moreover have "next_id t s \<notin> aq_id ` set (remove_first closed_q (remove_first closed_q (so_questions s)))"
    using assms(4) set_remove_first [of closed_q "remove_first closed_q (so_questions s)"]
      set_remove_first [of closed_q "so_questions s"] by blast
  ultimately show ?thesis using answer_misses assms(8) by blast
qed

definition answered_q :: "string \<Rightarrow> string \<Rightarrow> agent_question" where
  "answered_q i t = \<lparr>aq_id = i, aq_ticket = t, aq_from = ''DEV'', aq_to = ''BA'', aq_body = ''b'',
     aq_answer = ''yes'', aq_asked_at = ''t'', aq_answered_at = ''t'', aq_forwarded = False,
     aq_escalated = False, aq_deferred = False\<rparr>"

definition full_log :: social where
  "full_log = social_default\<lparr>so_questions := answered_q ''A#1'' ''A'' # replicate 39 (answered_q ''B#1'' ''B'')\<rparr>"

lemma answered_q_simps [simp]:
  "\<not> q_is_open (answered_q i t)" "aq_ticket (answered_q i t) = t" "aq_id (answered_q i t) = i"
  by (simp_all add: answered_q_def q_is_open_def is_blank_def trim_def is_white_def)

lemma two_str: "nat_str (Suc (Suc 0)) = ''2''"
  by code_simp

theorem question_id_clash_witness:
  "\<exists>s1 s2 s3 s4. ask_question ''t'' ''A'' ''DEV'' ''BA'' ''x'' full_log = (True, s1)
     \<and> answer_question ''t'' ''A#2'' ''ok'' s1 = (True, s2)
     \<and> ask_question ''t'' ''A'' ''DEV'' ''BA'' ''y'' s2 = (True, s3)
     \<and> answer_question ''t'' ''A#2'' ''ok'' s3 = (True, s4) \<and> open_question ''A'' s4 \<noteq> None"
proof -
  let ?q = "so_questions full_log"
  have nb: "\<not> is_blank ''x''" "\<not> is_blank ''y''" "\<not> is_blank ''ok''"
    by (simp_all add: is_blank_def trim_def is_white_def)
  have q: "?q = answered_q ''A#1'' ''A'' # replicate 39 (answered_q ''B#1'' ''B'')"
    by (simp add: full_log_def)
  have len: "length ?q = 40" by (simp add: q)
  have fil: "filter (\<lambda>q. \<not> q_is_open q) ?q =
      answered_q ''A#1'' ''A'' # answered_q ''B#1'' ''B'' # replicate 38 (answered_q ''B#1'' ''B'')"
    by (simp add: q numeral_eq_Suc)
  have nid: "next_id ''A'' full_log = ''A#2''" by (simp add: next_id_def q two_str)
  have fresh: "next_id ''A'' full_log \<notin> aq_id ` set ?q" by (simp add: nid q)
  have "open_question ''A'' full_log = None" by (simp add: open_question_def find_None_all q)
  then obtain s1 where a1: "ask_question ''t'' ''A'' ''DEV'' ''BA'' ''x'' full_log = (True, s1)"
    using nb by (auto simp: ask_question_def Let_def)
  from ask_id [OF a1] nid obtain q1 where s1: "so_questions s1 = age_out (?q @ [q1])"
      and q1: "aq_id q1 = ''A#2''" "aq_ticket q1 = ''A''" by metis
  have "age_out (?q @ [q1]) = remove_first closed_q ?q @ [q1]"
    using len by (intro push_full) (auto simp: MAX_QUESTIONS_def q)
  then have s1': "so_questions s1 = replicate 39 (answered_q ''B#1'' ''B'') @ [q1]" using s1 by (simp add: q)
  let ?a = "\<lambda>q. q\<lparr>aq_answer := take 1500 (trim ''ok''), aq_answered_at := ''t''\<rparr>"
  let ?s2 = "s1\<lparr>so_questions := replicate 39 (answered_q ''B#1'' ''B'') @ [?a q1]\<rparr>"
  have "find (\<lambda>q. aq_id q = ''A#2'') (so_questions s1) = Some q1"
    using find_append_last [of "replicate 39 (answered_q ''B#1'' ''B'')" "\<lambda>q. aq_id q = ''A#2''" q1 "[]"]
      q1 s1' by simp
  moreover have "update_first (\<lambda>q. aq_id q = ''A#2'') ?a (so_questions s1)
      = replicate 39 (answered_q ''B#1'' ''B'') @ [?a q1]"
    using update_first_append_last [of "replicate 39 (answered_q ''B#1'' ''B'')"
        "\<lambda>q. aq_id q = ''A#2''" q1 ?a "[]"] q1 s1' by simp
  ultimately have a2: "answer_question ''t'' ''A#2'' ''ok'' s1 = (True, ?s2)"
    using nb by (simp add: answer_question_def)
  have "\<not> q_is_open (?a q1)"
    using not_blank_take_trim [OF nb(3), of 1500] by (simp add: q_is_open_def)
  then have "open_question ''A'' ?s2 = None" by (simp add: open_question_def find_None_all)
  then obtain s3 where a3: "ask_question ''t'' ''A'' ''DEV'' ''BA'' ''y'' ?s2 = (True, s3)"
    using nb by (auto simp: ask_question_def Let_def)
  have "\<exists>s4. answer_question ''t'' (next_id ''A'' full_log) ''ok'' s3 = (True, s4)
      \<and> open_question ''A'' s4 \<noteq> None"
    by (rule question_id_clash [OF len fil _ fresh a1 a2 [folded nid] a3 nb(3)]) simp
  with a1 a2 a3 nid show ?thesis by metis
qed

section \<open>Channels\<close>

text \<open>
  Whatever channel operations succeed, from an empty list: channel ids are distinct,
  non-empty slugs other than \<open>general\<close>; every owner is a member of their channel, members are
  listed once, only members hold invite rights, and a channel is private or public.
\<close>

theorem channels_reachable:
  assumes "reach (\<lambda>s. so_channels s = []) channel_step s"
  shows "distinct (map cn_id (so_channels s))
    \<and> (\<forall>c \<in> set (so_channels s).
         cn_id c \<noteq> [] \<and> slugify (cn_id c) = cn_id c \<and> cn_id c \<noteq> ''general''
         \<and> cn_owner c \<in> set (cn_members c) \<and> distinct (cn_members c)
         \<and> set (cn_inviters c) \<subseteq> set (cn_members c) \<and> cn_kind c \<in> {''private'', ''public''})"
  using channel_sys.reach_inv [OF assms]
  by (auto simp: channels_ok_def channel_ok_def slugify_fixed GENERAL_CHANNEL_def)

lemma slugify_Dev: "slugify ''Dev Team!'' = ''dev-team''"
  by code_simp

definition dev_channel :: "social" where
  "dev_channel = snd (create_channel ''now'' ''Dev Team!'' ''ann'' social_default)"

lemma dev_channel_created:
  "\<exists>ch. create_channel ''now'' ''Dev Team!'' ''ann'' social_default = (Inr ch, dev_channel)
     \<and> so_channels dev_channel = [ch] \<and> cn_id ch = ''dev-team'' \<and> cn_owner ch = ''ann''
     \<and> cn_members ch = [''ann''] \<and> cn_inviters ch = [] \<and> cn_open_invite ch = False"
  by (simp add: dev_channel_def create_channel_def create_channel_with_kind_def slugify_Dev Let_def
      social_default_def GENERAL_CHANNEL_def)

theorem channels_reachable_witness:
  "\<exists>c. so_channels dev_channel = [c] \<and> slugify (cn_id c) = cn_id c"
proof -
  obtain ch where ch: "create_channel ''now'' ''Dev Team!'' ''ann'' social_default = (Inr ch, dev_channel)"
      "so_channels dev_channel = [ch]" using dev_channel_created by blast
  have "reach (\<lambda>s. so_channels s = []) channel_step dev_channel"
  proof (rule reach_step)
    show "reach (\<lambda>s. so_channels s = []) channel_step social_default"
      by (rule reach_init) (simp add: social_default_def)
    show "channel_step social_default dev_channel"
      using ch(1) unfolding create_channel_def by (rule step_create)
  qed
  from channels_reachable [OF this] ch(2) show ?thesis by auto
qed

text \<open>
  A slug is a normal form: \<open>slugify\<close> yields lowercase ASCII letters, digits and single
  inner hyphens only, with no hyphen at either end, and leaves a slug as it is.
\<close>

theorem slugify_normal_form:
  "(\<forall>c \<in> set (slugify n). c = CHR ''-'' \<or> (is_ascii_alphanumeric c \<and> ascii_lower c = c))
   \<and> successively (\<lambda>a b. \<not> (a = CHR ''-'' \<and> b = CHR ''-'')) (slugify n)
   \<and> (slugify n \<noteq> [] \<longrightarrow> hd (slugify n) \<noteq> CHR ''-'' \<and> last (slugify n) \<noteq> CHR ''-'')
   \<and> slugify (slugify n) = slugify n"
  using slugify_ok [of n] slugify_fixed [OF slugify_ok, of n]
  by (simp add: slug_ok_def slug_body_def list_all_iff slug_char_def)

theorem slugify_normal_form_witness: "last (slugify ''Dev Team!'') \<noteq> CHR ''-''"
  using slugify_normal_form [of "''Dev Team!''"] by (simp add: slugify_Dev)

text \<open>
  Removing a member takes effect: the person can neither see the channel nor invite to it
  any more, while everyone else keeps exactly the rights they had; the owner cannot be removed
  and a refused removal changes nothing.
\<close>

theorem removed_member_loses_access:
  assumes "remove_channel_member i u s = (r, s')" and "i \<notin> {GENERAL_CHANNEL, AGENTS_CHANNEL}"
    and "find_channel i s = Some c"
  shows "(if cn_owner c = u then s' = s \<and> (\<exists>e. r = Inl e)
     else \<exists>c'. r = Inr c' \<and> find_channel i s' = Some c' \<and> \<not> can_view c' u \<and> \<not> can_invite c' u \<and> \<not> can_kick c' u
       \<and> (\<forall>v. v \<noteq> u \<longrightarrow> can_view c' v = can_view c v \<and> can_invite c' v = can_invite c v
              \<and> can_kick c' v = can_kick c v)
       \<and> (\<forall>j. j \<noteq> i \<longrightarrow> find_channel j s' = find_channel j s))"
proof (cases "cn_owner c = u")
  case True
  with assms show ?thesis by (auto simp: remove_channel_member_def)
next
  case False
  let ?f = "\<lambda>c. c\<lparr>cn_members := filter (\<lambda>m. m \<noteq> u) (cn_members c),
      cn_inviters := filter (\<lambda>m. m \<noteq> u) (cn_inviters c)\<rparr>"
  have r: "r = Inr (?f c)" "s' = update_channel i ?f s"
    using assms(1,3) False by (auto simp: remove_channel_member_def Let_def)
  have id: "cn_id c = i" using find_channel_Some [OF assms(3)] by simp
  have "find_channel i s' = Some (?f c)"
    unfolding r(2) using id by (intro find_update_channel [OF assms(3)]) simp
  moreover have "find_channel j s' = find_channel j s" if "j \<noteq> i" for j
    unfolding r(2) using that by (intro find_update_channel_other) simp_all
  ultimately show ?thesis
    using r(1) False id assms(2)
    by (auto simp: can_view_def can_invite_def can_kick_def cn_is_open_def)
qed

theorem removed_member_loses_access_witness:
  "\<exists>c'. fst (remove_channel_member ''dev-team'' ''bob'' (snd (invite_to_channel ''dev-team'' ''ann'' ''bob'' dev_channel)))
     = Inr c' \<and> \<not> can_view c' ''bob''"
proof -
  obtain ch where ch: "so_channels dev_channel = [ch]" "cn_id ch = ''dev-team''" "cn_owner ch = ''ann''"
      "cn_members ch = [''ann'']" using dev_channel_created by blast
  let ?s = "snd (invite_to_channel ''dev-team'' ''ann'' ''bob'' dev_channel)"
  have tb: "trim ''bob'' = ''bob''" by (simp add: trim_def is_white_def)
  have f: "find_channel ''dev-team'' dev_channel = Some ch" by (simp add: find_channel_def ch)
  have "can_invite ch ''ann''" by (simp add: can_invite_def ch)
  then have "?s = update_channel ''dev-team'' (\<lambda>c. if cn_owner c \<noteq> ''bob''
      then c\<lparr>cn_members := push_new ''bob'' (cn_members c)\<rparr> else c) dev_channel"
    using f unfolding invite_to_channel_def tb by simp
  then obtain c where c: "find_channel ''dev-team'' ?s = Some c" "cn_owner c = ''ann''"
    using find_update_channel [OF f] ch by auto
  obtain r s' where rm: "remove_channel_member ''dev-team'' ''bob'' ?s = (r, s')" by fastforce
  have "\<exists>c'. r = Inr c' \<and> \<not> can_view c' ''bob''"
    using removed_member_loses_access [OF rm _ c(1)] c(2)
    by (auto simp: GENERAL_CHANNEL_def AGENTS_CHANNEL_def split: if_splits)
  then show ?thesis using rm by auto
qed

text \<open>
  The name of the system feed is not reserved: a private channel whose name slugifies to
  \<open>agents\<close> is created without complaint, and then everyone, member or not, may read it and
  invite to it, while a lookup of its id yields the system channel instead.
\<close>

theorem agents_name_not_reserved:
  assumes "slugify name = AGENTS_CHANNEL" and "\<forall>c \<in> set (so_channels s). cn_id c \<noteq> AGENTS_CHANNEL"
  shows "\<exists>ch s'. create_channel now name owner s = (Inr ch, s')
    \<and> cn_kind ch = ''private'' \<and> cn_members ch = [owner]
    \<and> (\<forall>u. can_view ch u \<and> can_invite ch u \<and> ch \<in> set (channels_for u s'))
    \<and> channel_by_id (cn_id ch) s' = Some agents_channel_record \<and> ch \<noteq> agents_channel_record"
proof -
  obtain ch s' where run: "create_channel_with_kind now name owner ''private'' s = (Inr ch, s')"
    using assms by (auto simp: create_channel_with_kind_def Let_def AGENTS_CHANNEL_def GENERAL_CHANNEL_def)
  note f = create_facts [OF run]
  have o: "cn_is_open ch" using f(2) assms(1) by (simp add: cn_is_open_def)
  have "ch \<noteq> agents_channel_record"
    using f(4) by (auto simp: agents_channel_record_def system_channel_def)
  then show ?thesis
    using run f o assms(1)
    by (auto simp: create_channel_def can_view_def can_invite_def channels_for_def channel_by_id_def
        AGENTS_CHANNEL_def GENERAL_CHANNEL_def)
qed

theorem agents_name_not_reserved_witness:
  "\<exists>ch s'. create_channel ''now'' ''Agents'' ''ann'' social_default = (Inr ch, s') \<and> can_view ch ''eve''"
proof -
  have "slugify ''Agents'' = AGENTS_CHANNEL" by code_simp
  then have "\<exists>ch s'. create_channel ''now'' ''Agents'' ''ann'' social_default = (Inr ch, s')
      \<and> cn_kind ch = ''private'' \<and> cn_members ch = [''ann'']
      \<and> (\<forall>u. can_view ch u \<and> can_invite ch u \<and> ch \<in> set (channels_for u s'))
      \<and> channel_by_id (cn_id ch) s' = Some agents_channel_record \<and> ch \<noteq> agents_channel_record"
    by (rule agents_name_not_reserved) (simp add: social_default_def)
  then show ?thesis by blast
qed

section \<open>Wiki\<close>

text \<open>
  The directory of a wiki folder is canonical: exporting it again gives the same
  directory, folders whose paths differ in ASCII letter case only share one directory, and every
  path segment is a non-empty slug, so no two cases of one folder ever meet on disk.
\<close>

theorem wiki_directory_canonical:
  "wiki_folder_path (wiki_folder_path f) = wiki_folder_path f
   \<and> (map ascii_lower f = map ascii_lower g \<longrightarrow> wiki_folder_path f = wiki_folder_path g)
   \<and> (\<exists>segs. wiki_folder_path f = join ''/'' segs \<and> (\<forall>x \<in> set segs. x \<noteq> [] \<and> slugify x = x))"
proof (intro conjI)
  show "map ascii_lower f = map ascii_lower g \<longrightarrow> wiki_folder_path f = wiki_folder_path g"
    by (metis wiki_path_lower)
  show "\<exists>segs. wiki_folder_path f = join ''/'' segs \<and> (\<forall>x \<in> set segs. x \<noteq> [] \<and> slugify x = x)"
    using wiki_path_segments segments_ok slugify_fixed by blast
qed (rule wiki_path_idem)

theorem wiki_directory_canonical_witness:
  "wiki_folder_path ''Product/API'' = wiki_folder_path ''product/api''"
proof -
  have "map ascii_lower ''Product/API'' = map ascii_lower ''product/api''" by code_simp
  then show ?thesis using wiki_directory_canonical [of "''Product/API''" "''product/api''"] by blast
qed

text \<open>
  Deleting a wiki folder removes exactly its subtree: the folder, the folders below it and
  the pages in them, whose ids it returns; every other folder and page stays, also one whose
  name merely starts with the same letters. An empty path deletes nothing.
\<close>

theorem remove_folder_exact:
  assumes "remove_doc_folder path w = (gone, w')" and "p = trim_slashes (trim path)"
  shows "(if p = [] then gone = [] \<and> w' = w
     else wk_folders w' = filter (\<lambda>f. \<not> (f = p \<or> prefix (p @ ''/'') f)) (wk_folders w)
       \<and> wk_docs w' = filter (\<lambda>d. \<not> (dp_folder d = p \<or> prefix (p @ ''/'') (dp_folder d))) (wk_docs w)
       \<and> gone = map dp_id (filter (\<lambda>d. dp_folder d = p \<or> prefix (p @ ''/'') (dp_folder d)) (wk_docs w)))"
  using assms by (auto simp: remove_doc_folder_def under_def Let_def)

theorem remove_folder_exact_witness:
  "wk_folders (snd (remove_doc_folder ''Product'' \<lparr>wk_docs = [], wk_folders = [''Product'', ''Products'', ''Product/API'']\<rparr>))
   = [''Products'']"
proof -
  let ?w = "\<lparr>wk_docs = [], wk_folders = [''Product'', ''Products'', ''Product/API'']\<rparr> :: wiki"
  obtain g w' where r: "remove_doc_folder ''Product'' ?w = (g, w')" by fastforce
  have "trim_slashes (trim ''Product'') = ''Product''"
    by (simp add: trim_def trim_slashes_def is_white_def is_slash_def)
  from remove_folder_exact [OF r this [symmetric]] show ?thesis using r by simp
qed

end
