(* ===== verification/Ticket_Properties.thy ===== *)
theory Ticket_Properties
  imports Ticket_Machine
begin

text \<open>
  The properties of one ticket: the aggregate's invariant, the exact behaviour of its state
  machine and claim, the verify gate and coverage. \<open>sample_ticket\<close> is a designed ticket without
  UI, used by the witnesses.
\<close>

definition sample_ticket :: "string \<Rightarrow> ticket_type \<Rightarrow> status \<Rightarrow> ticket" where
  "sample_ticket i k st =
     \<lparr>tk_id = TicketId i, tk_kind = k, tk_title = ''T'', tk_description = ''D'',
      tk_priority = Medium, tk_complexity = Small, tk_status = st, tk_has_ui = False,
      tk_design = \<lparr>d_technical = Some technical_design_default, d_ux = None\<rparr>,
      tk_parent_id = None, tk_depends_on = [], tk_acceptance_criteria = [''works''],
      tk_test_cases = [test_case_fresh ''works''],
      tk_claimed_by = None, tk_claimed_at = None, tk_assignee = None, tk_goal_id = None,
      tk_created_at = None, tk_wip_checkpoints = [], tk_service_tag = None\<rparr>"

lemma sample_ticket_simps [simp]:
  "tk_id (sample_ticket i k st) = TicketId i" "tk_kind (sample_ticket i k st) = k"
  "tk_status (sample_ticket i k st) = st" "tk_claimed_by (sample_ticket i k st) = None"
  "tk_priority (sample_ticket i k st) = Medium" "tk_depends_on (sample_ticket i k st) = []"
  "tk_title (sample_ticket i k st) = ''T''" "tk_has_ui (sample_ticket i k st) = False"
  "tk_claimed_at (sample_ticket i k st) = None" "tk_wip_checkpoints (sample_ticket i k st) = []"
  "tk_acceptance_criteria (sample_ticket i k st) = [''works'']"
  "tk_test_cases (sample_ticket i k st) = [test_case_fresh ''works'']"
  "tk_assignee (sample_ticket i k st) = None" "tk_service_tag (sample_ticket i k st) = None"
  "d_technical (tk_design (sample_ticket i k st)) = Some technical_design_default"
  by (simp_all add: sample_ticket_def)

lemma sample_wf: "st \<in> lifecycle k \<Longrightarrow> wf_ticket (sample_ticket i k st)"
  by (simp add: wf_defs test_case_fresh_def MAX_WIP_CHECKPOINTS_def MAX_VERDICT_HISTORY_def
      is_blank_def trim_def is_white_def Let_def)

section \<open>The aggregate\<close>

text \<open>
  C1. Every ticket that can be reached from the constructor by successful calls of the
  aggregate's methods is well formed: its status belongs to the lifecycle of its kind, a claim
  is held only while the ticket is in progress and always carries its lease time, a feature or
  chore at or past \<open>Ready\<close> has the design it needs, its title is never blank, it has at most
  five criteria, each non-empty and trimmed, its dependencies are listed once and its parked
  work and verdict histories are bounded.
\<close>

theorem ticket_reachable:
  assumes "reach ticket_init ticket_step t"
  shows "tk_status t \<in> lifecycle (tk_kind t)
    \<and> (tk_claimed_by t \<noteq> None \<longrightarrow> tk_status t = InProgress)
    \<and> (tk_claimed_by t = None \<longleftrightarrow> tk_claimed_at t = None)
    \<and> (tk_kind t \<noteq> Bug \<and> tk_status t \<in> {Ready, InProgress, Done, Documented} \<longrightarrow>
         d_technical (tk_design t) \<noteq> None \<and> (tk_has_ui t \<longrightarrow> d_ux (tk_design t) \<noteq> None))
    \<and> \<not> is_blank (tk_title t)
    \<and> length (tk_acceptance_criteria t) \<le> 5
    \<and> (\<forall>c \<in> set (tk_acceptance_criteria t). c \<noteq> [] \<and> trim c = c)
    \<and> distinct (tk_depends_on t)
    \<and> length (tk_wip_checkpoints t) \<le> MAX_WIP_CHECKPOINTS
    \<and> (\<forall>c \<in> set (tk_test_cases t). length (tc_history c) \<le> MAX_VERDICT_HISTORY)"
  using ticket_sys.reach_inv [OF assms] unfolding wf_defs by blast

definition claimed_bug :: ticket where
  "claimed_bug = (sample_ticket ''B1'' Bug Open)
     \<lparr>tk_design := design_default, tk_acceptance_criteria := [], tk_test_cases := [],
      tk_status := InProgress, tk_claimed_by := Some ''w'', tk_claimed_at := Some ''now''\<rparr>"

lemma claimed_bug_reach: "reach ticket_init ticket_step claimed_bug"
proof -
  let ?b = "(sample_ticket ''B1'' Bug Open)\<lparr>tk_design := design_default,
      tk_acceptance_criteria := [], tk_test_cases := []\<rparr>"
  have "ticket_new (TicketId ''B1'') Bug ''T'' ''D'' Medium Small False = Inr ?b"
    by (simp add: ticket_new_def sample_ticket_def is_blank_def trim_def is_white_def Let_def)
  then have "ticket_init ?b" unfolding ticket_init_def by blast
  then have "reach ticket_init ticket_step ?b" by (rule reach_init)
  moreover have "claim System ''w'' ''now'' ?b = (Inr (), claimed_bug)"
    by (subst claim_ok) (simp_all add: may_move_def transition_allowed_def claimed_bug_def)
  then have "ticket_step ?b claimed_bug" by (rule step_claim)
  ultimately show ?thesis by (rule reach_step)
qed

theorem ticket_reachable_witness:
  "reach ticket_init ticket_step claimed_bug \<and> tk_claimed_by claimed_bug = Some ''w''
   \<and> tk_status claimed_bug = InProgress"
proof -
  have c: "tk_claimed_by claimed_bug = Some ''w''" by (simp add: claimed_bug_def)
  then have "tk_status claimed_bug = InProgress" using ticket_reachable [OF claimed_bug_reach] by simp
  with c claimed_bug_reach show ?thesis by blast
qed



lemma step_to_verified:
  "ticket_step t t' \<Longrightarrow> tk_status t' = Verified \<Longrightarrow>
   tk_status t = Verified \<or> (\<exists>a. transition_to a Verified t = (Inr (), t'))"
proof (induction rule: ticket_step.induct)
  case (step_transition a dst t t')
  then show ?case using transition_to_split [OF step_transition(1)] by auto
next
  case (step_claim a w now t t')
  then show ?case by (auto dest!: claim_result)
next
  case (step_release a t t')
  then show ?case by (auto simp: release_claim_def split: if_splits ticket_type.splits)
qed (auto simp: plain_ops_def op_defs case_ops_def on_case_def split: if_splits option.splits)

text \<open>
  C12. The verify gate: a ticket reaches \<open>Verified\<close> from another status only by a transition
  from \<open>Fixed\<close> made by TEST, a person or the orchestrator, and only when every acceptance
  criterion has a test case of that description whose latest verdict is a pass.
\<close>

theorem verify_gate:
  assumes "wf_ticket t" and "ticket_step t t'" and "tk_status t' = Verified" and "tk_status t \<noteq> Verified"
  shows "tk_status t = Fixed
    \<and> (\<forall>ac \<in> set (tk_acceptance_criteria t).
         \<exists>c \<in> set (tk_test_cases t). tc_description c = ac \<and> tc_status c = TcPassed)
    \<and> (\<exists>actor \<in> {Test, User, System}. transition_to actor Verified t = (Inr (), t'))"
proof -
  obtain a where a: "transition_to a Verified t = (Inr (), t')"
    using step_to_verified [OF assms(2,3)] assms(4) by blast
  have m: "may_move a Verified t" using transition_to_split [OF a] by simp
  have from_fixed: "tk_status t = Fixed"
    using m assms(4) by (cases "tk_kind t") (auto simp: may_move_def transition_allowed_def)
  moreover have "a \<in> {Test, User, System}"
    using m from_fixed by (cases a) (auto simp: may_move_def can_transition_def)
  moreover have "\<forall>ac \<in> set (tk_acceptance_criteria t).
      \<exists>c \<in> set (tk_test_cases t). tc_description c = ac \<and> tc_status c = TcPassed"
    using m find_case_Some unfolding may_move_def covered_def uncovered_Nil_iff by metis
  ultimately show ?thesis using a by blast
qed

definition passed_bug :: ticket where
  "passed_bug = (sample_ticket ''B1'' Bug Fixed)
     \<lparr>tk_test_cases := [(test_case_fresh ''works'')\<lparr>tc_status := TcPassed\<rparr>]\<rparr>"

theorem verify_gate_witness:
  "wf_ticket passed_bug \<and> ticket_step passed_bug (moved Verified passed_bug)
   \<and> tk_status passed_bug = Fixed"
proof -
  have wf: "wf_ticket passed_bug"
    by (simp add: passed_bug_def wf_defs lifecycle_def test_case_fresh_def MAX_WIP_CHECKPOINTS_def
        MAX_VERDICT_HISTORY_def is_blank_def trim_def is_white_def Let_def)
  have "may_move Test Verified passed_bug"
    by (simp add: may_move_def passed_bug_def transition_allowed_def can_transition_def covered_def
        uncovered_def find_case_def test_case_fresh_def)
  then have st: "ticket_step passed_bug (moved Verified passed_bug)"
    by (rule step_transition [OF transition_to_ok])
  have "tk_status passed_bug = Fixed"
    using verify_gate [OF wf st] by (simp add: passed_bug_def)
  with wf st show ?thesis by blast
qed

text \<open>
  The gate can always be opened: reconcile the test cases of a fixed bug with its
  criteria, record a passing verdict for every criterion in any order and with any further
  verdicts in between, and the orchestrator's or TEST's transition to \<open>Verified\<close> succeeds.
\<close>

theorem passing_all_verifies:
  assumes "tk_kind t = Bug" and "tk_status t = Fixed"
    and "set (tk_acceptance_criteria t) \<subseteq> fst ` set vs" and "actor \<in> {Test, User, System}"
  shows "\<exists>t'. transition_to actor Verified (pass_all vs (ensure_test_cases_from_acceptance t)) = (Inr (), t')
    \<and> tk_status t' = Verified"
proof -
  let ?e = "ensure_test_cases_from_acceptance t"
  let ?p = "pass_all vs ?e"
  have st: "tk_status ?e = Fixed" "tk_kind ?e = Bug"
    using assms(1,2) by (simp_all add: ensure_test_cases_from_acceptance_def
        sync_test_cases_from_acceptance_def)
  have "\<exists>c. find_case ac (tk_test_cases ?p) = Some c \<and> tc_status c = TcPassed"
    if ac: "ac \<in> set (tk_acceptance_criteria t)" for ac
  proof (rule pass_all_passes)
    show "ac \<in> fst ` set vs" using ac assms(3) by blast
    have "ac \<in> set (map tc_description (tk_test_cases ?e))"
      using ensure_in_sync [of t] ac by (simp add: cases_in_sync_iff)
    then show "find_case ac (tk_test_cases ?e) \<noteq> None"
      by (auto simp: find_case_def find_None_all)
  qed
  then have "covered ?p" unfolding covered_def uncovered_Nil_iff by (simp add: pass_all_frame)
  then have "may_move actor Verified ?p"
    using assms(4) st
    by (auto simp: may_move_def pass_all_frame transition_allowed_def can_transition_def)
  then show ?thesis using transition_to_ok by force
qed

theorem passing_all_verifies_witness:
  "\<exists>t'. transition_to Test Verified (pass_all [(''works'', None, None, ''now'')]
     (ensure_test_cases_from_acceptance (sample_ticket ''B1'' Bug Fixed))) = (Inr (), t')
   \<and> tk_status t' = Verified"
  by (rule passing_all_verifies) simp_all

text \<open>
  The coverage matrix and the verify gate agree: the matrix has one row per acceptance
  criterion, in order; the criteria the gate reports as uncovered are exactly the rows that are
  not \<open>Covered\<close>; and the gate is open exactly when every row is.
\<close>

theorem coverage_matrix_agrees:
  "map cov_criterion (matrix_for t) = tk_acceptance_criteria t
   \<and> uncovered (tk_acceptance_criteria t) (tk_test_cases t)
       = map cov_criterion (filter (\<lambda>e. cov_status e \<noteq> Covered) (matrix_for t))
   \<and> (check_covered t = Inr () \<longleftrightarrow> (\<forall>e \<in> set (matrix_for t). cov_status e = Covered))"
  using matrix_for_uncovered [of t] uncovered_eq_rows [of "tk_acceptance_criteria t" "tk_test_cases t"]
  by (simp add: matrix_for_def matrix_rows_criteria check_covered_iff)

theorem coverage_matrix_agrees_witness:
  "check_covered passed_bug = Inr ()"
proof -
  have "\<forall>e \<in> set (matrix_for passed_bug). cov_status e = Covered"
    by (simp add: matrix_for_def matrix_rows_def passed_bug_def find_case_def test_case_fresh_def
        status_of_case_def Let_def)
  then show ?thesis using coverage_matrix_agrees [of passed_bug] by blast
qed

text \<open>
  C40. A refused call changes nothing: each of the aggregate's fallible methods leaves the
  ticket as it was whenever it returns an error.
\<close>

theorem ticket_methods_atomic:
  "atomic (set_goal_id a g) \<and> atomic (set_service_tag a tag) \<and> atomic (edit a ttl d)
   \<and> atomic (clarify a d) \<and> atomic (set_priority a p) \<and> atomic (set_technical_design a td)
   \<and> atomic (set_ux_design a ux) \<and> atomic (set_parent a i) \<and> atomic (remove_dependency a dep)
   \<and> atomic (add_dependency a i) \<and> atomic (transition_to a dst) \<and> atomic (claim a w now)
   \<and> atomic (release_claim a) \<and> atomic (reclaim_misfiled a) \<and> atomic (take_over a w now)
   \<and> atomic (record_wip_checkpoint a cp) \<and> atomic (clear_wip_checkpoints a)"
  by (intro conjI atomic_setters atomic_transition_to atomic_claim atomic_wip)

text \<open>
  \<open>Rejected\<close> is final, and identity never changes: whatever sequence of methods runs on a
  rejected ticket, it stays rejected; and no sequence changes a ticket's id, kind, sizing or
  UI flag.
\<close>

theorem rejected_final_identity_kept:
  assumes "ticket_step\<^sup>*\<^sup>* t t'"
  shows "identity_of t' = identity_of t \<and> (tk_status t = Rejected \<longrightarrow> tk_status t' = Rejected)"
proof -
  have "identity_of t' = identity_of t"
    using assms by (induction rule: rtranclp_induct) (auto dest: ticket_step_identity)
  then show ?thesis using ticket_steps_rejected [OF assms] by blast
qed

theorem rejected_final_identity_kept_witness:
  "tk_status (set_acceptance_criteria [''x''] (sample_ticket ''F1'' Feature Rejected)) = Rejected"
proof -
  have "ticket_step\<^sup>*\<^sup>* (sample_ticket ''F1'' Feature Rejected)
      (set_acceptance_criteria [''x''] (sample_ticket ''F1'' Feature Rejected))"
    by (rule r_into_rtranclp) (rule step_criteria)
  from rejected_final_identity_kept [OF this] show ?thesis by simp
qed

text \<open>
  The statuses a kind can reach from its initial status by legal edges are exactly its
  lifecycle: a bug never becomes \<open>Pending\<close>, \<open>Ready\<close>, \<open>Done\<close> or \<open>Documented\<close>, a feature or
  chore never \<open>Open\<close>, \<open>Fixed\<close> or \<open>Verified\<close>, and no status of the lifecycle is dead.
\<close>

theorem lifecycle_exact:
  "(transition_allowed k)\<^sup>*\<^sup>* (initial_status k) st \<longleftrightarrow> st \<in> lifecycle k"
proof
  assume "(transition_allowed k)\<^sup>*\<^sup>* (initial_status k) st"
  then show "st \<in> lifecycle k" using lifecycle_initial by (rule lifecycle_closed)
next
  assume "st \<in> lifecycle k"
  then show "(transition_allowed k)\<^sup>*\<^sup>* (initial_status k) st"
    using lifecycle_reach_bug lifecycle_reach_feature
    by (cases "k = Bug") (auto simp: initial_status_def split: ticket_type.split)
qed

text \<open>
  Reconciling the test cases with the acceptance criteria aligns them one to one, keeps the
  recorded case of every criterion that had one, gives the others a pending case, and therefore
  neither grants nor loses coverage; a second run changes nothing.
\<close>

theorem sync_keeps_coverage:
  "map tc_description (tk_test_cases (ensure_test_cases_from_acceptance t)) = tk_acceptance_criteria t
   \<and> (\<forall>ac \<in> set (tk_acceptance_criteria t).
        find_case ac (tk_test_cases (ensure_test_cases_from_acceptance t)) =
          Some (case find_case ac (tk_test_cases t) of Some c \<Rightarrow> c | None \<Rightarrow> test_case_fresh ac))
   \<and> check_covered (ensure_test_cases_from_acceptance t) = check_covered t
   \<and> ensure_test_cases_from_acceptance (ensure_test_cases_from_acceptance t)
       = ensure_test_cases_from_acceptance t"
proof -
  let ?e = "ensure_test_cases_from_acceptance t"
  have "map tc_description (tk_test_cases ?e) = tk_acceptance_criteria t"
    using ensure_in_sync [of t] by (simp add: cases_in_sync_iff)
  moreover have "find_case ac (tk_test_cases ?e) =
      Some (case find_case ac (tk_test_cases t) of Some c \<Rightarrow> c | None \<Rightarrow> test_case_fresh ac)"
    if ac: "ac \<in> set (tk_acceptance_criteria t)" for ac
  proof (cases "cases_in_sync t")
    case True
    then have "ac \<in> tc_description ` set (tk_test_cases t)"
      using ac unfolding cases_in_sync_iff by (metis set_map)
    then obtain c where "find_case ac (tk_test_cases t) = Some c"
      by (cases "find_case ac (tk_test_cases t)") (auto simp: find_case_def find_None_all)
    with True show ?thesis by (simp add: ensure_test_cases_from_acceptance_def)
  next
    case False
    with sync_find_case [OF ac] show ?thesis by (simp add: ensure_test_cases_from_acceptance_def)
  qed
  moreover have "check_covered ?e = check_covered t"
    using ensure_uncovered [of t] by (simp add: check_covered_def)
  moreover have "ensure_test_cases_from_acceptance ?e = ?e"
    using ensure_in_sync [of t] by (simp add: ensure_test_cases_from_acceptance_def [of ?e])
  ultimately show ?thesis by blast
qed

theorem sync_keeps_coverage_witness:
  "find_case ''new'' (tk_test_cases (ensure_test_cases_from_acceptance
     ((sample_ticket ''F1'' Feature Pending)\<lparr>tk_acceptance_criteria := [''works'', ''new'']\<rparr>)))
   = Some (test_case_fresh ''new'')"
  using sync_keeps_coverage
    [of "(sample_ticket ''F1'' Feature Pending)\<lparr>tk_acceptance_criteria := [''works'', ''new'']\<rparr>"]
  by (simp add: find_case_def [of _ "[test_case_fresh ''works'']"]) (simp add: test_case_fresh_def)

text \<open>
  The verdict history of a test case after any sequence of recorded verdicts and refreshed
  screenshots is bounded, ends with the newest entry, and holds the newest entries in order; a
  recorded verdict sets the status of the case and never erases an attached screenshot or repro.
\<close>

theorem verdict_log:
  assumes "length (tc_history tc) \<le> MAX_VERDICT_HISTORY"
  shows "tc_history (fold push_record rs tc) = keep_newest MAX_VERDICT_HISTORY (tc_history tc @ rs)
    \<and> tc_status (record_verdict ok note img tm tc) = (if ok then TcPassed else TcFailed)
    \<and> length (tc_history (record_verdict ok note img tm tc)) \<le> MAX_VERDICT_HISTORY
    \<and> vr_at (last (tc_history (record_verdict ok note img tm tc))) = tm
    \<and> Option.bind (tc_evidence (record_verdict ok note None tm tc)) ce_image
        = Option.bind (tc_evidence tc) ce_image
    \<and> Option.bind (tc_evidence (record_verdict ok note img tm tc)) ce_repro
        = Option.bind (tc_evidence tc) ce_repro"
proof -
  have "vr_at (last (tc_history (record_verdict ok note img tm tc))) = tm"
    using verdicts.push_newest by (simp add: record_verdict_def Let_def)
  moreover have "Option.bind (tc_evidence (record_verdict ok note None tm tc)) ce_image
      = Option.bind (tc_evidence tc) ce_image"
    by (simp add: record_verdict_def Let_def)
  ultimately show ?thesis
    using verdicts.push_all [OF assms] record_verdict_bounded record_verdict_keeps_repro by simp
qed

theorem verdict_log_witness:
  "length (tc_history (record_verdict True None None ''t'' (test_case_fresh ''a''))) \<le> 12"
  using verdict_log [of "test_case_fresh ''a''" "[]" True None None "''t''"]
  by (simp add: test_case_fresh_def MAX_VERDICT_HISTORY_def)

end
