(* ===== verification/Backlog_Properties.thy ===== *)
theory Backlog_Properties
  imports Selection Ticket_Properties
begin

text \<open>
  The properties of the backlog as a whole: its dependency graph, the queues the roles pull
  from, the burn-down brake and the ledger of reverted work.
\<close>

definition board :: "ticket list \<Rightarrow> project_state" where
  "board ts = project_state_default\<lparr>st_tickets := ts\<rparr>"

lemma board_simps [simp]:
  "st_tickets (board ts) = ts" "st_sprint (board ts) = None" "st_sprints (board ts) = []"
  "st_sprint_queue (board ts) = []" "st_tuning (board ts) = tuning_default"
  "st_ticket_fail_attempts (board ts) = Map.empty" "st_reverted_work (board ts) = []"
  "st_milestones (board ts) = []" "st_sprint_goal (board ts) = []"
  by (simp_all add: board_def project_state_default_def)

lemma acyclic_nil: "acyclic {}"
  by (simp add: acyclic_def)

section \<open>Dependencies\<close>

text \<open>
  C4. \<open>validate\<close> accepts exactly the backlogs whose ticket ids are pairwise distinct, whose
  dependencies all name tickets of the backlog and whose dependency graph has no cycle, a
  ticket that depends on itself included.
\<close>

theorem validate_characterised:
  "validate s = Inr () \<longleftrightarrow>
     distinct (map tk_id (st_tickets s))
     \<and> (\<forall>t \<in> set (st_tickets s). set (tk_depends_on t) \<subseteq> tk_id ` set (st_tickets s))
     \<and> acyclicP (edge s)"
  using validate_iff by (simp add: backlog_ok_def)

theorem validate_characterised_witness:
  "validate (board [sample_ticket ''F1'' Feature Ready,
     (sample_ticket ''F2'' Feature Ready)\<lparr>tk_depends_on := [TicketId ''F1'']\<rparr>]) = Inr ()"
proof -
  let ?s = "board [sample_ticket ''F1'' Feature Ready,
     (sample_ticket ''F2'' Feature Ready)\<lparr>tk_depends_on := [TicketId ''F1'']\<rparr>]"
  have e: "edge ?s a b \<longleftrightarrow> a = TicketId ''F2'' \<and> b = TicketId ''F1''" for a b
    by (auto simp: edge_def deps_def ticket_def)
  have "{(a, b). edge ?s a b} = {(TicketId ''F2'', TicketId ''F1'')}" by (auto simp: e)
  then have "acyclicP (edge ?s)" by (simp add: acyclic_insert acyclic_nil)
  then show ?thesis using validate_characterised [of ?s] by simp
qed

text \<open>
  C17. The cycle search is sound and complete on every backlog, also one that fails the other
  checks: it returns \<open>None\<close> exactly when the dependency graph is acyclic, and the ticket it
  names lies on a cycle.
\<close>

theorem cycle_search_correct:
  "(first_dependency_cycle s = None \<longleftrightarrow> acyclicP (edge s))
   \<and> (\<forall>d. first_dependency_cycle s = Some d \<longrightarrow> (edge s)\<^sup>+\<^sup>+ d d)"
  using first_dependency_cycle_None_iff first_dependency_cycle_sound by blast

theorem cycle_search_correct_witness:
  "\<exists>d. first_dependency_cycle (board
     [(sample_ticket ''F1'' Feature Ready)\<lparr>tk_depends_on := [TicketId ''F2'']\<rparr>,
      (sample_ticket ''F2'' Feature Ready)\<lparr>tk_depends_on := [TicketId ''F1'']\<rparr>]) = Some d"
proof -
  let ?s = "board [(sample_ticket ''F1'' Feature Ready)\<lparr>tk_depends_on := [TicketId ''F2'']\<rparr>,
      (sample_ticket ''F2'' Feature Ready)\<lparr>tk_depends_on := [TicketId ''F1'']\<rparr>]"
  have "edge ?s (TicketId ''F1'') (TicketId ''F2'')" "edge ?s (TicketId ''F2'') (TicketId ''F1'')"
    by (simp_all add: edge_def deps_def ticket_def)
  then have "(edge ?s)\<^sup>+\<^sup>+ (TicketId ''F1'') (TicketId ''F1'')"
    by (meson tranclp.r_into_trancl tranclp.trancl_into_trancl)
  then have "\<not> acyclicP (edge ?s)" by (auto simp: acyclic_def tranclp_unfold)
  then show ?thesis using cycle_search_correct [of ?s] by auto
qed



section \<open>Queues\<close>

text \<open>
  The queue of ready features holds exactly the features and chores at \<open>Ready\<close> whose
  dependencies are finished, each as often as the backlog lists it, ordered by sprint scope,
  then priority, then id; its head is the ticket \<open>next_ready_feature\<close> hands out, and there is
  none exactly when no ticket is eligible.
\<close>

theorem ready_queue_exact:
  defines "elig \<equiv> \<lambda>s t. tk_kind t \<in> {Feature, Chore} \<and> tk_status t = Ready \<and> deps_satisfied s t"
  shows "(\<exists>ts. ready_feature_candidates s = map tk_id ts
       \<and> mset ts = mset (filter (elig s) (st_tickets s))
       \<and> sorted_wrt (\<lambda>a b. (in_dev_scope s (tk_id a) \<or> \<not> in_dev_scope s (tk_id b))
           \<and> ((in_dev_scope s (tk_id a) \<longleftrightarrow> in_dev_scope s (tk_id b)) \<longrightarrow>
                tk_priority a > tk_priority b
                \<or> (tk_priority a = tk_priority b \<and> tk_id a \<le> tk_id b))) ts)
    \<and> (next_ready_feature s = None \<longleftrightarrow> (\<forall>t \<in> set (st_tickets s). \<not> elig s t))
    \<and> (\<forall>i. next_ready_feature s = Some i \<longrightarrow> hd (ready_feature_candidates s) = i)"
proof -
  let ?le = "\<lambda>a b. (in_dev_scope s (tk_id a) \<or> \<not> in_dev_scope s (tk_id b))
           \<and> ((in_dev_scope s (tk_id a) \<longleftrightarrow> in_dev_scope s (tk_id b)) \<longrightarrow>
                tk_priority a > tk_priority b
                \<or> (tk_priority a = tk_priority b \<and> tk_id a \<le> tk_id b))"
  have rank: "priority_rank p < priority_rank q \<longleftrightarrow> p < q"
    "priority_rank p = priority_rank q \<longleftrightarrow> p = q" for p q
    by (cases p; cases q; simp add: priority_rank_def less_priority_def less_eq_priority_def)+
  have le: "cand_le s a b \<longleftrightarrow> ?le a b" for a b
    by (auto simp: cand_le_def Let_def rank less_eq_ticket_id_def)
  have c: "ready_feature_candidates s = candidates s (elig s)"
    by (simp add: ready_feature_candidates_def elig_def is_feature_def)
  obtain ts where "candidates s (elig s) = map tk_id ts" "sorted_wrt (cand_le s) ts"
      "mset ts = mset (filter (elig s) (st_tickets s))"
    using candidates_sorted by blast
  moreover have "sorted_wrt ?le ts"
    using \<open>sorted_wrt (cand_le s) ts\<close> le by (auto elim!: sorted_wrt_mono_rel [rotated])
  moreover have "next_ready_feature s = None \<longleftrightarrow> candidates s (elig s) = []"
    by (auto simp: next_ready_feature_def first_of_def c split: list.splits)
  moreover have "\<forall>i. next_ready_feature s = Some i \<longrightarrow> hd (ready_feature_candidates s) = i"
    by (auto simp: next_ready_feature_def first_of_def split: list.splits)
  ultimately show ?thesis using c candidates_Nil_iff [of s "elig s"] by auto
qed

theorem ready_queue_exact_witness:
  "next_ready_feature (board []) = None"
  using ready_queue_exact [of "board []"] by simp

text \<open>
  The burn-mode gate: the sweep switches burn mode off exactly when it is on, has a target
  and the open bugs are at or below it; it touches no other brake and no other part of the
  state, never changes whether burn mode holds, and running it again does nothing.
\<close>

theorem burn_gate_sweep:
  "(let (cleared, s') = clear_burn_mode_if_gate_met s in
     (cleared \<longleftrightarrow> tu_burn_mode (st_tuning s)
        \<and> (\<exists>n. tu_burn_until_bugs_le (st_tuning s) = Some n \<and> length (open_bug_candidates s) \<le> n))
     \<and> (\<exists>b. s' = s\<lparr>st_tuning := (st_tuning s)\<lparr>tu_burn_mode := b\<rparr>\<rparr>)
     \<and> burn_mode_holds s' = burn_mode_holds s
     \<and> (cleared \<longrightarrow> \<not> tu_burn_mode (st_tuning s'))
     \<and> clear_burn_mode_if_gate_met s' = (False, s'))"
proof -
  obtain cleared s' where r: "clear_burn_mode_if_gate_met s = (cleared, s')" by fastforce
  have "s' = s\<lparr>st_tuning := (st_tuning s)\<lparr>tu_burn_mode := tu_burn_mode (st_tuning s')\<rparr>\<rparr>"
    using r by (auto simp: clear_burn_mode_if_gate_met_def split: if_splits)
  moreover have "cleared \<longleftrightarrow> tu_burn_mode (st_tuning s)
        \<and> (\<exists>n. tu_burn_until_bugs_le (st_tuning s) = Some n \<and> length (open_bug_candidates s) \<le> n)"
    using r by (auto simp: clear_burn_mode_if_gate_met_def burn_mode_holds_def
        split: if_splits option.splits)
  moreover have "burn_mode_holds s' = burn_mode_holds s" "clear_burn_mode_if_gate_met s' = (False, s')"
      "cleared \<longrightarrow> \<not> tu_burn_mode (st_tuning s')"
    using r by (auto simp: clear_burn_mode_if_gate_met_def burn_mode_holds_def split: if_splits)
  ultimately show ?thesis unfolding r by auto
qed

theorem burn_gate_sweep_witness:
  "fst (clear_burn_mode_if_gate_met ((board [])\<lparr>st_tuning :=
     tuning_default\<lparr>tu_burn_mode := True, tu_burn_until_bugs_le := Some 0\<rparr>\<rparr>))"
proof -
  let ?s = "(board [])\<lparr>st_tuning := tuning_default\<lparr>tu_burn_mode := True, tu_burn_until_bugs_le := Some 0\<rparr>\<rparr>"
  have "open_bug_candidates ?s = []"
    by (simp add: open_bug_candidates_def candidates_def sort_by_def del: open_bug_candidates_tuning)
  then show ?thesis using burn_gate_sweep [of ?s] by (auto split: prod.splits)
qed

section \<open>Reverted work\<close>

inductive revert_step :: "project_state \<Rightarrow> project_state \<Rightarrow> bool" where
  step_record: "revert_step s (snd (record_revert ev s))"
| step_decide: "revert_step s (snd (decide_revert now sha d w s))"

interpretation revert_sys: invariant_system "\<lambda>s. st_reverted_work s = []" revert_step revert_ledger_ok
proof
  show "st_reverted_work s = [] \<Longrightarrow> revert_ledger_ok s" for s
    by (simp add: revert_ledger_ok_def)
  show "revert_ledger_ok t" if "revert_ledger_ok s" and "revert_step s t" for s t
    using that(2,1) by cases (auto intro: record_revert_ok decide_revert_ok)
qed

text \<open>
  The ledger of reverted work lists a commit once and stays bounded, whatever is recorded
  and decided; and a decision is final: once a revert is approved or dismissed, deciding the
  same commit again is refused and changes nothing.
\<close>

theorem revert_ledger:
  assumes "reach (\<lambda>s. st_reverted_work s = []) revert_step s"
    and "decide_revert now sha d w s = (True, s')" and "d \<noteq> RvPending"
  shows "distinct (map rv_sha (st_reverted_work s)) \<and> length (st_reverted_work s) \<le> MAX_REVERT_EVENTS
    \<and> (\<exists>e \<in> set (st_reverted_work s'). rv_sha e = sha \<and> rv_decision e = d \<and> rv_decided_by e = Some w)
    \<and> decide_revert now2 sha d2 w2 s' = (False, s')"
proof -
  have ok: "revert_ledger_ok s" using assms(1) by (rule revert_sys.reach_inv)
  let ?p = "\<lambda>e. rv_sha e = sha \<and> rv_decision e = RvPending"
  let ?f = "\<lambda>e. e\<lparr>rv_decision := d, rv_decided_at := Some now, rv_decided_by := Some w\<rparr>"
  obtain e where e: "find ?p (st_reverted_work s) = Some e"
    and s': "st_reverted_work s' = update_first ?p ?f (st_reverted_work s)"
    using assms(2) by (auto simp: decide_revert_def Let_def split: option.splits)
  have upd: "distinct (map rv_sha es) \<Longrightarrow> find ?p es = Some e \<Longrightarrow>
      ?f e \<in> set (update_first ?p ?f es) \<and> find ?p (update_first ?p ?f es) = None" for es
  proof (induction es)
    case (Cons x xs)
    show ?case
    proof (cases "?p x")
      case True
      then have "\<forall>y \<in> set xs. rv_sha y \<noteq> sha" using Cons.prems(1) by (auto simp: image_iff)
      then have "find ?p xs = None" by (simp add: find_None_all)
      with True Cons.prems(2) assms(3) show ?thesis by simp
    next
      case False
      with Cons show ?thesis by simp
    qed
  qed simp
  have "?f e \<in> set (st_reverted_work s') \<and> find ?p (st_reverted_work s') = None"
    using upd [OF _ e] ok s' by (simp add: revert_ledger_ok_def)
  moreover have "rv_sha e = sha" using find_Some_props [OF e] by simp
  ultimately show ?thesis
    using ok by (auto simp: revert_ledger_ok_def decide_revert_def intro!: bexI [of _ "?f e"])
qed

theorem revert_ledger_witness:
  "\<exists>s s'. reach (\<lambda>s. st_reverted_work s = []) revert_step s
     \<and> decide_revert ''now'' ''abc'' RvApproved ''po'' s = (True, s')
     \<and> decide_revert ''later'' ''abc'' RvDismissed ''po'' s' = (False, s')"
proof -
  let ?ev = "\<lparr>rv_sha = ''abc'', rv_subject = '''', rv_ticket = '''', rv_role = '''',
      rv_reverted_at = '''', rv_detected_at = '''', rv_decision = RvPending,
      rv_decided_at = None, rv_decided_by = None\<rparr>"
  let ?s = "snd (record_revert ?ev (board []))"
  have r: "reach (\<lambda>s. st_reverted_work s = []) revert_step ?s"
    by (rule reach_step [of _ _ "board []"]) (auto intro: reach_init step_record)
  have "st_reverted_work ?s = [?ev]"
    by (simp add: record_revert_def keep_newest_def MAX_REVERT_EVENTS_def)
  then obtain s' where d: "decide_revert ''now'' ''abc'' RvApproved ''po'' ?s = (True, s')"
    by (auto simp: decide_revert_def)
  have "decide_revert ''later'' ''abc'' RvDismissed ''po'' s' = (False, s')"
    using revert_ledger [OF r d] by blast
  with r d show ?thesis by blast
qed

end
