(* ===== verification/Sprint_Properties.thy ===== *)
theory Sprint_Properties
  imports Sprint_Machine Backlog_Properties
begin

text \<open>The properties of the sprint layer: its invariant, the boundaries, the scope and its upkeep.\<close>

definition sample_clock :: clock where
  "sample_clock = \<lparr>ck_now = ''now'', ck_minutes_since = (\<lambda>_. Some 10), ck_days_since = (\<lambda>_. Some 0)\<rparr>"

definition sample_sprint :: "ticket_id list \<Rightarrow> sprint" where
  "sample_sprint c = \<lparr>sp_number = 1, sp_goal = ''g'', sp_started_cycle = 0, sp_length_cycles = 5,
     sp_committed = c, sp_started_at = ''now'', sp_bug_burn_floor = None\<rparr>"

definition with_sprint :: "ticket_id list \<Rightarrow> ticket list \<Rightarrow> project_state" where
  "with_sprint c ts = (board ts)\<lparr>st_sprint := Some (sample_sprint c)\<rparr>"

lemma with_sprint_simps [simp]:
  "st_tickets (with_sprint c ts) = ts" "st_sprint (with_sprint c ts) = Some (sample_sprint c)"
  "committed_of (with_sprint c ts) = c" "st_sprint_queue (with_sprint c ts) = []"
  "st_sprints (with_sprint c ts) = []" "st_ticket_fail_attempts (with_sprint c ts) = Map.empty"
  by (simp_all add: with_sprint_def committed_of_def sample_sprint_def)

lemma board_init: "board_ok (board ts) \<Longrightarrow> sprint_init (board ts)"
  by (simp add: sprint_init_def)

lemma with_sprint_inv:
  "board_ok (board ts) \<Longrightarrow> distinct c \<Longrightarrow> set c \<subseteq> tk_id ` set ts \<Longrightarrow> sprint_inv (with_sprint c ts)"
  by (simp add: sprint_inv_def board_ok_def scope_ok_def queue_ok_def history_ok_def ids_def)

lemma sample_board_ok:
  "distinct (map fst xs) \<Longrightarrow> \<forall>(i, k, st) \<in> set xs. st \<in> lifecycle k \<Longrightarrow>
   board_ok (board (map (\<lambda>(i, k, st). sample_ticket i k st) xs))"
proof -
  assume d: "distinct (map fst xs)" and l: "\<forall>(i, k, st) \<in> set xs. st \<in> lifecycle k"
  have "map tk_id (map (\<lambda>(i, k, st). sample_ticket i k st) xs) = map TicketId (map fst xs)"
    by auto
  moreover have "distinct (map TicketId (map fst xs))"
    using d by (subst distinct_map) (auto simp: inj_on_def)
  moreover have "\<forall>t \<in> set (map (\<lambda>(i, k, st). sample_ticket i k st) xs). wf_ticket t"
    using l sample_wf by auto
  ultimately show ?thesis by (simp only: board_ok_def board_simps)
qed

section \<open>The invariant\<close>

text \<open>
  C2. Whatever sequence of sprint operations and ticket steps runs, from a board without a
  sprint: ticket ids stay distinct and every ticket well formed; the running sprint commits
  each ticket once and only tickets of the board; planned sprints have distinct ids and plan
  each ticket once and only tickets of the board; and the velocity history is in the order of
  strictly increasing sprint numbers, all below the running one, and never counts more done
  than committed.
\<close>

theorem sprint_reachable:
  assumes "reach sprint_init sprint_step s"
  shows "distinct (map tk_id (st_tickets s)) \<and> (\<forall>t \<in> set (st_tickets s). wf_ticket t)
    \<and> distinct (committed_of s) \<and> set (committed_of s) \<subseteq> tk_id ` set (st_tickets s)
    \<and> distinct (map ps_id (st_sprint_queue s))
    \<and> (\<forall>p \<in> set (st_sprint_queue s).
         distinct (ps_tickets p) \<and> set (ps_tickets p) \<subseteq> tk_id ` set (st_tickets s))
    \<and> sorted_wrt (<) (map sr_number (st_sprints s))
    \<and> (\<forall>r \<in> set (st_sprints s). sr_done r \<le> sr_committed r
         \<and> (\<exists>sp. st_sprint s = Some sp \<and> sr_number r < sp_number sp))"
proof -
  have "sprint_inv s" using assms by (rule sprint_sys.reach_inv)
  then show ?thesis
    by (auto simp: sprint_inv_def board_ok_def scope_ok_def queue_ok_def plan_ok_def history_ok_def
        ids_def split: option.splits)
qed

theorem sprint_reachable_witness:
  "distinct (committed_of (snd (advance sample_clock 1 (policy_cycles 5)
     (board [sample_ticket ''F1'' Feature Ready, sample_ticket ''B1'' Bug Open]))))"
proof -
  let ?s = "board [sample_ticket ''F1'' Feature Ready, sample_ticket ''B1'' Bug Open]"
  have "board_ok ?s"
    using sample_board_ok [of "[(''F1'', Feature, Ready), (''B1'', Bug, Open)]"]
    by (simp add: lifecycle_def)
  then have "reach sprint_init sprint_step ?s" by (intro reach_init board_init)
  then have "reach sprint_init sprint_step (snd (advance sample_clock 1 (policy_cycles 5) ?s))"
    by (rule reach_step) (rule step_advance)
  then show ?thesis using sprint_reachable by blast
qed

section \<open>Boundaries\<close>

text \<open>
  A rollover opens the sprint with the next number, files the closing one with its size
  and the number of its tickets that shipped, consumes the first planned sprint, and never
  opens a sprint that is already finished, so the next cycle does not roll it over again for
  being done.
\<close>

theorem rollover_opens_unfinished:
  assumes "reach sprint_init sprint_step s" and "advance ck c pol s = (Some n, s')"
  shows "\<exists>sp. st_sprint s' = Some sp \<and> sp_number sp = n \<and> \<not> all_committed_done s' sp
    \<and> st_sprint_queue s' = tl (st_sprint_queue s)
    \<and> (case st_sprint s of
         None \<Rightarrow> n = 1 \<and> st_sprints s' = st_sprints s
       | Some old \<Rightarrow> n = sp_number old + 1
           \<and> (\<exists>r. st_sprints s' = st_sprints s @ [r] \<and> sr_number r = sp_number old
                \<and> sr_committed r = length (sp_committed old) \<and> sr_done r = done_count s))"
proof -
  have inv: "sprint_inv s" using assms(1) by (rule sprint_sys.reach_inv)
  have r: "roll_over ck c (window_length pol s) (sy_bug_burn_floor pol) s = (n, s')"
    using assms(2) by (auto simp: advance_def Let_def split: if_splits prod.splits option.splits)
  note f = roll_over_facts [OF r]
  obtain sp where sp: "st_sprint s' = Some sp" "sp_number sp = n" using f(5) by blast
  have "\<not> all_committed_done s' sp"
    using roll_over_not_done [OF r sprint_invD(1,2) [OF inv] sp(1)] .
  then show ?thesis
    using sp f(2,3,4) by (auto simp: archive_sprint_def split: option.splits)
qed

theorem rollover_opens_unfinished_witness:
  "\<exists>n s'. advance sample_clock 1 (policy_cycles 5) (board [sample_ticket ''F1'' Feature Ready]) = (Some n, s')
   \<and> n = 1"
proof -
  let ?s = "board [sample_ticket ''F1'' Feature Ready]"
  have "board_ok ?s" using sample_board_ok [of "[(''F1'', Feature, Ready)]"] by (simp add: lifecycle_def)
  then have r: "reach sprint_init sprint_step ?s" by (intro reach_init board_init)
  obtain n s' where "roll_over sample_clock 1 (window_length (policy_cycles 5) ?s)
      (sy_bug_burn_floor (policy_cycles 5)) ?s = (n, s')" by fastforce
  then have a: "advance sample_clock 1 (policy_cycles 5) ?s = (Some n, s')"
    by (simp add: advance_def Let_def need_open_def)
  from rollover_opens_unfinished [OF r a] have "n = 1" by auto
  with a show ?thesis by blast
qed

text \<open>
  A running sprint is rolled over exactly when every committed ticket is closed or its
  window has elapsed, and a cycle window never elapses before the sprint is 240 minutes old,
  however fast the cycles run; otherwise \<open>advance\<close> changes nothing.
\<close>

theorem advance_guard:
  assumes "st_sprint s = Some sp"
  shows "(fst (advance ck c pol s) \<noteq> None \<longleftrightarrow>
      all_committed_done s sp
      \<or> (case sy_window pol of
           Cycles len \<Rightarrow> len \<le> c - sp_started_cycle sp \<and> 240 \<le> sprint_age_minutes ck (sp_started_at sp)
         | Days d \<Rightarrow> d \<le> sprint_age_days ck (sp_started_at sp)))
    \<and> (fst (advance ck c pol s) = None \<longrightarrow> snd (advance ck c pol s) = s)"
  using assms
  by (auto simp: advance_def Let_def need_open_def MIN_SPRINT_MINUTES_def
      split: prod.split sprint_window.split)

theorem advance_guard_witness:
  "advance sample_clock 9 (policy_cycles 5) (with_sprint [TicketId ''F1''] [sample_ticket ''F1'' Feature Ready])
   = (None, with_sprint [TicketId ''F1''] [sample_ticket ''F1'' Feature Ready])"
proof -
  let ?s = "with_sprint [TicketId ''F1''] [sample_ticket ''F1'' Feature Ready]"
  have "\<not> all_committed_done ?s (sample_sprint [TicketId ''F1''])"
    by (simp add: all_committed_done_def sample_sprint_def)
  moreover have "sprint_age_minutes sample_clock (sp_started_at (sample_sprint [TicketId ''F1''])) = 10"
    by (simp add: sprint_age_minutes_def sample_clock_def)
  ultimately show ?thesis
    using advance_guard [of ?s "sample_sprint [TicketId ''F1'']" sample_clock 9 "policy_cycles 5"]
    by (cases "advance sample_clock 9 (policy_cycles 5) ?s") (simp add: policy_cycles_def)
qed

section \<open>The commitment\<close>

lemma open_backlog_fills:
  assumes "length (open_backlog s fl) < sprint_capacity s" and "t \<in> set (st_tickets s)"
    and "is_feature t" and "tk_status t \<notin> {Done, Documented, Rejected}"
  shows "tk_id t \<in> set (open_backlog s fl)"
proof -
  let ?b = "bug_seats s fl"
  let ?fs = "filter (\<lambda>t. is_feature t \<and> tk_status t \<notin> {Done, Documented, Rejected} \<and> tk_id t \<notin> set ?b)
      (st_tickets s)"
  have "length ?b + min (length ?fs) (sprint_capacity s - length ?b) < sprint_capacity s"
    using assms(1) by (simp add: open_backlog_unfold)
  then have "take (sprint_capacity s - length ?b) ?fs = ?fs" by simp
  then have "set (open_backlog s fl) = set ?b \<union> tk_id ` set ?fs" by (simp add: open_backlog_unfold)
  then show ?thesis using assms(2-4) by auto
qed

text \<open>
  A commitment made from the backlog lists no ticket twice, reserves a seat for a ready
  feature when there is one, contains every open bug that blocks or precedes the next feature,
  consists of open bugs and unfinished features only, stays within the capacity unless the
  burn-down scope and the reserved seat alone exceed it, leaves no seat empty while an
  unfinished feature is left over, and the capacity is at least three.
\<close>

theorem open_backlog_commitment:
  assumes "distinct (map tk_id (st_tickets s))"
  shows "distinct (open_backlog s fl)
    \<and> ((\<exists>t \<in> set (st_tickets s). is_feature t \<and> tk_status t = Ready) \<longrightarrow>
         (\<exists>t \<in> set (st_tickets s). is_feature t \<and> tk_status t = Ready \<and> tk_id t \<in> set (open_backlog s fl)))
    \<and> set (burn_down_scope s) \<subseteq> set (open_backlog s fl)
    \<and> (\<forall>i \<in> set (open_backlog s fl). \<exists>t \<in> set (st_tickets s). tk_id t = i
         \<and> ((tk_kind t = Bug \<and> tk_status t = Open)
            \<or> (is_feature t \<and> tk_status t \<notin> {Done, Documented, Rejected})))
    \<and> length (open_backlog s fl) \<le> max (sprint_capacity s) (1 + length (burn_down_scope s))
    \<and> (length (open_backlog s fl) < sprint_capacity s \<longrightarrow>
         (\<forall>t \<in> set (st_tickets s). is_feature t \<and> tk_status t \<notin> {Done, Documented, Rejected} \<longrightarrow>
            tk_id t \<in> set (open_backlog s fl)))
    \<and> 3 \<le> sprint_capacity s"
proof (intro conjI)
  show "distinct (open_backlog s fl)" using assms by (rule distinct_open_backlog)
  show "(\<exists>t \<in> set (st_tickets s). is_feature t \<and> tk_status t = Ready) \<longrightarrow>
      (\<exists>t \<in> set (st_tickets s). is_feature t \<and> tk_status t = Ready \<and> tk_id t \<in> set (open_backlog s fl))"
  proof
    assume "\<exists>t \<in> set (st_tickets s). is_feature t \<and> tk_status t = Ready"
    then obtain i where i: "i \<in> set (reserved_seat s)"
      using reserved_seat_exists by (metis list.set_intros(1) neq_Nil_conv)
    from reserved_seat_props(3) [OF i] i open_backlog_scope(1) [of s fl]
    show "\<exists>t \<in> set (st_tickets s). is_feature t \<and> tk_status t = Ready \<and> tk_id t \<in> set (open_backlog s fl)"
      by blast
  qed
  show "set (burn_down_scope s) \<subseteq> set (open_backlog s fl)" by (rule open_backlog_scope)
  show "\<forall>i \<in> set (open_backlog s fl). \<exists>t \<in> set (st_tickets s). tk_id t = i
         \<and> ((tk_kind t = Bug \<and> tk_status t = Open)
            \<or> (is_feature t \<and> tk_status t \<notin> {Done, Documented, Rejected}))"
    using open_backlog_member unfolding committable_def by blast
  show "length (open_backlog s fl) < sprint_capacity s \<longrightarrow>
         (\<forall>t \<in> set (st_tickets s). is_feature t \<and> tk_status t \<notin> {Done, Documented, Rejected} \<longrightarrow>
            tk_id t \<in> set (open_backlog s fl))"
    using open_backlog_fills by blast
  show "3 \<le> sprint_capacity s" using sprint_capacity_floor by (simp add: CAPACITY_FLOOR_def)
qed (rule open_backlog_length)

theorem open_backlog_commitment_witness:
  "\<exists>t \<in> set [sample_ticket ''F1'' Feature Ready]. tk_id t
     \<in> set (open_backlog (board [sample_ticket ''F1'' Feature Ready]) None)"
  using open_backlog_commitment [of "board [sample_ticket ''F1'' Feature Ready]" None]
  by (simp add: is_feature_def)

text \<open>
  A feature that a person put on hold is committed to the next sprint whenever the
  commitment from the backlog leaves a seat, although \<open>OnHold\<close> is documented as skipped by
  the sprint's automatic commit; only the planned-sprint path skips it.
\<close>

theorem on_hold_is_committed:
  assumes "t \<in> set (st_tickets s)" and "tk_kind t \<in> {Feature, Chore}" and "tk_status t = OnHold"
    and "length (open_backlog s fl) < sprint_capacity s"
  shows "tk_id t \<in> set (open_backlog s fl)
    \<and> (ticket s (tk_id t) = Some t \<longrightarrow> tk_id t \<notin> set (live_plan s p))"
  using open_backlog_fills [OF assms(4,1)] assms(2,3)
  by (auto simp: is_feature_def live_plan_def)

theorem on_hold_is_committed_witness:
  "TicketId ''F1'' \<in> set (open_backlog (board [sample_ticket ''F1'' Feature OnHold]) None)"
proof -
  let ?t = "sample_ticket ''F1'' Feature OnHold"
  let ?s = "board [?t]"
  have "length (open_backlog ?s None) < sprint_capacity ?s"
    by (simp add: open_backlog_def sprint_capacity_def CAPACITY_FLOOR_def reserved_seat_def
        burn_down_scope_def next_feature_work_def is_feature_def Let_def)
  from on_hold_is_committed [OF _ _ _ this, of ?t] show ?thesis by simp
qed

section \<open>Parking\<close>

text \<open>
  The parking sweep moves exactly the tickets in play that failed three times or more to
  \<open>OnHold\<close>, reports them, takes them out of the running sprint and changes no other ticket;
  afterwards no ticket in play is exhausted, so running it again parks nothing.
\<close>

theorem auto_hold_exact:
  assumes "board_ok s" and "auto_hold_exhausted ck s = (held, s')"
  shows "held = map tk_id (filter (exhausted s) (st_tickets s))
    \<and> st_tickets s' = map (\<lambda>t. if exhausted s t
         then t\<lparr>tk_status := OnHold, tk_claimed_by := None, tk_claimed_at := None\<rparr> else t) (st_tickets s)
    \<and> committed_of s' = filter (\<lambda>i. i \<notin> set held) (committed_of s)
    \<and> (\<forall>t \<in> set (st_tickets s'). \<not> exhausted s' t)
    \<and> auto_hold_exhausted ck s' = ([], s')"
proof -
  note f = auto_hold_facts [OF _ _ assms(2)]
  have d: "distinct (map tk_id (st_tickets s))" and wf: "\<forall>t \<in> set (st_tickets s). wf_ticket t"
    using assms(1) by (simp_all add: board_ok_def)
  have "\<not> exhausted s' t" if "t \<in> set (st_tickets s')" for t
    using that f(2,7) [OF d wf] by (auto simp: exhausted_def split: if_splits)
  then show ?thesis
    using f [OF d wf] by (auto simp: moved_def auto_hold_exhausted_def)
qed

theorem auto_hold_exact_witness:
  "fst (auto_hold_exhausted sample_clock
     ((board [sample_ticket ''B1'' Bug Open])\<lparr>st_ticket_fail_attempts := [''B1'' \<mapsto> 3]\<rparr>))
   = [TicketId ''B1'']"
proof -
  let ?s = "(board [sample_ticket ''B1'' Bug Open])\<lparr>st_ticket_fail_attempts := [''B1'' \<mapsto> 3]\<rparr>"
  have ok: "board_ok ?s"
    using sample_wf [of Open Bug "''B1''"] by (simp add: board_ok_def lifecycle_def)
  obtain held s' where a: "auto_hold_exhausted sample_clock ?s = (held, s')" by fastforce
  have "held = map tk_id (filter (exhausted ?s) (st_tickets ?s))"
    using auto_hold_exact [OF ok a] by blast
  then show ?thesis using a by (simp add: exhausted_def HOLD_AFTER_ATTEMPTS_def)
qed

section \<open>Upkeep of the scope\<close>

lemma length_filter_disj:
  "(\<And>x. x \<in> set xs \<Longrightarrow> \<not> (p x \<and> q x)) \<Longrightarrow>
   length (filter (\<lambda>x. p x \<or> q x) xs) = length (filter p xs) + length (filter q xs)"
  by (induction xs) auto

lemma length_filter_ids:
  assumes "distinct (map f ts)" and "distinct P" and "set P \<subseteq> f ` set ts"
  shows "length (filter (\<lambda>t. f t \<in> set P) ts) = length P"
proof -
  have "set (map f (filter (\<lambda>t. f t \<in> set P) ts)) = set P" using assms(3) by auto
  moreover have "distinct (map f (filter (\<lambda>t. f t \<in> set P) ts))"
    using assms(1) by (rule distinct_map_filter)
  ultimately show ?thesis using assms(2) distinct_card by (metis length_map)
qed

lemma actionable_push:
  assumes d: "distinct (map tk_id (st_tickets s))" and P: "distinct P" "set P \<inter> set c = {}"
    and el: "\<forall>i \<in> set P. \<exists>t \<in> set (st_tickets s). tk_id t = i \<and> tk_status t \<in> {Ready, Open}"
  shows "actionable s (c @ P) = actionable s c + length P"
proof -
  let ?st = "\<lambda>t. tk_status t \<in> {Ready, Open}"
  have "?st t" if t: "t \<in> set (st_tickets s)" "tk_id t \<in> set P" for t
  proof -
    obtain u where u: "u \<in> set (st_tickets s)" "tk_id u = tk_id t" "?st u" using el t(2) by blast
    then have "u = t" using d t(1) by (metis distinct_map inj_onD)
    with u show ?thesis by simp
  qed
  then have "filter (\<lambda>t. tk_id t \<in> set (c @ P) \<and> ?st t) (st_tickets s)
      = filter (\<lambda>t. (tk_id t \<in> set c \<and> ?st t) \<or> tk_id t \<in> set P) (st_tickets s)"
    by (intro filter_cong) auto
  also have "length \<dots> = length (filter (\<lambda>t. tk_id t \<in> set c \<and> ?st t) (st_tickets s))
      + length (filter (\<lambda>t. tk_id t \<in> set P) (st_tickets s))"
    using P(2) by (intro length_filter_disj) auto
  also have "length (filter (\<lambda>t. tk_id t \<in> set P) (st_tickets s)) = length P"
    using d P(1) el by (intro length_filter_ids) auto
  finally show ?thesis by (simp add: actionable_def)
qed

text \<open>What a ticket must be to be pulled into a running sprint by the top-up.\<close>

definition pullable :: "priority option \<Rightarrow> ticket \<Rightarrow> bool" where
  "pullable fl t \<longleftrightarrow>
     tk_status t = Ready \<or> (tk_status t = Open \<and> \<not> below_bug_burn_floor fl (tk_priority t))"

lemma top_up_pool_pullable:
  "set (top_up_pool s fl c) = {t \<in> set (st_tickets s). tk_id t \<notin> set c \<and> pullable fl t}"
proof -
  have "(case tk_status t of Ready \<Rightarrow> True
      | Open \<Rightarrow> \<not> below_bug_burn_floor fl (tk_priority t) | _ \<Rightarrow> False) = pullable fl t" for t
    by (cases "tk_status t") (simp_all add: pullable_def)
  then show ?thesis by (simp add: top_up_pool_def)
qed

text \<open>
  The top-up keeps DEV fed: it only adds tickets, at most as many as are missing, each a
  ready ticket or an open one not parked by the burn floor; afterwards the sprint has at least
  \<open>floor\<close> actionable tickets or every ticket of the board that could be pulled in is committed.
  The picks are the best ranked: by priority, then by relevance to the active milestone, then
  by id.
\<close>

theorem top_up_feeds:
  assumes inv: "sprint_inv s" and sp: "st_sprint s = Some sp" and run: "top_up_scope floor s = (n, s')"
  defines "pool \<equiv> top_up_pool s (sp_bug_burn_floor sp) (committed_of s)"
  shows "\<exists>picks. committed_of s' = committed_of s @ picks \<and> n = length picks
      \<and> n \<le> floor - actionable s (committed_of s)
      \<and> prefix picks (map (\<lambda>(_, _, i). i) (ranked s pool))
      \<and> (\<forall>i \<in> set picks. \<exists>t \<in> set (st_tickets s). tk_id t = i \<and> pullable (sp_bug_burn_floor sp) t)
      \<and> (floor \<le> actionable s' (committed_of s')
         \<or> (\<forall>t \<in> set (st_tickets s'). pullable (sp_bug_burn_floor sp) t \<longrightarrow> tk_id t \<in> set (committed_of s')))"
proof -
  have c: "committed_of s = sp_committed sp" using sp by (simp add: committed_of_def)
  have same: "map_committed (retain_new []) s = s"
    using sprint_invD(3) [OF inv] sp
    by (simp add: map_committed_def committed_of_def retain_new_distinct)
  let ?act = "actionable s (committed_of s)"
  let ?ids = "map (\<lambda>(_, _, i). i) (ranked s pool)"
  define picks where "picks = (if floor \<le> ?act then [] else take (floor - ?act) ?ids)"
  have s': "committed_of s' = committed_of s @ picks" "n = length picks" "st_tickets s' = st_tickets s"
    using run sp c unfolding top_up_scope_def Let_def same picks_def pool_def
    by (auto split: if_splits)
  have sub: "set picks \<subseteq> tk_id ` set pool"
    using set_ranked [of s pool] by (auto simp: picks_def dest: in_set_takeD)
  have el: "\<forall>i \<in> set picks. \<exists>t \<in> set (st_tickets s). tk_id t = i
      \<and> pullable (sp_bug_burn_floor sp) t \<and> i \<notin> set (committed_of s)"
    using sub unfolding pool_def top_up_pool_pullable by auto
  have "distinct (map tk_id pool)"
    unfolding pool_def top_up_pool_def by (rule distinct_map_filter [OF sprint_invD(1) [OF inv]])
  then have "distinct ?ids" by (rule distinct_ranked)
  then have dp: "distinct picks" by (simp add: picks_def)
  have act': "actionable s' (committed_of s') = ?act + length picks"
    using actionable_push [OF sprint_invD(1) [OF inv] dp, of "committed_of s"] el s'
    by (auto simp: actionable_def pullable_def)
  have "floor \<le> ?act + length picks \<or> set picks = tk_id ` set pool"
    using set_ranked [of s pool] by (auto simp: picks_def min_def)
  then have fin: "floor \<le> actionable s' (committed_of s')
      \<or> (\<forall>t \<in> set (st_tickets s'). pullable (sp_bug_burn_floor sp) t \<longrightarrow> tk_id t \<in> set (committed_of s'))"
    unfolding act' using s' by (auto simp: pool_def top_up_pool_pullable)
  have "prefix picks ?ids" by (simp add: picks_def take_is_prefix)
  moreover have "n \<le> floor - ?act" using s'(2) by (simp add: picks_def)
  ultimately show ?thesis using s' el fin by blast
qed

theorem top_up_feeds_witness:
  "\<exists>s'. top_up_scope 1 (with_sprint [] [sample_ticket ''F1'' Feature Ready]) = (1, s')
   \<and> committed_of s' = [TicketId ''F1'']"
proof -
  let ?t = "sample_ticket ''F1'' Feature Ready"
  let ?s = "with_sprint [] [?t]"
  have "board_ok (board [?t])"
    using sample_board_ok [of "[(''F1'', Feature, Ready)]"] by (simp add: lifecycle_def)
  then have inv: "sprint_inv ?s" by (intro with_sprint_inv) simp_all
  obtain n s' where run: "top_up_scope 1 ?s = (n, s')" by fastforce
  have st: "st_tickets s' = [?t]"
    using run by (auto simp: top_up_scope_def Let_def split: option.splits if_splits)
  obtain picks where p: "committed_of s' = [] @ picks" "n = length picks" "n \<le> 1 - actionable ?s []"
      "\<forall>i \<in> set picks. \<exists>t \<in> {?t}. tk_id t = i"
      "1 \<le> actionable s' (committed_of s') \<or> (\<forall>t \<in> {?t}. pullable None t \<longrightarrow> tk_id t \<in> set (committed_of s'))"
    using top_up_feeds [OF inv _ run, of "sample_sprint []"] st
    by (auto simp: sample_sprint_def)
  have "actionable s' picks = 0" if "picks = []" using that by (simp add: actionable_def)
  then have "picks \<noteq> []" using p(1,5) by (auto simp: pullable_def)
  moreover have "length picks \<le> 1" using p(2,3) by simp
  ultimately have "picks = [TicketId ''F1'']" using p(4) by (cases picks) auto
  with p(1,2) run show ?thesis by simp
qed

lemma workable_map_committed: "set (workable (map_committed f s)) = set (workable s)"
proof -
  have "active_bug_burn_floor (map_committed f s) = active_bug_burn_floor s"
    by (cases "st_sprint s") (simp_all add: active_bug_burn_floor_def map_committed_def)
  then show ?thesis
    by (simp add: workable_def ready_feature_candidates_def open_bug_candidates_def set_candidates
        deps_satisfied_def)
qed

lemma case_option_ex: "(case x of None \<Rightarrow> False | Some t \<Rightarrow> P t) \<longleftrightarrow> (\<exists>t. x = Some t \<and> P t)"
  by (cases x) auto

lemma can_progress_iff:
  "committed_can_progress s \<longleftrightarrow>
   (\<exists>i \<in> set (committed_of s). i \<in> set (workable s)
      \<or> (\<exists>t. ticket s i = Some t \<and> tk_status t = InProgress))"
  by (cases "st_sprint s") (simp_all add: committed_can_progress_def committed_of_def case_option_ex)

text \<open>
  The refill ends starvation: if a sprint is running with a non-empty commitment and some
  ticket of the board can be worked on, then after the refill some committed ticket is workable
  or in progress; it commits at most one ticket.
\<close>

theorem refill_ends_starvation:
  assumes "st_sprint s = Some sp" and "sp_committed sp \<noteq> []" and "workable s \<noteq> []"
  shows "committed_can_progress (snd (refill_empty_scope s)) \<and> fst (refill_empty_scope s) \<le> 1"
proof -
  have push: "committed_can_progress (map_committed (\<lambda>c. c @ [i]) s)"
    if "committed_can_progress s \<or> i \<in> set (workable s)" for i
    using that assms(1) unfolding can_progress_iff by (auto simp: workable_map_committed)
  have keep: "committed_can_progress (snd (reserve_feature s))" if "committed_can_progress s"
    using that push by (auto simp: reserve_feature_def split: option.split)
  have one: "fst (reserve_feature s) \<le> 1" by (simp add: reserve_feature_def split: option.split)
  show ?thesis
  proof (cases "committed_can_progress s")
    case True
    then show ?thesis using keep one assms(1,2) by (simp add: refill_empty_scope_def)
  next
    case False
    obtain i where i: "i \<in> set (workable s)" using assms(3) by (cases "workable s") auto
    then have "i \<notin> set (committed_of s)" using False by (auto simp: can_progress_iff)
    then obtain j where j: "find (\<lambda>i. i \<notin> set (committed_of s)) (workable s) = Some j"
      using i by (cases "find (\<lambda>i. i \<notin> set (committed_of s)) (workable s)") (auto simp: find_None_all)
    then have "j \<in> set (workable s)" using find_Some_props by metis
    then show ?thesis using False j push assms(1,2) by (simp add: refill_empty_scope_def)
  qed
qed

theorem refill_ends_starvation_witness:
  "committed_can_progress (snd (refill_empty_scope (with_sprint [TicketId ''F1'']
     [sample_ticket ''F1'' Feature Pending, sample_ticket ''F2'' Feature Ready])))"
proof -
  let ?s = "with_sprint [TicketId ''F1''] [sample_ticket ''F1'' Feature Pending, sample_ticket ''F2'' Feature Ready]"
  have "sample_ticket ''F2'' Feature Ready \<in> {t \<in> set (st_tickets ?s).
      is_feature t \<and> tk_status t = Ready \<and> deps_satisfied ?s t}"
    by (simp add: is_feature_def deps_satisfied_def)
  then have "ready_feature_candidates ?s \<noteq> []"
    unfolding ready_feature_candidates_def candidates_Nil_iff by blast
  then have "workable ?s \<noteq> []" by (simp add: workable_def)
  from refill_ends_starvation [OF _ _ this] show ?thesis by (simp add: sample_sprint_def)
qed

section \<open>The queue of planned sprints\<close>

lemma position_unique:
  "distinct (map f xs) \<Longrightarrow> k < length xs \<Longrightarrow> position (\<lambda>x. f x = f (xs ! k)) xs = Some k"
proof (induction xs arbitrary: k)
  case (Cons x xs)
  show ?case
  proof (cases k)
    case 0
    then show ?thesis by simp
  next
    case (Suc m)
    with Cons.prems have "f x \<noteq> f (xs ! m)" by (auto simp: image_iff)
    with Suc Cons show ?thesis by simp
  qed
qed simp

text \<open>
  Moving a planned sprint reorders the queue and loses or duplicates no plan; the opposite
  move restores the state exactly; a refused move changes nothing.
\<close>

theorem move_queued_roundtrip:
  assumes "distinct (map ps_id (st_sprint_queue s))" and "move_queued_sprint i d s = (ok, s')"
  shows "mset (st_sprint_queue s') = mset (st_sprint_queue s)
    \<and> (if ok then move_queued_sprint i (- d) s' = (True, s) else s' = s)"
proof -
  let ?q = "st_sprint_queue s"
  have m: "mset (st_sprint_queue s') = mset ?q" using move_queued_mset [of i d s] assms(2) by simp
  show ?thesis
  proof (cases ok)
    case False
    with assms(2) m show ?thesis
      by (auto simp: move_queued_sprint_def Let_def split: option.splits if_splits)
  next
    case True
    obtain k where k: "position (\<lambda>p. ps_id p = i) ?q = Some k"
      and j: "0 \<le> int k + d" "nat (int k + d) < length ?q"
      and s': "s' = s\<lparr>st_sprint_queue := swap k (nat (int k + d)) ?q\<rparr>"
      using assms(2) True by (auto simp: move_queued_sprint_def Let_def not_le split: option.splits if_splits)
    let ?j = "nat (int k + d)"
    have kl: "k < length ?q" and ik: "ps_id (?q ! k) = i" using position_Some_lt [OF k] by auto
    let ?q' = "swap k ?j ?q"
    have "distinct (map ps_id ?q')"
      using m s' assms(1) by (simp add: mset_eq_imp_distinct_iff [of "map ps_id ?q'" "map ps_id ?q"])
    moreover have jl: "?j < length ?q'" using j by (simp add: swap_def)
    moreover have "?q' ! ?j = ?q ! k" using j kl by (simp add: swap_def nth_list_update)
    ultimately have "position (\<lambda>p. ps_id p = i) ?q' = Some ?j"
      using position_unique [of ps_id ?q' ?j] ik by simp
    moreover have "int ?j + - d = int k" using j by simp
    moreover have "length ?q' = length ?q" by (simp add: swap_def)
    ultimately have "move_queued_sprint i (- d) s' = (True, s'\<lparr>st_sprint_queue := swap ?j k ?q'\<rparr>)"
      using kl s' by (simp add: move_queued_sprint_def Let_def)
    then show ?thesis using m True s' swap_swap [OF kl j(2)] by simp
  qed
qed

theorem move_queued_roundtrip_witness:
  "\<exists>s'. move_queued_sprint 1 1 (snd (queue_sprint sample_clock ''b'' [] ''po''
      (snd (queue_sprint sample_clock ''a'' [] ''po'' (board []))))) = (True, s')
   \<and> move_queued_sprint 1 (- 1) s' = (True, snd (queue_sprint sample_clock ''b'' [] ''po''
      (snd (queue_sprint sample_clock ''a'' [] ''po'' (board [])))))"
proof -
  let ?s = "snd (queue_sprint sample_clock ''b'' [] ''po'' (snd (queue_sprint sample_clock ''a'' [] ''po'' (board []))))"
  have ids: "map ps_id (st_sprint_queue ?s) = [1, 2]" by (simp add: queue_sprint_def Let_def)
  then have "fst (move_queued_sprint 1 1 ?s)"
    by (simp add: move_queued_sprint_def queue_sprint_def Let_def)
  then obtain s' where m: "move_queued_sprint 1 1 ?s = (True, s')" by (metis prod.collapse)
  have "distinct (map ps_id (st_sprint_queue ?s))" using ids by simp
  from move_queued_roundtrip [OF this m] m show ?thesis by auto
qed

end
