(* ===== verification/Value_Objects.thy ===== *)
theory Value_Objects
  imports Kinds "HOL-Library.Word"
begin

text \<open>
  The remaining value objects of the domain crate: the UI depth contract (\<open>depth.rs\<close>), product
  goals (\<open>goal.rs\<close>), semantic versions (\<open>version.rs\<close>), artifacts (\<open>artifact.rs\<close>) and debt
  signals (\<open>debt.rs\<close>). The parser of the \<open>semver\<close> crate is the parameter \<open>from_str\<close>.
\<close>

section \<open>The depth contract (depth.rs)\<close>

datatype depth_element_kind = DList | DNumber | DState | DAction

definition depth_parse :: "string \<Rightarrow> depth_element_kind option" where
  "depth_parse name =
     (if name = ''list'' then Some DList
      else if name = ''number'' then Some DNumber
      else if name = ''state'' then Some DState
      else if name = ''action'' then Some DAction
      else None)"

definition depth_name :: "depth_element_kind \<Rightarrow> string" where
  "depth_name k =
     (case k of DList \<Rightarrow> ''list'' | DNumber \<Rightarrow> ''number'' | DState \<Rightarrow> ''state'' | DAction \<Rightarrow> ''action'')"

definition depth_required :: "depth_element_kind \<Rightarrow> string list" where
  "depth_required k =
     (case k of
        DList \<Rightarrow> [''filter'', ''sort'', ''counts'', ''pagination'', ''empty_state'']
      | DNumber \<Rightarrow> [''window'', ''delta'', ''zero_state_hint'']
      | DState \<Rightarrow> [''attribution'', ''off_reason'']
      | DAction \<Rightarrow> [''inverse'', ''confirm'', ''permission_dimmed''])"

definition depth_accepts :: "depth_element_kind \<Rightarrow> string \<Rightarrow> bool" where
  "depth_accepts k capability \<longleftrightarrow> capability \<in> set (depth_required k)"

record depth_element =
  de_id :: string
  de_kind :: depth_element_kind
  de_has :: "string list"

record depth_violation =
  dv_element :: string
  dv_kind :: depth_element_kind
  dv_missing :: "string list"

definition violation_message :: "depth_violation \<Rightarrow> string" where
  "violation_message v =
     ''element '' @ [CHR 0x60] @ dv_element v @ [CHR 0x60] @ '' (kind '' @ depth_name (dv_kind v)
     @ '') is missing depth: '' @ join '', '' (dv_missing v)"

definition depth_missing :: "depth_element \<Rightarrow> string list" where
  "depth_missing e = filter (\<lambda>req. req \<notin> set (de_has e)) (depth_required (de_kind e))"

definition depth_evaluate :: "depth_element list \<Rightarrow> depth_violation list" where
  "depth_evaluate elements =
     List.map_filter (\<lambda>e.
       if depth_missing e \<noteq> []
       then Some \<lparr>dv_element = de_id e, dv_kind = de_kind e, dv_missing = depth_missing e\<rparr>
       else None) elements"

section \<open>Goals (goal.rs)\<close>

datatype goal_status = Active | Retired

definition goal_status_str :: "goal_status \<Rightarrow> string" where
  "goal_status_str s = (case s of Active \<Rightarrow> ''active'' | Retired \<Rightarrow> ''retired'')"

record goal =
  gl_id :: goal_id
  gl_title :: string
  gl_status :: goal_status

definition goal_new :: "goal_id \<Rightarrow> string \<Rightarrow> domain_error + goal" where
  "goal_new i title =
     (if is_blank title then Inl (Empty ''goal_title'')
      else Inr \<lparr>gl_id = i, gl_title = trim title, gl_status = Active\<rparr>)"

definition goal_rename :: "string \<Rightarrow> (goal, domain_error, unit) op" where
  "goal_rename title g =
     (if is_blank title then (Inl (Empty ''goal_title''), g)
      else (Inr (), g\<lparr>gl_title := trim title\<rparr>))"

definition goal_retire :: "goal \<Rightarrow> goal" where
  "goal_retire g = g\<lparr>gl_status := Retired\<rparr>"

definition goal_is_active :: "goal \<Rightarrow> bool" where
  "goal_is_active g \<longleftrightarrow> gl_status g = Active"

section \<open>Versions and artifacts (version.rs, artifact.rs)\<close>

datatype bump = Major | Minor | Patch

text \<open>
  \<open>semver::Version\<close>: the three numbers are \<open>u64\<close>; \<open>Version::new\<close> leaves the pre-release and
  build parts empty. An addition past \<open>u64::MAX\<close> wraps, as in a release build.
\<close>

record sem_ver =
  sv_major :: "64 word"
  sv_minor :: "64 word"
  sv_patch :: "64 word"
  sv_pre :: string
  sv_build :: string

definition sem_ver_new :: "64 word \<Rightarrow> 64 word \<Rightarrow> 64 word \<Rightarrow> sem_ver" where
  "sem_ver_new ma mi pa =
     \<lparr>sv_major = ma, sv_minor = mi, sv_patch = pa, sv_pre = '''', sv_build = ''''\<rparr>"

definition sem_ver_parse :: "(string \<Rightarrow> sem_ver option) \<Rightarrow> string \<Rightarrow> domain_error + sem_ver" where
  "sem_ver_parse from_str raw =
     (case from_str raw of Some v \<Rightarrow> Inr v | None \<Rightarrow> Inl (InvalidVersion raw))"

definition bumped :: "bump \<Rightarrow> sem_ver \<Rightarrow> sem_ver" where
  "bumped b v =
     (case b of
        Major \<Rightarrow> sem_ver_new (sv_major v + 1) 0 0
      | Minor \<Rightarrow> sem_ver_new (sv_major v) (sv_minor v + 1) 0
      | Patch \<Rightarrow> sem_ver_new (sv_major v) (sv_minor v) (sv_patch v + 1))"

definition sem_ver_default :: sem_ver where
  "sem_ver_default = sem_ver_new 0 0 0"

record artifact_version =
  av_project :: string
  av_artifact :: string
  av_version :: sem_ver

definition artifact_version_new ::
  "(string \<Rightarrow> sem_ver option) \<Rightarrow> string \<Rightarrow> string \<Rightarrow> string \<Rightarrow> domain_error + artifact_version" where
  "artifact_version_new from_str project art version =
     (case sem_ver_parse from_str version of
        Inl e \<Rightarrow> Inl e
      | Inr v \<Rightarrow> Inr \<lparr>av_project = project, av_artifact = art, av_version = v\<rparr>)"

section \<open>Debt signals (debt.rs)\<close>

datatype debt_signal_kind = LintRegression | DeadCodeSuspects | MissingModuleDocs

definition debt_label :: "debt_signal_kind \<Rightarrow> string" where
  "debt_label k =
     (case k of
        LintRegression \<Rightarrow> ''lint regression''
      | DeadCodeSuspects \<Rightarrow> ''dead-code suspects''
      | MissingModuleDocs \<Rightarrow> ''missing module docs'')"

record debt_signal =
  db_kind :: debt_signal_kind
  db_count :: "64 word"

definition debt_signal_new :: "debt_signal_kind \<Rightarrow> 64 word \<Rightarrow> debt_signal" where
  "debt_signal_new k n = \<lparr>db_kind = k, db_count = n\<rparr>"

section \<open>Lemmas\<close>

lemma depth_parse_name [simp]: "depth_parse (depth_name k) = Some k"
  by (cases k) (simp_all add: depth_parse_def depth_name_def)

lemma depth_name_parse: "depth_parse n = Some k \<Longrightarrow> n = depth_name k"
  by (auto simp: depth_parse_def depth_name_def split: if_splits)

lemma depth_required_disjoint:
  "k \<noteq> k' \<Longrightarrow> set (depth_required k) \<inter> set (depth_required k') = {}"
  by (cases k; cases k') (simp_all add: depth_required_def)

lemma depth_evaluate_member:
  "v \<in> set (depth_evaluate es) \<longleftrightarrow>
   (\<exists>e \<in> set es. depth_missing e \<noteq> []
      \<and> v = \<lparr>dv_element = de_id e, dv_kind = de_kind e, dv_missing = depth_missing e\<rparr>)"
  by (auto simp: depth_evaluate_def List.map_filter_def)

lemma depth_missing_iff:
  "c \<in> set (depth_missing e) \<longleftrightarrow> depth_accepts (de_kind e) c \<and> c \<notin> set (de_has e)"
  by (auto simp: depth_missing_def depth_accepts_def)

text \<open>The order of released versions: major, then minor, then patch.\<close>

definition released_less :: "sem_ver \<Rightarrow> sem_ver \<Rightarrow> bool" where
  "released_less a b \<longleftrightarrow>
     sv_major a < sv_major b
     \<or> (sv_major a = sv_major b
        \<and> (sv_minor a < sv_minor b
           \<or> (sv_minor a = sv_minor b \<and> sv_patch a < sv_patch b)))"

lemma word_less_suc:
  assumes "(x :: 64 word) \<noteq> - 1"
  shows "x < x + 1"
proof -
  have "1 + x \<noteq> 0" using assms by (metis add.commute add_eq_0_iff)
  then have "unat (1 + x) = Suc (unat x)" by (rule unatSuc)
  then show ?thesis by (simp add: word_less_nat_alt add.commute)
qed

end
