(* ===== verification/Audit_Chain.thy ===== *)
theory Audit_Chain
  imports Prelude "HOL-Library.Word"
begin

text \<open>
  The tamper-evident audit log (\<open>infrastructure/src/audit_chain.rs\<close>) and the operations of the
  SQL sink on it (\<open>infrastructure/src/audit_sink.rs\<close>): recording an entry, sealing rows that
  predate the chain, pruning by retention and verification. The table is the list of its rows in
  id order.

  SHA-256 is outside the sources: \<open>sha\<close> maps the hashed text (its UTF-8 bytes) to the bytes of
  its digest. The sign for "not equal" in a report is written \<open>!=\<close>.
\<close>

section \<open>Data\<close>

definition GENESIS_PREV :: string where "GENESIS_PREV = replicate 64 CHR ''0''"

record chained_entry =
  ce_prev :: string
  ce_at :: string
  ce_user :: string
  ce_action :: string
  ce_status :: "16 word"
  ce_hash :: string

record audit_record =
  ar_at :: string
  ar_user :: string
  ar_action :: string
  ar_status :: "16 word"

record chain_break =
  cb_index :: nat
  cb_reason :: string

type_synonym digest_fun = "string \<Rightarrow> 8 word list"

section \<open>Hashing and verification\<close>

definition HEX :: string where "HEX = ''0123456789abcdef''"

fun to_hex :: "8 word list \<Rightarrow> string" where
  "to_hex [] = []"
| "to_hex (b # bs) = HEX ! unat (drop_bit 4 b) # HEX ! unat (and b 15) # to_hex bs"

abbreviation newline :: char where "newline \<equiv> CHR 0x0A"

definition row_message :: "string \<Rightarrow> string \<Rightarrow> string \<Rightarrow> string \<Rightarrow> 16 word \<Rightarrow> string" where
  "row_message prev tm user action status =
     prev @ [newline] @ tm @ [newline] @ user @ [newline] @ action @ [newline] @ nat_str (unat status)"

definition row_hash :: "digest_fun \<Rightarrow> string \<Rightarrow> string \<Rightarrow> string \<Rightarrow> string \<Rightarrow> 16 word \<Rightarrow> string" where
  "row_hash sha prev tm user action status = to_hex (sha (row_message prev tm user action status))"

definition short_hash :: "string \<Rightarrow> string" where
  "short_hash h = (case take_bytes 8 h of Some p \<Rightarrow> p | None \<Rightarrow> h)"

definition entry_hash :: "digest_fun \<Rightarrow> chained_entry \<Rightarrow> string" where
  "entry_hash sha r = row_hash sha (ce_prev r) (ce_at r) (ce_user r) (ce_action r) (ce_status r)"

fun verify_from :: "digest_fun \<Rightarrow> nat \<Rightarrow> string \<Rightarrow> chained_entry list \<Rightarrow> chain_break + nat" where
  "verify_from sha index expected_prev [] = Inr index"
| "verify_from sha index expected_prev (r # rs) =
     (if ce_prev r \<noteq> expected_prev then
        Inl \<lparr>cb_index = index, cb_reason = ''prev mismatch: row links to '' @ short_hash (ce_prev r)
              @ '' but the chain tip here is '' @ short_hash expected_prev\<rparr>
      else if ce_hash r \<noteq> entry_hash sha r then
        Inl \<lparr>cb_index = index, cb_reason = ''content was altered: stored hash '' @ short_hash (ce_hash r)
              @ '' != recomputed '' @ short_hash (entry_hash sha r)\<rparr>
      else verify_from sha (index + 1) (ce_hash r) rs)"

definition verify_chain :: "digest_fun \<Rightarrow> chained_entry list \<Rightarrow> chain_break + nat" where
  "verify_chain sha rows = verify_from sha 0 GENESIS_PREV rows"

section \<open>The table of the SQL sink\<close>

text \<open>\<open>SqlAuditSink::record\<close> inside its critical section, with the database available.\<close>

definition record_tip :: "chained_entry list \<Rightarrow> string" where
  "record_tip rows = (if rows = [] \<or> ce_hash (last rows) = [] then GENESIS_PREV else ce_hash (last rows))"

definition record_row :: "digest_fun \<Rightarrow> audit_record \<Rightarrow> chained_entry list \<Rightarrow> chained_entry list" where
  "record_row sha e rows =
     (let prev = record_tip rows in
      rows @ [\<lparr>ce_prev = prev, ce_at = ar_at e, ce_user = ar_user e, ce_action = ar_action e,
               ce_status = ar_status e,
               ce_hash = row_hash sha prev (ar_at e) (ar_user e) (ar_action e) (ar_status e)\<rparr>])"

text \<open>\<open>backfill_chain\<close>: the rows with an empty hash are sealed in id order, starting from the newest sealed row.\<close>

definition seal_row :: "digest_fun \<Rightarrow> string \<Rightarrow> chained_entry \<Rightarrow> chained_entry" where
  "seal_row sha prev r =
     r\<lparr>ce_prev := prev,
       ce_hash := row_hash sha prev (ce_at r) (ce_user r) (ce_action r) (ce_status r)\<rparr>"

fun seal_rows :: "digest_fun \<Rightarrow> string \<Rightarrow> chained_entry list \<Rightarrow> chained_entry list" where
  "seal_rows sha prev [] = []"
| "seal_rows sha prev (r # rs) =
     (if ce_hash r = [] then seal_row sha prev r # seal_rows sha (ce_hash (seal_row sha prev r)) rs
      else r # seal_rows sha prev rs)"

definition backfill_chain :: "digest_fun \<Rightarrow> chained_entry list \<Rightarrow> chained_entry list" where
  "backfill_chain sha rows =
     seal_rows sha
       (case find (\<lambda>r. ce_hash r \<noteq> []) (rev rows) of None \<Rightarrow> GENESIS_PREV | Some r \<Rightarrow> ce_hash r) rows"

definition prune :: "string \<Rightarrow> chained_entry list \<Rightarrow> chained_entry list" where
  "prune cutoff rows = filter (\<lambda>r. \<not> ce_at r < cutoff) rows"

section \<open>What verification accepts\<close>

text \<open>\<open>linked sha tip rows\<close>: the rows form a chain that continues from \<open>tip\<close>.\<close>

fun linked :: "digest_fun \<Rightarrow> string \<Rightarrow> chained_entry list \<Rightarrow> bool" where
  "linked sha tip [] \<longleftrightarrow> True"
| "linked sha tip (r # rs) \<longleftrightarrow> ce_prev r = tip \<and> ce_hash r = entry_hash sha r \<and> linked sha (ce_hash r) rs"

definition tip_of :: "string \<Rightarrow> chained_entry list \<Rightarrow> string" where
  "tip_of tip rows = (if rows = [] then tip else ce_hash (last rows))"

lemma tip_of_simps [simp]:
  "tip_of tip [] = tip"
  "tip_of tip (rs @ [r]) = ce_hash r"
  "tip_of tip (r # rs) = tip_of (ce_hash r) rs"
  by (simp_all add: tip_of_def)

lemma linked_append:
  "linked sha tip (xs @ ys) \<longleftrightarrow> linked sha tip xs \<and> linked sha (tip_of tip xs) ys"
  by (induction xs arbitrary: tip) auto

lemma verify_from_ok: "linked sha tip rows \<Longrightarrow> verify_from sha i tip rows = Inr (i + length rows)"
  by (induction rows arbitrary: i tip) auto

lemma verify_from_break:
  assumes "\<not> linked sha tip rows"
  obtains k reason where "verify_from sha i tip rows = Inl \<lparr>cb_index = i + k, cb_reason = reason\<rparr>"
    and "k < length rows" and "linked sha tip (take k rows)" and "\<not> linked sha tip (take (Suc k) rows)"
  using assms
proof (induction rows arbitrary: i tip thesis)
  case Nil
  then show ?case by simp
next
  case (Cons r rs)
  show ?case
  proof (cases "ce_prev r = tip \<and> ce_hash r = entry_hash sha r")
    case True
    with Cons.prems(2) have "\<not> linked sha (ce_hash r) rs" by simp
    from Cons.IH [OF _ this, of "i + 1"] obtain k reason where
      k: "verify_from sha (i + 1) (ce_hash r) rs = Inl \<lparr>cb_index = i + 1 + k, cb_reason = reason\<rparr>"
        "k < length rs" "linked sha (ce_hash r) (take k rs)" "\<not> linked sha (ce_hash r) (take (Suc k) rs)"
      by blast
    with True show ?thesis by (intro Cons.prems(1) [of "Suc k" reason]) simp_all
  next
    case False
    then show ?thesis by (cases "ce_prev r = tip") (force intro: Cons.prems(1) [of 0])+
  qed
qed

lemma verify_chain_ok_iff: "verify_chain sha rows = Inr n \<longleftrightarrow> linked sha GENESIS_PREV rows \<and> n = length rows"
proof (cases "linked sha GENESIS_PREV rows")
  case True
  then show ?thesis by (auto simp: verify_chain_def verify_from_ok)
next
  case False
  then show ?thesis by (rule verify_from_break [of _ _ _ 0]) (simp add: verify_chain_def False)
qed

section \<open>Appending and sealing\<close>

lemma to_hex_Nil_iff [simp]: "to_hex bs = [] \<longleftrightarrow> bs = []"
  by (cases bs) auto

lemma linked_tip_nonempty:
  assumes "\<And>m. sha m \<noteq> []" and "linked sha tip rows" and "rows \<noteq> []"
  shows "ce_hash (last rows) \<noteq> []"
  using assms(2,3)
  by (induction rows arbitrary: tip) (auto simp: entry_hash_def row_hash_def assms(1))

lemma record_tip_linked:
  assumes "\<And>m. sha m \<noteq> []" and "linked sha GENESIS_PREV rows"
  shows "record_tip rows = tip_of GENESIS_PREV rows"
  using linked_tip_nonempty [OF assms(1) assms(2)] by (auto simp: record_tip_def tip_of_def)

lemma record_row_linked:
  assumes "\<And>m. sha m \<noteq> []" and "linked sha GENESIS_PREV rows"
  shows "linked sha GENESIS_PREV (record_row sha e rows)"
  using assms record_tip_linked [OF assms]
  by (simp add: record_row_def Let_def linked_append entry_hash_def)

lemma record_rows_linked:
  assumes "\<And>m. sha m \<noteq> []" and "linked sha GENESIS_PREV rows"
  shows "linked sha GENESIS_PREV (fold (record_row sha) es rows)
    \<and> length (fold (record_row sha) es rows) = length rows + length es"
  using assms(2)
proof (induction es arbitrary: rows)
  case Nil
  then show ?case by simp
next
  case (Cons e es)
  from Cons.IH [OF record_row_linked [OF assms(1) Cons.prems]] show ?case
    by (simp add: record_row_def Let_def)
qed

lemma seal_rows_fresh:
  assumes "\<forall>r \<in> set rows. ce_hash r = []"
  shows "linked sha tip (seal_rows sha tip rows)"
  using assms by (induction rows arbitrary: tip) (auto simp: seal_row_def entry_hash_def)

lemma seal_rows_sealed:
  assumes "\<forall>r \<in> set rows. ce_hash r \<noteq> []"
  shows "seal_rows sha tip (rows @ rest) = rows @ seal_rows sha tip rest"
  using assms by (induction rows) auto

lemma find_rev_tip:
  assumes "\<forall>r \<in> set old. ce_hash r \<noteq> []" and "\<forall>r \<in> set new. ce_hash r = []"
  shows "(case find (\<lambda>r. ce_hash r \<noteq> []) (rev (old @ new)) of None \<Rightarrow> GENESIS_PREV | Some r \<Rightarrow> ce_hash r)
    = tip_of GENESIS_PREV old"
proof -
  have "find (\<lambda>r. ce_hash r \<noteq> []) (rev new @ rev old) = find (\<lambda>r. ce_hash r \<noteq> []) (rev old)"
    using assms(2) by (intro find_skip) simp
  also have "\<dots> = (if old = [] then None else Some (last old))"
    using assms(1) by (cases old rule: rev_cases) auto
  finally show ?thesis by (simp add: tip_of_def)
qed

text \<open>Sealing a table whose unsealed rows come last extends its chain; sealed rows are not touched.\<close>

lemma backfill_linked:
  assumes "linked sha GENESIS_PREV old" and "\<forall>r \<in> set old. ce_hash r \<noteq> []"
    and "\<forall>r \<in> set new. ce_hash r = []"
  shows "linked sha GENESIS_PREV (backfill_chain sha (old @ new))
    \<and> take (length old) (backfill_chain sha (old @ new)) = old"
proof -
  have "backfill_chain sha (old @ new) = old @ seal_rows sha (tip_of GENESIS_PREV old) new"
    using find_rev_tip [OF assms(2,3)] seal_rows_sealed [OF assms(2)] by (simp add: backfill_chain_def)
  then show ?thesis using assms(1) seal_rows_fresh [OF assms(3)] by (simp add: linked_append)
qed

lemma seal_rows_length [simp]: "length (seal_rows sha tip rows) = length rows"
  by (induction rows arbitrary: tip) auto

section \<open>Tamper evidence\<close>

lemma split_newline:
  assumes "newline \<notin> set a" "newline \<notin> set b"
  shows "a @ newline # x = b @ newline # y \<longleftrightarrow> a = b \<and> x = y"
proof
  assume eq: "a @ newline # x = b @ newline # y"
  have "takeWhile (\<lambda>c. c \<noteq> newline) (d @ newline # z) = d" if "newline \<notin> set d" for d z
    using that by (induction d) auto
  with eq assms have "a = b" by metis
  with eq show "a = b \<and> x = y" by simp
qed simp

lemma nibbles:
  fixes b :: "8 word"
  shows "unat (drop_bit 4 b) = unat b div 16" "unat (and b 15) = unat b mod 16"
proof -
  show "unat (drop_bit 4 b) = unat b div 16"
    by (simp add: unat_drop_bit_eq drop_bit_eq_div unat_div)
  have "and b 15 = take_bit 4 b"
    by (simp add: take_bit_eq_mask mask_eq_exp_minus_1)
  then show "unat (and b 15) = unat b mod 16"
    by (simp add: take_bit_eq_mod unat_mod)
qed

lemma nibble_bound: "unat (b :: 8 word) div 16 < 16"
  using unsigned_less [of b, where ?'a = nat] by (simp add: less_mult_imp_div_less)

lemma HEX_simps: "length HEX = 16" "distinct HEX" "newline \<notin> set HEX"
  by (simp_all add: HEX_def)

lemma to_hex_plain: "newline \<notin> set (to_hex bs)"
proof (induction bs)
  case (Cons b bs)
  have "HEX ! (unat b div 16) \<in> set HEX" "HEX ! (unat b mod 16) \<in> set HEX"
    using nibble_bound [of b] HEX_simps by (simp_all add: nth_mem)
  with Cons HEX_simps(3) show ?case by (auto simp: nibbles)
qed simp

lemma to_hex_inj: "to_hex bs = to_hex cs \<Longrightarrow> bs = cs"
proof (induction bs arbitrary: cs)
  case (Cons b bs)
  then obtain c cs' where cs: "cs = c # cs'" by (cases cs) auto
  with Cons.prems have "unat b div 16 = unat c div 16" "unat b mod 16 = unat c mod 16"
    using HEX_simps(1,2) nibble_bound by (simp_all add: nibbles nth_eq_iff_index_eq)
  then have "unat b = unat c" by (metis mod_div_mult_eq)
  then have "b = c" by (simp add: word_unat_eq_iff)
  with Cons cs show ?case by simp
next
  case Nil
  then show ?case by (metis to_hex_Nil_iff to_hex.simps(1))
qed

lemma nat_str_plain: "newline \<notin> set (nat_str n)"
  using nat_str_digits [of newline n] by auto

definition message_of :: "chained_entry \<Rightarrow> string" where
  "message_of r = row_message (ce_prev r) (ce_at r) (ce_user r) (ce_action r) (ce_status r)"

definition plain_fields :: "chained_entry \<Rightarrow> bool" where
  "plain_fields r \<longleftrightarrow> newline \<notin> set (ce_at r) \<and> newline \<notin> set (ce_user r) \<and> newline \<notin> set (ce_action r)"

lemma message_inj:
  assumes "message_of r = message_of q" and "plain_fields r" "plain_fields q"
    and "newline \<notin> set (ce_prev r)" "newline \<notin> set (ce_prev q)" and "ce_hash r = ce_hash q"
  shows "r = q"
proof -
  from assms(1) have "ce_prev r = ce_prev q \<and> ce_at r = ce_at q \<and> ce_user r = ce_user q
      \<and> ce_action r = ce_action q \<and> nat_str (unat (ce_status r)) = nat_str (unat (ce_status q))"
    using assms(2-5) by (simp add: message_of_def row_message_def plain_fields_def split_newline)
  with assms(6) show ?thesis
    by (auto dest!: nat_str_inj simp: word_unat_eq_iff intro: chained_entry.equality)
qed

lemma linked_prev_plain:
  assumes "linked sha tip rows" and "newline \<notin> set tip" and "r \<in> set rows"
  shows "newline \<notin> set (ce_prev r)"
  using assms
proof (induction rows arbitrary: tip)
  case (Cons q rows)
  have "newline \<notin> set (ce_hash q)"
    using Cons.prems(1) by (simp add: entry_hash_def row_hash_def to_hex_plain)
  with Cons show ?case by auto
qed simp

lemma GENESIS_plain: "newline \<notin> set GENESIS_PREV"
  by (simp add: GENESIS_PREV_def)

lemma linked_hash: "linked sha tip rows \<Longrightarrow> r \<in> set rows \<Longrightarrow> ce_hash r = to_hex (sha (message_of r))"
  by (induction rows arbitrary: tip) (auto simp: entry_hash_def row_hash_def message_of_def)

text \<open>
  Two chains that verify and end in the same hash are the same chain, unless two of the hashed
  rows collide or one hashes to the genesis anchor.
\<close>

lemma same_tip_same_chain:
  assumes "linked sha GENESIS_PREV rows" and "linked sha GENESIS_PREV rows'"
    and "inj_on sha (message_of ` (set rows \<union> set rows'))"
    and "\<forall>r \<in> set rows \<union> set rows'. plain_fields r \<and> ce_hash r \<noteq> GENESIS_PREV"
    and "tip_of GENESIS_PREV rows = tip_of GENESIS_PREV rows'"
  shows "rows = rows'"
  using assms
proof (induction rows arbitrary: rows' rule: rev_induct)
  case Nil
  then show ?case by (cases rows' rule: rev_cases) auto
next
  case (snoc r rs)
  from snoc.prems(4,5) obtain q qs where q: "rows' = qs @ [q]"
    by (cases rows' rule: rev_cases) auto
  have h: "ce_hash r = ce_hash q" using snoc.prems(5) q by simp
  then have "sha (message_of r) = sha (message_of q)"
    using linked_hash [OF snoc.prems(1), of r] linked_hash [OF snoc.prems(2), of q] q
    by (simp add: to_hex_inj)
  then have m: "message_of r = message_of q"
    by (rule inj_onD [OF snoc.prems(3)]) (simp_all add: q)
  have rq: "r = q"
    using message_inj [OF m _ _ _ _ h] snoc.prems(4) q
      linked_prev_plain [OF snoc.prems(1) GENESIS_plain, of r]
      linked_prev_plain [OF snoc.prems(2) GENESIS_plain, of q] by simp
  have l: "linked sha GENESIS_PREV rs" "linked sha GENESIS_PREV qs"
    "tip_of GENESIS_PREV rs = ce_prev r" "tip_of GENESIS_PREV qs = ce_prev q"
    using snoc.prems(1,2) q by (simp_all add: linked_append)
  have "inj_on sha (message_of ` (set rs \<union> set qs))"
    using snoc.prems(3) q by (elim inj_on_subset) auto
  with snoc.IH [OF l(1,2)] snoc.prems(4) q l(3,4) rq show ?case by auto
qed

section \<open>Truncation and pruning\<close>

lemma truncated_verifies: "linked sha tip rows \<Longrightarrow> linked sha tip (take k rows)"
  by (metis append_take_drop_id linked_append)

text \<open>Dropping the oldest rows of a chain, as the retention does, breaks it at row 0.\<close>

lemma drop_breaks:
  assumes "linked sha GENESIS_PREV rows" and "0 < k" and "k < length rows"
    and "\<forall>r \<in> set rows. ce_hash r \<noteq> GENESIS_PREV"
  shows "\<exists>reason. verify_chain sha (drop k rows) = Inl \<lparr>cb_index = 0, cb_reason = reason\<rparr>"
proof -
  have "linked sha (tip_of GENESIS_PREV (take k rows)) (drop k rows)"
    using assms(1) by (metis append_take_drop_id linked_append)
  moreover have "tip_of GENESIS_PREV (take k rows) \<noteq> GENESIS_PREV"
    using assms(2-4) in_set_takeD [OF last_in_set [of "take k rows"]] by (auto simp: tip_of_def)
  ultimately show ?thesis
    using assms(3) by (cases "drop k rows") (auto simp: verify_chain_def)
qed

lemma prune_sorted:
  assumes "sorted (map ce_at rows)"
  shows "prune cutoff rows = dropWhile (\<lambda>r. ce_at r < cutoff) rows"
  using assms
proof (induction rows)
  case (Cons r rows)
  show ?case
  proof (cases "ce_at r < cutoff")
    case False
    with Cons.prems have "\<forall>q \<in> set (r # rows). \<not> ce_at q < cutoff" by fastforce
    then have "filter (\<lambda>q. \<not> ce_at q < cutoff) (r # rows) = r # rows" by (simp only: filter_True)
    with False show ?thesis by (simp add: prune_def)
  qed (use Cons in \<open>simp add: prune_def\<close>)
qed (simp add: prune_def)

end
