(* ===== verification/Merge_Lock.thy ===== *)
theory Merge_Lock
  imports Prelude
begin

text \<open>
  The per-branch merge lease (\<open>infrastructure/src/kv_merge_lock.rs\<close>) on the revisioned document
  table of the hub (\<open>infrastructure/src/kv_doc.rs\<close>). An acquire or a release is several awaits,
  so several holders interleave: a process is a program counter between two awaits, and a
  schedule is a list of events. The theory proves that the interleaved protocol refines an
  atomic lease, as long as a release writes its tombstone before the lease it read has run out,
  and that without this condition a release can clear the live lease of somebody else.

  The JSON of a lease is outside the sources: \<open>enc\<close> and \<open>dec\<close> stand for \<open>serde_json\<close>, with
  \<open>'j\<close> the stored documents, and a decoder that reads back what was encoded.
\<close>

section \<open>Data\<close>

record lease_doc =
  ld_holder :: string
  ld_why :: string
  ld_acquired_at_unix :: int
  ld_expires_at_unix :: int

definition KEY_PREFIX :: string where "KEY_PREFIX = ''merge-lock/''"

fun encode_branch :: "string \<Rightarrow> string" where
  "encode_branch [] = []"
| "encode_branch (c # cs) =
     (if c = CHR ''%'' then ''%25'' else if c = CHR '':'' then ''%3A'' else [c]) @ encode_branch cs"

definition merge_lock_key :: "string \<Rightarrow> string" where
  "merge_lock_key branch = KEY_PREFIX @ encode_branch branch"

definition tombstone :: lease_doc where
  "tombstone = \<lparr>ld_holder = [], ld_why = [], ld_acquired_at_unix = 0, ld_expires_at_unix = 0\<rparr>"

definition expired_at :: "int \<Rightarrow> lease_doc \<Rightarrow> bool" where
  "expired_at now l \<longleftrightarrow> ld_expires_at_unix l < now"

section \<open>The document table\<close>

type_synonym 'j kv = "string \<rightharpoonup> 'j \<times> int"

definition kv_load :: "'j kv \<Rightarrow> string \<Rightarrow> 'j option" where
  "kv_load kv k = map_option fst (kv k)"

definition current_version :: "'j kv \<Rightarrow> string \<Rightarrow> int" where
  "current_version kv k = (case kv k of None \<Rightarrow> 0 | Some (_, r) \<Rightarrow> r)"

text \<open>
  The single SQL statement of \<open>persist_at_revision\<close>: insert when absent, otherwise update if the
  revision is the expected one; \<open>None\<close> is the conflict (no row affected).
\<close>

definition persist_at_revision :: "string \<Rightarrow> 'j \<Rightarrow> int \<Rightarrow> 'j kv \<Rightarrow> 'j kv option" where
  "persist_at_revision k j expected kv =
     (case kv k of
        None \<Rightarrow> Some (kv(k \<mapsto> (j, 1)))
      | Some (_, r) \<Rightarrow> if r = expected then Some (kv(k \<mapsto> (j, r + 1))) else None)"

section \<open>Acquire and release, await by await\<close>

datatype pc =
    Idle
  | AcqVersion string string nat int
  | AcqLoad string string nat int int
  | AcqWrite string lease_doc int
  | RelVersion string
  | RelLoad string
  | RelReread string lease_doc
  | RelWrite string lease_doc int

datatype lease_event = Granted string int int | Released string

record 'j lock_sys =
  ls_kv :: "'j kv"
  ls_clock :: int
  ls_pc :: "string \<Rightarrow> pc"
  ls_log :: "string \<Rightarrow> lease_event list"

definition read_lease :: "('j \<Rightarrow> lease_doc option) \<Rightarrow> 'j kv \<Rightarrow> string \<Rightarrow> lease_doc option" where
  "read_lease dec kv k = Option.bind (kv_load kv k) dec"

definition takeover_allowed :: "string \<Rightarrow> int \<Rightarrow> lease_doc option \<Rightarrow> bool" where
  "takeover_allowed holder now incumbent =
     (case incumbent of None \<Rightarrow> True | Some l \<Rightarrow> ld_holder l = holder \<or> expired_at now l)"

definition new_lease :: "string \<Rightarrow> string \<Rightarrow> nat \<Rightarrow> int \<Rightarrow> lease_doc" where
  "new_lease holder why ttl now =
     \<lparr>ld_holder = holder, ld_why = why, ld_acquired_at_unix = now,
      ld_expires_at_unix = min (now + int (max ttl 1)) I64_MAX\<rparr>"

definition goto :: "string \<Rightarrow> pc \<Rightarrow> 'j lock_sys \<Rightarrow> 'j lock_sys" where
  "goto h p s = s\<lparr>ls_pc := (ls_pc s)(h := p)\<rparr>"

text \<open>A guarded write of \<open>d\<close> by \<open>h\<close>, which then returns; \<open>ev\<close> is what the log notes of it.\<close>

definition commit_write ::
  "(lease_doc \<Rightarrow> 'j) \<Rightarrow> string \<Rightarrow> string \<Rightarrow> lease_doc \<Rightarrow> int \<Rightarrow> lease_event \<Rightarrow> 'j lock_sys \<Rightarrow> 'j lock_sys" where
  "commit_write enc h k d rv ev s =
     (case persist_at_revision k (enc d) rv (ls_kv s) of
        None \<Rightarrow> goto h Idle s
      | Some kv' \<Rightarrow> goto h Idle
          (s\<lparr>ls_kv := kv', ls_log := (ls_log s)(k := ls_log s k @ [ev])\<rparr>))"

definition run_pc ::
  "(lease_doc \<Rightarrow> 'j) \<Rightarrow> ('j \<Rightarrow> lease_doc option) \<Rightarrow> string \<Rightarrow> 'j lock_sys \<Rightarrow> 'j lock_sys" where
  "run_pc enc dec h s =
     (case ls_pc s h of
        Idle \<Rightarrow> s
      | AcqVersion k why ttl now \<Rightarrow> goto h (AcqLoad k why ttl now (current_version (ls_kv s) k)) s
      | AcqLoad k why ttl now rv \<Rightarrow>
          goto h (if takeover_allowed h now (read_lease dec (ls_kv s) k)
                  then AcqWrite k (new_lease h why ttl now) rv else Idle) s
      | AcqWrite k d rv \<Rightarrow>
          commit_write enc h k d rv (Granted h (ls_clock s) (ld_expires_at_unix d)) s
      | RelVersion k \<Rightarrow> goto h (RelLoad k) s
      | RelLoad k \<Rightarrow>
          (case read_lease dec (ls_kv s) k of
             None \<Rightarrow> goto h Idle s
           | Some l \<Rightarrow> goto h (if ld_holder l \<noteq> h then Idle else RelReread k l) s)
      | RelReread k l \<Rightarrow> goto h (RelWrite k l (current_version (ls_kv s) k)) s
      | RelWrite k l rv \<Rightarrow> commit_write enc h k tombstone rv (Released h) s)"

datatype lock_event =
    Tick nat
  | CallAcquire string string string nat
  | CallRelease string string
  | Run string

definition lock_exec ::
  "(lease_doc \<Rightarrow> 'j) \<Rightarrow> ('j \<Rightarrow> lease_doc option) \<Rightarrow> lock_event \<Rightarrow> 'j lock_sys \<Rightarrow> 'j lock_sys" where
  "lock_exec enc dec ev s =
     (case ev of
        Tick n \<Rightarrow> s\<lparr>ls_clock := ls_clock s + int n\<rparr>
      | CallAcquire h k why ttl \<Rightarrow>
          if ls_pc s h = Idle then goto h (AcqVersion k why ttl (ls_clock s)) s else s
      | CallRelease h k \<Rightarrow> if ls_pc s h = Idle then goto h (RelVersion k) s else s
      | Run h \<Rightarrow> run_pc enc dec h s)"

definition lock_init :: "'j lock_sys \<Rightarrow> bool" where
  "lock_init s \<longleftrightarrow> ls_pc s = (\<lambda>_. Idle) \<and> ls_log s = (\<lambda>_. [])"

text \<open>
  The discipline that makes releases safe: a release must not write its tombstone after the
  lease it has read ran out.
\<close>

definition timely :: "lock_event \<Rightarrow> 'j lock_sys \<Rightarrow> bool" where
  "timely ev s \<longleftrightarrow>
     (case ev of
        Run h \<Rightarrow> (case ls_pc s h of RelWrite k l rv \<Rightarrow> \<not> expired_at (ls_clock s) l | _ \<Rightarrow> True)
      | _ \<Rightarrow> True)"

inductive lock_step ::
  "(lease_doc \<Rightarrow> 'j) \<Rightarrow> ('j \<Rightarrow> lease_doc option) \<Rightarrow> 'j lock_sys \<Rightarrow> 'j lock_sys \<Rightarrow> bool"
  for enc dec where
  lock_stepI: "timely ev s \<Longrightarrow> lock_step enc dec s (lock_exec enc dec ev s)"

inductive_cases lock_stepE: "lock_step enc dec s s'"

section \<open>The abstract lease\<close>

record lease_state =
  al_lease :: "string \<Rightarrow> lease_doc option"
  al_clock :: int

text \<open>
  What the port promises: a lease is granted atomically when the key is free, already held by
  the caller or expired, and released only by its holder while it is live.
\<close>

inductive lease_step :: "string \<Rightarrow> lease_state \<Rightarrow> lease_state \<Rightarrow> bool" for h where
  grant: "takeover_allowed h (ld_acquired_at_unix d) (al_lease s k) \<Longrightarrow> ld_holder d = h
    \<Longrightarrow> ld_acquired_at_unix d \<le> al_clock s
    \<Longrightarrow> lease_step h s (s\<lparr>al_lease := (al_lease s)(k := Some d)\<rparr>)"
| release: "al_lease s k = Some l \<Longrightarrow> ld_holder l = h \<Longrightarrow> \<not> expired_at (al_clock s) l
    \<Longrightarrow> lease_step h s (s\<lparr>al_lease := (al_lease s)(k := Some tombstone)\<rparr>)"
| tick: "lease_step h s (s\<lparr>al_clock := al_clock s + int n\<rparr>)"

definition lease_abs :: "('j \<Rightarrow> lease_doc option) \<Rightarrow> 'j lock_sys \<Rightarrow> lease_state" where
  "lease_abs dec s = \<lparr>al_lease = read_lease dec (ls_kv s), al_clock = ls_clock s\<rparr>"

section \<open>The table\<close>

lemma persist_ok:
  assumes "persist_at_revision k j rv kv = Some kv'"
  shows "kv' = kv(k \<mapsto> (j, current_version kv k + 1)) \<and> (kv k = None \<or> current_version kv k = rv)"
  using assms by (auto simp: persist_at_revision_def current_version_def split: option.splits if_splits)

lemma current_version_upd [simp]:
  "current_version (kv(k \<mapsto> (j, r))) k' = (if k' = k then r else current_version kv k')"
  by (simp add: current_version_def)

lemma read_lease_upd [simp]:
  "read_lease dec (kv(k \<mapsto> (j, r))) k' = (if k' = k then dec j else read_lease dec kv k')"
  by (simp add: read_lease_def kv_load_def)

lemma read_lease_absent: "kv k = None \<Longrightarrow> read_lease dec kv k = None"
  by (simp add: read_lease_def kv_load_def)

lemma goto_simps [simp]:
  "ls_kv (goto h p s) = ls_kv s" "ls_clock (goto h p s) = ls_clock s" "ls_log (goto h p s) = ls_log s"
  "ls_pc (goto h p s) g = (if g = h then p else ls_pc s g)"
  by (simp_all add: goto_def)

lemma takeover_allowed_later:
  "takeover_allowed h now (Some l) \<Longrightarrow> ld_holder l \<noteq> h \<Longrightarrow> now \<le> t \<Longrightarrow> expired_at t l"
  by (simp add: takeover_allowed_def expired_at_def)

section \<open>Invariant of the interleaving\<close>

text \<open>
  What a process knows between two awaits: nobody has written the key since its version was
  read unless the revision moved on, and a live lease it has read as its own is still there.
\<close>

definition pc_ok :: "('j \<Rightarrow> lease_doc option) \<Rightarrow> 'j lock_sys \<Rightarrow> string \<Rightarrow> pc \<Rightarrow> bool" where
  "pc_ok dec s h p =
     (case p of
        AcqVersion k why ttl now \<Rightarrow> now \<le> ls_clock s
      | AcqLoad k why ttl now rv \<Rightarrow> now \<le> ls_clock s \<and> rv \<le> current_version (ls_kv s) k
      | AcqWrite k d rv \<Rightarrow>
          ld_holder d = h \<and> ld_acquired_at_unix d \<le> ls_clock s \<and> rv \<le> current_version (ls_kv s) k
          \<and> (rv = current_version (ls_kv s) k \<longrightarrow>
              takeover_allowed h (ld_acquired_at_unix d) (read_lease dec (ls_kv s) k))
      | RelReread k l \<Rightarrow>
          ld_holder l = h \<and> (expired_at (ls_clock s) l \<or> read_lease dec (ls_kv s) k = Some l)
      | RelWrite k l rv \<Rightarrow>
          ld_holder l = h \<and> (expired_at (ls_clock s) l \<or> read_lease dec (ls_kv s) k = Some l)
      | _ \<Rightarrow> True)"

fun log_matches :: "lease_event \<Rightarrow> lease_doc option \<Rightarrow> bool" where
  "log_matches (Granted h a e) lease \<longleftrightarrow>
     (\<exists>l. lease = Some l \<and> ld_holder l = h \<and> ld_expires_at_unix l = e)"
| "log_matches (Released h) lease \<longleftrightarrow> lease = Some tombstone"

text \<open>Two events that follow each other on a key.\<close>

fun exclusive :: "lease_event \<Rightarrow> lease_event \<Rightarrow> bool" where
  "exclusive (Granted h a e) (Granted h' a' e') \<longleftrightarrow> h = h' \<or> e < a'"
| "exclusive (Granted h a e) (Released h') \<longleftrightarrow> h = h'"
| "exclusive (Released h) ev \<longleftrightarrow> True"

definition log_ok :: "('j \<Rightarrow> lease_doc option) \<Rightarrow> 'j lock_sys \<Rightarrow> string \<Rightarrow> bool" where
  "log_ok dec s k \<longleftrightarrow> successively exclusive (ls_log s k)
     \<and> (ls_log s k \<noteq> [] \<longrightarrow> log_matches (last (ls_log s k)) (read_lease dec (ls_kv s) k))"

definition lock_inv :: "('j \<Rightarrow> lease_doc option) \<Rightarrow> 'j lock_sys \<Rightarrow> bool" where
  "lock_inv dec s \<longleftrightarrow> (\<forall>h. pc_ok dec s h (ls_pc s h)) \<and> (\<forall>k. log_ok dec s k)"

text \<open>
  A write is legal when it is a grant the current lease allows or the release of a live lease by
  its holder; these are the two facts the whole protocol rests on.
\<close>

definition legal_write :: "('j \<Rightarrow> lease_doc option) \<Rightarrow> 'j lock_sys \<Rightarrow> string \<Rightarrow> string \<Rightarrow> lease_doc
    \<Rightarrow> lease_event \<Rightarrow> bool" where
  "legal_write dec s h k d ev \<longleftrightarrow>
     (ev = Granted h (ls_clock s) (ld_expires_at_unix d) \<and> ld_holder d = h
        \<and> ld_acquired_at_unix d \<le> ls_clock s
        \<and> takeover_allowed h (ld_acquired_at_unix d) (read_lease dec (ls_kv s) k))
   \<or> (ev = Released h \<and> d = tombstone
        \<and> (\<exists>l. read_lease dec (ls_kv s) k = Some l \<and> ld_holder l = h \<and> \<not> expired_at (ls_clock s) l))"

lemma acquire_write_legal:
  assumes "pc_ok dec s h (AcqWrite k d rv)"
    and "persist_at_revision k j rv (ls_kv s) = Some kv'"
  shows "legal_write dec s h k d (Granted h (ls_clock s) (ld_expires_at_unix d))"
  using assms(1) persist_ok [OF assms(2)] read_lease_absent [of "ls_kv s" k dec]
  by (auto simp: pc_ok_def legal_write_def takeover_allowed_def)

lemma release_write_legal:
  assumes "pc_ok dec s h (RelWrite k l rv)" and "\<not> expired_at (ls_clock s) l"
  shows "legal_write dec s h k tombstone (Released h)"
  using assms by (auto simp: pc_ok_def legal_write_def)

lemma legal_write_foreign:
  assumes "legal_write dec s h k d ev" and "read_lease dec (ls_kv s) k = Some l" and "ld_holder l \<noteq> h"
  shows "expired_at (ls_clock s) l"
  using assms by (auto simp: legal_write_def dest: takeover_allowed_later)

text \<open>A legal write keeps what every other process knows, and the log.\<close>

lemma legal_write_pc:
  assumes "legal_write dec s h k d ev" and "g \<noteq> h" and "pc_ok dec s g p"
    and "ls_kv s' = (ls_kv s)(k \<mapsto> (j, current_version (ls_kv s) k + 1))" and "ls_clock s' = ls_clock s"
  shows "pc_ok dec s' g p"
  using assms(2-5) legal_write_foreign [OF assms(1)]
  by (cases p) (auto simp: pc_ok_def)

lemma legal_write_log:
  assumes "legal_write dec s h k d ev" and "\<forall>k. log_ok dec s k" and "dec j = Some d"
    and "ls_kv s' = (ls_kv s)(k \<mapsto> (j, current_version (ls_kv s) k + 1))"
    and "ls_log s' = (ls_log s)(k := ls_log s k @ [ev])"
  shows "log_ok dec s' k'"
proof (cases "k' = k")
  case True
  have "exclusive (last (ls_log s k)) ev" if "ls_log s k \<noteq> []"
  proof -
    have "log_matches (last (ls_log s k)) (read_lease dec (ls_kv s) k)"
      using assms(2) that by (simp add: log_ok_def)
    then show ?thesis
      using assms(1) by (cases "last (ls_log s k)")
        (auto simp: legal_write_def takeover_allowed_def expired_at_def)
  qed
  moreover have "log_matches ev (Some d)" using assms(1) by (auto simp: legal_write_def)
  ultimately show ?thesis
    using assms(2-5) True by (auto simp: log_ok_def successively_append_iff)
next
  case False
  with assms(2,4,5) show ?thesis by (simp add: log_ok_def)
qed

lemma goto_ok [simp]:
  "pc_ok dec (goto h p s) g q = pc_ok dec s g q" "log_ok dec (goto h p s) k = log_ok dec s k"
  by (cases q; simp add: pc_ok_def) (simp add: log_ok_def)

lemma goto_inv: "lock_inv dec s \<Longrightarrow> pc_ok dec s h p \<Longrightarrow> lock_inv dec (goto h p s)"
  by (simp add: lock_inv_def)

lemma commit_write_inv:
  assumes "legal_write dec s h k d ev \<or> persist_at_revision k (enc d) rv (ls_kv s) = None"
    and "lock_inv dec s" and "dec (enc d) = Some d"
  shows "lock_inv dec (commit_write enc h k d rv ev s)"
proof (cases "persist_at_revision k (enc d) rv (ls_kv s)")
  case None
  with goto_inv [OF assms(2), of h Idle] show ?thesis by (simp add: commit_write_def pc_ok_def)
next
  case (Some kv')
  let ?s' = "s\<lparr>ls_kv := kv', ls_log := (ls_log s)(k := ls_log s k @ [ev])\<rparr>"
  have legal: "legal_write dec s h k d ev" using assms(1) Some by simp
  have kv': "kv' = (ls_kv s)(k \<mapsto> (enc d, current_version (ls_kv s) k + 1))"
    using persist_ok [OF Some] by simp
  have "pc_ok dec (goto h Idle ?s') g (ls_pc (goto h Idle ?s') g)" for g
  proof (cases "g = h")
    case True
    then show ?thesis by (simp add: pc_ok_def)
  next
    case False
    have "pc_ok dec (goto h Idle ?s') g (ls_pc s g)"
      by (rule legal_write_pc [OF legal False]) (use assms(2) kv' in \<open>simp_all add: lock_inv_def\<close>)
    with False show ?thesis by simp
  qed
  moreover have "log_ok dec (goto h Idle ?s') k'" for k'
    by (rule legal_write_log [OF legal]) (use assms(2,3) kv' in \<open>simp_all add: lock_inv_def\<close>)
  ultimately show ?thesis using Some by (simp add: commit_write_def lock_inv_def)
qed

lemma run_pc_inv:
  assumes inv: "lock_inv dec s" and codec: "\<And>d. dec (enc d) = Some d" and "timely (Run h) s"
  shows "lock_inv dec (run_pc enc dec h s)"
proof -
  have ok: "pc_ok dec s h (ls_pc s h)" using inv by (simp add: lock_inv_def)
  show ?thesis
  proof (cases "ls_pc s h")
    case (AcqWrite k d rv)
    have "legal_write dec s h k d (Granted h (ls_clock s) (ld_expires_at_unix d))
        \<or> persist_at_revision k (enc d) rv (ls_kv s) = None"
      using acquire_write_legal [of dec s h k d rv "enc d"] ok AcqWrite
      by (cases "persist_at_revision k (enc d) rv (ls_kv s)") auto
    from commit_write_inv [where enc = enc, OF this inv codec] AcqWrite show ?thesis by (simp add: run_pc_def)
  next
    case (RelWrite k l rv)
    then have "legal_write dec s h k tombstone (Released h)"
      using release_write_legal ok assms(3) by (fastforce simp: timely_def)
    from commit_write_inv [where enc = enc, OF disjI1 [OF this] inv codec] RelWrite show ?thesis by (simp add: run_pc_def)
  qed (use ok inv in \<open>auto simp: run_pc_def pc_ok_def new_lease_def intro!: goto_inv split: option.split\<close>)
qed

lemma lock_exec_inv:
  assumes "lock_inv dec s" and "\<And>d. dec (enc d) = Some d" and "timely ev s"
  shows "lock_inv dec (lock_exec enc dec ev s)"
proof (cases ev)
  case (Tick n)
  have "pc_ok dec (s\<lparr>ls_clock := ls_clock s + int n\<rparr>) h p" if "pc_ok dec s h p" for h p
    using that by (cases p) (auto simp: pc_ok_def expired_at_def)
  with assms(1) Tick show ?thesis by (simp add: lock_exec_def lock_inv_def log_ok_def)
next
  case (Run h)
  with run_pc_inv [OF assms(1,2)] assms(3) show ?thesis by (simp add: lock_exec_def)
qed (use assms(1) in \<open>auto simp: lock_exec_def pc_ok_def intro!: goto_inv\<close>)

lemma lock_init_inv: "lock_init s \<Longrightarrow> lock_inv dec s"
  by (simp add: lock_init_def lock_inv_def pc_ok_def log_ok_def)

lemma lock_system:
  assumes "\<And>d. dec (enc d) = Some d"
  shows "invariant_system lock_init (lock_step enc dec) (lock_inv dec)"
  using assms by unfold_locales (auto elim!: lock_stepE intro: lock_init_inv lock_exec_inv)

lemma lock_reachable:
  assumes "\<And>d. dec (enc d) = Some d" and "reach lock_init (lock_step enc dec) s"
  shows "lock_inv dec s"
  using invariant_system.reach_inv [OF lock_system] assms by blast

section \<open>Refinement of the abstract lease\<close>

lemma legal_write_refines:
  assumes "legal_write dec s h k d ev"
  shows "lease_step h (lease_abs dec s)
    ((lease_abs dec s)\<lparr>al_lease := (al_lease (lease_abs dec s))(k := Some d)\<rparr>)"
  using assms unfolding legal_write_def
proof (elim disjE conjE exE)
  assume "ld_holder d = h" "ld_acquired_at_unix d \<le> ls_clock s"
    "takeover_allowed h (ld_acquired_at_unix d) (read_lease dec (ls_kv s) k)"
  then show ?thesis by (intro lease_step.grant) (simp_all add: lease_abs_def)
next
  fix l
  assume "d = tombstone" "read_lease dec (ls_kv s) k = Some l" "ld_holder l = h"
    "\<not> expired_at (ls_clock s) l"
  then show ?thesis
    using lease_step.release [of "lease_abs dec s" k l h] by (simp add: lease_abs_def)
qed

lemma commit_write_refines:
  assumes "legal_write dec s h k d ev \<or> persist_at_revision k (enc d) rv (ls_kv s) = None"
    and "dec (enc d) = Some d"
  shows "lease_abs dec (commit_write enc h k d rv ev s) = lease_abs dec s
    \<or> lease_step h (lease_abs dec s) (lease_abs dec (commit_write enc h k d rv ev s))"
proof (cases "persist_at_revision k (enc d) rv (ls_kv s)")
  case None
  then show ?thesis by (simp add: commit_write_def lease_abs_def)
next
  case (Some kv')
  have "lease_abs dec (commit_write enc h k d rv ev s) =
      (lease_abs dec s)\<lparr>al_lease := (al_lease (lease_abs dec s))(k := Some d)\<rparr>"
    using Some persist_ok [OF Some] assms(2) by (auto simp: commit_write_def lease_abs_def fun_eq_iff)
  with legal_write_refines assms(1) Some show ?thesis by fastforce
qed

lemma goto_abs [simp]: "lease_abs dec (goto h p s) = lease_abs dec s"
  by (simp add: lease_abs_def)

lemma run_pc_refines:
  assumes inv: "lock_inv dec s" and codec: "\<And>d. dec (enc d) = Some d" and "timely (Run h) s"
  shows "lease_abs dec (run_pc enc dec h s) = lease_abs dec s
    \<or> lease_step h (lease_abs dec s) (lease_abs dec (run_pc enc dec h s))"
proof -
  have ok: "pc_ok dec s h (ls_pc s h)" using inv by (simp add: lock_inv_def)
  show ?thesis
  proof (cases "ls_pc s h")
    case (AcqWrite k d rv)
    have "legal_write dec s h k d (Granted h (ls_clock s) (ld_expires_at_unix d))
        \<or> persist_at_revision k (enc d) rv (ls_kv s) = None"
      using acquire_write_legal [of dec s h k d rv "enc d"] ok AcqWrite
      by (cases "persist_at_revision k (enc d) rv (ls_kv s)") auto
    from commit_write_refines [where enc = enc, OF this codec] AcqWrite show ?thesis by (simp add: run_pc_def)
  next
    case (RelWrite k l rv)
    then have "legal_write dec s h k tombstone (Released h)"
      using release_write_legal ok assms(3) by (fastforce simp: timely_def)
    from commit_write_refines [where enc = enc, OF disjI1 [OF this] codec] RelWrite
    show ?thesis by (simp add: run_pc_def)
  qed (auto simp: run_pc_def split: option.split)
qed

fun event_actor :: "lock_event \<Rightarrow> string" where
  "event_actor (Tick n) = []"
| "event_actor (CallAcquire h k why ttl) = h"
| "event_actor (CallRelease h k) = h"
| "event_actor (Run h) = h"

lemma lock_exec_refines:
  assumes "lock_inv dec s" and "\<And>d. dec (enc d) = Some d" and "timely ev s"
  shows "lease_abs dec (lock_exec enc dec ev s) = lease_abs dec s
    \<or> lease_step (event_actor ev) (lease_abs dec s) (lease_abs dec (lock_exec enc dec ev s))"
proof (cases ev)
  case (Tick n)
  have "lease_step [] (lease_abs dec s) ((lease_abs dec s)\<lparr>al_clock := al_clock (lease_abs dec s) + int n\<rparr>)"
    by (rule lease_step.tick)
  with Tick show ?thesis by (simp add: lock_exec_def lease_abs_def)
next
  case (Run h)
  with run_pc_refines [OF assms(1,2)] assms(3) show ?thesis by (simp add: lock_exec_def)
qed (auto simp: lock_exec_def)

section \<open>Lock keys\<close>

text \<open>The percent encoding never merges two branches into one lock.\<close>

lemma encode_branch_inj: "encode_branch a = encode_branch b \<Longrightarrow> a = b"
proof (induction a arbitrary: b)
  case Nil
  then show ?case by (cases b) (auto split: if_splits)
next
  case (Cons c a)
  then show ?case by (cases b) (auto split: if_splits)
qed

lemma merge_lock_key_inj: "merge_lock_key a = merge_lock_key b \<Longrightarrow> a = b"
  by (simp add: merge_lock_key_def encode_branch_inj)

end
