(* ===== verification/Rate_Limit.thy ===== *)
theory Rate_Limit
  imports Prelude
begin

text \<open>
  The sliding-window limiter in front of the authentication endpoints
  (\<open>presentation/src/middleware/rate_limit.rs\<close>). Instants and durations are integers
  (nanoseconds); \<open>earliest\<close> is the smallest instant the platform can represent, below which
  \<open>Instant::checked_sub\<close> answers \<open>None\<close>. The environment variables are the optional texts the
  process reads, \<open>parse\<close> the parser of \<open>usize\<close> on trimmed text.
\<close>

definition AUTH_RATE_MAX :: nat where "AUTH_RATE_MAX = 20"

definition AUTH_RATE_WINDOW :: int where "AUTH_RATE_WINDOW = 60 * 1000000000"

definition env_usize :: "(string \<Rightarrow> nat option) \<Rightarrow> string option \<Rightarrow> nat option" where
  "env_usize parse var = Option.bind var (\<lambda>v. parse (trim v))"

definition auth_rate_max :: "(string \<Rightarrow> nat option) \<Rightarrow> string option \<Rightarrow> nat" where
  "auth_rate_max parse var =
     (case env_usize parse var of Some m \<Rightarrow> if m > 0 then m else AUTH_RATE_MAX | None \<Rightarrow> AUTH_RATE_MAX)"

definition auth_rate_window :: "(string \<Rightarrow> nat option) \<Rightarrow> string option \<Rightarrow> int" where
  "auth_rate_window parse var =
     (case env_usize parse var of
        Some secs \<Rightarrow> if secs > 0 then int secs * 1000000000 else AUTH_RATE_WINDOW
      | None \<Rightarrow> AUTH_RATE_WINDOW)"

definition USIZE_MAX :: nat where "USIZE_MAX = 18446744073709551615"

type_synonym limiter = "string \<Rightarrow> int list"

definition checked_sub :: "int \<Rightarrow> int \<Rightarrow> int \<Rightarrow> int option" where
  "checked_sub earliest now d = (if earliest \<le> now - d then Some (now - d) else None)"

definition check :: "int \<Rightarrow> nat \<Rightarrow> int \<Rightarrow> string \<Rightarrow> int \<Rightarrow> limiter \<Rightarrow> bool \<times> limiter" where
  "check earliest limit window key now hits =
     (let cutoff = (case checked_sub earliest now window of Some t \<Rightarrow> t | None \<Rightarrow> now);
          deque = dropWhile (\<lambda>t. t \<le> cutoff) (hits key) @ [now]
      in (length deque \<le> limit, hits(key := deque)))"

section \<open>The middleware\<close>

text \<open>
  A request as the middleware sees it: whether it is a GET, its path, the \<open>X-Forwarded-For\<close>
  header if it is present and text, and the address of the peer if it is known.
\<close>

record request =
  rq_get :: bool
  rq_path :: string
  rq_forwarded :: "string option"
  rq_peer :: "string option"

definition client_key :: "request \<Rightarrow> bool \<Rightarrow> string" where
  "client_key rq trust_proxy =
     (let leftmost = (case rq_forwarded rq of
            Some xff \<Rightarrow> trim (takeWhile (\<lambda>c. c \<noteq> CHR '','') xff) | None \<Rightarrow> [])
      in if trust_proxy \<and> leftmost \<noteq> [] then leftmost
         else case rq_peer rq of Some ip \<Rightarrow> ip | None \<Rightarrow> ''unknown'')"

definition bucket :: "request \<Rightarrow> bool \<Rightarrow> nat \<Rightarrow> string \<times> nat" where
  "bucket rq trust_proxy limit =
     (if rq_get rq \<and> rq_path rq \<in> {''/api/auth/sessions'', ''/api/auth/me''}
      then (client_key rq trust_proxy @ '':ro'', min (limit * 12) USIZE_MAX)
      else (client_key rq trust_proxy, limit))"

text \<open>\<open>True\<close>: the request goes on to the handler; \<open>False\<close>: 429.\<close>

definition rate_limit_mw ::
  "int \<Rightarrow> nat \<Rightarrow> int \<Rightarrow> bool \<Rightarrow> int \<Rightarrow> request \<Rightarrow> limiter \<Rightarrow> bool \<times> limiter" where
  "rate_limit_mw earliest limit window trust_proxy now rq hits =
     (if take 10 (rq_path rq) = ''/api/auth/''
      then (case bucket rq trust_proxy limit of (key, m) \<Rightarrow> check earliest m window key now hits)
      else (True, hits))"

section \<open>Runs of the limiter\<close>

text \<open>The calls in the order in which they take the mutex, with their answers.\<close>

fun run_checks ::
  "int \<Rightarrow> nat \<Rightarrow> int \<Rightarrow> (string \<times> int) list \<Rightarrow> limiter \<Rightarrow> (string \<times> int \<times> bool) list \<times> limiter" where
  "run_checks earliest limit window [] hits = ([], hits)"
| "run_checks earliest limit window ((key, now) # calls) hits =
     (case check earliest limit window key now hits of (ok, hits') \<Rightarrow>
        (case run_checks earliest limit window calls hits' of (rs, hits'') \<Rightarrow> ((key, now, ok) # rs, hits'')))"

text \<open>The calls of a key after \<open>t\<close>, in order.\<close>

definition calls_since :: "string \<Rightarrow> int \<Rightarrow> (string \<times> int) list \<Rightarrow> int list" where
  "calls_since key t calls = filter (\<lambda>x. t < x) (map snd (filter (\<lambda>c. fst c = key) calls))"

text \<open>
  What the limiter knows after the calls \<open>past\<close>, the latest of them at \<open>latest\<close>: for every
  key its calls in order, complete back to one window before the latest call.
\<close>

definition remembers :: "int \<Rightarrow> int \<Rightarrow> (string \<times> int) list \<Rightarrow> limiter \<Rightarrow> bool" where
  "remembers window latest past hits \<longleftrightarrow>
     (\<forall>key. sorted (hits key) \<and> (\<forall>x \<in> set (hits key). x \<le> latest)
        \<and> (\<forall>t \<ge> latest - window. filter (\<lambda>x. t < x) (hits key) = calls_since key t past))"

lemma dropWhile_sorted: "sorted (xs :: int list) \<Longrightarrow> dropWhile (\<lambda>t. t \<le> c) xs = filter (\<lambda>t. c < t) xs"
proof (induction xs)
  case (Cons x xs)
  show ?case
  proof (cases "x \<le> c")
    case False
    with Cons.prems have "\<forall>y \<in> set (x # xs). c < y" by auto
    then have "filter (\<lambda>t. c < t) (x # xs) = x # xs" by (rule filter_True)
    with False show ?thesis by simp
  qed (use Cons in simp)
qed simp

lemma calls_since_snoc:
  "calls_since key t (past @ [(k, now)]) = calls_since key t past @ (if k = key \<and> t < now then [now] else [])"
  by (simp add: calls_since_def)

lemma check_step:
  assumes "remembers window latest past hits" and "latest \<le> now" and "0 < window"
    and "earliest \<le> now - window"
  shows "fst (check earliest limit window key now hits) \<longleftrightarrow>
      length (calls_since key (now - window) (past @ [(key, now)])) \<le> limit"
    and "remembers window now (past @ [(key, now)]) (snd (check earliest limit window key now hits))"
proof -
  let ?c = "now - window"
  have deque: "dropWhile (\<lambda>t. t \<le> ?c) (hits key) = filter (\<lambda>t. ?c < t) (hits key)"
    using assms(1) by (simp add: remembers_def dropWhile_sorted)
  have since: "filter (\<lambda>t. ?c < t) (hits k) = calls_since k ?c past" for k
    using assms(1,2) by (simp add: remembers_def)
  have run: "check earliest limit window key now hits =
      (length (calls_since key ?c past @ [now]) \<le> limit, hits(key := calls_since key ?c past @ [now]))"
    using assms(4) deque since by (simp add: check_def checked_sub_def Let_def)
  show "fst (check earliest limit window key now hits) \<longleftrightarrow>
      length (calls_since key ?c (past @ [(key, now)])) \<le> limit"
    using assms(3) by (simp add: run calls_since_snoc)
  have old: "sorted (hits k)" "\<forall>x \<in> set (hits k). x \<le> now"
    "\<forall>t \<ge> ?c. filter (\<lambda>x. t < x) (hits k) = calls_since k t past" for k
    using assms(1,2) by (fastforce simp: remembers_def)+
  have "sorted (calls_since key ?c past)" "\<forall>x \<in> set (calls_since key ?c past). x \<le> now"
    using old(1,2) [of key] by (simp_all add: since [symmetric] sorted_filter [where f = id, simplified])
  moreover have "filter (\<lambda>x. t < x) (calls_since key ?c past) = calls_since key t past" if "t \<ge> ?c" for t
    using that by (auto simp: calls_since_def intro: filter_cong)
  ultimately show "remembers window now (past @ [(key, now)]) (snd (check earliest limit window key now hits))"
    using old assms(3) unfolding run remembers_def by (auto simp: calls_since_snoc sorted_append)
qed

text \<open>Every answer of a run is exact.\<close>

lemma run_checks_exact:
  assumes "remembers window latest past hits" and "0 < window"
    and "sorted (latest # map snd calls)" and "\<forall>c \<in> set calls. earliest \<le> snd c - window"
  shows "map (\<lambda>(k, t, ok). (k, t)) (fst (run_checks earliest limit window calls hits)) = calls
    \<and> (\<forall>i < length calls. \<forall>k t ok. fst (run_checks earliest limit window calls hits) ! i = (k, t, ok) \<longrightarrow>
        (ok \<longleftrightarrow> length (calls_since k (t - window) (past @ take (Suc i) calls)) \<le> limit))"
  using assms
proof (induction calls arbitrary: latest past hits)
  case (Cons c calls)
  obtain key now where c: "c = (key, now)" by fastforce
  have pre: "latest \<le> now" "earliest \<le> now - window" "sorted (now # map snd calls)"
    using Cons.prems(3,4) c by auto
  note step = check_step [OF Cons.prems(1) pre(1) Cons.prems(2) pre(2), where limit = limit and key = key]
  obtain ok hits' where chk: "check earliest limit window key now hits = (ok, hits')" by fastforce
  obtain rs hits'' where rs: "run_checks earliest limit window calls hits' = (rs, hits'')" by fastforce
  have "remembers window now (past @ [(key, now)]) hits'" using step(2) chk by simp
  from Cons.IH [OF this Cons.prems(2) pre(3)] Cons.prems(4)
  have ih: "map (\<lambda>(k, t, ok). (k, t)) rs = calls"
    "\<forall>i < length calls. \<forall>k t ok. rs ! i = (k, t, ok) \<longrightarrow>
        (ok \<longleftrightarrow> length (calls_since k (t - window) ((past @ [(key, now)]) @ take (Suc i) calls)) \<le> limit)"
    by (simp_all add: rs)
  have "ok \<longleftrightarrow> length (calls_since key (now - window) (past @ [(key, now)])) \<le> limit"
    using step(1) chk by simp
  with ih show ?case by (auto simp: c chk rs nth_Cons' gr0_conv_Suc split: if_splits)
qed simp

lemma filter_length_mono:
  "(\<And>x. x \<in> set xs \<Longrightarrow> P x \<Longrightarrow> Q (f x)) \<Longrightarrow> length (filter P xs) \<le> length (filter Q (map f xs))"
  by (induction xs) (auto simp: le_Suc_eq)

text \<open>In every window at most \<open>limit\<close> calls of a key are let through.\<close>

lemma window_bound:
  assumes "0 < window" and "sorted (map snd calls)" and "\<forall>c \<in> set calls. earliest \<le> snd c - window"
  shows "length (filter (\<lambda>(k, t, ok). k = key \<and> ok \<and> T - window < t \<and> t \<le> T)
      (fst (run_checks earliest limit window calls (\<lambda>_. [])))) \<le> limit"
proof -
  let ?rs = "fst (run_checks earliest limit window calls (\<lambda>_. []))"
  let ?P = "\<lambda>(k, t, ok). k = key \<and> ok \<and> T - window < t \<and> t \<le> T"
  let ?l = "if calls = [] then 0 else snd (hd calls)"
  have "remembers window ?l [] (\<lambda>_. [])" by (simp add: remembers_def calls_since_def)
  moreover have "sorted (?l # map snd calls)" using assms(2) by (cases calls) auto
  ultimately have ex: "map (\<lambda>(k, t, ok). (k, t)) ?rs = calls"
    "\<forall>i < length calls. \<forall>k t ok. ?rs ! i = (k, t, ok) \<longrightarrow>
      (ok \<longleftrightarrow> length (calls_since k (t - window) (take (Suc i) calls)) \<le> limit)"
    using run_checks_exact [of window ?l "[]" "\<lambda>_. []" calls earliest limit] assms(1,3) by simp_all
  have "length (filter ?P (take n ?rs)) \<le> limit" for n
  proof (induction n)
    case (Suc n)
    show ?case
    proof (cases "n < length ?rs \<and> ?P (?rs ! n)")
      case True
      then obtain t where t: "?rs ! n = (key, t, True)" "t \<le> T" "n < length ?rs" by auto
      have n: "n < length calls" using t(3) ex(1) by (metis length_map)
      have "length (filter ?P (take (Suc n) ?rs)) \<le>
          length (filter (\<lambda>c. fst c = key \<and> t - window < snd c) (map (\<lambda>(k, t, ok). (k, t)) (take (Suc n) ?rs)))"
        using t(2) by (intro filter_length_mono) auto
      also have "\<dots> = length (calls_since key (t - window) (take (Suc n) calls))"
        by (simp add: calls_since_def filter_map o_def take_map [symmetric] ex(1) del: map_map)
      also have "\<dots> \<le> limit" using ex(2) n t(1) by blast
      finally show ?thesis .
    next
      case False
      then have "filter ?P (take (Suc n) ?rs) = filter ?P (take n ?rs)"
        by (cases "n < length ?rs") (simp_all add: take_Suc_conv_app_nth)
      with Suc show ?thesis by simp
    qed
  qed simp
  from this [of "length ?rs"] show ?thesis by simp
qed

end
