(* ===== verification/Totp.thy ===== *)
theory Totp
  imports Prelude "HOL-Library.Word"
begin

text \<open>
  Time-based one-time passwords (\<open>infrastructure/src/totp.rs\<close>): base32 with a 32-bit shift
  register, codes and their verification. HMAC-SHA1 is outside the sources: \<open>hmac key msg\<close> is the
  digest, twenty bytes; the random secret of \<open>generate_secret\<close> is the argument \<open>bytes\<close>.
  The lemmas show that decoding inverts encoding for every byte string although the register
  drops its upper bits, and that a code is accepted in its own and the two neighbouring steps.
\<close>

section \<open>Base32\<close>

definition B32 :: string where "B32 = ''ABCDEFGHIJKLMNOPQRSTUVWXYZ234567''"

text \<open>The inner loop of the encoder: five bits at a time from the top of the register.\<close>

fun emit :: "32 word \<Rightarrow> nat \<Rightarrow> string \<times> nat" where
  "emit buffer bits =
     (if bits \<ge> 5
      then (case emit buffer (bits - 5) of (cs, left) \<Rightarrow>
              (B32 ! unat (and (drop_bit (bits - 5) buffer) 31) # cs, left))
      else ([], bits))"

declare emit.simps [simp del]

fun encode_from :: "32 word \<Rightarrow> nat \<Rightarrow> 8 word list \<Rightarrow> string" where
  "encode_from buffer bits [] =
     (if bits > 0 then [B32 ! unat (and (push_bit (5 - bits) buffer) 31)] else [])"
| "encode_from buffer bits (b # bs) =
     (let buffer' = or (push_bit 8 buffer) (ucast b) in
      case emit buffer' (bits + 8) of (cs, left) \<Rightarrow> cs @ encode_from buffer' left bs)"

definition base32_encode :: "8 word list \<Rightarrow> string" where
  "base32_encode data = encode_from 0 0 data"

definition ascii_upper :: "char \<Rightarrow> char" where
  "ascii_upper c = (let n = (of_char c :: nat) in if 97 \<le> n \<and> n \<le> 122 then char_of (n - 32) else c)"

fun index_of :: "'a \<Rightarrow> 'a list \<Rightarrow> nat option" where
  "index_of x [] = None"
| "index_of x (y # ys) = (if y = x then Some 0 else map_option Suc (index_of x ys))"

fun decode_from :: "32 word \<Rightarrow> nat \<Rightarrow> string \<Rightarrow> 8 word list option" where
  "decode_from buffer bits [] = Some []"
| "decode_from buffer bits (c # cs) =
     (if c = CHR ''='' then Some []
      else case index_of (ascii_upper c) B32 of
             None \<Rightarrow> None
           | Some pos \<Rightarrow>
               (let buffer' = or (push_bit 5 buffer) (of_nat pos); bits' = bits + 5 in
                if bits' \<ge> 8
                then map_option (Cons (ucast (and (drop_bit (bits' - 8) buffer') 255)))
                       (decode_from buffer' (bits' - 8) cs)
                else decode_from buffer' bits' cs))"

definition base32_decode :: "string \<Rightarrow> 8 word list option" where
  "base32_decode s = decode_from 0 0 (trim s)"

definition generate_secret :: "8 word list \<Rightarrow> string" where
  "generate_secret bytes = base32_encode bytes"

section \<open>Codes\<close>

definition STEP :: nat where "STEP = 30"
definition DIGITS :: nat where "DIGITS = 6"

definition be_bytes :: "64 word \<Rightarrow> 8 word list" where
  "be_bytes w = map (\<lambda>i. ucast (drop_bit (8 * i) w)) (rev [0..<8])"

type_synonym hmac_fun = "8 word list \<Rightarrow> 8 word list \<Rightarrow> 8 word list"

definition hotp :: "hmac_fun \<Rightarrow> 8 word list \<Rightarrow> 64 word \<Rightarrow> string" where
  "hotp hmac key counter =
     (let hs = hmac key (be_bytes counter);
          offset = unat (and (hs ! 19) 15);
          bin = (or (or (or (push_bit 24 (ucast (and (hs ! offset) 127)))
                            (push_bit 16 (ucast (hs ! (offset + 1)))))
                        (push_bit 8 (ucast (hs ! (offset + 2)))))
                    (ucast (hs ! (offset + 3))) :: 32 word)
      in pad_digits DIGITS (nat_str (unat bin mod 10 ^ DIGITS)))"

definition code_at :: "hmac_fun \<Rightarrow> string \<Rightarrow> nat \<Rightarrow> string option" where
  "code_at hmac secret now_secs =
     map_option (\<lambda>key. hotp hmac key (of_nat (now_secs div STEP))) (base32_decode secret)"

definition verify :: "hmac_fun \<Rightarrow> string \<Rightarrow> string \<Rightarrow> nat \<Rightarrow> bool" where
  "verify hmac secret code now_secs =
     (case base32_decode secret of
        None \<Rightarrow> False
      | Some key \<Rightarrow>
          (let counter = of_nat (now_secs div STEP); code' = trim code in
           \<exists>c \<in> {counter - 1, counter, counter + 1}. hotp hmac key c = code'))"

definition provisioning_uri :: "string \<Rightarrow> string \<Rightarrow> string \<Rightarrow> string" where
  "provisioning_uri secret account issuer =
     ''otpauth://totp/'' @ issuer @ '':'' @ account @ ''?secret='' @ secret @ ''&issuer='' @ issuer
     @ ''&algorithm=SHA1&digits='' @ nat_str DIGITS @ ''&period='' @ nat_str STEP"

section \<open>The register as a sequence of bits\<close>

text \<open>The lowest \<open>n\<close> bits of a word, the highest of them first.\<close>

definition bits_of :: "nat \<Rightarrow> 'a :: len word \<Rightarrow> bool list" where
  "bits_of n w = map (bit w) (rev [0..<n])"

lemma length_bits_of [simp]: "length (bits_of n w) = n"
  by (simp add: bits_of_def)

lemma bits_of_split: "m \<le> n \<Longrightarrow> bits_of n w = bits_of (n - m) (drop_bit m w) @ bits_of m w"
  by (rule nth_equalityI) (auto simp: bits_of_def nth_append rev_nth bit_simps add.commute)

lemma bits_of_cong: "(\<And>i. i < n \<Longrightarrow> bit v i = bit w i) \<Longrightarrow> bits_of n v = bits_of n w"
  by (auto simp: bits_of_def)

lemma bits_of_inj: "bits_of LENGTH('a) v = bits_of LENGTH('a) (w :: 'a :: len word) \<Longrightarrow> v = w"
  by (rule bit_word_eqI) (auto simp: bits_of_def)

lemma bits_of_mask:
  "n \<le> LENGTH('a) \<Longrightarrow> bits_of n (and w (mask n) :: 'a :: len word) = bits_of n w"
  by (rule bits_of_cong) (simp add: bit_simps)

lemma masks: "(31 :: 32 word) = mask 5" "(255 :: 32 word) = mask 8"
  by (simp_all add: mask_eq_exp_minus_1)

lemma bits_of_push_byte:
  fixes buffer :: "32 word" and b :: "8 word"
  assumes "n \<le> 24"
  shows "bits_of (n + 8) (or (push_bit 8 buffer) (ucast b)) = bits_of n buffer @ bits_of 8 b"
proof -
  let ?w = "or (push_bit 8 buffer) (ucast b) :: 32 word"
  have "bits_of n (drop_bit 8 ?w) = bits_of n buffer"
    using assms by (intro bits_of_cong) (auto simp: bit_simps dest: bit_imp_le_length)
  moreover have "bits_of 8 ?w = bits_of 8 b"
    by (auto simp: bits_of_def bit_simps)
  ultimately show ?thesis using bits_of_split [of 8 "n + 8" ?w] by simp
qed

lemma bits_of_push_quint:
  fixes buffer x :: "32 word"
  assumes "n \<le> 27" and "x < 32"
  shows "bits_of (n + 5) (or (push_bit 5 buffer) x) = bits_of n buffer @ bits_of 5 x"
proof -
  let ?w = "or (push_bit 5 buffer) x"
  have "x = take_bit 5 x" using assms(2)
    by (simp add: take_bit_eq_mod word_unat_eq_iff unat_mod word_less_nat_alt)
  then have high: "\<not> bit x i" if "5 \<le> i" for i
    using that by (metis bit_take_bit_iff not_le)
  have "bits_of n (drop_bit 5 ?w) = bits_of n buffer"
    using assms(1) high by (intro bits_of_cong) (auto simp: bit_simps)
  moreover have "bits_of 5 ?w = bits_of 5 x"
    by (auto simp: bits_of_def bit_simps)
  ultimately show ?thesis using bits_of_split [of 5 "n + 5" ?w] by simp
qed

lemma bits_of_pad:
  fixes buffer :: "32 word"
  assumes "n \<le> 5"
  shows "bits_of 5 (push_bit (5 - n) buffer) = bits_of n buffer @ replicate (5 - n) False"
proof -
  have "bits_of n (drop_bit (5 - n) (push_bit (5 - n) buffer)) = bits_of n buffer"
    using assms by (intro bits_of_cong) (auto simp: bit_simps)
  moreover have "bits_of (5 - n) (push_bit (5 - n) buffer) = replicate (5 - n) False"
    by (rule nth_equalityI) (auto simp: bits_of_def bit_simps rev_nth)
  ultimately show ?thesis
    using bits_of_split [of "5 - n" 5 "push_bit (5 - n) buffer"] assms by simp
qed

section \<open>Decoding inverts encoding\<close>

definition quint_chars :: "32 word list \<Rightarrow> string" where
  "quint_chars xs = map (\<lambda>x. B32 ! unat x) xs"

lemma and_31_less: "and w 31 < (32 :: 32 word)"
  by (simp add: masks and_mask_less' [of 5, simplified])

lemma emit_bits:
  "\<exists>xs. fst (emit buffer bits) = quint_chars xs \<and> (\<forall>x \<in> set xs. x < 32) \<and> snd (emit buffer bits) < 5
    \<and> concat (map (bits_of 5) xs) @ bits_of (snd (emit buffer bits)) buffer = bits_of bits buffer"
proof (induction buffer bits rule: emit.induct)
  case (1 buffer bits)
  show ?case
  proof (cases "bits \<ge> 5")
    case True
    from 1 [OF True] obtain xs where xs: "fst (emit buffer (bits - 5)) = quint_chars xs"
      "\<forall>x \<in> set xs. x < 32" "snd (emit buffer (bits - 5)) < 5"
      "concat (map (bits_of 5) xs) @ bits_of (snd (emit buffer (bits - 5))) buffer = bits_of (bits - 5) buffer"
      by blast
    let ?x = "and (drop_bit (bits - 5) buffer) 31"
    have "bits_of 5 ?x = bits_of 5 (drop_bit (bits - 5) buffer)"
      by (simp add: masks bits_of_mask)
    with xs(4) True have "concat (map (bits_of 5) (?x # xs)) @ bits_of (snd (emit buffer (bits - 5))) buffer
        = bits_of bits buffer"
      using bits_of_split [of "bits - 5" bits buffer] by simp
    moreover have "emit buffer bits = (B32 ! unat ?x # quint_chars xs, snd (emit buffer (bits - 5)))"
      using True xs(1) by (simp add: emit.simps [of buffer bits] split_beta)
    ultimately show ?thesis
      using xs(2,3) and_31_less by (intro exI [of _ "?x # xs"]) (simp add: quint_chars_def)
  qed (simp add: emit.simps quint_chars_def exI [of _ "[]"])
qed

lemma encode_bits:
  assumes "bits < 5"
  shows "\<exists>xs pad. encode_from buffer bits bs = quint_chars xs \<and> (\<forall>x \<in> set xs. x < 32) \<and> pad < 5
    \<and> concat (map (bits_of 5) xs) = bits_of bits buffer @ concat (map (bits_of 8) bs) @ replicate pad False"
  using assms
proof (induction bs arbitrary: buffer bits)
  case Nil
  show ?case
  proof (cases "bits > 0")
    case True
    let ?x = "and (push_bit (5 - bits) buffer) 31"
    have "bits_of 5 ?x = bits_of bits buffer @ replicate (5 - bits) False"
      using bits_of_pad [of bits buffer] Nil by (simp add: masks bits_of_mask)
    with True and_31_less show ?thesis
      by (intro exI [of _ "[?x]"] exI [of _ "5 - bits"]) (simp add: quint_chars_def)
  qed (auto simp: quint_chars_def bits_of_def intro!: exI [of _ 0])
next
  case (Cons b bs)
  let ?buffer = "or (push_bit 8 buffer) (ucast b) :: 32 word"
  from emit_bits [of ?buffer "bits + 8"] obtain xs where
    xs: "fst (emit ?buffer (bits + 8)) = quint_chars xs" "\<forall>x \<in> set xs. x < 32"
      "snd (emit ?buffer (bits + 8)) < 5"
      "concat (map (bits_of 5) xs) @ bits_of (snd (emit ?buffer (bits + 8))) ?buffer = bits_of (bits + 8) ?buffer"
    by blast
  from Cons.IH [OF xs(3), of ?buffer] obtain ys pad where
    ys: "encode_from ?buffer (snd (emit ?buffer (bits + 8))) bs = quint_chars ys" "\<forall>x \<in> set ys. x < 32"
      "pad < 5" "concat (map (bits_of 5) ys) =
        bits_of (snd (emit ?buffer (bits + 8))) ?buffer @ concat (map (bits_of 8) bs) @ replicate pad False"
    by blast
  have "concat (map (bits_of 5) (xs @ ys)) = bits_of (bits + 8) ?buffer @ concat (map (bits_of 8) bs) @ replicate pad False"
    using xs(4) ys(4) by simp
  with xs(1,2) ys(1-3) bits_of_push_byte [of bits buffer b] Cons.prems show ?case
    by (intro exI [of _ "xs @ ys"] exI [of _ pad])
      (auto simp: quint_chars_def Let_def split: prod.splits)
qed

lemma index_of_nth: "distinct xs \<Longrightarrow> n < length xs \<Longrightarrow> index_of (xs ! n) xs = Some n"
proof (induction xs arbitrary: n)
  case (Cons x xs)
  then show ?case by (cases n) auto
qed simp

lemma B32_simps: "length B32 = 32" "distinct B32"
  "\<forall>c \<in> set B32. ascii_upper c = c \<and> c \<noteq> CHR ''='' \<and> \<not> is_white c"
  by code_simp+

lemma B32_char:
  assumes "(x :: 32 word) < 32"
  shows "index_of (ascii_upper (B32 ! unat x)) B32 = Some (unat x)" "B32 ! unat x \<noteq> CHR ''=''"
    "\<not> is_white (B32 ! unat x)"
proof -
  have n: "unat x < length B32" using assms by (simp add: B32_simps word_less_nat_alt)
  then have "B32 ! unat x \<in> set B32" by (rule nth_mem)
  with B32_simps n show "index_of (ascii_upper (B32 ! unat x)) B32 = Some (unat x)"
    "B32 ! unat x \<noteq> CHR ''=''" "\<not> is_white (B32 ! unat x)" by (simp_all add: index_of_nth)
qed

lemma append_chain: "a @ b = c @ d \<Longrightarrow> d @ e = f \<Longrightarrow> a @ b @ e = c @ f"
  by (metis append.assoc)

lemma decode_bits:
  assumes "bits < 8" and "\<forall>x \<in> set xs. x < 32"
  shows "\<exists>out rest. decode_from buffer bits (quint_chars xs) = Some out \<and> length rest < 8
    \<and> bits_of bits buffer @ concat (map (bits_of 5) xs) = concat (map (bits_of 8) out) @ rest"
  using assms
proof (induction xs arbitrary: buffer bits)
  case Nil
  then show ?case by (auto simp: quint_chars_def)
next
  case (Cons x xs)
  let ?buffer = "or (push_bit 5 buffer) x"
  have x: "x < 32" using Cons.prems(2) by simp
  have push: "bits_of (bits + 5) ?buffer = bits_of bits buffer @ bits_of 5 x"
    using bits_of_push_quint [of bits x buffer] x Cons.prems(1) by simp
  show ?case
  proof (cases "bits + 5 \<ge> 8")
    case True
    let ?y = "ucast (and (drop_bit (bits + 5 - 8) ?buffer) 255) :: 8 word"
    have less: "bits + 5 - 8 < 8" using Cons.prems(1) by simp
    from Cons.IH [OF less, of ?buffer] Cons.prems(2) obtain out rest where
      ih: "decode_from ?buffer (bits + 5 - 8) (quint_chars xs) = Some out" "length rest < 8"
        "bits_of (bits + 5 - 8) ?buffer @ concat (map (bits_of 5) xs) = concat (map (bits_of 8) out) @ rest"
      by auto
    have "bits_of 8 ?y = bits_of 8 (and (drop_bit (bits + 5 - 8) ?buffer) 255)"
      by (auto simp: bits_of_def bit_simps)
    also have "\<dots> = bits_of 8 (drop_bit (bits + 5 - 8) ?buffer)"
      by (simp add: masks bits_of_mask)
    finally have "bits_of (bits + 5) ?buffer = bits_of 8 ?y @ bits_of (bits + 5 - 8) ?buffer"
      using bits_of_split [of "bits + 5 - 8" "bits + 5" ?buffer] True by (simp del: drop_bit_or)
    then have "bits_of bits buffer @ bits_of 5 x = bits_of 8 ?y @ bits_of (bits + 5 - 8) ?buffer"
      by (simp only: push)
    from append_chain [OF this ih(3)]
    have "bits_of bits buffer @ concat (map (bits_of 5) (x # xs)) = concat (map (bits_of 8) (?y # out)) @ rest"
      by (simp only: list.map concat.simps append.assoc)
    moreover have "decode_from buffer bits (quint_chars (x # xs)) = Some (?y # out)"
      using ih(1) B32_char [OF x] True by (simp add: quint_chars_def Let_def)
    ultimately show ?thesis using ih(2) by blast
  next
    case False
    then have less: "bits + 5 < 8" by simp
    from Cons.IH [OF less, of ?buffer] Cons.prems(2) obtain out rest where
      "decode_from ?buffer (bits + 5) (quint_chars xs) = Some out" "length rest < 8"
      "bits_of (bits + 5) ?buffer @ concat (map (bits_of 5) xs) = concat (map (bits_of 8) out) @ rest"
      by auto
    with push B32_char [OF x] False show ?thesis
      by (intro exI [of _ out] exI [of _ rest]) (simp add: quint_chars_def Let_def)
  qed
qed

lemma trim_no_blank: "\<forall>c \<in> set s. \<not> is_white c \<Longrightarrow> trim s = s"
  by (metis dropWhile_eq_self_iff hd_in_set rev_rev_ident set_rev trim_def)

lemma concat_bits_length: "length (concat (map (bits_of n) xs)) = n * length xs"
  by (induction xs) simp_all

lemma concat_bits_inj:
  "length xs = length ys \<Longrightarrow> concat (map (bits_of 8) xs) = concat (map (bits_of 8) ys) \<Longrightarrow> xs = (ys :: 8 word list)"
  by (induction xs ys rule: list_induct2) (auto dest: bits_of_inj [where 'a = 8, simplified])

lemma base32_inverse: "base32_decode (base32_encode data) = Some data"
proof -
  from encode_bits [of 0 0 data] obtain xs pad where
    enc: "base32_encode data = quint_chars xs" "\<forall>x \<in> set xs. x < 32" "pad < 5"
      "concat (map (bits_of 5) xs) = concat (map (bits_of 8) data) @ replicate pad False"
    by (auto simp: base32_encode_def bits_of_def)
  from decode_bits [of 0 xs 0] enc(2) obtain out rest where
    dec: "decode_from 0 0 (quint_chars xs) = Some out" "length rest < 8"
      "concat (map (bits_of 5) xs) = concat (map (bits_of 8) out) @ rest"
    by (auto simp: bits_of_def)
  have eq: "concat (map (bits_of 8) data) @ replicate pad False = concat (map (bits_of 8) out) @ rest"
    using enc(4) dec(3) by (rule trans [OF sym])
  from arg_cong [OF this, of length] have len: "length data = length out"
    using enc(3) dec(2) by (simp only: length_append concat_bits_length length_replicate)
  then have "concat (map (bits_of 8) data) = concat (map (bits_of 8) out)"
    using eq by (subst (asm) append_eq_append_conv) (simp_all only: concat_bits_length simp_thms)
  then have "out = data" using concat_bits_inj len by metis
  moreover have "trim (quint_chars xs) = quint_chars xs"
    using enc(2) B32_char(3) by (intro trim_no_blank) (auto simp: quint_chars_def)
  ultimately show ?thesis using enc(1) dec(1) by (simp add: base32_decode_def)
qed

section \<open>Verification of codes\<close>

lemma hotp_digits: "c \<in> set (hotp hmac key n) \<Longrightarrow> \<not> is_white c"
proof -
  assume "c \<in> set (hotp hmac key n)"
  then consider "c = CHR ''0''" | m where "c \<in> set (nat_str m)"
    by (auto simp: hotp_def Let_def pad_digits_def)
  then show "\<not> is_white c"
    by cases (auto simp: is_white_def Let_def dest: nat_str_digits)
qed

lemma trim_hotp: "trim (hotp hmac key n) = hotp hmac key n"
  using hotp_digits by (intro trim_no_blank) blast

lemma hotp_length: "length (hotp hmac key n) = DIGITS"
proof -
  have len: "length (nat_str m) \<le> k" if "m < 10 ^ k" "0 < k" for m k
    using that
  proof (induction k arbitrary: m)
    case (Suc k)
    show ?case
    proof (cases "m < 10")
      case False
      then have "m div 10 < 10 ^ k" "0 < k" using Suc.prems(1) by (auto simp: div_less_iff_less_mult intro: Nat.gr0I)
      from Suc.IH [OF this] False show ?thesis by (subst nat_str.simps) simp
    qed (simp add: nat_str.simps)
  qed simp
  have "length (nat_str (m mod 10 ^ DIGITS)) \<le> DIGITS" for m
    using len [of "m mod 10 ^ DIGITS" DIGITS] by (simp add: DIGITS_def)
  then show ?thesis by (simp add: hotp_def Let_def pad_digits_def)
qed

text \<open>A code issued at \<open>t\<close> is accepted whenever the clock of the verifier is at most one step away.\<close>

lemma verify_code_at:
  assumes "code_at hmac secret t = Some code"
    and "now div STEP = t div STEP \<or> now div STEP = t div STEP + 1 \<or> now div STEP + 1 = t div STEP"
  shows "verify hmac secret code now"
proof -
  obtain key where key: "base32_decode secret = Some key" "code = hotp hmac key (of_nat (t div STEP))"
    using assms(1) by (auto simp: code_at_def)
  have "(of_nat (t div STEP) :: 64 word) \<in>
      {of_nat (now div STEP) - 1, of_nat (now div STEP), of_nat (now div STEP) + 1}"
    using assms(2)
  proof (elim disjE)
    assume "now div STEP + 1 = t div STEP"
    then have "(of_nat (t div STEP) :: 64 word) = of_nat (now div STEP) + 1" by (metis of_nat_1 of_nat_add)
    then show ?thesis by simp
  qed simp_all
  with key show ?thesis by (auto simp: verify_def trim_hotp Let_def)
qed

end
