(* ===== verification/Outbox.thy ===== *)
theory Outbox
  imports Prelude
begin

text \<open>
  The durable spool of outbound alerts: the entry with its limits and retry arithmetic
  (\<open>application/src/state/outbox.rs\<close>), the port with its in-memory store
  (\<open>application/src/ports/outbound/outbox.rs\<close>), the file store
  (\<open>infrastructure/src/outbox.rs\<close>) and the notifier with one pass of its flusher
  (\<open>infrastructure/src/notifier.rs\<close>). The port is a record of operations, as the trait object is;
  the locale \<open>outbox_store\<close> states what a store promises and both stores are interpretations.
  Operations run under the file lock or the mutex, hence atomically; the clock is an argument.
  Ids are natural numbers: the 64-bit counter does not wrap in any realistic run.
\<close>

section \<open>Entries\<close>

definition OUTBOX_MESSAGE_CAP_BYTES :: nat where "OUTBOX_MESSAGE_CAP_BYTES = 4096"
definition OUTBOX_MAX_ATTEMPTS :: nat where "OUTBOX_MAX_ATTEMPTS = 8"
definition OUTBOX_BASE_BACKOFF_SECS :: int where "OUTBOX_BASE_BACKOFF_SECS = 30"
definition OUTBOX_MAX_BACKOFF_SECS :: int where "OUTBOX_MAX_BACKOFF_SECS = 3600"

datatype outbox_status = ObPending | ObDelivered | ObDead

record outbox_entry =
  ob_id :: nat
  ob_kind :: string
  ob_project :: string
  ob_message :: string
  ob_status :: outbox_status
  ob_attempts :: nat
  ob_next_attempt_at :: int
  ob_created_at :: int

definition is_char_boundary :: "string \<Rightarrow> nat \<Rightarrow> bool" where
  "is_char_boundary s n \<longleftrightarrow> take_bytes n s \<noteq> None"

fun boundary_below :: "string \<Rightarrow> nat \<Rightarrow> nat" where
  "boundary_below s 0 = 0"
| "boundary_below s (Suc n) = (if is_char_boundary s (Suc n) then Suc n else boundary_below s n)"

definition clamp_message :: "string \<Rightarrow> string" where
  "clamp_message m =
     (if byte_len m \<le> OUTBOX_MESSAGE_CAP_BYTES then m
      else case take_bytes (boundary_below m OUTBOX_MESSAGE_CAP_BYTES) m of Some p \<Rightarrow> p | None \<Rightarrow> [])"

definition pending :: "string \<Rightarrow> string \<Rightarrow> string \<Rightarrow> int \<Rightarrow> outbox_entry" where
  "pending kind project message now =
     \<lparr>ob_id = 0, ob_kind = kind, ob_project = project, ob_message = clamp_message message,
      ob_status = ObPending, ob_attempts = 0, ob_next_attempt_at = 0, ob_created_at = now\<rparr>"

definition is_retrying :: "outbox_entry \<Rightarrow> bool" where
  "is_retrying e \<longleftrightarrow> ob_status e = ObPending \<and> ob_attempts e > 0"

text \<open>Attempts are a \<open>u8\<close>.\<close>

definition u8_succ :: "nat \<Rightarrow> nat" where "u8_succ n = min 255 (n + 1)"

definition backoff_delay_secs :: "nat \<Rightarrow> int" where
  "backoff_delay_secs attempt =
     min (min I64_MAX (OUTBOX_BASE_BACKOFF_SECS * 2 ^ min (attempt - 1) 20)) OUTBOX_MAX_BACKOFF_SECS"

definition advance_after_failure :: "int \<Rightarrow> outbox_entry \<Rightarrow> outbox_entry" where
  "advance_after_failure now e =
     (let attempts = min (u8_succ (ob_attempts e)) OUTBOX_MAX_ATTEMPTS in
      if attempts \<ge> OUTBOX_MAX_ATTEMPTS
      then e\<lparr>ob_attempts := attempts, ob_status := ObDead\<rparr>
      else e\<lparr>ob_attempts := attempts, ob_status := ObPending,
             ob_next_attempt_at := max (i64_saturating_add now (backoff_delay_secs attempts))
                                       (i64_saturating_add (ob_next_attempt_at e) 1)\<rparr>)"

section \<open>The port\<close>

record 's outbox_port =
  op_enqueue :: "outbox_entry \<Rightarrow> 's \<Rightarrow> 's"
  op_claim_due :: "nat \<Rightarrow> int \<Rightarrow> 's \<Rightarrow> outbox_entry list \<times> 's"
  op_mark_delivered :: "nat \<Rightarrow> 's \<Rightarrow> 's"
  op_mark_retry :: "nat \<Rightarrow> int \<Rightarrow> 's \<Rightarrow> 's"
  op_mark_dead :: "nat \<Rightarrow> 's \<Rightarrow> 's"
  op_recent :: "nat \<Rightarrow> 's \<Rightarrow> outbox_entry list"
  op_replay :: "nat \<Rightarrow> int \<Rightarrow> 's \<Rightarrow> bool \<times> 's"

record spool =
  sl_next_id :: nat
  sl_entries :: "outbox_entry list"

definition due :: "int \<Rightarrow> outbox_entry \<Rightarrow> bool" where
  "due now e \<longleftrightarrow> ob_status e = ObPending \<and> ob_next_attempt_at e \<le> now"

text \<open>The claim loop: \<open>until\<close> is the deadline of the lease, \<open>n\<close> the number claimed so far.\<close>

fun claim_loop :: "int \<Rightarrow> int \<Rightarrow> nat \<Rightarrow> nat \<Rightarrow> outbox_entry list \<Rightarrow> outbox_entry list \<times> outbox_entry list" where
  "claim_loop now until batch n [] = ([], [])"
| "claim_loop now until batch n (e # es) =
     (if \<not> due now e then (case claim_loop now until batch n es of (cl, es') \<Rightarrow> (cl, e # es'))
      else if n \<ge> batch then ([], e # es)
      else (case claim_loop now until batch (n + 1) es of (cl, es') \<Rightarrow>
              (e\<lparr>ob_next_attempt_at := until\<rparr> # cl, e\<lparr>ob_next_attempt_at := until\<rparr> # es')))"

definition on_id :: "nat \<Rightarrow> (outbox_entry \<Rightarrow> outbox_entry) \<Rightarrow> spool \<Rightarrow> spool" where
  "on_id i f s = s\<lparr>sl_entries := map (\<lambda>e. if ob_id e = i then f e else e) (sl_entries s)\<rparr>"

definition spool_recent :: "nat \<Rightarrow> spool \<Rightarrow> outbox_entry list" where
  "spool_recent limit s = take limit (sort_key (\<lambda>e. - int (ob_id e)) (sl_entries s))"

fun replay_first :: "nat \<Rightarrow> int \<Rightarrow> outbox_entry list \<Rightarrow> bool \<times> outbox_entry list" where
  "replay_first i now [] = (False, [])"
| "replay_first i now (e # es) =
     (if ob_id e = i \<and> ob_status e = ObDead
      then (True, e\<lparr>ob_status := ObPending, ob_attempts := 0, ob_next_attempt_at := now\<rparr> # es)
      else (case replay_first i now es of (ok, es') \<Rightarrow> (ok, e # es')))"

definition spool_replay :: "nat \<Rightarrow> int \<Rightarrow> spool \<Rightarrow> bool \<times> spool" where
  "spool_replay i now s =
     (case replay_first i now (sl_entries s) of (ok, es) \<Rightarrow> (ok, s\<lparr>sl_entries := es\<rparr>))"

section \<open>The two stores\<close>

definition mem_enqueue :: "outbox_entry \<Rightarrow> spool \<Rightarrow> spool" where
  "mem_enqueue e s =
     (let n = sl_next_id s + 1 in
      s\<lparr>sl_next_id := n, sl_entries := keep_newest 500 (sl_entries s @ [e\<lparr>ob_id := n\<rparr>])\<rparr>)"

definition mem_claim_due :: "nat \<Rightarrow> int \<Rightarrow> spool \<Rightarrow> outbox_entry list \<times> spool" where
  "mem_claim_due batch now s =
     (case claim_loop now (now + 60) batch 0 (sl_entries s) of (cl, es) \<Rightarrow> (cl, s\<lparr>sl_entries := es\<rparr>))"

definition mem_mark_retry :: "nat \<Rightarrow> int \<Rightarrow> spool \<Rightarrow> spool" where
  "mem_mark_retry i t s =
     on_id i (\<lambda>e. e\<lparr>ob_attempts := u8_succ (ob_attempts e), ob_next_attempt_at := t\<rparr>) s"

definition mark_delivered :: "nat \<Rightarrow> spool \<Rightarrow> spool" where
  "mark_delivered i s = on_id i (\<lambda>e. e\<lparr>ob_status := ObDelivered\<rparr>) s"

definition mark_dead :: "nat \<Rightarrow> spool \<Rightarrow> spool" where
  "mark_dead i s = on_id i (\<lambda>e. e\<lparr>ob_status := ObDead\<rparr>) s"

definition MemoryOutboxStore :: "spool outbox_port" where
  "MemoryOutboxStore = \<lparr>op_enqueue = mem_enqueue, op_claim_due = mem_claim_due,
     op_mark_delivered = mark_delivered, op_mark_retry = mem_mark_retry, op_mark_dead = mark_dead,
     op_recent = spool_recent, op_replay = spool_replay\<rparr>"

definition DEFAULT_CAP :: nat where "DEFAULT_CAP = 500"
definition DEFAULT_LEASE_TTL_SECS :: int where "DEFAULT_LEASE_TTL_SECS = 60"

definition file_enqueue :: "outbox_entry \<Rightarrow> spool \<Rightarrow> spool" where
  "file_enqueue e s =
     (let n = sl_next_id s + 1;
          e = e\<lparr>ob_id := n, ob_message := clamp_message (ob_message e), ob_status := ObPending\<rparr>;
          es = sl_entries s @ [e]
      in s\<lparr>sl_next_id := n,
           sl_entries := if length es > DEFAULT_CAP then drop (length es - DEFAULT_CAP) es else es\<rparr>)"

definition file_claim_due :: "nat \<Rightarrow> int \<Rightarrow> spool \<Rightarrow> outbox_entry list \<times> spool" where
  "file_claim_due batch now s =
     (case claim_loop now (now + DEFAULT_LEASE_TTL_SECS + 1) batch 0 (sl_entries s) of
        (cl, es) \<Rightarrow> (cl, s\<lparr>sl_entries := es\<rparr>))"

definition file_mark_retry :: "nat \<Rightarrow> int \<Rightarrow> spool \<Rightarrow> spool" where
  "file_mark_retry i t s =
     on_id i (\<lambda>e. e\<lparr>ob_attempts := min (u8_succ (ob_attempts e)) OUTBOX_MAX_ATTEMPTS,
                    ob_next_attempt_at := t\<rparr>) s"

definition FileOutboxStore :: "spool outbox_port" where
  "FileOutboxStore = \<lparr>op_enqueue = file_enqueue, op_claim_due = file_claim_due,
     op_mark_delivered = mark_delivered, op_mark_retry = file_mark_retry, op_mark_dead = mark_dead,
     op_recent = spool_recent, op_replay = spool_replay\<rparr>"

text \<open>
  The spool on disk: an absent file and one that does not parse read as the empty spool, so a
  damaged file also restarts the ids. \<open>enc\<close> and \<open>dec\<close> stand for \<open>serde_json\<close>.
\<close>

definition load_spool :: "('b \<Rightarrow> spool option) \<Rightarrow> 'b option \<Rightarrow> spool" where
  "load_spool dec file =
     (case Option.bind file dec of Some s \<Rightarrow> s | None \<Rightarrow> \<lparr>sl_next_id = 0, sl_entries = []\<rparr>)"

definition with_spool ::
  "(spool \<Rightarrow> 'b) \<Rightarrow> ('b \<Rightarrow> spool option) \<Rightarrow> (spool \<Rightarrow> 'r \<times> spool) \<Rightarrow> 'b option \<Rightarrow> 'r \<times> 'b option" where
  "with_spool enc dec f file = (case f (load_spool dec file) of (out, s) \<Rightarrow> (out, Some (enc s)))"

section \<open>Notifier and flusher\<close>

definition CLAIM_BATCH :: nat where "CLAIM_BATCH = 16"

definition notify :: "'s outbox_port \<Rightarrow> string \<Rightarrow> string \<Rightarrow> string \<Rightarrow> int \<Rightarrow> 's \<Rightarrow> 's" where
  "notify port kind project message now = op_enqueue port (pending kind project message now)"

text \<open>
  One delivered or failed POST. \<open>post e\<close> is what the webhook did with the entry: whether it
  answered 2xx, and the clock when the answer or the failure was seen.
\<close>

definition settle :: "'s outbox_port \<Rightarrow> (outbox_entry \<Rightarrow> bool \<times> int) \<Rightarrow> outbox_entry \<Rightarrow> 's \<Rightarrow> 's" where
  "settle port post e =
     (case post e of (ok, now) \<Rightarrow>
        if ok then op_mark_delivered port (ob_id e)
        else let failed = advance_after_failure now e in
             if ob_status failed = ObDead then op_mark_dead port (ob_id e)
             else op_mark_retry port (ob_id e) (ob_next_attempt_at failed))"

definition flush_once :: "'s outbox_port \<Rightarrow> (outbox_entry \<Rightarrow> bool \<times> int) \<Rightarrow> int \<Rightarrow> 's \<Rightarrow> bool \<times> 's" where
  "flush_once port post now s =
     (case op_claim_due port CLAIM_BATCH now s of (cl, s') \<Rightarrow> (cl \<noteq> [], fold (settle port post) cl s'))"

section \<open>Clamping a message\<close>

definition byte_width :: "char \<Rightarrow> nat" where
  "byte_width c = (if (of_char c :: nat) < 128 then 1 else 2)"

lemma byte_len_simps [simp]: "byte_len [] = 0" "byte_len (c # s) = byte_width c + byte_len s"
  by (simp_all add: byte_len_def byte_width_def)

lemma byte_len_pos: "0 < byte_width c"
  by (simp add: byte_width_def)

lemma take_bytes_Some:
  "take_bytes n s = Some p \<Longrightarrow> prefix p s \<and> byte_len p = n"
proof (induction n s arbitrary: p rule: take_bytes.induct)
  case (3 n c s)
  then show ?case by (auto split: if_splits)
qed auto

lemma take_bytes_prefix: "prefix p s \<Longrightarrow> take_bytes (byte_len p) s = Some p"
proof (induction p arbitrary: s)
  case (Cons c p)
  then obtain s' where s: "s = c # s'" "prefix p s'" by (cases s) auto
  obtain n where n: "byte_len (c # p) = Suc n" using byte_len_pos [of c] by (cases "byte_len (c # p)") auto
  then have "byte_width c \<le> Suc n" "Suc n - byte_width c = byte_len p" by auto
  with Cons.IH [OF s(2)] s(1) n show ?case by simp
qed simp

lemma boundary_below_props:
  "boundary_below s n \<le> n \<and> is_char_boundary s (boundary_below s n)
    \<and> (\<forall>k \<le> n. is_char_boundary s k \<longrightarrow> k \<le> boundary_below s n)"
proof (induction n)
  case (Suc n)
  then show ?case by (auto simp: le_Suc_eq)
qed (simp add: is_char_boundary_def)

text \<open>The clamped text is the longest initial segment that fits.\<close>

lemma clamp_message_prefix:
  "prefix (clamp_message m) m \<and> byte_len (clamp_message m) \<le> OUTBOX_MESSAGE_CAP_BYTES"
proof (cases "byte_len m \<le> OUTBOX_MESSAGE_CAP_BYTES")
  case False
  let ?b = "boundary_below m OUTBOX_MESSAGE_CAP_BYTES"
  obtain p where "take_bytes ?b m = Some p"
    using boundary_below_props [of m OUTBOX_MESSAGE_CAP_BYTES] by (auto simp: is_char_boundary_def)
  with take_bytes_Some [OF this] boundary_below_props [of m OUTBOX_MESSAGE_CAP_BYTES] False
  show ?thesis by (simp add: clamp_message_def)
qed (simp add: clamp_message_def)

lemma prefix_byte_len: "prefix p s \<Longrightarrow> byte_len p \<le> byte_len s"
  by (auto simp: prefix_def)

lemma clamp_message_longest:
  assumes "prefix p m" and "byte_len p \<le> OUTBOX_MESSAGE_CAP_BYTES"
  shows "prefix p (clamp_message m)"
proof (cases "byte_len m \<le> OUTBOX_MESSAGE_CAP_BYTES")
  case False
  let ?b = "boundary_below m OUTBOX_MESSAGE_CAP_BYTES"
  have "is_char_boundary m (byte_len p)" using take_bytes_prefix [OF assms(1)] by (simp add: is_char_boundary_def)
  then have le: "byte_len p \<le> ?b" using boundary_below_props assms(2) by blast
  obtain q where q: "take_bytes ?b m = Some q"
    using boundary_below_props [of m OUTBOX_MESSAGE_CAP_BYTES] by (auto simp: is_char_boundary_def)
  have clamp: "clamp_message m = q" using q False by (simp add: clamp_message_def)
  from prefix_same_cases [OF assms(1) conjunct1 [OF take_bytes_Some [OF q]]] show ?thesis
  proof
    assume "prefix q p"
    then obtain r where r: "p = q @ r" by (auto simp: prefix_def)
    with le take_bytes_Some [OF q] have "byte_len r = 0" by simp
    then have "r = []" by (cases r) (simp_all add: byte_width_def split: if_splits)
    with r clamp show ?thesis by simp
  qed (simp add: clamp)
qed (use assms in \<open>simp add: clamp_message_def\<close>)

lemma clamp_message_idem [simp]: "clamp_message (clamp_message m) = clamp_message m"
  using clamp_message_prefix [of m] by (simp add: clamp_message_def [of "clamp_message m"])

section \<open>What a store promises\<close>

definition leased :: "int \<Rightarrow> outbox_entry \<Rightarrow> outbox_entry" where
  "leased t e = e\<lparr>ob_next_attempt_at := t\<rparr>"

definition revived :: "int \<Rightarrow> outbox_entry \<Rightarrow> outbox_entry" where
  "revived now e = e\<lparr>ob_status := ObPending, ob_attempts := 0, ob_next_attempt_at := now\<rparr>"

text \<open>Ids are handed out in order and never above the counter; the spool is bounded.\<close>

definition spool_ok :: "nat \<Rightarrow> nat \<Rightarrow> outbox_entry list \<Rightarrow> bool" where
  "spool_ok cap n es \<longleftrightarrow> sorted_wrt (<) (map ob_id es) \<and> (\<forall>e \<in> set es. ob_id e \<le> n) \<and> length es \<le> cap"

text \<open>What one attempt makes of a leased entry.\<close>

definition settled_entry :: "(outbox_entry \<Rightarrow> bool \<times> int) \<Rightarrow> outbox_entry \<Rightarrow> outbox_entry" where
  "settled_entry post e =
     (case post e of (ok, now) \<Rightarrow>
        if ok then e\<lparr>ob_status := ObDelivered\<rparr>
        else if ob_attempts e + 1 \<ge> OUTBOX_MAX_ATTEMPTS then e\<lparr>ob_status := ObDead\<rparr>
        else e\<lparr>ob_attempts := ob_attempts e + 1,
               ob_next_attempt_at := max (i64_saturating_add now (backoff_delay_secs (ob_attempts e + 1)))
                                         (i64_saturating_add (ob_next_attempt_at e) 1)\<rparr>)"

text \<open>The attempts an entry has left.\<close>

definition attempts_left :: "outbox_entry \<Rightarrow> nat" where
  "attempts_left e =
     (if ob_status e = ObPending then max 1 (OUTBOX_MAX_ATTEMPTS - ob_attempts e) else 0)"

definition due_batch :: "int \<Rightarrow> outbox_entry list \<Rightarrow> outbox_entry list" where
  "due_batch now es = take CLAIM_BATCH (filter (due now) es)"

fun run_passes ::
  "'s outbox_port \<Rightarrow> ((outbox_entry \<Rightarrow> bool \<times> int) \<times> int) list \<Rightarrow> 's \<Rightarrow> nat \<times> 's" where
  "run_passes port [] s = (0, s)"
| "run_passes port ((post, now) # ps) s =
     (case flush_once port post now s of (progressed, s') \<Rightarrow>
        (case run_passes port ps s' of (n, s'') \<Rightarrow> ((if progressed then 1 else 0) + n, s'')))"

inductive outbox_step :: "'s outbox_port \<Rightarrow> 's \<Rightarrow> 's \<Rightarrow> bool" for port where
  notify: "outbox_step port s (notify port kind project message now s)"
| claim_due: "outbox_step port s (snd (op_claim_due port batch now s))"
| settle: "outbox_step port s (settle port post e s)"
| replay: "outbox_step port s (snd (op_replay port i now s))"

lemma settled_entry_simps [simp]: "ob_id (settled_entry post e) = ob_id e" "ob_id (leased t e) = ob_id e"
  "ob_id (revived t e) = ob_id e"
  by (auto simp: settled_entry_def leased_def revived_def split: prod.split)

lemma spool_ok_map:
  "(\<And>e. ob_id (f e) = ob_id e) \<Longrightarrow> spool_ok cap n (map f es) \<longleftrightarrow> spool_ok cap n es"
  by (simp add: spool_ok_def o_def)

lemma spool_ok_ids:
  assumes "map ob_id es = map ob_id es'"
  shows "spool_ok cap n es \<longleftrightarrow> spool_ok cap n es'"
proof -
  have "spool_ok cap n xs \<longleftrightarrow> sorted_wrt (<) (map ob_id xs) \<and> (\<forall>i \<in> set (map ob_id xs). i \<le> n)
      \<and> length (map ob_id xs) \<le> cap" for xs
    by (simp add: spool_ok_def)
  with assms show ?thesis by (simp only:)
qed

lemma sorted_wrt_drop: "sorted_wrt P xs \<Longrightarrow> sorted_wrt P (drop n xs)"
  by (metis append_take_drop_id sorted_wrt_append)

lemma spool_ok_enqueue:
  assumes "spool_ok cap n es" and "ob_id e = n + 1"
  shows "spool_ok cap (n + 1) (keep_newest cap (es @ [e]))"
proof -
  have "sorted_wrt (<) (map ob_id (es @ [e]))"
    using assms by (auto simp: spool_ok_def sorted_wrt_append less_Suc_eq_le)
  then have "sorted_wrt (<) (map ob_id (keep_newest cap (es @ [e])))"
    unfolding keep_newest_def drop_map [symmetric] by (rule sorted_wrt_drop)
  moreover have "\<forall>x \<in> set (keep_newest cap (es @ [e])). ob_id x \<le> n + 1"
    using assms set_keep_newest [of cap "es @ [e]"] by (fastforce simp: spool_ok_def)
  ultimately show ?thesis by (simp add: spool_ok_def)
qed

lemma spool_ok_distinct: "spool_ok cap n es \<Longrightarrow> distinct (map ob_id es)"
  by (simp add: spool_ok_def strict_sorted_iff)

lemma ids_map_if [simp]:
  "(\<And>e. ob_id (f e) = ob_id e) \<Longrightarrow> map ob_id (map (\<lambda>e. if P e then f e else e) es) = map ob_id es"
  by simp

locale outbox_store =
  fixes port :: "'s outbox_port"
    and entries :: "'s \<Rightarrow> outbox_entry list"
    and counter :: "'s \<Rightarrow> nat"
    and cap :: nat
    and lease :: int
  assumes cap_pos: "0 < cap"
    and lease_pos: "0 < lease"
    and enqueue_law: "ob_status d = ObPending \<Longrightarrow> clamp_message (ob_message d) = ob_message d
      \<Longrightarrow> entries (op_enqueue port d s) = keep_newest cap (entries s @ [d\<lparr>ob_id := counter s + 1\<rparr>])
        \<and> counter (op_enqueue port d s) = counter s + 1"
    and claim_law: "distinct (map ob_id (entries s)) \<Longrightarrow> op_claim_due port batch now s = (cl, s')
      \<Longrightarrow> cl = map (leased (now + lease)) (take batch (filter (due now) (entries s)))
        \<and> entries s' = map (\<lambda>e. if e \<in> set (take batch (filter (due now) (entries s)))
                               then leased (now + lease) e else e) (entries s)
        \<and> counter s' = counter s"
    and delivered_law: "entries (op_mark_delivered port i s) =
          map (\<lambda>e. if ob_id e = i then e\<lparr>ob_status := ObDelivered\<rparr> else e) (entries s)
        \<and> counter (op_mark_delivered port i s) = counter s"
    and dead_law: "entries (op_mark_dead port i s) =
          map (\<lambda>e. if ob_id e = i then e\<lparr>ob_status := ObDead\<rparr> else e) (entries s)
        \<and> counter (op_mark_dead port i s) = counter s"
    and retry_law: "\<forall>e \<in> set (entries s). ob_id e = i \<longrightarrow> ob_attempts e + 1 < OUTBOX_MAX_ATTEMPTS
      \<Longrightarrow> entries (op_mark_retry port i t s) =
          map (\<lambda>e. if ob_id e = i then e\<lparr>ob_attempts := ob_attempts e + 1, ob_next_attempt_at := t\<rparr> else e)
            (entries s)"
    and retry_ids: "map ob_id (entries (op_mark_retry port i t s)) = map ob_id (entries s)
        \<and> counter (op_mark_retry port i t s) = counter s"
    and recent_law: "sorted_wrt (<) (map ob_id (entries s))
      \<Longrightarrow> op_recent port limit s = take limit (rev (entries s))"
    and replay_law: "distinct (map ob_id (entries s)) \<Longrightarrow> op_replay port i now s = (ok, s')
      \<Longrightarrow> entries s' = map (\<lambda>e. if ob_id e = i \<and> ob_status e = ObDead then revived now e else e) (entries s)
        \<and> counter s' = counter s
        \<and> (ok \<longleftrightarrow> (\<exists>e \<in> set (entries s). ob_id e = i \<and> ob_status e = ObDead))"
begin

lemma notify_entries:
  "entries (notify port kind project message now s) =
      keep_newest cap (entries s @ [(pending kind project message now)\<lparr>ob_id := counter s + 1\<rparr>])
    \<and> counter (notify port kind project message now s) = counter s + 1"
  unfolding notify_def by (rule enqueue_law) (simp_all add: pending_def)

text \<open>Settling a claimed entry changes this entry and nothing else.\<close>

lemma settle_entries:
  assumes "distinct (map ob_id (entries s))" and "c \<in> set (entries s)"
  shows "entries (settle port post c s) = map (\<lambda>e. if e = c then settled_entry post e else e) (entries s)"
proof -
  obtain ok now where post: "post c = (ok, now)" by fastforce
  have id: "ob_id e = ob_id c \<longleftrightarrow> e = c" if "e \<in> set (entries s)" for e
    using assms that by (auto simp: distinct_map dest: inj_onD)
  have "u8_succ (ob_attempts c) = ob_attempts c + 1" if "ob_attempts c + 1 < OUTBOX_MAX_ATTEMPTS"
    using that by (simp add: u8_succ_def OUTBOX_MAX_ATTEMPTS_def)
  moreover have "u8_succ (ob_attempts c) \<ge> OUTBOX_MAX_ATTEMPTS" if "\<not> ob_attempts c + 1 < OUTBOX_MAX_ATTEMPTS"
    using that by (simp add: u8_succ_def OUTBOX_MAX_ATTEMPTS_def)
  moreover have "entries (op_mark_retry port (ob_id c) t s) =
      map (\<lambda>e. if ob_id e = ob_id c then e\<lparr>ob_attempts := ob_attempts e + 1, ob_next_attempt_at := t\<rparr> else e)
        (entries s)" if "ob_attempts c + 1 < OUTBOX_MAX_ATTEMPTS" for t
    using that id by (intro retry_law) auto
  ultimately show ?thesis
    using id delivered_law [of "ob_id c" s] dead_law [of "ob_id c" s]
    by (cases "ob_attempts c + 1 < OUTBOX_MAX_ATTEMPTS")
      (auto simp: settle_def post settled_entry_def advance_after_failure_def Let_def min_def)
qed

lemma settle_counter: "counter (settle port post c s) = counter s"
  using delivered_law dead_law retry_ids by (auto simp: settle_def Let_def split: prod.split)

lemma settle_ids: "map ob_id (entries (settle port post c s)) = map ob_id (entries s)"
proof -
  have "map ob_id (entries (op_mark_delivered port (ob_id c) s)) = map ob_id (entries s)"
    "map ob_id (entries (op_mark_dead port (ob_id c) s)) = map ob_id (entries s)"
    unfolding conjunct1 [OF delivered_law] conjunct1 [OF dead_law] by (rule ids_map_if, simp)+
  with retry_ids show ?thesis by (simp add: settle_def Let_def split: prod.split)
qed

lemma settle_all:
  assumes "distinct (map ob_id (entries s))" and "distinct (map ob_id cl)" and "set cl \<subseteq> set (entries s)"
  shows "entries (fold (settle port post) cl s) = map (\<lambda>e. if e \<in> set cl then settled_entry post e else e) (entries s)
    \<and> counter (fold (settle port post) cl s) = counter s"
  using assms
proof (induction cl arbitrary: s)
  case (Cons c cl)
  let ?s = "settle port post c s"
  have es: "entries ?s = map (\<lambda>e. if e = c then settled_entry post e else e) (entries s)"
    using Cons.prems by (intro settle_entries) auto
  have "ob_id c \<notin> ob_id ` set cl" using Cons.prems(2) by simp
  then have other: "ob_id e \<noteq> ob_id c" if "e \<in> set cl" for e using that by (metis imageI)
  have "set cl \<subseteq> set (entries ?s)"
  proof
    fix e assume "e \<in> set cl"
    with Cons.prems(3) other have "e \<in> set (entries s)" "e \<noteq> c" by auto
    then show "e \<in> set (entries ?s)" unfolding es by (force intro: rev_image_eqI)
  qed
  from Cons.IH [OF _ _ this] Cons.prems(1,2) settle_ids [of post c s]
  have "entries (fold (settle port post) cl ?s) = map (\<lambda>e. if e \<in> set cl then settled_entry post e else e) (entries ?s)"
    "counter (fold (settle port post) cl ?s) = counter ?s" by simp_all
  moreover have "settled_entry post c \<notin> set cl" using other by force
  ultimately show ?case using other by (auto simp: es settle_counter)
qed simp

lemma flush_entries:
  assumes "distinct (map ob_id (entries s))" and "flush_once port post now s = (progressed, s')"
  shows "entries s' = map (\<lambda>e. if e \<in> set (due_batch now (entries s))
        then settled_entry post (leased (now + lease) e) else e) (entries s)
    \<and> counter s' = counter s \<and> (progressed \<longleftrightarrow> due_batch now (entries s) \<noteq> [])"
proof -
  let ?c = "due_batch now (entries s)" and ?l = "leased (now + lease)"
  obtain cl s1 where claim: "op_claim_due port CLAIM_BATCH now s = (cl, s1)" by fastforce
  from claim_law [OF assms(1) claim] have c: "cl = map ?l ?c" "counter s1 = counter s"
    "entries s1 = map (\<lambda>e. if e \<in> set ?c then ?l e else e) (entries s)"
    by (simp_all add: due_batch_def)
  have sub: "set ?c \<subseteq> set (entries s)"
    by (auto simp: due_batch_def dest: in_set_takeD)
  have "map ob_id (entries s1) = map ob_id (entries s)" unfolding c(3) by (rule ids_map_if) simp
  then have d1: "distinct (map ob_id (entries s1))" using assms(1) by simp
  have d2: "distinct (map ob_id cl)"
    using assms(1) unfolding c(1) by (simp add: due_batch_def o_def distinct_map_filter take_map [symmetric])
  have sub1: "set cl \<subseteq> set (entries s1)" using sub unfolding c by force
  have mem: "?l e \<in> set cl \<longleftrightarrow> e \<in> set ?c" "e \<notin> set ?c \<Longrightarrow> e \<notin> set cl" if "e \<in> set (entries s)" for e
  proof -
    have eq: "x = e" if "x \<in> set ?c" "ob_id x = ob_id e" for x
      using assms(1) sub that \<open>e \<in> set (entries s)\<close> by (auto simp: distinct_map dest: inj_onD)
    have id: "\<exists>x \<in> set ?c. ob_id x = ob_id y" if "y \<in> set cl" for y using that c(1) by auto
    show "?l e \<in> set cl \<longleftrightarrow> e \<in> set ?c"
      using id [of "?l e"] eq c(1) by auto
    show "e \<notin> set cl" if "e \<notin> set ?c" using id [of e] eq that by auto
  qed
  have "s' = fold (settle port post) cl s1" "progressed \<longleftrightarrow> cl \<noteq> []"
    using assms(2) claim by (simp_all add: flush_once_def)
  with settle_all [OF d1 d2 sub1, of post] mem c show ?thesis by (auto simp: o_def)
qed

lemma attempts_left_settled_entry:
  "ob_status e = ObPending \<Longrightarrow> attempts_left (settled_entry post (leased t e)) < attempts_left e"
  by (auto simp: attempts_left_def settled_entry_def leased_def OUTBOX_MAX_ATTEMPTS_def split: prod.split)

text \<open>A pass that claims something uses up attempts.\<close>

lemma flush_uses_attempts:
  assumes "distinct (map ob_id (entries s))" and "flush_once port post now s = (progressed, s')"
  shows "(if progressed then 1 else 0) + sum_list (map attempts_left (entries s'))
    \<le> sum_list (map attempts_left (entries s))"
proof -
  let ?c = "due_batch now (entries s)"
  let ?f = "\<lambda>e. if e \<in> set ?c then settled_entry post (leased (now + lease) e) else e"
  note fl = flush_entries [OF assms]
  have pend: "ob_status e = ObPending" "e \<in> set (entries s)" if "e \<in> set ?c" for e
    using that by (auto simp: due_batch_def due_def dest: in_set_takeD)
  have le: "attempts_left (?f e) \<le> attempts_left e" for e
    using attempts_left_settled_entry [of e post "now + lease"] pend by (auto intro: less_imp_le)
  show ?thesis
  proof (cases progressed)
    case True
    then obtain c where c: "c \<in> set ?c" using fl by (cases ?c) auto
    then obtain xs ys where es: "entries s = xs @ c # ys" using pend(2) by (metis split_list)
    have sum: "sum_list (map (attempts_left \<circ> ?f) zs) \<le> sum_list (map attempts_left zs)" for zs
      using le by (intro sum_list_mono) simp
    have "attempts_left (?f c) < attempts_left c"
      using attempts_left_settled_entry [OF pend(1) [OF c]] c by simp
    moreover have "map attempts_left (entries s') = map (attempts_left \<circ> ?f) xs @ attempts_left (?f c) # map (attempts_left \<circ> ?f) ys"
      using fl by (simp add: es)
    ultimately show ?thesis using sum [of xs] sum [of ys] True by (simp add: es)
  next
    case False
    then show ?thesis using fl by simp
  qed
qed

lemma run_passes_bounded:
  assumes "distinct (map ob_id (entries s))"
  shows "fst (run_passes port ps s) + sum_list (map attempts_left (entries (snd (run_passes port ps s))))
    \<le> sum_list (map attempts_left (entries s))"
  using assms
proof (induction ps arbitrary: s)
  case (Cons p ps)
  obtain post now where p: "p = (post, now)" by fastforce
  obtain progressed s' where fl: "flush_once port post now s = (progressed, s')" by fastforce
  note ex = flush_entries [OF Cons.prems fl]
  have "map ob_id (entries s') = map ob_id (entries s)"
    unfolding conjunct1 [OF ex] by (rule ids_map_if) simp
  then have "distinct (map ob_id (entries s'))" using Cons.prems by simp
  from Cons.IH [OF this] flush_uses_attempts [OF Cons.prems fl] show ?case
    by (cases "run_passes port ps s'"; cases progressed) (simp_all add: p fl)
qed simp

abbreviation store_inv :: "'s \<Rightarrow> bool" where
  "store_inv s \<equiv> spool_ok cap (counter s) (entries s)"

lemma step_inv:
  assumes "outbox_step port s s'" and "store_inv s"
  shows "store_inv s'"
  using assms
proof cases
  case (notify kind project message now)
  then show ?thesis using notify_entries [of kind project message now s] spool_ok_enqueue [OF assms(2)] by simp
next
  case (claim_due batch now)
  obtain cl s1 where cl: "op_claim_due port batch now s = (cl, s1)" by fastforce
  with claim_law [OF spool_ok_distinct [OF assms(2)] cl] claim_due assms(2) show ?thesis
    by (simp add: spool_ok_map)
next
  case (settle post e)
  then show ?thesis
    using assms(2) spool_ok_ids [OF settle_ids [of post e s]] by (simp add: settle_counter)
next
  case (replay i now)
  obtain ok s1 where r: "op_replay port i now s = (ok, s1)" by fastforce
  with replay_law [OF spool_ok_distinct [OF assms(2)] r] replay assms(2) show ?thesis
    by (simp add: spool_ok_map)
qed

end

section \<open>The stores keep the promise\<close>

lemma claim_loop_exact:
  assumes "distinct (map ob_id es)"
  shows "claim_loop now t batch n es =
    (map (leased t) (take (batch - n) (filter (due now) es)),
     map (\<lambda>e. if e \<in> set (take (batch - n) (filter (due now) es)) then leased t e else e) es)"
  using assms
proof (induction es arbitrary: n)
  case (Cons e es)
  have new: "e \<notin> set es" using Cons.prems by auto
  then have fresh: "e \<notin> set (take k (filter (due now) es))" for k by (auto dest: in_set_takeD)
  have skip: "map (\<lambda>x. if x = e \<or> P x then f x else x) es = map (\<lambda>x. if P x then f x else x) es" for P f
    using new by (intro map_cong) auto
  show ?case
  proof (cases "due now e")
    case True
    show ?thesis
    proof (cases "n \<ge> batch")
      case False
      then have "batch - n = Suc (batch - (n + 1))" by simp
      with True False Cons fresh skip show ?thesis by (auto simp: leased_def)
    qed (use True in simp)
  qed (use Cons fresh in simp)
qed simp

lemma sort_key_descending:
  assumes "sorted_wrt (<) (map ob_id es)"
  shows "sort_key (\<lambda>e. - int (ob_id e)) es = rev es"
proof (rule sort_key_inj_key_eq)
  have "distinct (map ob_id es)" using assms by (simp add: strict_sorted_iff)
  then show "inj_on (\<lambda>e. - int (ob_id e)) (set es)" by (auto simp: distinct_map inj_on_def)
  show "mset es = mset (rev es)" by simp
  show "sorted (map (\<lambda>e. - int (ob_id e)) (rev es))"
    using assms by (induction es) (auto simp: sorted_append intro: less_imp_le)
qed

lemma replay_first_exact:
  assumes "distinct (map ob_id es)"
  shows "replay_first i now es =
    (\<exists>e \<in> set es. ob_id e = i \<and> ob_status e = ObDead,
     map (\<lambda>e. if ob_id e = i \<and> ob_status e = ObDead then revived now e else e) es)"
  using assms
proof (induction es)
  case (Cons e es)
  show ?case
  proof (cases "ob_id e = i \<and> ob_status e = ObDead")
    case True
    with Cons.prems have "\<forall>x \<in> set es. ob_id x \<noteq> i" by (metis distinct.simps(2) imageI list.set_map list.simps(9))
    then have "map (\<lambda>e. if ob_id e = i \<and> ob_status e = ObDead then revived now e else e) es = es"
      by (intro map_idI) auto
    with True show ?thesis by (auto simp: revived_def)
  qed (use Cons in auto)
qed simp

lemmas store_defs = mark_delivered_def mark_dead_def on_id_def claim_loop_exact replay_first_exact
  sort_key_descending spool_recent_def spool_replay_def u8_succ_def OUTBOX_MAX_ATTEMPTS_def

interpretation file_outbox: outbox_store FileOutboxStore sl_entries sl_next_id 500 61
  by unfold_locales
    (auto simp: FileOutboxStore_def file_enqueue_def file_claim_due_def file_mark_retry_def store_defs
      DEFAULT_CAP_def DEFAULT_LEASE_TTL_SECS_def keep_newest_def Let_def add.assoc)

interpretation memory_outbox: outbox_store MemoryOutboxStore sl_entries sl_next_id 500 60
  by unfold_locales
    (auto simp: MemoryOutboxStore_def mem_enqueue_def mem_claim_due_def mem_mark_retry_def store_defs Let_def)

end
