(* ===== verification/Platform_Properties.thy ===== *)
theory Platform_Properties
  imports Audit_Chain Merge_Lock Rate_Limit Totp Outbox
begin

text \<open>
  Properties of the platform components around the core: the merge lease, the audit chain, the
  limiter of the authentication endpoints and the one-time passwords.
\<close>

section \<open>Runs of the merge lease\<close>

fun timely_run ::
  "(lease_doc \<Rightarrow> 'j) \<Rightarrow> ('j \<Rightarrow> lease_doc option) \<Rightarrow> lock_event list \<Rightarrow> 'j lock_sys \<Rightarrow> bool" where
  "timely_run enc dec [] s \<longleftrightarrow> True"
| "timely_run enc dec (ev # evs) s \<longleftrightarrow> timely ev s \<and> timely_run enc dec evs (lock_exec enc dec ev s)"

lemma reach_run:
  assumes "reach lock_init (lock_step enc dec) s" and "timely_run enc dec evs s"
  shows "reach lock_init (lock_step enc dec) (fold (lock_exec enc dec) evs s)"
  using assms
proof (induction evs arbitrary: s)
  case (Cons ev evs)
  have "reach lock_init (lock_step enc dec) (lock_exec enc dec ev s)"
    using Cons.prems by (auto intro: reach_step [of _ _ s] lock_stepI)
  with Cons show ?case by simp
qed simp

definition fresh_lock :: "int \<Rightarrow> 'j lock_sys" where
  "fresh_lock now = \<lparr>ls_kv = Map.empty, ls_clock = now, ls_pc = (\<lambda>_. Idle), ls_log = (\<lambda>_. [])\<rparr>"

lemma fresh_lock_reach: "reach lock_init (lock_step enc dec) (fresh_lock now)"
  by (rule reach_init) (simp add: fresh_lock_def lock_init_def)

lemmas run_defs = fresh_lock_def lock_exec_def run_pc_def goto_def commit_write_def
  persist_at_revision_def current_version_def read_lease_def kv_load_def takeover_allowed_def
  expired_at_def new_lease_def tombstone_def I64_MAX_def timely_def

text \<open>
  C7. The merge lease is exclusive: however the acquires and releases of any number of holders
  interleave between their awaits, as long as no release writes its tombstone after the lease it
  read ran out, a lease is granted to another holder only after it was released by its holder or
  has expired, only the holder releases it, and the document in the table is the lease granted
  or released last.
\<close>

theorem merge_lock_exclusive:
  assumes "\<And>d. dec (enc d) = Some d" and "reach lock_init (lock_step enc dec) s"
  shows "successively exclusive (ls_log s k)
    \<and> (ls_log s k \<noteq> [] \<longrightarrow> log_matches (last (ls_log s k)) (read_lease dec (ls_kv s) k))"
  using lock_reachable [OF assms] by (simp add: lock_inv_def log_ok_def)

theorem merge_lock_exclusive_witness:
  "(let s = fold (lock_exec id Some)
       [CallAcquire ''a'' ''main'' ''merge'' 5, CallAcquire ''b'' ''main'' ''merge'' 5, Run ''a'', Run ''b'',
        Run ''b'', Run ''a'', Run ''a'', Run ''b'', Tick 6, CallAcquire ''b'' ''main'' ''merge'' 5,
        Run ''b'', Run ''b'', Run ''b''] (fresh_lock 100) in
    ls_log s ''main'' = [Granted ''a'' 100 105, Granted ''b'' 106 111]
    \<and> successively exclusive (ls_log s ''main''))"
proof -
  let ?evs = "[CallAcquire ''a'' ''main'' ''merge'' 5, CallAcquire ''b'' ''main'' ''merge'' 5, Run ''a'', Run ''b'',
        Run ''b'', Run ''a'', Run ''a'', Run ''b'', Tick 6, CallAcquire ''b'' ''main'' ''merge'' 5,
        Run ''b'', Run ''b'', Run ''b'']"
  have "timely_run id Some ?evs (fresh_lock 100)" by (simp add: run_defs)
  from merge_lock_exclusive [OF _ reach_run [OF fresh_lock_reach this], of "''main''"]
  have "successively exclusive (ls_log (fold (lock_exec id Some) ?evs (fresh_lock 100)) ''main'')" by simp
  moreover have "ls_log (fold (lock_exec id Some) ?evs (fresh_lock 100)) ''main''
      = [Granted ''a'' 100 105, Granted ''b'' 106 111]" by (simp add: run_defs)
  ultimately show ?thesis by (simp only: Let_def simp_thms)
qed

text \<open>
  C8. The interleaved protocol refines the atomic lease: every step of a reachable state that
  keeps the release discipline either is invisible or is one atomic step of the acting holder, a
  grant the current lease allows, the release of a live lease by its holder, or the clock.
\<close>

theorem merge_lock_refines:
  assumes "\<And>d. dec (enc d) = Some d" and "reach lock_init (lock_step enc dec) s" and "timely ev s"
  shows "lease_abs dec (lock_exec enc dec ev s) = lease_abs dec s
    \<or> lease_step (event_actor ev) (lease_abs dec s) (lease_abs dec (lock_exec enc dec ev s))"
  using lock_exec_refines [OF lock_reachable [OF assms(1,2)] assms(1,3)] .

theorem merge_lock_refines_witness:
  "(let s = fold (lock_exec id Some)
       [CallAcquire ''a'' ''main'' ''merge'' 5, Run ''a'', Run ''a''] (fresh_lock 100);
      s' = lock_exec id Some (Run ''a'') s in
    lease_abs Some s' \<noteq> lease_abs Some s \<and> lease_step ''a'' (lease_abs Some s) (lease_abs Some s'))"
proof -
  let ?evs = "[CallAcquire ''a'' ''main'' ''merge'' 5, Run ''a'', Run ''a'']"
  let ?s = "fold (lock_exec id Some) ?evs (fresh_lock 100)"
  have run: "timely_run id Some ?evs (fresh_lock 100)" "timely (Run ''a'') ?s" by (simp_all add: run_defs)
  from merge_lock_refines [OF _ reach_run [OF fresh_lock_reach run(1)] run(2)]
  have "lease_abs Some (lock_exec id Some (Run ''a'') ?s) = lease_abs Some ?s
    \<or> lease_step ''a'' (lease_abs Some ?s) (lease_abs Some (lock_exec id Some (Run ''a'') ?s))" by simp
  moreover have "al_lease (lease_abs Some ?s) ''main'' = None"
    "al_lease (lease_abs Some (lock_exec id Some (Run ''a'') ?s)) ''main'' \<noteq> None"
    by (simp_all add: run_defs lease_abs_def)
  ultimately show ?thesis unfolding Let_def by metis
qed

text \<open>
  A late release clears the lease of somebody else: when \<open>a\<close> has read its own lease, the lease
  expires, \<open>b\<close> acquires the branch, and \<open>a\<close> goes on, then the tombstone is written over the live
  lease of \<open>b\<close>, and \<open>c\<close> acquires the branch while \<open>b\<close> still holds it. The version the release read
  first is not used for the write.
\<close>

theorem merge_lock_release_race:
  assumes "\<And>d. dec (enc d) = Some d" and "a \<noteq> b" and "b \<noteq> c" and "a \<noteq> c"
    and "0 \<le> now" and "0 < ttl" and "now + 3 + int ttl \<le> I64_MAX"
  shows "ls_log (fold (lock_exec enc dec)
      [CallAcquire a k w 1, Run a, Run a, Run a, CallRelease a k, Run a, Run a, Tick 3,
       CallAcquire b k w ttl, Run b, Run b, Run b, Run a, Run a,
       CallAcquire c k w ttl, Run c, Run c, Run c] (fresh_lock now)) k
    = [Granted a now (now + 1), Granted b (now + 3) (now + 3 + int ttl), Released a,
       Granted c (now + 3) (now + 3 + int ttl)]"
  using assms by (simp add: run_defs max_def)

theorem merge_lock_release_race_witness:
  "ls_log (fold (lock_exec id Some)
      [CallAcquire ''a'' ''k'' [] 1, Run ''a'', Run ''a'', Run ''a'', CallRelease ''a'' ''k'', Run ''a'', Run ''a'', Tick 3,
       CallAcquire ''b'' ''k'' [] 60, Run ''b'', Run ''b'', Run ''b'', Run ''a'', Run ''a'',
       CallAcquire ''c'' ''k'' [] 60, Run ''c'', Run ''c'', Run ''c''] (fresh_lock 0)) ''k''
    = [Granted ''a'' 0 1, Granted ''b'' 3 63, Released ''a'', Granted ''c'' 3 63]"
  using merge_lock_release_race [of Some id "''a''" "''b''" "''c''" 0 60 "''k''" "[]"]
  by (simp add: I64_MAX_def)

section \<open>The audit log\<close>

lemma verify_chain_breakE:
  assumes "\<not> linked sha GENESIS_PREV rows"
  obtains b where "verify_chain sha rows = Inl b" and "cb_index b < length rows"
    and "verify_chain sha (take (cb_index b) rows) = Inr (cb_index b)"
    and "\<And>n. verify_chain sha (take (Suc (cb_index b)) rows) \<noteq> Inr n"
proof -
  from verify_from_break [OF assms, of 0] obtain k reason where
    k: "verify_chain sha rows = Inl \<lparr>cb_index = k, cb_reason = reason\<rparr>" "k < length rows"
      "linked sha GENESIS_PREV (take k rows)" "\<not> linked sha GENESIS_PREV (take (Suc k) rows)"
    by (auto simp: verify_chain_def)
  show ?thesis using that [OF k(1)] k(2-4) by (simp add: verify_chain_ok_iff)
qed

lemma linked_hashes_nonempty:
  assumes "\<And>m. sha m \<noteq> []" and "linked sha tip rows"
  shows "\<forall>r \<in> set rows. ce_hash r \<noteq> []"
  using linked_hash [OF assms(2)] assms(1) by simp

text \<open>A digest for the concrete examples: injective and never empty.\<close>

definition toy_sha :: digest_fun where "toy_sha m = 1 # map (\<lambda>c. of_nat (of_char c)) m"

lemma toy_sha_nonempty: "toy_sha m \<noteq> []"
  by (simp add: toy_sha_def)

lemma toy_sha_inj: "inj toy_sha"
proof -
  have "unat (of_nat (of_char c) :: 8 word) = of_char c" for c
    by (simp add: unsigned_of_nat take_bit_nat_eq_self)
  then have "inj (\<lambda>c. of_nat (of_char c) :: 8 word)"
    by (metis (no_types, lifting) injI of_char_eqI)
  then show ?thesis by (auto simp: toy_sha_def inj_def inj_map_eq_map)
qed

text \<open>
  The log the sink writes verifies: whatever entries are recorded after a log that verifies,
  the extended log verifies with the right number of rows; sealing rows that predate the chain
  makes them part of it and leaves the sealed rows as they are.
\<close>

theorem audit_log_verifies:
  assumes "\<And>m. sha m \<noteq> []" and "verify_chain sha rows = Inr n"
    and "\<forall>r \<in> set legacy. ce_hash r = []"
  shows "verify_chain sha (fold (record_row sha) es rows) = Inr (n + length es)
    \<and> verify_chain sha (backfill_chain sha (rows @ legacy)) = Inr (n + length legacy)
    \<and> take n (backfill_chain sha (rows @ legacy)) = rows"
proof -
  have rows: "linked sha GENESIS_PREV rows" "n = length rows"
    using assms(2) by (simp_all add: verify_chain_ok_iff)
  from record_rows_linked [OF assms(1) rows(1), of es]
    backfill_linked [OF rows(1) linked_hashes_nonempty [OF assms(1) rows(1)] assms(3)]
  show ?thesis by (simp add: verify_chain_ok_iff rows(2) backfill_chain_def)
qed

definition sample_log :: "chained_entry list" where
  "sample_log = fold (record_row toy_sha)
     [\<lparr>ar_at = ''2026-01-01'', ar_user = ''ana'', ar_action = ''login'', ar_status = 200\<rparr>,
      \<lparr>ar_at = ''2026-02-01'', ar_user = ''bob'', ar_action = ''merge'', ar_status = 500\<rparr>] []"

theorem audit_log_verifies_witness: "verify_chain toy_sha sample_log = Inr 2"
  using audit_log_verifies [of toy_sha "[]" 0 "[]"
     "[\<lparr>ar_at = ''2026-01-01'', ar_user = ''ana'', ar_action = ''login'', ar_status = 200\<rparr>,
      \<lparr>ar_at = ''2026-02-01'', ar_user = ''bob'', ar_action = ''merge'', ar_status = 500\<rparr>]"]
  by (simp add: toy_sha_nonempty sample_log_def verify_chain_def)

text \<open>
  C39. The log is tamper evident against an anchor: keep the last hash of a log that verifies;
  then any other table of rows that ends in this hash fails verification, and the reported index
  is the first bad row. It presumes that the digests of the rows involved do not collide, that no
  row hashes to the genesis anchor, and that timestamps, users and actions contain no line break.
\<close>

theorem audit_tamper_evident:
  assumes "verify_chain sha rows = Inr n" and "rows' \<noteq> rows"
    and "tip_of GENESIS_PREV rows' = tip_of GENESIS_PREV rows"
    and "inj_on sha (message_of ` (set rows \<union> set rows'))"
    and "\<forall>r \<in> set rows \<union> set rows'. plain_fields r \<and> ce_hash r \<noteq> GENESIS_PREV"
  shows "\<exists>b. verify_chain sha rows' = Inl b \<and> cb_index b < length rows'
    \<and> verify_chain sha (take (cb_index b) rows') = Inr (cb_index b)
    \<and> (\<forall>m. verify_chain sha (take (Suc (cb_index b)) rows') \<noteq> Inr m)"
proof -
  have "linked sha GENESIS_PREV rows" using assms(1) by (simp add: verify_chain_ok_iff)
  with same_tip_same_chain [OF _ _ assms(4,5)] assms(2,3) have "\<not> linked sha GENESIS_PREV rows'" by metis
  then show ?thesis by (rule verify_chain_breakE) blast
qed

lemma sample_log_simps:
  "map ce_user sample_log = [''ana'', ''bob'']" "map ce_at sample_log = [''2026-01-01'', ''2026-02-01'']"
  "map ce_action sample_log = [''login'', ''merge'']"
  by code_simp+

definition forged_log :: "chained_entry list" where
  "forged_log = (case sample_log of [r, q] \<Rightarrow> [r\<lparr>ce_user := ''eve''\<rparr>, q])"

theorem audit_tamper_evident_witness:
  "\<exists>b. verify_chain toy_sha forged_log = Inl b \<and> cb_index b < 2"
proof -
  have len: "length forged_log = 2" by code_simp
  have "\<exists>b. verify_chain toy_sha forged_log = Inl b \<and> cb_index b < length forged_log
    \<and> verify_chain toy_sha (take (cb_index b) forged_log) = Inr (cb_index b)
    \<and> (\<forall>m. verify_chain toy_sha (take (Suc (cb_index b)) forged_log) \<noteq> Inr m)"
  proof (rule audit_tamper_evident)
    show "verify_chain toy_sha sample_log = Inr 2" by code_simp
    show "forged_log \<noteq> sample_log" by code_simp
    show "tip_of GENESIS_PREV forged_log = tip_of GENESIS_PREV sample_log" by code_simp
    show "inj_on toy_sha (message_of ` (set sample_log \<union> set forged_log))"
      using toy_sha_inj by (rule inj_on_subset) simp
    show "\<forall>r \<in> set sample_log \<union> set forged_log. plain_fields r \<and> ce_hash r \<noteq> GENESIS_PREV"
      by code_simp
  qed
  with len show ?thesis by auto
qed

text \<open>
  Retention breaks the chain it keeps, and a cut tail goes unnoticed: pruning a verifying
  log, ordered by time, by a cutoff that some but not all rows precede makes verification report
  a break at row 0, while every initial segment of the log verifies.
\<close>

theorem audit_prune_breaks:
  assumes "verify_chain sha rows = Inr n" and "sorted (map ce_at rows)"
    and "\<forall>r \<in> set rows. ce_hash r \<noteq> GENESIS_PREV"
    and "\<exists>r \<in> set rows. ce_at r < cutoff" and "\<exists>r \<in> set rows. \<not> ce_at r < cutoff"
  shows "(\<exists>reason. verify_chain sha (prune cutoff rows) = Inl \<lparr>cb_index = 0, cb_reason = reason\<rparr>)
    \<and> (\<forall>k \<le> n. verify_chain sha (take k rows) = Inr k)"
proof -
  have rows: "linked sha GENESIS_PREV rows" "n = length rows"
    using assms(1) by (simp_all add: verify_chain_ok_iff)
  let ?k = "length (takeWhile (\<lambda>r. ce_at r < cutoff) rows)"
  have hd: "ce_at (hd rows) < cutoff"
    using assms(2,4) by (cases rows) (auto intro: le_less_trans)
  then have "0 < ?k" using assms(4) by (cases rows) auto
  moreover have "?k < length rows"
    using assms(5) by (metis length_takeWhile_le nat_less_le takeWhile_eq_all_conv takeWhile_eq_take take_all_iff)
  ultimately have "\<exists>reason. verify_chain sha (drop ?k rows) = Inl \<lparr>cb_index = 0, cb_reason = reason\<rparr>"
    using rows(1) assms(3) by (intro drop_breaks)
  then show ?thesis
    using truncated_verifies [OF rows(1)] rows(2)
    by (simp add: prune_sorted [OF assms(2)] dropWhile_eq_drop verify_chain_ok_iff)
qed

theorem audit_prune_breaks_witness:
  "\<exists>reason. verify_chain toy_sha (prune ''2026-01-15'' sample_log) = Inl \<lparr>cb_index = 0, cb_reason = reason\<rparr>"
proof -
  have ok: "verify_chain toy_sha sample_log = Inr 2"
    "\<forall>r \<in> set sample_log. ce_hash r \<noteq> GENESIS_PREV" by code_simp+
  have order: "sorted (map ce_at sample_log)" by (simp add: sample_log_simps less_eq_list_code less_char_def)
  have "\<exists>x \<in> set (map ce_at sample_log). x < ''2026-01-15''"
    "\<exists>x \<in> set (map ce_at sample_log). \<not> x < ''2026-01-15''"
    unfolding sample_log_simps by (simp_all add: less_list_code less_char_def)
  then have "\<exists>r \<in> set sample_log. ce_at r < ''2026-01-15''" "\<exists>r \<in> set sample_log. \<not> ce_at r < ''2026-01-15''"
    by auto
  from audit_prune_breaks [OF ok(1) order ok(2) this] show ?thesis by blast
qed

section \<open>The limiter of the authentication endpoints\<close>

lemma remembers_nothing: "remembers window t [] (\<lambda>_. [])"
  by (simp add: remembers_def calls_since_def)

text \<open>
  The limiter is a sliding window: for calls in the order of their clock, each is let through
  exactly when it is at most the \<open>limit\<close>-th call of its key, refused ones included, within one
  window back from it; so no window, wherever it is placed, sees more than \<open>limit\<close> calls of a key
  let through.
\<close>

theorem auth_rate_window_exact:
  assumes "0 < window" and "sorted (map snd calls)" and "\<forall>c \<in> set calls. earliest \<le> snd c - window"
  shows "map (\<lambda>(k, t, ok). (k, t)) (fst (run_checks earliest limit window calls (\<lambda>_. []))) = calls
    \<and> (\<forall>i < length calls. \<forall>k t ok. fst (run_checks earliest limit window calls (\<lambda>_. [])) ! i = (k, t, ok) \<longrightarrow>
        (ok \<longleftrightarrow> length (calls_since k (t - window) (take (Suc i) calls)) \<le> limit))
    \<and> length (filter (\<lambda>(k, t, ok). k = key \<and> ok \<and> T - window < t \<and> t \<le> T)
        (fst (run_checks earliest limit window calls (\<lambda>_. [])))) \<le> limit"
proof -
  let ?l = "if calls = [] then 0 else snd (hd calls)"
  have "sorted (?l # map snd calls)" using assms(2) by (cases calls) auto
  from run_checks_exact [OF remembers_nothing assms(1) this assms(3), of limit]
    window_bound [OF assms, of key T limit]
  show ?thesis by simp
qed

theorem auth_rate_window_exact_witness:
  "fst (run_checks 0 2 10 [(''ip'', 100), (''ip'', 101), (''ip'', 102), (''ip'', 111)] (\<lambda>_. []))
     = [(''ip'', 100, True), (''ip'', 101, True), (''ip'', 102, False), (''ip'', 111, True)]
   \<and> length (filter (\<lambda>(k, t, ok). k = ''ip'' \<and> ok \<and> 105 - 10 < t \<and> t \<le> 105)
       (fst (run_checks 0 2 10 [(''ip'', 100), (''ip'', 101), (''ip'', 102), (''ip'', 111)] (\<lambda>_. [])))) \<le> 2"
  using auth_rate_window_exact [of 10 "[(''ip'', 100), (''ip'', 101), (''ip'', 102), (''ip'', 111)]" 0 2 "''ip''" 105]
  by (simp add: check_def checked_sub_def Let_def)

section \<open>One-time passwords\<close>

text \<open>
  Enrolment works for every secret: the text handed to the authenticator decodes to the
  secret bytes, whatever their number; and a six-digit code computed from it is accepted as long
  as the clocks of the two sides are at most one step apart.
\<close>

theorem totp_enrolment:
  assumes "now div STEP = t div STEP \<or> now div STEP = t div STEP + 1 \<or> now div STEP + 1 = t div STEP"
  shows "base32_decode (generate_secret bytes) = Some bytes
    \<and> (\<exists>code. code_at hmac (generate_secret bytes) t = Some code \<and> length code = DIGITS
          \<and> verify hmac (generate_secret bytes) code now)"
proof -
  have secret: "base32_decode (generate_secret bytes) = Some bytes"
    by (simp add: generate_secret_def base32_inverse)
  then obtain code where code: "code_at hmac (generate_secret bytes) t = Some code" "length code = DIGITS"
    by (auto simp: code_at_def hotp_length)
  with secret verify_code_at [OF code(1) assms] show ?thesis by blast
qed

theorem totp_enrolment_witness:
  "base32_decode (generate_secret [102, 111]) = Some [102, 111]
   \<and> (\<exists>code. code_at (\<lambda>_ _. replicate 20 7) (generate_secret [102, 111]) 59 = Some code \<and> length code = 6
         \<and> verify (\<lambda>_ _. replicate 20 7) (generate_secret [102, 111]) code 60)"
  using totp_enrolment [of 60 59 "[102, 111]" "\<lambda>_ _. replicate 20 7"] by (simp add: STEP_def DIGITS_def)

section \<open>The alert outbox\<close>

abbreviation empty_spool :: spool where "empty_spool \<equiv> \<lparr>sl_next_id = 0, sl_entries = []\<rparr>"

interpretation file_outbox_sys: invariant_system "\<lambda>s. s = empty_spool" "outbox_step FileOutboxStore"
  "\<lambda>s. spool_ok 500 (sl_next_id s) (sl_entries s)"
  by unfold_locales (auto simp: spool_ok_def [of _ _ "[]"] intro: file_outbox.step_inv)

text \<open>
  Whatever is spooled, claimed, settled and replayed, in any order and by any number of
  flushers, the spool holds at most 500 alerts with distinct ids in the order of their arrival,
  no id above the counter, so every new alert gets an id that none of them has; and the history
  view lists the newest first.
\<close>

theorem outbox_reachable:
  assumes "reach (\<lambda>s. s = empty_spool) (outbox_step FileOutboxStore) s"
  shows "length (sl_entries s) \<le> 500 \<and> sorted_wrt (<) (map ob_id (sl_entries s))
    \<and> (\<forall>e \<in> set (sl_entries s). ob_id e \<le> sl_next_id s)
    \<and> ob_id (last (sl_entries (notify FileOutboxStore kind project message now s))) = sl_next_id s + 1
    \<and> op_recent FileOutboxStore limit s = take limit (rev (sl_entries s))"
proof -
  have ok: "spool_ok 500 (sl_next_id s) (sl_entries s)" using assms by (rule file_outbox_sys.reach_inv)
  then show ?thesis
    using file_outbox.notify_entries [of kind project message now s] file_outbox.recent_law
    by (simp add: spool_ok_def keep_newest_snoc)
qed

definition sample_spool :: spool where
  "sample_spool = notify FileOutboxStore ''deploy_failed'' ''demo'' ''down'' 5 empty_spool"

lemma sample_spool_reach: "reach (\<lambda>s. s = empty_spool) (outbox_step FileOutboxStore) sample_spool"
  unfolding sample_spool_def by (rule reach_step [OF reach_init]) (auto intro: outbox_step.notify)

theorem outbox_reachable_witness: "ob_id (last (sl_entries (notify FileOutboxStore [] [] [] 9 sample_spool))) = 2"
proof -
  have "sl_next_id sample_spool = 1" by code_simp
  with outbox_reachable [OF sample_spool_reach, of "[]" "[]" "[]" 9 0] show ?thesis by simp
qed

text \<open>
  C14. One pass of the flusher settles exactly the first sixteen due alerts and touches no other:
  an alert answered with 2xx becomes delivered, one whose eighth attempt failed dead, and any
  other failed one stays pending with one attempt more; no alert is lost or duplicated, and the
  pass reports progress exactly when something was due.
\<close>

theorem outbox_flush_exact:
  assumes "spool_ok 500 (sl_next_id s) (sl_entries s)" and "flush_once FileOutboxStore post now s = (progressed, s')"
  shows "sl_entries s' = map (\<lambda>e. if e \<in> set (take 16 (filter (due now) (sl_entries s)))
        then settled_entry post (leased (now + 61) e) else e) (sl_entries s)
    \<and> sl_next_id s' = sl_next_id s \<and> (progressed \<longleftrightarrow> (\<exists>e \<in> set (sl_entries s). due now e))"
  using file_outbox.flush_entries [OF spool_ok_distinct [OF assms(1)] assms(2)]
  by (simp add: due_batch_def CLAIM_BATCH_def filter_empty_conv)

theorem outbox_flush_exact_witness:
  "map ob_status (sl_entries (snd (flush_once FileOutboxStore (\<lambda>_. (True, 7)) 6 sample_spool))) = [ObDelivered]"
proof -
  have "spool_ok 500 (sl_next_id sample_spool) (sl_entries sample_spool)" by code_simp
  from outbox_flush_exact [OF this surjective_pairing [of "flush_once FileOutboxStore (\<lambda>_. (True, 7)) 6 sample_spool"]]
  have "map ob_status (sl_entries (snd (flush_once FileOutboxStore (\<lambda>_. (True, 7)) 6 sample_spool))) =
    map ob_status (map (\<lambda>e. if e \<in> set (take 16 (filter (due 6) (sl_entries sample_spool)))
        then settled_entry (\<lambda>_. (True, 7)) (leased (6 + 61) e) else e) (sl_entries sample_spool))" by (simp only:)
  also have "\<dots> = [ObDelivered]" by code_simp
  finally show ?thesis .
qed

lemma attempts_left_bound:
  "sum_list (map attempts_left es) \<le> 8 * length (filter (\<lambda>e. ob_status e = ObPending) es)"
  by (induction es) (auto simp: attempts_left_def OUTBOX_MAX_ATTEMPTS_def)

text \<open>
  C13. Delivery terminates: however the webhook behaves and whenever the flusher runs, over any
  number of passes at most eight per pending alert make progress, each pass that does uses up at
  least one attempt, and a replay apart no further pass does anything once the attempts are used.
  It holds for the file store and for the in-memory fallback.
\<close>

theorem outbox_terminates:
  assumes "spool_ok 500 (sl_next_id s) (sl_entries s)" and "port = FileOutboxStore \<or> port = MemoryOutboxStore"
  shows "fst (run_passes port ps s) + sum_list (map attempts_left (sl_entries (snd (run_passes port ps s))))
      \<le> sum_list (map attempts_left (sl_entries s))
    \<and> sum_list (map attempts_left (sl_entries s)) \<le> 8 * length (filter (\<lambda>e. ob_status e = ObPending) (sl_entries s))"
proof
  show "fst (run_passes port ps s) + sum_list (map attempts_left (sl_entries (snd (run_passes port ps s))))
      \<le> sum_list (map attempts_left (sl_entries s))"
    using assms(2) spool_ok_distinct [OF assms(1)] file_outbox.run_passes_bounded
      memory_outbox.run_passes_bounded by blast
  show "sum_list (map attempts_left (sl_entries s)) \<le> 8 * length (filter (\<lambda>e. ob_status e = ObPending) (sl_entries s))"
    by (rule attempts_left_bound)
qed

theorem outbox_terminates_witness:
  "fst (run_passes FileOutboxStore (replicate 20 (\<lambda>e. (False, ob_next_attempt_at e), 100)) sample_spool) \<le> 8"
proof -
  have "spool_ok 500 (sl_next_id sample_spool) (sl_entries sample_spool)"
    "length (filter (\<lambda>e. ob_status e = ObPending) (sl_entries sample_spool)) = 1" by code_simp+
  with outbox_terminates [of sample_spool FileOutboxStore "replicate 20 (\<lambda>e. (False, ob_next_attempt_at e), 100)"]
  show ?thesis by simp
qed

text \<open>
  The base delay of thirty seconds never takes effect: the claim has moved the deadline of
  the entry to the end of its lease, and a failed attempt schedules the next one after that
  deadline, so the first retry is due no earlier than 62 seconds after the claim; a later one is
  due after its backoff, which doubles up to one hour.
\<close>

theorem outbox_backoff_floor:
  assumes "spool_ok 500 (sl_next_id s) (sl_entries s)" and "e \<in> set (due_batch now (sl_entries s))"
    and "post (leased (now + 61) e) = (False, clock)" and "ob_attempts e < 7"
    and "0 \<le> now" and "now \<le> clock" and "clock + 3600 \<le> I64_MAX"
  shows "\<exists>e' \<in> set (sl_entries (snd (flush_once FileOutboxStore post now s))).
    ob_id e' = ob_id e \<and> ob_status e' = ObPending \<and> ob_attempts e' = ob_attempts e + 1
    \<and> ob_next_attempt_at e' = max (clock + min 3600 (30 * 2 ^ ob_attempts e)) (now + 62)"
proof -
  let ?e' = "settled_entry post (leased (now + 61) e)"
  obtain progressed s' where fl: "flush_once FileOutboxStore post now s = (progressed, s')" by fastforce
  note ex = file_outbox.flush_entries [OF spool_ok_distinct [OF assms(1)] fl]
  have e: "e \<in> set (sl_entries s)" "ob_status e = ObPending"
    using assms(2) by (auto simp: due_batch_def due_def dest: in_set_takeD)
  then have "?e' \<in> set (sl_entries s')" using assms(2) ex by (force intro: rev_image_eqI)
  moreover have "min 3600 (30 * 2 ^ ob_attempts e) = backoff_delay_secs (ob_attempts e + 1)"
    using assms(4) power_increasing [of "ob_attempts e" 6 "2 :: int"]
    by (simp add: backoff_delay_secs_def OUTBOX_BASE_BACKOFF_SECS_def OUTBOX_MAX_BACKOFF_SECS_def I64_MAX_def min_def)
  moreover have "backoff_delay_secs (ob_attempts e + 1) \<le> 3600" "0 \<le> backoff_delay_secs (ob_attempts e + 1)"
    by (simp_all add: backoff_delay_secs_def OUTBOX_MAX_BACKOFF_SECS_def OUTBOX_BASE_BACKOFF_SECS_def I64_MAX_def)
  ultimately show ?thesis
    using assms(3-7) e(2) fl
    by (intro bexI [of _ ?e'])
      (simp_all add: settled_entry_def leased_def OUTBOX_MAX_ATTEMPTS_def i64_saturating_add_def I64_MIN_def I64_MAX_def)
qed

theorem outbox_backoff_floor_witness:
  "\<exists>e' \<in> set (sl_entries (snd (flush_once FileOutboxStore (\<lambda>_. (False, 8)) 6 sample_spool))).
    ob_id e' = 1 \<and> ob_attempts e' = 1 \<and> ob_next_attempt_at e' = 68"
proof -
  define e where "e = hd (sl_entries sample_spool)"
  have "spool_ok 500 (sl_next_id sample_spool) (sl_entries sample_spool)"
    "e \<in> set (due_batch 6 (sl_entries sample_spool))" "ob_attempts e = 0" "ob_id e = 1"
    unfolding e_def by code_simp+
  with outbox_backoff_floor [of sample_spool e 6 "\<lambda>_. (False, 8)" 8] show ?thesis by (auto simp: I64_MAX_def)
qed

end
