(* ===== verification/Governance.thy ===== *)
theory Governance
  imports Project_State Value_Objects
begin

text \<open>
  The ledgers of governance: product goals with the outcomes attributed to them
  (\<open>application/src/state/goals.rs\<close>), the operator interventions
  (\<open>state/governance.rs\<close>) and the drift alerts (\<open>state/drift.rs\<close>). The record \<open>governance\<close>
  holds their fields of the project state; tickets, open pull requests and the last deploy are
  read from the rest of it and are arguments. Timestamps are arguments. A long dash in a message
  is written \<open>-\<close>.
\<close>

section \<open>Data\<close>

record outcome_ledger_entry =
  ol_ticket :: ticket_id
  ol_goal :: "goal_id option"
  ol_capture_commit :: "string option"
  ol_verified_at :: string

record goal_outcome =
  go_goal_id :: string
  go_title :: string
  go_status :: goal_status
  go_verified_contributions :: nat

record unattributed_outcome =
  un_ticket :: string
  un_title :: string
  un_reason :: string

record intervention_record =
  ir_kind :: intervention_kind
  ir_ticket :: string
  ir_area :: "ticket_type option"
  ir_by :: string
  ir_at :: string

record violation =
  vi_area :: string
  vi_message :: string

record drift_alert =
  da_area :: string
  da_message :: string
  da_ticket :: string
  da_at :: string

record governance =
  gv_goals :: "goal list"
  gv_outcome_ledger :: "outcome_ledger_entry list"
  gv_interventions :: "intervention_record list"
  gv_drift_alerts :: "drift_alert list"

definition MAX_OUTCOME_LEDGER :: nat where "MAX_OUTCOME_LEDGER = 500"
definition MAX_GOVERNANCE_INTERVENTIONS :: nat where "MAX_GOVERNANCE_INTERVENTIONS = 500"

section \<open>Goals\<close>

definition goal_id_of_number :: "nat \<Rightarrow> string" where
  "goal_id_of_number n = ''G'' @ pad_digits 3 (nat_str n)"

lemma goal_id_of_number_inj: "goal_id_of_number m = goal_id_of_number n \<Longrightarrow> m = n"
  by (auto simp: goal_id_of_number_def dest: pad_digits_inj)

text \<open>The minting loop. It ends because numbers give different ids and the list is finite.\<close>

function mint_goal_id :: "goal list \<Rightarrow> nat \<Rightarrow> goal_id" where
  "mint_goal_id gs n =
     (if GoalId (goal_id_of_number n) \<in> gl_id ` set gs then mint_goal_id gs (n + 1)
      else GoalId (goal_id_of_number n))"
  by auto
termination
proof (relation "measure (\<lambda>(gs, n). card {i \<in> gl_id ` set gs. \<exists>m \<ge> n. i = GoalId (goal_id_of_number m)})")
  fix gs :: "goal list" and n
  assume taken: "GoalId (goal_id_of_number n) \<in> gl_id ` set gs"
  let ?left = "\<lambda>n. {i \<in> gl_id ` set gs. \<exists>m \<ge> n. i = GoalId (goal_id_of_number m)}"
  have "GoalId (goal_id_of_number n) \<notin> ?left (n + 1)" by (auto dest: goal_id_of_number_inj)
  moreover have "GoalId (goal_id_of_number n) \<in> ?left n" using taken by auto
  moreover have "?left (n + 1) \<subseteq> ?left n" by (auto intro: Suc_leD)
  ultimately have "?left (n + 1) \<subset> ?left n" by blast
  then have "card (?left (n + 1)) < card (?left n)" by (intro psubset_card_mono) auto
  then show "((gs, n + 1), gs, n)
      \<in> measure (\<lambda>(gs, n). card {i \<in> gl_id ` set gs. \<exists>m \<ge> n. i = GoalId (goal_id_of_number m)})"
    by simp
qed simp

declare mint_goal_id.simps [simp del]

definition add_goal :: "string \<Rightarrow> governance \<Rightarrow> (domain_error + goal_id) \<times> governance" where
  "add_goal title g =
     (let i = mint_goal_id (gv_goals g) (length (gv_goals g) + 1) in
      case goal_new i title of
        Inl err \<Rightarrow> (Inl err, g)
      | Inr goal \<Rightarrow> (Inr i, g\<lparr>gv_goals := gv_goals g @ [goal]\<rparr>))"

fun rename_first :: "goal_id \<Rightarrow> string \<Rightarrow> goal list \<Rightarrow> (domain_error + bool) \<times> goal list" where
  "rename_first i title [] = (Inr False, [])"
| "rename_first i title (x # xs) =
     (if gl_id x = i
      then (case goal_rename title x of (Inl err, x') \<Rightarrow> (Inl err, x' # xs) | (Inr _, x') \<Rightarrow> (Inr True, x' # xs))
      else (case rename_first i title xs of (r, xs') \<Rightarrow> (r, x # xs')))"

definition rename_goal :: "goal_id \<Rightarrow> string \<Rightarrow> governance \<Rightarrow> (domain_error + bool) \<times> governance" where
  "rename_goal i title g =
     (case rename_first i title (gv_goals g) of (r, gs) \<Rightarrow> (r, g\<lparr>gv_goals := gs\<rparr>))"

fun retire_first :: "goal_id \<Rightarrow> goal list \<Rightarrow> bool \<times> goal list" where
  "retire_first i [] = (False, [])"
| "retire_first i (x # xs) =
     (if gl_id x = i then (True, goal_retire x # xs)
      else (case retire_first i xs of (r, xs') \<Rightarrow> (r, x # xs')))"

definition retire_goal :: "goal_id \<Rightarrow> governance \<Rightarrow> bool \<times> governance" where
  "retire_goal i g = (case retire_first i (gv_goals g) of (r, gs) \<Rightarrow> (r, g\<lparr>gv_goals := gs\<rparr>))"

section \<open>Outcomes\<close>

definition record_verified_outcome ::
  "ticket list \<Rightarrow> string option \<Rightarrow> string \<Rightarrow> string \<Rightarrow> governance \<Rightarrow> bool \<times> governance" where
  "record_verified_outcome tickets commit_sha now i g =
     (case find (\<lambda>t. ticket_id_str (tk_id t) = i) tickets of
        None \<Rightarrow> (False, g)
      | Some t \<Rightarrow>
          (let entry = \<lparr>ol_ticket = tk_id t, ol_goal = tk_goal_id t, ol_capture_commit = commit_sha,
                        ol_verified_at = now\<rparr>
           in (True, g\<lparr>gv_outcome_ledger :=
                         keep_newest MAX_OUTCOME_LEDGER (gv_outcome_ledger g @ [entry])\<rparr>)))"

fun bump_goal :: "string \<Rightarrow> goal_outcome list \<Rightarrow> goal_outcome list option" where
  "bump_goal i [] = None"
| "bump_goal i (x # xs) =
     (if go_goal_id x = i
      then Some (x\<lparr>go_verified_contributions := go_verified_contributions x + 1\<rparr> # xs)
      else map_option (Cons x) (bump_goal i xs))"

definition ledger_entry :: "governance \<Rightarrow> ticket \<Rightarrow> outcome_ledger_entry option" where
  "ledger_entry g t = find (\<lambda>e. ol_ticket e = tk_id t) (rev (gv_outcome_ledger g))"

definition declared_goal :: "governance \<Rightarrow> ticket \<Rightarrow> goal_id option" where
  "declared_goal g t =
     (case tk_goal_id t of Some i \<Rightarrow> Some i | None \<Rightarrow> Option.bind (ledger_entry g t) ol_goal)"

definition unattributed :: "string \<Rightarrow> ticket \<Rightarrow> unattributed_outcome" where
  "unattributed reason t =
     \<lparr>un_ticket = ticket_id_str (tk_id t), un_title = tk_title t, un_reason = reason\<rparr>"

fun report_from ::
  "governance \<Rightarrow> goal_outcome list \<Rightarrow> unattributed_outcome list \<Rightarrow> ticket list
    \<Rightarrow> goal_outcome list \<times> unattributed_outcome list" where
  "report_from g goals un [] = (goals, un)"
| "report_from g goals un (t # ts) =
     (if tk_status t \<noteq> Verified then report_from g goals un ts
      else case declared_goal g t of
        Some i \<Rightarrow>
          (case bump_goal (goal_id_str i) goals of
             Some goals' \<Rightarrow> report_from g goals' un ts
           | None \<Rightarrow> report_from g goals (un @ [unattributed
               (''declared goal '' @ goal_id_str i @ '' is not in the project's goal list'') t]) ts)
      | None \<Rightarrow> report_from g goals (un @ [unattributed
          (if ledger_entry g t \<noteq> None then ''verified without a declared goal association''
           else ''verified before goal-line tracking shipped - no declared goal association (backfill the ticket to attribute it)'')
          t]) ts)"

definition goal_row :: "goal \<Rightarrow> goal_outcome" where
  "goal_row x = \<lparr>go_goal_id = goal_id_str (gl_id x), go_title = gl_title x, go_status = gl_status x,
                 go_verified_contributions = 0\<rparr>"

definition outcome_report :: "ticket list \<Rightarrow> governance \<Rightarrow> goal_outcome list \<times> unattributed_outcome list" where
  "outcome_report tickets g = report_from g (map goal_row (gv_goals g)) [] tickets"

section \<open>Interventions\<close>

definition decision_identity :: "intervention_record \<Rightarrow> string \<times> string \<times> string \<times> string" where
  "decision_identity r =
     (intervention_key (ir_kind r), ir_ticket r, ir_by r,
      case take_bytes 19 (ir_at r) of Some p \<Rightarrow> p | None \<Rightarrow> ir_at r)"

definition push_intervention :: "intervention_record \<Rightarrow> governance \<Rightarrow> governance" where
  "push_intervention r g =
     g\<lparr>gv_interventions := keep_newest MAX_GOVERNANCE_INTERVENTIONS (gv_interventions g @ [r])\<rparr>"

definition area_of :: "project_state \<Rightarrow> string \<Rightarrow> ticket_type option" where
  "area_of s i =
     (case ticket_id_new i of Inl _ \<Rightarrow> None | Inr tid \<Rightarrow> map_option tk_kind (ticket s tid))"

definition record_intervention ::
  "project_state \<Rightarrow> string \<Rightarrow> intervention_kind \<Rightarrow> string \<Rightarrow> string \<Rightarrow> governance \<Rightarrow> governance" where
  "record_intervention s now kind i who =
     push_intervention \<lparr>ir_kind = kind, ir_ticket = i, ir_area = area_of s i, ir_by = who, ir_at = now\<rparr>"

text \<open>Open pull requests are given by number and head branch.\<close>

definition record_pr_intervention ::
  "project_state \<Rightarrow> (nat \<times> string) list \<Rightarrow> string \<Rightarrow> intervention_kind \<Rightarrow> nat \<Rightarrow> string \<Rightarrow> governance \<Rightarrow> governance" where
  "record_pr_intervention s open_prs now kind number who =
     (let head = (case find (\<lambda>p. fst p = number) open_prs of Some p \<Rightarrow> snd p | None \<Rightarrow> []);
          i = last (split_on (\<lambda>c. c = CHR ''/'') head)
      in push_intervention \<lparr>ir_kind = kind, ir_ticket = i, ir_area = area_of s i, ir_by = who, ir_at = now\<rparr>)"

definition bump_key :: "string \<Rightarrow> (string \<rightharpoonup> nat) \<Rightarrow> (string \<rightharpoonup> nat)" where
  "bump_key k m = m(k \<mapsto> (case m k of Some n \<Rightarrow> n | None \<Rightarrow> 0) + 1)"

fun delta_from ::
  "string \<Rightarrow> (string \<times> string \<times> string \<times> string) set \<Rightarrow> (string \<rightharpoonup> nat) \<times> (string \<rightharpoonup> nat)
    \<Rightarrow> intervention_record list \<Rightarrow> (string \<rightharpoonup> nat) \<times> (string \<rightharpoonup> nat)" where
  "delta_from since seen (by_area, by_kind) [] = (by_area, by_kind)"
| "delta_from since seen (by_area, by_kind) (r # rs) =
     (if ir_at r \<le> since \<or> decision_identity r \<in> seen then delta_from since seen (by_area, by_kind) rs
      else delta_from since (insert (decision_identity r) seen)
        (case ir_area r of Some a \<Rightarrow> bump_key (ticket_type_key a) by_area | None \<Rightarrow> by_area,
         bump_key (intervention_key (ir_kind r)) by_kind) rs)"

definition attention_delta_since :: "string \<Rightarrow> governance \<Rightarrow> (string \<rightharpoonup> nat) \<times> (string \<rightharpoonup> nat)" where
  "attention_delta_since since g = delta_from since {} (Map.empty, Map.empty) (gv_interventions g)"

section \<open>Drift alerts\<close>

definition same_drift :: "violation \<Rightarrow> drift_alert \<Rightarrow> bool" where
  "same_drift v a \<longleftrightarrow> da_area a = vi_area v \<and> da_message a = vi_message v"

text \<open>\<open>now i\<close> is the clock when the \<open>i\<close>-th violation is looked at.\<close>

fun next_alerts ::
  "drift_alert list \<Rightarrow> (violation \<Rightarrow> string option) \<Rightarrow> (nat \<Rightarrow> string) \<Rightarrow> nat \<Rightarrow> violation list \<Rightarrow> drift_alert list" where
  "next_alerts alerts bug_for now i [] = []"
| "next_alerts alerts bug_for now i (v # vs) =
     (case find (same_drift v) alerts of
        Some a \<Rightarrow> a
      | None \<Rightarrow> \<lparr>da_area = vi_area v, da_message = vi_message v,
                  da_ticket = (case bug_for v of Some b \<Rightarrow> b | None \<Rightarrow> []), da_at = now i\<rparr>)
     # next_alerts alerts bug_for now (i + 1) vs"

definition sync_drift_alerts ::
  "(violation \<Rightarrow> string option) \<Rightarrow> (nat \<Rightarrow> string) \<Rightarrow> violation list \<Rightarrow> governance \<Rightarrow> bool \<times> governance" where
  "sync_drift_alerts bug_for now vs g =
     (let next = next_alerts (gv_drift_alerts g) bug_for now 0 vs
      in (next \<noteq> gv_drift_alerts g, g\<lparr>gv_drift_alerts := next\<rparr>))"

section \<open>Goals keep their identity\<close>

lemma mint_goal_id_fresh: "mint_goal_id gs n \<notin> gl_id ` set gs"
proof (induction gs n rule: mint_goal_id.induct)
  case (1 gs n)
  then show ?case by (cases "GoalId (goal_id_of_number n) \<in> gl_id ` set gs") (simp_all add: mint_goal_id.simps [of gs n])
qed

lemma mint_goal_id_number: "\<exists>m \<ge> n. mint_goal_id gs n = GoalId (goal_id_of_number m)"
proof (induction gs n rule: mint_goal_id.induct)
  case (1 gs n)
  show ?case
  proof (cases "GoalId (goal_id_of_number n) \<in> gl_id ` set gs")
    case True
    from 1 [OF True] obtain m where "m \<ge> n + 1" "mint_goal_id gs (n + 1) = GoalId (goal_id_of_number m)" by blast
    with True show ?thesis by (intro exI [of _ m]) (simp add: mint_goal_id.simps [of gs n])
  qed (auto simp: mint_goal_id.simps [of gs n])
qed

lemma rename_first_ids:
  "map gl_id (snd (rename_first i title gs)) = map gl_id gs
   \<and> map gl_status (snd (rename_first i title gs)) = map gl_status gs"
  by (induction gs) (auto simp: goal_rename_def split: prod.split)

lemma retire_first_ids: "map gl_id (snd (retire_first i gs)) = map gl_id gs"
  by (induction gs) (auto simp: goal_retire_def split: prod.split)

lemma goal_ids_kept [simp]:
  "map gl_id (gv_goals (snd (rename_goal i title g))) = map gl_id (gv_goals g)"
  "map gl_id (gv_goals (snd (retire_goal i g))) = map gl_id (gv_goals g)"
  "gv_outcome_ledger (snd (rename_goal i title g)) = gv_outcome_ledger g"
  "gv_outcome_ledger (snd (retire_goal i g)) = gv_outcome_ledger g"
  using rename_first_ids [of i title "gv_goals g"] retire_first_ids [of i "gv_goals g"]
  by (simp_all add: rename_goal_def retire_goal_def split_beta)

inductive goal_step :: "governance \<Rightarrow> governance \<Rightarrow> bool" where
  add: "goal_step g (snd (add_goal title g))"
| rename: "goal_step g (snd (rename_goal i title g))"
| retire: "goal_step g (snd (retire_goal i g))"
| verified: "goal_step g (snd (record_verified_outcome tickets commit now i g))"

definition goals_ok :: "governance \<Rightarrow> bool" where
  "goals_ok g \<longleftrightarrow> distinct (map gl_id (gv_goals g)) \<and> length (gv_outcome_ledger g) \<le> MAX_OUTCOME_LEDGER"

lemma add_goal_cases:
  "add_goal title g =
    (if is_blank title then (Inl (Empty ''goal_title''), g)
     else let i = mint_goal_id (gv_goals g) (length (gv_goals g) + 1) in
       (Inr i, g\<lparr>gv_goals := gv_goals g @ [\<lparr>gl_id = i, gl_title = trim title, gl_status = Active\<rparr>]\<rparr>))"
  by (simp add: add_goal_def goal_new_def Let_def)

lemma goal_step_ok:
  assumes "goals_ok g" and "goal_step g g'"
  shows "goals_ok g'"
  using assms(2,1)
proof cases
  case (add title)
  then show ?thesis using assms(1) mint_goal_id_fresh [of "gv_goals g"]
    by (simp add: add_goal_cases goals_ok_def Let_def)
next
  case (rename i title)
  then show ?thesis using assms(1) by (simp add: goals_ok_def)
next
  case (retire i)
  then show ?thesis using assms(1) by (simp add: goals_ok_def)
next
  case (verified tickets commit now i)
  then show ?thesis using assms(1)
    by (simp add: record_verified_outcome_def goals_ok_def Let_def split: option.split)
qed

text \<open>Ids once handed out stay, in their order.\<close>

lemma goal_step_ids:
  assumes "goal_step g g'"
  shows "prefix (map gl_id (gv_goals g)) (map gl_id (gv_goals g'))"
  using assms
proof cases
  case (add title)
  then show ?thesis by (simp add: add_goal_cases Let_def)
next
  case (rename i title)
  then show ?thesis by simp
next
  case (retire i)
  then show ?thesis by simp
next
  case (verified tickets commit now i)
  then show ?thesis by (simp add: record_verified_outcome_def Let_def split: option.split)
qed

interpretation goal_sys: invariant_system "\<lambda>g. gv_goals g = [] \<and> gv_outcome_ledger g = []" goal_step goals_ok
proof unfold_locales
  fix g g'
  show "goals_ok g" if "gv_goals g = [] \<and> gv_outcome_ledger g = []" using that by (simp add: goals_ok_def)
  show "goals_ok g'" if "goals_ok g" "goal_step g g'" using that by (rule goal_step_ok)
qed

section \<open>The outcome report\<close>

text \<open>The goal line a verified ticket counts for.\<close>

definition attributed :: "governance \<Rightarrow> string set \<Rightarrow> ticket \<Rightarrow> string option" where
  "attributed g ids t =
     (case declared_goal g t of
        Some i \<Rightarrow> if goal_id_str i \<in> ids then Some (goal_id_str i) else None
      | None \<Rightarrow> None)"

abbreviation verified_for :: "governance \<Rightarrow> string set \<Rightarrow> string option \<Rightarrow> ticket list \<Rightarrow> ticket list" where
  "verified_for g ids line ts \<equiv> filter (\<lambda>t. tk_status t = Verified \<and> attributed g ids t = line) ts"

definition add_contributions :: "(string \<Rightarrow> nat) \<Rightarrow> goal_outcome \<Rightarrow> goal_outcome" where
  "add_contributions n r = r\<lparr>go_verified_contributions := go_verified_contributions r + n (go_goal_id r)\<rparr>"

lemma add_contributions_simps [simp]:
  "go_goal_id (add_contributions n r) = go_goal_id r" "go_title (add_contributions n r) = go_title r"
  "go_status (add_contributions n r) = go_status r"
  "go_verified_contributions (add_contributions n r) = go_verified_contributions r + n (go_goal_id r)"
  "add_contributions m (add_contributions n r) = add_contributions (\<lambda>i. n i + m i) r"
  by (simp_all add: add_contributions_def)

lemma add_contributions_none: "n (go_goal_id r) = 0 \<Longrightarrow> add_contributions n r = r"
  by (simp add: add_contributions_def)

lemma bump_goal_exact:
  assumes "distinct (map go_goal_id rows)"
  shows "bump_goal i rows =
    (if i \<in> go_goal_id ` set rows then Some (map (add_contributions (\<lambda>j. if j = i then 1 else 0)) rows) else None)"
  using assms
proof (induction rows)
  case (Cons r rows)
  show ?case
  proof (cases "go_goal_id r = i")
    case True
    with Cons.prems have "i \<notin> go_goal_id ` set rows" by simp
    then have "\<forall>x \<in> set rows. go_goal_id x \<noteq> i" by (metis imageI)
    then have "map (add_contributions (\<lambda>j. if j = i then 1 else 0)) rows = rows"
      by (intro map_idI add_contributions_none) simp
    with True show ?thesis by (simp add: add_contributions_def [of _ r])
  qed (use Cons in \<open>auto simp: add_contributions_none\<close>)
qed simp

lemma report_exact:
  assumes "distinct (map go_goal_id rows)" and "ids = go_goal_id ` set rows"
  shows "fst (report_from g rows un ts) =
      map (add_contributions (\<lambda>i. length (verified_for g ids (Some i) ts))) rows
    \<and> map un_ticket (snd (report_from g rows un ts)) =
      map un_ticket un @ map (\<lambda>t. ticket_id_str (tk_id t)) (verified_for g ids None ts)"
  using assms
proof (induction ts arbitrary: rows un)
  case Nil
  then show ?case by (simp add: add_contributions_def map_idI)
next
  case (Cons t ts)
  show ?case
  proof (cases "tk_status t = Verified \<and> attributed g ids t \<noteq> None")
    case True
    then obtain i where i: "declared_goal g t = Some i" "goal_id_str i \<in> go_goal_id ` set rows"
      "attributed g ids t = Some (goal_id_str i)"
      using Cons.prems(2) by (auto simp: attributed_def split: option.splits if_splits)
    let ?rows = "map (add_contributions (\<lambda>j. if j = goal_id_str i then 1 else 0)) rows"
    have "distinct (map go_goal_id ?rows)" "ids = go_goal_id ` set ?rows"
      using Cons.prems by (simp_all add: o_def image_image)
    note ih = Cons.IH [OF this, of un]
    have run: "report_from g rows un (t # ts) = report_from g ?rows un ts"
      using True i bump_goal_exact [OF Cons.prems(1), of "goal_id_str i"] by simp
    have "(\<lambda>j. length (verified_for g ids (Some j) (t # ts))) =
        (\<lambda>j. (if j = goal_id_str i then 1 else 0) + length (verified_for g ids (Some j) ts))"
      using True i(3) by auto
    moreover have "verified_for g ids None (t # ts) = verified_for g ids None ts" using i(3) by simp
    ultimately show ?thesis using ih unfolding run by simp
  next
    case False
    then show ?thesis
      using Cons.IH [OF Cons.prems] bump_goal_exact [OF Cons.prems(1)] Cons.prems(2)
      by (auto simp: attributed_def unattributed_def split: option.splits if_splits)
  qed
qed

lemma sum_list_bump:
  assumes "distinct xs" and "i \<in> set xs" and "\<And>j. j \<noteq> i \<Longrightarrow> f j = h j" and "f i = Suc (h i)"
  shows "sum_list (map f xs) = Suc (sum_list (map h xs))"
  using assms(1,2)
proof (induction xs)
  case (Cons x xs)
  show ?case
  proof (cases "x = i")
    case True
    with Cons.prems(1) have "map f xs = map h xs" by (intro map_cong assms(3)) auto
    then have "sum_list (map f xs) = sum_list (map h xs)" by (rule arg_cong)
    with True assms(4) show ?thesis by simp
  qed (use Cons assms(3) in simp)
qed simp

text \<open>Every verified ticket counts for one goal line or is listed as unattributed.\<close>

lemma verified_partition:
  assumes "distinct lines"
  shows "sum_list (map (\<lambda>i. length (verified_for g (set lines) (Some i) ts)) lines)
      + length (verified_for g (set lines) None ts) = length (filter (\<lambda>t. tk_status t = Verified) ts)"
proof (induction ts)
  case (Cons t ts)
  let ?f = "\<lambda>ts i. length (verified_for g (set lines) (Some i) ts)"
  show ?case
  proof (cases "tk_status t = Verified \<and> attributed g (set lines) t \<noteq> None")
    case True
    then obtain i where i: "attributed g (set lines) t = Some i" "i \<in> set lines"
      by (auto simp: attributed_def split: option.splits if_splits)
    have "sum_list (map (?f (t # ts)) lines) = Suc (sum_list (map (?f ts) lines))"
      using True i(1) by (intro sum_list_bump [OF assms i(2)]) auto
    with Cons True i(1) show ?thesis by simp
  qed (use Cons in auto)
qed (simp add: sum_list_0)

section \<open>Attention\<close>

text \<open>The records the aggregation counts: the first of each decision after \<open>since\<close>.\<close>

fun counted :: "string \<Rightarrow> (string \<times> string \<times> string \<times> string) set \<Rightarrow> intervention_record list
    \<Rightarrow> intervention_record list" where
  "counted since seen [] = []"
| "counted since seen (r # rs) =
     (if ir_at r \<le> since \<or> decision_identity r \<in> seen then counted since seen rs
      else r # counted since (insert (decision_identity r) seen) rs)"

lemma counted_identities:
  "distinct (map decision_identity (counted since seen rs))
   \<and> decision_identity ` set (counted since seen rs) =
       decision_identity ` {r \<in> set rs. since < ir_at r} - seen"
proof (induction rs arbitrary: seen)
  case (Cons r rs)
  show ?case
  proof (cases "ir_at r \<le> since \<or> decision_identity r \<in> seen")
    case True
    then have "decision_identity ` {x \<in> set (r # rs). since < ir_at x} - seen =
        decision_identity ` {x \<in> set rs. since < ir_at x} - seen" by auto
    with Cons True show ?thesis by simp
  next
    case False
    then have "decision_identity ` {x \<in> set (r # rs). since < ir_at x} - seen =
        insert (decision_identity r)
          (decision_identity ` {x \<in> set rs. since < ir_at x} - insert (decision_identity r) seen)" by auto
    with Cons [of "insert (decision_identity r) seen"] False show ?thesis by auto
  qed
qed simp

definition tally :: "string list \<Rightarrow> (string \<rightharpoonup> nat) \<Rightarrow> (string \<rightharpoonup> nat)" where
  "tally ks m = fold bump_key ks m"

lemma tally_count:
  "tally ks m k = (if k \<in> set ks then Some ((case m k of Some n \<Rightarrow> n | None \<Rightarrow> 0) + count_list ks k) else m k)"
  unfolding tally_def
proof (induction ks arbitrary: m)
  case (Cons x ks)
  then show ?case by (auto simp: bump_key_def count_list_0_iff)
qed simp

lemma delta_counted:
  "delta_from since seen (by_area, by_kind) rs =
     (tally (map ticket_type_key (List.map_filter ir_area (counted since seen rs))) by_area,
      tally (map (\<lambda>r. intervention_key (ir_kind r)) (counted since seen rs)) by_kind)"
proof (induction rs arbitrary: seen by_area by_kind)
  case (Cons r rs)
  then show ?case by (auto simp: tally_def map_filter_simps split: option.split)
qed (simp add: tally_def map_filter_simps)

text \<open>A second record of a decision already counted changes nothing.\<close>

lemma counted_duplicate:
  assumes "since < ir_at q" and "decision_identity q \<in> seen \<or> (\<exists>r \<in> set rs. since < ir_at r \<and> decision_identity r = decision_identity q)"
  shows "counted since seen (rs @ [q]) = counted since seen rs"
  using assms(2)
proof (induction rs arbitrary: seen)
  case (Cons r rs)
  show ?case
  proof (cases "ir_at r \<le> since \<or> decision_identity r \<in> seen")
    case True
    with Cons.prems have "decision_identity q \<in> seen
        \<or> (\<exists>r \<in> set rs. since < ir_at r \<and> decision_identity r = decision_identity q)" by auto
    from Cons.IH [OF this] True show ?thesis by simp
  next
    case False
    with Cons.prems have "decision_identity q \<in> insert (decision_identity r) seen
        \<or> (\<exists>r \<in> set rs. since < ir_at r \<and> decision_identity r = decision_identity q)" by auto
    from Cons.IH [OF this] False show ?thesis by simp
  qed
qed simp

section \<open>Drift\<close>

lemma next_alerts_keys:
  "map (\<lambda>a. (da_area a, da_message a)) (next_alerts alerts bug_for now i vs) =
     map (\<lambda>v. (vi_area v, vi_message v)) vs"
  by (induction vs arbitrary: i) (auto simp: find_Some_iff same_drift_def split: option.split)

lemma next_alerts_nth:
  assumes "k < length vs" and "find (same_drift (vs ! k)) alerts = Some a"
  shows "next_alerts alerts bug_for now i vs ! k = a"
  using assms by (induction vs arbitrary: i k) (auto simp: nth_Cons' less_Suc_eq_0_disj)

lemma next_alerts_length [simp]: "length (next_alerts alerts bug_for now i vs) = length vs"
  by (induction vs arbitrary: i) auto

lemma next_alerts_stable:
  assumes "distinct (map (\<lambda>v. (vi_area v, vi_message v)) vs)"
  shows "next_alerts (next_alerts alerts bug_for now i vs) bug_for' now' j vs = next_alerts alerts bug_for now i vs"
    (is "next_alerts ?as _ _ _ _ = _")
proof (rule nth_equalityI)
  let ?key = "\<lambda>a. (da_area a, da_message a)"
  have keys: "map ?key ?as = map (\<lambda>v. (vi_area v, vi_message v)) vs" by (rule next_alerts_keys)
  fix k assume "k < length (next_alerts ?as bug_for' now' j vs)"
  then have k: "k < length vs" by simp
  have kk: "?key (?as ! k) = (vi_area (vs ! k), vi_message (vs ! k))"
    using arg_cong [OF keys, of "\<lambda>xs. xs ! k"] k by simp
  have "distinct (map ?key ?as)" using assms keys by simp
  from find_distinct [OF this, of "?as ! k"] k
  have "find (\<lambda>a. ?key a = ?key (?as ! k)) ?as = Some (?as ! k)" by simp
  moreover have "(\<lambda>a. ?key a = ?key (?as ! k)) = same_drift (vs ! k)"
    using kk by (auto simp: same_drift_def fun_eq_iff)
  ultimately show "next_alerts ?as bug_for' now' j vs ! k = ?as ! k"
    using next_alerts_nth [OF k] by simp
qed simp

end
