(* ===== verification/Lessons.thy ===== *)
theory Lessons
  imports Prelude
begin

text \<open>
  The lesson efficacy ledger (\<open>application/src/state/lessons.rs\<close>): lesson records with their
  recurrences, the list shown in prompts, the dismissed matches and the escalations. The record
  \<open>lesson_state\<close> holds these fields of the project state; the clock and the cycle number are
  arguments, where they are read.
\<close>

section \<open>Data\<close>

definition MAX_LESSON_RECORDS :: nat where "MAX_LESSON_RECORDS = 24"
definition MAX_PROMPT_LESSONS :: nat where "MAX_PROMPT_LESSONS = 12"
definition MAX_DISMISSED_MATCHES :: nat where "MAX_DISMISSED_MATCHES = 100"

record lesson_recurrence =
  lc_at :: string
  lc_incident_at :: string
  lc_incident_reason :: string

record lesson_escalation =
  le_ticket :: string
  le_at :: string
  le_stage :: string

record lesson_record =
  lr_text :: string
  lr_at :: string
  lr_cycle :: nat
  lr_re_recordings :: nat
  lr_recurrences :: "lesson_recurrence list"
  lr_escalated :: "lesson_escalation option"
  lr_id :: "string option"
  lr_source :: "string option"

record dismissed_match =
  dm_lesson :: string
  dm_incident_at :: string
  dm_incident_reason :: string
  dm_dismissed_at :: string
  dm_dismissed_by :: string

record lesson_state =
  ln_records :: "lesson_record list"
  ln_lessons :: "string list"
  ln_dismissed :: "dismissed_match list"

section \<open>Operations\<close>

definition is_repeating :: "lesson_record \<Rightarrow> bool" where
  "is_repeating r \<longleftrightarrow> length (lr_recurrences r) \<ge> 2 \<or> lr_re_recordings r \<ge> 2"

definition fresh_lesson :: "string \<Rightarrow> string \<Rightarrow> nat \<Rightarrow> lesson_record" where
  "fresh_lesson text now cycle =
     \<lparr>lr_text = text, lr_at = now, lr_cycle = cycle, lr_re_recordings = 0, lr_recurrences = [],
      lr_escalated = None, lr_id = None, lr_source = None\<rparr>"

text \<open>\<open>iter_mut().find(..)\<close>: the first record of the text, mutated in place.\<close>

definition on_lesson :: "string \<Rightarrow> (lesson_record \<Rightarrow> lesson_record) \<Rightarrow> lesson_record list \<Rightarrow> lesson_record list" where
  "on_lesson text f = update_first (\<lambda>r. lr_text r = text) f"

definition find_lesson :: "string \<Rightarrow> lesson_record list \<Rightarrow> lesson_record option" where
  "find_lesson text rs = find (\<lambda>r. lr_text r = text) rs"

definition record_lesson :: "string \<Rightarrow> nat \<Rightarrow> string \<Rightarrow> lesson_state \<Rightarrow> bool \<times> lesson_state" where
  "record_lesson now cycle text s =
     (let lesson = trim text in
      if lesson = [] then (False, s)
      else
        let is_new = (find_lesson lesson (ln_records s) = None);
            records = (if is_new
              then keep_newest MAX_LESSON_RECORDS (ln_records s @ [fresh_lesson lesson now cycle])
              else on_lesson lesson (\<lambda>r. r\<lparr>lr_re_recordings := min U64_MAX (lr_re_recordings r + 1)\<rparr>) (ln_records s));
            lessons = (if lesson \<notin> set (ln_lessons s)
              then keep_newest MAX_PROMPT_LESSONS (ln_lessons s @ [lesson]) else ln_lessons s)
        in (is_new, s\<lparr>ln_records := records, ln_lessons := lessons\<rparr>))"

definition match_is_dismissed :: "string \<Rightarrow> string \<Rightarrow> lesson_state \<Rightarrow> bool" where
  "match_is_dismissed lesson incident s \<longleftrightarrow>
     (\<exists>d \<in> set (ln_dismissed s). dm_lesson d = lesson \<and> dm_incident_at d = incident)"

definition incidents :: "lesson_recurrence list \<Rightarrow> string set" where
  "incidents es = lc_incident_at ` set es"

fun merge_prior :: "lesson_recurrence list \<Rightarrow> lesson_recurrence list \<Rightarrow> lesson_recurrence list" where
  "merge_prior own [] = own"
| "merge_prior own (e # es) = merge_prior (if lc_incident_at e \<in> incidents own then own else own @ [e]) es"

definition record_recurrence ::
  "string \<Rightarrow> nat \<Rightarrow> string \<Rightarrow> string \<Rightarrow> string \<Rightarrow> lesson_recurrence list \<Rightarrow> lesson_state \<Rightarrow> bool \<times> lesson_state" where
  "record_recurrence now cycle lesson incident reason prior s =
     (if trim lesson = [] \<or> incident = [] \<or> match_is_dismissed lesson incident s then (False, s)
      else
        let records = (if find_lesson lesson (ln_records s) = None
              then keep_newest MAX_LESSON_RECORDS (ln_records s @ [fresh_lesson lesson now cycle])
              else ln_records s);
            s' = s\<lparr>ln_records := records\<rparr>
        in case find_lesson lesson records of
             None \<Rightarrow> (False, s')
           | Some r \<Rightarrow>
               if incident \<in> incidents (lr_recurrences r @ prior) then (False, s')
               else (True, s'\<lparr>ln_records := on_lesson lesson (\<lambda>r. r\<lparr>lr_recurrences :=
                      merge_prior (lr_recurrences r) prior
                      @ [\<lparr>lc_at = now, lc_incident_at = incident, lc_incident_reason = reason\<rparr>]\<rparr>) records\<rparr>))"

definition recurrence_total :: "lesson_state \<Rightarrow> nat" where
  "recurrence_total s = sum_list (map (\<lambda>r. length (lr_recurrences r)) (ln_records s))"

definition dismiss_match ::
  "string \<Rightarrow> string \<Rightarrow> string \<Rightarrow> string \<Rightarrow> string \<Rightarrow> lesson_state \<Rightarrow> bool \<times> lesson_state" where
  "dismiss_match now lesson incident reason who s =
     (if trim lesson = [] \<or> incident = [] then (False, s)
      else
        let s1 = (if match_is_dismissed lesson incident s then s
              else s\<lparr>ln_dismissed := keep_newest MAX_DISMISSED_MATCHES (ln_dismissed s @
                [\<lparr>dm_lesson = lesson, dm_incident_at = incident, dm_incident_reason = reason,
                  dm_dismissed_at = now, dm_dismissed_by = who\<rparr>])\<rparr>);
            s2 = s1\<lparr>ln_records := on_lesson lesson (\<lambda>r. r\<lparr>lr_recurrences :=
                filter (\<lambda>e. lc_incident_at e \<noteq> incident) (lr_recurrences r)\<rparr>) (ln_records s1)\<rparr>
        in (recurrence_total s1 \<noteq> recurrence_total s2, s2))"

definition mark_escalated :: "string \<Rightarrow> string \<Rightarrow> string \<Rightarrow> string \<Rightarrow> lesson_state \<Rightarrow> bool \<times> lesson_state" where
  "mark_escalated now lesson ticket stage s =
     (case find_lesson lesson (ln_records s) of
        None \<Rightarrow> (False, s)
      | Some r \<Rightarrow>
          if (case lr_escalated r of Some e \<Rightarrow> le_stage e = ''bug'' \<or> le_ticket e = ticket | None \<Rightarrow> False)
          then (False, s)
          else (True, s\<lparr>ln_records := on_lesson lesson (\<lambda>r. r\<lparr>lr_escalated :=
                  Some \<lparr>le_ticket = ticket, le_at = now, le_stage = stage\<rparr>\<rparr>) (ln_records s)\<rparr>))"

inductive lesson_step :: "lesson_state \<Rightarrow> lesson_state \<Rightarrow> bool" where
  learn: "lesson_step s (snd (record_lesson now cycle text s))"
| recurrence: "lesson_step s (snd (record_recurrence now cycle lesson incident reason prior s))"
| dismiss: "lesson_step s (snd (dismiss_match now lesson incident reason who s))"
| escalate: "lesson_step s (snd (mark_escalated now lesson ticket stage s))"

section \<open>Invariant\<close>

definition lessons_ok :: "lesson_state \<Rightarrow> bool" where
  "lessons_ok s \<longleftrightarrow>
     distinct (map lr_text (ln_records s)) \<and> length (ln_records s) \<le> MAX_LESSON_RECORDS
     \<and> distinct (ln_lessons s) \<and> length (ln_lessons s) \<le> MAX_PROMPT_LESSONS
     \<and> distinct (map (\<lambda>d. (dm_lesson d, dm_incident_at d)) (ln_dismissed s))
     \<and> length (ln_dismissed s) \<le> MAX_DISMISSED_MATCHES
     \<and> (\<forall>r \<in> set (ln_records s). distinct (map lc_incident_at (lr_recurrences r)))"

lemma merge_prior_incidents:
  "incidents (merge_prior own prior) = incidents own \<union> incidents prior"
  by (induction prior arbitrary: own) (auto simp: incidents_def)

lemma merge_prior_distinct:
  "distinct (map lc_incident_at own) \<Longrightarrow> distinct (map lc_incident_at (merge_prior own prior))"
  by (induction prior arbitrary: own) (auto simp: incidents_def)

lemma incidents_append: "incidents (xs @ ys) = incidents xs \<union> incidents ys"
  by (simp add: incidents_def image_Un)

lemma on_lesson_texts:
  "(\<And>r. lr_text (f r) = lr_text r) \<Longrightarrow> map lr_text (on_lesson text f rs) = map lr_text rs"
  by (induction rs) (simp_all add: on_lesson_def)

lemma on_lesson_length [simp]: "length (on_lesson text f rs) = length rs"
  by (induction rs) (simp_all add: on_lesson_def)

lemma on_lesson_all:
  "\<forall>r \<in> set rs. P r \<Longrightarrow> (\<And>r. P r \<Longrightarrow> P (f r)) \<Longrightarrow> \<forall>r \<in> set (on_lesson text f rs). P r"
  unfolding on_lesson_def by (induction rs) auto

lemma find_on_lesson:
  assumes "\<And>r. lr_text (f r) = lr_text r"
  shows "find_lesson text (on_lesson text f rs) = map_option f (find_lesson text rs)"
  unfolding find_lesson_def on_lesson_def using assms by (induction rs) auto

lemma find_lesson_None: "find_lesson text rs = None \<longleftrightarrow> text \<notin> lr_text ` set rs"
  by (auto simp: find_lesson_def find_None_iff)

lemma distinct_keep: "distinct xs \<Longrightarrow> distinct (keep_newest n xs)"
  by (simp add: keep_newest_def)

lemma map_keep_newest: "map f (keep_newest n xs) = keep_newest n (map f xs)"
  by (simp add: keep_newest_def drop_map)

definition records_ok :: "lesson_record list \<Rightarrow> bool" where
  "records_ok rs \<longleftrightarrow> distinct (map lr_text rs) \<and> length rs \<le> MAX_LESSON_RECORDS
     \<and> (\<forall>r \<in> set rs. distinct (map lc_incident_at (lr_recurrences r)))"

lemma records_ok_add:
  assumes "records_ok rs" and "find_lesson text rs = None"
  shows "records_ok (keep_newest MAX_LESSON_RECORDS (rs @ [fresh_lesson text now cycle]))"
proof -
  have "distinct (map lr_text (rs @ [fresh_lesson text now cycle]))"
    using assms by (simp add: records_ok_def find_lesson_None fresh_lesson_def)
  then show ?thesis
    using assms(1) set_keep_newest [of MAX_LESSON_RECORDS "rs @ [fresh_lesson text now cycle]"]
    by (fastforce simp: records_ok_def map_keep_newest fresh_lesson_def intro!: distinct_keep)
qed

lemma records_ok_on:
  assumes "records_ok rs" and "\<And>r. lr_text (f r) = lr_text r"
    and "\<And>r. r \<in> set rs \<Longrightarrow> find_lesson text rs = Some r \<Longrightarrow> distinct (map lc_incident_at (lr_recurrences r))
      \<Longrightarrow> distinct (map lc_incident_at (lr_recurrences (f r)))"
  shows "records_ok (on_lesson text f rs)"
proof -
  have "\<forall>r \<in> set (on_lesson text f rs). distinct (map lc_incident_at (lr_recurrences r))"
    using assms(1,3) unfolding records_ok_def find_lesson_def on_lesson_def by (induction rs) auto
  then show ?thesis
    using assms(1) on_lesson_texts [OF assms(2), of "text" rs] by (simp add: records_ok_def)
qed

lemma find_added:
  "find_lesson text rs = None \<Longrightarrow>
   find_lesson text (keep_newest MAX_LESSON_RECORDS (rs @ [fresh_lesson text now cycle])) = Some (fresh_lesson text now cycle)"
proof -
  assume "find_lesson text rs = None"
  then have "\<forall>r \<in> set (drop k rs). lr_text r \<noteq> text" for k
    by (auto simp: find_lesson_None dest: in_set_dropD)
  then have "find (\<lambda>r. lr_text r = text) (drop k rs @ [fresh_lesson text now cycle]) = Some (fresh_lesson text now cycle)" for k
    by (subst find_skip) (simp_all add: fresh_lesson_def)
  then show ?thesis
    by (simp add: find_lesson_def keep_newest_snoc MAX_LESSON_RECORDS_def) (simp add: keep_newest_def)
qed


lemma lessons_ok_alt:
  "lessons_ok s \<longleftrightarrow> records_ok (ln_records s)
     \<and> distinct (ln_lessons s) \<and> length (ln_lessons s) \<le> MAX_PROMPT_LESSONS
     \<and> distinct (map (\<lambda>d. (dm_lesson d, dm_incident_at d)) (ln_dismissed s))
     \<and> length (ln_dismissed s) \<le> MAX_DISMISSED_MATCHES"
  by (auto simp: lessons_ok_def records_ok_def)

lemma record_lesson_ok:
  assumes "lessons_ok s"
  shows "lessons_ok (snd (record_lesson now cycle l s))"
proof -
  have "records_ok (on_lesson (trim l) (\<lambda>r. r\<lparr>lr_re_recordings := n r\<rparr>) (ln_records s))" for n
    using assms by (intro records_ok_on) (simp_all add: lessons_ok_alt)
  then show ?thesis
    using assms records_ok_add [of "ln_records s" "trim l" now cycle]
    by (auto simp: record_lesson_def Let_def lessons_ok_alt intro: distinct_keep)
qed

text \<open>The record of a lesson after \<open>record_recurrence\<close> has ensured it.\<close>

definition ensured :: "string \<Rightarrow> nat \<Rightarrow> string \<Rightarrow> lesson_record list \<Rightarrow> lesson_record list" where
  "ensured now cycle l rs =
     (if find_lesson l rs = None then keep_newest MAX_LESSON_RECORDS (rs @ [fresh_lesson l now cycle]) else rs)"

lemma ensured_ok: "records_ok rs \<Longrightarrow> records_ok (ensured now cycle l rs)"
  by (simp add: ensured_def records_ok_add)

lemma ensured_find: "\<exists>r. find_lesson l (ensured now cycle l rs) = Some r"
  by (auto simp: ensured_def find_added)

lemma ensured_again: "ensured now cycle l (ensured now' cycle' l rs) = ensured now' cycle' l rs"
  using ensured_find [of l now' cycle' rs] by (auto simp: ensured_def [of now cycle])

lemma record_recurrence_cases:
  "record_recurrence now cycle l incident reason prior s =
    (if trim l = [] \<or> incident = [] \<or> match_is_dismissed l incident s then (False, s)
     else let rs = ensured now cycle l (ln_records s); r = the (find_lesson l rs) in
       if incident \<in> incidents (lr_recurrences r @ prior) then (False, s\<lparr>ln_records := rs\<rparr>)
       else (True, s\<lparr>ln_records := on_lesson l (\<lambda>r. r\<lparr>lr_recurrences := merge_prior (lr_recurrences r) prior
              @ [\<lparr>lc_at = now, lc_incident_at = incident, lc_incident_reason = reason\<rparr>]\<rparr>) rs\<rparr>))"
  using ensured_find [of l now cycle "ln_records s"]
  by (auto simp: record_recurrence_def ensured_def Let_def)

lemma record_recurrence_ok:
  assumes "lessons_ok s"
  shows "lessons_ok (snd (record_recurrence now cycle l incident reason prior s))"
proof -
  let ?rs = "ensured now cycle l (ln_records s)"
  let ?r = "the (find_lesson l ?rs)"
  have ok: "records_ok ?rs" using assms by (simp add: lessons_ok_alt ensured_ok)
  have "records_ok (on_lesson l (\<lambda>r. r\<lparr>lr_recurrences := merge_prior (lr_recurrences r) prior
      @ [\<lparr>lc_at = now, lc_incident_at = incident, lc_incident_reason = reason\<rparr>]\<rparr>) ?rs)"
    if "incident \<notin> incidents (lr_recurrences ?r @ prior)"
  proof (rule records_ok_on [OF ok])
    fix r
    assume "find_lesson l ?rs = Some r" and d: "distinct (map lc_incident_at (lr_recurrences r))"
    with that have "incident \<notin> incidents (merge_prior (lr_recurrences r) prior)"
      by (simp add: merge_prior_incidents incidents_append)
    with merge_prior_distinct [OF d, of prior]
    show "distinct (map lc_incident_at (lr_recurrences (r\<lparr>lr_recurrences := merge_prior (lr_recurrences r) prior
        @ [\<lparr>lc_at = now, lc_incident_at = incident, lc_incident_reason = reason\<rparr>]\<rparr>)))"
      by (simp add: incidents_def)
  qed simp
  with assms ok show ?thesis by (auto simp: record_recurrence_cases Let_def lessons_ok_alt)
qed

lemma dismiss_match_ok:
  assumes "lessons_ok s"
  shows "lessons_ok (snd (dismiss_match now l incident reason who s))"
proof -
  let ?d = "\<lparr>dm_lesson = l, dm_incident_at = incident, dm_incident_reason = reason,
      dm_dismissed_at = now, dm_dismissed_by = who\<rparr>"
  have "records_ok (on_lesson l (\<lambda>r. r\<lparr>lr_recurrences := filter (\<lambda>e. lc_incident_at e \<noteq> incident) (lr_recurrences r)\<rparr>) (ln_records s))"
    using assms by (intro records_ok_on) (simp_all add: lessons_ok_alt distinct_map_filter)
  moreover have "distinct (map (\<lambda>d. (dm_lesson d, dm_incident_at d)) (keep_newest MAX_DISMISSED_MATCHES (ln_dismissed s @ [?d])))"
    if "\<not> match_is_dismissed l incident s"
    using assms that unfolding map_keep_newest
    by (intro distinct_keep) (auto simp: lessons_ok_alt match_is_dismissed_def)
  ultimately show ?thesis using assms by (auto simp: dismiss_match_def Let_def lessons_ok_alt)
qed

lemma mark_escalated_ok:
  assumes "lessons_ok s"
  shows "lessons_ok (snd (mark_escalated now l tid stage s))"
proof -
  have "records_ok (on_lesson l (\<lambda>r. r\<lparr>lr_escalated := e\<rparr>) (ln_records s))" for e
    using assms by (intro records_ok_on) (simp_all add: lessons_ok_alt)
  with assms show ?thesis by (auto simp: mark_escalated_def lessons_ok_alt split: option.split)
qed

interpretation lesson_sys: invariant_system
  "\<lambda>s. s = \<lparr>ln_records = [], ln_lessons = [], ln_dismissed = []\<rparr>" lesson_step lessons_ok
proof unfold_locales
  fix s t
  show "lessons_ok s" if "s = \<lparr>ln_records = [], ln_lessons = [], ln_dismissed = []\<rparr>"
    using that by (simp add: lessons_ok_def)
  show "lessons_ok t" if "lessons_ok s" "lesson_step s t"
    using that(2,1) by cases (auto intro: record_lesson_ok record_recurrence_ok dismiss_match_ok mark_escalated_ok)
qed

section \<open>Once per incident, and dismissals\<close>

lemma recurrence_once:
  assumes "record_recurrence now cycle l incident reason prior s = (True, s')"
  shows "record_recurrence now' cycle' l incident reason' prior' s' = (False, s')"
proof -
  let ?rs = "ensured now cycle l (ln_records s)"
  let ?f = "\<lambda>r. r\<lparr>lr_recurrences := merge_prior (lr_recurrences r) prior
      @ [\<lparr>lc_at = now, lc_incident_at = incident, lc_incident_reason = reason\<rparr>]\<rparr>"
  have s': "s' = s\<lparr>ln_records := on_lesson l ?f ?rs\<rparr>" and pre: "trim l \<noteq> []" "incident \<noteq> []"
    "\<not> match_is_dismissed l incident s"
    using assms by (auto simp: record_recurrence_cases Let_def split: if_splits)
  obtain r where r: "find_lesson l ?rs = Some r" using ensured_find by blast
  have found: "find_lesson l (on_lesson l ?f ?rs) = Some (?f r)" by (simp add: find_on_lesson r)
  then have "ensured now' cycle' l (ln_records s') = ln_records s'" by (simp add: s' ensured_def)
  moreover have "match_is_dismissed l incident s' \<longleftrightarrow> match_is_dismissed l incident s"
    by (simp add: s' match_is_dismissed_def)
  ultimately show ?thesis
    using pre found by (simp add: record_recurrence_cases Let_def s' incidents_def)
qed

lemma dismiss_final:
  assumes "dismiss_match now l incident reason who s = (b, s')" and "trim l \<noteq> []" and "incident \<noteq> []"
  shows "match_is_dismissed l incident s'
    \<and> (\<forall>r. find_lesson l (ln_records s') = Some r \<longrightarrow> incident \<notin> incidents (lr_recurrences r))
    \<and> record_recurrence now' cycle l incident reason' prior s' = (False, s')"
proof -
  let ?f = "\<lambda>r. r\<lparr>lr_recurrences := filter (\<lambda>e. lc_incident_at e \<noteq> incident) (lr_recurrences r)\<rparr>"
  have recs: "ln_records s' = on_lesson l ?f (ln_records s)"
    using assms by (cases "match_is_dismissed l incident s") (auto simp: dismiss_match_def Let_def)
  have d: "match_is_dismissed l incident s'"
  proof (cases "match_is_dismissed l incident s")
    case True
    with assms show ?thesis by (auto simp: dismiss_match_def Let_def match_is_dismissed_def)
  next
    case False
    with assms show ?thesis
      by (auto simp: dismiss_match_def Let_def match_is_dismissed_def [of _ _ s'] keep_newest_snoc MAX_DISMISSED_MATCHES_def)
  qed
  have "incident \<notin> incidents (lr_recurrences r)" if "find_lesson l (ln_records s') = Some r" for r
    using that by (auto simp: recs find_on_lesson incidents_def)
  with d show ?thesis by (simp add: record_recurrence_def)
qed

end
