(* ===== verification/Governance_Properties.thy ===== *)
theory Governance_Properties
  imports Governance Lessons
begin

text \<open>
  Properties of the governance ledgers: goals keep their identity, the outcome report accounts
  for every verified ticket, attention is counted once per decision, drift alerts follow the scan, a lesson recurs once per incident.
\<close>

text \<open>
  Goals keep their identity: whatever is added, renamed, retired and recorded, from an empty
  list, goal ids are distinct and the ledger is bounded; minting ends with an id no goal has, a
  goal with a name is always accepted under it, and no later step removes or reorders ids.
\<close>

theorem goal_ids_stable:
  assumes "reach (\<lambda>g. gv_goals g = [] \<and> gv_outcome_ledger g = []) goal_step g"
  shows "distinct (map gl_id (gv_goals g)) \<and> length (gv_outcome_ledger g) \<le> 500
    \<and> (\<forall>title. \<not> is_blank title \<longrightarrow> (\<exists>i. fst (add_goal title g) = Inr i \<and> i \<notin> gl_id ` set (gv_goals g)
          \<and> gl_id (last (gv_goals (snd (add_goal title g)))) = i))
    \<and> (\<forall>g'. goal_step\<^sup>*\<^sup>* g g' \<longrightarrow> prefix (map gl_id (gv_goals g)) (map gl_id (gv_goals g')))"
proof -
  have "goals_ok g" using assms by (rule goal_sys.reach_inv)
  moreover have "prefix (map gl_id (gv_goals g)) (map gl_id (gv_goals g'))" if "goal_step\<^sup>*\<^sup>* g g'" for g'
    using that by (induction rule: rtranclp_induct) (auto intro: prefix_order.trans goal_step_ids)
  ultimately show ?thesis
    using mint_goal_id_fresh [of "gv_goals g"]
    by (auto simp: goals_ok_def MAX_OUTCOME_LEDGER_def add_goal_cases Let_def)
qed

definition no_governance :: governance where
  "no_governance = \<lparr>gv_goals = [], gv_outcome_ledger = [], gv_interventions = [], gv_drift_alerts = []\<rparr>"

definition one_goal :: governance where "one_goal = snd (add_goal ''Ship it'' no_governance)"

lemma one_goal_reach: "reach (\<lambda>g. gv_goals g = [] \<and> gv_outcome_ledger g = []) goal_step one_goal"
  unfolding one_goal_def
  by (rule reach_step [OF reach_init]) (auto simp: no_governance_def intro: goal_step.add)

theorem goal_ids_stable_witness:
  "\<exists>i. fst (add_goal ''Next'' one_goal) = Inr i \<and> i \<notin> gl_id ` set (gv_goals one_goal)"
proof -
  have "\<not> is_blank ''Next''" by code_simp
  with goal_ids_stable [OF one_goal_reach] show ?thesis by blast
qed

text \<open>
  The outcome report accounts for every verified ticket exactly once: each goal has its row,
  in order, with the number of verified tickets attributed to it, by their own goal or else by
  the one the ledger froze; the others are listed as unattributed; and the counts add up.
\<close>

theorem outcome_report_exact:
  assumes "distinct (map gl_id (gv_goals g))" and "outcome_report tickets g = (rows, un)"
    and "lines = map (\<lambda>x. goal_id_str (gl_id x)) (gv_goals g)"
  shows "map go_goal_id rows = lines
    \<and> map go_verified_contributions rows = map (\<lambda>i. length (verified_for g (set lines) (Some i) tickets)) lines
    \<and> map un_ticket un = map (\<lambda>t. ticket_id_str (tk_id t)) (verified_for g (set lines) None tickets)
    \<and> sum_list (map go_verified_contributions rows) + length un
        = length (filter (\<lambda>t. tk_status t = Verified) tickets)"
proof -
  let ?rows = "map goal_row (gv_goals g)"
  have ids: "map go_goal_id ?rows = lines" by (simp add: assms(3) goal_row_def)
  have dist: "distinct lines"
    using assms(1,3) by (simp add: distinct_map inj_on_def goal_id.expand)
  have set: "set lines = go_goal_id ` set ?rows" unfolding ids [symmetric] by (simp only: set_map)
  note rep = report_exact [of ?rows "set lines" g "[]" tickets, unfolded ids, OF dist set]
  have r: "rows = map (add_contributions (\<lambda>i. length (verified_for g (set lines) (Some i) tickets))) ?rows"
    "map un_ticket un = map (\<lambda>t. ticket_id_str (tk_id t)) (verified_for g (set lines) None tickets)"
    using rep assms(2) by (simp_all add: outcome_report_def)
  have c: "map go_verified_contributions rows = map (\<lambda>i. length (verified_for g (set lines) (Some i) tickets)) lines"
    by (simp add: r(1) assms(3) goal_row_def)
  have "map go_goal_id rows = lines" by (simp add: r(1) o_def ids [unfolded map_map o_def])
  moreover have "length un = length (verified_for g (set lines) None tickets)"
    using arg_cong [OF r(2), of length] by simp
  ultimately show ?thesis using c r(2) verified_partition [OF dist, of g tickets] by simp
qed

definition verified_bug :: ticket where
  "verified_bug =
     (case ticket_new (TicketId ''B1'') Bug ''Crash'' ''d'' High Small False of
        Inr t \<Rightarrow> t\<lparr>tk_status := Verified, tk_goal_id := Some (GoalId ''G001'')\<rparr>)"

theorem outcome_report_exact_witness:
  "map go_verified_contributions (fst (outcome_report [verified_bug] one_goal)) = [1]"
proof -
  have d: "distinct (map gl_id (gv_goals one_goal))" by code_simp
  have "map (\<lambda>i. length (verified_for one_goal (set [''G001'']) (Some i) [verified_bug])) [''G001''] = [1]"
    "[''G001''] = map (\<lambda>x. goal_id_str (gl_id x)) (gv_goals one_goal)" by code_simp+
  with outcome_report_exact [OF d surjective_pairing [of "outcome_report [verified_bug] one_goal"], of "[''G001'']"]
  show ?thesis by simp
qed

text \<open>
  Features and chores never move a goal line: on a board of well-formed tickets the outcome
  report is the report of its bugs alone, because only a bug can be \<open>Verified\<close>; a shipped feature
  that declares a goal neither counts for it nor appears as unattributed.
\<close>

theorem outcome_report_bugs_only:
  assumes "\<forall>t \<in> set tickets. wf_ticket t"
  shows "outcome_report tickets g = outcome_report (filter (\<lambda>t. tk_kind t = Bug) tickets) g"
proof -
  have bug: "tk_kind t = Bug" if "wf_ticket t" "tk_status t = Verified" for t
    using that by (cases "tk_kind t") (auto simp: wf_ticket_def lifecycle_def)
  have "report_from g rows un ts = report_from g rows un (filter (\<lambda>t. tk_kind t = Bug) ts)"
    if "\<forall>t \<in> set ts. wf_ticket t" for rows un ts
    using that
  proof (induction ts arbitrary: rows un)
    case (Cons t ts)
    show ?case
    proof (cases "tk_kind t = Bug")
      case False
      with bug Cons.prems have "tk_status t \<noteq> Verified" by auto
      with False Cons show ?thesis by simp
    next
      case True
      have "report_from g r u (filter (\<lambda>t. tk_kind t = Bug) ts) = report_from g r u ts" for r u
        using Cons by simp
      with True show ?thesis by (simp split: option.split)
    qed
  qed simp
  from this [OF assms] show ?thesis unfolding outcome_report_def .
qed

definition shipped_feature :: ticket where
  "shipped_feature =
     (case ticket_new (TicketId ''F1'') Feature ''Search'' ''d'' High Small False of Inr t \<Rightarrow> t\<lparr>tk_goal_id := Some (GoalId ''G001'')\<rparr>)"

theorem outcome_report_bugs_only_witness:
  "outcome_report [shipped_feature] one_goal = outcome_report [] one_goal"
proof -
  have "wf_ticket shipped_feature"
    by (simp add: shipped_feature_def ticket_new_def wf_defs lifecycle_def initial_status_def is_blank_def trim_def is_white_def)
  moreover have "filter (\<lambda>t. tk_kind t = Bug) [shipped_feature] = []" by code_simp
  ultimately show ?thesis using outcome_report_bugs_only [of "[shipped_feature]" one_goal] by simp
qed


text \<open>
  Attention is counted once per decision: per kind of intervention the delta since a moment
  is the number of different decisions (kind, ticket, person, second) recorded after it, whatever
  was written twice; and recording a decision again within the second changes no total.
\<close>

theorem attention_counted_once:
  assumes "r \<in> set (gv_interventions g)" and "since < ir_at r" and "since < ir_at q"
    and "decision_identity q = decision_identity r"
    and "length (gv_interventions g) < MAX_GOVERNANCE_INTERVENTIONS"
  shows "attention_delta_since since (push_intervention q g) = attention_delta_since since g
    \<and> (\<forall>k. (case snd (attention_delta_since since g) k of Some n \<Rightarrow> n | None \<Rightarrow> 0) =
        card {d \<in> decision_identity ` {r \<in> set (gv_interventions g). since < ir_at r}. fst d = k})"
proof -
  let ?rs = "gv_interventions g" and ?cs = "counted since {} (gv_interventions g)"
  have push: "gv_interventions (push_intervention q g) = ?rs @ [q]"
    using assms(5) by (simp add: push_intervention_def keep_newest_small)
  have "counted since {} (?rs @ [q]) = ?cs"
    using assms(1-4) by (intro counted_duplicate) auto
  then have same: "attention_delta_since since (push_intervention q g) = attention_delta_since since g"
    by (simp add: attention_delta_since_def push delta_counted)
  note ids = counted_identities [of since "{}" ?rs]
  have count: "count_list (map (\<lambda>r. intervention_key (ir_kind r)) cs) k =
      card {d \<in> decision_identity ` set cs. fst d = k}" if "distinct (map decision_identity cs)" for cs k
  proof -
    have "count_list (map (\<lambda>r. intervention_key (ir_kind r)) cs) k =
        length (filter (\<lambda>d. fst d = k) (map decision_identity cs))"
      by (induction cs) (auto simp: decision_identity_def)
    also have "\<dots> = card (set (filter (\<lambda>d. fst d = k) (map decision_identity cs)))"
      using that by (intro distinct_card [symmetric] distinct_filter)
    finally show ?thesis by (simp only: set_filter set_map)
  qed
  have "(case snd (attention_delta_since since g) k of Some n \<Rightarrow> n | None \<Rightarrow> 0) =
      count_list (map (\<lambda>r. intervention_key (ir_kind r)) ?cs) k" for k
    by (simp add: attention_delta_since_def delta_counted tally_count count_list_0_iff)
  with count [of ?cs] ids same show ?thesis by simp
qed

definition one_decision :: governance where
  "one_decision = push_intervention
     \<lparr>ir_kind = VerifyPass, ir_ticket = ''B1'', ir_area = Some Bug, ir_by = ''ana'', ir_at = ''2026-01-01T10:00:00.1Z''\<rparr>
     no_governance"

theorem attention_counted_once_witness:
  "attention_delta_since [] (push_intervention
     \<lparr>ir_kind = VerifyPass, ir_ticket = ''B1'', ir_area = Some Bug, ir_by = ''ana'', ir_at = ''2026-01-01T10:00:00.7Z''\<rparr>
     one_decision) = attention_delta_since [] one_decision"
proof -
  let ?r = "\<lparr>ir_kind = VerifyPass, ir_ticket = ''B1'', ir_area = Some Bug, ir_by = ''ana'', ir_at = ''2026-01-01T10:00:00.1Z''\<rparr>"
  let ?q = "\<lparr>ir_kind = VerifyPass, ir_ticket = ''B1'', ir_area = Some Bug, ir_by = ''ana'', ir_at = ''2026-01-01T10:00:00.7Z''\<rparr>"
  have "?r \<in> set (gv_interventions one_decision)" "[] < ir_at ?r" "[] < ir_at ?q"
    "length (gv_interventions one_decision) < MAX_GOVERNANCE_INTERVENTIONS"
    by (simp_all add: one_decision_def no_governance_def push_intervention_def keep_newest_def MAX_GOVERNANCE_INTERVENTIONS_def)
  moreover have "decision_identity ?q = decision_identity ?r" by code_simp
  ultimately show ?thesis using attention_counted_once [of ?r one_decision "[]" ?q] by blast
qed

text \<open>
  The drift alerts are exactly the violations of the last scan, in its order: an alert that
  was open for a violation is kept as it is, with its ticket and time, one whose violation is gone
  is dropped, and scanning again with the same violations reports no change.
\<close>

theorem drift_follows_scan:
  assumes "distinct (map (\<lambda>v. (vi_area v, vi_message v)) vs)"
    and "sync_drift_alerts bug_for now vs g = (changed, g')"
  shows "map (\<lambda>a. (da_area a, da_message a)) (gv_drift_alerts g') = map (\<lambda>v. (vi_area v, vi_message v)) vs
    \<and> (\<forall>k < length vs. \<forall>a. find (same_drift (vs ! k)) (gv_drift_alerts g) = Some a \<longrightarrow> gv_drift_alerts g' ! k = a)
    \<and> (\<not> changed \<longrightarrow> g' = g) \<and> sync_drift_alerts bug_for' now' vs g' = (False, g')"
proof -
  let ?next = "next_alerts (gv_drift_alerts g) bug_for now 0 vs"
  have g': "g' = g\<lparr>gv_drift_alerts := ?next\<rparr>" "changed \<longleftrightarrow> ?next \<noteq> gv_drift_alerts g"
    using assms(2) by (simp_all add: sync_drift_alerts_def Let_def)
  have "next_alerts ?next bug_for' now' 0 vs = ?next" using assms(1) by (rule next_alerts_stable)
  then show ?thesis
    using next_alerts_nth [of _ vs "gv_drift_alerts g" _ bug_for now 0]
    by (simp add: g' next_alerts_keys sync_drift_alerts_def Let_def)
qed

theorem drift_follows_scan_witness:
  "snd (sync_drift_alerts (\<lambda>_. None) (\<lambda>_. ''t2'') [\<lparr>vi_area = ''server'', vi_message = ''m''\<rparr>]
     (snd (sync_drift_alerts (\<lambda>_. Some ''B7'') (\<lambda>_. ''t1'') [\<lparr>vi_area = ''server'', vi_message = ''m''\<rparr>] no_governance)))
   = snd (sync_drift_alerts (\<lambda>_. Some ''B7'') (\<lambda>_. ''t1'') [\<lparr>vi_area = ''server'', vi_message = ''m''\<rparr>] no_governance)"
  using drift_follows_scan [OF _ surjective_pairing, of "[\<lparr>vi_area = ''server'', vi_message = ''m''\<rparr>]"
      "\<lambda>_. Some ''B7''" "\<lambda>_. ''t1''" no_governance "\<lambda>_. None" "\<lambda>_. ''t2''"] by simp


section \<open>Lessons\<close>

definition no_lessons :: lesson_state where
  "no_lessons = \<lparr>ln_records = [], ln_lessons = [], ln_dismissed = []\<rparr>"

text \<open>
  The lesson ledger stays consistent: whatever is learned, matched, dismissed and escalated,
  from an empty ledger, there is one record per lesson and at most 24, one prompt entry per lesson
  and at most twelve, one verdict per dismissed match and at most a hundred, and no incident is
  counted twice for a lesson.
\<close>

theorem lessons_reachable:
  assumes "reach (\<lambda>s. s = \<lparr>ln_records = [], ln_lessons = [], ln_dismissed = []\<rparr>) lesson_step s"
  shows "distinct (map lr_text (ln_records s)) \<and> length (ln_records s) \<le> 24
    \<and> distinct (ln_lessons s) \<and> length (ln_lessons s) \<le> 12
    \<and> distinct (map (\<lambda>d. (dm_lesson d, dm_incident_at d)) (ln_dismissed s)) \<and> length (ln_dismissed s) \<le> 100
    \<and> (\<forall>r \<in> set (ln_records s). distinct (map lc_incident_at (lr_recurrences r)))"
  using lesson_sys.reach_inv [OF assms]
  by (simp add: lessons_ok_def MAX_LESSON_RECORDS_def MAX_PROMPT_LESSONS_def MAX_DISMISSED_MATCHES_def)

theorem lessons_reachable_witness:
  "let s = snd (record_lesson ''t'' 1 ''pin the port'' no_lessons) in
   ln_lessons s = [''pin the port''] \<and> distinct (map lr_text (ln_records s))"
proof -
  have "reach (\<lambda>s. s = \<lparr>ln_records = [], ln_lessons = [], ln_dismissed = []\<rparr>) lesson_step
      (snd (record_lesson ''t'' 1 ''pin the port'' no_lessons))"
    by (rule reach_step [OF reach_init]) (auto simp: no_lessons_def intro: lesson_step.learn)
  moreover have "ln_lessons (snd (record_lesson ''t'' 1 ''pin the port'' no_lessons)) = [''pin the port'']"
    by code_simp
  ultimately show ?thesis using lessons_reachable unfolding Let_def by blast
qed

text \<open>
  A recurrence counts once per incident, and a dismissal retracts it: after an incident was
  recorded for a lesson every further match of the two is refused; after a dismissal the lesson
  has no recurrence of the incident and a match of the two is refused and changes nothing.
\<close>

theorem recurrence_once_dismiss_final:
  assumes "record_recurrence now cycle l incident reason prior s = (True, s1)"
    and "dismiss_match now2 l incident reason2 who s1 = (b, s2)"
  shows "record_recurrence now3 cycle3 l incident reason3 prior3 s1 = (False, s1)
    \<and> (\<forall>r. find_lesson l (ln_records s2) = Some r \<longrightarrow> incident \<notin> incidents (lr_recurrences r))
    \<and> record_recurrence now3 cycle3 l incident reason3 prior3 s2 = (False, s2)"
proof -
  have "trim l \<noteq> []" "incident \<noteq> []"
    using assms(1) by (auto simp: record_recurrence_def split: if_splits)
  with recurrence_once [OF assms(1)] dismiss_final [OF assms(2)] show ?thesis by blast
qed

theorem recurrence_once_dismiss_final_witness:
  "let s1 = snd (record_recurrence ''t1'' 1 ''pin the port'' ''i1'' ''deploy failed'' [] no_lessons) in
   record_recurrence ''t2'' 1 ''pin the port'' ''i1'' ''deploy failed'' [] s1 = (False, s1)"
proof -
  have "fst (record_recurrence ''t1'' 1 ''pin the port'' ''i1'' ''deploy failed'' [] no_lessons)" by code_simp
  then have "record_recurrence ''t1'' 1 ''pin the port'' ''i1'' ''deploy failed'' [] no_lessons =
    (True, snd (record_recurrence ''t1'' 1 ''pin the port'' ''i1'' ''deploy failed'' [] no_lessons))"
    by (simp add: prod_eq_iff)
  from recurrence_once_dismiss_final [OF this surjective_pairing, of "''t2''" 1 "''deploy failed''" "[]"]
  show ?thesis by (simp add: Let_def)
qed

text \<open>
  A dismissed match can come back: when a lesson is matched with a new incident and the
  history handed along contains the dismissed incident, the dismissed recurrence is counted
  again, although a dismissed match is documented as never counting again.
\<close>

theorem dismissed_match_returns:
  assumes "match_is_dismissed l incident s" and "find_lesson l (ln_records s) = Some r"
    and "trim l \<noteq> []" and "other \<noteq> []" and "\<not> match_is_dismissed l other s"
    and "other \<notin> incidents (lr_recurrences r @ prior)" and "incident \<in> incidents prior"
  shows "\<exists>s' r'. record_recurrence now cycle l other reason prior s = (True, s')
    \<and> match_is_dismissed l incident s' \<and> find_lesson l (ln_records s') = Some r'
    \<and> incident \<in> incidents (lr_recurrences r')"
proof -
  let ?f = "\<lambda>r. r\<lparr>lr_recurrences := merge_prior (lr_recurrences r) prior
      @ [\<lparr>lc_at = now, lc_incident_at = other, lc_incident_reason = reason\<rparr>]\<rparr>"
  let ?s' = "s\<lparr>ln_records := on_lesson l ?f (ln_records s)\<rparr>"
  have "record_recurrence now cycle l other reason prior s = (True, ?s')"
    using assms(2-6) by (simp add: record_recurrence_def)
  moreover have "match_is_dismissed l incident ?s'" using assms(1) by (simp add: match_is_dismissed_def)
  moreover have "find_lesson l (ln_records ?s') = Some (?f r)" using assms(2) by (simp add: find_on_lesson)
  moreover have "incident \<in> incidents (lr_recurrences (?f r))"
    using assms(7) by (simp add: incidents_append merge_prior_incidents)
  ultimately show ?thesis by blast
qed

definition dismissed_once :: lesson_state where
  "dismissed_once = snd (dismiss_match ''t2'' ''l'' ''i1'' ''r'' ''ana''
     (snd (record_recurrence ''t1'' 1 ''l'' ''i1'' ''r'' [] no_lessons)))"

theorem dismissed_match_returns_witness:
  "\<exists>s' r'. record_recurrence ''t3'' 1 ''l'' ''i2'' ''r''
        [\<lparr>lc_at = ''t1'', lc_incident_at = ''i1'', lc_incident_reason = ''r''\<rparr>] dismissed_once = (True, s')
    \<and> match_is_dismissed ''l'' ''i1'' s' \<and> find_lesson ''l'' (ln_records s') = Some r' \<and> ''i1'' \<in> incidents (lr_recurrences r')"
proof (rule dismissed_match_returns)
  let ?old = "\<lparr>lc_at = ''t1'', lc_incident_at = ''i1'', lc_incident_reason = ''r''\<rparr>"
  show "match_is_dismissed ''l'' ''i1'' dismissed_once" by code_simp
  show "\<not> match_is_dismissed ''l'' ''i2'' dismissed_once" by code_simp
  show "find_lesson ''l'' (ln_records dismissed_once) = Some (fresh_lesson ''l'' ''t1'' 1)" by code_simp
  show "trim ''l'' \<noteq> []" by code_simp
  show "''i2'' \<notin> incidents (lr_recurrences (fresh_lesson ''l'' ''t1'' 1) @ [?old])" by code_simp
  show "''i1'' \<in> incidents [?old]" by code_simp
qed simp

end
