(* ===== verification/Approval.thy ===== *)
theory Approval
  imports Project_State
begin

text \<open>
  The adaptive approval gate: the risk score of a designed ticket
  (\<open>application/src/use_cases/approval_risk.rs\<close>), the rule learned from human decisions
  (\<open>approval_memory.rs\<close>), the shared decision and the policy panel (\<open>approval_policy.rs\<close>) and the
  pass of a cycle that approves tickets (\<open>adaptive_approval_pass\<close> in \<open>cycle/audits.rs\<close>), with the
  defaults of \<open>AdaptiveConfig\<close> (\<open>config.rs\<close>). The record \<open>approvals\<close> holds the fields of the
  project state only these use. The robot sign, dashes and other signs of the announcements are
  written in ASCII; message ids, the clock and the age of a timestamp are arguments.
\<close>

section \<open>Risk\<close>

definition SENSITIVE :: "string list" where
  "SENSITIVE = [''.github/workflows'', ''Dockerfile'', ''docker-compose'', ''scripts/'', ''Cargo.toml'',
     ''coxagent.json'', ''deploy/'']"

datatype lane = Auto | Ask

record risk_verdict =
  rk_lane :: lane
  rk_score :: int
  rk_why :: string

definition title_is_testish :: "string \<Rightarrow> bool" where
  "title_is_testish t \<longleftrightarrow>
     (\<exists>w \<in> set (split_on (\<lambda>c. \<not> is_alphanumeric c) (to_lowercase t)). w \<in> {''test'', ''tests'', ''testing''})"

definition files_are_all_tests :: "string list \<Rightarrow> bool" where
  "files_are_all_tests files \<longleftrightarrow> files \<noteq> [] \<and>
     (\<forall>f \<in> set files. let f = to_lowercase f in
        contains_str f ''/tests/'' \<or> starts_with f ''tests/'' \<or> ends_with f ''_test.rs''
        \<or> ends_with f ''_tests.rs'' \<or> contains_str f ''.test.'' \<or> contains_str f ''/e2e/'')"

definition title_is_docish :: "string \<Rightarrow> bool" where
  "title_is_docish t \<longleftrightarrow>
     (let t = to_lowercase t in contains_str t ''document'' \<or> contains_str t ''docs'' \<or> contains_str t ''readme'')"

definition design_files :: "ticket \<Rightarrow> string list" where
  "design_files t = (case d_technical (tk_design t) of Some d \<Rightarrow> td_files d | None \<Rightarrow> [])"

definition touches_sensitive :: "string list \<Rightarrow> bool" where
  "touches_sensitive files \<longleftrightarrow> (\<exists>f \<in> set files. \<exists>x \<in> set SENSITIVE. contains_str f x)"

definition routine_type :: "ticket \<Rightarrow> bool" where
  "routine_type t \<longleftrightarrow> tk_kind t = Chore \<or> title_is_testish (tk_title t) \<or> title_is_docish (tk_title t)"

text \<open>The score before the credit for prior art.\<close>

definition base_score :: "ticket \<Rightarrow> bool \<Rightarrow> int" where
  "base_score t previously_parked =
     20
     + (case tk_complexity t of Large \<Rightarrow> 60 | CMedium \<Rightarrow> 15 | Small \<Rightarrow> - 5)
     + (if touches_sensitive (design_files t) then 60 else 0)
     + (if length (design_files t) > 8 then 20 else 0)
     + (if tk_acceptance_criteria t = [] then 25 else 0)
     - (if routine_type t then 25 else 0)
     - (if files_are_all_tests (design_files t) then 20 else 0)
     + (if previously_parked then 30 else 0)"

definition risk_notes :: "ticket \<Rightarrow> nat \<Rightarrow> bool \<Rightarrow> string list" where
  "risk_notes t shipped_similar previously_parked =
     (if tk_complexity t = Large then [''large''] else [])
     @ (if touches_sensitive (design_files t) then [''touches build/deploy config''] else [])
     @ (if length (design_files t) > 8 then [nat_str (length (design_files t)) @ '' files''] else [])
     @ (if tk_acceptance_criteria t = [] then [''no acceptance criteria''] else [])
     @ (if routine_type t then [''test/docs/chore''] else [])
     @ (if files_are_all_tests (design_files t) then [''test files only''] else [])
     @ (if previously_parked then [''previously parked''] else [])
     @ (if shipped_similar \<ge> 2 then [nat_str shipped_similar @ '' similar shipped''] else [])"

definition hard_ask :: "ticket \<Rightarrow> bool" where
  "hard_ask t \<longleftrightarrow> tk_complexity t = Large \<or> touches_sensitive (design_files t)"

definition assess :: "ticket \<Rightarrow> nat \<Rightarrow> bool \<Rightarrow> risk_verdict" where
  "assess t shipped_similar previously_parked =
     (let score = max 0 (min 100 (base_score t previously_parked - int (min shipped_similar 6) * 5));
          notes = risk_notes t shipped_similar previously_parked
      in \<lparr>rk_lane = (if \<not> hard_ask t \<and> score \<le> 35 then Auto else Ask), rk_score = score,
          rk_why = (if notes = [] then ''ordinary change'' else join '', '' notes)\<rparr>)"

definition SHAPE_KINDS :: "string list" where
  "SHAPE_KINDS = [''test'', ''docs'', ''bug'', ''chore'', ''feature'']"

definition SHAPE_COMPLEXITIES :: "string list" where
  "SHAPE_COMPLEXITIES = [''small'', ''medium'', ''large'']"

definition complexity_debug :: "complexity \<Rightarrow> string" where
  "complexity_debug c = (case c of Small \<Rightarrow> ''Small'' | CMedium \<Rightarrow> ''Medium'' | Large \<Rightarrow> ''Large'')"

definition shape_key :: "ticket \<Rightarrow> string" where
  "shape_key t =
     to_lowercase
       ((if title_is_testish (tk_title t) then ''test'' else if title_is_docish (tk_title t) then ''docs''
         else case tk_kind t of Bug \<Rightarrow> ''bug'' | Chore \<Rightarrow> ''chore'' | Feature \<Rightarrow> ''feature'')
        @ ''/'' @ complexity_debug (tk_complexity t))"

definition is_valid_shape :: "string \<Rightarrow> bool" where
  "is_valid_shape shape \<longleftrightarrow>
     CHR ''/'' \<in> set shape
     \<and> takeWhile (\<lambda>c. c \<noteq> CHR ''/'') shape \<in> set SHAPE_KINDS
     \<and> map ascii_lower (tl (dropWhile (\<lambda>c. c \<noteq> CHR ''/'') shape)) \<in> set SHAPE_COMPLEXITIES"

section \<open>Learning\<close>

record approval_sample =
  as_shape :: string
  as_decision :: string
  as_by :: string
  as_reason :: string
  as_at :: string

datatype rule = AutoApprove string nat | PreflightFix string nat | KeepAsking

definition rule_for :: "string \<Rightarrow> approval_sample list \<Rightarrow> nat \<Rightarrow> rule" where
  "rule_for shape samples learn_after =
     (let mine = filter (\<lambda>s. as_shape s = shape) samples;
          approvals = filter (\<lambda>s. as_decision s = ''approve'') mine;
          rejects = filter (\<lambda>s. as_decision s = ''reject'') mine
      in if \<exists>s \<in> set mine. as_decision s = ''undo'' then KeepAsking
         else if length rejects \<ge> 2 then
           (let reason = (case find (\<lambda>s. \<not> is_blank (as_reason s)) (rev rejects) of
                Some s \<Rightarrow> as_reason s | None \<Rightarrow> [])
            in if reason \<noteq> [] then PreflightFix reason (length rejects) else KeepAsking)
         else if rejects = [] \<and> length approvals \<ge> max learn_after 1 then
           AutoApprove (if approvals = [] then ''the team'' else as_by (last approvals)) (length approvals)
         else KeepAsking)"

definition announce :: "string \<Rightarrow> rule \<Rightarrow> string option" where
  "announce shape r =
     (case r of
        AutoApprove who n \<Rightarrow> Some (''[bot] Learned: @'' @ who @ '' approved '' @ nat_str n @ ''/'' @ nat_str n
          @ '' `'' @ shape @ ''` tickets - I will auto-approve that shape from now on and post a notice instead of asking. Reply `ask again: ''
          @ shape @ ''` to reverse.'')
      | PreflightFix reason n \<Rightarrow> Some (''[bot] Learned: `'' @ shape @ ''` tickets were rejected '' @ nat_str n
          @ ''x for the same reason (\"'' @ reason
          @ ''\") - the BA will fix that BEFORE the ticket reaches anyone's inbox.'')
      | KeepAsking \<Rightarrow> None)"

definition gate_allows :: "lane \<Rightarrow> rule \<Rightarrow> bool \<Rightarrow> bool" where
  "gate_allows l learned has_acceptance_criteria =
     (case (l, learned) of
        (Auto, KeepAsking) \<Rightarrow> True
      | (Auto, AutoApprove _ _) \<Rightarrow> True
      | (Ask, AutoApprove _ _) \<Rightarrow> True
      | (Auto, PreflightFix _ _) \<Rightarrow> has_acceptance_criteria
      | _ \<Rightarrow> False)"

section \<open>State and configuration\<close>

record approvals =
  ap_samples :: "approval_sample list"
  ap_ask_again :: "string list"
  ap_auto_approved_at :: "string \<rightharpoonup> string"
  ap_decisions :: "string list"

record adaptive_config =
  ac_enabled :: bool
  ac_undo_window_minutes :: nat
  ac_learn_after_samples :: nat
  ac_max_auto_per_cycle :: nat

definition undo_window_minutes :: "adaptive_config \<Rightarrow> nat" where
  "undo_window_minutes c = (if ac_undo_window_minutes c = 0 then 30 else ac_undo_window_minutes c)"

definition learn_after_samples :: "adaptive_config \<Rightarrow> nat" where
  "learn_after_samples c = (if ac_learn_after_samples c = 0 then 8 else ac_learn_after_samples c)"

definition max_auto_per_cycle :: "adaptive_config \<Rightarrow> nat" where
  "max_auto_per_cycle c = (if ac_max_auto_per_cycle c = 0 then 3 else ac_max_auto_per_cycle c)"

definition shipped_of :: "project_state \<Rightarrow> string \<Rightarrow> nat" where
  "shipped_of s shape =
     length (filter (\<lambda>t. tk_status t \<in> {Done, Documented, Verified} \<and> shape_key t = shape) (st_tickets s))"

definition was_parked :: "project_state \<Rightarrow> ticket_id \<Rightarrow> bool" where
  "was_parked s i \<longleftrightarrow> st_ticket_fail_attempts s (ticket_id_str i) \<noteq> None"

section \<open>The pass\<close>

definition APPROVALS_CHANNEL :: string where "APPROVALS_CHANNEL = ''approvals''"

definition awaits_approval :: "ticket \<Rightarrow> bool" where
  "awaits_approval t \<longleftrightarrow> tk_status t = Pending \<and> d_technical (tk_design t) \<noteq> None"

definition approval_notice :: "ticket_id \<Rightarrow> risk_verdict \<Rightarrow> string \<Rightarrow> string" where
  "approval_notice i v ttl =
     ''[bot] '' @ ticket_id_str i @ '' auto-approved - '' @ rk_why v @ '' (risk '' @ nat_str (nat (rk_score v))
     @ ''). '' @ ttl @ ''. Undo within 30 minutes if this needed a person.''"

record pass_state =
  pa_state :: project_state
  pa_approvals :: approvals
  pa_promoted :: "ticket_id list"
  pa_announced :: "string list"

text \<open>What the pass reads before its loop.\<close>

record pass_input =
  pi_cap :: nat
  pi_learn_after :: nat
  pi_samples :: "approval_sample list"
  pi_asked_again :: "string list"
  pi_shipped :: "string \<Rightarrow> nat"
  pi_parked :: "ticket_id \<Rightarrow> bool"
  pi_now :: string

definition promote :: "pass_input \<Rightarrow> ticket \<Rightarrow> risk_verdict \<Rightarrow> rule \<Rightarrow> pass_state \<Rightarrow> pass_state" where
  "promote inp t v learned p =
     (let i = tk_id t; a = pa_approvals p;
          news = [approval_notice i v (tk_title t)];
          (decisions, news) = (case announce (shape_key t) learned of
             Some msg \<Rightarrow> if msg \<in> set (ap_decisions a) then (ap_decisions a, news)
                         else (ap_decisions a @ [msg], news @ [msg])
           | None \<Rightarrow> (ap_decisions a, news))
      in p\<lparr>pa_approvals := a\<lparr>ap_auto_approved_at := (ap_auto_approved_at a)(ticket_id_str i \<mapsto> pi_now inp),
                              ap_decisions := decisions\<rparr>,
           pa_promoted := pa_promoted p @ [i], pa_announced := pa_announced p @ news\<rparr>)"

fun approve_loop :: "pass_input \<Rightarrow> ticket_id list \<Rightarrow> pass_state \<Rightarrow> pass_state" where
  "approve_loop inp [] p = p"
| "approve_loop inp (i # is) p =
     (if length (pa_promoted p) \<ge> pi_cap inp then p
      else case ticket (pa_state p) i of
        None \<Rightarrow> approve_loop inp is p
      | Some t \<Rightarrow>
          (let shape = shape_key t;
               v = assess t (pi_shipped inp shape) (pi_parked inp i);
               learned = rule_for shape (pi_samples inp) (pi_learn_after inp)
           in if shape \<in> set (pi_asked_again inp) then approve_loop inp is p
              else if \<not> gate_allows (rk_lane v) learned (tk_acceptance_criteria t \<noteq> []) then approve_loop inp is p
              else case transition_to System Ready t of
                (Inl _, _) \<Rightarrow> approve_loop inp is p
              | (Inr _, t') \<Rightarrow>
                  approve_loop inp is
                    (promote inp t v learned (p\<lparr>pa_state := with_ticket_mut i (\<lambda>_. t') (pa_state p)\<rparr>))))"

definition pass_input_of :: "adaptive_config \<Rightarrow> string \<Rightarrow> project_state \<Rightarrow> approvals \<Rightarrow> pass_input" where
  "pass_input_of cfg now s a =
     \<lparr>pi_cap = max_auto_per_cycle cfg, pi_learn_after = learn_after_samples cfg, pi_samples = ap_samples a,
      pi_asked_again = ap_ask_again a, pi_shipped = shipped_of s, pi_parked = was_parked s, pi_now = now\<rparr>"

definition approval_candidates :: "project_state \<Rightarrow> ticket_id list" where
  "approval_candidates s = map tk_id (filter awaits_approval (st_tickets s))"

definition approval_run :: "adaptive_config \<Rightarrow> string \<Rightarrow> project_state \<Rightarrow> approvals \<Rightarrow> pass_state" where
  "approval_run cfg now s a =
     approve_loop (pass_input_of cfg now s a) (approval_candidates s)
       \<lparr>pa_state = s, pa_approvals = a, pa_promoted = [], pa_announced = []\<rparr>"

fun post_all :: "(nat \<Rightarrow> string) \<Rightarrow> string \<Rightarrow> nat \<Rightarrow> string list \<Rightarrow> social \<Rightarrow> social" where
  "post_all mid now n [] s = s"
| "post_all mid now n (m # ms) s =
     post_all mid now (n + 1) ms (post_chat_in (mid n) now ''SYSTEM'' m APPROVALS_CHANNEL [] s)"

definition adaptive_approval_pass ::
  "adaptive_config \<Rightarrow> bool \<Rightarrow> (nat \<Rightarrow> string) \<Rightarrow> string \<Rightarrow> project_state \<Rightarrow> approvals \<Rightarrow> project_state \<times> approvals" where
  "adaptive_approval_pass cfg gate_ready mid now s a =
     (if \<not> gate_ready \<or> \<not> ac_enabled cfg then (s, a)
      else let p = approval_run cfg now s a; s' = pa_state p in
        (s'\<lparr>st_social := post_all mid now 0 (pa_announced p) (st_social s')\<rparr>, pa_approvals p))"

section \<open>The policy panel\<close>

definition effective_rule :: "bool \<Rightarrow> rule \<Rightarrow> string" where
  "effective_rule overridden learned =
     (if overridden \<or> \<not> (case learned of AutoApprove _ _ \<Rightarrow> True | _ \<Rightarrow> False) then ''ask'' else ''auto'')"

record gate_decision =
  gd_ticket :: string
  gd_title :: string
  gd_shape :: string
  gd_will_auto :: bool
  gd_driver :: string
  gd_risk_score :: int
  gd_risk_why :: string
  gd_blocked_by_override :: bool

definition decision_row :: "project_state \<Rightarrow> approvals \<Rightarrow> nat \<Rightarrow> ticket \<Rightarrow> gate_decision" where
  "decision_row s a learn_after t =
     (let shape = shape_key t;
          v = assess t (shipped_of s shape) (was_parked s (tk_id t));
          learned = rule_for shape (ap_samples a) learn_after;
          overridden = (shape \<in> set (ap_ask_again a));
          will_auto = (\<not> overridden \<and> gate_allows (rk_lane v) learned (tk_acceptance_criteria t \<noteq> []));
          driver = (if overridden then ''override''
            else if (case learned of AutoApprove _ _ \<Rightarrow> True | _ \<Rightarrow> False) then ''learned''
            else if (case learned of PreflightFix _ _ \<Rightarrow> True | _ \<Rightarrow> False) \<and> will_auto then ''preflight''
            else ''risk'')
      in \<lparr>gd_ticket = ticket_id_str (tk_id t), gd_title = tk_title t, gd_shape = shape,
          gd_will_auto = will_auto, gd_driver = driver, gd_risk_score = rk_score v, gd_risk_why = rk_why v,
          gd_blocked_by_override = overridden\<rparr>)"

definition deciding_rows :: "project_state \<Rightarrow> approvals \<Rightarrow> nat \<Rightarrow> gate_decision list" where
  "deciding_rows s a learn_after = map (decision_row s a learn_after) (filter awaits_approval (st_tickets s))"

text \<open>\<open>age at\<close> is the age of a timestamp in minutes, \<open>None\<close> when it cannot be told.\<close>

definition undo_lists ::
  "(string \<Rightarrow> nat option) \<Rightarrow> nat \<Rightarrow> (string \<times> string) list \<Rightarrow> project_state
    \<Rightarrow> (string \<times> string \<times> nat) list \<times> (string \<times> string \<times> string \<times> nat option) list" where
  "undo_lists age undo_window stamped s =
     (let rows = List.map_filter (\<lambda>(i, tm). map_option (\<lambda>t. (i, shape_key t, tm, age tm))
            (find (\<lambda>t. ticket_id_str (tk_id t) = i) (st_tickets s))) stamped;
          pullable = (\<lambda>(i, shape, tm, m). case m of Some m \<Rightarrow> m \<le> undo_window | None \<Rightarrow> False)
      in (map (\<lambda>(i, shape, tm, m). (i, shape, undo_window - the m)) (filter pullable rows),
          filter (\<lambda>r. \<not> pullable r) rows))"

section \<open>Facts about the parts\<close>

lemma assess_lane:
  "rk_lane (assess t n parked) = Auto \<longleftrightarrow>
     \<not> hard_ask t \<and> rk_score (assess t n parked) \<le> 35"
  by (simp add: assess_def Let_def)

lemma assess_score_bounds: "0 \<le> rk_score (assess t n parked) \<and> rk_score (assess t n parked) \<le> 100"
  by (simp add: assess_def Let_def)

text \<open>Prior art never raises the risk, and more than six similar tickets count as six.\<close>

lemma assess_prior_art:
  "m \<le> n \<Longrightarrow> rk_score (assess t n parked) \<le> rk_score (assess t m parked)"
  "rk_score (assess t (n + 6) parked) = rk_score (assess t 6 parked)"
proof -
  have mono: "max 0 (min 100 (b - int (min n 6) * 5)) \<le> max 0 (min 100 (b - int (min m 6) * 5))"
    if "m \<le> n" for b
    using that by (intro max.mono min.mono) auto
  show "rk_score (assess t n parked) \<le> rk_score (assess t m parked)" if "m \<le> n"
    using mono [OF that] by (simp add: assess_def Let_def)
  show "rk_score (assess t (n + 6) parked) = rk_score (assess t 6 parked)"
    by (simp add: assess_def Let_def)
qed

lemma shape_key_cases:
  "\<exists>k \<in> set SHAPE_KINDS. \<exists>c \<in> set SHAPE_COMPLEXITIES. shape_key t = k @ ''/'' @ c"
proof -
  have lower: "to_lowercase (k @ ''/'' @ complexity_debug c) = k @ ''/'' @ to_lowercase (complexity_debug c)"
    if "k \<in> set SHAPE_KINDS" for k c
  proof -
    have "\<forall>k \<in> set SHAPE_KINDS. to_lowercase (k @ ''/'') = k @ ''/''" by code_simp
    with that show ?thesis by (simp add: to_lowercase_def)
  qed
  have "\<forall>c \<in> set [Small, CMedium, Large]. to_lowercase (complexity_debug c) \<in> set SHAPE_COMPLEXITIES"
    by code_simp
  then have "to_lowercase (complexity_debug c) \<in> set SHAPE_COMPLEXITIES" for c by (cases c) auto
  moreover define k where "k = (if title_is_testish (tk_title t) then ''test'' else if title_is_docish (tk_title t) then ''docs''
      else case tk_kind t of Bug \<Rightarrow> ''bug'' | Chore \<Rightarrow> ''chore'' | Feature \<Rightarrow> ''feature'')"
  then have "k \<in> set SHAPE_KINDS" "shape_key t = to_lowercase (k @ ''/'' @ complexity_debug (tk_complexity t))"
    by (simp_all only: shape_key_def) (simp add: SHAPE_KINDS_def split: ticket_type.split)
  ultimately show ?thesis using lower by metis
qed

lemma shape_parts:
  assumes "k \<in> set SHAPE_KINDS" and "c \<in> set SHAPE_COMPLEXITIES"
  shows "is_valid_shape (k @ ''/'' @ c)"
proof -
  have "\<forall>k \<in> set SHAPE_KINDS. \<forall>c \<in> set SHAPE_COMPLEXITIES. is_valid_shape (k @ ''/'' @ c)" by code_simp
  with assms show ?thesis by blast
qed

lemma rule_for_auto:
  "rule_for shape samples n = AutoApprove who k \<Longrightarrow>
    k = length (filter (\<lambda>s. as_shape s = shape \<and> as_decision s = ''approve'') samples) \<and> max n 1 \<le> k
    \<and> (\<forall>s \<in> set samples. as_shape s = shape \<longrightarrow> as_decision s \<noteq> ''undo'' \<and> as_decision s \<noteq> ''reject'')"
  by (auto simp: rule_for_def Let_def filter_empty_conv conj_commute cong: conj_cong split: if_splits option.splits)

section \<open>The pass follows the panel\<close>

definition readied :: "ticket \<Rightarrow> ticket" where
  "readied t = snd (transition_to System Ready t)"

definition promotable :: "project_state \<Rightarrow> approvals \<Rightarrow> nat \<Rightarrow> ticket \<Rightarrow> bool" where
  "promotable s a n t \<longleftrightarrow> gd_will_auto (decision_row s a n t) \<and> \<not> isl (fst (transition_to System Ready t))"

lemma readied_id [simp]: "tk_id (readied t) = tk_id t"
  by (auto simp: readied_def transition_to_def Let_def split: sum.split)

lemma update_first_distinct:
  assumes "distinct (map key xs)" and "find (\<lambda>x. key x = i) xs = Some t"
  shows "update_first (\<lambda>x. key x = i) (\<lambda>_. f t) xs = map (\<lambda>x. if key x = i then f x else x) xs"
  using assms
proof (induction xs)
  case (Cons x xs)
  show ?case
  proof (cases "key x = i")
    case True
    then have "i \<notin> key ` set xs" using Cons.prems(1) by auto
    then have "map (\<lambda>x. if key x = i then f x else x) xs = xs" by (intro map_idI) auto
    with True Cons.prems(2) show ?thesis by simp
  qed (use Cons in simp)
qed simp

lemma approve_step:
  assumes "inp = pass_input_of cfg now s a" and "ticket (pa_state p) (tk_id t) = Some t"
    and "length (pa_promoted p) < pi_cap inp"
  shows "\<exists>p'. approve_loop inp (tk_id t # is) p = approve_loop inp is p'
    \<and> (if promotable s a (learn_after_samples cfg) t
       then pa_promoted p' = pa_promoted p @ [tk_id t]
         \<and> pa_state p' = with_ticket_mut (tk_id t) (\<lambda>_. readied t) (pa_state p)
       else p' = p)"
proof -
  obtain r t' where tr: "transition_to System Ready t = (r, t')" by fastforce
  show ?thesis
  proof (cases "promotable s a (learn_after_samples cfg) t")
    case True
    then have "r = Inr ()" using tr by (cases r) (simp_all add: promotable_def)
    with True tr assms show ?thesis
      by (auto simp: promotable_def decision_row_def Let_def pass_input_of_def promote_def readied_def split: prod.split)
  next
    case False
    with tr assms show ?thesis
      by (intro exI [of _ p], cases r)
        (auto simp: promotable_def decision_row_def Let_def pass_input_of_def split: sum.splits)
  qed
qed

lemma approve_loop_exact:
  assumes "inp = pass_input_of cfg now s a" and "distinct (map tk_id ts)"
    and "\<forall>t \<in> set ts. ticket (pa_state p) (tk_id t) = Some t" and "distinct (map tk_id (st_tickets (pa_state p)))"
    and "ids = map tk_id (take (pi_cap inp - length (pa_promoted p)) (filter (promotable s a (learn_after_samples cfg)) ts))"
  shows "pa_promoted (approve_loop inp (map tk_id ts) p) = pa_promoted p @ ids
    \<and> st_tickets (pa_state (approve_loop inp (map tk_id ts) p)) =
        map (\<lambda>t. if tk_id t \<in> set ids then readied t else t) (st_tickets (pa_state p))"
  using assms(2-5)
proof (induction ts arbitrary: p ids)
  case Nil
  then show ?case by simp
next
  case (Cons t ts)
  let ?ok = "promotable s a (learn_after_samples cfg)"
  show ?case
  proof (cases "length (pa_promoted p) < pi_cap inp")
    case False
    with Cons.prems(4) show ?thesis by simp
  next
    case True
    have t: "ticket (pa_state p) (tk_id t) = Some t" using Cons.prems(2) by simp
    from approve_step [OF assms(1) t True, of "map tk_id ts"] obtain p' where
      p': "approve_loop inp (map tk_id (t # ts)) p = approve_loop inp (map tk_id ts) p'"
        "if ?ok t then pa_promoted p' = pa_promoted p @ [tk_id t]
            \<and> pa_state p' = with_ticket_mut (tk_id t) (\<lambda>_. readied t) (pa_state p) else p' = p" by auto
    show ?thesis
    proof (cases "?ok t")
      case False
      with Cons p' show ?thesis by simp
    next
      case ok: True
      let ?ids = "map tk_id (take (pi_cap inp - length (pa_promoted p')) (filter ?ok ts))"
      have st: "st_tickets (pa_state p') = map (\<lambda>x. if tk_id x = tk_id t then readied x else x) (st_tickets (pa_state p))"
        using p'(2) ok t Cons.prems(3)
        by (simp add: with_ticket_mut_def ticket_def update_first_distinct)
      have "ticket (pa_state p') (tk_id u) = Some u" if "u \<in> set ts" for u
      proof -
        have "tk_id t \<notin> tk_id ` set ts" using Cons.prems(1) by simp
        with that have "tk_id u \<noteq> tk_id t" by (metis imageI)
        then have "ticket (pa_state p') (tk_id u) = ticket (pa_state p) (tk_id u)"
          using p'(2) ok by (simp add: with_ticket_mut_def ticket_def, intro find_update_first_other) auto
        with Cons.prems(2) that show ?thesis by simp
      qed
      moreover have "distinct (map tk_id (st_tickets (pa_state p')))"
        using Cons.prems(3) by (simp add: st o_def if_distrib cong: if_cong)
      ultimately have ih: "pa_promoted (approve_loop inp (map tk_id ts) p') = pa_promoted p' @ ?ids"
        "st_tickets (pa_state (approve_loop inp (map tk_id ts) p')) =
          map (\<lambda>x. if tk_id x \<in> set ?ids then readied x else x) (st_tickets (pa_state p'))"
        using Cons.IH [of p' ?ids] Cons.prems(1) by auto
      have ids: "ids = tk_id t # ?ids"
        using Cons.prems(4) ok True p'(2) by (simp add: take_Cons' Suc_diff_Suc)
      have "tk_id t \<notin> set ?ids" using Cons.prems(1) by (auto dest!: in_set_takeD)
      then have res: "map (\<lambda>x. if tk_id x \<in> set ?ids then readied x else x)
          (map (\<lambda>x. if tk_id x = tk_id t then readied x else x) us) =
          map (\<lambda>x. if tk_id x \<in> set ids then readied x else x) us" for us
        by (auto simp: ids)
      have "pa_promoted p' @ ?ids = pa_promoted p @ ids" using p'(2) ok ids by simp
      then show ?thesis unfolding p'(1) ih st res by simp
    qed
  qed
qed

end
