(* ===== verification/Approval_Properties.thy ===== *)
theory Approval_Properties
  imports Approval
begin

text \<open>
  Properties of the adaptive approval gate: the pass does what the panel shows, the floors of the
  risk score, what a learned rule needs, and where the floors do not hold.
\<close>

lemma pass_promotes:
  assumes "distinct (map tk_id (st_tickets s))"
    and "ids = map tk_id (take (max_auto_per_cycle cfg)
      (filter (\<lambda>t. awaits_approval t \<and> promotable s a (learn_after_samples cfg) t) (st_tickets s)))"
  shows "pa_promoted (approval_run cfg now s a) = ids
    \<and> st_tickets (pa_state (approval_run cfg now s a)) =
        map (\<lambda>t. if tk_id t \<in> set ids then readied t else t) (st_tickets s)"
proof -
  let ?inp = "pass_input_of cfg now s a" and ?ts = "filter awaits_approval (st_tickets s)"
  let ?p = "\<lparr>pa_state = s, pa_approvals = a, pa_promoted = [], pa_announced = []\<rparr>"
  have "distinct (map tk_id ?ts)" using assms(1) by (rule distinct_map_filter)
  moreover have "ticket s (tk_id t) = Some t" if "t \<in> set (st_tickets s)" for t
    using find_distinct [OF assms(1) that] by (simp add: ticket_def)
  moreover have "ids = map tk_id (take (pi_cap ?inp - 0) (filter (promotable s a (learn_after_samples cfg)) ?ts))"
    by (simp add: assms(2) pass_input_of_def conj_commute)
  ultimately show ?thesis
    using approve_loop_exact [of ?inp cfg now s a ?ts ?p ids] assms(1)
    by (simp add: approval_run_def approval_candidates_def)
qed

text \<open>
  C38. The pass does what the panel shows: it moves to \<open>Ready\<close> exactly the first tickets, up to the
  cap, whose panel row says that they will be approved and whose designs are complete, and it
  changes no other ticket; with the gate off it changes nothing.
\<close>

theorem adaptive_pass_follows_panel:
  assumes "distinct (map tk_id (st_tickets s))"
  shows "st_tickets (fst (adaptive_approval_pass cfg gate_ready mid now s a)) =
    (if gate_ready \<and> ac_enabled cfg
     then map (\<lambda>t. if tk_id t \<in> set (map tk_id (take (max_auto_per_cycle cfg)
          (filter (\<lambda>t. awaits_approval t \<and> gd_will_auto (decision_row s a (learn_after_samples cfg) t)
             \<and> \<not> isl (fst (transition_to System Ready t))) (st_tickets s))))
        then snd (transition_to System Ready t) else t) (st_tickets s)
     else st_tickets s)"
  using pass_promotes [OF assms refl, where cfg = cfg and a = a and now = now]
  by (simp add: adaptive_approval_pass_def Let_def promotable_def readied_def)

definition designed :: "string \<Rightarrow> ticket_type \<Rightarrow> complexity \<Rightarrow> ticket" where
  "designed i k c =
     (case ticket_new (TicketId i) k ''A'' ''d'' High c False of
        Inr t \<Rightarrow> t\<lparr>tk_design := (tk_design t)\<lparr>d_technical := Some technical_design_default\<rparr>\<rparr>)"

definition sample_board :: project_state where
  "sample_board = project_state_default\<lparr>st_tickets := [designed ''F1'' Feature Large, designed ''C2'' Chore Small]\<rparr>"

definition no_approvals :: approvals where
  "no_approvals = \<lparr>ap_samples = [], ap_ask_again = [], ap_auto_approved_at = Map.empty, ap_decisions = []\<rparr>"

definition sample_config :: adaptive_config where
  "sample_config = \<lparr>ac_enabled = True, ac_undo_window_minutes = 0, ac_learn_after_samples = 0, ac_max_auto_per_cycle = 0\<rparr>"

theorem adaptive_pass_follows_panel_witness:
  "map tk_status (st_tickets (fst (adaptive_approval_pass sample_config True nat_str [] sample_board no_approvals)))
     = [Pending, Ready]"
proof -
  have "distinct (map tk_id (st_tickets sample_board))" by code_simp
  from adaptive_pass_follows_panel [OF this, of sample_config True nat_str "[]" no_approvals]
  have "map tk_status (st_tickets (fst (adaptive_approval_pass sample_config True nat_str [] sample_board no_approvals)))
    = map tk_status (if True \<and> ac_enabled sample_config
     then map (\<lambda>t. if tk_id t \<in> set (map tk_id (take (max_auto_per_cycle sample_config)
          (filter (\<lambda>t. awaits_approval t \<and> gd_will_auto (decision_row sample_board no_approvals (learn_after_samples sample_config) t)
             \<and> \<not> isl (fst (transition_to System Ready t))) (st_tickets sample_board))))
        then snd (transition_to System Ready t) else t) (st_tickets sample_board)
     else st_tickets sample_board)" by (simp only:)
  also have "\<dots> = [Pending, Ready]" by code_simp
  finally show ?thesis .
qed

text \<open>
  A learned rule overrides the floors: a large ticket, or one that touches build and deploy
  configuration, whose shape people have approved often enough is moved to \<open>Ready\<close> without a
  person, although its risk lane is \<open>Ask\<close> whatever the history.
\<close>

theorem learned_rule_overrides_floor:
  assumes "hard_ask t" and "st_tickets s = t # ts" and "distinct (map tk_id (st_tickets s))"
    and "awaits_approval t" and "\<not> isl (fst (transition_to System Ready t))"
    and "rule_for (shape_key t) (ap_samples a) (learn_after_samples cfg) = AutoApprove who k"
    and "shape_key t \<notin> set (ap_ask_again a)" and "ac_enabled cfg"
  shows "(\<forall>n parked. rk_lane (assess t n parked) = Ask)
    \<and> tk_status (hd (st_tickets (fst (adaptive_approval_pass cfg True mid now s a)))) = Ready"
proof -
  have lane: "rk_lane (assess t n parked) = Ask" for n parked using assms(1) by (simp add: assess_def Let_def)
  then have auto: "gd_will_auto (decision_row s a (learn_after_samples cfg) t)"
    using assms(6,7) by (simp add: decision_row_def Let_def gate_allows_def)
  obtain n where "max_auto_per_cycle cfg = Suc n" by (cases "max_auto_per_cycle cfg") (auto simp: max_auto_per_cycle_def split: if_splits)
  then have "hd (st_tickets (fst (adaptive_approval_pass cfg True mid now s a))) = snd (transition_to System Ready t)"
    using adaptive_pass_follows_panel [OF assms(3), of cfg True mid now a] assms(2,4,5,8) auto by simp
  moreover have "tk_status (snd (transition_to System Ready t)) = Ready"
    using assms(5) by (auto simp: transition_to_def Let_def split: if_splits sum.splits)
  ultimately show ?thesis using lane by simp
qed

definition eight_approvals :: approvals where
  "eight_approvals = no_approvals\<lparr>ap_samples := replicate 8
     \<lparr>as_shape = ''feature/large'', as_decision = ''approve'', as_by = ''ana'', as_reason = [], as_at = ''t''\<rparr>\<rparr>"

theorem learned_rule_overrides_floor_witness:
  "tk_status (hd (st_tickets (fst (adaptive_approval_pass sample_config True nat_str [] sample_board eight_approvals)))) = Ready"
proof -
  let ?t = "designed ''F1'' Feature Large"
  have "hard_ask ?t" "distinct (map tk_id (st_tickets sample_board))" "awaits_approval ?t"
    "\<not> isl (fst (transition_to System Ready ?t))"
    "rule_for (shape_key ?t) (ap_samples eight_approvals) (learn_after_samples sample_config) = AutoApprove ''ana'' 8"
    "shape_key ?t \<notin> set (ap_ask_again eight_approvals)" "ac_enabled sample_config"
    by code_simp+
  moreover have "st_tickets sample_board = ?t # [designed ''C2'' Chore Small]" by (simp add: sample_board_def)
  ultimately show ?thesis
    using learned_rule_overrides_floor [of ?t sample_board "[designed ''C2'' Chore Small]" eight_approvals sample_config "''ana''" 8 nat_str "[]"]
    by blast
qed

text \<open>
  The risk score alone respects its floors and bounds: it lies between 0 and 100, large or
  sensitive work is never in the automatic lane, prior art never raises the score, and more than
  six similar tickets count as six.
\<close>

theorem risk_score_bounds:
  "0 \<le> rk_score (assess t n parked) \<and> rk_score (assess t n parked) \<le> 100
   \<and> (rk_lane (assess t n parked) = Auto \<longleftrightarrow> \<not> hard_ask t \<and> rk_score (assess t n parked) \<le> 35)
   \<and> rk_score (assess t (n + m) parked) \<le> rk_score (assess t n parked)
   \<and> rk_score (assess t (m + 6) parked) = rk_score (assess t 6 parked)"
  using assess_score_bounds [of t n parked] assess_lane [of t n parked]
    assess_prior_art(1) [of n "n + m" t parked] assess_prior_art(2) [of t m parked] by simp

text \<open>
  Every ticket has a well-formed shape: the shape key of any ticket, whatever its title, is
  one of the fifteen keys the policy surface accepts, so an override of it can always be stored.
\<close>

theorem shape_key_valid: "is_valid_shape (shape_key t)"
  using shape_key_cases [of t] shape_parts by auto

text \<open>
  A rule is learned from unanimous decisions only: automatic approval needs at least the
  configured number of approvals of the shape and not one rejection or undo of it, whoever made
  them; one undo keeps the shape asking whatever decisions are recorded after it.
\<close>

theorem rule_needs_unanimity:
  assumes "rule_for shape samples n = AutoApprove who k"
  shows "k = length (filter (\<lambda>s. as_shape s = shape \<and> as_decision s = ''approve'') samples) \<and> max n 1 \<le> k
    \<and> (\<forall>s \<in> set samples. as_shape s = shape \<longrightarrow> as_decision s \<noteq> ''undo'' \<and> as_decision s \<noteq> ''reject'')
    \<and> rule_for shape (samples @ \<lparr>as_shape = shape, as_decision = ''undo'', as_by = w, as_reason = r, as_at = tm\<rparr> # later) n = KeepAsking"
  using rule_for_auto [OF assms] by (simp add: rule_for_def Let_def)

theorem rule_needs_unanimity_witness:
  "rule_for ''feature/large'' (ap_samples eight_approvals
     @ [\<lparr>as_shape = ''feature/large'', as_decision = ''undo'', as_by = ''bob'', as_reason = [], as_at = ''t''\<rparr>]) 8 = KeepAsking"
proof -
  have "rule_for ''feature/large'' (ap_samples eight_approvals) 8 = AutoApprove ''ana'' 8" by code_simp
  from rule_needs_unanimity [OF this] show ?thesis by simp
qed

end
