(* ===== verification/Integrity.thy ===== *)
theory Integrity
  imports Dependency_Graph Complex_Main
begin

text \<open>
  The structural-integrity audit of the persisted document and its self-heal
  (\<open>application/src/state/integrity.rs\<close>), and the gate every save passes
  (\<open>gate_save\<close> and the quarantine ledger in \<open>infrastructure/src/state/quarantine.rs\<close>).

  The record \<open>document\<close> is the document as it is written: the project state, the ids of the wiki
  pages, and the ticket-keyed maps as lists in the order of their keys, with values of an opaque
  type \<open>'v\<close>. Money is rational, with \<open>show_usd\<close> its text; \<open>payload\<close> stands for the JSON of the
  document. A long dash in a message is written \<open>-\<close>.
\<close>

section \<open>Data\<close>

definition DUPLICATE_TICKET_ID :: string where "DUPLICATE_TICKET_ID = ''duplicate_ticket_id''"
definition DUPLICATE_DOC_ID :: string where "DUPLICATE_DOC_ID = ''duplicate_doc_id''"
definition DUPLICATE_CHANNEL_ID :: string where "DUPLICATE_CHANNEL_ID = ''duplicate_channel_id''"
definition DUPLICATE_COMMENT_ID :: string where "DUPLICATE_COMMENT_ID = ''duplicate_comment_id''"
definition DUPLICATE_CHAT_ID :: string where "DUPLICATE_CHAT_ID = ''duplicate_chat_id''"
definition DUPLICATE_PLANNED_SPRINT_ID :: string where "DUPLICATE_PLANNED_SPRINT_ID = ''duplicate_planned_sprint_id''"
definition DANGLING_TICKET_REFERENCE :: string where "DANGLING_TICKET_REFERENCE = ''dangling_ticket_reference''"
definition DEPLOY_INDEX_REGRESSION :: string where "DEPLOY_INDEX_REGRESSION = ''deploy_index_regression''"
definition NEGATIVE_SPEND :: string where "NEGATIVE_SPEND = ''negative_spend''"

record integrity_finding =
  if_rule_id :: string
  if_ticket_id :: "string option"
  if_detail :: string

record 'v document =
  dc_state :: project_state
  dc_docs :: "string list"
  dc_hold_reasons :: "(string \<times> 'v) list"
  dc_ticket_attachments :: "(string \<times> 'v) list"
  dc_cost_holds :: "(string \<times> 'v) list"
  dc_ticket_evidence :: "(string \<times> 'v) list"
  dc_ticket_last_merge :: "(string \<times> 'v) list"
  dc_ticket_redesigns :: "(string \<times> 'v) list"
  dc_ticket_fail_attempts :: "(string \<times> 'v) list"
  dc_auto_approved_at :: "(string \<times> 'v) list"
  dc_ticket_journal :: "(string \<times> 'v) list"
  dc_ticket_failures :: "(string \<times> 'v) list"
  dc_swept_tickets :: "string list"
  dc_cost_approved :: "string list"
  dc_ticket_sessions :: "(string \<times> 'v) list"
  dc_deploy_index :: nat
  dc_last_good_deploy :: "nat option"
  dc_spend_total :: rat
  dc_spend_today :: rat
  dc_spend_by_role :: "rat list"
  dc_spend_metered :: "rat list"
  dc_spend_by_operator :: "rat list"

section \<open>The audit\<close>

text \<open>Ids that appear more than once, in the order of their second appearance.\<close>

fun duplicates_from :: "string set \<Rightarrow> string list \<Rightarrow> string list \<Rightarrow> string list" where
  "duplicates_from seen dupes [] = dupes"
| "duplicates_from seen dupes (i # is) =
     duplicates_from (insert i seen) (if i \<in> seen \<and> i \<notin> set dupes then dupes @ [i] else dupes) is"

definition duplicates :: "string list \<Rightarrow> string list" where
  "duplicates is = duplicates_from {} [] is"

definition ticket_ids :: "'v document \<Rightarrow> string list" where
  "ticket_ids d = map (\<lambda>t. ticket_id_str (tk_id t)) (st_tickets (dc_state d))"

definition dup_findings :: "string \<Rightarrow> bool \<Rightarrow> string \<Rightarrow> string list \<Rightarrow> integrity_finding list" where
  "dup_findings rule names_ticket what is =
     map (\<lambda>i. \<lparr>if_rule_id = rule, if_ticket_id = (if names_ticket then Some i else None),
                if_detail = what @ '' '' @ i @ '' appears more than once''\<rparr>) (duplicates is)"

definition audit_id_uniqueness :: "'v document \<Rightarrow> integrity_finding list" where
  "audit_id_uniqueness d =
     (let s = dc_state d in
      dup_findings DUPLICATE_TICKET_ID True ''ticket id'' (ticket_ids d)
      @ dup_findings DUPLICATE_DOC_ID False ''doc id'' (dc_docs d)
      @ dup_findings DUPLICATE_CHANNEL_ID False ''channel id'' (map cn_id (so_channels (st_social s)))
      @ dup_findings DUPLICATE_COMMENT_ID False ''comment id'' (map cm_id (so_comments (st_social s)))
      @ dup_findings DUPLICATE_CHAT_ID False ''chat message id'' (map ch_id (so_chat (st_social s)))
      @ dup_findings DUPLICATE_PLANNED_SPRINT_ID False ''planned sprint id''
          (map (\<lambda>p. nat_str (ps_id p)) (st_sprint_queue s)))"

definition dangling :: "string \<Rightarrow> string \<Rightarrow> integrity_finding" where
  "dangling m key =
     \<lparr>if_rule_id = DANGLING_TICKET_REFERENCE, if_ticket_id = Some key,
      if_detail = m @ '' references missing ticket '' @ key\<rparr>"

definition flag_dangling :: "string \<Rightarrow> string list \<Rightarrow> string list \<Rightarrow> integrity_finding list" where
  "flag_dangling m keys tickets = map (dangling m) (filter (\<lambda>k. k \<notin> set tickets) keys)"

definition session_ticket :: "string \<Rightarrow> string" where
  "session_ticket key = hd (split_on (\<lambda>c. c = CHR ''/'') key)"

definition audit_ticket_references :: "'v document \<Rightarrow> integrity_finding list" where
  "audit_ticket_references d =
     (let ts = ticket_ids d; keys = map fst in
      flag_dangling ''hold_reasons'' (keys (dc_hold_reasons d)) ts
      @ flag_dangling ''ticket_attachments'' (keys (dc_ticket_attachments d)) ts
      @ flag_dangling ''cost_holds'' (keys (dc_cost_holds d)) ts
      @ flag_dangling ''ticket_evidence'' (keys (dc_ticket_evidence d)) ts
      @ flag_dangling ''ticket_last_merge'' (keys (dc_ticket_last_merge d)) ts
      @ flag_dangling ''ticket_redesigns'' (keys (dc_ticket_redesigns d)) ts
      @ flag_dangling ''ticket_fail_attempts'' (keys (dc_ticket_fail_attempts d)) ts
      @ flag_dangling ''auto_approved_at'' (keys (dc_auto_approved_at d)) ts
      @ flag_dangling ''ticket_journal'' (keys (dc_ticket_journal d)) ts
      @ flag_dangling ''ticket_failures'' (keys (dc_ticket_failures d)) ts
      @ flag_dangling ''swept_tickets'' (dc_swept_tickets d) ts
      @ flag_dangling ''cost_approved'' (dc_cost_approved d) ts
      @ map (dangling ''ticket_sessions'') (filter (\<lambda>k. session_ticket k \<notin> set ts) (keys (dc_ticket_sessions d))))"

definition audit_counters :: "'v document \<Rightarrow> integrity_finding list" where
  "audit_counters d =
     (case dc_last_good_deploy d of
        Some good \<Rightarrow>
          if good > dc_deploy_index d
          then [\<lparr>if_rule_id = DEPLOY_INDEX_REGRESSION, if_ticket_id = None,
                 if_detail = ''deploy_index '' @ nat_str (dc_deploy_index d) @ '' is behind last_good_deploy index ''
                   @ nat_str good @ '' - the deploy ordinal rolled back''\<rparr>]
          else []
      | None \<Rightarrow> [])"

definition audit_spend :: "(rat \<Rightarrow> string) \<Rightarrow> 'v document \<Rightarrow> integrity_finding list" where
  "audit_spend show_usd d =
     (if dc_spend_total d < 0 \<or> dc_spend_today d < 0
      then [\<lparr>if_rule_id = NEGATIVE_SPEND, if_ticket_id = None,
             if_detail = ''negative spend: total '' @ show_usd (dc_spend_total d) @ '', today '' @ show_usd (dc_spend_today d)\<rparr>]
      else [])
     @ (if (\<exists>v \<in> set (dc_spend_by_role d @ dc_spend_metered d). v < 0) \<or> (\<exists>v \<in> set (dc_spend_by_operator d). v < 0)
        then [\<lparr>if_rule_id = NEGATIVE_SPEND, if_ticket_id = None,
               if_detail = ''negative per-role or per-operator spend''\<rparr>]
        else [])"

definition audit_structural_integrity :: "(rat \<Rightarrow> string) \<Rightarrow> 'v document \<Rightarrow> integrity_finding list" where
  "audit_structural_integrity show_usd d =
     audit_id_uniqueness d @ audit_ticket_references d @ audit_counters d @ audit_spend show_usd d"

definition integrity_check :: "(rat \<Rightarrow> string) \<Rightarrow> 'v document \<Rightarrow> integrity_finding list + unit" where
  "integrity_check show_usd d =
     (let fs = audit_structural_integrity show_usd d in if fs = [] then Inr () else Inl fs)"

section \<open>Healing\<close>

definition keep_live :: "string list \<Rightarrow> (string \<times> 'v) list \<Rightarrow> (string \<times> 'v) list" where
  "keep_live ts m = filter (\<lambda>(k, _). k \<in> set ts) m"

text \<open>The healed document, and the number of entries \<open>drop_dangling\<close> removed.\<close>

definition healed :: "'v document \<Rightarrow> 'v document" where
  "healed d =
     (let ts = ticket_ids d in
      d\<lparr>dc_hold_reasons := keep_live ts (dc_hold_reasons d),
        dc_ticket_attachments := keep_live ts (dc_ticket_attachments d),
        dc_cost_holds := keep_live ts (dc_cost_holds d),
        dc_ticket_evidence := keep_live ts (dc_ticket_evidence d),
        dc_ticket_last_merge := keep_live ts (dc_ticket_last_merge d),
        dc_ticket_redesigns := keep_live ts (dc_ticket_redesigns d),
        dc_ticket_fail_attempts := keep_live ts (dc_ticket_fail_attempts d),
        dc_auto_approved_at := keep_live ts (dc_auto_approved_at d),
        dc_ticket_journal := keep_live ts (dc_ticket_journal d),
        dc_ticket_failures := keep_live ts (dc_ticket_failures d),
        dc_swept_tickets := filter (\<lambda>k. k \<in> set ts) (dc_swept_tickets d),
        dc_cost_approved := filter (\<lambda>k. k \<in> set ts) (dc_cost_approved d),
        dc_ticket_sessions := filter (\<lambda>(k, _). session_ticket k \<in> set ts) (dc_ticket_sessions d)\<rparr>)"

definition ticket_maps :: "'v document \<Rightarrow> (string \<times> 'v) list list" where
  "ticket_maps d =
     [dc_hold_reasons d, dc_ticket_attachments d, dc_cost_holds d, dc_ticket_evidence d,
      dc_ticket_last_merge d, dc_ticket_redesigns d, dc_ticket_fail_attempts d, dc_auto_approved_at d,
      dc_ticket_journal d, dc_ticket_failures d]"

definition healed_count :: "'v document \<Rightarrow> nat" where
  "healed_count d = sum_list (map (\<lambda>m. length m - length (keep_live (ticket_ids d) m)) (ticket_maps d))"

definition heal_dangling_references ::
  "(rat \<Rightarrow> string) \<Rightarrow> 'v document \<Rightarrow> (integrity_finding list + nat) \<times> 'v document" where
  "heal_dangling_references show_usd d =
     (let before = audit_structural_integrity show_usd d in
      if before = [] then (Inr 0, d)
      else if \<exists>f \<in> set before. if_rule_id f \<noteq> DANGLING_TICKET_REFERENCE then (Inl before, d)
      else let after = audit_structural_integrity show_usd (healed d) in
        if after \<noteq> [] then (Inl after, healed d) else (Inr (healed_count d), healed d))"

section \<open>The gate at the write boundary\<close>

record quarantine_entry =
  qe_at :: string
  qe_rule_id :: string
  qe_detail :: string
  qe_payload :: string

definition MAX_QUARANTINE :: nat where "MAX_QUARANTINE = 50"
definition MAX_PAYLOAD_CHARS :: nat where "MAX_PAYLOAD_CHARS = 20000"

definition violation_str :: "integrity_finding list \<Rightarrow> string" where
  "violation_str fs =
     ''structural integrity audit failed ('' @ nat_str (length fs) @ ''):''
     @ concat (map (\<lambda>f. '' ['' @ if_rule_id f @ ''] '' @ if_detail f) fs)"

definition refusal_entry :: "string \<Rightarrow> integrity_finding list \<Rightarrow> string \<Rightarrow> quarantine_entry" where
  "refusal_entry now fs payload =
     \<lparr>qe_at = now, qe_rule_id = (case fs of [] \<Rightarrow> [] | f # _ \<Rightarrow> if_rule_id f),
      qe_detail = take 2000 (violation_str fs), qe_payload = take MAX_PAYLOAD_CHARS payload\<rparr>"

definition record_refusal ::
  "string \<Rightarrow> integrity_finding list \<Rightarrow> string \<Rightarrow> quarantine_entry list \<Rightarrow> quarantine_entry \<times> quarantine_entry list" where
  "record_refusal now fs payload ledger =
     (refusal_entry now fs payload, keep_newest MAX_QUARANTINE (ledger @ [refusal_entry now fs payload]))"

datatype save_error = Corrupt string

text \<open>The result is the error with the quarantined entry, if any; then the document and the ledger.\<close>

definition gate_save ::
  "(rat \<Rightarrow> string) \<Rightarrow> ('v document \<Rightarrow> string) \<Rightarrow> string \<Rightarrow> 'v document \<Rightarrow> quarantine_entry list
    \<Rightarrow> (save_error \<times> quarantine_entry option + unit) \<times> 'v document \<times> quarantine_entry list" where
  "gate_save show_usd payload now d ledger =
     (case validate (dc_state d) of
        Inl e \<Rightarrow> (Inl (Corrupt (''refusing to save invalid state: '' @ e), None), d, ledger)
      | Inr _ \<Rightarrow>
          (case integrity_check show_usd d of
             Inr _ \<Rightarrow> (Inr (), d, ledger)
           | Inl fs \<Rightarrow>
               (case heal_dangling_references show_usd d of (r, d') \<Rightarrow>
                  if (case r of Inr n \<Rightarrow> n > 0 | Inl _ \<Rightarrow> False) then (Inr (), d', ledger)
                  else case record_refusal now fs (payload d') ledger of (q, ledger') \<Rightarrow>
                    (Inl (Corrupt (''refusing to save state failing structural integrity audit: '' @ violation_str fs),
                          Some q), d', ledger'))))"

section \<open>What the audit finds\<close>

lemma duplicates_from_set:
  "set (duplicates_from seen dupes is) = set dupes \<union> {i \<in> set is. i \<in> seen \<or> 2 \<le> count_list is i}"
proof (induction "is" arbitrary: seen dupes)
  case (Cons j js)
  have "2 \<le> count_list (j # js) i \<longleftrightarrow> (if i = j then j \<in> set js else 2 \<le> count_list js i)" for i
    using count_list_0_iff [of js j] by (auto simp: numeral_2_eq_2 Suc_le_eq)
  moreover have "i \<in> set js" if "2 \<le> count_list js i" for i
    using that count_list_0_iff [of js i] by (cases "i \<in> set js") auto
  ultimately show ?case using Cons by auto
qed simp

lemma distinct_count: "distinct xs \<longleftrightarrow> (\<forall>x. count_list xs x \<le> 1)"
  by (induction xs) (auto simp: count_list_0_iff le_Suc_eq)

lemma duplicates_Nil [simp]: "duplicates is = [] \<longleftrightarrow> distinct is"
proof -
  have "duplicates is = [] \<longleftrightarrow> set (duplicates is) = {}" by (simp only: set_empty)
  also have "\<dots> \<longleftrightarrow> (\<forall>i \<in> set is. \<not> 2 \<le> count_list is i)" by (auto simp: duplicates_def duplicates_from_set)
  also have "\<dots> \<longleftrightarrow> distinct is"
    unfolding distinct_count by (metis count_notin le_SucI not_less_eq_eq numeral_2_eq_2 One_nat_def zero_le)
  finally show ?thesis .
qed


lemma dup_findings_Nil [simp]: "dup_findings rule b what is = [] \<longleftrightarrow> distinct is"
  by (simp add: dup_findings_def)

lemma flag_dangling_Nil [simp]: "flag_dangling m keys ts = [] \<longleftrightarrow> set keys \<subseteq> set ts"
  by (auto simp: flag_dangling_def filter_empty_conv)

definition ids_unique :: "'v document \<Rightarrow> bool" where
  "ids_unique d \<longleftrightarrow>
     (let s = dc_state d in
      distinct (ticket_ids d) \<and> distinct (dc_docs d) \<and> distinct (map cn_id (so_channels (st_social s)))
      \<and> distinct (map cm_id (so_comments (st_social s))) \<and> distinct (map ch_id (so_chat (st_social s)))
      \<and> distinct (map (\<lambda>p. nat_str (ps_id p)) (st_sprint_queue s)))"

definition references_live :: "'v document \<Rightarrow> bool" where
  "references_live d \<longleftrightarrow>
     (\<forall>m \<in> set (ticket_maps d). fst ` set m \<subseteq> set (ticket_ids d))
     \<and> set (dc_swept_tickets d) \<subseteq> set (ticket_ids d) \<and> set (dc_cost_approved d) \<subseteq> set (ticket_ids d)
     \<and> (\<forall>e \<in> set (dc_ticket_sessions d). session_ticket (fst e) \<in> set (ticket_ids d))"

definition counters_ok :: "'v document \<Rightarrow> bool" where
  "counters_ok d \<longleftrightarrow>
     (\<forall>good. dc_last_good_deploy d = Some good \<longrightarrow> good \<le> dc_deploy_index d)
     \<and> 0 \<le> dc_spend_total d \<and> 0 \<le> dc_spend_today d
     \<and> (\<forall>v \<in> set (dc_spend_by_role d @ dc_spend_metered d @ dc_spend_by_operator d). 0 \<le> v)"

lemma audit_ids_Nil: "audit_id_uniqueness d = [] \<longleftrightarrow> ids_unique d"
  by (simp add: audit_id_uniqueness_def ids_unique_def Let_def)

lemma audit_references_Nil: "audit_ticket_references d = [] \<longleftrightarrow> references_live d"
  by (auto simp: audit_ticket_references_def references_live_def ticket_maps_def Let_def filter_empty_conv)

lemma audit_counters_Nil: "audit_counters d @ audit_spend show_usd d = [] \<longleftrightarrow> counters_ok d"
  by (auto simp: audit_counters_def audit_spend_def counters_ok_def not_less split: option.split;
      meson UnI1 UnI2 linorder_not_less)

lemma audit_clean:
  "audit_structural_integrity show_usd d = [] \<longleftrightarrow> ids_unique d \<and> references_live d \<and> counters_ok d"
  using audit_ids_Nil [of d] audit_references_Nil [of d] audit_counters_Nil [of d show_usd]
  by (auto simp: audit_structural_integrity_def)

section \<open>What healing does\<close>

lemma rule_ids_distinct:
  "f \<in> set (audit_id_uniqueness d @ audit_counters d @ audit_spend show_usd d) \<Longrightarrow>
   if_rule_id f \<noteq> DANGLING_TICKET_REFERENCE"
  by (auto simp: audit_id_uniqueness_def Let_def dup_findings_def audit_counters_def audit_spend_def
      DUPLICATE_TICKET_ID_def DUPLICATE_DOC_ID_def DUPLICATE_CHANNEL_ID_def DUPLICATE_COMMENT_ID_def
      DUPLICATE_CHAT_ID_def DUPLICATE_PLANNED_SPRINT_ID_def DANGLING_TICKET_REFERENCE_def
      DEPLOY_INDEX_REGRESSION_def NEGATIVE_SPEND_def split: option.splits if_splits)

lemma dangling_rule: "f \<in> set (audit_ticket_references d) \<Longrightarrow> if_rule_id f = DANGLING_TICKET_REFERENCE"
  by (auto simp: audit_ticket_references_def Let_def flag_dangling_def dangling_def)

lemma only_dangling_iff:
  "(\<forall>f \<in> set (audit_structural_integrity show_usd d). if_rule_id f = DANGLING_TICKET_REFERENCE)
    \<longleftrightarrow> ids_unique d \<and> counters_ok d"
proof -
  have "(\<forall>f \<in> set (audit_structural_integrity show_usd d). if_rule_id f = DANGLING_TICKET_REFERENCE)
      \<longleftrightarrow> set (audit_id_uniqueness d @ audit_counters d @ audit_spend show_usd d) = {}"
    (is "?only \<longleftrightarrow> ?other = {}")
  proof
    assume only: ?only
    have "f \<notin> ?other" for f
      using rule_ids_distinct [of f d show_usd] only by (auto simp: audit_structural_integrity_def)
    then show "?other = {}" by (metis ex_in_conv)
  next
    assume "?other = {}"
    then have "set (audit_structural_integrity show_usd d) = set (audit_ticket_references d)"
      by (simp add: audit_structural_integrity_def)
    then show ?only using dangling_rule by metis
  qed
  also have "\<dots> \<longleftrightarrow> ids_unique d \<and> counters_ok d"
    using audit_ids_Nil [of d] audit_counters_Nil [of d show_usd] by (simp only: set_empty append_is_Nil_conv)
  finally show ?thesis .
qed

lemma healed_ids [simp]: "ticket_ids (healed d) = ticket_ids d" "dc_state (healed d) = dc_state d"
  by (simp_all add: healed_def ticket_ids_def Let_def)

lemma healed_maps:
  "ticket_maps (healed d) = map (keep_live (ticket_ids d)) (ticket_maps d)"
  by (simp add: ticket_maps_def healed_def Let_def)

lemma keep_live_keys: "fst ` set (keep_live ts m) \<subseteq> set ts"
  by (auto simp: keep_live_def)

lemma keep_live_all: "fst ` set m \<subseteq> set ts \<Longrightarrow> keep_live ts m = m"
  by (auto simp: keep_live_def intro!: filter_True)

lemma healed_live: "references_live (healed d)"
  unfolding references_live_def healed_maps healed_ids
  using keep_live_keys by (auto simp: healed_def Let_def)

lemma healed_keeps: "ids_unique (healed d) = ids_unique d" "counters_ok (healed d) = counters_ok d"
proof -
  have "dc_docs (healed d) = dc_docs d" "dc_last_good_deploy (healed d) = dc_last_good_deploy d"
    "dc_deploy_index (healed d) = dc_deploy_index d" "dc_spend_total (healed d) = dc_spend_total d"
    "dc_spend_today (healed d) = dc_spend_today d" "dc_spend_by_role (healed d) = dc_spend_by_role d"
    "dc_spend_metered (healed d) = dc_spend_metered d" "dc_spend_by_operator (healed d) = dc_spend_by_operator d"
    by (simp_all add: healed_def Let_def)
  then show "ids_unique (healed d) = ids_unique d" "counters_ok (healed d) = counters_ok d"
    by (simp_all add: ids_unique_def counters_ok_def Let_def)
qed

text \<open>A heal is refused exactly for findings of another class, and otherwise always succeeds.\<close>

lemma heal_cases:
  "heal_dangling_references show_usd d =
    (if ids_unique d \<and> counters_ok d
     then if references_live d then (Inr 0, d) else (Inr (healed_count d), healed d)
     else (Inl (audit_structural_integrity show_usd d), d))"
proof -
  have "audit_structural_integrity show_usd (healed d) = []" if "ids_unique d" "counters_ok d"
    using that healed_live by (simp add: audit_clean healed_keeps)
  then show ?thesis
    using only_dangling_iff [of show_usd d] audit_clean [of show_usd d]
    unfolding heal_dangling_references_def Let_def by auto
qed

lemma healed_count_zero:
  fixes d :: "'v document"
  shows "healed_count d = 0 \<longleftrightarrow> (\<forall>m \<in> set (ticket_maps d). fst ` set m \<subseteq> set (ticket_ids d))"
proof -
  have "length m - length (keep_live ts m) = 0 \<longleftrightarrow> fst ` set m \<subseteq> set ts" for m :: "(string \<times> 'v) list" and ts
  proof
    assume "length m - length (keep_live ts m) = 0"
    then have "keep_live ts m = m" unfolding keep_live_def by (metis diff_is_0_eq filter_id_conv length_filter_less linorder_not_le)
    then show "fst ` set m \<subseteq> set ts" using keep_live_keys [of ts m] by simp
  qed (simp add: keep_live_all)
  then show ?thesis by (simp add: healed_count_def sum_list_eq_0_iff)
qed

end
