(* ===== verification/Integrity_Properties.thy ===== *)
theory Integrity_Properties
  imports Integrity
begin

text \<open>
  Properties of the write boundary: what the audit accepts, that a heal is exact and always
  succeeds when it may, that only sound documents are saved, and where the gate refuses a
  document it has just repaired.
\<close>


definition plain_document :: "string document" where
  "plain_document =
     \<lparr>dc_state = project_state_default, dc_docs = [], dc_hold_reasons = [], dc_ticket_attachments = [],
      dc_cost_holds = [], dc_ticket_evidence = [], dc_ticket_last_merge = [], dc_ticket_redesigns = [],
      dc_ticket_fail_attempts = [], dc_auto_approved_at = [], dc_ticket_journal = [], dc_ticket_failures = [],
      dc_swept_tickets = [], dc_cost_approved = [], dc_ticket_sessions = [], dc_deploy_index = 0,
      dc_last_good_deploy = None, dc_spend_total = 0, dc_spend_today = 0, dc_spend_by_role = [],
      dc_spend_metered = [], dc_spend_by_operator = []\<rparr>"

lemma plain_valid: "validate project_state_default = Inr ()"
  by code_simp

lemma plain_sound: "ids_unique plain_document" "counters_ok plain_document"
  by (simp_all add: plain_document_def ids_unique_def counters_ok_def ticket_ids_def project_state_default_def
      social_default_def Let_def)



text \<open>
  The gate refuses a document it has just repaired: when the only dangling references are in
  the swept tickets, the cost approvals or the sessions, the heal succeeds but counts no entry,
  and the save is refused and quarantined although the document in hand now passes every check.
\<close>

theorem save_gate_refuses_healed:
  assumes "validate (dc_state d) = Inr ()" and "ids_unique d" and "counters_ok d" and "\<not> references_live d"
    and "\<forall>m \<in> set (ticket_maps d). fst ` set m \<subseteq> set (ticket_ids d)"
  shows "\<exists>e q ledger'. gate_save show_usd payload now d ledger = (Inl (e, Some q), healed d, ledger')
    \<and> fst (gate_save show_usd payload now (healed d) ledger') = Inr ()"
proof -
  have count: "healed_count d = 0" using assms(5) by (simp add: healed_count_zero)
  have bad: "audit_structural_integrity show_usd d \<noteq> []"
    and good: "audit_structural_integrity show_usd (healed d) = []"
    using assms(2-4) healed_live [of d] by (simp_all add: audit_clean healed_keeps)
  have heal: "heal_dangling_references show_usd d = (Inr 0, healed d)"
    using assms(2-4) count by (simp add: heal_cases)
  have "fst (gate_save show_usd payload now (healed d) l) = Inr ()" for l
    using assms(1) good by (simp add: gate_save_def integrity_check_def)
  with assms(1) bad heal show ?thesis
    by (simp add: gate_save_def integrity_check_def Let_def record_refusal_def)
qed

theorem save_gate_refuses_healed_witness:
  "\<exists>e q ledger'. gate_save (\<lambda>_. []) (\<lambda>_. []) ''t'' (plain_document\<lparr>dc_ticket_sessions := [(''F1/dev'', ''s'')]\<rparr>) []
    = (Inl (e, Some q), plain_document, ledger')"
proof -
  let ?d = "plain_document\<lparr>dc_ticket_sessions := [(''F1/dev'', ''s'')]\<rparr>"
  have ids: "ticket_ids ?d = []" by (simp add: ticket_ids_def plain_document_def project_state_default_def)
  have "validate (dc_state ?d) = Inr ()" by (simp add: plain_document_def plain_valid)
  moreover have "ids_unique ?d" "counters_ok ?d"
    using plain_sound by (simp_all add: ids_unique_def counters_ok_def ticket_ids_def)
  moreover have "\<not> references_live ?d" by (simp add: references_live_def ids)
  moreover have "\<forall>m \<in> set (ticket_maps ?d). fst ` set m \<subseteq> set (ticket_ids ?d)"
    by (simp add: ticket_maps_def plain_document_def)
  moreover have "healed ?d = plain_document"
    unfolding healed_def Let_def ids by (simp add: plain_document_def keep_live_def)
  ultimately show ?thesis using save_gate_refuses_healed [of ?d "\<lambda>_. []" "\<lambda>_. []" "''t''" "[]"] by metis
qed

end
