(* ===== verification/Shards.thy ===== *)
theory Shards
  imports Prelude
begin

text \<open>
  The shard seam of the project document (\<open>application/src/state/shards.rs\<close>,
  \<open>infrastructure/src/state/sql_shards.rs\<close>). A \<open>ProjectState\<close> is a struct whose fields all
  carry a value; here it is the map from its field names to their values, of an arbitrary type,
  since the seam moves the values and never looks inside. The payload structs are maps over their
  own field names. \<open>into_shards\<close> and \<open>from_shards\<close> split and reassemble the document,
  \<open>shard\<close> and \<open>with_shard\<close> read and replace one part; the last section shows that the five
  field lists partition the document and that reading and replacing obey the laws of a lens, which
  the locale \<open>sharded\<close> states for the stores.
\<close>

section \<open>Fields\<close>

definition PROJECT_FIELDS :: "string list" where
  "PROJECT_FIELDS =
     [''schema_version'', ''alias'', ''display_name'', ''current_version'', ''tickets'', ''history'',
      ''reverted_work'', ''activity'', ''spend'', ''sprint'', ''sprints'', ''sprint_queue'',
      ''hold_reasons'', ''role_health'', ''deploy'', ''comments'', ''reviews'', ''open_prs'',
      ''human_holds'', ''ticket_attachments'', ''chat'', ''channels'', ''design_system'',
      ''milestones'', ''goals'', ''outcome_ledger'', ''docs'', ''doc_folders'', ''doc_refresh'',
      ''cycle_scores'', ''lessons'', ''lesson_records'', ''dismissed_matches'', ''lesson_sweep_day'',
      ''decisions'', ''refactor_mode'', ''sprint_cycle'', ''cycle'', ''sprint_goal'',
      ''last_digest_day'', ''pr_fix_attempts'', ''pr_review_skips'', ''pr_open_holds'',
      ''pr_sessions'', ''ticket_sessions'', ''cost_holds'', ''clippy_baseline'', ''debt_signals'',
      ''sweeps_done'', ''seen_merged_prs'', ''ticket_last_merge'', ''seen_closed_prs'',
      ''swept_tickets'', ''cost_approved'', ''tuning'', ''tuning_overrides'', ''tuning_history'',
      ''ticket_evidence'', ''ticket_step_provenance'', ''repro_urls'', ''queue_recovery'',
      ''last_memory_hygiene_day'', ''jobs'', ''last_impediment_day'', ''pr_rescues'',
      ''ticket_redesigns'', ''drain_notice_sprint'', ''ticket_fail_attempts'', ''pr_rescue_attempts'',
      ''approval_samples'', ''auto_approved_at'', ''ask_again_shapes'', ''ticket_journal'',
      ''ticket_failures'', ''questions'', ''engine_incidents'', ''daily_jobs'', ''member_services'',
      ''ops_down'', ''workspace_run'', ''ops_down_streak'', ''spend_today_usd'', ''spend_day'',
      ''spend_history'', ''budget_warned_lifetime'', ''budget_warned_daily'', ''deploy_index'',
      ''in_rollback'', ''last_good_deploy'', ''last_rollback'', ''incidents'', ''rolled_back_commits'',
      ''bug_snapshots'', ''governance_interventions'', ''drift_alerts'', ''liveness'']"

definition WORK_FIELDS :: "string list" where
  "WORK_FIELDS =
     [''schema_version'', ''alias'', ''display_name'', ''current_version'', ''tickets'', ''activity'',
      ''sprint'', ''sprints'', ''sprint_queue'', ''hold_reasons'', ''role_health'', ''reviews'',
      ''open_prs'', ''ticket_attachments'', ''milestones'', ''cycle_scores'', ''sprint_cycle'',
      ''cycle'', ''sprint_goal'', ''last_digest_day'', ''pr_fix_attempts'', ''pr_review_skips'',
      ''pr_open_holds'', ''pr_sessions'', ''ticket_sessions'', ''cost_holds'', ''clippy_baseline'',
      ''debt_signals'', ''sweeps_done'', ''seen_merged_prs'', ''ticket_last_merge'',
      ''seen_closed_prs'', ''swept_tickets'', ''cost_approved'', ''tuning'', ''tuning_overrides'',
      ''tuning_history'', ''ticket_evidence'', ''ticket_step_provenance'', ''repro_urls'',
      ''queue_recovery'', ''last_memory_hygiene_day'', ''last_impediment_day'', ''pr_rescues'',
      ''ticket_redesigns'', ''drain_notice_sprint'', ''ticket_fail_attempts'', ''pr_rescue_attempts'',
      ''ticket_journal'', ''ticket_failures'', ''daily_jobs'', ''bug_snapshots'', ''spend'',
      ''spend_today_usd'', ''spend_day'', ''spend_history'', ''budget_warned_lifetime'',
      ''budget_warned_daily'']"

definition SOCIAL_FIELDS :: "string list" where
  "SOCIAL_FIELDS =
     [''comments'', ''chat'', ''channels'', ''questions'']"

definition DOCS_FIELDS :: "string list" where
  "DOCS_FIELDS =
     [''design_system'', ''docs'', ''doc_folders'', ''doc_refresh'']"

definition GOVERNANCE_FIELDS :: "string list" where
  "GOVERNANCE_FIELDS =
     [''goals'', ''outcome_ledger'', ''human_holds'', ''lessons'', ''lesson_records'',
      ''dismissed_matches'', ''lesson_sweep_day'', ''decisions'', ''refactor_mode'',
      ''approval_samples'', ''auto_approved_at'', ''ask_again_shapes'', ''governance_interventions'',
      ''drift_alerts'', ''member_services'']"

definition OPS_FIELDS :: "string list" where
  "OPS_FIELDS =
     [''history'', ''reverted_work'', ''deploy'', ''jobs'', ''engine_incidents'', ''ops_down'',
      ''workspace_run'', ''ops_down_streak'', ''deploy_index'', ''in_rollback'', ''last_good_deploy'',
      ''last_rollback'', ''incidents'', ''rolled_back_commits'', ''liveness'']"

datatype shard_kind = ShardWork | ShardSocial | ShardDocs | ShardGovernance | ShardOps

definition shard_ALL :: "shard_kind list" where
  "shard_ALL = [ShardWork, ShardSocial, ShardDocs, ShardGovernance, ShardOps]"

fun fields_of :: "shard_kind \<Rightarrow> string list" where
  "fields_of ShardWork = WORK_FIELDS"
| "fields_of ShardSocial = SOCIAL_FIELDS"
| "fields_of ShardDocs = DOCS_FIELDS"
| "fields_of ShardGovernance = GOVERNANCE_FIELDS"
| "fields_of ShardOps = OPS_FIELDS"

section \<open>Splitting and reassembling\<close>

type_synonym 'v aggregate = "string \<rightharpoonup> 'v"
type_synonym 'v payload = "string \<rightharpoonup> 'v"

record 'v sharded_state =
  sh_work :: "'v payload"
  sh_social :: "'v payload"
  sh_docs :: "'v payload"
  sh_governance :: "'v payload"
  sh_ops :: "'v payload"

datatype 'v shard_data =
    WorkData "'v payload"
  | SocialData "'v payload"
  | DocsData "'v payload"
  | GovernanceData "'v payload"
  | OpsData "'v payload"

fun shard_data_kind :: "'v shard_data \<Rightarrow> shard_kind" where
  "shard_data_kind (WorkData _) = ShardWork"
| "shard_data_kind (SocialData _) = ShardSocial"
| "shard_data_kind (DocsData _) = ShardDocs"
| "shard_data_kind (GovernanceData _) = ShardGovernance"
| "shard_data_kind (OpsData _) = ShardOps"

record 'v state_shard =
  ss_kind :: shard_kind
  ss_data :: "'v shard_data"

definition state_shard_new :: "'v shard_data \<Rightarrow> 'v state_shard" where
  "state_shard_new d = \<lparr>ss_kind = shard_data_kind d, ss_data = d\<rparr>"

text \<open>Destructuring a struct binds exactly its declared fields.\<close>

definition into_shards :: "'v aggregate \<Rightarrow> 'v sharded_state" where
  "into_shards d =
     \<lparr>sh_work = d |` set WORK_FIELDS, sh_social = d |` set SOCIAL_FIELDS, sh_docs = d |` set DOCS_FIELDS,
      sh_governance = d |` set GOVERNANCE_FIELDS, sh_ops = d |` set OPS_FIELDS\<rparr>"

definition from_shards :: "'v sharded_state \<Rightarrow> 'v aggregate" where
  "from_shards s = (\<lambda>f.
     if f \<in> set WORK_FIELDS then sh_work s f
     else if f \<in> set SOCIAL_FIELDS then sh_social s f
     else if f \<in> set DOCS_FIELDS then sh_docs s f
     else if f \<in> set GOVERNANCE_FIELDS then sh_governance s f
     else if f \<in> set OPS_FIELDS then sh_ops s f
     else None)"

text \<open>\<open>std::mem::take\<close> leaves the default payload behind; the defaults are an argument.\<close>

fun shard_take :: "(shard_kind \<Rightarrow> 'v payload) \<Rightarrow> shard_kind \<Rightarrow> 'v sharded_state \<Rightarrow> 'v state_shard \<times> 'v sharded_state" where
  "shard_take dflt ShardWork s = (state_shard_new (WorkData (sh_work s)), s\<lparr>sh_work := dflt ShardWork\<rparr>)"
| "shard_take dflt ShardSocial s = (state_shard_new (SocialData (sh_social s)), s\<lparr>sh_social := dflt ShardSocial\<rparr>)"
| "shard_take dflt ShardDocs s = (state_shard_new (DocsData (sh_docs s)), s\<lparr>sh_docs := dflt ShardDocs\<rparr>)"
| "shard_take dflt ShardGovernance s =
     (state_shard_new (GovernanceData (sh_governance s)), s\<lparr>sh_governance := dflt ShardGovernance\<rparr>)"
| "shard_take dflt ShardOps s = (state_shard_new (OpsData (sh_ops s)), s\<lparr>sh_ops := dflt ShardOps\<rparr>)"

definition shard :: "(shard_kind \<Rightarrow> 'v payload) \<Rightarrow> shard_kind \<Rightarrow> 'v aggregate \<Rightarrow> 'v state_shard" where
  "shard dflt k d = fst (shard_take dflt k (into_shards d))"

fun put_data :: "'v shard_data \<Rightarrow> 'v sharded_state \<Rightarrow> 'v sharded_state" where
  "put_data (WorkData p) s = s\<lparr>sh_work := p\<rparr>"
| "put_data (SocialData p) s = s\<lparr>sh_social := p\<rparr>"
| "put_data (DocsData p) s = s\<lparr>sh_docs := p\<rparr>"
| "put_data (GovernanceData p) s = s\<lparr>sh_governance := p\<rparr>"
| "put_data (OpsData p) s = s\<lparr>sh_ops := p\<rparr>"

definition with_shard :: "'v state_shard \<Rightarrow> 'v aggregate \<Rightarrow> 'v aggregate" where
  "with_shard s d = from_shards (put_data (ss_data s) (into_shards d))"

section \<open>The columns of the SQL adapter\<close>

fun shard_column :: "shard_kind \<Rightarrow> string" where
  "shard_column ShardWork = ''shard_work''"
| "shard_column ShardSocial = ''shard_social''"
| "shard_column ShardDocs = ''shard_docs''"
| "shard_column ShardGovernance = ''shard_governance''"
| "shard_column ShardOps = ''shard_ops''"

fun data_of :: "shard_kind \<Rightarrow> 'v payload \<Rightarrow> 'v shard_data" where
  "data_of ShardWork p = WorkData p"
| "data_of ShardSocial p = SocialData p"
| "data_of ShardDocs p = DocsData p"
| "data_of ShardGovernance p = GovernanceData p"
| "data_of ShardOps p = OpsData p"

fun payload_of :: "'v shard_data \<Rightarrow> 'v payload" where
  "payload_of (WorkData p) = p"
| "payload_of (SocialData p) = p"
| "payload_of (DocsData p) = p"
| "payload_of (GovernanceData p) = p"
| "payload_of (OpsData p) = p"

text \<open>\<open>shard_doc\<close>: the payloads that one guarded statement writes, by column.\<close>

definition shard_doc :: "'v aggregate \<Rightarrow> shard_kind \<Rightarrow> 'v payload" where
  "shard_doc d = (\<lambda>k. case k of ShardWork \<Rightarrow> sh_work (into_shards d) | ShardSocial \<Rightarrow> sh_social (into_shards d)
     | ShardDocs \<Rightarrow> sh_docs (into_shards d) | ShardGovernance \<Rightarrow> sh_governance (into_shards d)
     | ShardOps \<Rightarrow> sh_ops (into_shards d))"

section \<open>The lists partition the document\<close>

lemma shard_ALL_all: "set shard_ALL = UNIV"
proof -
  have "k \<in> set shard_ALL" for k by (cases k) (simp_all add: shard_ALL_def)
  then show ?thesis by blast
qed

text \<open>
  The two lists in alphabetical order, given by the positions of their names: comparing neighbours
  is then enough for the names to be different.
\<close>

fun ascending :: "string list \<Rightarrow> bool" where
  "ascending (x # y # xs) \<longleftrightarrow> x < y \<and> ascending (y # xs)"
| "ascending _ \<longleftrightarrow> True"

definition document_order :: "nat list" where
  "document_order =
     [7, 1, 69, 71, 70, 85, 84, 92, 21, 20, 46, 15, 53, 45, 3, 37, 29, 76, 47, 34, 14, 86, 22,
      32, 2, 27, 28, 26, 66, 94, 75, 24, 93, 5, 12, 18, 87, 90, 62, 39, 88, 63, 61, 89, 31, 33,
      30, 95, 77, 23, 17, 78, 80, 25, 40, 42, 68, 64, 41, 43, 74, 60, 35, 59, 6, 16, 13, 91, 0,
      51, 49, 8, 82, 83, 81, 9, 36, 38, 11, 10, 48, 52, 19, 57, 67, 73, 72, 50, 65, 44, 58, 4,
      54, 56, 55, 79]"

definition shard_order :: "nat list" where
  "shard_order =
     [5, 1, 75, 77, 76, 57, 56, 51, 60, 59, 26, 58, 33, 25, 3, 17, 15, 50, 27, 73, 83, 89, 62,
      71, 2, 64, 65, 63, 45, 79, 85, 66, 78, 81, 9, 68, 90, 93, 84, 19, 91, 42, 41, 92, 70, 72,
      69, 95, 80, 14, 12, 86, 88, 67, 20, 22, 47, 43, 21, 23, 61, 40, 74, 39, 82, 11, 10, 94, 0,
      31, 29, 52, 54, 55, 53, 6, 16, 18, 8, 7, 28, 32, 13, 37, 46, 49, 48, 30, 44, 24, 38, 4, 34,
      36, 35, 87]"

lemma ascending_distinct: "ascending xs \<Longrightarrow> distinct xs \<and> (\<forall>y \<in> set (tl xs). hd xs < y)"
  by (induction xs rule: ascending.induct) auto

lemma permuted:
  assumes "sort ps = [0..<length xs]" shows "mset (map (nth xs) ps) = mset xs"
proof -
  have "mset ps = mset [0..<length xs]" using assms by (metis mset_sort)
  then have "mset (map (nth xs) ps) = mset (map (nth xs) [0..<length xs])" by simp
  then show ?thesis by (simp only: map_nth)
qed

lemma orders_permute: "sort document_order = [0..<length PROJECT_FIELDS]"
    "sort shard_order = [0..<length (concat (map fields_of shard_ALL))]"
  by code_simp+

lemma same_names: "map (nth (concat (map fields_of shard_ALL))) shard_order = map (nth PROJECT_FIELDS) document_order"
  by code_simp

lemma names_ascending: "ascending (map (nth PROJECT_FIELDS) document_order)"
  by code_simp

lemma fields_mset: "mset (concat (map fields_of shard_ALL)) = mset PROJECT_FIELDS"
  using permuted [OF orders_permute(1)] permuted [OF orders_permute(2)] same_names by simp

lemma PROJECT_FIELDS_distinct: "distinct PROJECT_FIELDS"
  using ascending_distinct [OF names_ascending] permuted [OF orders_permute(1)]
  by (metis mset_eq_imp_distinct_iff)

lemma fields_partition: "distinct (concat (map fields_of shard_ALL))"
  "(\<Union>k. set (fields_of k)) = set PROJECT_FIELDS"
proof -
  note m = fields_mset
  then show "distinct (concat (map fields_of shard_ALL))"
    using PROJECT_FIELDS_distinct by (metis mset_eq_imp_distinct_iff)
  have "(\<Union>k. set (fields_of k)) = set (concat (map fields_of shard_ALL))" by (simp add: shard_ALL_all)
  also have "\<dots> = set PROJECT_FIELDS" using m by (metis set_mset_mset)
  finally show "(\<Union>k. set (fields_of k)) = set PROJECT_FIELDS" .
qed

lemma fields_disjoint: "k \<noteq> l \<Longrightarrow> set (fields_of k) \<inter> set (fields_of l) = {}"
  using fields_partition(1) by (cases k; cases l) (auto simp: shard_ALL_def)

lemma field_kind: "f \<in> set (fields_of k) \<Longrightarrow> f \<in> set (fields_of l) \<longleftrightarrow> k = l"
  using fields_disjoint by blast

section \<open>A lens per shard\<close>

text \<open>Well-formed documents and payloads give a value to exactly their fields, as Rust structs do.\<close>

definition aggregate_ok :: "'v aggregate \<Rightarrow> bool" where
  "aggregate_ok d \<longleftrightarrow> dom d = set PROJECT_FIELDS"

definition payload_ok :: "shard_kind \<Rightarrow> 'v payload \<Rightarrow> bool" where
  "payload_ok k p \<longleftrightarrow> dom p = set (fields_of k)"

definition get_shard :: "shard_kind \<Rightarrow> 'v aggregate \<Rightarrow> 'v payload" where
  "get_shard k d = payload_of (ss_data (shard (\<lambda>_. Map.empty) k d))"

definition put_shard :: "shard_kind \<Rightarrow> 'v payload \<Rightarrow> 'v aggregate \<Rightarrow> 'v aggregate" where
  "put_shard k p d = with_shard (state_shard_new (data_of k p)) d"

lemma shard_eq: "shard dflt k d = state_shard_new (data_of k (d |` set (fields_of k)))"
  by (cases k) (simp_all add: shard_def into_shards_def)

lemma get_shard_eq: "get_shard k d = d |` set (fields_of k)"
  by (cases k) (simp_all add: get_shard_def shard_eq state_shard_new_def)

lemma shard_doc_eq: "shard_doc d k = get_shard k d"
  by (cases k) (simp_all add: shard_doc_def get_shard_eq into_shards_def)

lemma field_cases:
  assumes "f \<in> set PROJECT_FIELDS" obtains k where "f \<in> set (fields_of k)"
  using assms fields_partition(2) by blast

text \<open>The value of a field after a shard was replaced.\<close>

lemma put_shard_at:
  assumes f: "f \<in> set (fields_of k)"
  shows "put_shard l p d f = (if k = l then p f else d f)"
proof -
  have mem: "f \<in> set (fields_of m) \<longleftrightarrow> m = k" for m using field_kind [OF f, of m] by auto
  show ?thesis
    using mem [of ShardWork] mem [of ShardSocial] mem [of ShardDocs] mem [of ShardGovernance] mem [of ShardOps]
    by (cases k; cases l)
      (simp_all add: put_shard_def with_shard_def state_shard_new_def from_shards_def into_shards_def)
qed

lemma put_shard_outside: "f \<notin> set PROJECT_FIELDS \<Longrightarrow> put_shard l p d f = None"
proof -
  assume f: "f \<notin> set PROJECT_FIELDS"
  then have "f \<notin> set (fields_of k)" for k using fields_partition(2) by blast
  from this [of ShardWork] this [of ShardSocial] this [of ShardDocs] this [of ShardGovernance] this [of ShardOps]
  show ?thesis by (simp add: put_shard_def with_shard_def from_shards_def)
qed

locale sharded =
  fixes get :: "'k \<Rightarrow> 'd \<Rightarrow> 'p"
    and put :: "'k \<Rightarrow> 'p \<Rightarrow> 'd \<Rightarrow> 'd"
    and ok :: "'d \<Rightarrow> bool"
    and okp :: "'k \<Rightarrow> 'p \<Rightarrow> bool"
  assumes get_put: "ok d \<Longrightarrow> okp k p \<Longrightarrow> get k (put k p d) = p"
    and get_put_other: "ok d \<Longrightarrow> okp k p \<Longrightarrow> k \<noteq> l \<Longrightarrow> get l (put k p d) = get l d"
    and put_get: "ok d \<Longrightarrow> put k (get k d) d = d"
    and put_ok: "ok d \<Longrightarrow> okp k p \<Longrightarrow> ok (put k p d)"
    and get_ok: "ok d \<Longrightarrow> okp k (get k d)"
    and extensional: "ok d \<Longrightarrow> ok e \<Longrightarrow> (\<And>k. get k d = get k e) \<Longrightarrow> d = e"
begin

lemma put_put:
  assumes "ok d" "okp k p" "okp k q" shows "put k p (put k q d) = put k p d"
proof (rule extensional)
  fix l show "get l (put k p (put k q d)) = get l (put k p d)"
    using assms by (cases "l = k") (simp_all add: get_put get_put_other put_ok)
qed (simp_all add: assms put_ok)

lemma put_commute:
  assumes "ok d" "okp k p" "okp l q" "k \<noteq> l" shows "put k p (put l q d) = put l q (put k p d)"
proof (rule extensional)
  fix m show "get m (put k p (put l q d)) = get m (put l q (put k p d))"
    using assms by (cases "m = k"; cases "m = l") (simp_all add: get_put get_put_other put_ok)
qed (simp_all add: assms put_ok)

end

interpretation doc: sharded "get_shard :: shard_kind \<Rightarrow> 'v aggregate \<Rightarrow> 'v payload" put_shard aggregate_ok payload_ok
proof
  fix d :: "'v aggregate" and k and p :: "'v payload"
  assume ok: "aggregate_ok d" and pk: "payload_ok k p"
  have "p f = None" if "f \<notin> set (fields_of k)" for f
    using pk that unfolding payload_ok_def by blast
  then have "get_shard k (put_shard k p d) f = p f" for f
    by (cases "f \<in> set (fields_of k)") (simp_all add: get_shard_eq put_shard_at)
  then show "get_shard k (put_shard k p d) = p" by blast
next
  fix d :: "'v aggregate" and k l :: shard_kind and p :: "'v payload"
  assume ok: "aggregate_ok d" and "k \<noteq> l"
  then have "get_shard l (put_shard k p d) f = get_shard l d f" for f
    by (cases "f \<in> set (fields_of l)") (auto simp: get_shard_eq restrict_map_def put_shard_at)
  then show "get_shard l (put_shard k p d) = get_shard l d" by blast
next
  fix d :: "'v aggregate" and k
  assume ok: "aggregate_ok d"
  have "put_shard k (get_shard k d) d f = d f" for f
  proof (cases "f \<in> set PROJECT_FIELDS")
    case True
    then obtain l where "f \<in> set (fields_of l)" by (rule field_cases)
    then show ?thesis by (auto simp: put_shard_at get_shard_eq restrict_map_def)
  next
    case False
    with ok have "d f = None" unfolding aggregate_ok_def by blast
    with False show ?thesis by (simp add: put_shard_outside)
  qed
  then show "put_shard k (get_shard k d) d = d" by blast
next
  fix d :: "'v aggregate" and k and p :: "'v payload"
  assume ok: "aggregate_ok d" and pk: "payload_ok k p"
  have "put_shard k p d f \<noteq> None \<longleftrightarrow> f \<in> set PROJECT_FIELDS" for f
  proof (cases "f \<in> set PROJECT_FIELDS")
    case True
    then obtain l where l: "f \<in> set (fields_of l)" by (rule field_cases)
    then show ?thesis using ok pk True
      by (auto simp: put_shard_at aggregate_ok_def payload_ok_def dom_def)
  qed (simp add: put_shard_outside)
  then show "aggregate_ok (put_shard k p d)" by (auto simp: aggregate_ok_def dom_def)
next
  fix d :: "'v aggregate" and k
  assume "aggregate_ok d"
  then show "payload_ok k (get_shard k d)"
    using fields_partition(2) by (auto simp: payload_ok_def get_shard_eq aggregate_ok_def)
next
  fix d e :: "'v aggregate"
  assume ok: "aggregate_ok d" "aggregate_ok e" and eq: "\<And>k. get_shard k d = get_shard k e"
  show "d = e"
  proof
    fix f
    show "d f = e f"
    proof (cases "f \<in> set PROJECT_FIELDS")
      case True
      then obtain l where "f \<in> set (fields_of l)" by (rule field_cases)
      with fun_cong [OF eq [of l], of f] show ?thesis by (simp add: get_shard_eq)
    next
      case False
      with ok show ?thesis unfolding aggregate_ok_def by (metis domIff)
    qed
  qed
qed

lemma from_into_shards:
  assumes "aggregate_ok d" shows "from_shards (into_shards d) = d"
proof
  fix f
  have "from_shards (into_shards d) = put_shard ShardWork (get_shard ShardWork d) d"
    by (simp add: put_shard_def with_shard_def state_shard_new_def get_shard_eq into_shards_def)
  then show "from_shards (into_shards d) f = d f" by (simp add: doc.put_get [OF assms])
qed

end
