(* ===== verification/State_Store.thy ===== *)
theory State_Store
  imports Shards
begin

text \<open>
  The Postgres store of the project document and the read-modify-write helpers on top of it
  (\<open>infrastructure/src/state/sql_store.rs\<close>, \<open>tombstone.rs\<close>,
  \<open>application/src/ports/outbound/state_store.rs\<close>), for one project id. Every SQL statement and
  transaction is one atomic step on the tables, and so is every look at a store's in-process
  \<open>deleted\<close> flag; between two awaits of a call any other call may take its steps. The call is
  kept as a program counter. The write gate of \<open>quarantine.rs\<close> is an argument (the store does not
  look inside the document), as are the default document and the test for a newer schema; the ledger
  of refused writes and the best-effort local mirror are left out. Connection failures are not
  modelled: a statement that fails leaves the tables unchanged and ends the call with an error.
\<close>

section \<open>The tables\<close>

datatype port_error = NotFound string | Conflict string | CorruptState string | Backend string

record 'v state_row =
  rw_revision :: int
  rw_data :: "'v aggregate"
  rw_shards :: "shard_kind \<Rightarrow> 'v payload option"

record 'v database =
  db_row :: "'v state_row option"
  db_tombstone :: bool

record 'v store_env =
  se_default :: "'v aggregate"
  se_newer :: "'v \<Rightarrow> bool"
  se_gate :: "'v aggregate \<Rightarrow> port_error + 'v aggregate"

text \<open>\<open>schema_version > SCHEMA_VERSION\<close>, on a document or on the payload of the work shard.\<close>

definition newer_schema :: "'v store_env \<Rightarrow> 'v aggregate \<Rightarrow> bool" where
  "newer_schema env m = (case m ''schema_version'' of None \<Rightarrow> False | Some v \<Rightarrow> se_newer env v)"

definition load_versioned :: "'v store_env \<Rightarrow> 'v database \<Rightarrow> port_error + int \<times> 'v aggregate" where
  "load_versioned env db =
     (case db_row db of
        None \<Rightarrow> Inr (0, se_default env)
      | Some r \<Rightarrow>
          if newer_schema env (rw_data r) then Inl (CorruptState ''state schema_version newer than supported'')
          else Inr (rw_revision r, rw_data r))"

definition sql_current_version :: "'v database \<Rightarrow> int" where
  "sql_current_version db = (case db_row db of None \<Rightarrow> 0 | Some r \<Rightarrow> rw_revision r)"

definition fresh_row :: "int \<Rightarrow> 'v aggregate \<Rightarrow> 'v state_row" where
  "fresh_row rv d = \<lparr>rw_revision = rv, rw_data = d, rw_shards = (\<lambda>k. Some (shard_doc d k))\<rparr>"

text \<open>\<open>GUARDED_SAVE_SQL\<close>: the flag says whether a row was affected.\<close>

definition guarded_save :: "'v aggregate \<Rightarrow> int \<Rightarrow> 'v database \<Rightarrow> bool \<times> 'v database" where
  "guarded_save d expected db =
     (if db_tombstone db then (False, db)
      else case db_row db of
        None \<Rightarrow> (True, db\<lparr>db_row := Some (fresh_row 1 d)\<rparr>)
      | Some r \<Rightarrow>
          if rw_revision r = expected then (True, db\<lparr>db_row := Some (fresh_row (rw_revision r + 1) d)\<rparr>)
          else (False, db))"

text \<open>
  The transaction of \<open>claim_ticket\<close>: the row is locked, the claim is decided on the decoded
  document (\<open>None\<close>: not won) and written back with the next revision.
\<close>

definition claim_tx :: "('v aggregate \<Rightarrow> 'v aggregate option) \<Rightarrow> 'v database \<Rightarrow> bool \<times> 'v database" where
  "claim_tx claim db =
     (case db_row db of
        None \<Rightarrow> (False, db)
      | Some r \<Rightarrow>
          (case claim (rw_data r) of
             None \<Rightarrow> (False, db)
           | Some d \<Rightarrow> (True, db\<lparr>db_row := Some (fresh_row (rw_revision r + 1) d)\<rparr>)))"

definition delete_tx :: "'v database \<Rightarrow> 'v database" where
  "delete_tx db = db\<lparr>db_row := None, db_tombstone := True\<rparr>"

definition tombstone_clear :: "'v database \<Rightarrow> 'v database" where
  "tombstone_clear db = db\<lparr>db_tombstone := False\<rparr>"

definition refusal :: port_error where
  "refusal = Backend ''write refused: project was deleted''"

definition stale :: port_error where
  "stale = Conflict ''state changed since last read (concurrent writer)''"

section \<open>Calls, await by await\<close>

definition MUTATE_ATTEMPTS :: nat where "MUTATE_ATTEMPTS = 12"

text \<open>
  What a call does with a conflict: a plain save reports it, \<open>mutate_state\<close> and
  \<open>mutate_shard\<close> start over while attempts are left.
\<close>

datatype 'v job =
    MutateState "'v aggregate \<Rightarrow> port_error + 'v aggregate"
  | MutateShard shard_kind "'v payload \<Rightarrow> port_error + 'v payload"

datatype 'v caller = Once | Retry nat "'v job"

datatype 'v call_pc =
    Start nat "'v job"
  | FullLoad nat shard_kind "'v payload \<Rightarrow> port_error + 'v payload"
  | MergeBase "'v caller" shard_kind "'v payload" "int option"
  | FlagCheck "'v caller" "'v aggregate" "int option"
  | ReadRevision "'v caller" "'v aggregate"
  | Write "'v caller" "'v aggregate" int
  | Recheck "'v caller"
  | ClaimFlag "'v aggregate \<Rightarrow> 'v aggregate option"
  | ClaimTx "'v aggregate \<Rightarrow> 'v aggregate option"
  | DeleteFlag
  | DeleteTx
  | Finished "port_error + bool"

fun again :: "'v caller \<Rightarrow> port_error \<Rightarrow> 'v call_pc" where
  "again Once e = Finished (Inl e)"
| "again (Retry n j) e = (if n \<le> 1 then Finished (Inl e) else Start (n - 1) j)"

definition on_ok :: "port_error + 'a \<Rightarrow> ('a \<Rightarrow> 'v call_pc) \<Rightarrow> 'v call_pc" where
  "on_ok r g = (case r of Inl e \<Rightarrow> Finished (Inl e) | Inr x \<Rightarrow> g x)"

text \<open>The mutator runs on the loaded payload and \<open>save_shard\<close> then reads its merge base.\<close>

definition mutate_payload ::
  "nat \<Rightarrow> shard_kind \<Rightarrow> ('v payload \<Rightarrow> port_error + 'v payload) \<Rightarrow> 'v payload \<Rightarrow> 'v call_pc" where
  "mutate_payload n k f p = on_ok (f p) (\<lambda>p'. MergeBase (Retry n (MutateShard k f)) k p' None)"

text \<open>The column read of \<open>load_shard\<close>; a row of an older writer has no column value.\<close>

definition shard_start ::
  "'v store_env \<Rightarrow> 'v database \<Rightarrow> nat \<Rightarrow> shard_kind \<Rightarrow> ('v payload \<Rightarrow> port_error + 'v payload) \<Rightarrow> 'v call_pc" where
  "shard_start env db n k f =
     (case db_row db of
        None \<Rightarrow> mutate_payload n k f (get_shard k (se_default env))
      | Some r \<Rightarrow>
          (case rw_shards r k of
             None \<Rightarrow> FullLoad n k f
           | Some p \<Rightarrow>
               if k = ShardWork \<and> newer_schema env p
               then Finished (Inl (CorruptState ''work shard schema_version newer than supported''))
               else mutate_payload n k f p))"

text \<open>One step of a call made through a store whose \<open>deleted\<close> flag is \<open>gone\<close>.\<close>

fun call_step :: "'v store_env \<Rightarrow> bool \<Rightarrow> 'v call_pc \<Rightarrow> 'v database \<Rightarrow> 'v call_pc \<times> 'v database" where
  "call_step env gone (Start n (MutateState f)) db =
     (on_ok (load_versioned env db)
        (\<lambda>(_, d). on_ok (f d) (\<lambda>d'. FlagCheck (Retry n (MutateState f)) d' None)), db)"
| "call_step env gone (Start n (MutateShard k f)) db = (shard_start env db n k f, db)"
| "call_step env gone (FullLoad n k f) db =
     (on_ok (load_versioned env db) (\<lambda>(_, d). mutate_payload n k f (get_shard k d)), db)"
| "call_step env gone (MergeBase c k p expected) db =
     (on_ok (load_versioned env db) (\<lambda>(rv, d). FlagCheck c (put_shard k p d)
        (Some (case expected of Some e \<Rightarrow> e | None \<Rightarrow> rv))), db)"
| "call_step env gone (FlagCheck c d expected) db =
     (if gone then Finished (Inl refusal)
      else on_ok (se_gate env d) (\<lambda>d'. case expected of
             Some rv \<Rightarrow> Write c d' rv | None \<Rightarrow> ReadRevision c d'), db)"
| "call_step env gone (ReadRevision c d) db =
     (on_ok (load_versioned env db) (\<lambda>(rv, _). Write c d rv), db)"
| "call_step env gone (Write c d rv) db =
     (case guarded_save d rv db of (ok, db') \<Rightarrow> (if ok then Finished (Inr True) else Recheck c, db'))"
| "call_step env gone (Recheck c) db =
     (if db_tombstone db then Finished (Inl refusal) else again c stale, db)"
| "call_step env gone (ClaimFlag g) db = (if gone then Finished (Inr False) else ClaimTx g, db)"
| "call_step env gone (ClaimTx g) db = (case claim_tx g db of (won, db') \<Rightarrow> (Finished (Inr won), db'))"
| "call_step env gone DeleteFlag db = (DeleteTx, db)"
| "call_step env gone DeleteTx db = (Finished (Inr True), delete_tx db)"
| "call_step env gone (Finished r) db = (Finished r, db)"

section \<open>Stores and schedules\<close>

text \<open>
  \<open>Call p i pc\<close>: call \<open>p\<close> begins on store instance \<open>i\<close>; \<open>Tick p\<close>: its next step;
  \<open>Connect\<close>: a process builds a new store instance, which clears the tombstone.
\<close>

datatype 'v store_event = Call nat nat "'v call_pc" | Tick nat | Connect

record 'v store_sys =
  sy_db :: "'v database"
  sy_deleted :: "nat \<Rightarrow> bool"
  sy_calls :: "nat \<Rightarrow> nat \<times> 'v call_pc"

definition mutate_state :: "('v aggregate \<Rightarrow> port_error + 'v aggregate) \<Rightarrow> 'v call_pc" where
  "mutate_state f = Start MUTATE_ATTEMPTS (MutateState f)"

definition mutate_shard :: "shard_kind \<Rightarrow> ('v payload \<Rightarrow> port_error + 'v payload) \<Rightarrow> 'v call_pc" where
  "mutate_shard k f = Start MUTATE_ATTEMPTS (MutateShard k f)"

definition save :: "'v aggregate \<Rightarrow> 'v call_pc" where
  "save d = FlagCheck Once d None"

definition save_expecting :: "'v aggregate \<Rightarrow> int option \<Rightarrow> 'v call_pc" where
  "save_expecting d expected = FlagCheck Once d expected"

definition save_shard_expecting :: "shard_kind \<Rightarrow> 'v payload \<Rightarrow> int option \<Rightarrow> 'v call_pc" where
  "save_shard_expecting k p expected = MergeBase Once k p expected"

definition sql_delete :: "'v call_pc" where "sql_delete = DeleteFlag"

fun store_exec :: "'v store_env \<Rightarrow> 'v store_event \<Rightarrow> 'v store_sys \<Rightarrow> 'v store_sys" where
  "store_exec env (Call p i pc) s = s\<lparr>sy_calls := (sy_calls s)(p := (i, pc))\<rparr>"
| "store_exec env (Tick p) s =
     (case sy_calls s p of (i, pc) \<Rightarrow>
       (case call_step env (sy_deleted s i) pc (sy_db s) of (pc', db') \<Rightarrow>
          s\<lparr>sy_db := db', sy_calls := (sy_calls s)(p := (i, pc')),
            sy_deleted := (case pc of DeleteFlag \<Rightarrow> (sy_deleted s)(i := True) | _ \<Rightarrow> sy_deleted s)\<rparr>))"
| "store_exec env Connect s = s\<lparr>sy_db := tombstone_clear (sy_db s)\<rparr>"

definition store_run :: "'v store_env \<Rightarrow> 'v store_event list \<Rightarrow> 'v store_sys \<Rightarrow> 'v store_sys" where
  "store_run env evs s = fold (store_exec env) evs s"

section \<open>Deletion\<close>

text \<open>No statement writes while the tombstone is armed.\<close>

lemma tombstone_kept:
  assumes "db_tombstone db" "db_row db = None"
  shows "db_tombstone (snd (call_step env gone pc db))" "db_row (snd (call_step env gone pc db)) = None"
  using assms
  by (cases "(env, gone, pc, db)" rule: call_step.cases;
      simp add: guarded_save_def claim_tx_def delete_tx_def)+

lemma exec_db:
  "sy_db (store_exec env (Tick p) s)
     = snd (call_step env (sy_deleted s (fst (sy_calls s p))) (snd (sy_calls s p)) (sy_db s))"
  by (simp add: split_beta)

lemma run_simps [simp]:
  "store_run env [] s = s"
  "store_run env (e # evs) s = store_run env evs (store_exec env e s)"
  "store_run env (evs @ evs') s = store_run env evs' (store_run env evs s)"
  by (simp_all add: store_run_def)

lemma deleted_stays_deleted:
  assumes "db_tombstone (sy_db s)" "db_row (sy_db s) = None" "Connect \<notin> set evs"
  shows "db_tombstone (sy_db (store_run env evs s)) \<and> db_row (sy_db (store_run env evs s)) = None"
  using assms
proof (induction evs arbitrary: s)
  case (Cons e evs)
  have "db_tombstone (sy_db (store_exec env e s)) \<and> db_row (sy_db (store_exec env e s)) = None"
  proof (cases e)
    case (Tick p)
    then show ?thesis
      using tombstone_kept [OF Cons.prems(1,2)] exec_db [of env p s] by simp
  qed (use Cons.prems in auto)
  then show ?case using Cons by simp
qed simp

text \<open>A tombstone is armed only together with the purge, whatever the state of the calls.\<close>

lemma tombstone_purged:
  assumes "db_tombstone db \<Longrightarrow> db_row db = None"
    and "db_tombstone (snd (call_step env gone pc db))"
  shows "db_row (snd (call_step env gone pc db)) = None"
  using assms
  by (cases "(env, gone, pc, db)" rule: call_step.cases)
    (auto simp: guarded_save_def claim_tx_def delete_tx_def split: option.splits if_splits)

section \<open>Documents stay well formed and the columns agree with the envelope\<close>

fun job_ok :: "'v job \<Rightarrow> bool" where
  "job_ok (MutateState f) \<longleftrightarrow> (\<forall>d d'. aggregate_ok d \<and> f d = Inr d' \<longrightarrow> aggregate_ok d')"
| "job_ok (MutateShard k f) \<longleftrightarrow> (\<forall>p p'. payload_ok k p \<and> f p = Inr p' \<longrightarrow> payload_ok k p')"

fun caller_ok :: "'v caller \<Rightarrow> bool" where
  "caller_ok Once \<longleftrightarrow> True"
| "caller_ok (Retry n j) \<longleftrightarrow> job_ok j"

definition claim_keeps_ok :: "('v aggregate \<Rightarrow> 'v aggregate option) \<Rightarrow> bool" where
  "claim_keeps_ok g \<longleftrightarrow> (\<forall>d d'. aggregate_ok d \<and> g d = Some d' \<longrightarrow> aggregate_ok d')"

fun call_ok :: "'v call_pc \<Rightarrow> bool" where
  "call_ok (Start n j) \<longleftrightarrow> job_ok j"
| "call_ok (FullLoad n k f) \<longleftrightarrow> job_ok (MutateShard k f)"
| "call_ok (MergeBase c k p e) \<longleftrightarrow> caller_ok c \<and> payload_ok k p"
| "call_ok (FlagCheck c d e) \<longleftrightarrow> caller_ok c \<and> aggregate_ok d"
| "call_ok (ReadRevision c d) \<longleftrightarrow> caller_ok c \<and> aggregate_ok d"
| "call_ok (Write c d r) \<longleftrightarrow> caller_ok c \<and> aggregate_ok d"
| "call_ok (Recheck c) \<longleftrightarrow> caller_ok c"
| "call_ok (ClaimFlag g) \<longleftrightarrow> claim_keeps_ok g"
| "call_ok (ClaimTx g) \<longleftrightarrow> claim_keeps_ok g"
| "call_ok _ \<longleftrightarrow> True"

definition row_ok :: "'v state_row \<Rightarrow> bool" where
  "row_ok r \<longleftrightarrow> 1 \<le> rw_revision r \<and> aggregate_ok (rw_data r)
     \<and> (\<forall>k p. rw_shards r k = Some p \<longrightarrow> p = get_shard k (rw_data r))"

definition db_ok :: "'v database \<Rightarrow> bool" where
  "db_ok db \<longleftrightarrow> (db_tombstone db \<longrightarrow> db_row db = None) \<and> (\<forall>r. db_row db = Some r \<longrightarrow> row_ok r)"

definition env_ok :: "'v store_env \<Rightarrow> bool" where
  "env_ok env \<longleftrightarrow> aggregate_ok (se_default env)
     \<and> (\<forall>d d'. aggregate_ok d \<and> se_gate env d = Inr d' \<longrightarrow> aggregate_ok d')"

lemma row_okD:
  assumes "db_ok db" "db_row db = Some r"
  shows "1 \<le> rw_revision r" "aggregate_ok (rw_data r)"
    "rw_shards r k = Some p \<Longrightarrow> p = get_shard k (rw_data r)"
  using assms by (auto simp: db_ok_def row_ok_def)

lemma row_ok_fresh: "1 \<le> r \<Longrightarrow> aggregate_ok d \<Longrightarrow> row_ok (fresh_row r d)"
  by (simp add: row_ok_def fresh_row_def shard_doc_eq)

lemma on_ok_call_ok: "(\<And>x. r = Inr x \<Longrightarrow> call_ok (g x)) \<Longrightarrow> call_ok (on_ok r g)"
  by (auto simp: on_ok_def split: sum.split)

lemma load_versioned_ok:
  assumes "env_ok env" "db_ok db" "load_versioned env db = Inr (r, d)"
  shows "aggregate_ok d" "r = sql_current_version db" "0 \<le> r"
  using assms row_okD(1,2) [OF assms(2)]
  by (force simp: load_versioned_def env_ok_def sql_current_version_def split: option.splits if_splits)+

lemma guarded_save_db_ok:
  assumes "db_ok db" "aggregate_ok d" shows "db_ok (snd (guarded_save d r db))"
proof (cases "db_row db")
  case (Some x)
  then show ?thesis using assms row_okD(1) [OF assms(1) Some] by (auto simp: guarded_save_def db_ok_def intro!: row_ok_fresh)
qed (use assms in \<open>auto simp: guarded_save_def db_ok_def intro!: row_ok_fresh\<close>)

lemma claim_tx_db_ok:
  assumes "db_ok db" "claim_keeps_ok g" shows "db_ok (snd (claim_tx g db))"
proof (cases "db_row db")
  case (Some x)
  show ?thesis
  proof (cases "g (rw_data x)")
    case (Some d)
    then have "aggregate_ok d" using assms row_okD(2) [OF assms(1) \<open>db_row db = Some x\<close>] by (auto simp: claim_keeps_ok_def)
    then show ?thesis using assms Some \<open>db_row db = Some x\<close> row_okD(1) [OF assms(1) \<open>db_row db = Some x\<close>]
      by (auto simp: claim_tx_def db_ok_def intro!: row_ok_fresh)
  qed (use assms Some in \<open>simp add: claim_tx_def\<close>)
qed (use assms in \<open>simp add: claim_tx_def\<close>)

lemma call_step_db_ok:
  assumes "db_ok db" "call_ok pc" shows "db_ok (snd (call_step env gone pc db))"
proof (cases pc)
  case (Start n j)
  then show ?thesis using assms by (cases j) simp_all
next
  case (Write c d r)
  then show ?thesis using assms guarded_save_db_ok [of db d r] by (simp add: split_beta)
next
  case (ClaimTx g)
  then show ?thesis using assms claim_tx_db_ok [of db g] by (simp add: split_beta)
qed (use assms in \<open>auto simp: delete_tx_def db_ok_def\<close>)

lemma mutate_payload_ok:
  "job_ok (MutateShard k f) \<Longrightarrow> payload_ok k p \<Longrightarrow> call_ok (mutate_payload n k f p)"
  by (auto simp: mutate_payload_def intro!: on_ok_call_ok)

lemma shard_start_ok:
  assumes "env_ok env" "db_ok db" "job_ok (MutateShard k f)"
  shows "call_ok (shard_start env db n k f)"
proof (cases "db_row db")
  case None
  then show ?thesis using assms
    by (auto simp: shard_start_def env_ok_def doc.get_ok simp del: job_ok.simps intro!: mutate_payload_ok)
next
  case (Some r)
  have "payload_ok k p" if "rw_shards r k = Some p" for p
    using row_okD(2,3) [OF assms(2) Some] that doc.get_ok by metis
  then show ?thesis using assms(3) Some
    by (auto simp: shard_start_def simp del: job_ok.simps intro!: mutate_payload_ok split: option.split)
qed

lemma again_ok: "caller_ok c \<Longrightarrow> call_ok (again c e)"
  by (cases c) simp_all

lemma call_step_call_ok:
  assumes env: "env_ok env" and db: "db_ok db" and pc: "call_ok pc"
  shows "call_ok (fst (call_step env gone pc db))"
proof (cases pc)
  case (Start n j)
  then show ?thesis using pc shard_start_ok [OF env db]
    by (cases j) (auto intro!: on_ok_call_ok dest: load_versioned_ok [OF env db])
next
  case (FullLoad n k f)
  then show ?thesis using pc load_versioned_ok [OF env db]
    by (auto intro!: on_ok_call_ok mutate_payload_ok doc.get_ok)
next
  case (MergeBase c k p e)
  then show ?thesis using pc load_versioned_ok [OF env db]
    by (auto intro!: on_ok_call_ok doc.put_ok)
next
  case (FlagCheck c d e)
  then show ?thesis using pc env
    by (auto simp: env_ok_def intro!: on_ok_call_ok split: option.split)
next
  case (ReadRevision c d)
  then show ?thesis using pc by (auto intro!: on_ok_call_ok)
next
  case (Write c d r)
  then show ?thesis using pc by (simp add: split_beta)
next
  case (Recheck c)
  then show ?thesis using pc by (simp add: again_ok)
next
  case (ClaimTx g)
  then show ?thesis by (simp add: split_beta)
qed (use pc in auto)

definition sys_ok :: "'v store_sys \<Rightarrow> bool" where
  "sys_ok s \<longleftrightarrow> db_ok (sy_db s) \<and> (\<forall>p. call_ok (snd (sy_calls s p)))"

fun event_ok :: "'v store_event \<Rightarrow> bool" where
  "event_ok (Call p i pc) \<longleftrightarrow> call_ok pc"
| "event_ok _ \<longleftrightarrow> True"

lemma exec_sys_ok:
  assumes "env_ok env" "sys_ok s" "event_ok e" shows "sys_ok (store_exec env e s)"
proof (cases e)
  case (Tick p)
  have "call_ok (snd (sy_calls s p))" "db_ok (sy_db s)" using assms(2) by (auto simp: sys_ok_def)
  then show ?thesis
    using assms call_step_db_ok call_step_call_ok Tick by (fastforce simp: sys_ok_def split_beta)
qed (use assms in \<open>auto simp: sys_ok_def db_ok_def tombstone_clear_def\<close>)

lemma run_sys_ok: "env_ok env \<Longrightarrow> sys_ok s \<Longrightarrow> list_all event_ok evs \<Longrightarrow> sys_ok (store_run env evs s)"
  by (induction evs arbitrary: s) (simp_all add: exec_sys_ok)

section \<open>Every call ends\<close>

fun tries_left :: "'v caller \<Rightarrow> nat" where
  "tries_left Once = 0"
| "tries_left (Retry n j) = n"

text \<open>An upper bound of the steps a call still takes.\<close>

fun steps_left :: "'v call_pc \<Rightarrow> nat" where
  "steps_left (Start n j) = 7 * n + 7"
| "steps_left (FullLoad n k f) = 7 * n + 6"
| "steps_left (MergeBase c k p e) = 7 * tries_left c + 5"
| "steps_left (FlagCheck c d e) = 7 * tries_left c + 4"
| "steps_left (ReadRevision c d) = 7 * tries_left c + 3"
| "steps_left (Write c d r) = 7 * tries_left c + 2"
| "steps_left (Recheck c) = 7 * tries_left c + 1"
| "steps_left (ClaimFlag g) = 2"
| "steps_left (ClaimTx g) = 1"
| "steps_left DeleteFlag = 2"
| "steps_left DeleteTx = 1"
| "steps_left (Finished r) = 0"

lemma on_ok_steps: "(\<And>x. steps_left (g x) < n) \<Longrightarrow> 0 < n \<Longrightarrow> steps_left (on_ok r g) < n"
  by (simp add: on_ok_def split: sum.split)

lemma again_steps: "steps_left (again c e) < Suc (7 * tries_left c)"
  by (cases c) auto

lemma call_step_decreases:
  "steps_left pc \<noteq> 0 \<Longrightarrow> steps_left (fst (call_step env gone pc db)) < steps_left pc"
  by (cases "(env, gone, pc, db)" rule: call_step.cases)
    (auto simp: split_beta shard_start_def mutate_payload_def again_steps
      intro!: on_ok_steps split: option.split)

definition ticks :: "nat \<Rightarrow> 'v store_event list \<Rightarrow> nat" where
  "ticks p evs = length (filter (\<lambda>e. case e of Tick q \<Rightarrow> q = p | _ \<Rightarrow> False) evs)"

definition no_call :: "nat \<Rightarrow> 'v store_event list \<Rightarrow> bool" where
  "no_call p evs \<longleftrightarrow> list_all (\<lambda>e. case e of Call q _ _ \<Rightarrow> q \<noteq> p | _ \<Rightarrow> True) evs"

lemma steps_left_run:
  assumes "no_call p evs"
  shows "steps_left (snd (sy_calls (store_run env evs s) p)) \<le> steps_left (snd (sy_calls s p)) - ticks p evs"
  using assms
proof (induction evs arbitrary: s)
  case (Cons e evs)
  let ?t = "store_exec env e s"
  have "steps_left (snd (sy_calls ?t p)) \<le> steps_left (snd (sy_calls s p)) - ticks p [e]"
  proof (cases e)
    case (Tick q)
    then show ?thesis
      using call_step_decreases [of "snd (sy_calls s p)" env "sy_deleted s (fst (sy_calls s p))" "sy_db s"]
      by (cases "steps_left (snd (sy_calls s p))"; cases "snd (sy_calls s p)") (auto simp: ticks_def split_beta)
  qed (use Cons.prems in \<open>auto simp: ticks_def no_call_def\<close>)
  moreover have "ticks p (e # evs) = ticks p [e] + ticks p evs" by (simp add: ticks_def)
  moreover have "no_call p evs" using Cons.prems by (simp add: no_call_def)
  ultimately show ?case using Cons.IH [of ?t] by simp
qed (simp add: ticks_def)

lemma finished_iff: "steps_left pc = 0 \<longleftrightarrow> (\<exists>r. pc = Finished r)"
  by (cases pc) auto

section \<open>Concurrent mutations of different shards\<close>

text \<open>
  A team of \<open>mutate_shard\<close> calls, at most one per shard: call \<open>p\<close> applies \<open>F p\<close> to the shard
  \<open>kind p\<close>. \<open>g\<close> gives the payloads and \<open>v0\<close> the revision at the start.
\<close>

definition current_doc :: "'v store_env \<Rightarrow> 'v database \<Rightarrow> 'v aggregate" where
  "current_doc env db = (case db_row db of None \<Rightarrow> se_default env | Some r \<Rightarrow> rw_data r)"

definition team_job :: "shard_kind \<Rightarrow> ('v payload \<Rightarrow> 'v payload) \<Rightarrow> 'v job" where
  "team_job k F = MutateShard k (\<lambda>p. Inr (F p))"

text \<open>A prepared write is good until somebody else commits: then its revision is out of date.\<close>

definition prepared ::
  "'v store_env \<Rightarrow> shard_kind \<Rightarrow> 'v payload \<Rightarrow> int \<Rightarrow> 'v database \<Rightarrow> 'v aggregate \<Rightarrow> int \<Rightarrow> nat \<Rightarrow> bool" where
  "prepared env k p v0 db d r n \<longleftrightarrow>
     aggregate_ok d \<and> v0 \<le> r \<and> r \<le> sql_current_version db \<and> 12 \<le> int n + (r - v0)
     \<and> (r = sql_current_version db \<longrightarrow> d = put_shard k p (current_doc env db))"

fun team_pc ::
  "'v store_env \<Rightarrow> shard_kind \<Rightarrow> ('v payload \<Rightarrow> 'v payload) \<Rightarrow> 'v payload \<Rightarrow> int \<Rightarrow> 'v database \<Rightarrow> 'v call_pc \<Rightarrow> bool" where
  "team_pc env k F g v0 db (Start n j) \<longleftrightarrow> j = team_job k F \<and> 12 \<le> int n + (sql_current_version db - v0)"
| "team_pc env k F g v0 db (FullLoad n l f) \<longleftrightarrow>
     MutateShard l f = team_job k F \<and> 12 \<le> int n + (sql_current_version db - v0)"
| "team_pc env k F g v0 db (MergeBase c l p e) \<longleftrightarrow> l = k \<and> p = F g \<and> e = None
     \<and> c = Retry (tries_left c) (team_job k F) \<and> 12 \<le> int (tries_left c) + (sql_current_version db - v0)"
| "team_pc env k F g v0 db (FlagCheck c d e) \<longleftrightarrow> c = Retry (tries_left c) (team_job k F) \<and> e \<noteq> None
     \<and> prepared env k (F g) v0 db d (the e) (tries_left c)"
| "team_pc env k F g v0 db (Write c d r) \<longleftrightarrow> c = Retry (tries_left c) (team_job k F)
     \<and> prepared env k (F g) v0 db d r (tries_left c)"
| "team_pc env k F g v0 db (Recheck c) \<longleftrightarrow> c = Retry (tries_left c) (team_job k F)
     \<and> 12 < int (tries_left c) + (sql_current_version db - v0)"
| "team_pc env k F g v0 db (Finished r) \<longleftrightarrow> r = Inr True"
| "team_pc env k F g v0 db _ \<longleftrightarrow> False"

definition committed :: "nat set \<Rightarrow> 'v store_sys \<Rightarrow> nat set" where
  "committed P s = {p \<in> P. snd (sy_calls s p) = Finished (Inr True)}"

definition quiet_env :: "'v store_env \<Rightarrow> bool" where
  "quiet_env env \<longleftrightarrow> aggregate_ok (se_default env) \<and> (\<forall>v. \<not> se_newer env v)
     \<and> (\<forall>d. aggregate_ok d \<longrightarrow> se_gate env d = Inr d)"

definition team_inv ::
  "'v store_env \<Rightarrow> nat set \<Rightarrow> (nat \<Rightarrow> shard_kind) \<Rightarrow> (nat \<Rightarrow> 'v payload \<Rightarrow> 'v payload)
    \<Rightarrow> (shard_kind \<Rightarrow> 'v payload) \<Rightarrow> int \<Rightarrow> 'v store_sys \<Rightarrow> bool" where
  "team_inv env P kind F g v0 s \<longleftrightarrow>
     db_ok (sy_db s) \<and> \<not> db_tombstone (sy_db s) \<and> (\<forall>i. \<not> sy_deleted s i)
     \<and> 0 \<le> v0 \<and> sql_current_version (sy_db s) - v0 = int (card (committed P s))
     \<and> (\<forall>p. if p \<in> P then team_pc env (kind p) (F p) (g (kind p)) v0 (sy_db s) (snd (sy_calls s p))
            else \<exists>r. snd (sy_calls s p) = Finished r)
     \<and> (\<forall>p \<in> P. get_shard (kind p) (current_doc env (sy_db s)) =
          (if p \<in> committed P s then F p (g (kind p)) else g (kind p)))
     \<and> (\<forall>l. l \<notin> kind ` P \<longrightarrow> get_shard l (current_doc env (sy_db s)) = g l)"

lemma team_size:
  fixes kind :: "nat \<Rightarrow> shard_kind"
  assumes "inj_on kind P" shows "finite P" "card P \<le> 5"
proof -
  have fin: "finite (UNIV :: shard_kind set)" by (simp flip: shard_ALL_all)
  have "finite (kind ` P)" by (rule finite_subset [OF subset_UNIV fin])
  then show "finite P" using assms finite_imageD by blast
  have "card P = card (kind ` P)" using assms by (simp add: card_image)
  also have "\<dots> \<le> card (UNIV :: shard_kind set)" by (intro card_mono) (simp_all add: fin)
  also have "\<dots> \<le> 5" using card_length [of shard_ALL] by (simp add: shard_ALL_all) (simp add: shard_ALL_def)
  finally show "card P \<le> 5" .
qed

lemma current_doc_ok: "quiet_env env \<Longrightarrow> db_ok db \<Longrightarrow> aggregate_ok (current_doc env db)"
  using row_okD(2) by (fastforce simp: current_doc_def quiet_env_def split: option.split)

lemma load_quiet:
  "quiet_env env \<Longrightarrow> load_versioned env db = Inr (sql_current_version db, current_doc env db)"
  by (auto simp: load_versioned_def quiet_env_def newer_schema_def sql_current_version_def current_doc_def
      split: option.split)

lemma quiet_not_newer: "quiet_env env \<Longrightarrow> \<not> newer_schema env m"
  by (simp add: newer_schema_def quiet_env_def split: option.split)

lemma written_doc [simp]:
  "sql_current_version (db\<lparr>db_row := Some (fresh_row r d)\<rparr>) = r"
  "current_doc env (db\<lparr>db_row := Some (fresh_row r d)\<rparr>) = d"
  "\<not> db_tombstone db \<Longrightarrow> guarded_save x r (db\<lparr>db_row := Some (fresh_row r d)\<rparr>)
     = (True, db\<lparr>db_row := Some (fresh_row (r + 1) x)\<rparr>)"
  by (simp_all add: sql_current_version_def current_doc_def guarded_save_def fresh_row_def)

text \<open>The steps of a team member that do not write.\<close>

lemma team_step_read:
  assumes env: "quiet_env env" and db: "db_ok db" and gk: "get_shard k (current_doc env db) = g"
    and F: "payload_ok k (F g)" and pc: "team_pc env k F g v0 db pc" and v: "v0 \<le> sql_current_version db"
    and nowrite: "\<forall>c d r. pc \<noteq> Write c d r" and few: "sql_current_version db - v0 \<le> 4"
    and t: "\<not> db_tombstone db"
  shows "team_pc env k F g v0 db (fst (call_step env False pc db))" "snd (call_step env False pc db) = db"
    "fst (call_step env False pc db) = Finished (Inr True) \<longleftrightarrow> pc = Finished (Inr True)"
proof -
  note ok = current_doc_ok [OF env db]
  have put: "aggregate_ok (put_shard k (F g) (current_doc env db))" using doc.put_ok ok F by blast
  have "team_pc env k F g v0 db (fst (call_step env False pc db)) \<and> snd (call_step env False pc db) = db
    \<and> (fst (call_step env False pc db) = Finished (Inr True) \<longleftrightarrow> pc = Finished (Inr True))"
  proof (cases pc)
    case (Start n j)
    have col: "rw_shards r k = Some p \<Longrightarrow> p = g" if "db_row db = Some r" for r p
      using row_okD(3) [OF db that] gk that by (simp add: current_doc_def)
    show ?thesis using pc Start gk col quiet_not_newer [OF env]
      by (auto simp: team_job_def shard_start_def mutate_payload_def on_ok_def current_doc_def split: option.split)
  next
    case (FullLoad n l f)
    then show ?thesis using pc gk load_quiet [OF env] by (auto simp: team_job_def mutate_payload_def on_ok_def)
  next
    case (MergeBase c l p e)
    then show ?thesis using pc put v load_quiet [OF env] by (auto simp: on_ok_def prepared_def)
  next
    case (FlagCheck c d e)
    then show ?thesis using pc env by (auto simp: on_ok_def prepared_def quiet_env_def)
  next
    case (Recheck c)
    then obtain n where c: "c = Retry n (team_job k F)" and n: "12 < int n + (sql_current_version db - v0)"
      using pc by (metis team_pc.simps(6))
    then show ?thesis using Recheck t few by auto
  qed (use pc nowrite in auto)
  then show "team_pc env k F g v0 db (fst (call_step env False pc db))" "snd (call_step env False pc db) = db"
    "fst (call_step env False pc db) = Finished (Inr True) \<longleftrightarrow> pc = Finished (Inr True)" by auto
qed

lemma team_step_write:
  assumes db: "db_ok db" "\<not> db_tombstone db" and v0: "0 \<le> v0"
    and pc: "team_pc env k F g v0 db (Write c d r)"
  shows "call_step env False (Write c d r) db = (Recheck c, db) \<and> team_pc env k F g v0 db (Recheck c)
    \<or> (\<exists>db'. call_step env False (Write c d r) db = (Finished (Inr True), db') \<and> db_ok db' \<and> \<not> db_tombstone db'
         \<and> sql_current_version db' = sql_current_version db + 1
         \<and> current_doc env db' = put_shard k (F g) (current_doc env db))"
proof -
  have d: "aggregate_ok d" and r: "v0 \<le> r" "r \<le> sql_current_version db" "12 \<le> int (tries_left c) + (r - v0)"
    and c: "c = Retry (tries_left c) (team_job k F)"
    and fit: "r = sql_current_version db \<longrightarrow> d = put_shard k (F g) (current_doc env db)"
    using pc by (auto simp: prepared_def)
  show ?thesis
  proof (cases "r = sql_current_version db")
    case True
    have "db_ok (snd (guarded_save d r db))" by (rule guarded_save_db_ok [OF db(1) d])
    moreover have "guarded_save d r db = (True, db\<lparr>db_row := Some (fresh_row (r + 1) d)\<rparr>)"
      using db True by (auto simp: guarded_save_def sql_current_version_def split: option.split)
    ultimately show ?thesis
      using db True fit by (auto simp: sql_current_version_def current_doc_def fresh_row_def)
  next
    case False
    then have "db_row db \<noteq> None" using r v0 by (cases "db_row db") (auto simp: sql_current_version_def)
    then have "guarded_save d r db = (False, db)"
      using False db by (auto simp: guarded_save_def sql_current_version_def)
    then show ?thesis using c r False by auto
  qed
qed

lemma team_pc_later:
  assumes "team_pc env k F g v0 db pc" "sql_current_version db' = sql_current_version db + 1"
  shows "team_pc env k F g v0 db' pc"
  using assms by (cases pc) (auto simp: prepared_def)

lemma committed_few:
  fixes kind :: "nat \<Rightarrow> shard_kind"
  assumes "inj_on kind P" "p \<in> P" "p \<notin> committed P s" shows "card (committed P s) \<le> 4"
proof -
  have "finite P" "card P \<le> 5" using team_size [OF assms(1)] by auto
  moreover have "committed P s \<subseteq> P - {p}" using assms by (auto simp: committed_def)
  ultimately have "card (committed P s) \<le> card (P - {p})" by (intro card_mono) auto
  then show ?thesis using \<open>card P \<le> 5\<close> \<open>finite P\<close> assms(2) by simp
qed

text \<open>A tick of a call that is not finished: either it only moves on, or it commits.\<close>

lemma team_tick:
  assumes env: "quiet_env env" and inj: "inj_on kind P"
    and F: "\<And>p. p \<in> P \<Longrightarrow> payload_ok (kind p) (F p (g (kind p)))"
    and inv: "team_inv env P kind F g v0 s" and p: "p \<in> P"
  shows "team_inv env P kind F g v0 (store_exec env (Tick p) s)"
proof -
  let ?db = "sy_db s" and ?pc = "snd (sy_calls s p)" and ?k = "kind p"
  note inv' = inv [unfolded team_inv_def]
  have gone: "sy_deleted s i = False" for i using inv' by simp
  have pc: "team_pc env ?k (F p) (g ?k) v0 ?db ?pc" using inv' p by presburger
  then have nodel: "?pc \<noteq> DeleteFlag" by auto
  define pc' db' where pc': "pc' = fst (call_step env False ?pc ?db)" and db': "db' = snd (call_step env False ?pc ?db)"
  define t where t: "t = s\<lparr>sy_db := db', sy_calls := (sy_calls s)(p := (fst (sy_calls s p), pc'))\<rparr>"
  have ex: "store_exec env (Tick p) s = t"
    using nodel by (auto simp: t split_beta gone pc' db' split: call_pc.split)
  have tdb: "sy_db t = db'" "sy_deleted t = sy_deleted s" by (simp_all add: t)
  consider (fin) "?pc = Finished (Inr True)" | (commit) "pc' = Finished (Inr True)" "?pc \<noteq> Finished (Inr True)" "db_ok db'"
      "\<not> db_tombstone db'" "sql_current_version db' = sql_current_version ?db + 1"
      "current_doc env db' = put_shard ?k (F p (g ?k)) (current_doc env ?db)"
    | (move) "db' = ?db" "pc' \<noteq> Finished (Inr True)" "?pc \<noteq> Finished (Inr True)" "team_pc env ?k (F p) (g ?k) v0 ?db pc'"
  proof (cases "?pc = Finished (Inr True)")
    case False
    then have np: "p \<notin> committed P s" by (simp add: committed_def)
    then have few: "sql_current_version ?db - v0 \<le> 4"
      using inv' committed_few [OF inj p np] by linarith
    have v: "v0 \<le> sql_current_version ?db" using inv' by linarith
    have gk: "get_shard ?k (current_doc env ?db) = g ?k" using inv' p np by auto
    show thesis
    proof (cases "\<exists>c d r. ?pc = Write c d r")
      case True
      then obtain c d r where w: "?pc = Write c d r" by blast
      show thesis using team_step_write [of ?db v0 env ?k "F p" "g ?k" c d r] inv' pc w False that(2,3)
        by (fastforce simp: pc' db')
    next
      case no: False
      show thesis
        using team_step_read [OF env _ gk F [OF p] pc v _ few] inv' no False that(3) by (simp add: pc' db')
    qed
  qed (use that in blast)
  then have "team_inv env P kind F g v0 t"
  proof cases
    case fin
    then have "sy_calls t = sy_calls s" "sy_db t = ?db" "sy_deleted t = sy_deleted s"
      by (auto simp: t pc' db' fun_eq_iff prod_eq_iff)
    then show ?thesis using inv by (simp add: team_inv_def committed_def)
  next
    case commit
    have com: "committed P t = insert p (committed P s)" "p \<notin> committed P s"
      using commit p by (auto simp: committed_def t)
    have finc: "finite (committed P s)" using team_size(1) [OF inj] by (simp add: committed_def)
    note okd = current_doc_ok [OF env, of ?db]
    have own: "get_shard ?k (current_doc env db') = F p (g ?k)"
      using commit(6) doc.get_put okd F [OF p] inv' by metis
    have oth: "get_shard l (current_doc env db') = get_shard l (current_doc env ?db)" if "l \<noteq> ?k" for l
      using commit(6) doc.get_put_other okd F [OF p] inv' that by metis
    have "team_pc env (kind q) (F q) (g (kind q)) v0 db' (snd (sy_calls s q))" if "q \<in> P" for q
      using team_pc_later [OF _ commit(5)] inv' that by presburger
    then have "if q \<in> P then team_pc env (kind q) (F q) (g (kind q)) v0 db' (snd (sy_calls t q))
        else \<exists>r. snd (sy_calls t q) = Finished r" for q
      using inv' p commit(1) unfolding t by auto
    moreover have "get_shard (kind q) (current_doc env (sy_db t)) =
        (if q \<in> committed P t then F q (g (kind q)) else g (kind q))" if "q \<in> P" for q
    proof (cases "q = p")
      case False
      then have "kind q \<noteq> ?k" using inj p that by (auto dest: inj_onD)
      then show ?thesis using oth [of "kind q"] inv' that False by (simp add: com tdb)
    qed (use own com in \<open>simp add: tdb\<close>)
    moreover have "get_shard l (current_doc env (sy_db t)) = g l" if "l \<notin> kind ` P" for l
    proof -
      have "l \<noteq> ?k" using that p by blast
      then show ?thesis using oth [of l] inv' that by (simp add: tdb)
    qed
    moreover have "sql_current_version (sy_db t) - v0 = int (card (committed P t))"
      using inv' commit(5) com finc by (simp add: tdb)
    ultimately show ?thesis using inv' commit(3,4) unfolding team_inv_def by (simp add: tdb)
  next
    case move
    then have "committed P t = committed P s" by (auto simp: committed_def t)
    then show ?thesis using inv' move p unfolding team_inv_def by (auto simp: t)
  qed
  then show ?thesis by (simp only: ex)
qed

lemma team_run:
  assumes "quiet_env env" "inj_on kind P" "\<And>p. p \<in> P \<Longrightarrow> payload_ok (kind p) (F p (g (kind p)))"
    and "team_inv env P kind F g v0 s" "list_all (\<lambda>e. \<exists>p. e = Tick p) evs"
  shows "team_inv env P kind F g v0 (store_run env evs s)"
  using assms(4,5)
proof (induction evs arbitrary: s)
  case (Cons e evs)
  then obtain p where e: "e = Tick p" by auto
  have "team_inv env P kind F g v0 (store_exec env e s)"
  proof (cases "p \<in> P")
    case True
    then show ?thesis using team_tick [OF assms(1-3) Cons.prems(1)] e by simp
  next
    case False
    then obtain r where r: "snd (sy_calls s p) = Finished r" using Cons.prems(1) unfolding team_inv_def by presburger
    then have "sy_calls s p = (fst (sy_calls s p), Finished r)" by (simp add: prod_eq_iff)
    then have "sy_calls (store_exec env e s) = sy_calls s" "sy_db (store_exec env e s) = sy_db s"
      "sy_deleted (store_exec env e s) = sy_deleted s"
      using e r by (auto simp: split_beta fun_eq_iff prod_eq_iff)
    then show ?thesis using Cons.prems(1) by (simp add: team_inv_def committed_def)
  qed
  then show ?case using Cons by simp
qed simp

lemma team_start:
  assumes "db_ok (sy_db s)" "\<not> db_tombstone (sy_db s)" "\<And>i. \<not> sy_deleted s i"
    and "\<And>p. p \<in> P \<Longrightarrow> snd (sy_calls s p) = mutate_shard (kind p) (\<lambda>x. Inr (F p x))"
    and "\<And>p. p \<notin> P \<Longrightarrow> \<exists>r. snd (sy_calls s p) = Finished r"
  shows "team_inv env P kind F (\<lambda>k. get_shard k (current_doc env (sy_db s))) (sql_current_version (sy_db s)) s"
proof -
  have "committed P s = {}" using assms(4) by (auto simp: committed_def mutate_shard_def)
  moreover have "0 \<le> sql_current_version (sy_db s)"
    using row_okD(1) [OF assms(1)] by (force simp: sql_current_version_def split: option.split)
  ultimately show ?thesis
    using assms by (auto simp: team_inv_def mutate_shard_def team_job_def MUTATE_ATTEMPTS_def)
qed

text \<open>While a tombstone is armed no save and no claim reports success.\<close>

definition not_won :: "'v call_pc \<Rightarrow> bool" where
  "not_won pc \<longleftrightarrow> (case pc of Finished r \<Rightarrow> r \<noteq> Inr True | DeleteFlag \<Rightarrow> False | DeleteTx \<Rightarrow> False | _ \<Rightarrow> True)"

lemma on_ok_not_won: "(\<And>x. not_won (g x)) \<Longrightarrow> not_won (on_ok r g)"
  by (simp add: on_ok_def not_won_def split: sum.split)

lemma again_not_won: "not_won (again c e)"
  by (cases c) (simp_all add: not_won_def)

lemma call_step_not_won:
  assumes "db_tombstone db" "db_row db = None" "not_won pc"
  shows "not_won (fst (call_step env gone pc db))"
  using assms
  by (cases "(env, gone, pc, db)" rule: call_step.cases)
    (auto simp: guarded_save_def claim_tx_def shard_start_def mutate_payload_def again_not_won
      not_won_def [of "Finished _"] not_won_def [of "Recheck _"] not_won_def [of "FlagCheck _ _ _"]
      not_won_def [of "MergeBase _ _ _ _"] not_won_def [of "Write _ _ _"] not_won_def [of "ReadRevision _ _"]
      not_won_def [of "ClaimTx _"] not_won_def [of DeleteFlag] not_won_def [of DeleteTx]
      intro!: on_ok_not_won split: option.split)

lemma run_not_won:
  assumes "db_tombstone (sy_db s)" "db_row (sy_db s) = None" "Connect \<notin> set evs" "no_call q evs"
    and "not_won (snd (sy_calls s q))"
  shows "not_won (snd (sy_calls (store_run env evs s) q))"
  using assms
proof (induction evs arbitrary: s)
  case (Cons e evs)
  have "not_won (snd (sy_calls (store_exec env e s) q))"
    using Cons.prems call_step_not_won by (cases e) (fastforce simp: split_beta no_call_def)+
  moreover have "db_tombstone (sy_db (store_exec env e s))" "db_row (sy_db (store_exec env e s)) = None"
    using deleted_stays_deleted [of s "[e]" env] Cons.prems by auto
  moreover have "no_call q evs" using Cons.prems(4) by (simp add: no_call_def)
  ultimately show ?case using Cons.IH Cons.prems(3) by simp
qed simp

end
