(* ===== verification/Store_Properties.thy ===== *)
theory Store_Properties
  imports State_Store
begin

text \<open>
  What the store and its read-modify-write helpers guarantee under every interleaving, and two things
  they do not guarantee.
\<close>

section \<open>Samples\<close>

definition blank_doc :: "nat aggregate" where
  "blank_doc = (\<lambda>f. if f \<in> set PROJECT_FIELDS then Some 0 else None)"

definition open_env :: "nat store_env" where
  "open_env = \<lparr>se_default = blank_doc, se_newer = (\<lambda>_. False), se_gate = Inr\<rparr>"

definition stored :: "nat \<Rightarrow> (nat \<Rightarrow> nat \<times> nat call_pc) \<Rightarrow> nat store_sys" where
  "stored v calls =
     \<lparr>sy_db = \<lparr>db_row = Some (fresh_row (int v + 1) blank_doc), db_tombstone = False\<rparr>,
      sy_deleted = (\<lambda>_. False), sy_calls = calls\<rparr>"

definition bump_all :: "nat payload \<Rightarrow> nat payload" where
  "bump_all x = (\<lambda>f. map_option Suc (x f))"

lemma blank_doc_ok [simp]: "aggregate_ok blank_doc"
  by (auto simp: aggregate_ok_def blank_doc_def dom_def)

lemma open_env_quiet [simp]: "quiet_env open_env"
  by (simp add: quiet_env_def open_env_def)

lemma stored_ok [simp]: "db_ok (sy_db (stored v calls))" "\<not> db_tombstone (sy_db (stored v calls))"
    "\<not> sy_deleted (stored v calls) i"
  by (simp_all add: stored_def db_ok_def row_ok_fresh)

lemma bump_all_ok: "payload_ok k x \<Longrightarrow> payload_ok k (bump_all x)" "aggregate_ok x \<Longrightarrow> aggregate_ok (bump_all x)"
  by (auto simp: payload_ok_def aggregate_ok_def bump_all_def dom_def)

section \<open>Concurrent mutations\<close>



text \<open>
  Whole-document mutations do lose work: \<open>mutate_state\<close> saves without the revision it has
  loaded, so the save compares against the revision it reads at the end. In the schedule below both
  mutators load the same document, both calls report success, and the document afterwards is
  the result of one mutator alone.
\<close>

theorem mutate_state_loses_update:
  assumes env: "quiet_env env" and db: "db_ok (sy_db s)" "\<not> db_tombstone (sy_db s)" "\<not> sy_deleted s i" "\<not> sy_deleted s j"
    and d: "d = current_doc env (sy_db s)" and pq: "p \<noteq> q"
    and f: "f d = Inr df" "aggregate_ok df" and g: "g d = Inr dg" "aggregate_ok dg"
  shows "let t = store_run env [Call p i (mutate_state f), Call q j (mutate_state g), Tick p, Tick q,
                   Tick q, Tick q, Tick q, Tick p, Tick p, Tick p] s
         in snd (sy_calls t p) = Finished (Inr True) \<and> snd (sy_calls t q) = Finished (Inr True)
            \<and> current_doc env (sy_db t) = df"
proof -
  have gate: "se_gate env df = Inr df" "se_gate env dg = Inr dg" using env f g by (auto simp: quiet_env_def)
  have save: "guarded_save x (sql_current_version (sy_db s)) (sy_db s)
      = (True, (sy_db s)\<lparr>db_row := Some (fresh_row (sql_current_version (sy_db s) + 1) x)\<rparr>)" for x
    using db by (auto simp: guarded_save_def sql_current_version_def split: option.split)
  define S where "S x a b = s\<lparr>sy_db := x, sy_calls := (sy_calls s)(p := (i, a), q := (j, b))\<rparr>" for x a b
  have tp: "store_exec env (Tick p) (S x a b) = S x' a' b"
    if "call_step env False a x = (a', x')" "a \<noteq> DeleteFlag" for x a b x' a'
    using that pq db by (auto simp: S_def fun_upd_twist split: call_pc.split)
  have tq: "store_exec env (Tick q) (S x a b) = S x' a b'"
    if "call_step env False b x = (b', x')" "b \<noteq> DeleteFlag" for x a b x' b'
    using that pq db by (auto simp: S_def split: call_pc.split)
  let ?x = "sy_db s" and ?v = "sql_current_version (sy_db s)"
  let ?y = "?x\<lparr>db_row := Some (fresh_row (?v + 1) dg)\<rparr>" and ?c = "\<lambda>h. Retry MUTATE_ATTEMPTS (MutateState h)"
  note load = load_quiet [OF env]
  have "store_exec env (Call q j (mutate_state g)) (store_exec env (Call p i (mutate_state f)) s)
      = S ?x (mutate_state f) (mutate_state g)" by (simp add: S_def)
  moreover have "store_exec env (Tick p) (S ?x (mutate_state f) b) = S ?x (FlagCheck (?c f) df None) b" for b
    by (rule tp) (simp_all add: mutate_state_def on_ok_def load d [symmetric] f)
  moreover have "store_exec env (Tick q) (S ?x a (mutate_state g)) = S ?x a (FlagCheck (?c g) dg None)" for a
    by (rule tq) (simp_all add: mutate_state_def on_ok_def load d [symmetric] g)
  moreover have "store_exec env (Tick q) (S ?x a (FlagCheck (?c g) dg None)) = S ?x a (ReadRevision (?c g) dg)" for a
    by (rule tq) (simp_all add: on_ok_def gate)
  moreover have "store_exec env (Tick q) (S ?x a (ReadRevision (?c g) dg)) = S ?x a (Write (?c g) dg ?v)" for a
    by (rule tq) (simp_all add: on_ok_def load)
  moreover have "store_exec env (Tick q) (S ?x a (Write (?c g) dg ?v)) = S ?y a (Finished (Inr True))" for a
    by (rule tq) (simp_all add: save)
  moreover have "store_exec env (Tick p) (S ?y (FlagCheck (?c f) df None) b) = S ?y (ReadRevision (?c f) df) b" for b
    by (rule tp) (simp_all add: on_ok_def gate)
  moreover have "store_exec env (Tick p) (S ?y (ReadRevision (?c f) df) b) = S ?y (Write (?c f) df (?v + 1)) b" for b
    by (rule tp) (simp_all add: on_ok_def load)
  moreover have "store_exec env (Tick p) (S ?y (Write (?c f) df (?v + 1)) b)
      = S (?x\<lparr>db_row := Some (fresh_row (?v + 1 + 1) df)\<rparr>) (Finished (Inr True)) b" for b
    by (rule tp) (simp_all add: db)
  ultimately show ?thesis using pq by (simp add: Let_def del: store_exec.simps) (simp add: S_def)
qed

theorem mutate_state_loses_update_witness:
  "let t = store_run open_env [Call 0 0 (mutate_state (\<lambda>x. Inr x)), Call 1 1 (mutate_state (\<lambda>x. Inr (bump_all x))), Tick 0, Tick 1,
             Tick 1, Tick 1, Tick 1, Tick 0, Tick 0, Tick 0] (stored 0 (\<lambda>_. (0, Finished (Inr True))))
   in snd (sy_calls t 1) = Finished (Inr True) \<and> current_doc open_env (sy_db t) = blank_doc"
proof -
  have "current_doc open_env (sy_db (stored 0 c)) = blank_doc" for c
    by (simp add: current_doc_def stored_def fresh_row_def)
  then show ?thesis
    using mutate_state_loses_update [of open_env "stored 0 (\<lambda>_. (0, Finished (Inr True)))" 0 1 blank_doc 0 1
        "\<lambda>x. Inr x" blank_doc "\<lambda>x. Inr (bump_all x)" "bump_all blank_doc"]
    by (simp add: Let_def bump_all_ok del: store_exec.simps run_simps)
qed

section \<open>Deletion\<close>



text \<open>
  A re-registration lets a zombie in: connecting clears the tombstone, and the guarded
  statement inserts whatever revision the writer expects when there is no row. So a save of the
  deleted project that another process has under way is stored as the first revision of the new one.
\<close>

theorem zombie_save_resurrects:
  assumes "sy_calls s z = (i, FlagCheck c d (Some r))" "sy_calls s p = (j, DeleteTx)" "z \<noteq> p"
    and "\<not> sy_deleted s i" "se_gate env d = Inr d"
  shows "let t = store_run env [Tick p, Connect, Tick z, Tick z] s
         in db_row (sy_db t) = Some (fresh_row 1 d) \<and> snd (sy_calls t z) = Finished (Inr True)"
  using assms by (simp add: on_ok_def delete_tx_def tombstone_clear_def guarded_save_def)

theorem zombie_save_resurrects_witness:
  "db_row (sy_db (store_run open_env [Tick 0, Connect, Tick 1, Tick 1] (stored 4 (\<lambda>p. if p = 0 then (0, DeleteTx)
      else (1, FlagCheck Once blank_doc (Some 5)))))) = Some (fresh_row 1 blank_doc)"
  using zombie_save_resurrects [of "stored 4 (\<lambda>p. if p = 0 then (0, DeleteTx) else (1, FlagCheck Once blank_doc (Some 5)))"
      1 1 Once blank_doc 5 0 0 open_env] by (simp add: stored_def open_env_def Let_def del: store_exec.simps run_simps)

section \<open>Termination and coherence\<close>

text \<open>
  Every call ends: a call that starts with \<open>mutate_state\<close> or \<open>mutate_shard\<close> is finished after at
  most 91 of its own steps, whatever the mutator does and however the other calls interleave.
\<close>

theorem store_calls_end:
  assumes "snd (sy_calls s p) = mutate_state f \<or> snd (sy_calls s p) = mutate_shard k g"
    and "no_call p evs" and "91 \<le> ticks p evs"
  shows "\<exists>r. snd (sy_calls (store_run env evs s) p) = Finished r"
proof -
  have "steps_left (snd (sy_calls s p)) = 91"
    using assms(1) by (auto simp: mutate_state_def mutate_shard_def MUTATE_ATTEMPTS_def)
  then show ?thesis using steps_left_run [OF assms(2), of env s] assms(3) by (simp add: finished_iff)
qed

theorem store_calls_end_witness:
  "\<exists>r. snd (sy_calls (store_run open_env (replicate 91 (Tick 0)) (stored 4 (\<lambda>_. (0, mutate_state (\<lambda>x. Inr x))))) 0) = Finished r"
  using store_calls_end [of "stored 4 (\<lambda>_. (0, mutate_state (\<lambda>x. Inr x)))" 0 "\<lambda>x. Inr x" ShardWork "\<lambda>x. Inr x"
      "replicate 91 (Tick 0)" open_env] by (simp add: stored_def no_call_def ticks_def list_all_iff)



section \<open>The shard seam\<close>

text \<open>
  Splitting a document into its shards and reassembling it loses nothing and mixes nothing up:
  the fields of the five shards are a partition of the fields of the document, reassembly is the
  inverse of splitting in both directions, and replacing a shard by its own projection
  is the identity.
\<close>

theorem shards_roundtrip:
  fixes d :: "'v aggregate"
  assumes "aggregate_ok d"
  shows "distinct (concat (map fields_of shard_ALL)) \<and> set (concat (map fields_of shard_ALL)) = set PROJECT_FIELDS
    \<and> from_shards (into_shards d) = d
    \<and> (\<forall>dflt k. with_shard (shard dflt k d) d = d)
    \<and> (\<forall>k p. payload_ok k p \<longrightarrow> ss_data (shard dflt k (with_shard (state_shard_new (data_of k p)) d)) = data_of k p)"
proof -
  have "set (concat (map fields_of shard_ALL)) = set PROJECT_FIELDS"
    using fields_partition(2) by (simp add: shard_ALL_all)
  moreover have "with_shard (shard dflt' k d) d = d" for dflt' k
    using doc.put_get [OF assms, of k] by (simp add: shard_eq put_shard_def get_shard_eq)
  moreover have "ss_data (shard dflt k (with_shard (state_shard_new (data_of k p)) d)) = data_of k p"
    if "payload_ok k p" for k p
    using doc.get_put [OF assms that] by (simp add: shard_eq put_shard_def get_shard_eq state_shard_new_def)
  ultimately show ?thesis using fields_partition(1) from_into_shards [OF assms] by blast
qed

theorem shards_roundtrip_witness:
  "from_shards (into_shards blank_doc) = blank_doc"
  using shards_roundtrip [OF blank_doc_ok, of "\<lambda>_. Map.empty"] by blast

end
