(* ===== verification/Merge_Policy.thy ===== *)
theory Merge_Policy
  imports Approval Merge_Lock Complex_Main
begin

text \<open>
  The pure decisions around pull requests: \<open>application/src/use_cases/merge_policy.rs\<close> (which ticket a
  title names, which diffs need a person, whether a change is already on the main branch, how two pull
  requests for one ticket are resolved, when a kept-open hold expires, who takes over a ticket that keeps
  failing), the round accounting of \<open>cycle/forge_review.rs\<close> (\<open>open_hold_round\<close>), the lease
  gate of \<open>use_cases/merge_gate.rs\<close> and the governance checks of \<open>policy.rs\<close>. Money is rational
  instead of \<open>f64\<close>.
\<close>

section \<open>Text\<close>

definition strip_cr :: "string \<Rightarrow> string" where
  "strip_cr l = (if l \<noteq> [] \<and> last l = CHR 0x0D then butlast l else l)"

text \<open>\<open>str::lines\<close>: a line ends at a line feed, with or without a carriage return; no empty last line.\<close>

definition str_lines :: "string \<Rightarrow> string list" where
  "str_lines s =
     (let ps = split_on (\<lambda>c. c = CHR 0x0A) s
      in map strip_cr (butlast ps) @ (if last ps = [] then [] else [last ps]))"

definition split_whitespace :: "string \<Rightarrow> string list" where
  "split_whitespace s = filter (\<lambda>w. w \<noteq> []) (split_on is_white s)"

definition is_ascii_uppercase :: "char \<Rightarrow> bool" where
  "is_ascii_uppercase c \<longleftrightarrow> (let n = (of_char c :: nat) in 65 \<le> n \<and> n \<le> 90)"

section \<open>Which ticket a title names\<close>

fun ticket_id_in :: "string \<Rightarrow> string option" where
  "ticket_id_in [] = None"
| "ticket_id_in (c # cs) =
     (if \<not> is_ascii_uppercase c then ticket_id_in cs
      else let letters = takeWhile is_ascii_uppercase (c # cs) in
        if length letters < 2 then ticket_id_in cs
        else case dropWhile is_ascii_uppercase (c # cs) of
          [] \<Rightarrow> ticket_id_in cs
        | d # tail \<Rightarrow>
            if d \<noteq> CHR ''-'' then ticket_id_in cs
            else let digits = takeWhile is_ascii_alphanumeric tail in
              if \<exists>x \<in> set digits. is_ascii_digit x then Some (letters @ ''-'' @ digits) else ticket_id_in cs)"

definition competing_pr :: "nat \<Rightarrow> string \<Rightarrow> (nat \<times> string) list \<Rightarrow> nat option" where
  "competing_pr number title prs =
     (case ticket_id_in title of
        None \<Rightarrow> None
      | Some t \<Rightarrow> map_option fst (find (\<lambda>(n, x). n \<noteq> number \<and> ticket_id_in x = Some t) prs))"

section \<open>Diffs\<close>

definition HUMAN_SENSITIVE :: "string list" where
  "HUMAN_SENSITIVE = [''.github/workflows'', ''Dockerfile'', ''docker-compose'', ''scripts/'', ''Cargo.toml'',
     ''coxagent.json'', ''CLAUDE.md'', ''AGENTS.md'', ''.claude/'']"

definition is_changed_line :: "string \<Rightarrow> bool" where
  "is_changed_line l \<longleftrightarrow> (starts_with l ''+'' \<or> starts_with l ''-'')
     \<and> \<not> starts_with l ''+++'' \<and> \<not> starts_with l ''---''"

definition is_header_line :: "string \<Rightarrow> bool" where
  "is_header_line l \<longleftrightarrow> starts_with l ''+++'' \<or> starts_with l ''---'' \<or> starts_with l ''diff ''"

definition needs_human_eyes :: "string \<Rightarrow> nat \<Rightarrow> string option" where
  "needs_human_eyes diff max_changed_lines =
     (let changed = length (filter is_changed_line (str_lines diff)) in
      if 0 < max_changed_lines \<and> max_changed_lines < changed
      then Some (nat_str changed @ '' changed lines is past what lands unreviewed'')
      else map_option (\<lambda>p. ''it changes '' @ p @ '', which decides how everything else ships'')
             (find (\<lambda>p. \<exists>l \<in> set (str_lines diff). contains_str l p \<and> is_header_line l) HUMAN_SENSITIVE))"

definition new_path :: "string \<Rightarrow> string option" where
  "new_path rest =
     (case split_whitespace rest of [] \<Rightarrow> None | ws \<Rightarrow> strip_prefix ''b/'' (last ws))"

definition is_evidence :: "string \<Rightarrow> bool" where
  "is_evidence t \<longleftrightarrow> 12 \<le> byte_len t \<and> \<not> starts_with t ''//'' \<and> \<not> starts_with t ''*''"

text \<open>The file sections read so far, the one being filled last.\<close>

fun added_from :: "(string \<times> string list) list \<Rightarrow> string list \<Rightarrow> (string \<times> string list) list" where
  "added_from out [] = out"
| "added_from out (l # ls) =
     (case strip_prefix ''diff --git '' l of
        Some rest \<Rightarrow> added_from (out @ [(case new_path rest of Some f \<Rightarrow> f | None \<Rightarrow> [], [])]) ls
      | None \<Rightarrow>
          (case strip_prefix ''+'' l of
             None \<Rightarrow> added_from out ls
           | Some added \<Rightarrow>
               if out = [] \<or> starts_with l ''+++'' \<or> \<not> is_evidence (trim added) then added_from out ls
               else added_from (butlast out @ [(fst (last out), snd (last out) @ [trim added])]) ls))"

definition added_lines_by_file :: "string \<Rightarrow> (string \<times> string list) list" where
  "added_lines_by_file diff = filter (\<lambda>(f, ls). f \<noteq> [] \<and> ls \<noteq> []) (added_from [] (str_lines diff))"

definition diff_landed_on_main :: "string \<Rightarrow> (string \<Rightarrow> string option) \<Rightarrow> bool" where
  "diff_landed_on_main diff read =
     (let files = added_lines_by_file diff;
          samples = concat (map (\<lambda>(f, ls). map (\<lambda>l. contains_str (case read f of Some c \<Rightarrow> c | None \<Rightarrow> []) l) (take 20 ls)) files)
      in files \<noteq> [] \<and> 0 < length samples \<and> length samples * 8 \<le> length (filter id samples) * 10)"

definition changed_files :: "string \<Rightarrow> string list" where
  "changed_files diff =
     List.map_filter (\<lambda>l. case strip_prefix ''diff --git '' l of None \<Rightarrow> None | Some rest \<Rightarrow> new_path rest) (str_lines diff)"

definition SCRATCH :: "string list" where
  "SCRATCH = [''.claude/worktrees/'', ''.claude/settings.local.json'', ''.gitnexus/'', ''backups/'', ''target/'',
     ''node_modules/'', ''cox-opencode.json'', ''cox-config.json'']"

definition commits_scratch :: "string \<Rightarrow> string option" where
  "commits_scratch diff =
     (case List.map_filter (\<lambda>l. find (\<lambda>p. contains_str l p) SCRATCH) (filter is_header_line (str_lines diff)) of
        [] \<Rightarrow> None | p # _ \<Rightarrow> Some p)"

section \<open>Two pull requests for one ticket\<close>

record compete_candidate =
  cc_number :: nat
  cc_files :: "string list option"
  cc_unsafe_change :: bool

datatype compete_outcome =
    MergeClose nat nat
  | Proceed nat nat
  | Hold string

definition resolve_competing :: "compete_candidate \<Rightarrow> compete_candidate \<Rightarrow> compete_outcome" where
  "resolve_competing a b =
     (case (cc_files a, cc_files b) of
        (Some a_files, Some b_files) \<Rightarrow>
          if a_files = [] \<or> b_files = [] then Hold ''diff has no parseable file headers - keeping both''
          else let a_covers_b = set b_files \<subseteq> set a_files; b_covers_a = set a_files \<subseteq> set b_files in
            if cc_unsafe_change a
            then Hold ''touches a load-bearing or oversized change - a human should rule on it''
            else if cc_unsafe_change b
            then if b_covers_a \<and> \<not> a_covers_b then Proceed (cc_number a) (cc_number b)
                 else Hold ''the competing change is load-bearing or oversized - a human should rule on it''
            else if a_covers_b then MergeClose (cc_number a) (cc_number b)
            else if b_covers_a then MergeClose (cc_number b) (cc_number a)
            else Hold ''each PR touches files the other does not - closing either would drop work''
      | _ \<Rightarrow> Hold ''could not read a competing diff - keeping both'')"

section \<open>Kept-open holds\<close>

record pr_open_hold =
  ph_reason :: string
  ph_rounds :: nat
  ph_head_sha :: string
  ph_first_at :: string
  ph_last_at :: string

datatype hold_expiry = Keep nat | Land nat | Close nat

definition open_hold_expiry :: "pr_open_hold option \<Rightarrow> string \<Rightarrow> string \<Rightarrow> bool \<Rightarrow> nat \<Rightarrow> hold_expiry" where
  "open_hold_expiry prior reason head_sha landable max_rounds =
     (if max_rounds = 0 then Keep (case prior of None \<Rightarrow> 1 | Some p \<Rightarrow> ph_rounds p)
      else case prior of
        None \<Rightarrow> Keep 1
      | Some p \<Rightarrow>
          if ph_reason p \<noteq> reason then Keep 1
          else if head_sha = [] then Keep (max (ph_rounds p) 1)
          else if ph_head_sha p \<noteq> head_sha then Keep 1
          else let rounds = min U32_MAX (ph_rounds p + 1) in
            if rounds < max_rounds then Keep rounds
            else if landable then Land rounds else Close rounds)"

text \<open>\<open>open_hold_round\<close>: the record of the pull request after one round, and the decision.\<close>

definition open_hold_round ::
  "nat \<Rightarrow> string \<Rightarrow> string \<Rightarrow> bool \<Rightarrow> string \<Rightarrow> pr_open_hold option \<Rightarrow> hold_expiry \<times> pr_open_hold option" where
  "open_hold_round max_rounds reason head_sha landable now stored =
     (if max_rounds = 0 then (open_hold_expiry None reason head_sha landable 0, stored)
      else
        let decision = open_hold_expiry stored reason head_sha landable max_rounds;
            chain = (case stored of
                Some p \<Rightarrow> if ph_reason p = reason \<and> (head_sha = [] \<or> ph_head_sha p = head_sha)
                  then (ph_first_at p, ph_head_sha p) else (now, [])
              | None \<Rightarrow> (now, []))
        in (decision,
            case decision of
              Keep rounds \<Rightarrow> Some \<lparr>ph_reason = reason, ph_rounds = rounds,
                 ph_head_sha = (if head_sha = [] then snd chain else head_sha),
                 ph_first_at = fst chain, ph_last_at = now\<rparr>
            | _ \<Rightarrow> None))"

section \<open>Who takes over\<close>

definition MAX_TICKET_RESCUES :: nat where "MAX_TICKET_RESCUES = 2"

datatype takeover_route = RouteSpec | RouteMechanical | RouteDesign | RouteOversize

definition route_from_failures :: "attempt_failure list \<Rightarrow> bool \<Rightarrow> takeover_route" where
  "route_from_failures failures spec_gap =
     (let real = filter (\<lambda>f. af_layer f \<noteq> LInfra) failures in
      if real = [] then RouteDesign
      else if 2 \<le> length (filter (\<lambda>f. contains_str (af_detail f) ''iteration/token cap'') real) then RouteOversize
      else if (\<exists>f \<in> set real. af_layer f = LSpec) \<or> spec_gap then RouteSpec
      else if \<forall>f \<in> set real. af_layer f = LGate then RouteMechanical
      else RouteDesign)"

text \<open>\<open>str::matches\<close> counts the disjoint occurrences from the left.\<close>

fun count_matches :: "nat \<Rightarrow> string \<Rightarrow> string \<Rightarrow> nat" where
  "count_matches 0 s sub = 0"
| "count_matches (Suc n) s sub =
     (case s of [] \<Rightarrow> 0
      | _ # cs \<Rightarrow> if starts_with s sub then Suc (count_matches n (drop (length sub) s) sub) else count_matches n cs sub)"

definition UNCLEAR :: "string list" where
  "UNCLEAR = [''unclear'', ''ambiguous'', ''no acceptance'', ''missing acceptance'', ''cannot reproduce'',
     ''could not reproduce'', ''no repro'', ''not enough context'']"

definition GATES :: "string list" where
  "GATES = [''clippy'', ''regression test'', ''suite is red'', ''left tests red'', ''rustfmt'', ''cargo fmt'', ''lint'']"

definition escalation_route :: "string \<Rightarrow> bool \<Rightarrow> takeover_route" where
  "escalation_route history spec_gap =
     (let low = to_lowercase history;
          entries = filter (\<lambda>l. trim l \<noteq> []) (str_lines low) in
      if 2 \<le> count_matches (length low) low ''iteration/token cap'' then RouteOversize
      else if (\<exists>k \<in> set UNCLEAR. contains_str low k) \<or> (spec_gap \<and> low \<noteq> []) then RouteSpec
      else if entries \<noteq> [] \<and> (\<forall>l \<in> set entries. \<exists>g \<in> set GATES. contains_str l g) then RouteMechanical
      else RouteDesign)"

section \<open>The lease gate\<close>

datatype merge_decision = MergeProceed | MergeSkip string string

definition int_str :: "int \<Rightarrow> string" where
  "int_str i = (if i < 0 then ''-'' @ nat_str (nat (- i)) else nat_str (nat i))"

definition decide :: "lease_doc option \<Rightarrow> int \<Rightarrow> string \<Rightarrow> merge_decision" where
  "decide held now self_holder =
     (case held of
        None \<Rightarrow> MergeProceed
      | Some h \<Rightarrow>
          if ld_holder h = self_holder \<or> expired_at now h then MergeProceed
          else MergeSkip (ld_holder h)
            (''merge lease on this branch held by '' @ ld_holder h @ '' since '' @ int_str (ld_acquired_at_unix h)
             @ '' (expires at '' @ int_str (ld_expires_at_unix h) @ ''); ''
             @ int_str (max (ld_expires_at_unix h - now) 0) @ ''s remain''))"

definition MIN_LEASE_SECS :: nat where "MIN_LEASE_SECS = 5"
definition MAX_LEASE_SECS :: nat where "MAX_LEASE_SECS = 900"

definition clamp_lease_ttl :: "nat \<Rightarrow> nat" where
  "clamp_lease_ttl secs = max MIN_LEASE_SECS (min MAX_LEASE_SECS secs)"

section \<open>Governance checks\<close>

record policy_config =
  po_model_allowlist :: "string list"
  po_forbidden_paths :: "string list"
  po_daily_budget_usd :: "rat option"
  po_budget_warn_pct :: rat

definition model_allowed :: "policy_config \<Rightarrow> string \<Rightarrow> bool" where
  "model_allowed p m \<longleftrightarrow> po_model_allowlist p = [] \<or> m \<in> set (po_model_allowlist p)"

definition forbidden_hits :: "policy_config \<Rightarrow> string list \<Rightarrow> string list" where
  "forbidden_hits p changed =
     filter (\<lambda>c. \<exists>f \<in> set (po_forbidden_paths p). f \<noteq> [] \<and> starts_with c f) changed"

definition over_daily_budget :: "policy_config \<Rightarrow> rat \<Rightarrow> bool" where
  "over_daily_budget p spent = (case po_daily_budget_usd p of None \<Rightarrow> False | Some cap \<Rightarrow> 0 < cap \<and> cap \<le> spent)"

definition approaching_cap :: "rat \<Rightarrow> rat option \<Rightarrow> rat \<Rightarrow> bool" where
  "approaching_cap spend cap pct =
     (case cap of None \<Rightarrow> False | Some c \<Rightarrow> 0 < c \<and> c * pct \<le> spend \<and> spend < c)"

section \<open>Lemmas\<close>

text \<open>What a ticket id in a title looks like.\<close>

definition id_shaped :: "string \<Rightarrow> string \<Rightarrow> bool" where
  "id_shaped L D \<longleftrightarrow> 2 \<le> length L \<and> list_all is_ascii_uppercase L \<and> list_all is_ascii_alphanumeric D
     \<and> list_ex is_ascii_digit D"

lemma ticket_id_in_sound:
  "ticket_id_in t = Some i \<Longrightarrow> \<exists>pre L D post. t = pre @ i @ post \<and> i = L @ ''-'' @ D \<and> id_shaped L D"
proof (induction t)
  case (Cons c cs)
  let ?t = "c # cs"
  let ?L = "takeWhile is_ascii_uppercase ?t" and ?rest = "dropWhile is_ascii_uppercase ?t"
  show ?case
  proof (cases "ticket_id_in cs = Some i")
    case True
    then show ?thesis using Cons.IH by (metis append_Cons)
  next
    case False
    then obtain tail where u: "is_ascii_uppercase c" "2 \<le> length ?L" and r: "?rest = CHR ''-'' # tail"
      and d: "\<exists>x \<in> set (takeWhile is_ascii_alphanumeric tail). is_ascii_digit x"
      and i: "i = ?L @ ''-'' @ takeWhile is_ascii_alphanumeric tail"
      using Cons.prems by (auto simp: Let_def Suc_le_eq split: if_splits list.splits)
    have "?t = [] @ i @ dropWhile is_ascii_alphanumeric tail"
      using takeWhile_dropWhile_id [of is_ascii_uppercase ?t] r
        takeWhile_dropWhile_id [of is_ascii_alphanumeric tail] unfolding i by (metis append.assoc append_Cons append_Nil)
    moreover have "id_shaped ?L (takeWhile is_ascii_alphanumeric tail)"
      using u(2) d by (auto simp: id_shaped_def list_all_iff list_ex_iff dest: set_takeWhileD)
    ultimately show ?thesis using i by blast
  qed
qed simp

lemma ticket_id_in_complete:
  assumes "list_all (\<lambda>c. \<not> is_ascii_uppercase c) pre" "id_shaped L D"
    and "post = [] \<or> \<not> is_ascii_alphanumeric (hd post)"
  shows "ticket_id_in (pre @ L @ ''-'' @ D @ post) = Some (L @ ''-'' @ D)"
  using assms(1)
proof (induction pre)
  case Nil
  have L: "2 \<le> length L" "\<forall>x \<in> set L. is_ascii_uppercase x" using assms(2) by (auto simp: id_shaped_def list_all_iff)
  then obtain c cs where c: "L = c # cs" "is_ascii_uppercase c" by (cases L) auto
  have dash: "\<not> is_ascii_uppercase (CHR ''-'')" by (simp add: is_ascii_uppercase_def)
  have tl: "takeWhile is_ascii_uppercase (L @ ''-'' @ D @ post) = L"
    "dropWhile is_ascii_uppercase (L @ ''-'' @ D @ post) = CHR ''-'' # D @ post"
    using L(2) dash by (simp_all add: takeWhile_append2 dropWhile_append2)
  have D: "takeWhile is_ascii_alphanumeric (D @ post) = D"
    using assms(2,3) by (cases post) (auto simp: id_shaped_def list_all_iff takeWhile_append2)
  have dig: "\<exists>x \<in> set D. is_ascii_digit x" using assms(2) by (auto simp: id_shaped_def list_ex_iff)
  obtain t where t: "L @ ''-'' @ D @ post = c # t" using c by simp
  have "ticket_id_in (c # t) = Some (L @ ''-'' @ D)"
    using tl D dig c L(1) unfolding t by (cases cs) (auto simp: Let_def)
  then show ?case using t by simp
next
  case (Cons x pre)
  then show ?case by simp
qed

text \<open>The rounds of one hold, each with the head it could read and its time, up to the terminal decision.\<close>

fun hold_run :: "nat \<Rightarrow> string \<Rightarrow> bool \<Rightarrow> (string \<times> string) list \<Rightarrow> pr_open_hold option \<Rightarrow> hold_expiry list" where
  "hold_run max_rounds reason landable [] stored = []"
| "hold_run max_rounds reason landable ((head_sha, now) # rs) stored =
     (case open_hold_round max_rounds reason head_sha landable now stored of (d, stored') \<Rightarrow>
        d # (case d of Keep _ \<Rightarrow> hold_run max_rounds reason landable rs stored' | _ \<Rightarrow> []))"

definition terminal_hold :: "bool \<Rightarrow> nat \<Rightarrow> hold_expiry" where
  "terminal_hold landable rounds = (if landable then Land rounds else Close rounds)"

lemma hold_run_counts:
  assumes "0 < m" "m < U32_MAX" "h \<noteq> []" "ph_reason p = reason" "ph_head_sha p = h"
    and "1 \<le> ph_rounds p" "ph_rounds p < max 2 m"
    and "\<forall>(x, _) \<in> set rs. x = [] \<or> x = h"
    and "max 2 m \<le> ph_rounds p + length (filter (\<lambda>(x, _). x \<noteq> []) rs)"
  shows "\<exists>ks. hold_run m reason landable rs (Some p) = map Keep ks @ [terminal_hold landable (max 2 m)]"
  using assms(4-)
proof (induction rs arbitrary: p)
  case (Cons r rs)
  obtain x now where r: "r = (x, now)" by (cases r)
  show ?case
  proof (cases "x = []")
    case True
    define q where "q = \<lparr>ph_reason = reason, ph_rounds = ph_rounds p, ph_head_sha = h,
      ph_first_at = ph_first_at p, ph_last_at = now\<rparr>"
    have "open_hold_round m reason x landable now (Some p) = (Keep (ph_rounds p), Some q)"
      using assms(1) Cons.prems True by (simp add: open_hold_round_def open_hold_expiry_def Let_def q_def max_def)
    moreover obtain ks where "hold_run m reason landable rs (Some q) = map Keep ks @ [terminal_hold landable (max 2 m)]"
      using Cons.IH [of q] Cons.prems True r by (auto simp: q_def)
    ultimately show ?thesis using r by (auto intro: exI [of _ "ph_rounds p # ks"])
  next
    case False
    then have x: "x = h" using Cons.prems r by auto
    have succ: "min U32_MAX (ph_rounds p + 1) = ph_rounds p + 1" using assms(2) Cons.prems(4)
      by (cases "m \<le> 2") (auto simp: U32_MAX_def)
    show ?thesis
    proof (cases "ph_rounds p + 1 < m")
      case True
      define q where "q = \<lparr>ph_reason = reason, ph_rounds = ph_rounds p + 1, ph_head_sha = h,
        ph_first_at = ph_first_at p, ph_last_at = now\<rparr>"
      have "open_hold_round m reason x landable now (Some p) = (Keep (ph_rounds p + 1), Some q)"
        using assms(1,3) Cons.prems True x succ by (simp add: open_hold_round_def open_hold_expiry_def Let_def q_def)
      moreover obtain ks where "hold_run m reason landable rs (Some q) = map Keep ks @ [terminal_hold landable (max 2 m)]"
        using Cons.IH [of q] Cons.prems True r x assms(3) by (auto simp: q_def)
      ultimately show ?thesis using r by (auto intro: exI [of _ "(ph_rounds p + 1) # ks"])
    next
      case False
      then have full: "ph_rounds p + 1 = max 2 m" using Cons.prems(3,4) by auto
      have "fst (open_hold_round m reason x landable now (Some p)) = terminal_hold landable (max 2 m)"
        using assms(1,3) Cons.prems False x succ full
        by (auto simp: open_hold_round_def open_hold_expiry_def Let_def terminal_hold_def)
      then show ?thesis using r
        by (auto simp: split_beta terminal_hold_def intro: exI [of _ "[]"])
    qed
  qed
qed (auto simp: max_def split: if_splits)

text \<open>The lease gate and the lock agree on when a runner may go on.\<close>

lemma decide_takeover:
  "decide held now self = MergeProceed \<longleftrightarrow> takeover_allowed self now held"
  by (simp add: decide_def takeover_allowed_def expired_at_def split: option.split)

end
