(* ===== verification/Coordination.thy ===== *)
theory Coordination
  imports Prelude
begin

text \<open>
  Coordination between runners: the leader lease, the per-ticket stage leases and the worker registry,
  in the three implementations of the repository: the file beside the state
  (\<open>infrastructure/src/state/json_store.rs\<close>), the table \<open>project_coord\<close>
  (\<open>sql_store.rs\<close>) and Redis (\<open>redis_coord.rs\<close>). Each operation is one critical section of its
  backend (the file lock, one conditional statement, one Lua script) and is one function here.
  Times are nanoseconds in the file (parsed from RFC 3339 text by an argument), microseconds in the
  table and milliseconds in Redis, as the backends keep them.

  The locale \<open>lease_service\<close> states what a caller relies on; it is interpreted on the four
  kinds of lease, and its main lemma says that each of them answers like one reference table.
\<close>

section \<open>The coordination file\<close>

definition LEADER_TTL_SECS :: int where "LEADER_TTL_SECS = 90"
definition STAGE_TTL_SECS :: int where "STAGE_TTL_SECS = 1800"
definition WORKER_TTL_SECS :: int where "WORKER_TTL_SECS = 600"

record lease =
  le_worker :: string
  le_at :: string

record stage_lease =
  sg_ticket :: string
  sg_stage :: string
  sg_worker :: string
  sg_at :: string

record 'c worker_entry =
  we_worker :: string
  we_role :: string
  we_ticket :: string
  we_at :: string
  we_caps :: 'c

record 'c coord =
  co_leader :: "lease option"
  co_leases :: "stage_lease list"
  co_workers :: "'c worker_entry list"

type_synonym rfc3339 = "string \<Rightarrow> int option"

text \<open>\<open>whole_seconds\<close> rounds toward zero.\<close>

definition whole_seconds :: "int \<Rightarrow> int" where
  "whole_seconds ns = (if 0 \<le> ns then ns div 1000000000 else - (- ns div 1000000000))"

definition age_secs :: "rfc3339 \<Rightarrow> string \<Rightarrow> string \<Rightarrow> int" where
  "age_secs parse at' now =
     (case (parse at', parse now) of
        (Some a, Some n) \<Rightarrow> whole_seconds (n - a)
      | _ \<Rightarrow> I64_MAX)"

definition acquire_leader :: "rfc3339 \<Rightarrow> string \<Rightarrow> string \<Rightarrow> 'c coord \<Rightarrow> bool \<times> 'c coord" where
  "acquire_leader parse worker now c =
     (let can_lead = (case co_leader c of
            None \<Rightarrow> True
          | Some l \<Rightarrow> le_worker l = worker \<or> age_secs parse (le_at l) now > LEADER_TTL_SECS)
      in (can_lead, if can_lead then c\<lparr>co_leader := Some \<lparr>le_worker = worker, le_at = now\<rparr>\<rparr> else c))"

definition claim_stage ::
  "rfc3339 \<Rightarrow> string \<times> string \<Rightarrow> string \<Rightarrow> string \<Rightarrow> 'c coord \<Rightarrow> bool \<times> 'c coord" where
  "claim_stage parse key worker now c =
     (let live = filter (\<lambda>l. age_secs parse (sg_at l) now \<le> STAGE_TTL_SECS) (co_leases c);
          on_key = (\<lambda>l. sg_ticket l = fst key \<and> sg_stage l = snd key);
          taken = \<lparr>sg_ticket = fst key, sg_stage = snd key, sg_worker = worker, sg_at = now\<rparr>
      in case find on_key live of
           Some l \<Rightarrow>
             if sg_worker l \<noteq> worker then (False, c)
             else (True, c\<lparr>co_leases := filter (\<lambda>l. \<not> on_key l) live @ [taken]\<rparr>)
         | None \<Rightarrow> (True, c\<lparr>co_leases := filter (\<lambda>l. \<not> on_key l) live @ [taken]\<rparr>))"

definition heartbeat_worker :: "rfc3339 \<Rightarrow> string \<Rightarrow> string \<Rightarrow> string \<Rightarrow> 'c \<Rightarrow> string \<Rightarrow> 'c coord \<Rightarrow> 'c coord" where
  "heartbeat_worker parse worker role ticket caps now c =
     c\<lparr>co_workers :=
         filter (\<lambda>w. we_worker w \<noteq> worker \<and> age_secs parse (we_at w) now \<le> WORKER_TTL_SECS) (co_workers c)
         @ [\<lparr>we_worker = worker, we_role = role, we_ticket = ticket, we_at = now, we_caps = caps\<rparr>]\<rparr>"

definition workers :: "rfc3339 \<Rightarrow> string \<Rightarrow> 'c coord \<Rightarrow> 'c worker_entry list" where
  "workers parse now c = filter (\<lambda>w. age_secs parse (we_at w) now \<le> WORKER_TTL_SECS) (co_workers c)"

section \<open>The table\<close>

type_synonym coord_table = "string \<times> string \<rightharpoonup> string \<times> int"

text \<open>\<open>upsert_lease\<close>: one conditional statement; \<open>now\<close> is the clock of the database.\<close>

definition upsert_lease :: "int \<Rightarrow> string \<times> string \<Rightarrow> string \<Rightarrow> int \<Rightarrow> coord_table \<Rightarrow> bool \<times> coord_table" where
  "upsert_lease ttl_secs key worker now tbl =
     (case tbl key of
        None \<Rightarrow> (True, tbl(key \<mapsto> (worker, now)))
      | Some (w, at') \<Rightarrow>
          if w = worker \<or> at' < now - ttl_secs * 1000000 then (True, tbl(key \<mapsto> (worker, now))) else (False, tbl))"

definition sql_acquire_leader :: "string \<Rightarrow> int \<Rightarrow> coord_table \<Rightarrow> bool \<times> coord_table" where
  "sql_acquire_leader = upsert_lease LEADER_TTL_SECS (''leader'', [])"

definition sql_claim_stage :: "string \<Rightarrow> string \<Rightarrow> string \<Rightarrow> int \<Rightarrow> coord_table \<Rightarrow> bool \<times> coord_table" where
  "sql_claim_stage ticket stage = upsert_lease STAGE_TTL_SECS (''stage'', ticket @ ''|'' @ stage)"

section \<open>Redis\<close>

definition LEADER_TTL_MS :: int where "LEADER_TTL_MS = 90000"
definition STAGE_TTL_MS :: int where "STAGE_TTL_MS = 1800000"
definition OPLOCK_TTL_MS :: int where "OPLOCK_TTL_MS = 90000"

text \<open>A key with a value and the time at which it expires; an expired key is absent.\<close>

type_synonym redis_store = "string \<rightharpoonup> string \<times> int"

definition redis_get :: "string \<Rightarrow> int \<Rightarrow> redis_store \<Rightarrow> string option" where
  "redis_get key now st = (case st key of None \<Rightarrow> None | Some (v, expiry) \<Rightarrow> if now < expiry then Some v else None)"

definition redis_take :: "string \<Rightarrow> string \<Rightarrow> int \<Rightarrow> int \<Rightarrow> redis_store \<Rightarrow> bool \<times> redis_store" where
  "redis_take key worker ttl_ms now st =
     (case redis_get key now st of
        None \<Rightarrow> (True, st(key \<mapsto> (worker, now + ttl_ms)))
      | Some v \<Rightarrow> if v = worker then (True, st(key \<mapsto> (worker, now + ttl_ms))) else (False, st))"

definition redis_acquire_leader :: "string \<Rightarrow> string \<Rightarrow> int \<Rightarrow> redis_store \<Rightarrow> bool \<times> redis_store" where
  "redis_acquire_leader project worker = redis_take (''cox:'' @ project @ '':leader'') worker LEADER_TTL_MS"

definition redis_claim_stage :: "string \<Rightarrow> string \<Rightarrow> string \<Rightarrow> string \<Rightarrow> int \<Rightarrow> redis_store \<Rightarrow> bool \<times> redis_store" where
  "redis_claim_stage project ticket stage worker =
     redis_take (''cox:'' @ project @ '':stage:'' @ ticket @ '':'' @ stage) worker STAGE_TTL_MS"

definition acquire_operator_lock :: "string \<Rightarrow> string \<Rightarrow> string \<Rightarrow> int \<Rightarrow> redis_store \<Rightarrow> bool \<times> redis_store" where
  "acquire_operator_lock project operator inst =
     redis_take (''cox:'' @ project @ '':oplock:'' @ operator) inst OPLOCK_TTL_MS"

section \<open>The reference table\<close>

text \<open>
  One entry per key: who was granted the lease last, and when. A call is granted when the key
  is free, held by the caller, or its lease has expired.
\<close>

definition spec_acquire ::
  "('k \<Rightarrow> 't \<Rightarrow> 't \<Rightarrow> bool) \<Rightarrow> 'k \<Rightarrow> 'w \<Rightarrow> 't \<Rightarrow> ('k \<rightharpoonup> 'w \<times> 't) \<Rightarrow> bool \<times> ('k \<rightharpoonup> 'w \<times> 't)" where
  "spec_acquire expired k w t grants =
     (let ok = (case grants k of None \<Rightarrow> True | Some (v, a) \<Rightarrow> v = w \<or> expired k a t)
      in (ok, if ok then grants(k \<mapsto> (w, t)) else grants))"

fun answers :: "('k \<Rightarrow> 'w \<Rightarrow> 't \<Rightarrow> 's \<Rightarrow> bool \<times> 's) \<Rightarrow> ('k \<times> 'w \<times> 't) list \<Rightarrow> 's \<Rightarrow> bool list" where
  "answers acq [] s = []"
| "answers acq ((k, w, t) # calls) s = (case acq k w t s of (ok, s') \<Rightarrow> ok # answers acq calls s')"

definition in_order :: "('t \<Rightarrow> 't \<Rightarrow> bool) \<Rightarrow> ('k \<times> 'w \<times> 't) list \<Rightarrow> bool" where
  "in_order before calls \<longleftrightarrow> sorted_wrt (\<lambda>(_, _, t) (_, _, t'). before t t') calls"

locale lease_service =
  fixes acquire :: "'k \<Rightarrow> 'w \<Rightarrow> 't \<Rightarrow> 's \<Rightarrow> bool \<times> 's"
    and lessee :: "'k \<Rightarrow> 's \<Rightarrow> ('w \<times> 't) option"
    and expired :: "'k \<Rightarrow> 't \<Rightarrow> 't \<Rightarrow> bool"
    and before :: "'t \<Rightarrow> 't \<Rightarrow> bool"
    and ok :: "'s \<Rightarrow> bool"
  assumes granted_iff: "ok s \<Longrightarrow> fst (acquire k w t s) \<longleftrightarrow>
      (case lessee k s of None \<Rightarrow> True | Some (v, a) \<Rightarrow> v = w \<or> expired k a t)"
    and granted: "ok s \<Longrightarrow> fst (acquire k w t s) \<Longrightarrow> lessee k (snd (acquire k w t s)) = Some (w, t)"
    and denied: "ok s \<Longrightarrow> \<not> fst (acquire k w t s) \<Longrightarrow> snd (acquire k w t s) = s"
    and elsewhere: "ok s \<Longrightarrow> l \<noteq> k \<Longrightarrow> lessee l (snd (acquire k w t s)) = lessee l s
      \<or> lessee l (snd (acquire k w t s)) = None \<and> (\<exists>v a. lessee l s = Some (v, a) \<and> expired l a t)"
    and keeps_ok: "ok s \<Longrightarrow> ok (snd (acquire k w t s))"
    and stays_expired: "expired k a t \<Longrightarrow> before t t' \<Longrightarrow> expired k a t'"
begin

text \<open>The service may have forgotten a grant, but only one that is expired from \<open>t\<close> on.\<close>

definition tracks :: "('k \<rightharpoonup> 'w \<times> 't) \<Rightarrow> 's \<Rightarrow> 't list \<Rightarrow> bool" where
  "tracks grants s ts \<longleftrightarrow> (\<forall>k. lessee k s = grants k
     \<or> lessee k s = None \<and> (\<exists>v a. grants k = Some (v, a) \<and> (\<forall>t \<in> set ts. expired k a t)))"

lemma step_agrees:
  assumes s: "ok s" and tr: "tracks grants s (t # ts)" and later: "\<forall>t' \<in> set ts. before t t'"
  shows "fst (acquire k w t s) = fst (spec_acquire expired k w t grants)"
    and "tracks (snd (spec_acquire expired k w t grants)) (snd (acquire k w t s)) ts"
proof -
  have here: "lessee k s = grants k \<or> lessee k s = None \<and> (\<exists>v a. grants k = Some (v, a) \<and> expired k a t)"
    using tr by (auto simp: tracks_def)
  then show eq: "fst (acquire k w t s) = fst (spec_acquire expired k w t grants)"
    using granted_iff [OF s, of k w t] by (auto simp: spec_acquire_def split: option.split)
  show "tracks (snd (spec_acquire expired k w t grants)) (snd (acquire k w t s)) ts"
    unfolding tracks_def
  proof
    fix l
    let ?g = "snd (spec_acquire expired k w t grants)" and ?s = "snd (acquire k w t s)"
    have old: "lessee l s = grants l \<or> lessee l s = None \<and> (\<exists>v a. grants l = Some (v, a) \<and> (\<forall>t \<in> set ts. expired l a t))"
      using tr by (auto simp: tracks_def)
    show "lessee l ?s = ?g l \<or> lessee l ?s = None \<and> (\<exists>v a. ?g l = Some (v, a) \<and> (\<forall>t \<in> set ts. expired l a t))"
    proof (cases "fst (acquire k w t s)")
      case False
      then have "?g = grants" using eq by (auto simp: spec_acquire_def Let_def)
      then show ?thesis using old denied [OF s False] by simp
    next
      case True
      then have g: "?g = grants(k \<mapsto> (w, t))" using eq by (auto simp: spec_acquire_def Let_def)
      show ?thesis
      proof (cases "l = k")
        case True
        then show ?thesis using granted [OF s \<open>fst (acquire k w t s)\<close>] g by simp
      next
        case False
        then show ?thesis
          using elsewhere [OF s False, of w t] old later stays_expired g by auto
      qed
    qed
  qed
qed

lemma answers_agree:
  assumes "ok s" "tracks grants s (map (\<lambda>(_, _, t). t) calls)" "in_order before calls"
  shows "answers acquire calls s = answers (spec_acquire expired) calls grants"
  using assms
proof (induction calls arbitrary: s grants)
  case (Cons c calls)
  obtain k w t where c: "c = (k, w, t)" by (cases c)
  have later: "\<forall>t' \<in> set (map (\<lambda>(_, _, t). t) calls). before t t'"
    using Cons.prems(3) by (auto simp: in_order_def c split_beta)
  have tr: "tracks grants s (t # map (\<lambda>(_, _, t). t) calls)" using Cons.prems(2) by (simp add: c)
  note st = step_agrees [OF Cons.prems(1) tr later, of k w]
  have "in_order before calls" using Cons.prems(3) by (simp add: in_order_def)
  from Cons.IH [OF keeps_ok [OF Cons.prems(1)] st(2) this]
  show ?case using st(1) by (simp add: c split_beta)
qed simp

lemma answers_agree_empty:
  "ok s \<Longrightarrow> (\<And>k. lessee k s = None) \<Longrightarrow> in_order before calls
    \<Longrightarrow> answers acquire calls s = answers (spec_acquire expired) calls Map.empty"
  by (rule answers_agree) (simp_all add: tracks_def)

end

section \<open>The four leases are lease services\<close>

text \<open>The clock of a caller: both times can be read and do not go backwards.\<close>

definition readable_before :: "rfc3339 \<Rightarrow> string \<Rightarrow> string \<Rightarrow> bool" where
  "readable_before parse t t' \<longleftrightarrow> (\<exists>x y. parse t = Some x \<and> parse t' = Some y \<and> x \<le> y)"

lemma whole_seconds_mono: "x \<le> y \<Longrightarrow> whole_seconds x \<le> whole_seconds y"
  by (auto simp: whole_seconds_def intro: zdiv_mono1) (meson le_minus_iff neg_le_0_iff_le order_trans pos_imp_zdiv_nonneg_iff zero_less_numeral linear)

lemma age_secs_mono:
  assumes "readable_before parse t t'" shows "age_secs parse a t \<le> age_secs parse a t'"
  using assms whole_seconds_mono by (auto simp: readable_before_def age_secs_def split: option.split)

lemma stays_old:
  assumes "ttl < age_secs parse a t" "readable_before parse t t'" shows "ttl < age_secs parse a t'"
  using age_secs_mono [OF assms(2), of a] assms(1) by linarith

definition leader_lessee :: "unit \<Rightarrow> 'c coord \<Rightarrow> (string \<times> string) option" where
  "leader_lessee u c = map_option (\<lambda>l. (le_worker l, le_at l)) (co_leader c)"

interpretation json_leader: lease_service "\<lambda>_ w t c. acquire_leader parse w t c" leader_lessee
    "\<lambda>_ a t. age_secs parse a t > LEADER_TTL_SECS" "readable_before parse" "\<lambda>_. True"
  for parse
  by unfold_locales
    (auto simp: acquire_leader_def leader_lessee_def Let_def split: option.splits if_splits
      intro: stays_old)

definition stage_key :: "stage_lease \<Rightarrow> string \<times> string" where
  "stage_key l = (sg_ticket l, sg_stage l)"

definition stage_lessee :: "string \<times> string \<Rightarrow> 'c coord \<Rightarrow> (string \<times> string) option" where
  "stage_lessee k c = map_option (\<lambda>l. (sg_worker l, sg_at l)) (find (\<lambda>l. stage_key l = k) (co_leases c))"

definition leases_ok :: "'c coord \<Rightarrow> bool" where
  "leases_ok c \<longleftrightarrow> distinct (map stage_key (co_leases c))"

lemma find_filter_distinct:
  assumes "distinct (map f xs)"
  shows "find (\<lambda>x. f x = k) (filter Q xs) =
    (case find (\<lambda>x. f x = k) xs of None \<Rightarrow> None | Some x \<Rightarrow> if Q x then Some x else None)"
  using assms
proof (induction xs)
  case (Cons x xs)
  have "find (\<lambda>y. f y = k) xs = None" if "f x = k"
    using Cons.prems that by (simp add: find_None_iff) (metis imageI)
  then show ?case using Cons by (auto split: option.split)
qed simp

lemma claim_stage_alt:
  "claim_stage parse k worker now c =
     (let live = filter (\<lambda>l. age_secs parse (sg_at l) now \<le> STAGE_TTL_SECS) (co_leases c);
          taken = \<lparr>sg_ticket = fst k, sg_stage = snd k, sg_worker = worker, sg_at = now\<rparr>
      in if (case find (\<lambda>l. stage_key l = k) live of Some l \<Rightarrow> sg_worker l \<noteq> worker | None \<Rightarrow> False) then (False, c)
         else (True, c\<lparr>co_leases := filter (\<lambda>l. stage_key l \<noteq> k) live @ [taken]\<rparr>))"
proof -
  have "(\<lambda>l. sg_ticket l = fst k \<and> sg_stage l = snd k) = (\<lambda>l. stage_key l = k)"
    by (auto simp: stage_key_def fun_eq_iff prod_eq_iff)
  then have "filter (\<lambda>l. \<not> (sg_ticket l = fst k \<and> sg_stage l = snd k)) ls = filter (\<lambda>l. stage_key l \<noteq> k) ls" for ls
    by (metis (full_types))
  then show ?thesis
    by (auto simp: claim_stage_def Let_def stage_key_def prod_eq_iff split: option.split)
qed

lemma find_append_other: "find (\<lambda>x. f x = k) (filter (\<lambda>x. Q x \<and> f x \<noteq> k) xs @ ys) = find (\<lambda>x. f x = k) ys"
  by (induction xs) auto

lemma find_SomeD: "find P xs = Some x \<Longrightarrow> P x"
  by (induction xs) (auto split: if_splits)

lemma find_append_miss: "\<not> P y \<Longrightarrow> find P (xs @ [y]) = find P xs"
  by (induction xs) auto

lemma find_filter_other: "l \<noteq> k \<Longrightarrow> find (\<lambda>x. f x = l) (filter (\<lambda>x. Q x \<and> f x \<noteq> k) xs) = find (\<lambda>x. f x = l) (filter Q xs)"
  by (induction xs) auto

lemma stage_key_taken [simp]: "stage_key \<lparr>sg_ticket = fst k, sg_stage = snd k, sg_worker = w, sg_at = t\<rparr> = k"
  by (simp add: stage_key_def)

interpretation json_stage: lease_service "claim_stage parse" stage_lessee
    "\<lambda>_ a t. age_secs parse a t > STAGE_TTL_SECS" "readable_before parse" leases_ok
  for parse
proof
  fix s :: "'c coord" and k :: "string \<times> string" and w t
  assume ok: "leases_ok s"
  note ff = find_filter_distinct [OF ok [unfolded leases_ok_def], of k]
  show "fst (claim_stage parse k w t s) \<longleftrightarrow>
      (case stage_lessee k s of None \<Rightarrow> True | Some (v, a) \<Rightarrow> v = w \<or> age_secs parse a t > STAGE_TTL_SECS)"
    by (auto simp: claim_stage_alt Let_def ff stage_lessee_def split: option.splits if_splits)
  show "stage_lessee k (snd (claim_stage parse k w t s)) = Some (w, t)" if "fst (claim_stage parse k w t s)"
    using that by (auto simp: claim_stage_alt Let_def stage_lessee_def find_append_other split: if_splits)
  show "snd (claim_stage parse k w t s) = s" if "\<not> fst (claim_stage parse k w t s)"
    using that by (auto simp: claim_stage_alt Let_def split: if_splits)
  show "leases_ok (snd (claim_stage parse k w t s))"
    using ok by (auto simp: claim_stage_alt Let_def leases_ok_def intro: distinct_map_filter)
next
  fix s :: "'c coord" and k l :: "string \<times> string" and w t
  assume ok: "leases_ok s" and l: "l \<noteq> k"
  note ff = find_filter_distinct [OF ok [unfolded leases_ok_def], of l]
  show "stage_lessee l (snd (claim_stage parse k w t s)) = stage_lessee l s
    \<or> stage_lessee l (snd (claim_stage parse k w t s)) = None
      \<and> (\<exists>v a. stage_lessee l s = Some (v, a) \<and> age_secs parse a t > STAGE_TTL_SECS)"
    using l by (auto simp: claim_stage_alt Let_def stage_lessee_def find_append_miss find_filter_other ff
        split: option.splits if_splits dest: find_SomeD)
next
  fix k :: "string \<times> string" and a t t'
  assume "age_secs parse a t > STAGE_TTL_SECS" "readable_before parse t t'"
  then show "age_secs parse a t' > STAGE_TTL_SECS" by (rule stays_old)
qed

definition sql_ttl :: "string \<times> string \<Rightarrow> int" where
  "sql_ttl key = (if fst key = ''leader'' then LEADER_TTL_SECS else STAGE_TTL_SECS)"

interpretation sql_lease: lease_service "\<lambda>k w t tbl. upsert_lease (sql_ttl k) k w t tbl" "\<lambda>k tbl. tbl k"
    "\<lambda>k a t. a < t - sql_ttl k * 1000000" "(\<le>)" "\<lambda>_. True"
  by unfold_locales (auto simp: upsert_lease_def split: option.splits if_splits)

definition redis_lessee :: "(string \<Rightarrow> int) \<Rightarrow> string \<Rightarrow> redis_store \<Rightarrow> (string \<times> int) option" where
  "redis_lessee ttl k st = map_option (\<lambda>(v, expiry). (v, expiry - ttl k)) (st k)"

interpretation redis_lease: lease_service "\<lambda>k w t st. redis_take k w (ttl k) t st" "redis_lessee ttl"
    "\<lambda>k a t. a + ttl k \<le> t" "(\<le>)" "\<lambda>_. True"
  for ttl
  by unfold_locales
    (auto simp: redis_take_def redis_get_def redis_lessee_def split: option.splits if_splits)

section \<open>The registry\<close>

definition registry_ok :: "'c coord \<Rightarrow> bool" where
  "registry_ok c \<longleftrightarrow> distinct (map we_worker (co_workers c))"

lemma heartbeat_registered:
  assumes "registry_ok c" "parse now = Some n"
  shows "registry_ok (heartbeat_worker parse w role tk caps now c)"
    "map we_worker (workers parse now (heartbeat_worker parse w role tk caps now c))
       = filter (\<lambda>v. v \<noteq> w) (map we_worker (workers parse now c)) @ [w]"
proof -
  show "registry_ok (heartbeat_worker parse w role tk caps now c)"
    using assms(1) by (auto simp: registry_ok_def heartbeat_worker_def intro: distinct_map_filter)
  have "age_secs parse now now \<le> WORKER_TTL_SECS"
    by (simp add: age_secs_def assms(2) whole_seconds_def WORKER_TTL_SECS_def)
  then show "map we_worker (workers parse now (heartbeat_worker parse w role tk caps now c))
       = filter (\<lambda>v. v \<noteq> w) (map we_worker (workers parse now c)) @ [w]"
    by (simp add: workers_def heartbeat_worker_def filter_map comp_def conj_ac)
qed

end
