(* ===== verification/Policy_Properties.thy ===== *)
theory Policy_Properties
  imports Merge_Policy Coordination
begin

text \<open>
  What the pull request decisions and the coordination leases promise.
\<close>

section \<open>Two pull requests for one ticket\<close>

text \<open>
  Resolving two pull requests for one ticket closes one of them only when nothing it touches is left
  behind: the loser is closed exactly when both diffs were read, both name files, neither change
  is load-bearing and every file of the loser is a file of the winner (the pull request under review is
  preferred on a tie). The pull request under review goes ahead beside its rival only when the rival alone is
  load-bearing and strictly covers it, and in every other case both are kept.
\<close>

theorem competing_resolution_lossless:
  "(resolve_competing a b = MergeClose w l \<longleftrightarrow>
      (\<exists>A B. cc_files a = Some A \<and> cc_files b = Some B \<and> A \<noteq> [] \<and> B \<noteq> []
        \<and> \<not> cc_unsafe_change a \<and> \<not> cc_unsafe_change b
        \<and> (w = cc_number a \<and> l = cc_number b \<and> set B \<subseteq> set A
           \<or> w = cc_number b \<and> l = cc_number a \<and> set A \<subset> set B)))
   \<and> (resolve_competing a b = Proceed w l \<longleftrightarrow>
      (\<exists>A B. cc_files a = Some A \<and> cc_files b = Some B \<and> A \<noteq> []
        \<and> \<not> cc_unsafe_change a \<and> cc_unsafe_change b \<and> set A \<subset> set B
        \<and> w = cc_number a \<and> l = cc_number b))"
proof -
  consider (unread) "cc_files a = None \<or> cc_files b = None"
    | (read) A B where "cc_files a = Some A" "cc_files b = Some B" by (cases "cc_files a"; cases "cc_files b") auto
  then show ?thesis
    by cases (auto simp: resolve_competing_def Let_def split: option.splits if_splits)
qed

section \<open>Kept-open holds\<close>

text \<open>
  A held pull request whose head does not move is decided after a known number of rounds: starting with no
  record, rounds with one reason whose head, when it can be read, is always the same, and of which at
  least \<open>max_rounds\<close> (at least two) could read the head, end in exactly one terminal decision,
  to land or to close, taken in the round that reaches that number, after nothing but keeps. Rounds that
  cannot read the head never count, and the first round has to read it.
\<close>

theorem hold_expires_exactly:
  assumes "0 < max_rounds" "max_rounds < U32_MAX" "h \<noteq> []"
    and "\<forall>(x, _) \<in> set rs. x = [] \<or> x = h"
    and "max 2 max_rounds \<le> 1 + length (filter (\<lambda>(x, _). x \<noteq> []) rs)"
  shows "\<exists>ks. hold_run max_rounds reason landable ((h, now) # rs) None
    = map Keep ks @ [terminal_hold landable (max 2 max_rounds)]"
proof -
  define p where "p = \<lparr>ph_reason = reason, ph_rounds = 1, ph_head_sha = h, ph_first_at = now, ph_last_at = now\<rparr>"
  have "open_hold_round max_rounds reason h landable now None = (Keep 1, Some p)"
    using assms by (simp add: open_hold_round_def open_hold_expiry_def p_def)
  moreover obtain ks where "hold_run max_rounds reason landable rs (Some p) = map Keep ks @ [terminal_hold landable (max 2 max_rounds)]"
    using hold_run_counts [of max_rounds h p reason rs landable] assms by (auto simp: p_def less_max_iff_disj)
  ultimately show ?thesis by (auto intro: exI [of _ "1 # ks"])
qed

theorem hold_expires_exactly_witness:
  "\<exists>ks. hold_run 3 ''red'' False [(''s'', ''1''), (''s'', ''2''), ([], ''3''), (''s'', ''4'')] None = map Keep ks @ [Close 3]"
  using hold_expires_exactly [of 3 "''s''" "[(''s'', ''2''), ([], ''3''), (''s'', ''4'')]" "''red''" False "''1''"]
  by (simp add: U32_MAX_def terminal_hold_def)

section \<open>Ticket ids in titles\<close>

text \<open>
  The id read from a title is a ticket id that stands in the title, and an id preceded by no capital letter and
  followed by no letter or digit is the one that is read.
\<close>

theorem title_names_ticket:
  "(ticket_id_in t = Some i \<longrightarrow> (\<exists>pre L D post. t = pre @ i @ post \<and> i = L @ ''-'' @ D \<and> id_shaped L D))
   \<and> (list_all (\<lambda>c. \<not> is_ascii_uppercase c) pre \<longrightarrow> id_shaped L D
      \<longrightarrow> post = [] \<or> \<not> is_ascii_alphanumeric (hd post)
      \<longrightarrow> ticket_id_in (pre @ L @ ''-'' @ D @ post) = Some (L @ ''-'' @ D))"
  using ticket_id_in_sound ticket_id_in_complete by blast

theorem title_names_ticket_witness:
  "ticket_id_in ''fix(CXA-42): x'' = Some ''CXA-42'' \<and> (\<exists>pre L D post. ''fix(CXA-42): x'' = pre @ ''CXA-42'' @ post \<and> id_shaped L D)"
proof -
  have "id_shaped ''CXA'' ''42''" "list_all (\<lambda>c. \<not> is_ascii_uppercase c) ''fix(''"
    "\<not> is_ascii_alphanumeric (CHR '')'')"
    by code_simp+
  then have "ticket_id_in ''fix(CXA-42): x'' = Some ''CXA-42''"
    using title_names_ticket [of "[]" "[]" "''fix(''" "''CXA''" "''42''" "''): x''"] by simp
  then show ?thesis
    using title_names_ticket [of "''fix(CXA-42): x''" "''CXA-42''" "[]" "[]" "[]" "[]"] by blast
qed

section \<open>Leases\<close>

text \<open>
  C25. The leases agree: on any sequence of requests made in the order of their times, the leader lease and the
  stage leases of the JSON store, the lease table of the SQL store and the keys of Redis each give, request by
  request, the answers of one reference table, in which a request is granted exactly when
  the key is free, held by the caller or expired; the JSON store forgets expired stage leases and Redis drops
  expired keys, and no caller can tell. The services differ only in when a lease expires.
\<close>

theorem lease_services_agree:
  fixes c :: "'c coord"
  assumes leader: "in_order (readable_before parse) leader_calls" "co_leader c = None"
    and stage: "in_order (readable_before parse) stage_calls" "co_leases c = []"
    and sql: "in_order (\<le>) sql_calls" and redis: "in_order (\<le>) redis_calls"
  shows "answers (\<lambda>_. acquire_leader parse) leader_calls c
           = answers (spec_acquire (\<lambda>_ a t. age_secs parse a t > LEADER_TTL_SECS)) leader_calls (\<lambda>_ :: unit. None)
      \<and> answers (claim_stage parse) stage_calls c
           = answers (spec_acquire (\<lambda>_ a t. age_secs parse a t > STAGE_TTL_SECS)) stage_calls Map.empty
      \<and> answers (\<lambda>k. upsert_lease (sql_ttl k) k) sql_calls Map.empty
           = answers (spec_acquire (\<lambda>k a t. a < t - sql_ttl k * 1000000)) sql_calls Map.empty
      \<and> answers (\<lambda>k w. redis_take k w (ttl k)) redis_calls Map.empty
           = answers (spec_acquire (\<lambda>k a t. a + ttl k \<le> t)) redis_calls Map.empty"
proof (intro conjI)
  show "answers (\<lambda>_. acquire_leader parse) leader_calls c
      = answers (spec_acquire (\<lambda>_ a t. age_secs parse a t > LEADER_TTL_SECS)) leader_calls (\<lambda>_ :: unit. None)"
    by (rule json_leader.answers_agree_empty) (simp_all add: leader_lessee_def leader)
  show "answers (claim_stage parse) stage_calls c
      = answers (spec_acquire (\<lambda>_ a t. age_secs parse a t > STAGE_TTL_SECS)) stage_calls Map.empty"
    by (rule json_stage.answers_agree_empty) (simp_all add: stage_lessee_def leases_ok_def stage)
  show "answers (\<lambda>k. upsert_lease (sql_ttl k) k) sql_calls Map.empty
      = answers (spec_acquire (\<lambda>k a t. a < t - sql_ttl k * 1000000)) sql_calls Map.empty"
    by (rule sql_lease.answers_agree_empty) (simp_all add: sql)
  show "answers (\<lambda>k w. redis_take k w (ttl k)) redis_calls Map.empty
      = answers (spec_acquire (\<lambda>k a t. a + ttl k \<le> t)) redis_calls Map.empty"
    by (rule redis_lease.answers_agree_empty) (simp_all add: redis redis_lessee_def)
qed

text \<open>A second worker is refused while the lease runs, and takes over after it.\<close>

theorem lease_services_agree_witness:
  "answers (\<lambda>k w. redis_take k w ((\<lambda>_. LEADER_TTL_MS) k)) [(''l'', ''a'', 0), (''l'', ''b'', 89999), (''l'', ''b'', 90000)] Map.empty
     = [True, False, True]"
proof -
  let ?p = "\<lambda>s. Some (int (length s))" and ?c = "\<lparr>co_leader = None, co_leases = [], co_workers = []\<rparr> :: unit coord"
  have "in_order (readable_before ?p) ([] :: (unit \<times> string \<times> string) list)"
    "in_order (readable_before ?p) ([] :: ((string \<times> string) \<times> string \<times> string) list)"
    "in_order (\<le>) ([] :: ((string \<times> string) \<times> string \<times> int) list)"
    "in_order (\<le>) [(''l'', ''a'', 0 :: int), (''l'', ''b'', 89999), (''l'', ''b'', 90000)]"
    by (simp_all add: in_order_def)
  from lease_services_agree [of ?p _ ?c, OF this(1) _ this(2) _ this(3) this(4), of "\<lambda>_. LEADER_TTL_MS"]
  show ?thesis by (simp add: spec_acquire_def LEADER_TTL_MS_def)
qed

end
