(* ===== verification/Access.thy ===== *)
theory Access
  imports Prelude
begin

text \<open>
  Who may do what on the hub: the account roles and their rights
  (\<open>application/src/auth.rs\<close>), the principal of a request
  (\<open>presentation/src/server/guards.rs\<close>, \<open>engines.rs\<close>) and the admission of every
  request (\<open>auth_mw\<close> of \<open>presentation/src/server/auth.rs\<close>). A header is its text, when it
  is there and can be read; the handler behind the gate is the status it answers.
\<close>

section \<open>Roles\<close>

datatype auth_role =
    RoleSuper | RoleAdmin
  | RoleDirector | RoleManager | RoleTechLead | RoleDsLead | RoleDaLead
  | RoleBa | RolePo | RoleSa | RoleSm | RoleQa | RoleFe | RoleBe | RoleAie | RoleDs | RoleDa | RoleDe
  | RoleReviewer | RoleViewer

definition is_lead :: "auth_role \<Rightarrow> bool" where
  "is_lead r \<longleftrightarrow> r \<in> {RoleDirector, RoleManager, RoleTechLead, RoleDsLead, RoleDaLead}"

definition can_write :: "auth_role \<Rightarrow> bool" where
  "can_write r \<longleftrightarrow> r \<noteq> RoleViewer"

definition is_dev :: "auth_role \<Rightarrow> bool" where
  "is_dev r \<longleftrightarrow> r \<in> {RoleFe, RoleBe, RoleAie, RoleDs, RoleDa, RoleDe}"

definition can_review :: "auth_role \<Rightarrow> bool" where
  "can_review r \<longleftrightarrow> r \<in> {RoleSuper, RoleAdmin, RoleSa, RoleReviewer} \<or> is_lead r \<or> is_dev r"

definition can_create_channel :: "auth_role \<Rightarrow> bool" where
  "can_create_channel r \<longleftrightarrow> r \<in> {RoleSuper, RoleAdmin} \<or> is_lead r"

definition can_manage :: "auth_role \<Rightarrow> bool" where
  "can_manage r \<longleftrightarrow> r \<in> {RoleSuper, RoleAdmin} \<or> is_lead r"

definition can_approve_ready :: "auth_role \<Rightarrow> bool" where
  "can_approve_ready r \<longleftrightarrow> r \<in> {RoleSuper, RoleAdmin, RoleBa, RolePo} \<or> is_lead r"

definition can_verify :: "auth_role \<Rightarrow> bool" where
  "can_verify r \<longleftrightarrow> r \<in> {RoleSuper, RoleAdmin, RoleQa, RoleReviewer} \<or> is_lead r"

definition is_super :: "auth_role \<Rightarrow> bool" where
  "is_super r \<longleftrightarrow> r = RoleSuper"

fun role_as_str :: "auth_role \<Rightarrow> string" where
  "role_as_str RoleSuper = ''super''"
| "role_as_str RoleAdmin = ''admin''"
| "role_as_str RoleDirector = ''director''"
| "role_as_str RoleManager = ''manager''"
| "role_as_str RoleTechLead = ''techlead''"
| "role_as_str RoleDsLead = ''dslead''"
| "role_as_str RoleDaLead = ''dalead''"
| "role_as_str RoleBa = ''ba''"
| "role_as_str RolePo = ''po''"
| "role_as_str RoleSa = ''sa''"
| "role_as_str RoleSm = ''sm''"
| "role_as_str RoleQa = ''qa''"
| "role_as_str RoleFe = ''fe''"
| "role_as_str RoleBe = ''be''"
| "role_as_str RoleAie = ''aie''"
| "role_as_str RoleDs = ''ds''"
| "role_as_str RoleDa = ''da''"
| "role_as_str RoleDe = ''de''"
| "role_as_str RoleReviewer = ''reviewer''"
| "role_as_str RoleViewer = ''viewer''"

fun role_label :: "auth_role \<Rightarrow> string" where
  "role_label RoleSuper = ''Super Admin''"
| "role_label RoleAdmin = ''Admin''"
| "role_label RoleDirector = ''Director''"
| "role_label RoleManager = ''Manager''"
| "role_label RoleTechLead = ''Tech.Lead''"
| "role_label RoleDsLead = ''DS.Lead''"
| "role_label RoleDaLead = ''DA.Lead''"
| "role_label RoleBa = ''BA''"
| "role_label RolePo = ''PO''"
| "role_label RoleSa = ''SA''"
| "role_label RoleSm = ''SM''"
| "role_label RoleQa = ''QA''"
| "role_label RoleFe = ''FE''"
| "role_label RoleBe = ''BE''"
| "role_label RoleAie = ''AIE''"
| "role_label RoleDs = ''DS''"
| "role_label RoleDa = ''DA''"
| "role_label RoleDe = ''DE''"
| "role_label RoleReviewer = ''Reviewer''"
| "role_label RoleViewer = ''Viewer''"

definition role_words :: "(string \<times> auth_role) list" where
  "role_words =
     [(''super'', RoleSuper), (''superadmin'', RoleSuper), (''admin'', RoleAdmin), (''director'', RoleDirector),
      (''manager'', RoleManager), (''techlead'', RoleTechLead), (''dslead'', RoleDsLead), (''dalead'', RoleDaLead),
      (''ba'', RoleBa), (''po'', RolePo), (''sa'', RoleSa), (''sm'', RoleSm),
      (''qa'', RoleQa), (''tester'', RoleQa), (''test'', RoleQa),
      (''fe'', RoleFe), (''be'', RoleBe), (''aie'', RoleAie), (''ds'', RoleDs), (''da'', RoleDa), (''de'', RoleDe),
      (''reviewer'', RoleReviewer)]"

definition from_str_lenient :: "string \<Rightarrow> auth_role" where
  "from_str_lenient s =
     (let norm = filter (\<lambda>c. c \<notin> {CHR ''.'', CHR '' '', CHR ''-'', CHR ''_''}) (map ascii_lower (trim s))
      in case map_of role_words norm of Some r \<Rightarrow> r | None \<Rightarrow> RoleViewer)"

definition role_all :: "auth_role list" where
  "role_all = [RoleAdmin, RoleDirector, RoleManager, RoleTechLead, RoleDsLead, RoleDaLead, RoleBa, RolePo,
     RoleSa, RoleSm, RoleQa, RoleFe, RoleBe, RoleAie, RoleDs, RoleDa, RoleDe]"

record auth_user =
  ur_username :: string
  ur_name :: string
  ur_email :: string
  ur_role :: auth_role
  ur_projects :: "string list"

section \<open>Paths\<close>

definition is_pr_review_path :: "string \<Rightarrow> bool" where
  "is_pr_review_path path = contains_str path ''/prs/''"

definition is_service_mgmt_path :: "string \<Rightarrow> bool" where
  "is_service_mgmt_path path =
     (case strip_prefix ''/api/projects/'' path of
        None \<Rightarrow> False
      | Some rest \<Rightarrow>
          (case split_once ''/'' rest of
             None \<Rightarrow> False
           | Some (pid, tail) \<Rightarrow> pid \<noteq> [] \<and> (tail = ''services'' \<or> starts_with tail ''services/'')))"

definition is_store_rpc_path :: "string \<Rightarrow> bool" where
  "is_store_rpc_path path =
     (case strip_prefix ''/api/projects/'' path of
        None \<Rightarrow> False
      | Some rest \<Rightarrow>
          (case strip_suffix ''/store'' rest of
             None \<Rightarrow> False
           | Some pid \<Rightarrow> pid \<noteq> [] \<and> CHR ''/'' \<notin> set pid))"

definition write_gate_ok :: "auth_role \<Rightarrow> string \<Rightarrow> bool" where
  "write_gate_ok r path =
     (if is_pr_review_path path then can_review r
      else if is_store_rpc_path path \<or> path = ''/api/pr-report'' then can_manage r
      else if is_service_mgmt_path path then can_manage r
      else can_write r)"

definition extract_pid_from_path :: "string \<Rightarrow> string option" where
  "extract_pid_from_path path =
     map_option (takeWhile (\<lambda>c. c \<noteq> CHR ''/'')) (strip_prefix ''/api/projects/'' path)"

definition audit_safe_path :: "string \<Rightarrow> string" where
  "audit_safe_path path =
     (case split_once ''/share-links/'' path of
        Some (pre, token) \<Rightarrow>
          if token \<noteq> [] \<and> CHR ''/'' \<notin> set token then pre @ ''/share-links/'' @ ''<redacted>'' else path
      | None \<Rightarrow> path)"

definition realtime_path :: "string \<Rightarrow> bool" where
  "realtime_path path \<longleftrightarrow> ends_with path ''/ws'' \<or> ends_with path ''/events'' \<or> ends_with path ''/river''
     \<or> ends_with path ''/terminal'' \<or> contains_str path ''/docs-ws''"

definition public_path :: "string \<Rightarrow> bool" where
  "public_path path \<longleftrightarrow> path = ''/'' \<or> path = ''/api/health'' \<or> path = ''/api/ready''
     \<or> path = ''/api/auth/oidc/login'' \<or> path = ''/api/auth/oidc/callback'' \<or> path = ''/api/openapi.json''
     \<or> path = ''/api/auth/login'' \<or> starts_with path ''/assets/'' \<or> starts_with path ''/api/app/download/''
     \<or> starts_with path ''/api/chat/hook/'' \<or> starts_with path ''/join/'' \<or> path = ''/api/workspace/join''
     \<or> starts_with path ''/s/''"

section \<open>The principal of a request\<close>

definition cookie_value :: "string option \<Rightarrow> string \<Rightarrow> string option" where
  "cookie_value header name =
     (case header of
        None \<Rightarrow> None
      | Some raw \<Rightarrow>
          (case List.map_filter
                  (\<lambda>pair. case split_once ''='' pair of
                     None \<Rightarrow> None
                   | Some (k, v) \<Rightarrow> if trim k = name then Some (trim v) else None)
                  (split_on (\<lambda>c. c = CHR '';'') raw) of
             [] \<Rightarrow> None | v # _ \<Rightarrow> Some v))"

definition bearer_token :: "string option \<Rightarrow> string option" where
  "bearer_token header =
     (case header of None \<Rightarrow> None | Some raw \<Rightarrow> map_option trim (strip_prefix ''Bearer '' raw))"

definition SESSION_COOKIE :: string where "SESSION_COOKIE = ''cox_session''"

text \<open>A request as the gate sees it.\<close>

datatype http_method = MGet | MPost | MPut | MDelete | MPatch | MHead | MOptions

record http_request =
  hr_method :: http_method
  hr_path :: string
  hr_authorization :: "string option"
  hr_cookie :: "string option"

definition resolve_principal ::
  "(string \<Rightarrow> auth_user option) \<Rightarrow> (string \<Rightarrow> auth_user option) \<Rightarrow> http_request \<Rightarrow> auth_user option" where
  "resolve_principal for_bearer for_session req =
     (case (case bearer_token (hr_authorization req) of None \<Rightarrow> None | Some t \<Rightarrow> for_bearer t) of
        Some u \<Rightarrow> Some u
      | None \<Rightarrow>
          (case cookie_value (hr_cookie req) SESSION_COOKIE of None \<Rightarrow> None | Some t \<Rightarrow> for_session t))"

section \<open>The gate\<close>

datatype hub_role = HubAll | HubGateway | HubRealtime | HubKnowledge

definition hub_role_ok :: "hub_role \<Rightarrow> string \<Rightarrow> bool" where
  "hub_role_ok hub path =
     (case hub of
        HubAll \<Rightarrow> True
      | HubGateway \<Rightarrow> \<not> realtime_path path
      | HubRealtime \<Rightarrow> realtime_path path \<or> path = ''/api/health'' \<or> path = ''/api/ready''
          \<or> path = ''/api/auth/me'' \<or> path = ''/''
      | HubKnowledge \<Rightarrow> path = ''/api/health'' \<or> path = ''/api/ready'')"

text \<open>Mutating requests, less the ones any signed-in user may make.\<close>

definition self_service_path :: "string \<Rightarrow> bool" where
  "self_service_path path \<longleftrightarrow> path = ''/api/auth/logout'' \<or> starts_with path ''/api/auth/2fa/''
     \<or> starts_with path ''/api/auth/my/'' \<or> starts_with path ''/api/meetings'' \<or> starts_with path ''/api/profile''
     \<or> ends_with path ''/chat'' \<or> path = ''/api/chat/send'' \<or> path = ''/api/chat/dm''
     \<or> starts_with path ''/api/engines/opencode'' \<or> contains_str path ''/channels'' \<or> ends_with path ''/upload''
     \<or> path = ''/api/mcp''"

definition is_write :: "http_method \<Rightarrow> string \<Rightarrow> bool" where
  "is_write m path \<longleftrightarrow> m \<in> {MPost, MPut, MDelete, MPatch} \<and> \<not> self_service_path path"

definition is_manage_surface :: "http_method \<Rightarrow> string \<Rightarrow> bool" where
  "is_manage_surface m path \<longleftrightarrow> starts_with path ''/api/auth/users'' \<or> starts_with path ''/api/auth/tokens''
     \<or> ends_with path ''/config'' \<and> m \<in> {MPut, MPost, MPatch}"

fun method_str :: "http_method \<Rightarrow> string" where
  "method_str MGet = ''GET''"
| "method_str MPost = ''POST''"
| "method_str MPut = ''PUT''"
| "method_str MDelete = ''DELETE''"
| "method_str MPatch = ''PATCH''"
| "method_str MHead = ''HEAD''"
| "method_str MOptions = ''OPTIONS''"

text \<open>What the gate answers, and the audit entries (user, action, status) it leaves.\<close>

datatype mw_answer = Forwarded nat | Refused nat string

type_synonym gate_log = "(string \<times> string \<times> nat) list"

definition admit :: "auth_user \<Rightarrow> http_method \<Rightarrow> string \<Rightarrow> string option" where
  "admit user m path =
     (if is_manage_surface m path \<and> \<not> can_manage (ur_role user) then Some ''management role required''
      else if path = ''/api/mcp'' \<and> \<not> can_write (ur_role user) then Some ''insufficient role''
      else if (case extract_pid_from_path path of
                 None \<Rightarrow> False
               | Some pid \<Rightarrow> ur_role user \<noteq> RoleSuper \<and> ur_role user \<noteq> RoleAdmin \<and> pid \<notin> set (ur_projects user))
      then Some ''not a member of this project''
      else if is_write m path \<and> \<not> write_gate_ok (ur_role user) path then Some ''insufficient role''
      else None)"

definition auth_mw ::
  "hub_role \<Rightarrow> ((string \<Rightarrow> auth_user option) \<times> (string \<Rightarrow> auth_user option)) option
    \<Rightarrow> http_request \<Rightarrow> nat \<Rightarrow> mw_answer \<times> gate_log" where
  "auth_mw hub auth req status =
     (let path = hr_path req; m = hr_method req in
      if \<not> hub_role_ok hub path then (Refused 503 ''wrong service role for this endpoint'', [])
      else case auth of
        None \<Rightarrow> (Forwarded status, [])
      | Some (for_bearer, for_session) \<Rightarrow>
          if public_path path then (Forwarded status, [])
          else case resolve_principal for_bearer for_session req of
            None \<Rightarrow> (Refused 401 ''unauthenticated'', [])
          | Some user \<Rightarrow>
              let entry = (\<lambda>st. (ur_username user, method_str m @ '' '' @ audit_safe_path path, st)) in
              (case admit user m path of
                 Some why \<Rightarrow> (Refused 403 why, [entry 403])
               | None \<Rightarrow> (Forwarded status, if is_write m path then [entry status] else [])))"

section \<open>Lemmas\<close>

lemma rights_ordered:
  "can_manage r \<Longrightarrow> can_review r \<and> can_approve_ready r \<and> can_verify r \<and> can_create_channel r"
  "can_review r \<Longrightarrow> can_write r"
  "can_verify r \<Longrightarrow> can_write r" "can_approve_ready r \<Longrightarrow> can_write r"
  by (auto simp: can_manage_def can_review_def can_approve_ready_def can_verify_def can_create_channel_def
      can_write_def is_lead_def is_dev_def)

lemma role_words_read: "from_str_lenient (role_as_str r) = r \<and> from_str_lenient (role_label r) = r"
proof -
  have "list_all (\<lambda>r. from_str_lenient (role_as_str r) = r \<and> from_str_lenient (role_label r) = r)
      (RoleSuper # role_all @ [RoleReviewer, RoleViewer])"
    by code_simp
  moreover have "r \<in> set (RoleSuper # role_all @ [RoleReviewer, RoleViewer])"
    by (cases r) (simp_all add: role_all_def)
  ultimately show ?thesis by (simp only: list_all_iff)
qed

text \<open>The project a path belongs to.\<close>

lemma extract_pid: "CHR ''/'' \<notin> set pid \<Longrightarrow> extract_pid_from_path (''/api/projects/'' @ pid @ ''/'' @ rest) = Some pid"
  by (simp add: extract_pid_from_path_def strip_prefix_def starts_with_def takeWhile_tail)
    (auto simp: takeWhile_eq_all_conv)

lemma store_rpc_path: "pid \<noteq> [] \<Longrightarrow> CHR ''/'' \<notin> set pid \<Longrightarrow> is_store_rpc_path (''/api/projects/'' @ pid @ ''/store'')"
  by (simp add: is_store_rpc_path_def strip_prefix_def starts_with_def strip_suffix_def ends_with_def)

text \<open>What every request that is let through has shown.\<close>

lemma auth_mw_forwarded:
  assumes "fst (auth_mw hub (Some (fb, fs)) req status) = Forwarded st" "\<not> public_path (hr_path req)"
  obtains user where "resolve_principal fb fs req = Some user" "admit user (hr_method req) (hr_path req) = None"
    "hub_role_ok hub (hr_path req)" "st = status"
  using assms by (auto simp: auth_mw_def Let_def split: if_splits option.splits)

lemma admit_None:
  "admit user m path = None \<longleftrightarrow>
     (is_manage_surface m path \<longrightarrow> can_manage (ur_role user))
   \<and> (path = ''/api/mcp'' \<longrightarrow> can_write (ur_role user))
   \<and> (\<forall>pid. extract_pid_from_path path = Some pid
        \<longrightarrow> ur_role user \<in> {RoleSuper, RoleAdmin} \<or> pid \<in> set (ur_projects user))
   \<and> (is_write m path \<longrightarrow> write_gate_ok (ur_role user) path)"
  by (auto simp: admit_def split: option.split)

lemma project_paths_private: "\<not> public_path (''/api/projects/'' @ rest)"
  by (simp add: public_path_def starts_with_def)

lemma write_gate_implies_write: "write_gate_ok r path \<Longrightarrow> can_write r"
  using rights_ordered by (auto simp: write_gate_ok_def split: if_splits)

end
