(* ===== verification/Accounts.thy ===== *)
theory Accounts
  imports Access Totp
begin

text \<open>
  The account service on files, \<open>FileAuthService\<close> of \<open>infrastructure/src/auth.rs\<close>: accounts,
  API tokens, sessions, two-factor enrolment and the lockout after failed sign-ins. Every call is
  taken as one step. Argon2, SHA-256 and HMAC are third-party code and come with the
  record \<open>crypto\<close>; the clocks, the random bytes and whether a file can be written come with each
  call. The files hold what was written last; their JSON is not modelled.
\<close>

section \<open>Data\<close>

record crypto =
  cy_hash :: "string \<Rightarrow> string \<Rightarrow> string option"
  cy_verify :: "string \<Rightarrow> string \<Rightarrow> bool"
  cy_sha :: "string \<Rightarrow> string"
  cy_hmac :: hmac_fun

text \<open>
  What the outside gives a call: the wall clock in seconds, the monotonic clock in nanoseconds, the
  RFC 3339 stamp, and whether the disk takes a write.
\<close>

record moment =
  mo_unix :: nat
  mo_mono :: int
  mo_rfc :: string
  mo_io :: bool

definition SESSION_TTL :: nat where "SESSION_TTL = 30 * 24 * 60 * 60"
definition MAX_FAILS :: nat where "MAX_FAILS = 5"
definition LOCKOUT :: int where "LOCKOUT = 15 * 60 * 1000000000"

record stored_user =
  su_username :: string
  su_hash :: string
  su_name :: string
  su_email :: string
  su_role :: auth_role
  su_totp_secret :: "string option"
  su_projects :: "string list"

record stored_token =
  sk_label :: string
  sk_role :: auth_role
  sk_hash :: string
  sk_created :: string
  sk_owner :: string

record session =
  ss_user :: auth_user
  ss_expires :: nat
  ss_label :: string
  ss_at :: string

record login_attempts =
  la_fails :: nat
  la_locked_until :: "int option"

datatype login_result = LoginOk string | TotpRequired | Denied

record session_info =
  si_label :: string
  si_at :: string
  si_current :: bool

record token_info =
  ti_label :: string
  ti_role :: auth_role
  ti_created :: string

record file_auth =
  fa_users :: "stored_user list"
  fa_tokens :: "stored_token list"
  fa_sessions :: "string \<rightharpoonup> session"
  fa_attempts :: "string \<rightharpoonup> login_attempts"
  fa_pending_totp :: "string \<rightharpoonup> string"
  fa_file :: "stored_user list \<times> stored_token list"
  fa_sessions_file :: "string \<rightharpoonup> session"

section \<open>Files\<close>

definition open_auth ::
  "moment \<Rightarrow> stored_user list \<times> stored_token list \<Rightarrow> (string \<rightharpoonup> session) \<Rightarrow> file_auth" where
  "open_auth now file sessions_file =
     \<lparr>fa_users = fst file, fa_tokens = snd file,
      fa_sessions = (\<lambda>t. case sessions_file t of Some s \<Rightarrow> if mo_unix now < ss_expires s then Some s else None | None \<Rightarrow> None),
      fa_attempts = Map.empty, fa_pending_totp = Map.empty,
      fa_file = file, fa_sessions_file = sessions_file\<rparr>"

definition persist :: "moment \<Rightarrow> file_auth \<Rightarrow> bool \<times> file_auth" where
  "persist now s = (mo_io now, if mo_io now then s\<lparr>fa_file := (fa_users s, fa_tokens s)\<rparr> else s)"

definition persist_sessions :: "moment \<Rightarrow> file_auth \<Rightarrow> file_auth" where
  "persist_sessions now s = (if mo_io now then s\<lparr>fa_sessions_file := fa_sessions s\<rparr> else s)"

definition new_user :: "string \<Rightarrow> string \<Rightarrow> auth_role \<Rightarrow> stored_user" where
  "new_user username hash r = \<lparr>su_username = username, su_hash = hash, su_name = [], su_email = [],
     su_role = r, su_totp_secret = None, su_projects = []\<rparr>"

definition named :: "string \<Rightarrow> stored_user \<Rightarrow> bool" where
  "named username u \<longleftrightarrow> su_username u = username"

text \<open>The account of that name gets the hash and the role, or is appended.\<close>

definition upsert_user :: "string \<Rightarrow> string \<Rightarrow> auth_role \<Rightarrow> stored_user list \<Rightarrow> stored_user list" where
  "upsert_user username hash r users =
     (case find (named username) users of
        Some _ \<Rightarrow> update_first (named username) (\<lambda>u. u\<lparr>su_hash := hash, su_role := r\<rparr>) users
      | None \<Rightarrow> users @ [new_user username hash r])"

definition bootstrap_admin ::
  "crypto \<Rightarrow> moment \<Rightarrow> string \<Rightarrow> string \<Rightarrow> string \<Rightarrow> stored_user list \<times> stored_token list
    \<Rightarrow> bool \<times> stored_user list \<times> stored_token list" where
  "bootstrap_admin cy now salt username password file =
     (case cy_hash cy salt password of
        None \<Rightarrow> (False, file)
      | Some hash \<Rightarrow>
          if mo_io now then (True, upsert_user username hash RoleSuper (fst file), snd file) else (False, file))"

definition has_users :: "file_auth \<Rightarrow> bool" where
  "has_users s \<longleftrightarrow> fa_users s \<noteq> []"

section \<open>The lockout\<close>

definition is_locked :: "moment \<Rightarrow> string \<Rightarrow> file_auth \<Rightarrow> bool \<times> file_auth" where
  "is_locked now username s =
     (case fa_attempts s username of
        None \<Rightarrow> (False, s)
      | Some a \<Rightarrow>
          (case la_locked_until a of
             None \<Rightarrow> (False, s)
           | Some until \<Rightarrow>
               if mo_mono now < until then (True, s)
               else (False, s\<lparr>fa_attempts := (fa_attempts s)(username \<mapsto> \<lparr>la_fails = 0, la_locked_until = None\<rparr>)\<rparr>)))"

definition record_failure :: "moment \<Rightarrow> string \<Rightarrow> file_auth \<Rightarrow> file_auth" where
  "record_failure now username s =
     (let a = (case fa_attempts s username of Some a \<Rightarrow> a | None \<Rightarrow> \<lparr>la_fails = 0, la_locked_until = None\<rparr>);
          fails = la_fails a + 1;
          until = (if MAX_FAILS \<le> fails then Some (mo_mono now + LOCKOUT) else la_locked_until a)
      in s\<lparr>fa_attempts := (fa_attempts s)(username \<mapsto> \<lparr>la_fails = fails, la_locked_until = until\<rparr>)\<rparr>)"

definition clear_failures :: "string \<Rightarrow> file_auth \<Rightarrow> file_auth" where
  "clear_failures username s = s\<lparr>fa_attempts := (fa_attempts s)(username := None)\<rparr>"

section \<open>Secrets\<close>

text \<open>The bytes of a string whose characters are below 256, in UTF-8.\<close>

definition utf8 :: "string \<Rightarrow> 8 word list" where
  "utf8 s = concat (map (\<lambda>c. let n = (of_char c :: nat) in
     if n < 128 then [of_nat n] else [of_nat (192 + n div 64), of_nat (128 + n mod 64)]) s)"

definition ct_eq :: "string \<Rightarrow> string \<Rightarrow> bool" where
  "ct_eq a b =
     (let x = utf8 a; y = utf8 b in
      length x = length y \<and> fold (\<lambda>(p, q) diff. or diff (xor p q)) (zip x y) 0 = (0 :: 8 word))"

definition file_mint_token ::
  "crypto \<Rightarrow> moment \<Rightarrow> string \<Rightarrow> string \<Rightarrow> auth_role \<Rightarrow> string \<Rightarrow> file_auth \<Rightarrow> string option \<times> file_auth" where
  "file_mint_token cy now secret label r owner s =
     (if \<exists>t \<in> set (fa_tokens s). sk_label t = label then (None, s)
      else
        let s1 = s\<lparr>fa_tokens := fa_tokens s @ [\<lparr>sk_label = label, sk_role = r, sk_hash = cy_sha cy secret,
                     sk_created = mo_rfc now, sk_owner = owner\<rparr>]\<rparr>
        in case persist now s1 of (ok, s2) \<Rightarrow> (if ok then Some secret else None, s2))"

definition create_token :: "crypto \<Rightarrow> moment \<Rightarrow> string \<Rightarrow> string \<Rightarrow> auth_role \<Rightarrow> file_auth \<Rightarrow> string option \<times> file_auth" where
  "create_token cy now secret label r = file_mint_token cy now secret label r []"

definition create_token_for ::
  "crypto \<Rightarrow> moment \<Rightarrow> string \<Rightarrow> string \<Rightarrow> auth_role \<Rightarrow> string option \<Rightarrow> file_auth \<Rightarrow> string option \<times> file_auth" where
  "create_token_for cy now secret label r owner =
     file_mint_token cy now secret label r (case owner of Some o' \<Rightarrow> o' | None \<Rightarrow> [])"

definition list_tokens :: "file_auth \<Rightarrow> token_info list" where
  "list_tokens s = map (\<lambda>t. \<lparr>ti_label = sk_label t, ti_role = sk_role t, ti_created = sk_created t\<rparr>) (fa_tokens s)"

definition revoke_token :: "moment \<Rightarrow> string \<Rightarrow> file_auth \<Rightarrow> bool \<times> file_auth" where
  "revoke_token now label s =
     (let kept = filter (\<lambda>t. sk_label t \<noteq> label) (fa_tokens s);
          removed = (length kept \<noteq> length (fa_tokens s));
          s1 = s\<lparr>fa_tokens := kept\<rparr>
      in (removed, if removed then snd (persist now s1) else s1))"

definition owner_projects :: "string \<Rightarrow> file_auth \<Rightarrow> string list" where
  "owner_projects owner s = (case find (named owner) (fa_users s) of Some u \<Rightarrow> su_projects u | None \<Rightarrow> [])"

definition principal_for_bearer :: "crypto \<Rightarrow> string \<Rightarrow> file_auth \<Rightarrow> auth_user option" where
  "principal_for_bearer cy token s =
     (case find (\<lambda>t. ct_eq (sk_hash t) (cy_sha cy token)) (fa_tokens s) of
        None \<Rightarrow> None
      | Some t \<Rightarrow> Some \<lparr>ur_username = ''svc:'' @ sk_label t, ur_name = [], ur_email = [], ur_role = sk_role t,
          ur_projects = (if sk_owner t = [] then [] else owner_projects (sk_owner t) s)\<rparr>)"

section \<open>Sessions\<close>

definition as_user :: "stored_user \<Rightarrow> auth_user" where
  "as_user u = \<lparr>ur_username = su_username u, ur_name = su_name u, ur_email = su_email u, ur_role = su_role u,
     ur_projects = su_projects u\<rparr>"

definition new_session :: "moment \<Rightarrow> string \<Rightarrow> auth_role \<Rightarrow> session" where
  "new_session now username r =
     \<lparr>ss_user = \<lparr>ur_username = username, ur_name = [], ur_email = [], ur_role = r, ur_projects = []\<rparr>,
      ss_expires = mo_unix now + SESSION_TTL, ss_label = [], ss_at = mo_rfc now\<rparr>"

definition login ::
  "crypto \<Rightarrow> moment \<Rightarrow> string \<Rightarrow> string \<Rightarrow> string \<Rightarrow> string option \<Rightarrow> file_auth \<Rightarrow> login_result \<times> file_auth" where
  "login cy now token username password totp s =
     (case is_locked now username s of (locked, s1) \<Rightarrow>
        if locked then (Denied, s1)
        else case find (named username) (fa_users s1) of
          None \<Rightarrow> (Denied, record_failure now username s1)
        | Some u \<Rightarrow>
            if \<not> cy_verify cy (su_hash u) password then (Denied, record_failure now username s1)
            else
              let granted = (LoginOk token,
                    persist_sessions now
                      ((clear_failures username s1)\<lparr>fa_sessions := (fa_sessions s1)(token \<mapsto> new_session now username (su_role u))\<rparr>))
              in case su_totp_secret u of
                   None \<Rightarrow> granted
                 | Some secret \<Rightarrow>
                     (case totp of
                        None \<Rightarrow> (TotpRequired, s1)
                      | Some code \<Rightarrow>
                          if verify (cy_hmac cy) secret code (mo_unix now) then granted
                          else (Denied, record_failure now username s1)))"

definition user_for :: "moment \<Rightarrow> string \<Rightarrow> file_auth \<Rightarrow> auth_user option \<times> file_auth" where
  "user_for now token s =
     (case fa_sessions s token of
        None \<Rightarrow> (None, s)
      | Some ss \<Rightarrow>
          if ss_expires ss \<le> mo_unix now
          then (None, persist_sessions now (s\<lparr>fa_sessions := (fa_sessions s)(token := None)\<rparr>))
          else (map_option as_user (find (named (ur_username (ss_user ss))) (fa_users s)), s))"

definition logout :: "moment \<Rightarrow> string \<Rightarrow> file_auth \<Rightarrow> file_auth" where
  "logout now token s =
     (case fa_sessions s token of
        None \<Rightarrow> s
      | Some _ \<Rightarrow> persist_sessions now (s\<lparr>fa_sessions := (fa_sessions s)(token := None)\<rparr>))"

definition attach_device :: "moment \<Rightarrow> string \<Rightarrow> string \<Rightarrow> file_auth \<Rightarrow> file_auth" where
  "attach_device now token device s =
     (case fa_sessions s token of
        None \<Rightarrow> s
      | Some ss \<Rightarrow> persist_sessions now (s\<lparr>fa_sessions := (fa_sessions s)(token \<mapsto> ss\<lparr>ss_label := device\<rparr>)\<rparr>))"

text \<open>\<open>order\<close> is the order in which the hash map is walked; the sort is stable.\<close>

definition sessions_for :: "(string \<Rightarrow> string \<Rightarrow> bool) \<Rightarrow> string list \<Rightarrow> moment \<Rightarrow> string \<Rightarrow> string \<Rightarrow> file_auth \<Rightarrow> session_info list" where
  "sessions_for le order now username current s =
     sort_by (\<lambda>a b. le (si_at b) (si_at a))
       (List.map_filter (\<lambda>tok. case fa_sessions s tok of
            None \<Rightarrow> None
          | Some ss \<Rightarrow>
              if ur_username (ss_user ss) = username \<and> mo_unix now < ss_expires ss
              then Some \<lparr>si_label = (if ss_label ss = [] then ''Unknown device'' else ss_label ss),
                         si_at = ss_at ss, si_current = (tok = current)\<rparr>
              else None) order)"

section \<open>Accounts\<close>

definition list_users :: "file_auth \<Rightarrow> auth_user list" where
  "list_users s = map as_user (fa_users s)"

definition create_user ::
  "crypto \<Rightarrow> moment \<Rightarrow> string \<Rightarrow> string \<Rightarrow> string \<Rightarrow> auth_role \<Rightarrow> file_auth \<Rightarrow> bool \<times> file_auth" where
  "create_user cy now salt username password r s =
     (if trim username = [] \<or> password = [] then (False, s)
      else case cy_hash cy salt password of
        None \<Rightarrow> (False, s)
      | Some hash \<Rightarrow> persist now (s\<lparr>fa_users := upsert_user username hash r (fa_users s)\<rparr>))"

text \<open>The writes to one account: the first of that name, or refused.\<close>

definition edit_user :: "moment \<Rightarrow> string \<Rightarrow> (stored_user \<Rightarrow> stored_user) \<Rightarrow> file_auth \<Rightarrow> bool \<times> file_auth" where
  "edit_user now username f s =
     (case find (named username) (fa_users s) of
        None \<Rightarrow> (False, s)
      | Some _ \<Rightarrow> persist now (s\<lparr>fa_users := update_first (named username) f (fa_users s)\<rparr>))"

definition update_user ::
  "moment \<Rightarrow> string \<Rightarrow> string \<Rightarrow> string \<Rightarrow> auth_role option \<Rightarrow> file_auth \<Rightarrow> bool \<times> file_auth" where
  "update_user now username name email r =
     edit_user now username (\<lambda>u. u\<lparr>su_name := trim name, su_email := trim email,
       su_role := (case r of Some x \<Rightarrow> x | None \<Rightarrow> su_role u)\<rparr>)"

definition set_password :: "crypto \<Rightarrow> moment \<Rightarrow> string \<Rightarrow> string \<Rightarrow> string \<Rightarrow> file_auth \<Rightarrow> bool \<times> file_auth" where
  "set_password cy now salt username password s =
     (if password = [] then (False, s)
      else case cy_hash cy salt password of
        None \<Rightarrow> (False, s)
      | Some hash \<Rightarrow> edit_user now username (\<lambda>u. u\<lparr>su_hash := hash\<rparr>) s)"

definition is_admin_tier :: "auth_role \<Rightarrow> bool" where
  "is_admin_tier r \<longleftrightarrow> r = RoleAdmin \<or> r = RoleSuper"

definition delete_user :: "moment \<Rightarrow> string \<Rightarrow> file_auth \<Rightarrow> bool \<times> file_auth" where
  "delete_user now username s =
     (if \<not> list_ex (named username) (fa_users s) then (False, s)
      else
        let admins_left = length (filter (\<lambda>u. is_admin_tier (su_role u) \<and> su_username u \<noteq> username) (fa_users s));
            removing_admin = list_ex (\<lambda>u. su_username u = username \<and> is_admin_tier (su_role u)) (fa_users s)
        in if removing_admin \<and> admins_left = 0 then (False, s)
           else persist now (s\<lparr>fa_users := filter (\<lambda>u. su_username u \<noteq> username) (fa_users s)\<rparr>))"

definition assign_project :: "moment \<Rightarrow> string \<Rightarrow> string \<Rightarrow> file_auth \<Rightarrow> bool \<times> file_auth" where
  "assign_project now username pid s =
     (case find (named username) (fa_users s) of
        None \<Rightarrow> (False, s)
      | Some u \<Rightarrow>
          if pid \<in> set (su_projects u) then (True, s)
          else edit_user now username (\<lambda>u. u\<lparr>su_projects := su_projects u @ [pid]\<rparr>) s)"

definition unassign_project :: "moment \<Rightarrow> string \<Rightarrow> string \<Rightarrow> file_auth \<Rightarrow> bool \<times> file_auth" where
  "unassign_project now username pid s =
     (case find (named username) (fa_users s) of
        None \<Rightarrow> (False, s)
      | Some u \<Rightarrow>
          let kept = filter (\<lambda>p. p \<noteq> pid) (su_projects u);
              removed = (length kept \<noteq> length (su_projects u));
              s1 = s\<lparr>fa_users := update_first (named username) (\<lambda>u. u\<lparr>su_projects := kept\<rparr>) (fa_users s)\<rparr>
          in (removed, if removed then snd (persist now s1) else s1))"

section \<open>Two factors\<close>

definition enroll_2fa :: "8 word list \<Rightarrow> string \<Rightarrow> file_auth \<Rightarrow> (string \<times> string) option \<times> file_auth" where
  "enroll_2fa rnd username s =
     (if \<not> list_ex (named username) (fa_users s) then (None, s)
      else let secret = generate_secret rnd in
        (Some (secret, provisioning_uri secret username ''CoXAgent''),
         s\<lparr>fa_pending_totp := (fa_pending_totp s)(username \<mapsto> secret)\<rparr>))"

definition enable_2fa :: "crypto \<Rightarrow> moment \<Rightarrow> string \<Rightarrow> string \<Rightarrow> file_auth \<Rightarrow> bool \<times> file_auth" where
  "enable_2fa cy now username code s =
     (case fa_pending_totp s username of
        None \<Rightarrow> (False, s)
      | Some secret \<Rightarrow>
          if \<not> verify (cy_hmac cy) secret code (mo_unix now) then (False, s)
          else case find (named username) (fa_users s) of
            None \<Rightarrow> (False, s)
          | Some _ \<Rightarrow>
              persist now (s\<lparr>fa_users := update_first (named username) (\<lambda>u. u\<lparr>su_totp_secret := Some secret\<rparr>) (fa_users s),
                fa_pending_totp := (fa_pending_totp s)(username := None)\<rparr>))"

definition disable_2fa :: "moment \<Rightarrow> string \<Rightarrow> file_auth \<Rightarrow> bool \<times> file_auth" where
  "disable_2fa now username s =
     (case find (named username) (fa_users s) of
        None \<Rightarrow> (False, s)
      | Some u \<Rightarrow>
          let was_enabled = (su_totp_secret u \<noteq> None);
              s1 = s\<lparr>fa_users := update_first (named username) (\<lambda>u. u\<lparr>su_totp_secret := None\<rparr>) (fa_users s)\<rparr>
          in (was_enabled, if was_enabled then snd (persist now s1) else s1))"

definition has_2fa :: "string \<Rightarrow> file_auth \<Rightarrow> bool" where
  "has_2fa username s = list_ex (\<lambda>u. su_username u = username \<and> su_totp_secret u \<noteq> None) (fa_users s)"

end
