(* ===== verification/Account_Book.thy ===== *)
theory Account_Book
  imports Accounts
begin

text \<open>
  What an account service promises, whatever it is stored in: one book of accounts by name, a lock per
  name that counts failed sign-ins, and the secrets of pending enrolments. The locale
  \<open>account_service\<close> says that a service answers a sequence of calls as the book does; the file
  service is interpreted here, the database service in \<open>Sql_Accounts\<close>.
\<close>

section \<open>The book\<close>

record account =
  ac_hash :: string
  ac_name :: string
  ac_email :: string
  ac_role :: auth_role
  ac_totp_secret :: "string option"
  ac_projects :: "string list"

datatype lock_state = Counting nat | Locked int

record account_book =
  bk_accounts :: "string \<rightharpoonup> account"
  bk_lock :: "string \<Rightarrow> lock_state"
  bk_pending :: "string \<rightharpoonup> string"

datatype account_call =
    CreateUser string string string auth_role
  | UpdateUser string string string "auth_role option"
  | SetPassword string string string
  | DeleteUser string
  | AssignProject string string
  | UnassignProject string string
  | Enroll2fa "8 word list" string
  | Enable2fa string string
  | Disable2fa string
  | Login string string string "string option"

datatype account_answer = Replied bool | Enrolled "(string \<times> string) option" | SignIn login_result

text \<open>A lock that has run out counts from zero.\<close>

definition lock_at :: "int \<Rightarrow> lock_state \<Rightarrow> lock_state" where
  "lock_at t l = (case l of Locked u \<Rightarrow> if t < u then Locked u else Counting 0 | Counting n \<Rightarrow> Counting n)"

definition lock_after_failure :: "int \<Rightarrow> lock_state \<Rightarrow> lock_state" where
  "lock_after_failure t l =
     (case l of Locked u \<Rightarrow> Locked u
      | Counting n \<Rightarrow> if MAX_FAILS \<le> n + 1 then Locked (t + LOCKOUT) else Counting (n + 1))"

definition book_edit :: "string \<Rightarrow> (account \<Rightarrow> account) \<Rightarrow> account_book \<Rightarrow> bool \<times> account_book" where
  "book_edit u f b =
     (case bk_accounts b u of
        None \<Rightarrow> (False, b)
      | Some a \<Rightarrow> (True, b\<lparr>bk_accounts := (bk_accounts b)(u \<mapsto> f a)\<rparr>))"

definition other_admin :: "string \<Rightarrow> account_book \<Rightarrow> bool" where
  "other_admin u b \<longleftrightarrow> (\<exists>v a. v \<noteq> u \<and> bk_accounts b v = Some a \<and> is_admin_tier (ac_role a))"

definition book_login ::
  "crypto \<Rightarrow> moment \<Rightarrow> string \<Rightarrow> string \<Rightarrow> string \<Rightarrow> string option \<Rightarrow> account_book \<Rightarrow> login_result \<times> account_book" where
  "book_login cy now token u password totp b =
     (let l = lock_at (mo_mono now) (bk_lock b u);
          failed = (Denied, b\<lparr>bk_lock := (bk_lock b)(u := lock_after_failure (mo_mono now) l)\<rparr>);
          granted = (LoginOk token, b\<lparr>bk_lock := (bk_lock b)(u := Counting 0)\<rparr>)
      in case l of
           Locked _ \<Rightarrow> (Denied, b)
         | Counting _ \<Rightarrow>
             (case bk_accounts b u of
                None \<Rightarrow> failed
              | Some a \<Rightarrow>
                  if \<not> cy_verify cy (ac_hash a) password then failed
                  else case (ac_totp_secret a, totp) of
                      (None, _) \<Rightarrow> granted
                    | (Some _, None) \<Rightarrow> (TotpRequired, b)
                    | (Some secret, Some code) \<Rightarrow>
                        if verify (cy_hmac cy) secret code (mo_unix now) then granted else failed))"

fun book_run :: "crypto \<Rightarrow> moment \<Rightarrow> account_call \<Rightarrow> account_book \<Rightarrow> account_answer \<times> account_book" where
  "book_run cy now (CreateUser salt u password r) b =
     (if trim u = [] \<or> password = [] then (Replied False, b)
      else case cy_hash cy salt password of
        None \<Rightarrow> (Replied False, b)
      | Some h \<Rightarrow> (Replied True, b\<lparr>bk_accounts := (bk_accounts b)(u \<mapsto>
          (case bk_accounts b u of
             Some a \<Rightarrow> a\<lparr>ac_hash := h, ac_role := r\<rparr>
           | None \<Rightarrow> \<lparr>ac_hash = h, ac_name = [], ac_email = [], ac_role = r, ac_totp_secret = None, ac_projects = []\<rparr>))\<rparr>))"
| "book_run cy now (UpdateUser u name email r) b =
     map_prod Replied id (book_edit u (\<lambda>a. a\<lparr>ac_name := trim name, ac_email := trim email,
       ac_role := (case r of Some x \<Rightarrow> x | None \<Rightarrow> ac_role a)\<rparr>) b)"
| "book_run cy now (SetPassword salt u password) b =
     (if password = [] then (Replied False, b)
      else case cy_hash cy salt password of
        None \<Rightarrow> (Replied False, b)
      | Some h \<Rightarrow> map_prod Replied id (book_edit u (\<lambda>a. a\<lparr>ac_hash := h\<rparr>) b))"
| "book_run cy now (DeleteUser u) b =
     (case bk_accounts b u of
        None \<Rightarrow> (Replied False, b)
      | Some a \<Rightarrow>
          if is_admin_tier (ac_role a) \<and> \<not> other_admin u b then (Replied False, b)
          else (Replied True, b\<lparr>bk_accounts := (bk_accounts b)(u := None)\<rparr>))"
| "book_run cy now (AssignProject u pid) b =
     map_prod Replied id (book_edit u (\<lambda>a. if pid \<in> set (ac_projects a) then a
       else a\<lparr>ac_projects := ac_projects a @ [pid]\<rparr>) b)"
| "book_run cy now (UnassignProject u pid) b =
     (case bk_accounts b u of
        None \<Rightarrow> (Replied False, b)
      | Some a \<Rightarrow> (Replied (pid \<in> set (ac_projects a)),
          b\<lparr>bk_accounts := (bk_accounts b)(u \<mapsto> a\<lparr>ac_projects := filter (\<lambda>p. p \<noteq> pid) (ac_projects a)\<rparr>)\<rparr>))"
| "book_run cy now (Enroll2fa rnd u) b =
     (case bk_accounts b u of
        None \<Rightarrow> (Enrolled None, b)
      | Some _ \<Rightarrow> let secret = generate_secret rnd in
          (Enrolled (Some (secret, provisioning_uri secret u ''CoXAgent'')),
           b\<lparr>bk_pending := (bk_pending b)(u \<mapsto> secret)\<rparr>))"
| "book_run cy now (Enable2fa u code) b =
     (case bk_pending b u of
        None \<Rightarrow> (Replied False, b)
      | Some secret \<Rightarrow>
          if \<not> verify (cy_hmac cy) secret code (mo_unix now) then (Replied False, b)
          else case bk_accounts b u of
            None \<Rightarrow> (Replied False, b)
          | Some a \<Rightarrow> (Replied True, b\<lparr>bk_accounts := (bk_accounts b)(u \<mapsto> a\<lparr>ac_totp_secret := Some secret\<rparr>),
              bk_pending := (bk_pending b)(u := None)\<rparr>))"
| "book_run cy now (Disable2fa u) b =
     (case bk_accounts b u of
        None \<Rightarrow> (Replied False, b)
      | Some a \<Rightarrow> (Replied (ac_totp_secret a \<noteq> None), b\<lparr>bk_accounts := (bk_accounts b)(u \<mapsto> a\<lparr>ac_totp_secret := None\<rparr>)\<rparr>))"
| "book_run cy now (Login token u password totp) b = map_prod SignIn id (book_login cy now token u password totp b)"

section \<open>Services that keep the book\<close>

fun replies :: "(moment \<Rightarrow> account_call \<Rightarrow> 's \<Rightarrow> account_answer \<times> 's) \<Rightarrow> (moment \<times> account_call) list \<Rightarrow> 's \<Rightarrow> account_answer list" where
  "replies run [] s = []"
| "replies run ((now, c) # cs) s = (case run now c s of (a, s') \<Rightarrow> a # replies run cs s')"

fun run_all :: "(moment \<Rightarrow> account_call \<Rightarrow> 's \<Rightarrow> account_answer \<times> 's) \<Rightarrow> (moment \<times> account_call) list \<Rightarrow> 's \<Rightarrow> 's" where
  "run_all run [] s = s"
| "run_all run ((now, c) # cs) s = run_all run cs (snd (run now c s))"

text \<open>Calls in the order of the monotonic clock, with a disk that takes every write.\<close>

definition orderly :: "int \<Rightarrow> (moment \<times> account_call) list \<Rightarrow> bool" where
  "orderly t cs \<longleftrightarrow> sorted (t # map (\<lambda>(now, _). mo_mono now) cs) \<and> (\<forall>(now, _) \<in> set cs. mo_io now)"

text \<open>Two books that no sign-in from time \<open>t\<close> on can tell apart.\<close>

definition same_book :: "int \<Rightarrow> account_book \<Rightarrow> account_book \<Rightarrow> bool" where
  "same_book t b c \<longleftrightarrow> bk_accounts b = bk_accounts c \<and> bk_pending b = bk_pending c
     \<and> (\<forall>u. lock_at t (bk_lock b u) = lock_at t (bk_lock c u))"

locale account_service =
  fixes run :: "moment \<Rightarrow> account_call \<Rightarrow> 's \<Rightarrow> account_answer \<times> 's"
    and cy :: crypto
    and book :: "'s \<Rightarrow> account_book"
    and ok :: "int \<Rightarrow> 's \<Rightarrow> bool"
  assumes keeps_ok: "ok t s \<Longrightarrow> t \<le> mo_mono now \<Longrightarrow> mo_io now \<Longrightarrow> ok (mo_mono now) (snd (run now c s))"
    and answer: "ok t s \<Longrightarrow> t \<le> mo_mono now \<Longrightarrow> mo_io now \<Longrightarrow> fst (run now c s) = fst (book_run cy now c (book s))"
    and entry: "ok t s \<Longrightarrow> t \<le> mo_mono now \<Longrightarrow> mo_io now
      \<Longrightarrow> same_book (mo_mono now) (book (snd (run now c s))) (snd (book_run cy now c (book s)))"

lemma lock_at_lock_at: "t \<le> t' \<Longrightarrow> lock_at t' (lock_at t l) = lock_at t' l"
  by (auto simp: lock_at_def split: lock_state.splits)

lemma lock_at_Counting [simp]: "lock_at t (Counting n) = Counting n"
  by (simp add: lock_at_def)

lemma same_book_refl [simp]: "same_book t b b"
  by (simp add: same_book_def)

lemma same_book_later: "same_book t b c \<Longrightarrow> t \<le> t' \<Longrightarrow> same_book t' b c"
  unfolding same_book_def by (metis lock_at_lock_at)

lemma same_book_trans: "same_book t a b \<Longrightarrow> same_book t b c \<Longrightarrow> same_book t a c"
  by (simp add: same_book_def)

lemma same_book_sign_in:
  assumes "same_book (mo_mono now) b c"
  shows "fst (book_login cy now tok u pw totp b) = fst (book_login cy now tok u pw totp c)
    \<and> same_book (mo_mono now) (snd (book_login cy now tok u pw totp b)) (snd (book_login cy now tok u pw totp c))"
  using assms by (auto simp: book_login_def same_book_def Let_def split: lock_state.split option.split)

lemma same_book_run:
  assumes "same_book (mo_mono now) b c"
  shows "fst (book_run cy now call b) = fst (book_run cy now call c)
    \<and> same_book (mo_mono now) (snd (book_run cy now call b)) (snd (book_run cy now call c))"
  using assms same_book_sign_in [OF assms]
  by (cases call) (auto simp: same_book_def book_edit_def other_admin_def Let_def split: option.split)

context account_service
begin

lemma replies_agree:
  assumes "ok t s" "same_book t (book s) b" "orderly t cs"
  shows "replies run cs s = replies (book_run cy) cs b"
  using assms
proof (induction cs arbitrary: t s b)
  case (Cons x cs)
  obtain now c where x: "x = (now, c)" by (cases x)
  have t: "t \<le> mo_mono now" "mo_io now" "orderly (mo_mono now) cs"
    using Cons.prems(3) by (auto simp: orderly_def x)
  note now = same_book_later [OF Cons.prems(2) t(1)]
  have "fst (run now c s) = fst (book_run cy now c b)"
    using answer [OF Cons.prems(1) t(1,2)] same_book_run [OF now] by simp
  moreover have "replies run cs (snd (run now c s)) = replies (book_run cy) cs (snd (book_run cy now c b))"
    using Cons.IH [OF keeps_ok [OF Cons.prems(1) t(1,2)] _ t(3)]
      same_book_trans [OF entry [OF Cons.prems(1) t(1,2)]] same_book_run [OF now] by blast
  ultimately show ?case by (simp add: x split_beta)
qed simp

lemma run_all_book:
  assumes "ok t s" "same_book t (book s) b" "orderly t cs"
  shows "bk_accounts (book (run_all run cs s)) = bk_accounts (run_all (book_run cy) cs b)"
  using assms
proof (induction cs arbitrary: t s b)
  case Nil
  then show ?case by (simp add: same_book_def)
next
  case (Cons x cs)
  obtain now c where x: "x = (now, c)" by (cases x)
  have t: "t \<le> mo_mono now" "mo_io now" "orderly (mo_mono now) cs"
    using Cons.prems(3) by (auto simp: orderly_def x)
  have "same_book (mo_mono now) (book (snd (run now c s))) (snd (book_run cy now c b))"
    using same_book_trans [OF entry [OF Cons.prems(1) t(1,2)]] same_book_run [OF same_book_later [OF Cons.prems(2) t(1)]]
    by blast
  then show ?case using Cons.IH [OF keeps_ok [OF Cons.prems(1) t(1,2)] _ t(3)] by (simp add: x)
qed

end

section \<open>The file service\<close>

fun file_run :: "crypto \<Rightarrow> moment \<Rightarrow> account_call \<Rightarrow> file_auth \<Rightarrow> account_answer \<times> file_auth" where
  "file_run cy now (CreateUser salt u pw r) s = map_prod Replied id (create_user cy now salt u pw r s)"
| "file_run cy now (UpdateUser u name email r) s = map_prod Replied id (update_user now u name email r s)"
| "file_run cy now (SetPassword salt u pw) s = map_prod Replied id (set_password cy now salt u pw s)"
| "file_run cy now (DeleteUser u) s = map_prod Replied id (delete_user now u s)"
| "file_run cy now (AssignProject u pid) s = map_prod Replied id (assign_project now u pid s)"
| "file_run cy now (UnassignProject u pid) s = map_prod Replied id (unassign_project now u pid s)"
| "file_run cy now (Enroll2fa rnd u) s = map_prod Enrolled id (enroll_2fa rnd u s)"
| "file_run cy now (Enable2fa u code) s = map_prod Replied id (enable_2fa cy now u code s)"
| "file_run cy now (Disable2fa u) s = map_prod Replied id (disable_2fa now u s)"
| "file_run cy now (Login tok u pw totp) s = map_prod SignIn id (login cy now tok u pw totp s)"

definition account_of :: "stored_user \<Rightarrow> account" where
  "account_of u = \<lparr>ac_hash = su_hash u, ac_name = su_name u, ac_email = su_email u, ac_role = su_role u,
     ac_totp_secret = su_totp_secret u, ac_projects = su_projects u\<rparr>"

definition lock_of :: "login_attempts option \<Rightarrow> lock_state" where
  "lock_of a = (case a of None \<Rightarrow> Counting 0
     | Some x \<Rightarrow> (case la_locked_until x of Some t \<Rightarrow> Locked t | None \<Rightarrow> Counting (la_fails x)))"

definition users_map :: "stored_user list \<Rightarrow> string \<rightharpoonup> account" where
  "users_map us u = map_option account_of (find (named u) us)"

definition file_book :: "file_auth \<Rightarrow> account_book" where
  "file_book s = \<lparr>bk_accounts = users_map (fa_users s), bk_lock = (\<lambda>u. lock_of (fa_attempts s u)),
     bk_pending = fa_pending_totp s\<rparr>"

definition users_ok :: "stored_user list \<Rightarrow> bool" where
  "users_ok us \<longleftrightarrow> distinct (map su_username us)"

text \<open>Names are unique, and the counter of failures is below the limit as long as the account is not locked.\<close>

definition file_ok :: "file_auth \<Rightarrow> bool" where
  "file_ok s \<longleftrightarrow> users_ok (fa_users s)
     \<and> (\<forall>u a. fa_attempts s u = Some a \<longrightarrow> la_fails a \<le> MAX_FAILS
          \<and> (la_locked_until a = None \<longrightarrow> la_fails a < MAX_FAILS))"

subsection \<open>Lists of accounts as maps\<close>

lemma find_named: "find (named u) us = Some x \<Longrightarrow> su_username x = u"
  by (auto simp: find_Some_iff named_def)

lemma users_map_None: "users_map us u = None \<longleftrightarrow> u \<notin> su_username ` set us"
  by (auto simp: users_map_def find_None_iff named_def)

lemma users_map_update:
  assumes name: "\<And>x. su_username (f x) = su_username x" and some: "find (named u) us = Some x"
  shows "users_map (update_first (named u) f us) = (users_map us)(u \<mapsto> account_of (f x))"
proof
  fix v
  show "users_map (update_first (named u) f us) v = ((users_map us)(u \<mapsto> account_of (f x))) v"
    using some by (induction us) (auto simp: users_map_def named_def name split: if_splits)
qed

lemma users_map_append: "find (named (su_username x)) us = None \<Longrightarrow> users_map (us @ [x]) = (users_map us)(su_username x \<mapsto> account_of x)"
proof
  fix v
  assume "find (named (su_username x)) us = None"
  then show "users_map (us @ [x]) v = ((users_map us)(su_username x \<mapsto> account_of x)) v"
    by (induction us) (auto simp: users_map_def named_def split: if_splits)
qed

lemma users_map_filter: "users_map (filter (\<lambda>x. su_username x \<noteq> u) us) = (users_map us)(u := None)"
proof
  fix v
  show "users_map (filter (\<lambda>x. su_username x \<noteq> u) us) v = ((users_map us)(u := None)) v"
    by (induction us) (auto simp: users_map_def named_def)
qed

lemma users_ok_update [simp]: "(\<And>x. su_username (f x) = su_username x) \<Longrightarrow> users_ok (update_first p f us) = users_ok us"
proof -
  assume f: "\<And>x. su_username (f x) = su_username x"
  have "map su_username (update_first p f us) = map su_username us" by (induction us) (auto simp: f)
  then show ?thesis by (simp add: users_ok_def)
qed

lemma users_map_member:
  assumes "users_ok us" "x \<in> set us" shows "users_map us (su_username x) = Some (account_of x)"
  using assms by (induction us) (auto simp: users_ok_def users_map_def named_def)

lemma users_map_origin: "users_map us u = Some a \<Longrightarrow> \<exists>x \<in> set us. su_username x = u \<and> a = account_of x"
  by (auto simp: users_map_def find_Some_iff named_def)

lemma list_ex_named: "list_ex (named u) us \<longleftrightarrow> users_map us u \<noteq> None"
  by (auto simp: users_map_None list_ex_iff named_def)

text \<open>The counts of \<open>delete_user\<close> are questions to the book.\<close>

lemma admin_counts:
  assumes "users_ok us"
  shows "length (filter (\<lambda>x. is_admin_tier (su_role x) \<and> su_username x \<noteq> u) us) = 0
           \<longleftrightarrow> \<not> (\<exists>v a. v \<noteq> u \<and> users_map us v = Some a \<and> is_admin_tier (ac_role a))"
    and "list_ex (\<lambda>x. su_username x = u \<and> is_admin_tier (su_role x)) us
           \<longleftrightarrow> (\<exists>a. users_map us u = Some a \<and> is_admin_tier (ac_role a))"
  using users_map_member [OF assms] users_map_origin [of us]
  by (auto simp: filter_empty_conv list_ex_iff account_of_def) (metis account.select_convs(4))+

subsection \<open>The file service keeps the book\<close>

lemma file_book_simps [simp]:
  "bk_accounts (file_book s) = users_map (fa_users s)" "bk_pending (file_book s) = fa_pending_totp s"
  "bk_lock (file_book s) u = lock_of (fa_attempts s u)"
  by (simp_all add: file_book_def)

lemma persist_simps [simp]:
  "mo_io now \<Longrightarrow> fst (persist now s)" "fa_users (snd (persist now s)) = fa_users s"
  "fa_attempts (snd (persist now s)) = fa_attempts s" "fa_pending_totp (snd (persist now s)) = fa_pending_totp s"
  "fa_tokens (snd (persist now s)) = fa_tokens s" "fa_sessions (snd (persist now s)) = fa_sessions s"
  by (simp_all add: persist_def)

lemma persist_sessions_simps [simp]:
  "fa_users (persist_sessions now s) = fa_users s" "fa_attempts (persist_sessions now s) = fa_attempts s"
  "fa_pending_totp (persist_sessions now s) = fa_pending_totp s" "fa_tokens (persist_sessions now s) = fa_tokens s"
  "fa_sessions (persist_sessions now s) = fa_sessions s"
  by (simp_all add: persist_sessions_def)

lemma book_eqI:
  "bk_accounts b = bk_accounts c \<Longrightarrow> bk_pending b = bk_pending c \<Longrightarrow> (\<And>u. bk_lock b u = bk_lock c u) \<Longrightarrow> b = (c :: account_book)"
  by (cases b; cases c) auto

lemma edit_user_book:
  assumes "mo_io now" "\<And>x. su_username (f x) = su_username x" "\<And>x. account_of (f x) = g (account_of x)"
  shows "fst (edit_user now u f s) = fst (book_edit u g (file_book s))"
    and "file_book (snd (edit_user now u f s)) = snd (book_edit u g (file_book s))"
  using assms users_map_update [of f u "fa_users s"]
  by (auto simp: edit_user_def book_edit_def users_map_def split: option.split intro!: book_eqI)

lemma locked_book:
  "fst (is_locked now u s) \<longleftrightarrow> (\<exists>t. lock_at (mo_mono now) (lock_of (fa_attempts s u)) = Locked t)"
  "fa_users (snd (is_locked now u s)) = fa_users s" "fa_pending_totp (snd (is_locked now u s)) = fa_pending_totp s"
  "\<not> fst (is_locked now u s) \<Longrightarrow> lock_of (fa_attempts (snd (is_locked now u s)) u) = lock_at (mo_mono now) (lock_of (fa_attempts s u))"
  "v \<noteq> u \<Longrightarrow> fa_attempts (snd (is_locked now u s)) v = fa_attempts s v"
  "fst (is_locked now u s) \<Longrightarrow> snd (is_locked now u s) = s"
  by (auto simp: is_locked_def lock_of_def lock_at_def split: option.splits if_splits)

lemma record_failure_simps [simp]:
  "fa_users (record_failure now u s) = fa_users s" "fa_pending_totp (record_failure now u s) = fa_pending_totp s"
  "v \<noteq> u \<Longrightarrow> fa_attempts (record_failure now u s) v = fa_attempts s v"
  by (simp_all add: record_failure_def Let_def)

lemma failure_book:
  assumes "lock_of (fa_attempts s u) = Counting n"
  shows "lock_of (fa_attempts (record_failure now u s) u) = lock_after_failure (mo_mono now) (Counting n)"
  using assms
  by (auto simp: record_failure_def lock_of_def lock_after_failure_def Let_def split: option.splits)

lemma file_ok_locked: "file_ok s \<Longrightarrow> file_ok (snd (is_locked now u s))"
  by (auto simp: file_ok_def is_locked_def MAX_FAILS_def split: option.splits if_splits)

lemma file_ok_failure:
  assumes "file_ok s" "lock_of (fa_attempts s u) = Counting n" shows "file_ok (record_failure now u s)"
  using assms
  by (fastforce simp: file_ok_def record_failure_def lock_of_def Let_def MAX_FAILS_def split: option.splits if_splits)

lemma file_ok_granted: "file_ok s \<Longrightarrow> file_ok (persist_sessions now ((clear_failures u s)\<lparr>fa_sessions := m\<rparr>))"
  by (auto simp: file_ok_def clear_failures_def)

lemma login_book:
  assumes ok: "file_ok s"
  shows "fst (login cy now tok u pw totp s) = fst (book_login cy now tok u pw totp (file_book s))"
    and "same_book (mo_mono now) (file_book (snd (login cy now tok u pw totp s)))
           (snd (book_login cy now tok u pw totp (file_book s)))"
    and "file_ok (snd (login cy now tok u pw totp s))"
proof -
  obtain locked s1 where il: "is_locked now u s = (locked, s1)" by (cases "is_locked now u s")
  note lb = locked_book [where now = now and u = u and s = s, unfolded il fst_conv snd_conv]
  have ok1: "file_ok s1" using file_ok_locked [OF ok, where now = now and u = u] by (simp add: il)
  have "fst (login cy now tok u pw totp s) = fst (book_login cy now tok u pw totp (file_book s))
    \<and> same_book (mo_mono now) (file_book (snd (login cy now tok u pw totp s)))
           (snd (book_login cy now tok u pw totp (file_book s)))
    \<and> file_ok (snd (login cy now tok u pw totp s))"
  proof (cases locked)
    case True
    then show ?thesis using lb(1,6) ok by (auto simp: login_def il book_login_def Let_def)
  next
    case False
    then obtain n where n: "lock_at (mo_mono now) (lock_of (fa_attempts s u)) = Counting n" "lock_of (fa_attempts s1 u) = Counting n"
      using lb(1,4) by (cases "lock_at (mo_mono now) (lock_of (fa_attempts s u))") auto
    have same: "same_book (mo_mono now) (file_book s1) (file_book s)"
      unfolding same_book_def
    proof (intro conjI allI)
      fix v show "lock_at (mo_mono now) (bk_lock (file_book s1) v) = lock_at (mo_mono now) (bk_lock (file_book s) v)"
        using n lb(5) by (cases "v = u") auto
    qed (simp_all add: lb(2,3))
    have failed: "same_book (mo_mono now) (file_book (record_failure now u s1))
        ((file_book s)\<lparr>bk_lock := (bk_lock (file_book s))(u := lock_after_failure (mo_mono now) (Counting n))\<rparr>)"
      using same failure_book [OF n(2), of now] by (auto simp: same_book_def)
    have granted: "same_book (mo_mono now)
        (file_book (persist_sessions now ((clear_failures u s1)\<lparr>fa_sessions := m\<rparr>)))
        ((file_book s)\<lparr>bk_lock := (bk_lock (file_book s))(u := Counting 0)\<rparr>)" for m
      using same by (auto simp: same_book_def clear_failures_def lock_of_def)
    show ?thesis
      using False n(1) failed granted same lb(2) file_ok_failure [OF ok1 n(2)] file_ok_granted [OF ok1] ok1
      by (auto simp: login_def il book_login_def Let_def users_map_def account_of_def split: option.split)
  qed
  then show "fst (login cy now tok u pw totp s) = fst (book_login cy now tok u pw totp (file_book s))"
    "same_book (mo_mono now) (file_book (snd (login cy now tok u pw totp s)))
           (snd (book_login cy now tok u pw totp (file_book s)))"
    "file_ok (snd (login cy now tok u pw totp s))" by blast+
qed

lemma filter_drops_iff: "length (filter (\<lambda>p. p \<noteq> x) xs) = length xs \<longleftrightarrow> x \<notin> set xs"
proof (cases "x \<in> set xs")
  case False
  then have "filter (\<lambda>p. p \<noteq> x) xs = xs" by (auto intro: filter_True)
  then show ?thesis using False by simp
qed (use length_filter_less [of x xs "\<lambda>p. p \<noteq> x"] in auto)

text \<open>Calls that leave the locks alone: equal answers, and the same book.\<close>

lemma file_edit_cases:
  assumes ok: "file_ok s" and io: "mo_io now" and c: "\<And>tok u pw totp. c \<noteq> Login tok u pw totp"
  shows "fst (file_run cy now c s) = fst (book_run cy now c (file_book s))
    \<and> file_book (snd (file_run cy now c s)) = snd (book_run cy now c (file_book s))"
proof (cases c)
  case (CreateUser salt u pw r)
  show ?thesis
  proof (cases "find (named u) (fa_users s)")
    case None
    then show ?thesis
      using io users_map_append [of "new_user u h r" "fa_users s" for h]
      by (auto simp: CreateUser create_user_def upsert_user_def users_map_def new_user_def account_of_def
          split: option.split intro!: book_eqI)
  next
    case (Some x)
    then show ?thesis
      using io users_map_update [OF _ Some, of "\<lambda>u. u\<lparr>su_hash := h, su_role := r\<rparr>" for h]
      by (auto simp: CreateUser create_user_def upsert_user_def users_map_def account_of_def
          split: option.split intro!: book_eqI)
  qed
next
  case (UpdateUser u name email r)
  show ?thesis
    unfolding UpdateUser file_run.simps book_run.simps update_user_def fst_map_prod snd_map_prod id_apply
    by (intro conjI arg_cong [where f = Replied] edit_user_book io) (simp_all add: account_of_def split: option.split)
next
  case (SetPassword salt u pw)
  show ?thesis
    using edit_user_book [OF io, of "\<lambda>u. u\<lparr>su_hash := h\<rparr>" "\<lambda>a. a\<lparr>ac_hash := h\<rparr>" u s for h]
    by (auto simp: SetPassword set_password_def account_of_def split: option.split)
next
  case (DeleteUser u)
  have us: "users_ok (fa_users s)" using ok by (simp add: file_ok_def)
  show ?thesis
    using io admin_counts [OF us, of u] users_map_filter [of u "fa_users s"]
    by (auto simp: DeleteUser delete_user_def list_ex_named other_admin_def Let_def split: option.split intro!: book_eqI)
next
  case (AssignProject u pid)
  show ?thesis
  proof (cases "find (named u) (fa_users s)")
    case (Some x)
    then have x: "users_map (fa_users s) u = Some (account_of x)" by (simp add: users_map_def)
    then have "(users_map (fa_users s))(u \<mapsto> account_of x) = users_map (fa_users s)" by (rule fun_upd_idem)
    then show ?thesis
      using io Some x users_map_update [OF _ Some, of "\<lambda>x. x\<lparr>su_projects := su_projects x @ [pid]\<rparr>"]
      by (auto simp: AssignProject assign_project_def edit_user_def book_edit_def account_of_def intro!: book_eqI)
  qed (simp add: AssignProject assign_project_def book_edit_def users_map_def)
next
  case (UnassignProject u pid)
  show ?thesis
  proof (cases "find (named u) (fa_users s)")
    case (Some x)
    then have x: "users_map (fa_users s) u = Some (account_of x)" by (simp add: users_map_def)
    then show ?thesis
      using io Some users_map_update [OF _ Some, of "\<lambda>y. y\<lparr>su_projects := filter (\<lambda>p. p \<noteq> pid) (su_projects x)\<rparr>"]
      by (auto simp: UnassignProject unassign_project_def Let_def account_of_def filter_drops_iff intro!: book_eqI)
  qed (simp add: UnassignProject unassign_project_def users_map_def)
next
  case (Enroll2fa rnd u)
  then show ?thesis
    by (auto simp: enroll_2fa_def list_ex_named Let_def split: option.split intro!: book_eqI)
next
  case (Enable2fa u code)
  then show ?thesis
    using io users_map_update [of "\<lambda>x. x\<lparr>su_totp_secret := Some secret\<rparr>" u "fa_users s" for secret]
    by (auto simp: enable_2fa_def users_map_def account_of_def split: option.split intro!: book_eqI)
next
  case (Disable2fa u)
  then show ?thesis
    using io users_map_update [of "\<lambda>x. x\<lparr>su_totp_secret := None\<rparr>" u "fa_users s"]
    by (auto simp: disable_2fa_def users_map_def account_of_def Let_def split: option.split intro!: book_eqI)
next
  case Login
  then show ?thesis using c by blast
qed

lemma file_run_ok:
  assumes "file_ok s" shows "file_ok (snd (file_run cy now c s))"
proof (cases c)
  case (Login tok u pw totp)
  then show ?thesis using login_book(3) [OF assms] by simp
next
  case (DeleteUser u)
  have "distinct (map su_username (filter Q (fa_users s)))" for Q
    using assms by (auto simp: file_ok_def users_ok_def intro: distinct_map_filter)
  then show ?thesis using assms by (auto simp: DeleteUser delete_user_def file_ok_def users_ok_def Let_def)
next
  case (CreateUser salt u pw r)
  have "find (named u) (fa_users s) = None \<Longrightarrow> users_ok (fa_users s @ [new_user u h r])" for h
    using assms by (auto simp: file_ok_def users_ok_def new_user_def find_None_iff named_def)
  then show ?thesis
    using assms by (auto simp: CreateUser create_user_def upsert_user_def file_ok_def split: option.split)
qed (use assms in \<open>auto simp: file_ok_def update_user_def edit_user_def set_password_def assign_project_def
      unassign_project_def enroll_2fa_def enable_2fa_def disable_2fa_def Let_def split: option.split\<close>)

interpretation file_accounts: account_service "file_run cy" cy file_book "\<lambda>_. file_ok"
  for cy
proof
  fix t s and now :: moment and c
  assume ok: "file_ok s" and io: "mo_io now"
  show "file_ok (snd (file_run cy now c s))" by (rule file_run_ok [OF ok])
  show "fst (file_run cy now c s) = fst (book_run cy now c (file_book s))"
    using file_edit_cases [OF ok io, of c cy] login_book(1) [OF ok]
    by (cases "\<exists>tok u pw totp. c = Login tok u pw totp") auto
  show "same_book (mo_mono now) (file_book (snd (file_run cy now c s))) (snd (book_run cy now c (file_book s)))"
    using file_edit_cases [OF ok io, of c cy] login_book(2) [OF ok]
    by (cases "\<exists>tok u pw totp. c = Login tok u pw totp") auto
qed

end
