(* ===== verification/Sql_Accounts.thy ===== *)
theory Sql_Accounts
  imports Account_Book
begin

text \<open>
  The account service on Postgres, \<open>SqlAuthService\<close> of \<open>infrastructure/src/sql_auth.rs\<close>: the
  tables of accounts, API tokens and sessions are shared by all processes of the hub, the cache of
  sessions, the counters of failed sign-ins and the pending enrolments belong to one process. A
  method is one step; its statements are separate definitions where their interleaving matters. The
  variant that keeps the sessions in Redis is left out. A table is the list of its rows; a
  connection that fails is \<open>mo_io\<close>.
\<close>

section \<open>Tables and processes\<close>

record user_row =
  uw_username :: string
  uw_hash :: string
  uw_role :: string
  uw_totp_secret :: "string option"
  uw_projects :: "string list"
  uw_name :: string
  uw_email :: string

record token_row =
  tw_label :: string
  tw_role :: string
  tw_hash :: string
  tw_created :: string
  tw_owner :: string

record session_row =
  sw_username :: string
  sw_role :: string
  sw_expires :: nat
  sw_label :: string
  sw_at :: string

record auth_db =
  ad_users :: "user_row list"
  ad_tokens :: "token_row list"
  ad_sessions :: "string \<rightharpoonup> session_row"

record cached_session =
  cs_user :: auth_user
  cs_expires :: int
  cs_label :: string
  cs_at :: string

record auth_process =
  ap_sessions :: "string \<rightharpoonup> cached_session"
  ap_attempts :: "string \<rightharpoonup> login_attempts"
  ap_pending_2fa :: "string \<rightharpoonup> string"

record sql_auth =
  sq_db :: auth_db
  sq_here :: auth_process

definition NANOS :: int where "NANOS = 1000000000"

definition of_name :: "string \<Rightarrow> user_row \<Rightarrow> bool" where
  "of_name u r \<longleftrightarrow> uw_username r = u"

text \<open>\<open>UPDATE auth_users SET ... WHERE username = $1\<close>: the rows and how many there were.\<close>

definition update_rows :: "(user_row \<Rightarrow> bool) \<Rightarrow> (user_row \<Rightarrow> user_row) \<Rightarrow> sql_auth \<Rightarrow> nat \<times> sql_auth" where
  "update_rows p f s =
     (length (filter p (ad_users (sq_db s))),
      s\<lparr>sq_db := (sq_db s)\<lparr>ad_users := map (\<lambda>r. if p r then f r else r) (ad_users (sq_db s))\<rparr>\<rparr>)"

definition insert_user_row :: "string \<Rightarrow> string \<Rightarrow> string \<Rightarrow> sql_auth \<Rightarrow> sql_auth" where
  "insert_user_row u hash r s =
     (if list_ex (of_name u) (ad_users (sq_db s))
      then snd (update_rows (of_name u) (\<lambda>x. x\<lparr>uw_hash := hash, uw_role := r\<rparr>) s)
      else s\<lparr>sq_db := (sq_db s)\<lparr>ad_users := ad_users (sq_db s)
             @ [\<lparr>uw_username = u, uw_hash = hash, uw_role = r, uw_totp_secret = None, uw_projects = [], uw_name = [], uw_email = []\<rparr>]\<rparr>\<rparr>)"

definition sql_bootstrap_admin :: "crypto \<Rightarrow> moment \<Rightarrow> string \<Rightarrow> string \<Rightarrow> string \<Rightarrow> sql_auth \<Rightarrow> bool \<times> sql_auth" where
  "sql_bootstrap_admin cy now salt u password s =
     (case cy_hash cy salt password of
        None \<Rightarrow> (False, s)
      | Some hash \<Rightarrow> if mo_io now then (True, insert_user_row u hash ''super'' s) else (False, s))"

definition load_user_projects :: "moment \<Rightarrow> string \<Rightarrow> sql_auth \<Rightarrow> string list" where
  "load_user_projects now u s =
     (if \<not> mo_io now then []
      else case find (of_name u) (ad_users (sq_db s)) of None \<Rightarrow> [] | Some r \<Rightarrow> uw_projects r)"

section \<open>The lockout\<close>

definition sql_is_locked :: "moment \<Rightarrow> string \<Rightarrow> sql_auth \<Rightarrow> bool" where
  "sql_is_locked now u s =
     (case ap_attempts (sq_here s) u of
        None \<Rightarrow> False
      | Some a \<Rightarrow> (case la_locked_until a of None \<Rightarrow> False | Some t \<Rightarrow> mo_mono now < t))"

definition set_attempts :: "string \<Rightarrow> login_attempts option \<Rightarrow> sql_auth \<Rightarrow> sql_auth" where
  "set_attempts u a s = s\<lparr>sq_here := (sq_here s)\<lparr>ap_attempts := (ap_attempts (sq_here s))(u := a)\<rparr>\<rparr>"

definition sql_record_failure :: "moment \<Rightarrow> string \<Rightarrow> sql_auth \<Rightarrow> sql_auth" where
  "sql_record_failure now u s =
     (let a = (case ap_attempts (sq_here s) u of Some a \<Rightarrow> a | None \<Rightarrow> \<lparr>la_fails = 0, la_locked_until = None\<rparr>);
          fails = la_fails a + 1
      in set_attempts u (Some (if MAX_FAILS \<le> fails then \<lparr>la_fails = 0, la_locked_until = Some (mo_mono now + LOCKOUT)\<rparr>
                               else a\<lparr>la_fails := fails\<rparr>)) s)"

definition sql_clear_failures :: "string \<Rightarrow> sql_auth \<Rightarrow> sql_auth" where
  "sql_clear_failures u = set_attempts u None"

section \<open>Sessions\<close>

definition bare_user :: "string \<Rightarrow> auth_role \<Rightarrow> string list \<Rightarrow> auth_user" where
  "bare_user u r ps = \<lparr>ur_username = u, ur_name = [], ur_email = [], ur_role = r, ur_projects = ps\<rparr>"

definition put_cached :: "string \<Rightarrow> cached_session option \<Rightarrow> sql_auth \<Rightarrow> sql_auth" where
  "put_cached token c s = s\<lparr>sq_here := (sq_here s)\<lparr>ap_sessions := (ap_sessions (sq_here s))(token := c)\<rparr>\<rparr>"

definition put_session_row :: "string \<Rightarrow> session_row option \<Rightarrow> sql_auth \<Rightarrow> sql_auth" where
  "put_session_row token r s = s\<lparr>sq_db := (sq_db s)\<lparr>ad_sessions := (ad_sessions (sq_db s))(token := r)\<rparr>\<rparr>"

definition persist_session :: "moment \<Rightarrow> string \<Rightarrow> string \<Rightarrow> auth_role \<Rightarrow> string \<Rightarrow> sql_auth \<Rightarrow> sql_auth" where
  "persist_session now token u r at' s =
     (if \<not> mo_io now then s
      else put_session_row token (Some
        (case ad_sessions (sq_db s) token of
           Some w \<Rightarrow> w\<lparr>sw_expires := mo_unix now + SESSION_TTL\<rparr>
         | None \<Rightarrow> \<lparr>sw_username = u, sw_role = role_as_str r, sw_expires = mo_unix now + SESSION_TTL, sw_label = [], sw_at = at'\<rparr>)) s)"

definition forget_session :: "moment \<Rightarrow> string \<Rightarrow> sql_auth \<Rightarrow> sql_auth" where
  "forget_session now token s = (if mo_io now then put_session_row token None s else s)"

text \<open>The session of a sign-in: the durable row first, then the cache of this process.\<close>

definition open_session :: "moment \<Rightarrow> string \<Rightarrow> string \<Rightarrow> auth_role \<Rightarrow> sql_auth \<Rightarrow> sql_auth" where
  "open_session now token u r s =
     put_cached token (Some \<lparr>cs_user = bare_user u r (load_user_projects now u s),
         cs_expires = mo_mono now + int SESSION_TTL * NANOS, cs_label = [], cs_at = mo_rfc now\<rparr>)
       (persist_session now token u r (mo_rfc now) s)"

definition sql_login ::
  "crypto \<Rightarrow> moment \<Rightarrow> string \<Rightarrow> string \<Rightarrow> string \<Rightarrow> string option \<Rightarrow> sql_auth \<Rightarrow> login_result \<times> sql_auth" where
  "sql_login cy now token u password totp s =
     (if sql_is_locked now u s \<or> \<not> mo_io now then (Denied, s)
      else case find (of_name u) (ad_users (sq_db s)) of
        None \<Rightarrow> (Denied, sql_record_failure now u s)
      | Some row \<Rightarrow>
          if \<not> cy_verify cy (uw_hash row) password then (Denied, sql_record_failure now u s)
          else
            let granted = (LoginOk token,
                  open_session now token u (from_str_lenient (uw_role row)) (sql_clear_failures u s))
            in case uw_totp_secret row of
                 None \<Rightarrow> granted
               | Some secret \<Rightarrow>
                   (case totp of
                      None \<Rightarrow> (TotpRequired, s)
                    | Some code \<Rightarrow>
                        if verify (cy_hmac cy) secret code (mo_unix now) then granted
                        else (Denied, sql_record_failure now u s)))"

text \<open>A session for somebody an identity provider vouches for.\<close>

definition issue_session :: "moment \<Rightarrow> string \<Rightarrow> string \<Rightarrow> sql_auth \<Rightarrow> string option \<times> sql_auth" where
  "issue_session now token u s =
     (if \<not> mo_io now then (None, s)
      else case find (of_name u) (ad_users (sq_db s)) of
        None \<Rightarrow> (None, s)
      | Some row \<Rightarrow> (Some token, open_session now token u (from_str_lenient (uw_role row)) s))"

definition cache_row :: "moment \<Rightarrow> session_row \<Rightarrow> cached_session" where
  "cache_row now w = \<lparr>cs_user = bare_user (sw_username w) (from_str_lenient (sw_role w)) [],
     cs_expires = mo_mono now + int (sw_expires w - mo_unix now) * NANOS, cs_label = sw_label w, cs_at = sw_at w\<rparr>"

text \<open>\<open>load_sessions\<close>: expired rows are deleted, the others fill the cache.\<close>

definition restore_sessions :: "moment \<Rightarrow> sql_auth \<Rightarrow> sql_auth" where
  "restore_sessions now s =
     (if \<not> mo_io now then s
      else
        let live = (\<lambda>t. case ad_sessions (sq_db s) t of
              Some w \<Rightarrow> if mo_unix now < sw_expires w then Some w else None | None \<Rightarrow> None)
        in s\<lparr>sq_db := (sq_db s)\<lparr>ad_sessions := live\<rparr>,
             sq_here := (sq_here s)\<lparr>ap_sessions := (\<lambda>t. case live t of
                 Some w \<Rightarrow> Some (cache_row now w) | None \<Rightarrow> ap_sessions (sq_here s) t)\<rparr>\<rparr>)"

definition cached_username :: "moment \<Rightarrow> string \<Rightarrow> sql_auth \<Rightarrow> string option \<times> sql_auth" where
  "cached_username now token s =
     (case ap_sessions (sq_here s) token of
        None \<Rightarrow> (None, s)
      | Some c \<Rightarrow>
          if cs_expires c \<le> mo_mono now then (None, put_cached token None s)
          else (Some (ur_username (cs_user c)), s))"

definition hydrate_session :: "moment \<Rightarrow> string \<Rightarrow> sql_auth \<Rightarrow> string option \<times> sql_auth" where
  "hydrate_session now token s =
     (if \<not> mo_io now then (None, s)
      else case ad_sessions (sq_db s) token of
        None \<Rightarrow> (None, s)
      | Some w \<Rightarrow>
          if mo_unix now < sw_expires w then (Some (sw_username w), put_cached token (Some (cache_row now w)) s)
          else (None, s))"

definition row_user :: "user_row \<Rightarrow> auth_user" where
  "row_user r = \<lparr>ur_username = uw_username r, ur_name = uw_name r, ur_email = uw_email r,
     ur_role = from_str_lenient (uw_role r), ur_projects = uw_projects r\<rparr>"

definition sql_user_for :: "moment \<Rightarrow> string \<Rightarrow> sql_auth \<Rightarrow> auth_user option \<times> sql_auth" where
  "sql_user_for now token s =
     (case cached_username now token s of (cached, s1) \<Rightarrow>
        case (case cached of Some u \<Rightarrow> (Some u, s1) | None \<Rightarrow> hydrate_session now token s1) of (name, s2) \<Rightarrow>
          (case name of
             None \<Rightarrow> (None, s2)
           | Some u \<Rightarrow>
               if \<not> mo_io now then (None, s2)
               else (map_option row_user (find (of_name u) (ad_users (sq_db s2))), s2)))"

definition sql_logout :: "moment \<Rightarrow> string \<Rightarrow> sql_auth \<Rightarrow> sql_auth" where
  "sql_logout now token s = forget_session now token (put_cached token None s)"

definition sql_attach_device :: "moment \<Rightarrow> string \<Rightarrow> string \<Rightarrow> sql_auth \<Rightarrow> sql_auth" where
  "sql_attach_device now token device s =
     (let s1 = put_cached token (map_option (\<lambda>c. c\<lparr>cs_label := device\<rparr>) (ap_sessions (sq_here s) token)) s
      in if mo_io now
         then put_session_row token (map_option (\<lambda>w. w\<lparr>sw_label := device\<rparr>) (ad_sessions (sq_db s1) token)) s1
         else s1)"

section \<open>API tokens\<close>

definition mint_token_row ::
  "crypto \<Rightarrow> moment \<Rightarrow> string \<Rightarrow> string \<Rightarrow> auth_role \<Rightarrow> string \<Rightarrow> sql_auth \<Rightarrow> string option \<times> sql_auth" where
  "mint_token_row cy now secret label r owner s =
     (if \<not> mo_io now \<or> (\<exists>t \<in> set (ad_tokens (sq_db s)). tw_label t = label) then (None, s)
      else (Some secret, s\<lparr>sq_db := (sq_db s)\<lparr>ad_tokens := ad_tokens (sq_db s) @ [\<lparr>tw_label = label,
        tw_role = role_as_str r, tw_hash = cy_sha cy secret, tw_created = mo_rfc now, tw_owner = owner\<rparr>]\<rparr>\<rparr>))"

text \<open>\<open>query_opt\<close> answers with an error when several rows match, and an error counts as no row.\<close>

definition sql_principal_for_bearer :: "crypto \<Rightarrow> moment \<Rightarrow> string \<Rightarrow> sql_auth \<Rightarrow> auth_user option" where
  "sql_principal_for_bearer cy now token s =
     (if \<not> mo_io now then None
      else case filter (\<lambda>t. tw_hash t = cy_sha cy token) (ad_tokens (sq_db s)) of
        [t] \<Rightarrow> Some (bare_user (''svc:'' @ tw_label t) (from_str_lenient (tw_role t))
                 (if tw_owner t = [] then [] else load_user_projects now (tw_owner t) s))
      | _ \<Rightarrow> None)"

definition sql_revoke_token :: "moment \<Rightarrow> string \<Rightarrow> sql_auth \<Rightarrow> bool \<times> sql_auth" where
  "sql_revoke_token now label s =
     (if \<not> mo_io now then (False, s)
      else (\<exists>t \<in> set (ad_tokens (sq_db s)). tw_label t = label,
            s\<lparr>sq_db := (sq_db s)\<lparr>ad_tokens := filter (\<lambda>t. tw_label t \<noteq> label) (ad_tokens (sq_db s))\<rparr>\<rparr>))"

definition personal_prefix :: "string \<Rightarrow> string" where
  "personal_prefix u = ''user:'' @ map ascii_lower u @ '':''"

definition auto_issue_personal_token :: "crypto \<Rightarrow> moment \<Rightarrow> string \<Rightarrow> string \<Rightarrow> sql_auth \<Rightarrow> string option \<times> sql_auth" where
  "auto_issue_personal_token cy now secret u s =
     (if \<not> mo_io now then (None, s)
      else
        let mine = (\<lambda>t. starts_with (tw_label t) (personal_prefix u)) in
        if \<exists>t \<in> set (ad_tokens (sq_db s)). mine t
        then (None, s\<lparr>sq_db := (sq_db s)\<lparr>ad_tokens :=
               map (\<lambda>t. if tw_owner t = [] \<and> mine t then t\<lparr>tw_owner := u\<rparr> else t) (ad_tokens (sq_db s))\<rparr>\<rparr>)
        else case find (of_name u) (ad_users (sq_db s)) of
          None \<Rightarrow> (None, s)
        | Some row \<Rightarrow>
            mint_token_row cy now secret (personal_prefix u @ ''remote-store'') (from_str_lenient (uw_role row)) u s)"

section \<open>Accounts\<close>

definition sql_create_user :: "crypto \<Rightarrow> moment \<Rightarrow> string \<Rightarrow> string \<Rightarrow> string \<Rightarrow> auth_role \<Rightarrow> sql_auth \<Rightarrow> bool \<times> sql_auth" where
  "sql_create_user cy now salt u password r s =
     (if trim u = [] \<or> password = [] then (False, s)
      else case cy_hash cy salt password of
        None \<Rightarrow> (False, s)
      | Some hash \<Rightarrow> if mo_io now then (True, insert_user_row u hash (role_as_str r) s) else (False, s))"

definition sql_update_user :: "moment \<Rightarrow> string \<Rightarrow> string \<Rightarrow> string \<Rightarrow> auth_role option \<Rightarrow> sql_auth \<Rightarrow> bool \<times> sql_auth" where
  "sql_update_user now u name email r s =
     (if \<not> mo_io now then (False, s)
      else map_prod (\<lambda>n. 0 < n) id (update_rows (of_name u) (\<lambda>x. x\<lparr>uw_name := trim name, uw_email := trim email,
             uw_role := (case r of Some y \<Rightarrow> role_as_str y | None \<Rightarrow> uw_role x)\<rparr>) s))"

definition sql_set_password :: "crypto \<Rightarrow> moment \<Rightarrow> string \<Rightarrow> string \<Rightarrow> string \<Rightarrow> sql_auth \<Rightarrow> bool \<times> sql_auth" where
  "sql_set_password cy now salt u password s =
     (if password = [] then (False, s)
      else case cy_hash cy salt password of
        None \<Rightarrow> (False, s)
      | Some hash \<Rightarrow>
          if \<not> mo_io now then (False, s)
          else map_prod (\<lambda>n. 0 < n) id (update_rows (of_name u) (\<lambda>x. x\<lparr>uw_hash := hash\<rparr>) s))"

definition admin_row :: "user_row \<Rightarrow> bool" where
  "admin_row r \<longleftrightarrow> uw_role r = ''admin'' \<or> uw_role r = ''super''"

text \<open>The questions of \<open>delete_user\<close> and its delete statement.\<close>

definition delete_allowed :: "string \<Rightarrow> sql_auth \<Rightarrow> bool" where
  "delete_allowed u s \<longleftrightarrow>
     \<not> (list_ex (\<lambda>r. of_name u r \<and> admin_row r) (ad_users (sq_db s))
        \<and> length (filter (\<lambda>r. admin_row r \<and> \<not> of_name u r) (ad_users (sq_db s))) = 0)"

definition delete_row :: "string \<Rightarrow> sql_auth \<Rightarrow> bool \<times> sql_auth" where
  "delete_row u s =
     (list_ex (of_name u) (ad_users (sq_db s)),
      s\<lparr>sq_db := (sq_db s)\<lparr>ad_users := filter (\<lambda>r. \<not> of_name u r) (ad_users (sq_db s))\<rparr>\<rparr>)"

definition sql_delete_user :: "moment \<Rightarrow> string \<Rightarrow> sql_auth \<Rightarrow> bool \<times> sql_auth" where
  "sql_delete_user now u s = (if mo_io now \<and> delete_allowed u s then delete_row u s else (False, s))"

definition sql_assign_project :: "moment \<Rightarrow> string \<Rightarrow> string \<Rightarrow> sql_auth \<Rightarrow> bool \<times> sql_auth" where
  "sql_assign_project now u pid s =
     (if \<not> mo_io now then (False, s)
      else let s1 = snd (update_rows (\<lambda>r. of_name u r \<and> pid \<notin> set (uw_projects r)) (\<lambda>x. x\<lparr>uw_projects := uw_projects x @ [pid]\<rparr>) s)
           in (list_ex (of_name u) (ad_users (sq_db s1)), s1))"

definition sql_unassign_project :: "moment \<Rightarrow> string \<Rightarrow> string \<Rightarrow> sql_auth \<Rightarrow> bool \<times> sql_auth" where
  "sql_unassign_project now u pid s =
     (if \<not> mo_io now then (False, s)
      else map_prod (\<lambda>n. 0 < n) id (update_rows (\<lambda>r. of_name u r \<and> pid \<in> set (uw_projects r))
             (\<lambda>x. x\<lparr>uw_projects := filter (\<lambda>p. p \<noteq> pid) (uw_projects x)\<rparr>) s))"

section \<open>Two factors\<close>

definition sql_enroll_2fa :: "moment \<Rightarrow> 8 word list \<Rightarrow> string \<Rightarrow> sql_auth \<Rightarrow> (string \<times> string) option \<times> sql_auth" where
  "sql_enroll_2fa now rnd u s =
     (if \<not> mo_io now \<or> \<not> list_ex (of_name u) (ad_users (sq_db s)) then (None, s)
      else let secret = generate_secret rnd in
        (Some (secret, provisioning_uri secret u ''CoXAgent''),
         s\<lparr>sq_here := (sq_here s)\<lparr>ap_pending_2fa := (ap_pending_2fa (sq_here s))(u \<mapsto> secret)\<rparr>\<rparr>))"

definition sql_enable_2fa :: "crypto \<Rightarrow> moment \<Rightarrow> string \<Rightarrow> string \<Rightarrow> sql_auth \<Rightarrow> bool \<times> sql_auth" where
  "sql_enable_2fa cy now u code s =
     (case ap_pending_2fa (sq_here s) u of
        None \<Rightarrow> (False, s)
      | Some secret \<Rightarrow>
          if \<not> verify (cy_hmac cy) secret code (mo_unix now) \<or> \<not> mo_io now then (False, s)
          else case update_rows (of_name u) (\<lambda>x. x\<lparr>uw_totp_secret := Some secret\<rparr>) s of (n, s1) \<Rightarrow>
            if 0 < n
            then (True, s1\<lparr>sq_here := (sq_here s1)\<lparr>ap_pending_2fa := (ap_pending_2fa (sq_here s1))(u := None)\<rparr>\<rparr>)
            else (False, s1))"

definition sql_disable_2fa :: "moment \<Rightarrow> string \<Rightarrow> sql_auth \<Rightarrow> bool \<times> sql_auth" where
  "sql_disable_2fa now u s =
     (if \<not> mo_io now then (False, s)
      else map_prod (\<lambda>n. 0 < n) id (update_rows (\<lambda>r. of_name u r \<and> uw_totp_secret r \<noteq> None)
             (\<lambda>x. x\<lparr>uw_totp_secret := None\<rparr>) s))"

fun sql_run :: "crypto \<Rightarrow> moment \<Rightarrow> account_call \<Rightarrow> sql_auth \<Rightarrow> account_answer \<times> sql_auth" where
  "sql_run cy now (CreateUser salt u pw r) s = map_prod Replied id (sql_create_user cy now salt u pw r s)"
| "sql_run cy now (UpdateUser u name email r) s = map_prod Replied id (sql_update_user now u name email r s)"
| "sql_run cy now (SetPassword salt u pw) s = map_prod Replied id (sql_set_password cy now salt u pw s)"
| "sql_run cy now (DeleteUser u) s = map_prod Replied id (sql_delete_user now u s)"
| "sql_run cy now (AssignProject u pid) s = map_prod Replied id (sql_assign_project now u pid s)"
| "sql_run cy now (UnassignProject u pid) s = map_prod Replied id (sql_unassign_project now u pid s)"
| "sql_run cy now (Enroll2fa rnd u) s = map_prod Enrolled id (sql_enroll_2fa now rnd u s)"
| "sql_run cy now (Enable2fa u code) s = map_prod Replied id (sql_enable_2fa cy now u code s)"
| "sql_run cy now (Disable2fa u) s = map_prod Replied id (sql_disable_2fa now u s)"
| "sql_run cy now (Login tok u pw totp) s = map_prod SignIn id (sql_login cy now tok u pw totp s)"

section \<open>The tables hold the book\<close>

definition row_account :: "user_row \<Rightarrow> account" where
  "row_account r = \<lparr>ac_hash = uw_hash r, ac_name = uw_name r, ac_email = uw_email r,
     ac_role = from_str_lenient (uw_role r), ac_totp_secret = uw_totp_secret r, ac_projects = uw_projects r\<rparr>"

definition rows_map :: "user_row list \<Rightarrow> string \<rightharpoonup> account" where
  "rows_map rs u = map_option row_account (find (of_name u) rs)"

text \<open>A counter that has moved on since the lock ran out no longer looks at it.\<close>

definition sql_lock_of :: "login_attempts option \<Rightarrow> lock_state" where
  "sql_lock_of a = (case a of None \<Rightarrow> Counting 0
     | Some x \<Rightarrow> (case la_locked_until x of Some t \<Rightarrow> if la_fails x = 0 then Locked t else Counting (la_fails x)
                 | None \<Rightarrow> Counting (la_fails x)))"

definition sql_book :: "sql_auth \<Rightarrow> account_book" where
  "sql_book s = \<lparr>bk_accounts = rows_map (ad_users (sq_db s)), bk_lock = (\<lambda>u. sql_lock_of (ap_attempts (sq_here s) u)),
     bk_pending = ap_pending_2fa (sq_here s)\<rparr>"

definition rows_ok :: "user_row list \<Rightarrow> bool" where
  "rows_ok rs \<longleftrightarrow> distinct (map uw_username rs) \<and> (\<forall>r \<in> set rs. \<exists>x. uw_role r = role_as_str x)"

definition sql_ok :: "int \<Rightarrow> sql_auth \<Rightarrow> bool" where
  "sql_ok t s \<longleftrightarrow> rows_ok (ad_users (sq_db s))
     \<and> (\<forall>u a. ap_attempts (sq_here s) u = Some a \<longrightarrow> la_fails a < MAX_FAILS
          \<and> (\<forall>l. la_locked_until a = Some l \<longrightarrow> 0 < la_fails a \<longrightarrow> l \<le> t))"

lemma sql_book_simps [simp]:
  "bk_accounts (sql_book s) = rows_map (ad_users (sq_db s))" "bk_pending (sql_book s) = ap_pending_2fa (sq_here s)"
  "bk_lock (sql_book s) u = sql_lock_of (ap_attempts (sq_here s) u)"
  by (simp_all add: sql_book_def)

lemma find_of_name: "find (of_name u) rs = Some x \<Longrightarrow> x \<in> set rs \<and> uw_username x = u"
  by (auto simp: find_Some_iff of_name_def)

lemma rows_map_skip: "u \<notin> uw_username ` set rs \<Longrightarrow> rows_map rs u = None"
  by (auto simp: rows_map_def find_None_iff of_name_def)

lemma find_of_name_member:
  "distinct (map uw_username rs) \<Longrightarrow> r \<in> set rs \<Longrightarrow> find (of_name (uw_username r)) rs = Some r"
  by (induction rs) (auto simp: of_name_def)

lemma update_rows_one:
  assumes d: "distinct (map uw_username rs)" and p: "\<And>r. p r \<Longrightarrow> of_name u r"
    and f: "\<And>r. uw_username (f r) = uw_username r"
  shows "rows_map (map (\<lambda>r. if p r then f r else r) rs) =
      (case find (of_name u) rs of Some x \<Rightarrow> if p x then (rows_map rs)(u \<mapsto> row_account (f x)) else rows_map rs | None \<Rightarrow> rows_map rs)"
    and "0 < length (filter p rs) \<longleftrightarrow> (\<exists>x. find (of_name u) rs = Some x \<and> p x)"
proof -
  have id: "map (\<lambda>r. if p r then f r else r) rs = rs" if "u \<notin> uw_username ` set rs" for rs
    using that p by (induction rs) (auto simp: of_name_def)
  show "rows_map (map (\<lambda>r. if p r then f r else r) rs) =
      (case find (of_name u) rs of Some x \<Rightarrow> if p x then (rows_map rs)(u \<mapsto> row_account (f x)) else rows_map rs | None \<Rightarrow> rows_map rs)"
    using d
  proof (induction rs)
    case (Cons r rs)
    have step: "rows_map (y # ys) = (rows_map ys)(uw_username y \<mapsto> row_account y)" for y ys
      by (auto simp: rows_map_def of_name_def fun_eq_iff)
    show ?case
    proof (cases "of_name u r")
      case True
      then have "u \<notin> uw_username ` set rs" using Cons.prems by (auto simp: of_name_def)
      then show ?thesis using True id f by (auto simp: step of_name_def)
    next
      case False
      then have "\<not> p r" using p by blast
      then show ?thesis
        using Cons False by (auto simp: step fun_upd_twist of_name_def split: option.split)
    qed
  qed (simp add: rows_map_def)
  show "0 < length (filter p rs) \<longleftrightarrow> (\<exists>x. find (of_name u) rs = Some x \<and> p x)"
  proof
    assume "0 < length (filter p rs)"
    then obtain r where r: "r \<in> set rs" "p r" by (auto simp: filter_empty_conv)
    then have "find (of_name u) rs = Some r" using find_of_name_member [OF d r(1)] p by (auto simp: of_name_def)
    then show "\<exists>x. find (of_name u) rs = Some x \<and> p x" using r(2) by blast
  next
    assume "\<exists>x. find (of_name u) rs = Some x \<and> p x"
    then show "0 < length (filter p rs)" using find_of_name by (fastforce simp: filter_empty_conv)
  qed
qed

lemma rows_map_append:
  "find (of_name (uw_username x)) rs = None \<Longrightarrow> rows_map (rs @ [x]) = (rows_map rs)(uw_username x \<mapsto> row_account x)"
proof
  fix v
  assume "find (of_name (uw_username x)) rs = None"
  then show "rows_map (rs @ [x]) v = ((rows_map rs)(uw_username x \<mapsto> row_account x)) v"
    by (induction rs) (auto simp: rows_map_def of_name_def split: if_splits)
qed

lemma rows_map_filter: "rows_map (filter (\<lambda>r. \<not> of_name u r) rs) = (rows_map rs)(u := None)"
proof
  fix v
  show "rows_map (filter (\<lambda>r. \<not> of_name u r) rs) v = ((rows_map rs)(u := None)) v"
    by (induction rs) (auto simp: rows_map_def of_name_def)
qed

lemma rows_ok_update:
  assumes "rows_ok rs" "\<And>r. uw_username (f r) = uw_username r" "\<And>r x. uw_role r = role_as_str x \<Longrightarrow> \<exists>y. uw_role (f r) = role_as_str y"
  shows "rows_ok (map (\<lambda>r. if p r then f r else r) rs)"
proof -
  have "map uw_username (map (\<lambda>r. if p r then f r else r) rs) = map uw_username rs" by (simp add: assms(2))
  then have "distinct (map uw_username (map (\<lambda>r. if p r then f r else r) rs))" using assms(1) by (simp only: rows_ok_def)
  then show ?thesis using assms(1,3) unfolding rows_ok_def by (auto simp del: map_map)
qed

lemma list_ex_of_name: "list_ex (of_name u) rs \<longleftrightarrow> find (of_name u) rs \<noteq> None"
  by (auto simp: find_None_iff list_ex_iff)

lemma admin_row_role:
  assumes "rows_ok rs" "r \<in> set rs" shows "admin_row r \<longleftrightarrow> is_admin_tier (from_str_lenient (uw_role r))"
proof -
  obtain x where x: "uw_role r = role_as_str x" using assms by (auto simp: rows_ok_def)
  then show ?thesis using role_words_read [of x] by (cases x) (auto simp: admin_row_def is_admin_tier_def)
qed

lemma rows_map_member:
  assumes "distinct (map uw_username rs)" "r \<in> set rs" shows "rows_map rs (uw_username r) = Some (row_account r)"
  using assms by (induction rs) (auto simp: rows_map_def of_name_def)

lemma rows_map_origin: "rows_map rs u = Some a \<Longrightarrow> \<exists>r \<in> set rs. uw_username r = u \<and> a = row_account r"
  by (auto simp: rows_map_def find_Some_iff of_name_def)

lemma delete_allowed_book:
  assumes ok: "rows_ok (ad_users (sq_db s))"
  shows "delete_allowed u s \<longleftrightarrow> \<not> ((\<exists>a. rows_map (ad_users (sq_db s)) u = Some a \<and> is_admin_tier (ac_role a)) \<and> \<not> other_admin u (sql_book s))"
proof -
  let ?rs = "ad_users (sq_db s)"
  have d: "distinct (map uw_username ?rs)" using ok by (simp add: rows_ok_def)
  have here: "list_ex (\<lambda>r. of_name u r \<and> admin_row r) ?rs \<longleftrightarrow> (\<exists>a. rows_map ?rs u = Some a \<and> is_admin_tier (ac_role a))"
    using rows_map_member [OF d] rows_map_origin [of ?rs u] admin_row_role [OF ok]
    by (auto simp: list_ex_iff of_name_def row_account_def) (metis account.select_convs(4))
  have other: "length (filter (\<lambda>r. admin_row r \<and> \<not> of_name u r) ?rs) = 0 \<longleftrightarrow> \<not> other_admin u (sql_book s)"
    using rows_map_member [OF d] rows_map_origin [of ?rs] admin_row_role [OF ok]
    by (auto simp: filter_empty_conv of_name_def other_admin_def row_account_def) (metis account.select_convs(4))+
  show ?thesis unfolding delete_allowed_def here other by blast
qed

section \<open>The database service keeps the book\<close>

lemma sql_ok_later: "sql_ok t s \<Longrightarrow> t \<le> t' \<Longrightarrow> sql_ok t' s"
  by (fastforce simp: sql_ok_def)

lemma sql_ok_rows: "sql_ok t s \<Longrightarrow> rows_ok (ad_users (sq_db s))"
  by (simp add: sql_ok_def)

lemma update_rows_book:
  assumes ok: "rows_ok (ad_users (sq_db s))" and p: "\<And>r. p r \<Longrightarrow> of_name u r"
    and f: "\<And>r. uw_username (f r) = uw_username r"
  shows "sql_book (snd (update_rows p f s)) = (sql_book s)\<lparr>bk_accounts :=
      (case find (of_name u) (ad_users (sq_db s)) of
         Some x \<Rightarrow> if p x then (bk_accounts (sql_book s))(u \<mapsto> row_account (f x)) else bk_accounts (sql_book s)
       | None \<Rightarrow> bk_accounts (sql_book s))\<rparr>"
    and "0 < fst (update_rows p f s) \<longleftrightarrow> (\<exists>x. find (of_name u) (ad_users (sq_db s)) = Some x \<and> p x)"
  using update_rows_one [OF _ p f, of "ad_users (sq_db s)"] ok
  by (auto simp: update_rows_def rows_ok_def split: option.split intro!: book_eqI)

lemma update_rows_ok:
  assumes "sql_ok t s" "\<And>r. uw_username (f r) = uw_username r" "\<And>r x. uw_role r = role_as_str x \<Longrightarrow> \<exists>y. uw_role (f r) = role_as_str y"
  shows "sql_ok t (snd (update_rows p f s))"
  using assms rows_ok_update [of "ad_users (sq_db s)" f p] by (simp add: sql_ok_def update_rows_def)

lemma book_account: "bk_accounts (sql_book s) u = map_option row_account (find (of_name u) (ad_users (sq_db s)))"
  by (simp add: rows_map_def)

lemma insert_user_row_book:
  assumes ok: "rows_ok (ad_users (sq_db s))"
  shows "sql_book (insert_user_row u h (role_as_str r) s) = (sql_book s)\<lparr>bk_accounts := (bk_accounts (sql_book s))(u \<mapsto>
      (case bk_accounts (sql_book s) u of
         Some a \<Rightarrow> a\<lparr>ac_hash := h, ac_role := r\<rparr>
       | None \<Rightarrow> \<lparr>ac_hash = h, ac_name = [], ac_email = [], ac_role = r, ac_totp_secret = None, ac_projects = []\<rparr>))\<rparr>"
proof (cases "find (of_name u) (ad_users (sq_db s))")
  case None
  then show ?thesis
    using rows_map_append [of "\<lparr>uw_username = u, uw_hash = h, uw_role = role_as_str r, uw_totp_secret = None, uw_projects = [], uw_name = [], uw_email = []\<rparr>" "ad_users (sq_db s)"]
    by (auto simp: insert_user_row_def list_ex_of_name rows_map_def [of _ u] row_account_def role_words_read intro!: book_eqI)
next
  case (Some x)
  then show ?thesis
    using update_rows_book(1) [OF ok, of "of_name u" u "\<lambda>x. x\<lparr>uw_hash := h, uw_role := role_as_str r\<rparr>"] find_of_name [OF Some]
    by (simp add: insert_user_row_def list_ex_of_name rows_map_def [of _ u] row_account_def role_words_read of_name_def)
qed

lemma insert_user_row_ok: "sql_ok t s \<Longrightarrow> sql_ok t (insert_user_row u h (role_as_str r) s)"
  using update_rows_ok [of t s "\<lambda>x. x\<lparr>uw_hash := h, uw_role := role_as_str r\<rparr>" "of_name u"]
  by (auto simp: insert_user_row_def sql_ok_def rows_ok_def list_ex_iff of_name_def)

text \<open>Signing in.\<close>

lemma sessions_keep_book [simp]:
  "sql_book (put_cached token c s) = sql_book s" "sql_book (put_session_row token w s) = sql_book s"
  "sql_ok t (put_cached token c s) = sql_ok t s" "sql_ok t (put_session_row token w s) = sql_ok t s"
  by (simp_all add: put_cached_def put_session_row_def sql_book_def sql_ok_def)

lemma open_session_keeps_book [simp]:
  "sql_book (open_session now token u r s) = sql_book s" "sql_ok t (open_session now token u r s) = sql_ok t s"
  by (simp_all add: open_session_def persist_session_def)

lemma set_attempts_book: "sql_book (set_attempts u a s) = (sql_book s)\<lparr>bk_lock := (bk_lock (sql_book s))(u := sql_lock_of a)\<rparr>"
  by (auto simp: set_attempts_def intro!: book_eqI)

lemma sql_locked_iff:
  assumes "sql_ok t s" "t \<le> mo_mono now"
  shows "sql_is_locked now u s \<longleftrightarrow> (\<exists>l. lock_at (mo_mono now) (bk_lock (sql_book s) u) = Locked l)"
proof (cases "ap_attempts (sq_here s) u")
  case (Some a)
  then have "\<forall>l. la_locked_until a = Some l \<longrightarrow> 0 < la_fails a \<longrightarrow> l \<le> mo_mono now"
    using assms by (fastforce simp: sql_ok_def)
  then show ?thesis using Some by (auto simp: sql_is_locked_def lock_at_def sql_lock_of_def split: option.splits)
qed (simp add: sql_is_locked_def sql_lock_of_def)

lemma sql_failure_book:
  assumes ok: "sql_ok t s" "t \<le> mo_mono now" and n: "lock_at (mo_mono now) (bk_lock (sql_book s) u) = Counting n"
  shows "sql_book (sql_record_failure now u s)
      = (sql_book s)\<lparr>bk_lock := (bk_lock (sql_book s))(u := lock_after_failure (mo_mono now) (Counting n))\<rparr>"
    and "sql_ok (mo_mono now) (sql_record_failure now u s)"
proof -
  define a where "a = (case ap_attempts (sq_here s) u of Some a \<Rightarrow> a | None \<Rightarrow> \<lparr>la_fails = 0, la_locked_until = None\<rparr>)"
  have fails: "la_fails a = n" and past: "\<And>l. la_locked_until a = Some l \<Longrightarrow> l \<le> mo_mono now"
    using n ok by (fastforce simp: a_def sql_lock_of_def lock_at_def sql_ok_def split: option.splits if_splits)+
  have step: "sql_record_failure now u s = set_attempts u (Some (if MAX_FAILS \<le> n + 1
      then \<lparr>la_fails = 0, la_locked_until = Some (mo_mono now + LOCKOUT)\<rparr> else a\<lparr>la_fails := n + 1\<rparr>)) s"
    by (simp add: sql_record_failure_def Let_def fails a_def [symmetric])
  show "sql_book (sql_record_failure now u s)
      = (sql_book s)\<lparr>bk_lock := (bk_lock (sql_book s))(u := lock_after_failure (mo_mono now) (Counting n))\<rparr>"
    by (auto simp: step set_attempts_book sql_lock_of_def lock_after_failure_def split: option.split)
  show "sql_ok (mo_mono now) (sql_record_failure now u s)"
    using sql_ok_later [OF ok] past
    by (auto simp: step set_attempts_def sql_ok_def MAX_FAILS_def split: if_splits)
qed

lemma sql_login_book:
  assumes ok: "sql_ok t s" "t \<le> mo_mono now" and io: "mo_io now"
  shows "fst (sql_login cy now tok u pw totp s) = fst (book_login cy now tok u pw totp (sql_book s))
    \<and> sql_book (snd (sql_login cy now tok u pw totp s)) = snd (book_login cy now tok u pw totp (sql_book s))
    \<and> sql_ok (mo_mono now) (snd (sql_login cy now tok u pw totp s))"
proof (cases "lock_at (mo_mono now) (bk_lock (sql_book s) u)")
  case (Locked l)
  then show ?thesis using sql_locked_iff [OF ok, of u] sql_ok_later [OF ok] by (simp add: sql_login_def book_login_def)
next
  case (Counting n)
  have "\<not> sql_is_locked now u s" using sql_locked_iff [OF ok, of u] Counting by simp
  moreover have "sql_ok (mo_mono now) (set_attempts u None s)" using sql_ok_later [OF ok] by (auto simp: set_attempts_def sql_ok_def)
  moreover have "sql_book (set_attempts u None s) = (sql_book s)\<lparr>bk_lock := (bk_lock (sql_book s))(u := Counting 0)\<rparr>"
    by (simp add: set_attempts_book sql_lock_of_def)
  ultimately show ?thesis
    using Counting io sql_failure_book [OF ok Counting] sql_ok_later [OF ok]
    by (auto simp: sql_login_def book_login_def Let_def rows_map_def row_account_def sql_clear_failures_def
        split: option.split)
qed

text \<open>The other calls.\<close>

lemma list_ex_update:
  "(\<And>r. uw_username (f r) = uw_username r) \<Longrightarrow> list_ex (of_name u) (map (\<lambda>r. if p r then f r else r) rs) = list_ex (of_name u) rs"
  by (induction rs) (auto simp: of_name_def)

lemma rows_edit_book:
  assumes ok: "rows_ok (ad_users (sq_db s))" and f: "\<And>r. uw_username (f r) = uw_username r"
    and g: "\<And>r. row_account (f r) = g (row_account r)"
  shows "0 < fst (update_rows (of_name u) f s) \<longleftrightarrow> fst (book_edit u g (sql_book s))"
    and "sql_book (snd (update_rows (of_name u) f s)) = snd (book_edit u g (sql_book s))"
  using update_rows_book [OF ok _ f, of "of_name u" u] find_of_name [of u "ad_users (sq_db s)"] g
  by (auto simp: book_edit_def rows_map_def [of _ u] of_name_def split: option.splits intro!: book_eqI)

lemma sql_edit_cases:
  assumes ok: "sql_ok t s" and io: "mo_io now" and c: "\<And>tok u pw totp. c \<noteq> Login tok u pw totp"
  shows "fst (sql_run cy now c s) = fst (book_run cy now c (sql_book s))
    \<and> sql_book (snd (sql_run cy now c s)) = snd (book_run cy now c (sql_book s))
    \<and> sql_ok t (snd (sql_run cy now c s))"
proof (cases c)
  case (CreateUser salt u pw r)
  then show ?thesis
    using ok io insert_user_row_book [OF sql_ok_rows [OF ok]] insert_user_row_ok [OF ok]
    by (auto simp: sql_create_user_def split: option.split)
next
  case (UpdateUser u name email r)
  let ?f = "\<lambda>x. x\<lparr>uw_name := trim name, uw_email := trim email, uw_role := (case r of Some y \<Rightarrow> role_as_str y | None \<Rightarrow> uw_role x)\<rparr>"
  have "sql_ok t (snd (update_rows (of_name u) ?f s))"
    by (rule update_rows_ok [OF ok]) (auto split: option.split)
  moreover have "row_account (?f x) = (\<lambda>a. a\<lparr>ac_name := trim name, ac_email := trim email,
       ac_role := (case r of Some x \<Rightarrow> x | None \<Rightarrow> ac_role a)\<rparr>) (row_account x)" for x
    by (simp add: row_account_def role_words_read split: option.split)
  ultimately show ?thesis
    using io rows_edit_book [OF sql_ok_rows [OF ok], of ?f _ u] by (simp add: UpdateUser sql_update_user_def)
next
  case (SetPassword salt u pw)
  have "sql_ok t (snd (update_rows (of_name u) (\<lambda>x. x\<lparr>uw_hash := h\<rparr>) s))" for h
    by (rule update_rows_ok [OF ok]) auto
  then show ?thesis
    using ok io rows_edit_book [OF sql_ok_rows [OF ok], of "\<lambda>x. x\<lparr>uw_hash := h\<rparr>" "\<lambda>a. a\<lparr>ac_hash := h\<rparr>" u for h]
    by (auto simp: SetPassword sql_set_password_def row_account_def split: option.split)
next
  case (DeleteUser u)
  have "sql_ok t (snd (delete_row u s))"
    using ok by (auto simp: delete_row_def sql_ok_def rows_ok_def intro: distinct_map_filter)
  then show ?thesis
    using ok io delete_allowed_book [OF sql_ok_rows [OF ok], of u] rows_map_filter [of u "ad_users (sq_db s)"]
    by (auto simp: DeleteUser sql_delete_user_def delete_row_def list_ex_of_name rows_map_def [of _ u] split: option.split intro!: book_eqI)
next
  case (AssignProject u pid)
  let ?p = "\<lambda>r. of_name u r \<and> pid \<notin> set (uw_projects r)" and ?f = "\<lambda>x. x\<lparr>uw_projects := uw_projects x @ [pid]\<rparr>"
  have ok': "sql_ok t (snd (update_rows ?p ?f s))"
    by (rule update_rows_ok [OF ok]) auto
  have names: "list_ex (of_name u) (ad_users (sq_db (snd (update_rows ?p ?f s)))) \<longleftrightarrow> list_ex (of_name u) (ad_users (sq_db s))"
    using list_ex_update [of ?f] by (simp add: update_rows_def)
  note up = update_rows_book [OF sql_ok_rows [OF ok], of ?p u ?f]
  show ?thesis
  proof (cases "find (of_name u) (ad_users (sq_db s))")
    case (Some x)
    then have x: "bk_accounts (sql_book s) u = Some (row_account x)" and nm: "of_name u x"
      using find_of_name [OF Some] by (simp_all add: rows_map_def of_name_def)
    then have "(rows_map (ad_users (sq_db s)))(u \<mapsto> row_account x) = rows_map (ad_users (sq_db s))"
      by (simp add: fun_upd_idem_iff)
    then show ?thesis
      using io ok' names up Some x nm
      by (auto simp: AssignProject sql_assign_project_def Let_def book_edit_def list_ex_of_name row_account_def intro!: book_eqI)
  next
    case None
    then show ?thesis
      using io ok' names up
      by (auto simp: AssignProject sql_assign_project_def Let_def book_edit_def list_ex_of_name rows_map_def [of _ u] intro!: book_eqI)
  qed
next
  case (UnassignProject u pid)
  let ?p = "\<lambda>r. of_name u r \<and> pid \<in> set (uw_projects r)" and ?f = "\<lambda>x. x\<lparr>uw_projects := filter (\<lambda>p. p \<noteq> pid) (uw_projects x)\<rparr>"
  have ok': "sql_ok t (snd (update_rows ?p ?f s))"
    by (rule update_rows_ok [OF ok]) auto
  note up = update_rows_book [OF sql_ok_rows [OF ok], of ?p u ?f]
  show ?thesis
  proof (cases "find (of_name u) (ad_users (sq_db s))")
    case (Some x)
    then have x: "rows_map (ad_users (sq_db s)) u = Some (row_account x)" and nm: "of_name u x"
      using find_of_name [OF Some] by (simp_all add: rows_map_def of_name_def)
    then have "(rows_map (ad_users (sq_db s)))(u \<mapsto> row_account x) = rows_map (ad_users (sq_db s))"
      by (simp add: fun_upd_idem_iff)
    moreover have "pid \<notin> set (uw_projects x) \<Longrightarrow> filter (\<lambda>p. p \<noteq> pid) (uw_projects x) = uw_projects x"
      by (auto intro: filter_True)
    ultimately show ?thesis
      using io ok' up Some x nm
      by (auto simp: UnassignProject sql_unassign_project_def row_account_def intro!: book_eqI)
  next
    case None
    then show ?thesis
      using io ok' up by (auto simp: UnassignProject sql_unassign_project_def rows_map_def [of _ u] intro!: book_eqI)
  qed
next
  case (Enroll2fa rnd u)
  then show ?thesis
    using ok io by (auto simp: sql_enroll_2fa_def list_ex_of_name rows_map_def [of _ u] sql_ok_def Let_def split: option.split intro!: book_eqI)
next
  case (Enable2fa u code)
  let ?f = "\<lambda>secret x. x\<lparr>uw_totp_secret := Some secret\<rparr>"
  have ok': "sql_ok t (snd (update_rows (of_name u) (?f secret) s))" for secret
    by (rule update_rows_ok [OF ok]) auto
  show ?thesis
  proof (cases "ap_pending_2fa (sq_here s) u")
    case (Some secret)
    have here: "sq_here (snd (update_rows (of_name u) (?f secret) s)) = sq_here s" by (simp add: update_rows_def)
    obtain n s1 where up: "update_rows (of_name u) (?f secret) s = (n, s1)" by (cases "update_rows (of_name u) (?f secret) s")
    note edit = update_rows_book [OF sql_ok_rows [OF ok], of "of_name u" u "?f secret"]
    show ?thesis
      using ok io ok' [of secret] here Some up edit(2) arg_cong [OF edit(1), of bk_accounts]
      by (cases "find (of_name u) (ad_users (sq_db s))")
        (auto simp: Enable2fa sql_enable_2fa_def rows_map_def [of _ u] row_account_def sql_ok_def
          dest: find_of_name simp: of_name_def intro!: book_eqI)
  qed (use ok in \<open>simp add: Enable2fa sql_enable_2fa_def\<close>)
next
  case (Disable2fa u)
  let ?p = "\<lambda>r. of_name u r \<and> uw_totp_secret r \<noteq> None" and ?f = "\<lambda>x. x\<lparr>uw_totp_secret := None\<rparr>"
  have ok': "sql_ok t (snd (update_rows ?p ?f s))"
    by (rule update_rows_ok [OF ok]) auto
  note up = update_rows_book [OF sql_ok_rows [OF ok], of ?p u ?f]
  show ?thesis
  proof (cases "find (of_name u) (ad_users (sq_db s))")
    case (Some x)
    then have x: "rows_map (ad_users (sq_db s)) u = Some (row_account x)" and nm: "of_name u x"
      using find_of_name [OF Some] by (simp_all add: rows_map_def of_name_def)
    then have "(rows_map (ad_users (sq_db s)))(u \<mapsto> row_account x) = rows_map (ad_users (sq_db s))"
      by (simp add: fun_upd_idem_iff)
    then show ?thesis
      using io ok' up Some x nm
      by (cases "uw_totp_secret x") (auto simp: Disable2fa sql_disable_2fa_def row_account_def intro!: book_eqI)
  next
    case None
    then show ?thesis
      using io ok' up by (auto simp: Disable2fa sql_disable_2fa_def rows_map_def [of _ u] intro!: book_eqI)
  qed
next
  case Login
  then show ?thesis using c by blast
qed

interpretation sql_accounts: account_service "sql_run cy" cy sql_book sql_ok
  for cy
proof
  fix t s and now :: moment and c
  assume ok: "sql_ok t s" and t: "t \<le> mo_mono now" and io: "mo_io now"
  have "fst (sql_run cy now c s) = fst (book_run cy now c (sql_book s))
    \<and> sql_book (snd (sql_run cy now c s)) = snd (book_run cy now c (sql_book s))
    \<and> sql_ok (mo_mono now) (snd (sql_run cy now c s))"
    using sql_edit_cases [OF sql_ok_later [OF ok t] io, of c cy] sql_login_book [OF ok t io]
    by (cases "\<exists>tok u pw totp. c = Login tok u pw totp") auto
  then show "sql_ok (mo_mono now) (snd (sql_run cy now c s))"
    "fst (sql_run cy now c s) = fst (book_run cy now c (sql_book s))"
    "same_book (mo_mono now) (sql_book (snd (sql_run cy now c s))) (snd (book_run cy now c (sql_book s)))"
    by simp_all
qed

end
