(* ===== verification/Access_Properties.thy ===== *)
theory Access_Properties
  imports Sql_Accounts
begin

text \<open>
  What the account services and the admission of requests guarantee together, and where they do not.
\<close>

section \<open>Comparing secrets\<close>

lemma or_fold_zero:
  "fold (\<lambda>(p, q) d. or d (xor p q)) ps (d :: 8 word) = 0 \<longleftrightarrow> d = 0 \<and> (\<forall>(p, q) \<in> set ps. p = q)"
proof (induction ps arbitrary: d)
  case (Cons x ps)
  obtain p q where x: "x = (p, q)" by (cases x)
  have "or d (xor p q) = 0 \<longleftrightarrow> d = 0 \<and> xor p q = 0" by (rule or_eq_0_iff)
  moreover have "xor p q = 0 \<longleftrightarrow> p = q"
  proof
    assume "xor p q = 0"
    moreover have "xor (xor p q) q = p" by (simp add: xor.assoc)
    ultimately show "p = q" by simp
  qed simp
  ultimately show ?case using Cons by (auto simp: x)
qed simp

lemma utf8_Cons: "utf8 (c # s) = (let n = (of_char c :: nat) in
    if n < 128 then [of_nat n] else [of_nat (192 + n div 64), of_nat (128 + n mod 64)]) @ utf8 s"
  by (simp add: utf8_def)

lemma utf8_inj: "utf8 a = utf8 b \<longleftrightarrow> a = b"
proof
  show "utf8 a = utf8 b \<Longrightarrow> a = b"
  proof (induction a arbitrary: b)
    case Nil
    then show ?case by (cases b) (auto simp: utf8_Cons Let_def utf8_def split: if_splits)
  next
    case (Cons c a)
    then obtain d b' where b: "b = d # b'" by (cases b) (auto simp: utf8_Cons Let_def utf8_def split: if_splits)
    define m n where "m = (of_char c :: nat)" and "n = (of_char d :: nat)"
    have lt: "m < 256" "n < 256" by (simp_all add: m_def n_def of_char_def)
    have small: "x = y" if "(of_nat x :: 8 word) = of_nat y" "x < 256" "y < 256" for x y :: nat
      using arg_cong [OF that(1), of unat] that(2,3) by (simp add: unat_of_nat)
    have q: "m div 64 < 4" "n div 64 < 4" using lt by auto
    have eq: "utf8 (c # a) = utf8 (d # b')" using Cons.prems b by simp
    have "m = n \<and> utf8 a = utf8 b'"
    proof (cases "m < 128"; cases "n < 128")
      assume "m < 128" "n < 128"
      then show ?thesis using eq small [of m n] lt q by (simp add: utf8_Cons Let_def m_def n_def)
    next
      assume "m < 128" "\<not> n < 128"
      then show ?thesis using eq small [of m "192 + n div 64"] lt q by (simp add: utf8_Cons Let_def m_def n_def)
    next
      assume "\<not> m < 128" "n < 128"
      then show ?thesis using eq small [of "192 + m div 64" n] lt q by (simp add: utf8_Cons Let_def m_def n_def)
    next
      assume big: "\<not> m < 128" "\<not> n < 128"
      have e: "(of_nat (192 + m div 64) :: 8 word) = of_nat (192 + n div 64)"
        "(of_nat (128 + m mod 64) :: 8 word) = of_nat (128 + n mod 64)" "utf8 a = utf8 b'"
        using eq big by (simp_all add: utf8_Cons Let_def m_def n_def)
      have "192 + m div 64 = 192 + n div 64" by (rule small [OF e(1)]) (use q in simp_all)
      moreover have "128 + m mod 64 = 128 + n mod 64"
        by (rule small [OF e(2)]) (use mod_less_divisor [of 64 m] mod_less_divisor [of 64 n] in linarith)+
      ultimately have "m div 64 = n div 64" "m mod 64 = n mod 64" by simp_all
      then show ?thesis using e(3) by (metis div_mult_mod_eq)
    qed
    then show ?case using Cons.IH b by (simp add: m_def n_def)
  qed
qed simp

text \<open>
  The comparison that always walks both strings to the end decides equality.
\<close>

theorem ct_eq_is_equality: "ct_eq a b \<longleftrightarrow> a = b"
proof -
  have "ct_eq a b \<longleftrightarrow> length (utf8 a) = length (utf8 b) \<and> (\<forall>(p, q) \<in> set (zip (utf8 a) (utf8 b)). p = q)"
    by (simp add: ct_eq_def Let_def or_fold_zero)
  also have "\<dots> \<longleftrightarrow> utf8 a = utf8 b"
    by (rule list_eq_iff_zip_eq [symmetric])
  finally show ?thesis by (simp add: utf8_inj)
qed

section \<open>Two services, one book\<close>


text \<open>A store with nothing in it.\<close>

definition no_file :: file_auth where
  "no_file = open_auth \<lparr>mo_unix = 0, mo_mono = 0, mo_rfc = [], mo_io = True\<rparr> ([], []) Map.empty"

definition no_sql :: sql_auth where
  "no_sql = \<lparr>sq_db = \<lparr>ad_users = [], ad_tokens = [], ad_sessions = Map.empty\<rparr>,
     sq_here = \<lparr>ap_sessions = Map.empty, ap_attempts = Map.empty, ap_pending_2fa = Map.empty\<rparr>\<rparr>"

text \<open>A password hash that keeps the salt and the password, for the examples.\<close>

definition plain_crypto :: crypto where
  "plain_crypto = \<lparr>cy_hash = (\<lambda>salt pw. Some (salt @ ''$'' @ pw)), cy_verify = (\<lambda>h pw. ends_with h (CHR ''$'' # pw)),
     cy_sha = (\<lambda>s. ''#'' @ s), cy_hmac = (\<lambda>_ _. [])\<rparr>"

definition at :: "nat \<Rightarrow> moment" where
  "at n = \<lparr>mo_unix = n, mo_mono = int n * 1000000000, mo_rfc = nat_str n, mo_io = True\<rparr>"

lemma no_file_ok [simp]: "file_ok no_file"
  by (simp add: no_file_def open_auth_def file_ok_def users_ok_def)

lemma no_sql_ok [simp]: "sql_ok t no_sql"
  by (simp add: no_sql_def sql_ok_def rows_ok_def)

lemma no_books [simp]: "sql_book no_sql = file_book no_file"
  by (auto simp: no_sql_def no_file_def open_auth_def rows_map_def users_map_def sql_lock_of_def lock_of_def intro!: book_eqI)


section \<open>Lockout\<close>

definition signs_in :: "string \<Rightarrow> account_call \<Rightarrow> bool" where
  "signs_in u c = (case c of Login _ v _ _ \<Rightarrow> v = u | _ \<Rightarrow> False)"

definition denials :: "string \<Rightarrow> (moment \<times> account_call) list \<Rightarrow> account_answer list \<Rightarrow> nat" where
  "denials u cs as = length (filter (\<lambda>((_, c), a). signs_in u c \<and> a = SignIn Denied) (zip cs as))"

definition no_success :: "string \<Rightarrow> (moment \<times> account_call) list \<Rightarrow> account_answer list \<Rightarrow> bool" where
  "no_success u cs as = list_all (\<lambda>((_, c), a). signs_in u c \<longrightarrow> a = SignIn Denied \<or> a = SignIn TotpRequired) (zip cs as)"

lemma lock_elsewhere: "\<not> signs_in u c \<Longrightarrow> bk_lock (snd (book_run cy now c b)) u = bk_lock b u"
  by (cases c) (auto simp: signs_in_def book_edit_def book_login_def Let_def split: option.splits lock_state.splits if_splits)

lemma lock_denied:
  assumes "signs_in u c" "fst (book_run cy now c b) = SignIn Denied"
  shows "bk_lock (snd (book_run cy now c b)) u = (case lock_at (mo_mono now) (bk_lock b u) of
      Locked l \<Rightarrow> bk_lock b u | Counting n \<Rightarrow> lock_after_failure (mo_mono now) (Counting n))"
  using assms
  by (cases c) (auto simp: signs_in_def book_login_def Let_def split: option.splits lock_state.splits if_splits)

lemma lock_totp:
  assumes "signs_in u c" "fst (book_run cy now c b) = SignIn TotpRequired"
  shows "bk_lock (snd (book_run cy now c b)) u = bk_lock b u"
  using assms
  by (cases c) (auto simp: signs_in_def book_login_def Let_def split: option.splits lock_state.splits if_splits)

definition guarded :: "int \<Rightarrow> nat \<Rightarrow> lock_state \<Rightarrow> bool" where
  "guarded w d l = (case l of Locked u \<Rightarrow> w \<le> u | Counting n \<Rightarrow> d \<le> n \<and> n < MAX_FAILS)"

lemma guarded_step:
  assumes "guarded w d (bk_lock b u)" "mo_mono now < w" "w \<le> mo_mono now + LOCKOUT"
    and "signs_in u c \<Longrightarrow> fst (book_run cy now c b) = SignIn Denied \<or> fst (book_run cy now c b) = SignIn TotpRequired"
  shows "guarded w (if signs_in u c \<and> fst (book_run cy now c b) = SignIn Denied then Suc d else d)
    (bk_lock (snd (book_run cy now c b)) u)"
proof (cases "signs_in u c \<and> fst (book_run cy now c b) = SignIn Denied")
  case True
  then show ?thesis
    using assms(1-3) lock_denied [of u c cy now b]
    by (cases "bk_lock b u") (auto simp: guarded_def lock_at_def lock_after_failure_def)
next
  case False
  then have "bk_lock (snd (book_run cy now c b)) u = bk_lock b u"
    using assms(4) lock_elsewhere [of u c] lock_totp [of u c] by (cases "signs_in u c") auto
  then show ?thesis using assms(1) False by auto
qed

lemma book_lockout:
  assumes "guarded w d (bk_lock b u)" "orderly t (cs @ [(now, Login tok u pw totp)])"
    and "\<forall>(m, _) \<in> set (cs @ [(now, Login tok u pw totp)]). mo_mono m < w" "w \<le> t + LOCKOUT"
    and "no_success u cs (replies (book_run cy) cs b)" "MAX_FAILS \<le> d + denials u cs (replies (book_run cy) cs b)"
  shows "last (replies (book_run cy) (cs @ [(now, Login tok u pw totp)]) b) = SignIn Denied"
  using assms
proof (induction cs arbitrary: b d t)
  case Nil
  then have "\<exists>l. bk_lock b u = Locked l \<and> mo_mono now < l"
    by (auto simp: guarded_def denials_def split: lock_state.splits)
  then show ?case by (auto simp: book_login_def lock_at_def)
next
  case (Cons x cs)
  obtain m c where x: "x = (m, c)" by (cases x)
  let ?r = "book_run cy m c b"
  have m: "t \<le> mo_mono m" "mo_mono m < w" "orderly (mo_mono m) (cs @ [(now, Login tok u pw totp)])"
    using Cons.prems(2,3) by (auto simp: orderly_def x)
  have g: "guarded w (if signs_in u c \<and> fst ?r = SignIn Denied then Suc d else d) (bk_lock (snd ?r) u)"
    using Cons.prems(1,4,5) m by (intro guarded_step) (auto simp: x no_success_def split_beta)
  have "last (replies (book_run cy) (cs @ [(now, Login tok u pw totp)]) (snd ?r)) = SignIn Denied"
    by (rule Cons.IH [OF g m(3)]) (use Cons.prems(3-6) m in \<open>auto simp: x no_success_def denials_def split_beta\<close>)
  moreover have "replies (book_run cy) (cs @ [(now, Login tok u pw totp)]) (snd ?r) \<noteq> []"
    by (cases cs) (auto simp: split_beta)
  ultimately show ?case by (simp add: x split_beta)
qed

text \<open>
  C31. Guessing is bounded: when an account that is not locked has been refused five times without a successful
  sign-in, every further attempt within fifteen minutes of the first call is refused, the right password and the
  right code included. The same holds on the database service.
\<close>

theorem lockout_holds:
  assumes "file_ok s" "lock_of (fa_attempts s u) = Counting n"
    and ord: "orderly t (cs @ [(now, Login tok u pw totp)])"
    and "\<forall>(m, _) \<in> set (cs @ [(now, Login tok u pw totp)]). mo_mono m < t + LOCKOUT"
    and "no_success u cs (replies (file_run cy) cs s)" "MAX_FAILS \<le> denials u cs (replies (file_run cy) cs s)"
    and "sql_ok t q" "same_book t (file_book s) (sql_book q)"
  shows "last (replies (file_run cy) (cs @ [(now, Login tok u pw totp)]) s) = SignIn Denied
    \<and> last (replies (sql_run cy) (cs @ [(now, Login tok u pw totp)]) q) = SignIn Denied"
proof -
  have "n < MAX_FAILS"
    using assms(1,2) by (auto simp: file_ok_def lock_of_def MAX_FAILS_def split: option.splits)
  then have "guarded (t + LOCKOUT) 0 (bk_lock (file_book s) u)" using assms(2) by (simp add: guarded_def)
  moreover have "orderly t cs" using ord by (auto simp: orderly_def sorted_append)
  note cs = file_accounts.replies_agree [OF assms(1) same_book_refl this, of cy]
  ultimately have "last (replies (book_run cy) (cs @ [(now, Login tok u pw totp)]) (file_book s)) = SignIn Denied"
    using assms(4-6) ord unfolding cs by (intro book_lockout [where t = t]) auto
  moreover have "same_book t (sql_book q) (file_book s)" using assms(8) by (simp add: same_book_def)
  ultimately show ?thesis
    using file_accounts.replies_agree [OF assms(1) same_book_refl ord, of cy]
      sql_accounts.replies_agree [OF assms(7) _ ord, of "file_book s" cy] by simp
qed

theorem lockout_holds_witness:
  "last (replies (file_run plain_crypto)
     ((at 1, CreateUser ''s'' ''ann'' ''pw'' RoleAdmin) # map (\<lambda>k. (at k, Login ''t'' ''ann'' ''no'' None)) [2, 3, 4, 5, 6]
      @ [(at 800, Login ''t'' ''ann'' ''pw'' None)]) no_file) = SignIn Denied"
proof -
  let ?cs = "(at 1, CreateUser ''s'' ''ann'' ''pw'' RoleAdmin) # map (\<lambda>k. (at k, Login ''t'' ''ann'' ''no'' None)) [2, 3, 4, 5, 6]"
  let ?x = "(at 800, Login ''t'' ''ann'' ''pw'' None)"
  have ord: "orderly 0 (?cs @ [?x])" "orderly 0 ?cs" by (simp_all add: orderly_def at_def)
  have "replies (book_run plain_crypto) ?cs (file_book no_file) = Replied True # replicate 5 (SignIn Denied)"
    by (simp add: no_file_def open_auth_def plain_crypto_def at_def book_login_def lock_at_def lock_of_def users_map_def
        lock_after_failure_def MAX_FAILS_def LOCKOUT_def ends_with_def trim_def is_white_def Let_def eval_nat_numeral)
  then have r: "replies (file_run plain_crypto) ?cs no_file = Replied True # replicate 5 (SignIn Denied)"
    using file_accounts.replies_agree [OF no_file_ok same_book_refl ord(2), of plain_crypto] by simp
  have "no_success ''ann'' ?cs (Replied True # replicate 5 (SignIn Denied))"
    "MAX_FAILS \<le> denials ''ann'' ?cs (Replied True # replicate 5 (SignIn Denied))"
    by (simp_all add: no_success_def denials_def signs_in_def MAX_FAILS_def eval_nat_numeral)
  moreover have "lock_of (fa_attempts no_file ''ann'') = Counting 0" by (simp add: no_file_def open_auth_def lock_of_def)
  moreover have "\<forall>(m, _) \<in> set (?cs @ [?x]). mo_mono m < 0 + LOCKOUT" by (simp add: at_def LOCKOUT_def)
  moreover have "same_book 0 (file_book no_file) (sql_book no_sql)" by simp
  ultimately show ?thesis
    using lockout_holds [OF no_file_ok _ ord(1) _ _ _ no_sql_ok, where cy = plain_crypto] r by auto
qed

section \<open>The last administrator\<close>

definition sets_role :: "account_call \<Rightarrow> bool" where
  "sets_role c = (case c of CreateUser _ _ _ _ \<Rightarrow> True | UpdateUser _ _ _ (Some _) \<Rightarrow> True | _ \<Rightarrow> False)"

definition has_admin :: "account_book \<Rightarrow> bool" where
  "has_admin b \<longleftrightarrow> (\<exists>v a. bk_accounts b v = Some a \<and> is_admin_tier (ac_role a))"

lemma has_adminI: "bk_accounts b v = Some a \<Longrightarrow> is_admin_tier (ac_role a) \<Longrightarrow> has_admin b"
  by (auto simp: has_admin_def)

lemma admin_step:
  assumes adm: "has_admin b" and c: "\<not> sets_role c"
  shows "has_admin (snd (book_run cy now c b))"
proof -
  obtain v a where v: "bk_accounts b v = Some a" "is_admin_tier (ac_role a)" using adm by (auto simp: has_admin_def)
  have keep: "has_admin b'" if "\<And>w x. bk_accounts b w = Some x \<Longrightarrow> \<exists>y. bk_accounts b' w = Some y \<and> ac_role y = ac_role x" for b'
    using that [OF v(1)] v(2) has_adminI [of b' v] by auto
  show ?thesis
  proof (cases c)
    case (DeleteUser u)
    show ?thesis
    proof (cases "bk_accounts b u")
      case (Some x)
      show ?thesis
      proof (cases "is_admin_tier (ac_role x) \<and> \<not> other_admin u b")
        case False
        then obtain w y where "w \<noteq> u" "bk_accounts b w = Some y" "is_admin_tier (ac_role y)"
          using Some v by (cases "v = u") (auto simp: other_admin_def)
        then show ?thesis using Some False by (auto simp: DeleteUser intro: has_adminI [of _ w y])
      qed (use Some adm in \<open>simp add: DeleteUser\<close>)
    qed (use adm in \<open>simp add: DeleteUser\<close>)
  next
    case (UpdateUser u name email r)
    then show ?thesis using c by (intro keep) (auto simp: sets_role_def book_edit_def split: option.splits)
  qed (use c in \<open>intro keep; auto simp: sets_role_def book_edit_def book_login_def Let_def split: option.splits lock_state.splits\<close>)+
qed

lemma admin_run: "has_admin b \<Longrightarrow> list_all (\<lambda>(_, c). \<not> sets_role c) cs \<Longrightarrow> has_admin (run_all (book_run cy) cs b)"
  by (induction cs arbitrary: b) (auto simp: admin_step)

lemma has_admin_file: "has_admin (file_book s) \<Longrightarrow> \<exists>x \<in> set (fa_users s). is_admin_tier (su_role x)"
  by (auto simp: has_admin_def account_of_def dest!: users_map_origin)

text \<open>
  C30. An administrator remains: no sequence of calls without an assignment of roles, deletions included, leaves the
  hub without an account of the administrator tier when it had one.
\<close>

theorem administrator_remains:
  assumes "file_ok s" "x \<in> set (fa_users s)" "is_admin_tier (su_role x)"
    and "orderly t cs" "list_all (\<lambda>(_, c). \<not> sets_role c) cs"
  shows "\<exists>y \<in> set (fa_users (run_all (file_run cy) cs s)). is_admin_tier (su_role y)"
proof -
  have "users_map (fa_users s) (su_username x) = Some (account_of x)"
    using assms(1,2) by (intro users_map_member) (simp_all add: file_ok_def)
  moreover have "is_admin_tier (ac_role (account_of x))" using assms(3) by (simp add: account_of_def)
  ultimately have "has_admin (file_book s)" by (intro has_adminI [of "file_book s" "su_username x" "account_of x"]) simp_all
  then have "has_admin (run_all (book_run cy) cs (file_book s))" using admin_run assms(5) by blast
  then have "has_admin (file_book (run_all (file_run cy) cs s))"
    using file_accounts.run_all_book [OF assms(1) same_book_refl assms(4), of cy] by (simp add: has_admin_def)
  then show ?thesis by (rule has_admin_file)
qed

definition two_users :: file_auth where
  "two_users = no_file\<lparr>fa_users := [new_user ''ann'' ''h'' RoleAdmin, new_user ''bob'' ''h'' RoleFe]\<rparr>"

theorem administrator_remains_witness:
  "\<exists>y \<in> set (fa_users (run_all (file_run plain_crypto) [(at 1, DeleteUser ''ann''), (at 2, DeleteUser ''bob'')] two_users)).
     is_admin_tier (su_role y)"
  using administrator_remains [of two_users "new_user ''ann'' ''h'' RoleAdmin" 0
      "[(at 1, DeleteUser ''ann''), (at 2, DeleteUser ''bob'')]" plain_crypto]
  by (simp add: two_users_def file_ok_def users_ok_def no_file_def open_auth_def new_user_def is_admin_tier_def
      orderly_def at_def sets_role_def del: run_all.simps)

text \<open>
  Two things the rule about the last administrator does not cover. An edit of the role takes it from the only
  administrator; and on the database service, where the questions and the delete are separate statements, two
  deletions that both ask before either deletes remove the two last administrators.
\<close>

theorem last_admin_lost:
  "snd (update_user now u name email (Some RoleViewer) (no_file\<lparr>fa_users := [new_user u h RoleAdmin]\<rparr>))
     = snd (persist now (no_file\<lparr>fa_users := [(new_user u h RoleViewer)\<lparr>su_name := trim name, su_email := trim email\<rparr>]\<rparr>))
   \<and> (rows_ok (ad_users (sq_db s)) \<and> (\<forall>r \<in> set (ad_users (sq_db s)). admin_row r \<longleftrightarrow> uw_username r \<in> {a, b}) \<and> a \<noteq> b
        \<and> a \<in> uw_username ` set (ad_users (sq_db s)) \<and> b \<in> uw_username ` set (ad_users (sq_db s))
      \<longrightarrow> delete_allowed a s \<and> delete_allowed b s
        \<and> \<not> list_ex admin_row (ad_users (sq_db (snd (delete_row b (snd (delete_row a s)))))))"
  by (auto simp: update_user_def edit_user_def named_def new_user_def delete_allowed_def delete_row_def list_ex_iff of_name_def
      filter_empty_conv)

theorem last_admin_lost_witness:
  "\<not> list_ex admin_row (ad_users (sq_db (snd (delete_row ''bob'' (snd (delete_row ''ann''
     (insert_user_row ''bob'' ''h'' ''super'' (insert_user_row ''ann'' ''h'' ''admin'' no_sql))))))))"
proof -
  define s where "s = insert_user_row ''bob'' ''h'' ''super'' (insert_user_row ''ann'' ''h'' ''admin'' no_sql)"
  have rows: "map uw_username (ad_users (sq_db s)) = [''ann'', ''bob'']" "map uw_role (ad_users (sq_db s)) = [''admin'', ''super'']"
    by (simp_all add: s_def insert_user_row_def no_sql_def of_name_def)
  then have "rows_ok (ad_users (sq_db s))"
    by (auto simp: rows_ok_def map_eq_Cons_conv) (metis role_as_str.simps(2), metis role_as_str.simps(1))
  moreover have "\<forall>r \<in> set (ad_users (sq_db s)). admin_row r \<longleftrightarrow> uw_username r \<in> {''ann'', ''bob''}"
    "''ann'' \<in> uw_username ` set (ad_users (sq_db s))" "''bob'' \<in> uw_username ` set (ad_users (sq_db s))"
    using rows by (auto simp: map_eq_Cons_conv admin_row_def)
  ultimately show ?thesis
    using last_admin_lost [of _ _ _ _ _ s "''ann''" "''bob''"] unfolding s_def by simp
qed

end
