(* ===== verification/Gate_Properties.thy ===== *)
theory Gate_Properties
  imports Access_Properties
begin

text \<open>
  The admission of requests on top of the account services: who is let through, what a deleted account can
  still do, how far a sign-out reaches and what survives a restart.
\<close>

section \<open>The gate\<close>

text \<open>
  The gate lets exactly these requests through, on a hub with accounts: the path is served by the process's role,
  and it is public, or the request names a principal who may manage when the path is a management surface, may write
  when it calls the tool endpoint, is an administrator or a member of the project the path names, and, when the
  request changes something and is not on the list of self-service paths, passes the write gate.
\<close>

theorem gate_exact:
  "fst (auth_mw hub (Some (fb, fs)) req status) = Forwarded status \<longleftrightarrow>
     hub_role_ok hub (hr_path req)
   \<and> (public_path (hr_path req)
      \<or> (\<exists>user. resolve_principal fb fs req = Some user
           \<and> (is_manage_surface (hr_method req) (hr_path req) \<longrightarrow> can_manage (ur_role user))
           \<and> (hr_path req = ''/api/mcp'' \<longrightarrow> can_write (ur_role user))
           \<and> (\<forall>pid. extract_pid_from_path (hr_path req) = Some pid
                \<longrightarrow> ur_role user \<in> {RoleSuper, RoleAdmin} \<or> pid \<in> set (ur_projects user))
           \<and> (is_write (hr_method req) (hr_path req) \<longrightarrow> write_gate_ok (ur_role user) (hr_path req))))"
  unfolding auth_mw_def Let_def admit_None [symmetric] by (auto split: option.split)

definition ticket_post :: http_request where
  "ticket_post = \<lparr>hr_method = MPost, hr_path = ''/api/projects/p/tickets'', hr_authorization = Some ''Bearer k'', hr_cookie = None\<rparr>"

definition dev_of :: "string \<Rightarrow> auth_user" where
  "dev_of pid = \<lparr>ur_username = ''dee'', ur_name = [], ur_email = [], ur_role = RoleFe, ur_projects = [pid]\<rparr>"

theorem gate_exact_witness:
  "fst (auth_mw HubAll (Some (\<lambda>t. if t = ''k'' then Some (dev_of ''p'') else None, \<lambda>_. None)) ticket_post 201) = Forwarded 201
 \<and> fst (auth_mw HubAll (Some (\<lambda>t. if t = ''k'' then Some (dev_of ''q'') else None, \<lambda>_. None)) ticket_post 201) \<noteq> Forwarded 201"
proof -
  let ?fb = "\<lambda>u t. if t = ''k'' then Some u else None :: auth_user option"
  have "bearer_token (hr_authorization ticket_post) = Some ''k''" by code_simp
  then have "resolve_principal (?fb (dev_of pid)) (\<lambda>_. None) ticket_post = Some (dev_of pid)" for pid
    by (simp add: resolve_principal_def)
  moreover have "hub_role_ok HubAll (hr_path ticket_post)" "\<not> public_path (hr_path ticket_post)"
    "\<not> is_manage_surface (hr_method ticket_post) (hr_path ticket_post)" "hr_path ticket_post \<noteq> ''/api/mcp''"
    "extract_pid_from_path (hr_path ticket_post) = Some ''p''"
    "is_write (hr_method ticket_post) (hr_path ticket_post)" "write_gate_ok RoleFe (hr_path ticket_post)"
    by code_simp+
  ultimately show ?thesis
    using gate_exact [of HubAll "?fb (dev_of ''p'')" "\<lambda>_. None" ticket_post 201]
      gate_exact [of HubAll "?fb (dev_of ''q'')" "\<lambda>_. None" ticket_post 201]
    by (simp add: dev_of_def)
qed

text \<open>A request to the store endpoint of a project, with a session cookie.\<close>

definition store_post :: "string \<Rightarrow> http_request" where
  "store_post pid = \<lparr>hr_method = MPost, hr_path = ''/api/projects/'' @ pid @ ''/store'',
     hr_authorization = None, hr_cookie = Some ''cox_session=t''\<rparr>"

lemma store_post_principal: "resolve_principal fb fs (store_post pid) = fs ''t''"
proof -
  have "cookie_value (Some ''cox_session=t'') SESSION_COOKIE = Some ''t''" by code_simp
  then show ?thesis by (simp add: resolve_principal_def store_post_def bearer_token_def)
qed




text \<open>
  What the two marks open: in a project called \<open>channels\<close> a viewer who is a member may replace the whole state
  through the store endpoint, in one called \<open>prs\<close> any developer who is a member, and a service called
  \<open>channels\<close> has its lifecycle open to viewers.
\<close>

definition viewer_of :: "string \<Rightarrow> auth_user" where
  "viewer_of pid = \<lparr>ur_username = ''vic'', ur_name = [], ur_email = [], ur_role = RoleViewer, ur_projects = [pid]\<rparr>"

theorem project_name_opens_store:
  "fst (auth_mw HubAll (Some (fb, \<lambda>_. Some (viewer_of ''channels''))) (store_post ''channels'') 200) = Forwarded 200
 \<and> fst (auth_mw HubAll (Some (fb, \<lambda>_. Some (dev_of ''prs''))) (store_post ''prs'') 200) = Forwarded 200
 \<and> fst (auth_mw HubAll (Some (fb, \<lambda>_. Some (viewer_of ''p'')))
      ((store_post ''p'')\<lparr>hr_path := ''/api/projects/p/services/channels/status''\<rparr>) 200) = Forwarded 200
 \<and> \<not> can_manage RoleViewer \<and> \<not> can_manage RoleFe"
proof -
  have who: "resolve_principal fb (\<lambda>_. Some u) (store_post pid) = Some u"
    "resolve_principal fb (\<lambda>_. Some u) ((store_post pid)\<lparr>hr_path := path\<rparr>) = Some u" for u pid path
    using store_post_principal [of fb "\<lambda>_. Some u" pid] by (auto simp: resolve_principal_def split: option.splits)
  have "admit (viewer_of ''channels'') MPost (hr_path (store_post ''channels'')) = None"
    "admit (dev_of ''prs'') MPost (hr_path (store_post ''prs'')) = None"
    "admit (viewer_of ''p'') MPost ''/api/projects/p/services/channels/status'' = None"
    "\<not> can_manage RoleViewer" "\<not> can_manage RoleFe"
    by code_simp+
  then show ?thesis by (simp add: auth_mw_def Let_def who) (simp add: store_post_def hub_role_ok_def)
qed

section \<open>Deleted accounts\<close>

text \<open>The gate of a hub on the file service, at one moment.\<close>

definition file_gate :: "crypto \<Rightarrow> moment \<Rightarrow> file_auth \<Rightarrow> hub_role \<Rightarrow> http_request \<Rightarrow> nat \<Rightarrow> mw_answer" where
  "file_gate cy now s hub req status =
     fst (auth_mw hub (Some (\<lambda>t. principal_for_bearer cy t s, \<lambda>t. fst (user_for now t s))) req status)"

text \<open>
  The request carries no credentials but \<open>u\<close>'s own: sessions of \<open>u\<close> and personal tokens of \<open>u\<close> below
  the administrator tier.
\<close>

definition token_named :: "crypto \<Rightarrow> string \<Rightarrow> file_auth \<Rightarrow> stored_token option" where
  "token_named cy token s = find (\<lambda>t. ct_eq (sk_hash t) (cy_sha cy token)) (fa_tokens s)"


lemma delete_user_effect:
  assumes "fst (delete_user now u s)"
  shows "fa_users (snd (delete_user now u s)) = filter (\<lambda>x. su_username x \<noteq> u) (fa_users s)
    \<and> fa_tokens (snd (delete_user now u s)) = fa_tokens s \<and> fa_sessions (snd (delete_user now u s)) = fa_sessions s"
  using assms by (auto simp: delete_user_def Let_def persist_def split: if_splits)



lemma principal_token: "principal_for_bearer cy token s = map_option (\<lambda>t. \<lparr>ur_username = ''svc:'' @ sk_label t,
    ur_name = [], ur_email = [], ur_role = sk_role t,
    ur_projects = (if sk_owner t = [] then [] else owner_projects (sk_owner t) s)\<rparr>) (token_named cy token s)"
  by (simp add: principal_for_bearer_def token_named_def split: option.split)




text \<open>
  A token of the administrator tier outlives its owner: after the account is deleted the token still opens every
  path of the hub, projects included.
\<close>

theorem admin_token_outlives_owner:
  assumes "fst (delete_user now u s)" "bearer_token (hr_authorization req) = Some token"
    and "token_named cy token s = Some t" "is_admin_tier (sk_role t)" "sk_owner t = u"
  shows "file_gate cy now' (snd (delete_user now u s)) HubAll req status = Forwarded status"
proof -
  let ?s = "snd (delete_user now u s)"
  have "token_named cy token ?s = Some t" using assms(3) by (simp add: token_named_def delete_user_effect [OF assms(1)])
  then obtain user where
    who: "resolve_principal (\<lambda>t. principal_for_bearer cy t ?s) (\<lambda>t. fst (user_for now' t ?s)) req = Some user"
    and admin: "is_admin_tier (ur_role user)"
    using assms(2,4) by (simp add: resolve_principal_def principal_token)
  then have "admit user m path = None" for m path
    by (auto simp: admit_None is_admin_tier_def can_manage_def can_write_def can_review_def write_gate_ok_def)
  then show ?thesis using who by (simp add: file_gate_def auth_mw_def hub_role_ok_def Let_def)
qed

definition left_behind :: file_auth where
  "left_behind = two_users\<lparr>fa_users := fa_users two_users @ [new_user ''cy'' ''h'' RoleAdmin],
     fa_tokens := [\<lparr>sk_label = ''l'', sk_role = RoleAdmin, sk_hash = cy_sha plain_crypto ''k'', sk_created = [], sk_owner = ''cy''\<rparr>]\<rparr>"

theorem admin_token_outlives_owner_witness:
  "file_gate plain_crypto (at 9) (snd (delete_user (at 2) ''cy'' left_behind)) HubAll ticket_post 201 = Forwarded 201"
proof -
  have "fst (delete_user (at 2) ''cy'' left_behind)"
    by (simp add: delete_user_def left_behind_def two_users_def no_file_def open_auth_def new_user_def named_def is_admin_tier_def
        persist_def at_def)
  moreover have "bearer_token (hr_authorization ticket_post) = Some ''k''" by code_simp
  moreover have "ct_eq (cy_sha plain_crypto ''k'') (cy_sha plain_crypto ''k'')" by code_simp
  then have "token_named plain_crypto ''k'' left_behind
    = Some \<lparr>sk_label = ''l'', sk_role = RoleAdmin, sk_hash = cy_sha plain_crypto ''k'', sk_created = [], sk_owner = ''cy''\<rparr>"
    by (simp add: token_named_def left_behind_def)
  ultimately show ?thesis
    using admin_token_outlives_owner [of "at 2" "''cy''" left_behind ticket_post "''k''" plain_crypto _ "at 9" 201]
    by (simp add: is_admin_tier_def)
qed

section \<open>Restarts and sign-outs\<close>












text \<open>
  How far a sign-out reaches on Postgres: the process that took it and every process that has not cached the session
  refuse the cookie from then on; a process that has cached it keeps answering with the account, as long as the
  account exists, until its own copy expires.
\<close>

theorem sql_logout_reach:
  assumes "mo_io now"
  shows "fst (sql_user_for later token (sql_logout now token s)) = None
    \<and> fst (sql_user_for later token \<lparr>sq_db = sq_db (sql_logout now token s), sq_here = peer\<rparr>) =
      (case ap_sessions peer token of
         None \<Rightarrow> None
       | Some c \<Rightarrow> if mo_mono later < cs_expires c \<and> mo_io later
           then map_option row_user (find (of_name (ur_username (cs_user c))) (ad_users (sq_db s))) else None)"
proof -
  have db: "sq_db (sql_logout now token s) = (sq_db s)\<lparr>ad_sessions := (ad_sessions (sq_db s))(token := None)\<rparr>"
    and here: "ap_sessions (sq_here (sql_logout now token s)) token = None"
    using assms by (simp_all add: sql_logout_def forget_session_def put_session_row_def put_cached_def)
  then show ?thesis
    by (auto simp: sql_user_for_def cached_username_def hydrate_session_def put_cached_def split: option.split)
qed

definition signed_in :: sql_auth where
  "signed_in = snd (sql_login plain_crypto (at 1) ''t'' ''ann'' ''pw'' None
     \<lparr>sq_db = \<lparr>ad_users = [\<lparr>uw_username = ''ann'', uw_hash = ''s$pw'', uw_role = ''admin'', uw_totp_secret = None,
        uw_projects = [], uw_name = [], uw_email = []\<rparr>], ad_tokens = [], ad_sessions = Map.empty\<rparr>,
      sq_here = \<lparr>ap_sessions = Map.empty, ap_attempts = Map.empty, ap_pending_2fa = Map.empty\<rparr>\<rparr>)"

text \<open>Two processes that both know the session: one signs it out, the other keeps answering.\<close>

theorem sql_logout_reach_witness:
  "fst (sql_user_for (at 3) ''t'' (sql_logout (at 2) ''t'' signed_in)) = None
 \<and> map_option ur_username (fst (sql_user_for (at 3) ''t''
      \<lparr>sq_db = sq_db (sql_logout (at 2) ''t'' signed_in), sq_here = sq_here signed_in\<rparr>)) = Some ''ann''"
proof -
  have io: "mo_io (at 2)" "mo_io (at 3)" by (simp_all add: at_def)
  have "ends_with ''s$pw'' ''$pw''" by code_simp
  moreover have "mo_mono (at 3) < mo_mono (at 1) + int SESSION_TTL * NANOS" by (simp add: at_def SESSION_TTL_def NANOS_def)
  ultimately obtain c r where c: "ap_sessions (sq_here signed_in) ''t'' = Some c" "mo_mono (at 3) < cs_expires c"
    "ur_username (cs_user c) = ''ann''"
    and r: "find (of_name ''ann'') (ad_users (sq_db signed_in)) = Some r" "uw_username r = ''ann''"
    by (simp add: signed_in_def sql_login_def sql_is_locked_def of_name_def plain_crypto_def open_session_def put_cached_def
        persist_session_def put_session_row_def sql_clear_failures_def set_attempts_def bare_user_def at_def)
  show ?thesis
    using sql_logout_reach [OF io(1), of "at 3" "''t''" signed_in "sq_here signed_in"]
    by (simp only: c r io option.case option.map if_True conj_absorb simp_thms) (simp add: row_user_def r)
qed

end
