(* ===== verification/Runner.thy ===== *)
theory Runner
  imports Project_State
begin

text \<open>
  The controllable cycle loop of \<open>application/src/use_cases/runner.rs\<close>: the handle the dashboard drives
  (resume, pause, step, stop), the loop \<open>run_forever\<close> with its gate, its circuit breaker and its notices, and the
  classification of errors (\<open>application/src/faults.rs\<close>). Calls on the handle come from other threads: a call is
  the list of its accesses to shared memory, and the loop has one program counter per such access. What a
  cycle reports (\<open>use_cases/cycle/mod.rs\<close>) comes from outside, like the answers of the store, the clock and
  the message ids.
\<close>

section \<open>Faults\<close>

definition AUTH_WORDS :: "string list" where
  "AUTH_WORDS = [''oauth'', ''authenticate'', ''401'', ''unauthorized'', ''revoked'', ''invalid api key'', ''api key not'']"

definition is_auth_death :: "string \<Rightarrow> bool" where
  "is_auth_death why = list_ex (contains_str (to_lowercase why)) AUTH_WORDS"

definition INFRA_WORDS :: "string list" where
  "INFRA_WORDS =
     [''401'', ''authenticate'', ''revoked'', ''unauthorized'',
      ''quota'', ''spend limit'', ''usage limit'', ''spending cap'', ''rate limit'', ''overloaded'', ''529'',
      ''connection refused'', ''connection reset'', ''connection closed'', ''econnrefused'', ''econnreset'',
      ''etimedout'', ''enotfound'', ''dns'', ''network is unreachable'', ''network error'', ''fetch failed'',
      ''socket hang up'', ''no route to host'', ''temporary failure in name resolution'',
      ''sandbox_apply'', ''timed out'', ''unknownerror'', ''unavailable'']"

definition is_infra_fault :: "string \<Rightarrow> bool" where
  "is_infra_fault why \<longleftrightarrow> trim why = [] \<or> list_ex (contains_str (to_lowercase why)) INFRA_WORDS"

section \<open>The handle\<close>

datatype run_mode = ModePaused | ModeRunning | ModeStopped

record runner_snapshot =
  sn_mode :: string
  sn_cycle :: nat
  sn_last_summary :: string
  sn_active_role :: "string option"
  sn_active_note :: "string option"
  sn_operator :: "string option"
  sn_host :: "string option"

record runner_handle =
  rh_mode :: run_mode
  rh_step :: bool
  rh_status :: runner_snapshot

definition handle_new :: runner_handle where
  "handle_new = \<lparr>rh_mode = ModePaused, rh_step = False,
     rh_status = \<lparr>sn_mode = ''paused'', sn_cycle = 0, sn_last_summary = ''idle'', sn_active_role = None,
       sn_active_note = None, sn_operator = None, sn_host = None\<rparr>\<rparr>"

definition on_status :: "(runner_snapshot \<Rightarrow> runner_snapshot) \<Rightarrow> runner_handle \<Rightarrow> runner_handle" where
  "on_status f h = h\<lparr>rh_status := f (rh_status h)\<rparr>"

definition set_mode_label :: "string \<Rightarrow> runner_handle \<Rightarrow> runner_handle" where
  "set_mode_label l = on_status (\<lambda>s. s\<lparr>sn_mode := l\<rparr>)"

definition handle_update :: "nat \<Rightarrow> string \<Rightarrow> runner_handle \<Rightarrow> runner_handle" where
  "handle_update n summary = on_status (\<lambda>s. s\<lparr>sn_cycle := n, sn_last_summary := summary\<rparr>)"

definition set_active :: "string \<Rightarrow> string \<Rightarrow> runner_handle \<Rightarrow> runner_handle" where
  "set_active r n = on_status (\<lambda>s. s\<lparr>sn_active_role := Some r, sn_active_note := (if n = [] then None else Some n)\<rparr>)"

definition clear_active :: "runner_handle \<Rightarrow> runner_handle" where
  "clear_active = on_status (\<lambda>s. s\<lparr>sn_active_role := None, sn_active_note := None\<rparr>)"

definition set_operator :: "string \<Rightarrow> string \<Rightarrow> runner_handle \<Rightarrow> runner_handle" where
  "set_operator a h' = on_status (\<lambda>s. s\<lparr>sn_operator := (if a = [] then None else Some a),
     sn_host := (if h' = [] then None else Some h')\<rparr>)"

definition runner_worker_id :: "runner_handle \<Rightarrow> string" where
  "runner_worker_id h =
     (case (sn_operator (rh_status h), sn_host (rh_status h)) of
        (Some a, Some m) \<Rightarrow> a @ ''@'' @ m
      | (Some a, None) \<Rightarrow> a
      | (None, Some m) \<Rightarrow> m
      | (None, None) \<Rightarrow> ''local'')"

definition is_paused :: "runner_handle \<Rightarrow> bool" where
  "is_paused h \<longleftrightarrow> rh_mode h = ModePaused"

text \<open>The accesses a call makes, in program order.\<close>

datatype handle_op = StoreMode run_mode | SetLabel string | StoreStep | ClearActive | SetOperator string string | NotifyWaiters

definition resume_ops :: "handle_op list" where
  "resume_ops = [StoreMode ModeRunning, SetLabel ''running'', NotifyWaiters]"

definition pause_ops :: "handle_op list" where
  "pause_ops = [StoreMode ModePaused, SetLabel ''paused'', ClearActive]"

definition step_ops :: "handle_op list" where
  "step_ops = [StoreStep, NotifyWaiters]"

definition stop_ops :: "handle_op list" where
  "stop_ops = [StoreMode ModeStopped, SetLabel ''stopped'', NotifyWaiters]"

fun op_apply :: "handle_op \<Rightarrow> runner_handle \<Rightarrow> runner_handle" where
  "op_apply (StoreMode m) h = h\<lparr>rh_mode := m\<rparr>"
| "op_apply (SetLabel l) h = set_mode_label l h"
| "op_apply StoreStep h = h\<lparr>rh_step := True\<rparr>"
| "op_apply ClearActive h = clear_active h"
| "op_apply (SetOperator a m) h = set_operator a m h"
| "op_apply NotifyWaiters h = h"

definition cycle_may_run :: "bool \<Rightarrow> bool option \<Rightarrow> bool \<Rightarrow> bool" where
  "cycle_may_run workspace_running desired wait_for_start \<longleftrightarrow>
     workspace_running \<and> (case desired of Some d \<Rightarrow> d | None \<Rightarrow> \<not> wait_for_start)"

section \<open>What a cycle reports\<close>

record cycle_report =
  cr_cycle :: nat
  cr_ba_created :: "ticket_id list"
  cr_sa_readied :: "ticket_id option"
  cr_design_system_created :: bool
  cr_pd_designed :: "ticket_id option"
  cr_bug_fixed :: "ticket_id option"
  cr_feature_done :: "ticket_id option"
  cr_documented :: "ticket_id option"
  cr_bugs_filed :: "ticket_id list"
  cr_errors :: "string list"
  cr_over_budget :: bool

definition did_work :: "cycle_report \<Rightarrow> bool" where
  "did_work r \<longleftrightarrow> cr_ba_created r \<noteq> [] \<or> cr_sa_readied r \<noteq> None \<or> cr_design_system_created r
     \<or> cr_pd_designed r \<noteq> None \<or> cr_bug_fixed r \<noteq> None \<or> cr_feature_done r \<noteq> None
     \<or> cr_documented r \<noteq> None \<or> cr_bugs_filed r \<noteq> []"

definition mention :: "string \<Rightarrow> ticket_id option \<Rightarrow> string" where
  "mention word t = (case t of None \<Rightarrow> [] | Some i \<Rightarrow> '' '' @ word @ '' '' @ ticket_id_str i)"

definition report_summary :: "cycle_report \<Rightarrow> string" where
  "report_summary r = ''cycle '' @ nat_str (cr_cycle r) @ '' -'' @ '' BA+'' @ nat_str (length (cr_ba_created r))
     @ mention ''design'' (cr_sa_readied r) @ mention ''ux'' (cr_pd_designed r) @ mention ''fixed'' (cr_bug_fixed r)
     @ mention ''done'' (cr_feature_done r) @ mention ''docs'' (cr_documented r)
     @ '' bugs+'' @ nat_str (length (cr_bugs_filed r))
     @ (if cr_errors r = [] then [] else '' ('' @ nat_str (length (cr_errors r)) @ '' errors)'')"

definition progressed :: "cycle_report \<Rightarrow> bool" where
  "progressed r \<longleftrightarrow> cr_ba_created r \<noteq> [] \<or> cr_sa_readied r \<noteq> None \<or> cr_feature_done r \<noteq> None
     \<or> cr_bug_fixed r \<noteq> None \<or> cr_documented r \<noteq> None"

definition infra_faults :: "cycle_report \<Rightarrow> string list" where
  "infra_faults r = filter is_infra_fault (cr_errors r)"

definition engine_alive :: "cycle_report \<Rightarrow> bool" where
  "engine_alive r \<longleftrightarrow> progressed r \<or> (infra_faults r = [] \<and> cr_errors r \<noteq> [])"

section \<open>The cycle_state of a cycle\<close>

text \<open>
  Beside the report: the engine, whether the store answers, the clock and the ids of up to four messages.
\<close>

record cycle_env =
  ce_engine :: string
  ce_store_ok :: bool
  ce_now :: string
  ce_mid :: "nat \<Rightarrow> string"

type_synonym notice = "string \<times> string"

definition tell :: "string \<Rightarrow> string \<Rightarrow> string \<Rightarrow> string \<Rightarrow> project_state \<Rightarrow> project_state" where
  "tell mid now user msg s = s\<lparr>st_social := post_chat_in mid now user msg AGENTS_CHANNEL [] (st_social s)\<rparr>"

definition has_incident :: "string \<Rightarrow> project_state \<Rightarrow> bool" where
  "has_incident engine s \<longleftrightarrow> list_ex (\<lambda>i. ei_engine i = engine) (st_engine_incidents s)"

definition loud :: "cycle_report \<Rightarrow> string \<Rightarrow> bool" where
  "loud r detail \<longleftrightarrow> 2 \<le> length (infra_faults r) \<or> is_auth_death detail"

text \<open>The webhook notices of an outage and its end.\<close>

definition incident_notices :: "cycle_env \<Rightarrow> cycle_report \<Rightarrow> project_state \<Rightarrow> notice list" where
  "incident_notices env r s =
     (let was_open = ce_store_ok env \<and> has_incident (ce_engine env) s in
      case infra_faults r of
        detail # _ \<Rightarrow>
          if \<not> was_open \<and> loud r detail
          then [(''engine_incident'', ce_engine env @ '' failed '' @ nat_str (length (infra_faults r))
                  @ '' run(s) this cycle: '' @ detail
                  @ (if is_auth_death detail
                     then '' - credentials are dead; re-login the engine CLI (e.g. `claude login`) and the loop resumes''
                     else []))]
          else []
      | [] \<Rightarrow>
          if was_open \<and> engine_alive r
          then [(''engine_recovered'', ce_engine env @ '' is answering again - work resumes'')] else [])"

text \<open>The write of the incident ledger, with its announcements in the chat.\<close>

definition incident_write :: "cycle_env \<Rightarrow> cycle_report \<Rightarrow> project_state \<Rightarrow> project_state" where
  "incident_write env r s =
     (case infra_faults r of
        detail # _ \<Rightarrow>
          let already = has_incident (ce_engine env) s;
              s1 = open_engine_incident (ce_now env) (ce_engine env) ''CYCLE'' detail s
          in if \<not> already \<and> loud r detail
             then tell (ce_mid env 0) (ce_now env) ''SYSTEM''
                    (ce_engine env @ '' failed '' @ nat_str (length (infra_faults r)) @ '' run(s) this cycle: '' @ detail
                     @ ''. If it keeps up, the loop pauses itself - fix the credentials or the model and this clears.'') s1
             else s1
      | [] \<Rightarrow>
          if engine_alive r
          then (case close_engine_incident (ce_engine env) s of
                  (Some inc, s1) \<Rightarrow> tell (ce_mid env 1) (ce_now env) ''SYSTEM''
                     (ce_engine env @ '' is answering again after '' @ nat_str (ei_hits inc)
                      @ '' failed run(s) - resolved, work resumes.'') s1
                | (None, s1) \<Rightarrow> s1)
          else s)"

text \<open>\<open>String::truncate\<close>: no value when it panics, that is when the cut is inside a character.\<close>

definition truncate_bytes :: "nat \<Rightarrow> string \<Rightarrow> string option" where
  "truncate_bytes n s = (if byte_len s \<le> n then Some s else take_bytes n s)"

text \<open>
  The chat line of the task-shaped errors. Its first sign, a warning sign with a variation selector, takes six bytes
  and is left out of the text; the errors are joined by a blank, a middle dot and a blank.
\<close>

definition MIDDLE_DOT :: char where "MIDDLE_DOT = char_of (183 :: nat)"

definition logic_errors :: "cycle_report \<Rightarrow> string" where
  "logic_errors r = join [CHR '' '', MIDDLE_DOT, CHR '' ''] (filter (\<lambda>e. \<not> is_infra_fault e) (cr_errors r))"

definition logic_line :: "string \<Rightarrow> string option" where
  "logic_line joined = truncate_bytes (600 - 6) ('' cycle errors: '' @ joined)"

record loop_locals =
  ll_cycle :: nat
  ll_streak :: nat
  ll_last_logic :: string

datatype after_cycle = AfterPanic | AfterBudget | AfterBackoff | AfterCycle

record cycle_state =
  bd_locals :: loop_locals
  bd_store :: project_state
  bd_notices :: "notice list"

definition next_streak :: "cycle_report \<Rightarrow> nat \<Rightarrow> nat" where
  "next_streak r n =
     (if \<not> progressed r \<and> 1 \<le> length (infra_faults r) then n + 1
      else if progressed r \<or> (infra_faults r = [] \<and> cr_errors r \<noteq> []) then 0
      else n)"

definition post_logic :: "cycle_env \<Rightarrow> cycle_report \<Rightarrow> cycle_state \<Rightarrow> cycle_state option" where
  "post_logic env r b =
     (let joined = logic_errors r; l = bd_locals b in
      if joined \<noteq> [] \<and> joined \<noteq> ll_last_logic l
      then map_option (\<lambda>msg. b\<lparr>bd_locals := l\<lparr>ll_last_logic := joined\<rparr>,
             bd_store := (if ce_store_ok env then tell (ce_mid env 2) (ce_now env) ''SYSTEM'' msg (bd_store b) else bd_store b)\<rparr>)
             (logic_line joined)
      else if joined = [] then Some (b\<lparr>bd_locals := l\<lparr>ll_last_logic := []\<rparr>\<rparr>)
      else Some b)"

definition DOWN_MESSAGE :: string where
  "DOWN_MESSAGE = ''Engine infrastructure looks DOWN (auth/network) - loop paused after 3 empty cycles. Fix the outage, then Resume.''"

definition breaker :: "cycle_env \<Rightarrow> cycle_report \<Rightarrow> cycle_state \<Rightarrow> after_cycle \<times> cycle_state" where
  "breaker env r b =
     (let l = bd_locals b; n = next_streak r (ll_streak l) in
      if 3 \<le> n
      then (AfterBackoff,
            b\<lparr>bd_locals := l\<lparr>ll_streak := 0\<rparr>,
              bd_store := (if ce_store_ok env
                then tell (ce_mid env 3) (ce_now env) ''SM'' DOWN_MESSAGE
                       ((bd_store b)\<lparr>st_social := post_comment (ce_mid env 4) (ce_now env) ''SM'' DOWN_MESSAGE None (st_social (bd_store b))\<rparr>)
                else bd_store b),
              bd_notices := bd_notices b @ [(''loop_paused'',
                ''loop paused: engine infrastructure looks DOWN (auth/network) after 3 empty cycles - retrying with a canary every 10 minutes'')]\<rparr>)
      else (AfterCycle, b\<lparr>bd_locals := l\<lparr>ll_streak := n\<rparr>\<rparr>))"

text \<open>Everything between the end of a cycle and the wait for the next one.\<close>

definition settle_cycle :: "cycle_env \<Rightarrow> cycle_report \<Rightarrow> cycle_state \<Rightarrow> after_cycle \<times> cycle_state" where
  "settle_cycle env r b =
     (if cr_over_budget r
      then (AfterBudget, b\<lparr>bd_notices := bd_notices b @ [(''loop_paused'', ''loop paused: spend cap reached'')]\<rparr>)
      else
        let b1 = b\<lparr>bd_notices := bd_notices b @ incident_notices env r (bd_store b),
                   bd_store := (if ce_store_ok env then incident_write env r (bd_store b) else bd_store b)\<rparr>
        in case post_logic env r b1 of None \<Rightarrow> (AfterPanic, b1) | Some b2 \<Rightarrow> breaker env r b2)"

section \<open>The loop\<close>

text \<open>
  Where the loop is: at the load of the mode, at the swap of the step flag, before the future that waits for a
  notification exists, waiting on it; at the master switch, at the begin of a cycle and inside it; in a call of its
  own to \<open>pause\<close>; in one of the two sleeps a notification cuts short; returned, or dead by a panic.
\<close>

datatype loop_pc =
    AtGate | AtSwap | AtArm | Waiting | AtMaster | AtBegin bool | InCycle bool | Pausing "handle_op list"
  | Sleeping | Backoff | Returned | Panicked

record runner_sys =
  ry_handle :: runner_handle
  ry_notified :: bool
  ry_pc :: loop_pc
  ry_at :: cycle_state
  ry_worker :: string
  ry_engine_by_role :: "string \<rightharpoonup> string"
  ry_operator_by_role :: "string \<rightharpoonup> string"
  ry_calls :: "handle_op list list"

text \<open>What the outside answers when the loop asks.\<close>

record loop_input =
  li_workspace :: "bool option"
  li_reload :: bool
  li_env :: cycle_env
  li_report :: cycle_report

definition do_op :: "handle_op \<Rightarrow> runner_sys \<Rightarrow> runner_sys" where
  "do_op a y = y\<lparr>ry_handle := op_apply a (ry_handle y),
     ry_notified := (ry_notified y \<or> (a = NotifyWaiters \<and> ry_pc y \<in> {Waiting, Sleeping, Backoff}))\<rparr>"

definition begin_cycle :: "loop_input \<Rightarrow> bool \<Rightarrow> runner_sys \<Rightarrow> runner_sys" where
  "begin_cycle i stepping y =
     (let n = ll_cycle (bd_locals (ry_at y)) + 1;
          forget = li_reload i \<and> ce_store_ok (li_env i)
      in y\<lparr>ry_pc := InCycle stepping,
           ry_at := (ry_at y)\<lparr>bd_locals := (bd_locals (ry_at y))\<lparr>ll_cycle := n\<rparr>\<rparr>,
           ry_engine_by_role := (if forget then Map.empty else ry_engine_by_role y),
           ry_operator_by_role := (if forget then Map.empty else ry_operator_by_role y),
           ry_worker := runner_worker_id (ry_handle y),
           ry_handle := handle_update n (''cycle '' @ nat_str n @ '' - running'') (ry_handle y)\<rparr>)"

definition end_cycle :: "loop_input \<Rightarrow> bool \<Rightarrow> runner_sys \<Rightarrow> runner_sys" where
  "end_cycle i stepping y =
     (let r = (li_report i)\<lparr>cr_cycle := ll_cycle (bd_locals (ry_at y))\<rparr> in
      case settle_cycle (li_env i) r (ry_at y) of (outcome, b) \<Rightarrow>
        y\<lparr>ry_handle := clear_active (handle_update (cr_cycle r) (report_summary r) (ry_handle y)),
          ry_at := b,
          ry_pc := (case outcome of
              AfterPanic \<Rightarrow> Panicked
            | AfterBudget \<Rightarrow> Pausing pause_ops
            | AfterBackoff \<Rightarrow> Backoff
            | AfterCycle \<Rightarrow> if stepping then Pausing pause_ops else Sleeping)\<rparr>)"

fun loop_step :: "loop_input \<Rightarrow> loop_pc \<Rightarrow> runner_sys \<Rightarrow> runner_sys" where
  "loop_step i AtGate y =
     (case rh_mode (ry_handle y) of
        ModeStopped \<Rightarrow> y\<lparr>ry_pc := Returned\<rparr>
      | ModeRunning \<Rightarrow> y\<lparr>ry_pc := AtMaster\<rparr>
      | ModePaused \<Rightarrow> y\<lparr>ry_pc := AtSwap\<rparr>)"
| "loop_step i AtSwap y =
     (if rh_step (ry_handle y) then y\<lparr>ry_handle := (ry_handle y)\<lparr>rh_step := False\<rparr>, ry_pc := AtBegin True\<rparr>
      else y\<lparr>ry_pc := AtArm\<rparr>)"
| "loop_step i AtArm y = y\<lparr>ry_notified := False, ry_pc := Waiting\<rparr>"
| "loop_step i Waiting y = (if ry_notified y then y\<lparr>ry_pc := AtGate\<rparr> else y)"
| "loop_step i AtMaster y =
     (if cycle_may_run (case li_workspace i of Some w \<Rightarrow> w | None \<Rightarrow> True) (Some True) False
      then y\<lparr>ry_pc := AtBegin False\<rparr>
      else y\<lparr>ry_notified := False, ry_pc := Sleeping\<rparr>)"
| "loop_step i (AtBegin stepping) y = begin_cycle i stepping y"
| "loop_step i (InCycle stepping) y = end_cycle i stepping y"
| "loop_step i (Pausing []) y = y\<lparr>ry_pc := AtGate\<rparr>"
| "loop_step i (Pausing (a # as)) y = (do_op a y)\<lparr>ry_pc := Pausing as\<rparr>"
| "loop_step i Sleeping y = y\<lparr>ry_pc := AtGate\<rparr>"
| "loop_step i Backoff y = y\<lparr>ry_pc := AtGate\<rparr>"
| "loop_step i Returned y = y"
| "loop_step i Panicked y = y"

text \<open>
  An event: the loop takes a step, a thread takes the next access of its call, a new thread starts a call, or the
  running cycle reports the phase it is in.
\<close>

datatype runner_event = Loop loop_input | Thread nat | Spawn "handle_op list" | Phase "(string \<times> string) option"

fun run_event :: "runner_event \<Rightarrow> runner_sys \<Rightarrow> runner_sys" where
  "run_event (Loop i) y = loop_step i (ry_pc y) y"
| "run_event (Thread n) y =
     (if n < length (ry_calls y)
      then (case ry_calls y ! n of
              [] \<Rightarrow> y
            | a # as \<Rightarrow> (do_op a y)\<lparr>ry_calls := (ry_calls y)[n := as]\<rparr>)
      else y)"
| "run_event (Spawn as) y = y\<lparr>ry_calls := ry_calls y @ [as]\<rparr>"
| "run_event (Phase p) y =
     (case (ry_pc y, p) of
        (InCycle _, Some (r, n)) \<Rightarrow> y\<lparr>ry_handle := set_active r n (ry_handle y)\<rparr>
      | (InCycle _, None) \<Rightarrow> y\<lparr>ry_handle := clear_active (ry_handle y)\<rparr>
      | _ \<Rightarrow> y)"

definition runner_start :: "project_state \<Rightarrow> runner_sys" where
  "runner_start s = \<lparr>ry_handle = handle_new, ry_notified = False, ry_pc = AtGate,
     ry_at = \<lparr>bd_locals = \<lparr>ll_cycle = 0, ll_streak = 0, ll_last_logic = []\<rparr>, bd_store = s, bd_notices = []\<rparr>,
     ry_worker = [], ry_engine_by_role = Map.empty, ry_operator_by_role = Map.empty, ry_calls = []\<rparr>"

abbreviation run_events :: "runner_event list \<Rightarrow> runner_sys \<Rightarrow> runner_sys" where
  "run_events es y \<equiv> fold run_event es y"

end
