(* ===== verification/Watchdog.thy ===== *)
theory Watchdog
  imports Runner Coordination Outbox Complex_Main
begin

text \<open>
  The watchdog of the loop: the verdict of \<open>application/src/liveness.rs\<close> over a snapshot, and the sweep of
  \<open>presentation/src/server/background.rs\<close> that takes the snapshot, tells the team and keeps the episode.
  \<open>secs\<close> reads an RFC 3339 stamp as Unix seconds, when it can. Money is rational. In fixed texts a long dash is
  written \<open>-\<close> and the leading sign of a chat line is left out.
\<close>

section \<open>The verdict\<close>

record watch_config =
  wc_stall_timeout_secs :: nat
  wc_stall_hub_timeout_secs :: nat
  wc_stall_watchdog :: bool
  wc_budget_usd :: "rat option"
  wc_daily_budget_usd :: "rat option"

definition stall_threshold :: "watch_config \<Rightarrow> nat" where
  "stall_threshold c = (if wc_stall_timeout_secs c = 0 then 3600 else wc_stall_timeout_secs c)"

definition stall_escalation :: "watch_config \<Rightarrow> nat" where
  "stall_escalation c = (if wc_stall_hub_timeout_secs c = 0 then 14400 else wc_stall_hub_timeout_secs c)"

definition QUOTA_PAUSE_LINE :: string where "QUOTA_PAUSE_LINE = ''paused - engines out of quota''"

record stall_episode =
  se_since :: string
  se_worker :: string
  se_last_activity_at :: string
  se_last_alert_at :: string
  se_escalations :: nat

record 'c liveness_snapshot =
  sv_worker :: "'c worker_entry option"
  sv_activity :: "activity_entry list"
  sv_desired_run :: bool
  sv_paused :: bool
  sv_over_budget :: bool
  sv_quota_exhausted :: bool
  sv_backlog_empty :: bool
  sv_threshold_secs :: int
  sv_escalate_after_secs :: int
  sv_open_stall :: "stall_episode option"
  sv_now :: string

record stall_alert =
  al_message :: string
  al_episode :: stall_episode

datatype liveness_verdict = Quiet | Stall stall_alert | Escalate stall_alert | Resumed

definition backlog_is_empty :: "ticket list \<Rightarrow> bool" where
  "backlog_is_empty ts \<longleftrightarrow> \<not> list_ex (\<lambda>t. tk_status t \<in> {Pending, Ready, InProgress, Open}) ts"

definition humanize :: "int \<Rightarrow> string" where
  "humanize t =
     (let s = nat (max t 0) in
      if 3600 \<le> s then nat_str (s div 3600) @ '' h '' @ nat_str (s mod 3600 div 60) @ '' m''
      else if 60 \<le> s then nat_str (s div 60) @ '' m''
      else nat_str s @ '' s'')"

definition settled_verdict :: "'c liveness_snapshot \<Rightarrow> liveness_verdict" where
  "settled_verdict v = (case sv_open_stall v of Some _ \<Rightarrow> Resumed | None \<Rightarrow> Quiet)"

definition stall_message :: "'c liveness_snapshot \<Rightarrow> activity_entry \<Rightarrow> int \<Rightarrow> string" where
  "stall_message v a silent =
     ''LOOP STALLED: worker ''
     @ (case sv_worker v of
          Some w \<Rightarrow> we_worker w
        | None \<Rightarrow> ''none - no live worker left in the registry (the worker process is gone or its heartbeat expired)'')
     @ '' - silent for '' @ humanize silent @ '' with no new activity for that whole time; last activity \"''
     @ ac_agent a @ '': '' @ ac_action a @ ''\" ('' @ humanize silent
     @ '' ago). The cycle looks stuck: check the worker process, the engine calls and the store locks. A single engine call longer than workflow.stall_timeout_secs also reads as silence - raise the knob if your runs are longer.''"

definition stall_verdict :: "(string \<Rightarrow> int option) \<Rightarrow> 'c liveness_snapshot \<Rightarrow> liveness_verdict" where
  "stall_verdict secs v =
     (if \<not> sv_desired_run v \<or> sv_paused v \<or> sv_over_budget v \<or> sv_quota_exhausted v \<or> sv_backlog_empty v
         \<or> sv_activity v = []
      then settled_verdict v
      else let a = last (sv_activity v) in
        case (secs (ac_at a), secs (sv_now v)) of
          (Some last_at, Some now_at) \<Rightarrow>
            let silent = now_at - last_at in
            if silent \<le> sv_threshold_secs v then settled_verdict v
            else
              let message = stall_message v a silent;
                  episode = \<lparr>se_since = sv_now v,
                    se_worker = (case sv_worker v of Some w \<Rightarrow> we_worker w | None \<Rightarrow> ''none''),
                    se_last_activity_at = ac_at a, se_last_alert_at = sv_now v, se_escalations = 0\<rparr>
              in (case sv_open_stall v of
                    None \<Rightarrow> Stall \<lparr>al_message = message, al_episode = episode\<rparr>
                  | Some ep \<Rightarrow>
                      let since_alert = (case secs (se_last_alert_at ep) of None \<Rightarrow> I64_MAX | Some t \<Rightarrow> now_at - t) in
                      if since_alert < sv_escalate_after_secs v then Quiet
                      else
                        let n = min U32_MAX (se_escalations ep + 1) in
                        Escalate \<lparr>al_message = ''ESCALATION '' @ nat_str n @ '': '' @ message,
                          al_episode = episode\<lparr>se_since := se_since ep, se_escalations := n\<rparr>\<rparr>)
        | _ \<Rightarrow> settled_verdict v)"

section \<open>The sweep\<close>

record knobs =
  kn_enabled :: bool
  kn_timeout_secs :: nat
  kn_escalate_secs :: nat
  kn_budget_lifetime_usd :: "rat option"
  kn_budget_daily_usd :: "rat option"

definition knobs_default :: knobs where
  "knobs_default = \<lparr>kn_enabled = True, kn_timeout_secs = 3600, kn_escalate_secs = 14400,
     kn_budget_lifetime_usd = None, kn_budget_daily_usd = None\<rparr>"

text \<open>The configuration is absent when the file cannot be read or parsed.\<close>

definition liveness_knobs :: "watch_config option \<Rightarrow> nat option \<Rightarrow> knobs" where
  "liveness_knobs config horizon =
     (let k = (case config of
            None \<Rightarrow> knobs_default
          | Some c \<Rightarrow> \<lparr>kn_enabled = wc_stall_watchdog c, kn_timeout_secs = stall_threshold c,
              kn_escalate_secs = stall_escalation c, kn_budget_lifetime_usd = wc_budget_usd c,
              kn_budget_daily_usd = wc_daily_budget_usd c\<rparr>)
      in case horizon of None \<Rightarrow> k | Some h \<Rightarrow> k\<lparr>kn_timeout_secs := min (kn_timeout_secs k) h\<rparr>)"

text \<open>\<open>max_by_key\<close> answers the last of the greatest.\<close>

fun max_by_key :: "('a \<Rightarrow> int) \<Rightarrow> 'a list \<Rightarrow> 'a option" where
  "max_by_key f [] = None"
| "max_by_key f (x # xs) = (case max_by_key f xs of None \<Rightarrow> Some x | Some y \<Rightarrow> if f x \<le> f y then Some y else Some x)"

definition freshest_worker :: "(string \<Rightarrow> int option) \<Rightarrow> 'c worker_entry list \<Rightarrow> 'c worker_entry option" where
  "freshest_worker secs = max_by_key (\<lambda>w. case secs (we_at w) of Some t \<Rightarrow> t | None \<Rightarrow> I64_MIN)"

record 'o watched =
  wt_state :: project_state
  wt_spend_total :: rat
  wt_spend_today :: rat
  wt_liveness :: "stall_episode option"
  wt_outbox :: "'o option"

text \<open>What a sweep meets: the handle of the runner, the registry, the clock, and whether the store answers.\<close>

record 'c sweep_input =
  sw_handle :: runner_handle
  sw_workers :: "'c worker_entry list"
  sw_now :: string
  sw_unix :: int
  sw_load_ok :: bool
  sw_chat_ok :: bool
  sw_save_ok :: bool
  sw_mid :: string

definition chat_notify :: "string \<Rightarrow> string \<Rightarrow> string \<Rightarrow> project_state \<Rightarrow> project_state" where
  "chat_notify mid now message s = tell mid now ''COX'' ('' '' @ message) s"

definition raise_notice ::
  "'o outbox_port \<Rightarrow> string \<Rightarrow> 'c sweep_input \<Rightarrow> string \<Rightarrow> string \<Rightarrow> 'o watched \<Rightarrow> 'o watched" where
  "raise_notice port project i kind message w =
     w\<lparr>wt_state := (if sw_chat_ok i then chat_notify (sw_mid i) (sw_now i) message (wt_state w) else wt_state w),
       wt_outbox := map_option (op_enqueue port (pending kind project message (sw_unix i))) (wt_outbox w)\<rparr>"

definition snapshot_of :: "(string \<Rightarrow> int option) \<Rightarrow> knobs \<Rightarrow> 'c sweep_input \<Rightarrow> 'o watched \<Rightarrow> 'c liveness_snapshot" where
  "snapshot_of secs k i w =
     (let s = wt_state w in
      \<lparr>sv_worker = freshest_worker secs (sw_workers i), sv_activity = st_activity s,
       sv_desired_run = (sn_mode (rh_status (sw_handle i)) = ''running''), sv_paused = is_paused (sw_handle i),
       sv_over_budget = ((case kn_budget_lifetime_usd k of None \<Rightarrow> False | Some cap \<Rightarrow> cap \<le> wt_spend_total w)
          \<or> (case kn_budget_daily_usd k of None \<Rightarrow> False | Some cap \<Rightarrow> cap \<le> wt_spend_today w)),
       sv_quota_exhausted = (st_activity s \<noteq> [] \<and> ac_action (last (st_activity s)) = QUOTA_PAUSE_LINE),
       sv_backlog_empty = backlog_is_empty (st_tickets s),
       sv_threshold_secs = min I64_MAX (int (kn_timeout_secs k)), sv_escalate_after_secs = min I64_MAX (int (kn_escalate_secs k)),
       sv_open_stall = wt_liveness w, sv_now = sw_now i\<rparr>)"

definition RESUMED_MESSAGE :: string where
  "RESUMED_MESSAGE = ''loop resumed - new activity landed; the stall alert is cleared''"

definition keep_episode :: "'c sweep_input \<Rightarrow> stall_episode option \<Rightarrow> 'o watched \<Rightarrow> 'o watched" where
  "keep_episode i e w = (if sw_save_ok i then w\<lparr>wt_liveness := e\<rparr> else w)"

definition liveness_pass ::
  "'o outbox_port \<Rightarrow> (string \<Rightarrow> int option) \<Rightarrow> string \<Rightarrow> knobs \<Rightarrow> 'c sweep_input \<Rightarrow> 'o watched \<Rightarrow> 'o watched" where
  "liveness_pass port secs project k i w =
     (if \<not> kn_enabled k
      then (if sw_load_ok i \<and> wt_liveness w \<noteq> None then keep_episode i None w else w)
      else if \<not> sw_load_ok i then w
      else case stall_verdict secs (snapshot_of secs k i w) of
        Quiet \<Rightarrow> w
      | Stall a \<Rightarrow> keep_episode i (Some (al_episode a)) (raise_notice port project i ''cycle_stalled'' (al_message a) w)
      | Escalate a \<Rightarrow> keep_episode i (Some (al_episode a)) (raise_notice port project i ''cycle_stalled'' (al_message a) w)
      | Resumed \<Rightarrow> keep_episode i None (raise_notice port project i ''cycle_resumed'' RESUMED_MESSAGE w))"

end
