(* ===== verification/Runner_Properties.thy ===== *)
theory Runner_Properties
  imports Runner
begin

text \<open>
  What the dashboard may rely on when it drives the loop, what gets lost in the races of the handle, and when the
  circuit breaker and the incident ledger speak.
\<close>

section \<open>Driving the loop\<close>

definition starts_work :: "handle_op list \<Rightarrow> bool" where
  "starts_work as \<longleftrightarrow> StoreMode ModeRunning \<in> set as \<or> StoreStep \<in> set as"

definition idle :: "project_state \<Rightarrow> runner_sys \<Rightarrow> bool" where
  "idle s y \<longleftrightarrow> rh_mode (ry_handle y) \<noteq> ModeRunning \<and> \<not> rh_step (ry_handle y)
     \<and> ry_pc y \<in> {AtGate, AtSwap, AtArm, Waiting, Returned}
     \<and> ll_cycle (bd_locals (ry_at y)) = 0 \<and> bd_store (ry_at y) = s \<and> (\<forall>as \<in> set (ry_calls y). \<not> starts_work as)"

lemma starts_work_Cons: "\<not> starts_work (a # as) \<longleftrightarrow> a \<noteq> StoreMode ModeRunning \<and> a \<noteq> StoreStep \<and> \<not> starts_work as"
  by (auto simp: starts_work_def)

lemma do_op_simps [simp]:
  "ry_pc (do_op a y) = ry_pc y" "ry_at (do_op a y) = ry_at y" "ry_calls (do_op a y) = ry_calls y"
  "ry_handle (do_op a y) = op_apply a (ry_handle y)"
  by (simp_all add: do_op_def)

lemma handle_simps [simp]:
  "rh_mode (on_status f h) = rh_mode h" "rh_step (on_status f h) = rh_step h"
  by (simp_all add: on_status_def)

lemmas status_defs = set_mode_label_def handle_update_def set_active_def clear_active_def set_operator_def

lemma op_mode: "rh_mode (op_apply a h) = (case a of StoreMode m \<Rightarrow> m | _ \<Rightarrow> rh_mode h)"
  by (cases a) (simp_all add: status_defs)

lemma op_step: "rh_step (op_apply a h) \<longleftrightarrow> rh_step h \<or> a = StoreStep"
  by (cases a) (simp_all add: status_defs)

lemma in_update: "x \<in> set (xs[n := v]) \<Longrightarrow> x = v \<or> x \<in> set xs"
  using set_update_subset_insert by fastforce

lemma idle_step: "idle s y \<Longrightarrow> (\<And>as. e = Spawn as \<Longrightarrow> \<not> starts_work as) \<Longrightarrow> idle s (run_event e y)"
proof (induction e y rule: run_event.induct)
  case (1 i y)
  then show ?case by (cases "rh_mode (ry_handle y)") (auto simp: idle_def split: if_splits)
next
  case (2 n y)
  show ?case
  proof (cases "n < length (ry_calls y) \<and> ry_calls y ! n \<noteq> []")
    case True
    then obtain a as where c: "ry_calls y ! n = a # as" by (cases "ry_calls y ! n") auto
    then have mem: "a # as \<in> set (ry_calls y)" using True by (metis nth_mem)
    then have w: "a \<noteq> StoreMode ModeRunning" "a \<noteq> StoreStep" "\<not> starts_work as"
      using 2(1) starts_work_Cons by (auto simp: idle_def)
    then show ?thesis
      using 2(1) True c by (auto simp: idle_def op_mode op_step split: handle_op.split dest!: in_update)
  qed (use 2 in \<open>auto split: list.split\<close>)
next
  case (4 p y)
  then show ?case by (auto simp: idle_def split: loop_pc.split option.split)
qed (auto simp: idle_def)

text \<open>
  Hosting the loop burns nothing: until somebody resumes or steps it, no cycle starts and the state is untouched,
  whatever else is called and however the calls interleave.
\<close>

theorem no_cycle_before_start:
  assumes "\<And>as. Spawn as \<in> set es \<Longrightarrow> \<not> starts_work as"
  shows "ll_cycle (bd_locals (ry_at (run_events es (runner_start s)))) = 0
    \<and> bd_store (ry_at (run_events es (runner_start s))) = s"
proof -
  have run: "idle s y \<Longrightarrow> set fs \<subseteq> set es \<Longrightarrow> idle s (run_events fs y)" for fs y
  proof (induction fs arbitrary: y)
    case (Cons e fs)
    have "idle s (run_event e y)" using Cons.prems assms by (intro idle_step) auto
    then show ?case using Cons.IH Cons.prems(2) by simp
  qed simp
  have "idle s (runner_start s)" by (simp add: idle_def runner_start_def handle_new_def)
  then have "idle s (run_events es (runner_start s))" using run by blast
  then show ?thesis by (simp add: idle_def)
qed

theorem no_cycle_before_start_witness:
  "ll_cycle (bd_locals (ry_at (run_events [Spawn pause_ops, Thread 0, Spawn stop_ops, Thread 1, Thread 1]
     (runner_start project_state_default)))) = 0"
proof -
  have "\<not> starts_work as" if "Spawn as \<in> set [Spawn pause_ops, Thread 0, Spawn stop_ops, Thread 1, Thread 1]" for as
    using that by (auto simp: starts_work_def pause_ops_def stop_ops_def)
  from no_cycle_before_start [OF this] show ?thesis by blast
qed






lemma logic_errors_cycle [simp]: "logic_errors (r\<lparr>cr_cycle := n\<rparr>) = logic_errors r"
  by (simp add: logic_errors_def)








definition quiet_report :: cycle_report where
  "quiet_report = \<lparr>cr_cycle = 0, cr_ba_created = [], cr_sa_readied = None, cr_design_system_created = False,
     cr_pd_designed = None, cr_bug_fixed = None, cr_feature_done = None, cr_documented = None, cr_bugs_filed = [],
     cr_errors = [], cr_over_budget = False\<rparr>"

definition report_of :: "string list \<Rightarrow> cycle_report" where
  "report_of errors = quiet_report\<lparr>cr_errors := errors\<rparr>"

definition plain_env :: cycle_env where
  "plain_env = \<lparr>ce_engine = ''claude'', ce_store_ok = True, ce_now = ''t'', ce_mid = (\<lambda>_. ''m'')\<rparr>"

definition quiet_input :: loop_input where
  "quiet_input = \<lparr>li_workspace = Some True, li_reload = False, li_env = plain_env, li_report = quiet_report\<rparr>"




section \<open>What the races lose\<close>

lemma waits_forever:
  assumes "ry_pc y = Waiting" "\<not> ry_notified y"
  shows "run_events (map Loop is) y = y"
  using assms by (induction "is") auto

text \<open>
  A stop can be lost: when it arrives during a single step, the loop, done with its cycle, pauses itself over it. All
  calls have returned, the loop has not, and it waits for ever in the mode the stop has been overwritten with.
\<close>

definition stop_in_step :: "runner_event list" where
  "stop_in_step = [Spawn step_ops, Thread 0, Thread 0] @ replicate 3 (Loop quiet_input)
     @ [Spawn stop_ops, Thread 1, Thread 1, Thread 1] @ replicate 8 (Loop quiet_input)"

theorem stop_lost_in_step:
  "let y = run_events stop_in_step (runner_start s) in
     concat (ry_calls y) = [] \<and> rh_mode (ry_handle y) = ModePaused \<and> ry_pc y = Waiting
     \<and> (\<forall>is. ry_pc (run_events (map Loop is) y) = Waiting)"
proof -
  let ?y = "run_events stop_in_step (runner_start s)"
  have "concat (ry_calls ?y) = [] \<and> rh_mode (ry_handle ?y) = ModePaused \<and> ry_pc ?y = Waiting \<and> \<not> ry_notified ?y"
    by (simp add: stop_in_step_def step_ops_def stop_ops_def pause_ops_def runner_start_def handle_new_def eval_nat_numeral
        begin_cycle_def end_cycle_def settle_cycle_def quiet_input_def quiet_report_def plain_env_def status_defs
        post_logic_def breaker_def logic_errors_def next_streak_def progressed_def infra_faults_def do_op_def on_status_def
        incident_notices_def incident_write_def engine_alive_def Let_def)
  moreover from this have "run_events (map Loop is) ?y = ?y" for "is" using waits_forever by blast
  ultimately show ?thesis by (simp add: Let_def)
qed

text \<open>
  A resume can be lost: when it falls between the load of the mode and the creation of the future, its notification
  wakes nobody. The mode and the label say running, no call is outstanding, and the loop waits for ever.
\<close>

definition late_resume :: "runner_event list" where
  "late_resume = [Loop quiet_input, Spawn resume_ops, Thread 0, Thread 0, Thread 0, Loop quiet_input, Loop quiet_input]"

theorem resume_lost:
  "let y = run_events late_resume (runner_start s) in
     concat (ry_calls y) = [] \<and> rh_mode (ry_handle y) = ModeRunning \<and> sn_mode (rh_status (ry_handle y)) = ''running''
     \<and> (\<forall>is. ry_pc (run_events (map Loop is) y) = Waiting)"
proof -
  let ?y = "run_events late_resume (runner_start s)"
  have "concat (ry_calls ?y) = [] \<and> rh_mode (ry_handle ?y) = ModeRunning \<and> sn_mode (rh_status (ry_handle ?y)) = ''running''
    \<and> ry_pc ?y = Waiting \<and> \<not> ry_notified ?y"
    by (simp add: late_resume_def resume_ops_def runner_start_def handle_new_def status_defs do_op_def on_status_def)
  moreover from this have "run_events (map Loop is) ?y = ?y" for "is" using waits_forever by blast
  ultimately show ?thesis by (simp add: Let_def)
qed

text \<open>
  The label of the dashboard can disagree with the mode for good: of a resume and a pause that overlap, one sets the
  mode last and the other the label.
\<close>

theorem label_race:
  "let y = run_events [Spawn resume_ops, Spawn pause_ops, Thread 0, Thread 1, Thread 1, Thread 1, Thread 0, Thread 0] (runner_start s) in
     concat (ry_calls y) = [] \<and> is_paused (ry_handle y) \<and> sn_mode (rh_status (ry_handle y)) = ''running''"
  by (simp add: resume_ops_def pause_ops_def runner_start_def handle_new_def status_defs do_op_def on_status_def is_paused_def Let_def)

section \<open>The circuit breaker and the incident ledger\<close>

fun settle_cycles :: "(cycle_env \<times> cycle_report) list \<Rightarrow> cycle_state \<Rightarrow> after_cycle list \<times> cycle_state" where
  "settle_cycles [] b = ([], b)"
| "settle_cycles ((env, r) # rs) b =
     (case settle_cycle env r b of (out, b1) \<Rightarrow> case settle_cycles rs b1 of (outs, b2) \<Rightarrow> (out # outs, b2))"

lemma settle_cycles_Cons:
  "fst (settle_cycles ((env, r) # rs) b) = fst (settle_cycle env r b) # fst (settle_cycles rs (snd (settle_cycle env r b)))"
  "snd (settle_cycles ((env, r) # rs) b) = snd (settle_cycles rs (snd (settle_cycle env r b)))"
  by (simp_all split: prod.split)

definition fair :: "cycle_report \<Rightarrow> bool" where
  "fair r \<longleftrightarrow> \<not> cr_over_budget r \<and> logic_line (logic_errors r) \<noteq> None"

lemma tell_incidents [simp]: "st_engine_incidents (tell m n u msg s) = st_engine_incidents s"
  by (simp add: tell_def)

lemma post_logic_fair:
  assumes "fair r"
  obtains b' where "post_logic env r b = Some b'" "ll_streak (bd_locals b') = ll_streak (bd_locals b)"
    "st_engine_incidents (bd_store b') = st_engine_incidents (bd_store b)" "bd_notices b' = bd_notices b"
proof (cases "logic_errors r \<noteq> [] \<and> logic_errors r \<noteq> ll_last_logic (bd_locals b)")
  case True
  then show ?thesis using assms by (auto simp: fair_def post_logic_def Let_def intro!: that)
next
  case False
  then show ?thesis by (cases "logic_errors r = []") (auto simp: post_logic_def Let_def intro!: that)
qed

lemma settle_fair:
  assumes "fair r" and n_def: "n = next_streak r (ll_streak (bd_locals b))"
  shows "fst (settle_cycle env r b) = (if 3 \<le> n then AfterBackoff else AfterCycle)"
    and "ll_streak (bd_locals (snd (settle_cycle env r b))) = (if 3 \<le> n then 0 else n)"
    and "st_engine_incidents (bd_store (snd (settle_cycle env r b)))
       = st_engine_incidents (if ce_store_ok env then incident_write env r (bd_store b) else bd_store b)"
    and "map fst (bd_notices (snd (settle_cycle env r b)))
       = map fst (bd_notices b @ incident_notices env r (bd_store b)) @ (if 3 \<le> n then [''loop_paused''] else [])"
proof -
  let ?b1 = "b\<lparr>bd_notices := bd_notices b @ incident_notices env r (bd_store b),
    bd_store := (if ce_store_ok env then incident_write env r (bd_store b) else bd_store b)\<rparr>"
  obtain b2 where b2: "post_logic env r ?b1 = Some b2" "ll_streak (bd_locals b2) = ll_streak (bd_locals ?b1)"
    "st_engine_incidents (bd_store b2) = st_engine_incidents (bd_store ?b1)" "bd_notices b2 = bd_notices ?b1"
    using post_logic_fair [OF assms(1)] by blast
  have "settle_cycle env r b = breaker env r b2"
    using assms(1) b2(1) by (simp add: settle_cycle_def fair_def Let_def)
  then show "fst (settle_cycle env r b) = (if 3 \<le> n then AfterBackoff else AfterCycle)"
    "ll_streak (bd_locals (snd (settle_cycle env r b))) = (if 3 \<le> n then 0 else n)"
    "st_engine_incidents (bd_store (snd (settle_cycle env r b)))
       = st_engine_incidents (if ce_store_ok env then incident_write env r (bd_store b) else bd_store b)"
    "map fst (bd_notices (snd (settle_cycle env r b)))
       = map fst (bd_notices b @ incident_notices env r (bd_store b)) @ (if 3 \<le> n then [''loop_paused''] else [])"
    using b2 by (simp_all add: breaker_def Let_def n_def)
qed

lemma next_streak_alive: "engine_alive r \<Longrightarrow> next_streak r n = 0"
  by (auto simp: next_streak_def engine_alive_def)







text \<open>The report ends an incident: no infrastructure fault, and the engine answered.\<close>

definition closes :: "cycle_report \<Rightarrow> bool" where
  "closes r \<longleftrightarrow> infra_faults r = [] \<and> engine_alive r"

definition one_each :: "project_state \<Rightarrow> bool" where
  "one_each s \<longleftrightarrow> distinct (map ei_engine (st_engine_incidents s))"

lemma has_incident_iff: "has_incident e s \<longleftrightarrow> e \<in> ei_engine ` set (st_engine_incidents s)"
  by (auto simp: has_incident_def list_ex_iff)

lemma incident_opened:
  assumes "infra_faults r \<noteq> []" "one_each s"
  shows "has_incident (ce_engine env) (incident_write env r s) \<and> one_each (incident_write env r s)"
proof -
  obtain d ds where d: "infra_faults r = d # ds" using assms(1) by (cases "infra_faults r") auto
  let ?s1 = "open_engine_incident (ce_now env) (ce_engine env) ''CYCLE'' d s"
  have e: "st_engine_incidents (incident_write env r s) = st_engine_incidents ?s1" by (simp add: incident_write_def d Let_def)
  have "ce_engine env \<in> ei_engine ` set (st_engine_incidents ?s1)"
  proof (cases "find (\<lambda>i. ei_engine i = ce_engine env) (st_engine_incidents s)")
    case (Some i)
    from find_Some_props [OF this] have "ce_engine env \<in> set (map ei_engine (st_engine_incidents s))"
      by (auto intro: rev_image_eqI)
    moreover have "map ei_engine (st_engine_incidents ?s1) = map ei_engine (st_engine_incidents s)"
      by (simp add: open_engine_incident_def Let_def Some)
    ultimately show ?thesis by (metis list.set_map)
  qed (simp add: open_engine_incident_def Let_def)
  then show ?thesis
    using open_engine_incident_distinct [of s] assms(2) by (simp add: has_incident_iff one_each_def e)
qed

lemma remove_first_absent: "find p l = None \<Longrightarrow> remove_first p l = l"
  by (induction l) (auto split: if_splits)

lemma incident_closed:
  assumes "closes r" "one_each s"
  shows "\<not> has_incident (ce_engine env) (incident_write env r s) \<and> one_each (incident_write env r s)"
proof -
  let ?p = "\<lambda>i. ei_engine i = ce_engine env" and ?l = "st_engine_incidents s"
  have "st_engine_incidents (incident_write env r s) = remove_first ?p ?l"
    using assms(1) by (cases "find ?p ?l") (simp_all add: closes_def incident_write_def close_engine_incident_def Let_def remove_first_absent)
  also have "\<dots> = filter (\<lambda>i. ei_engine i \<noteq> ce_engine env) ?l"
    using assms(2) by (intro remove_first_unique) (simp add: one_each_def)
  finally show ?thesis using assms(2) by (auto simp: has_incident_iff one_each_def distinct_map_filter)
qed

lemma incident_kept: "infra_faults r = [] \<Longrightarrow> \<not> closes r \<Longrightarrow> incident_write env r s = s"
  by (simp add: closes_def incident_write_def)

text \<open>
  The ledger tells the truth about the engine: it has an open incident exactly when some cycle had an infrastructure
  fault and no cycle since has shown the engine alive and free of such faults, or when it was open before and none did.
\<close>

theorem incident_open_exact:
  assumes "one_each (bd_store b)" "\<forall>(env, r) \<in> set rs. fair r \<and> ce_store_ok env \<and> ce_engine env = e"
  shows "has_incident e (bd_store (snd (settle_cycles rs b))) \<longleftrightarrow>
     (\<exists>pre env r post. rs = pre @ (env, r) # post \<and> infra_faults r \<noteq> [] \<and> (\<forall>(_, q) \<in> set post. \<not> closes q))
     \<or> has_incident e (bd_store b) \<and> (\<forall>(_, q) \<in> set rs. \<not> closes q)"
  using assms
proof (induction rs arbitrary: b)
  case (Cons x rs)
  obtain env r where x: "x = (env, r)" by (cases x)
  let ?b1 = "snd (settle_cycle env r b)"
  have r: "fair r" "ce_store_ok env" "ce_engine env = e" using Cons.prems(2) x by auto
  have inc: "st_engine_incidents (bd_store ?b1) = st_engine_incidents (incident_write env r (bd_store b))"
    using settle_fair(3) [OF r(1) refl, of env b] r(2) by simp
  have "(has_incident e (incident_write env r (bd_store b)) \<longleftrightarrow> infra_faults r \<noteq> [] \<or> has_incident e (bd_store b) \<and> \<not> closes r)
    \<and> one_each (incident_write env r (bd_store b))"
  proof (cases "infra_faults r = [] \<and> \<not> closes r")
    case True
    then show ?thesis using incident_kept Cons.prems(1) by simp
  qed (use incident_opened [of r _ env] incident_closed [of r _ env] Cons.prems(1) r(3) in \<open>auto simp: closes_def\<close>)
  then have b1: "has_incident e (bd_store ?b1) \<longleftrightarrow> infra_faults r \<noteq> [] \<or> has_incident e (bd_store b) \<and> \<not> closes r"
    "one_each (bd_store ?b1)"
    by (simp_all add: has_incident_def one_each_def inc)
  have split: "(\<exists>pre env' r' post. (env, r) # rs = pre @ (env', r') # post \<and> infra_faults r' \<noteq> [] \<and> (\<forall>(_, q) \<in> set post. \<not> closes q))
    \<longleftrightarrow> infra_faults r \<noteq> [] \<and> (\<forall>(_, q) \<in> set rs. \<not> closes q)
      \<or> (\<exists>pre env' r' post. rs = pre @ (env', r') # post \<and> infra_faults r' \<noteq> [] \<and> (\<forall>(_, q) \<in> set post. \<not> closes q))"
    by (simp add: Cons_eq_append_conv) blast
  note all = settle_cycles_Cons(2) [of env r rs b, folded x]
  have tail: "(\<forall>(_, q) \<in> set ((env, r) # rs). \<not> closes q) \<longleftrightarrow> \<not> closes r \<and> (\<forall>(_, q) \<in> set rs. \<not> closes q)" by simp
  have "\<forall>(env, r) \<in> set rs. fair r \<and> ce_store_ok env \<and> ce_engine env = e" using Cons.prems(2) by simp
  from Cons.IH [OF b1(2) this] show ?case unfolding all unfolding x split tail b1(1) by blast
qed simp

definition at_rest :: cycle_state where
  "at_rest = \<lparr>bd_locals = \<lparr>ll_cycle = 0, ll_streak = 0, ll_last_logic = []\<rparr>, bd_store = project_state_default, bd_notices = []\<rparr>"

theorem incident_open_exact_witness:
  "has_incident ''claude'' (bd_store (snd (settle_cycles [(plain_env, report_of [''401'']), (plain_env, quiet_report)] at_rest)))"
proof -
  let ?rs = "[(plain_env, report_of [''401'']), (plain_env, quiet_report)]"
  have f: "list_all fair [report_of [''401''], quiet_report]" "infra_faults (report_of [''401'']) \<noteq> []" "\<not> closes quiet_report"
    by code_simp+
  have "one_each (bd_store at_rest)" by (simp add: one_each_def at_rest_def project_state_default_def)
  moreover have "\<forall>(env, r) \<in> set ?rs. fair r \<and> ce_store_ok env \<and> ce_engine env = ''claude''" using f(1) by (simp add: plain_env_def)
  moreover have "?rs = [] @ (plain_env, report_of [''401'']) # [(plain_env, quiet_report)]
      \<and> infra_faults (report_of [''401'']) \<noteq> [] \<and> (\<forall>(_, q) \<in> set [(plain_env, quiet_report)]. \<not> closes q)"
    using f(2,3) by simp
  ultimately show ?thesis using incident_open_exact [of at_rest ?rs "''claude''"] by blast
qed

text \<open>
  An outage that begins with a single fault is never announced: the first cycle opens the incident without a word,
  and as long as it is open no later cycle raises it, however many runs fail.
\<close>

lemma open_no_notice:
  assumes "has_incident (ce_engine env) s" "ce_store_ok env"
  shows "''engine_incident'' \<notin> fst ` set (incident_notices env r s)"
  using assms by (auto simp: incident_notices_def Let_def split: list.split)

theorem incident_never_announced:
  assumes "fair q" "infra_faults q = [fault]" "\<not> is_auth_death fault" "one_each (bd_store b)" "\<not> has_incident e (bd_store b)"
    and "\<forall>(env, r) \<in> set ((env0, q) # rs). fair r \<and> ce_store_ok env \<and> ce_engine env = e"
    and "\<forall>(_, r) \<in> set rs. infra_faults r \<noteq> []"
    and "''engine_incident'' \<notin> fst ` set (bd_notices b)"
  shows "''engine_incident'' \<notin> fst ` set (bd_notices (snd (settle_cycles ((env0, q) # rs) b)))"
proof -
  have run: "''engine_incident'' \<notin> fst ` set (bd_notices (snd (settle_cycles rs c)))"
    if "has_incident e (bd_store c)" "one_each (bd_store c)" "''engine_incident'' \<notin> fst ` set (bd_notices c)"
      "\<forall>(env, r) \<in> set rs. fair r \<and> ce_store_ok env \<and> ce_engine env = e \<and> infra_faults r \<noteq> []" for rs c
    using that
  proof (induction rs arbitrary: c)
    case (Cons x rs)
    obtain env r where x: "x = (env, r)" by (cases x)
    let ?c1 = "snd (settle_cycle env r c)"
    have r: "fair r" "ce_store_ok env" "ce_engine env = e" "infra_faults r \<noteq> []" using Cons.prems(4) x by auto
    have "has_incident e (bd_store ?c1) \<and> one_each (bd_store ?c1)"
      using incident_opened [OF r(4) Cons.prems(2), of env] settle_fair(3) [OF r(1) refl, of env c] r(2,3)
      by (simp add: has_incident_def one_each_def)
    moreover have "''engine_incident'' \<notin> set (map fst (bd_notices ?c1))"
      using settle_fair(4) [OF r(1) refl, of env c] open_no_notice [of env "bd_store c" r] Cons.prems(1,3) r(2,3) by auto
    ultimately have "''engine_incident'' \<notin> fst ` set (bd_notices (snd (settle_cycles rs ?c1)))"
      using Cons.IH [of ?c1] Cons.prems(4) by simp
    then show ?case unfolding x settle_cycles_Cons .
  qed simp
  let ?b1 = "snd (settle_cycle env0 q b)"
  have q: "ce_store_ok env0" "ce_engine env0 = e" using assms(6) by auto
  have "has_incident e (bd_store ?b1) \<and> one_each (bd_store ?b1)"
    using incident_opened [of q "bd_store b" env0] settle_fair(3) [OF assms(1) refl, of env0 b] assms(2,4) q
    by (simp add: has_incident_def one_each_def)
  moreover have "incident_notices env0 q (bd_store b) = []"
    using assms(2,3) by (simp add: incident_notices_def Let_def loud_def)
  then have "''engine_incident'' \<notin> set (map fst (bd_notices ?b1))"
    using settle_fair(4) [OF assms(1) refl, of env0 b] assms(8) by auto
  ultimately have "''engine_incident'' \<notin> fst ` set (bd_notices (snd (settle_cycles rs ?b1)))"
    using assms(6,7) by (intro run) auto
  then show ?thesis unfolding settle_cycles_Cons .
qed

theorem incident_never_announced_witness:
  "''engine_incident'' \<notin> fst ` set (bd_notices (snd (settle_cycles
     [(plain_env, report_of [''claude timed out'']), (plain_env, report_of [''quota'', ''quota'', ''quota''])] at_rest)))"
proof (rule incident_never_announced [where e = "''claude''" and fault = "''claude timed out''"])
  show "fair (report_of [''claude timed out''])" "infra_faults (report_of [''claude timed out'']) = [''claude timed out'']"
    "\<not> is_auth_death ''claude timed out''"
    by code_simp+
  have "list_all fair [report_of [''claude timed out''], report_of [''quota'', ''quota'', ''quota'']]"
    "infra_faults (report_of [''quota'', ''quota'', ''quota'']) \<noteq> []"
    by code_simp+
  then show "\<forall>(env, r) \<in> set [(plain_env, report_of [''claude timed out'']), (plain_env, report_of [''quota'', ''quota'', ''quota''])].
      fair r \<and> ce_store_ok env \<and> ce_engine env = ''claude''"
    "\<forall>(_, r) \<in> set [(plain_env, report_of [''quota'', ''quota'', ''quota''])]. infra_faults r \<noteq> []"
    by (simp_all add: plain_env_def)
qed (simp_all add: at_rest_def one_each_def has_incident_def project_state_default_def)

text \<open>
  A dead API key passes for a task that failed: the error is an authentication death but no infrastructure fault, so
  it closes an open incident, resets the breaker and raises no alarm.
\<close>

theorem dead_key_unseen:
  "is_auth_death ''Invalid API key'' \<and> closes (report_of [''Invalid API key''])
 \<and> next_streak (report_of [''Invalid API key'']) n = 0
 \<and> ''engine_incident'' \<notin> fst ` set (incident_notices env (report_of [''Invalid API key'']) s)"
proof -
  have "is_auth_death ''Invalid API key''" "closes (report_of [''Invalid API key''])" by code_simp+
  then show ?thesis
    by (auto simp: closes_def next_streak_alive incident_notices_def Let_def)
qed

section \<open>A chat line that kills the loop\<close>

lemma take_bytes_ascii:
  "\<forall>c \<in> set xs. (of_char c :: nat) < 128 \<Longrightarrow> take_bytes (length xs + n) (xs @ ys) = map_option (append xs) (take_bytes n ys)"
  by (induction xs; cases "take_bytes n ys") (simp_all add: byte_len_def)

lemma byte_len_ascii: "\<forall>c \<in> set xs. (of_char c :: nat) < 128 \<Longrightarrow> byte_len xs = length xs"
  by (induction xs) (simp_all add: byte_len_def)

text \<open>
  Two task-shaped errors of which the first has 577 ASCII characters put the cut of the chat line inside the middle dot
  that joins them: the truncation panics and the loop is dead.
\<close>

theorem long_error_kills_loop:
  assumes "filter (\<lambda>e. \<not> is_infra_fault e) (cr_errors r) = [e1, e2]" "length e1 = 577" "\<forall>c \<in> set e1. (of_char c :: nat) < 128"
    and "ll_last_logic (bd_locals b) = []" "\<not> cr_over_budget r"
  shows "fst (settle_cycle env r b) = AfterPanic"
proof -
  have ascii: "\<forall>c \<in> set ('' cycle errors: '' @ e1 @ '' ''). (of_char c :: nat) < 128" using assms(3) by simp
  have len: "length ('' cycle errors: '' @ e1 @ '' '') = 593" using assms(2) by simp
  have j: "logic_errors r = e1 @ '' '' @ [MIDDLE_DOT] @ '' '' @ e2" by (simp add: logic_errors_def assms(1))
  have dot: "(of_char MIDDLE_DOT :: nat) = 183" by (simp add: MIDDLE_DOT_def)
  have "take_bytes 594 (('' cycle errors: '' @ e1 @ '' '') @ MIDDLE_DOT # '' '' @ e2) = None"
    using take_bytes_ascii [OF ascii, of 1 "MIDDLE_DOT # '' '' @ e2"] unfolding len by (simp add: byte_len_def dot)
  moreover have "594 < byte_len (('' cycle errors: '' @ e1 @ '' '') @ MIDDLE_DOT # '' '' @ e2)"
    using byte_len_append [of "'' cycle errors: '' @ e1 @ '' ''" "MIDDLE_DOT # '' '' @ e2"]
    unfolding byte_len_ascii [OF ascii] len by (simp add: byte_len_def dot del: append_assoc)
  ultimately have "logic_line (logic_errors r) = None" by (simp add: logic_line_def truncate_bytes_def j)
  then show ?thesis using assms(4,5) by (auto simp: settle_cycle_def post_logic_def Let_def j)
qed

lemma not_infra_x: "\<not> is_infra_fault (CHR ''x'' # replicate n CHR ''x'')"
proof -
  have low: "to_lowercase (CHR ''x'' # replicate n CHR ''x'') = replicate (Suc n) CHR ''x''" by (simp add: to_lowercase_def)
  have "\<not> contains_str (replicate k CHR ''x'') w" if "\<not> set w \<subseteq> {CHR ''x''}" for k w
    using that by (auto simp: contains_str_iff dest!: arg_cong [where f = set])
  moreover have "list_all (\<lambda>w. \<not> set w \<subseteq> {CHR ''x''}) INFRA_WORDS" by code_simp
  moreover have "trim (CHR ''x'' # replicate n CHR ''x'') \<noteq> []" by (simp add: trim_def is_white_def dropWhile_append)
  ultimately show ?thesis unfolding is_infra_fault_def low list_ex_iff list_all_iff by blast
qed

theorem long_error_kills_loop_witness:
  "fst (settle_cycle plain_env (report_of [replicate 577 CHR ''x'', ''x'']) at_rest) = AfterPanic"
proof (rule long_error_kills_loop)
  show "filter (\<lambda>e. \<not> is_infra_fault e) (cr_errors (report_of [replicate 577 CHR ''x'', ''x''])) = [replicate 577 CHR ''x'', ''x'']"
    using not_infra_x [of 576] not_infra_x [of 0] by (simp add: report_of_def flip: replicate_Suc)
qed (simp_all add: at_rest_def report_of_def quiet_report_def)

end
