(* ===== verification/Watchdog_Properties.thy ===== *)
theory Watchdog_Properties
  imports Watchdog Runner_Properties Backlog_Properties
begin

text \<open>
  What the watchdog tells over any number of sweeps, while the rest of the system changes the state in between, and
  what it makes of a loop that has lost a resume.
\<close>

section \<open>Runs of sweeps\<close>


definition said :: "(string \<Rightarrow> int option) \<Rightarrow> knobs \<Rightarrow> 'c sweep_input \<Rightarrow> 'o watched \<Rightarrow> string list" where
  "said secs k i w =
     (if \<not> kn_enabled k \<or> \<not> sw_load_ok i then []
      else case stall_verdict secs (snapshot_of secs k i w) of
        Quiet \<Rightarrow> [] | Stall _ \<Rightarrow> [''cycle_stalled''] | Escalate _ \<Rightarrow> [''cycle_stalled''] | Resumed \<Rightarrow> [''cycle_resumed''])"




text \<open>A small example: stamps are as late as they are long.\<close>

definition read_secs :: "string \<Rightarrow> int option" where
  "read_secs s = Some (int (length s))"

definition example_knobs :: knobs where
  "example_knobs = knobs_default\<lparr>kn_timeout_secs := 2, kn_escalate_secs := 5\<rparr>"

definition example_board :: "string \<Rightarrow> project_state" where
  "example_board at' = (board [sample_ticket ''F1'' Feature Ready])\<lparr>
     st_activity := [\<lparr>ac_at = at', ac_agent = ''SM'', ac_action = ''digest'', ac_ticket = None\<rparr>]\<rparr>"

definition example_watched :: "string \<Rightarrow> stall_episode option \<Rightarrow> spool watched" where
  "example_watched at' e = \<lparr>wt_state = example_board at', wt_spend_total = 0, wt_spend_today = 0, wt_liveness = e, wt_outbox = None\<rparr>"

definition example_sweep :: "string \<Rightarrow> unit sweep_input" where
  "example_sweep now = \<lparr>sw_handle = ry_handle (run_events late_resume (runner_start project_state_default)), sw_workers = [],
     sw_now = now, sw_unix = 0, sw_load_ok = True, sw_chat_ok = True, sw_save_ok = True, sw_mid = ''m''\<rparr>"

definition example_episode :: stall_episode where
  "example_episode = \<lparr>se_since = ''xxxx'', se_worker = ''none'', se_last_activity_at = ''x'', se_last_alert_at = ''xxxx'', se_escalations = 0\<rparr>"

lemmas example_defs = read_secs_def example_knobs_def knobs_default_def example_board_def example_watched_def example_sweep_def
  example_episode_def sample_ticket_def

text \<open>What is said is what goes to the outbox.\<close>

lemma said_enqueued:
  "map_option (\<lambda>o'. True) (wt_outbox w) = Some True \<Longrightarrow>
   \<exists>msgs. length msgs = length (said secs k i w)
     \<and> wt_outbox (liveness_pass port secs p k i w)
       = map_option (fold (\<lambda>(kind, m). op_enqueue port (pending kind p m (sw_unix i))) (zip (said secs k i w) msgs)) (wt_outbox w)"
proof -
  assume o: "map_option (\<lambda>o'. True) (wt_outbox w) = Some True"
  show ?thesis
  proof (cases "\<not> kn_enabled k \<or> \<not> sw_load_ok i")
    case True
    then show ?thesis using o by (auto simp: said_def liveness_pass_def keep_episode_def intro!: exI [of _ "[]"] split: if_splits)
  next
    case False
    then show ?thesis
      using o by (cases "stall_verdict secs (snapshot_of secs k i w)")
        (auto simp: said_def liveness_pass_def keep_episode_def raise_notice_def
          intro: exI [of _ "[]"] exI [of _ "[m]" for m])
  qed
qed

lemma pass_liveness:
  assumes "kn_enabled k" "sw_save_ok i"
  shows "wt_liveness (liveness_pass port secs p k i w) =
    (if sw_load_ok i then
       (case stall_verdict secs (snapshot_of secs k i w) of
          Quiet \<Rightarrow> wt_liveness w | Stall a \<Rightarrow> Some (al_episode a) | Escalate a \<Rightarrow> Some (al_episode a) | Resumed \<Rightarrow> None)
     else wt_liveness w)"
  using assms by (simp add: liveness_pass_def keep_episode_def raise_notice_def split: liveness_verdict.split)

lemma snapshot_open [simp]: "sv_open_stall (snapshot_of secs k i w) = wt_liveness w" "sv_now (snapshot_of secs k i w) = sw_now i"
  "sv_escalate_after_secs (snapshot_of secs k i w) = min I64_MAX (int (kn_escalate_secs k))"
  by (simp_all add: snapshot_of_def Let_def)












section \<open>A stall is raised\<close>

text \<open>The loop is meant to run, has work it could do, and its trail has been silent for longer than the threshold.\<close>

definition silent_too_long :: "(string \<Rightarrow> int option) \<Rightarrow> knobs \<Rightarrow> 'c sweep_input \<Rightarrow> 'o watched \<Rightarrow> bool" where
  "silent_too_long secs k i w \<longleftrightarrow>
     sn_mode (rh_status (sw_handle i)) = ''running'' \<and> \<not> is_paused (sw_handle i)
   \<and> (\<forall>cap. kn_budget_lifetime_usd k = Some cap \<longrightarrow> wt_spend_total w < cap)
   \<and> (\<forall>cap. kn_budget_daily_usd k = Some cap \<longrightarrow> wt_spend_today w < cap)
   \<and> (\<exists>t \<in> set (st_tickets (wt_state w)). tk_status t \<in> {Pending, Ready, InProgress, Open})
   \<and> (\<exists>a last_at now_at. st_activity (wt_state w) \<noteq> [] \<and> a = last (st_activity (wt_state w)) \<and> ac_action a \<noteq> QUOTA_PAUSE_LINE
        \<and> secs (ac_at a) = Some last_at \<and> secs (sw_now i) = Some now_at
        \<and> min I64_MAX (int (kn_timeout_secs k)) < now_at - last_at)"

lemma silent_snapshot:
  assumes "silent_too_long secs k i w" and v: "v = snapshot_of secs k i w"
  shows "sv_desired_run v \<and> \<not> sv_paused v \<and> \<not> sv_over_budget v \<and> \<not> sv_quota_exhausted v \<and> \<not> sv_backlog_empty v
    \<and> sv_activity v \<noteq> [] \<and> (\<exists>t0 t. secs (ac_at (last (sv_activity v))) = Some t0 \<and> secs (sv_now v) = Some t
      \<and> \<not> t - t0 \<le> sv_threshold_secs v)"
proof -
  note h = assms(1) [unfolded silent_too_long_def]
  have "\<not> sv_over_budget v" using h by (auto simp: v snapshot_of_def Let_def split: option.splits)
  moreover have "\<not> sv_backlog_empty v" using h by (simp add: v snapshot_of_def Let_def backlog_is_empty_def list_ex_iff)
  moreover have "sv_desired_run v" "\<not> sv_paused v" "\<not> sv_quota_exhausted v" "sv_activity v \<noteq> []"
    using h by (auto simp: v snapshot_of_def Let_def)
  moreover have "\<exists>t0 t. secs (ac_at (last (sv_activity v))) = Some t0 \<and> secs (sv_now v) = Some t \<and> \<not> t - t0 \<le> sv_threshold_secs v"
    using h by (fastforce simp: v snapshot_of_def Let_def)
  ultimately show ?thesis by blast
qed

lemma silent_verdict:
  assumes "silent_too_long secs k i w" "wt_liveness w = None"
  shows "\<exists>a. stall_verdict secs (snapshot_of secs k i w) = Stall a"
  using silent_snapshot [OF assms(1) refl] assms(2) by (auto simp: stall_verdict_def Let_def)

text \<open>
  The watchdog catches what the race of the handle loses: when a resume has been lost and the loop waits for ever, the
  first sweep that finds the trail silent past the threshold raises the alarm and opens an episode.
\<close>

theorem watchdog_sees_lost_resume:
  assumes "sw_handle i = ry_handle (run_events late_resume (runner_start s))"
    and "st_activity (wt_state w) \<noteq> []" "ac_action (last (st_activity (wt_state w))) \<noteq> QUOTA_PAUSE_LINE"
    and "secs (ac_at (last (st_activity (wt_state w)))) = Some t0" "secs (sw_now i) = Some t"
    and "min I64_MAX (int (kn_timeout_secs k)) < t - t0"
    and "\<exists>tk \<in> set (st_tickets (wt_state w)). tk_status tk \<in> {Pending, Ready, InProgress, Open}"
    and "kn_enabled k" "kn_budget_lifetime_usd k = None" "kn_budget_daily_usd k = None"
    and "wt_liveness w = None" "sw_load_ok i" "sw_save_ok i"
  shows "said secs k i w = [''cycle_stalled''] \<and> wt_liveness (liveness_pass port secs p k i w) \<noteq> None"
proof -
  have "sn_mode (rh_status (sw_handle i)) = ''running'' \<and> rh_mode (sw_handle i) = ModeRunning"
    unfolding assms(1)
    by (simp add: late_resume_def resume_ops_def runner_start_def handle_new_def status_defs do_op_def on_status_def)
  then have "silent_too_long secs k i w"
    using assms(2-10) by (simp add: silent_too_long_def is_paused_def)
  from silent_verdict [OF this assms(11)] obtain a where "stall_verdict secs (snapshot_of secs k i w) = Stall a" by blast
  then show ?thesis using assms(8,12,13) by (simp add: said_def pass_liveness)
qed

theorem watchdog_sees_lost_resume_witness:
  "wt_liveness (liveness_pass MemoryOutboxStore read_secs ''p'' example_knobs (example_sweep ''xxxx'') (example_watched ''x'' None)) \<noteq> None"
  by (rule watchdog_sees_lost_resume [where t = 4 and ?t0.0 = 1 and s = project_state_default, THEN conjunct2])
    (simp_all add: example_defs QUOTA_PAUSE_LINE_def I64_MAX_def)

text \<open>
  A second stall can go unnoticed: when activity has landed and stopped again between two sweeps, the open episode is
  not closed and no new one begins. The sweep says nothing although the trail has been silent past the threshold,
  and the episode still names the activity before the first stall.
\<close>

theorem second_stall_unnoticed:
  assumes "silent_too_long secs k i w" "wt_liveness w = Some ep"
    and "secs (se_last_alert_at ep) = Some a" "secs (sw_now i) = Some t" "t - a < min I64_MAX (int (kn_escalate_secs k))"
    and "kn_enabled k" "sw_save_ok i"
  shows "said secs k i w = [] \<and> wt_liveness (liveness_pass port secs p k i w) = Some ep"
proof -
  have "stall_verdict secs (snapshot_of secs k i w) = Quiet"
    using silent_snapshot [OF assms(1) refl] assms(2-5) by (auto simp: stall_verdict_def Let_def)
  then show ?thesis using assms(2,6,7) by (simp add: said_def pass_liveness)
qed

theorem second_stall_unnoticed_witness:
  "wt_liveness (liveness_pass MemoryOutboxStore read_secs ''p'' example_knobs (example_sweep ''xxxxxxxx'')
     (example_watched ''xxxxx'' (Some example_episode))) = Some example_episode"
proof (rule second_stall_unnoticed [where a = 4 and t = 8, THEN conjunct2])
  have "sn_mode (rh_status (sw_handle (example_sweep ''xxxxxxxx''))) = ''running'' \<and> \<not> is_paused (sw_handle (example_sweep ''xxxxxxxx''))"
    by (simp add: example_sweep_def late_resume_def resume_ops_def runner_start_def handle_new_def status_defs do_op_def
        on_status_def is_paused_def)
  then show "silent_too_long read_secs example_knobs (example_sweep ''xxxxxxxx'') (example_watched ''xxxxx'' (Some example_episode))"
    by (simp add: silent_too_long_def) (simp add: example_defs QUOTA_PAUSE_LINE_def I64_MAX_def)
qed (simp_all add: example_defs I64_MAX_def)

end
