(* ===== verification/Working_Hours.thy ===== *)
theory Working_Hours
  imports Prelude
begin

text \<open>
  The working hours an operator declares, \<open>application/src/working_hours.rs\<close>: the strict texts of offsets, times
  and weekdays, the check of a window at save, and the question whether an instant falls into one. The reading of an
  instant under an offset belongs to the \<open>time\<close> crate and is the argument \<open>wall\<close>: the weekday and the minute of the
  day. An offset is its minutes, a time its hour and minute, which is all the source makes of them.
\<close>

section \<open>Declarations\<close>

datatype weekday = Monday | Tuesday | Wednesday | Thursday | Friday | Saturday | Sunday

record wall_clock =
  ck_hour :: nat
  ck_minute :: nat

record working_window =
  ww_weekday :: weekday
  ww_start :: wall_clock
  ww_end :: wall_clock

record operator_working_hours =
  oh_tz_offset :: int
  oh_windows :: "working_window list"

datatype hours_error = TzInvalid | TzRange | TimeInvalid | TimeRange | WeekdayInvalid | WindowRangeError

definition minutes_of :: "wall_clock \<Rightarrow> nat" where
  "minutes_of t = ck_hour t * 60 + ck_minute t"

definition covers :: "working_window \<Rightarrow> weekday \<Rightarrow> nat \<Rightarrow> bool" where
  "covers w d m \<longleftrightarrow> ww_weekday w = d \<and> minutes_of (ww_start w) \<le> m \<and> m < minutes_of (ww_end w)"

text \<open>Times compare by hour, then minute.\<close>

definition window_try_from :: "working_window \<Rightarrow> hours_error + working_window" where
  "window_try_from raw =
     (let s = ww_start raw; e = ww_end raw in
      if ck_hour e < ck_hour s \<or> ck_hour e = ck_hour s \<and> ck_minute e \<le> ck_minute s
      then Inl WindowRangeError else Inr raw)"

section \<open>Decisions\<close>

definition pick_windows :: "working_window list \<Rightarrow> weekday \<times> nat \<Rightarrow> working_window list \<Rightarrow> working_window list" where
  "pick_windows ws l picked =
     fold (\<lambda>w acc. if covers w (fst l) (snd l) \<and> w \<notin> set acc then acc @ [w] else acc) ws picked"

definition resolve_windows ::
  "('i \<Rightarrow> int \<Rightarrow> weekday \<times> nat) \<Rightarrow> operator_working_hours \<Rightarrow> 'i \<Rightarrow> int list \<Rightarrow> working_window list" where
  "resolve_windows wall decl now candidates =
     fold (\<lambda>c picked. pick_windows (oh_windows decl) (wall now c) picked) candidates []"

definition is_actionable :: "('i \<Rightarrow> int \<Rightarrow> weekday \<times> nat) \<Rightarrow> operator_working_hours \<Rightarrow> 'i \<Rightarrow> bool" where
  "is_actionable wall decl now \<longleftrightarrow> resolve_windows wall decl now [oh_tz_offset decl] \<noteq> []"

section \<open>Texts\<close>

text \<open>
  A text with a sign outside ASCII has another length in bytes than in characters, and some of its bytes is no
  digit: it is refused either way.
\<close>

definition two_digits :: "string \<Rightarrow> nat option" where
  "two_digits s = (if length s = 2 \<and> list_all is_ascii_digit s
     then Some ((of_char (s ! 0) - 48) * 10 + (of_char (s ! 1) - 48)) else None)"

definition parse_tz :: "string \<Rightarrow> hours_error + int" where
  "parse_tz text =
     (if length text \<noteq> 6 \<or> text ! 3 \<noteq> CHR '':'' then Inl TzInvalid
      else if text ! 0 \<notin> {CHR ''+'', CHR ''-''} then Inl TzInvalid
      else case (two_digits (take 2 (drop 1 text)), two_digits (drop 4 text)) of
        (Some h, Some m) \<Rightarrow>
          if 23 < h \<or> 59 < m then Inl TzRange
          else Inr ((if text ! 0 = CHR ''+'' then 1 else - 1) * (int h * 60 + int m))
      | _ \<Rightarrow> Inl TzInvalid)"

definition digits2 :: "nat \<Rightarrow> string" where
  "digits2 n = pad_digits 2 (nat_str n)"

definition show_tz :: "int \<Rightarrow> string" where
  "show_tz minutes =
     (let m = nat (abs minutes) in
      (if minutes < 0 then ''-'' else ''+'') @ digits2 (m div 60) @ '':'' @ digits2 (m mod 60))"

definition parse_hhmm :: "string \<Rightarrow> hours_error + wall_clock" where
  "parse_hhmm text =
     (case split_once '':'' text of
        None \<Rightarrow> Inl TimeInvalid
      | Some (h, m) \<Rightarrow>
          if length h \<noteq> 2 \<or> length m \<noteq> 2 then Inl TimeInvalid
          else case (two_digits h, two_digits m) of
            (Some h, Some m) \<Rightarrow> if 24 \<le> h \<or> 60 \<le> m then Inl TimeRange else Inr \<lparr>ck_hour = h, ck_minute = m\<rparr>
          | _ \<Rightarrow> Inl TimeInvalid)"

definition show_hhmm :: "wall_clock \<Rightarrow> string" where
  "show_hhmm t = digits2 (ck_hour t) @ '':'' @ digits2 (ck_minute t)"

fun weekday_name :: "weekday \<Rightarrow> string" where
  "weekday_name Monday = ''monday''"
| "weekday_name Tuesday = ''tuesday''"
| "weekday_name Wednesday = ''wednesday''"
| "weekday_name Thursday = ''thursday''"
| "weekday_name Friday = ''friday''"
| "weekday_name Saturday = ''saturday''"
| "weekday_name Sunday = ''sunday''"

definition weekdays :: "weekday list" where
  "weekdays = [Monday, Tuesday, Wednesday, Thursday, Friday, Saturday, Sunday]"

definition parse_weekday :: "string \<Rightarrow> hours_error + weekday" where
  "parse_weekday text =
     (case find (\<lambda>d. weekday_name d = map ascii_lower (trim text)) weekdays of
        Some d \<Rightarrow> Inr d | None \<Rightarrow> Inl WeekdayInvalid)"

section \<open>Windows\<close>

lemma pick_windows_set: "set (pick_windows ws l picked) = set picked \<union> {w \<in> set ws. covers w (fst l) (snd l)}"
  by (induction ws arbitrary: picked) (auto simp: pick_windows_def)

lemma pick_windows_distinct: "distinct picked \<Longrightarrow> distinct (pick_windows ws l picked)"
  by (induction ws arbitrary: picked) (simp_all add: pick_windows_def)

lemma resolve_fold:
  "set (fold (\<lambda>c picked. pick_windows ws (wall now c) picked) cs picked)
     = set picked \<union> {w \<in> set ws. \<exists>c \<in> set cs. covers w (fst (wall now c)) (snd (wall now c))}"
  by (induction cs arbitrary: picked) (auto simp: pick_windows_set)

lemma resolve_distinct: "distinct picked \<Longrightarrow> distinct (fold (\<lambda>c picked. pick_windows ws (wall now c) picked) cs picked)"
  by (induction cs arbitrary: picked) (simp_all add: pick_windows_distinct)

text \<open>
  The resolver answers exactly the declared windows some candidate offset reads the instant into, each once; an operator
  is actionable exactly when their own offset reads it into one, and so never on a weekday they did not declare.
\<close>

theorem windows_exact:
  "set (resolve_windows wall decl now cs) = {w \<in> set (oh_windows decl). \<exists>c \<in> set cs. covers w (fst (wall now c)) (snd (wall now c))}
 \<and> distinct (resolve_windows wall decl now cs)
 \<and> (is_actionable wall decl now \<longleftrightarrow>
      (\<exists>w \<in> set (oh_windows decl). ww_weekday w = fst (wall now (oh_tz_offset decl))
         \<and> minutes_of (ww_start w) \<le> snd (wall now (oh_tz_offset decl)) \<and> snd (wall now (oh_tz_offset decl)) < minutes_of (ww_end w)))"
proof -
  have set: "set (resolve_windows wall decl now cs)
      = {w \<in> set (oh_windows decl). \<exists>c \<in> set cs. covers w (fst (wall now c)) (snd (wall now c))}" for cs
    using resolve_fold [of "oh_windows decl" wall now cs "[]"] by (simp add: resolve_windows_def)
  moreover have "distinct (resolve_windows wall decl now cs)" by (simp add: resolve_windows_def resolve_distinct)
  moreover have "is_actionable wall decl now \<longleftrightarrow> set (resolve_windows wall decl now [oh_tz_offset decl]) \<noteq> {}"
    by (simp add: is_actionable_def)
  ultimately show ?thesis by (auto simp: covers_def)
qed

text \<open>A saved window covers something: its end lies after its start.\<close>

lemma saved_window: "window_try_from raw = Inr w \<Longrightarrow> ck_minute (ww_start raw) < 60 \<Longrightarrow> w = raw \<and> minutes_of (ww_start w) < minutes_of (ww_end w)"
  by (auto simp: window_try_from_def minutes_of_def Let_def split: if_splits)

text \<open>
  Two candidate offsets can put one instant into two different windows, and the later window of the declaration may
  come first: the answer is then neither a single window nor in the order of the declaration.
\<close>

definition unix_wall :: "int \<Rightarrow> int \<Rightarrow> weekday \<times> nat" where
  "unix_wall now offset =
     (let m = now div 60 + offset in (weekdays ! nat ((m div 1440 + 3) mod 7), nat (m mod 1440)))"

definition split_shift :: operator_working_hours where
  "split_shift = \<lparr>oh_tz_offset = 60, oh_windows =
     [\<lparr>ww_weekday = Sunday, ww_start = \<lparr>ck_hour = 2, ck_minute = 0\<rparr>, ww_end = \<lparr>ck_hour = 3, ck_minute = 0\<rparr>\<rparr>,
      \<lparr>ww_weekday = Sunday, ww_start = \<lparr>ck_hour = 3, ck_minute = 0\<rparr>, ww_end = \<lparr>ck_hour = 4, ck_minute = 0\<rparr>\<rparr>]\<rparr>"

theorem boundary_in_two_windows:
  "resolve_windows unix_wall split_shift 1774746000 [60, 120] = oh_windows split_shift
 \<and> resolve_windows unix_wall split_shift 1774746000 [120, 60] = rev (oh_windows split_shift)
 \<and> length (oh_windows split_shift) = 2"
  by code_simp

section \<open>Round trips\<close>

lemma digits2_small: "n < 100 \<Longrightarrow> digits2 n = [char_of (48 + n div 10), char_of (48 + n mod 10)]"
proof -
  have zero: "CHR ''0'' = char_of (48 :: nat)" by code_simp
  assume "n < 100"
  moreover from this have "n div 10 < 10" by simp
  ultimately show ?thesis
    by (simp add: digits2_def pad_digits_def nat_str.simps [of n] nat_str.simps [of "n div 10"] zero)
qed

lemma two_digits_digits2: "n < 100 \<Longrightarrow> two_digits (digits2 n) = Some n"
proof -
  assume "n < 100"
  moreover from this have "n div 10 \<le> 9" "n mod 10 \<le> 9" by linarith+
  ultimately show ?thesis by (simp add: digits2_small two_digits_def is_ascii_digit_def)
qed

lemma digit_char: "is_ascii_digit c \<Longrightarrow> char_of (48 + ((of_char c :: nat) - 48)) = c \<and> (of_char c :: nat) - 48 < 10"
  by (auto simp: is_ascii_digit_def Let_def)

lemma two_digits_Some:
  assumes "two_digits s = Some n"
  shows "n < 100 \<and> digits2 n = s"
proof -
  obtain a b where s: "s = [a, b]" and d: "is_ascii_digit a" "is_ascii_digit b"
    and n: "n = (of_char a - 48) * 10 + (of_char b - 48)"
    using assms by (auto simp: two_digits_def length_Suc_conv numeral_2_eq_2 split: if_splits)
  let ?x = "(of_char a :: nat) - 48" and ?y = "(of_char b :: nat) - 48"
  have xy: "?x < 10" "?y < 10" using d digit_char by blast+
  then have "n div 10 = ?x" "n mod 10 = ?y" "n < 100" unfolding n by simp_all
  then show ?thesis using digits2_small [of n] digit_char [OF d(1)] digit_char [OF d(2)] s by simp
qed

lemma parse_show_tz:
  assumes "abs o' < 1440"
  shows "parse_tz (show_tz o') = Inr o'"
proof -
  let ?m = "nat (abs o')"
  let ?h = "?m div 60" and ?n = "?m mod 60" and ?sign = "if o' < 0 then CHR ''-'' else CHR ''+''"
  have h: "?h \<le> 23" "?n \<le> 59" using assms by linarith+
  then have lt: "?h < 100" "?n < 100" by linarith+
  have t: "show_tz o' = [?sign] @ digits2 ?h @ '':'' @ digits2 ?n" by (simp add: show_tz_def Let_def)
  have len: "length (digits2 ?h) = 2" "length (digits2 ?n) = 2" using digits2_small lt by simp_all
  then have "length (show_tz o') = 6" "show_tz o' ! 3 = CHR '':''" "show_tz o' ! 0 = ?sign"
    "take 2 (drop 1 (show_tz o')) = digits2 ?h" "drop 4 (show_tz o') = digits2 ?n"
    unfolding t by (simp_all add: nth_append)
  moreover have "int ?h * 60 + int ?n = int ?m"
    using arg_cong [OF div_mult_mod_eq [of ?m 60], of int] by (simp only: of_nat_add of_nat_mult of_nat_numeral)
  ultimately show ?thesis using h two_digits_digits2 [OF lt(1)] two_digits_digits2 [OF lt(2)] by (simp add: parse_tz_def)
qed

lemma show_parse_tz:
  assumes "parse_tz s = Inr o'"
  shows "show_tz o' = s \<or> s = ''-00:00''"
proof -
  obtain c h1 h2 k m1 m2 where s: "s = [c, h1, h2, k, m1, m2]" and k: "k = CHR '':''"
    using assms by (auto simp: parse_tz_def length_Suc_conv eval_nat_numeral split: if_splits)
  then obtain h m where h: "two_digits [h1, h2] = Some h" "two_digits [m1, m2] = Some m" "h \<le> 23" "m \<le> 59"
    and c: "c \<in> {CHR ''+'', CHR ''-''}" and o': "o' = (if c = CHR ''+'' then 1 else - 1) * (int h * 60 + int m)"
    using assms by (auto simp: parse_tz_def eval_nat_numeral split: if_splits option.splits)
  have d: "digits2 h = [h1, h2]" "digits2 m = [m1, m2]" using two_digits_Some h by blast+
  have abs: "nat (abs o') = h * 60 + m" using o' by (auto simp: abs_mult nat_add_distrib nat_mult_distrib)
  have dm: "(h * 60 + m) div 60 = h" "(h * 60 + m) mod 60 = m" using h(4) by simp_all
  show ?thesis
  proof (cases "c = CHR ''-'' \<and> h = 0 \<and> m = 0")
    case True
    have "digits2 0 = ''00''" by code_simp
    then show ?thesis using True d s k by auto
  next
    case False
    then have "(if o' < 0 then ''-'' else ''+'') = [c]" using c o' by auto
    moreover have "m mod 60 = m" using h(4) by simp
    ultimately show ?thesis using d s k by (simp add: show_tz_def Let_def abs dm)
  qed
qed

lemma parse_show_hhmm:
  assumes "ck_hour t < 24" "ck_minute t < 60"
  shows "parse_hhmm (show_hhmm t) = Inr t"
proof -
  have lt: "ck_hour t < 100" "ck_minute t < 100" using assms by linarith+
  obtain a b where ab: "digits2 (ck_hour t) = [a, b]" "a \<noteq> CHR '':''" "b \<noteq> CHR '':''"
  proof -
    have "ck_hour t div 10 \<le> 9" "ck_hour t mod 10 \<le> 9" using lt by linarith+
    then have "char_of (48 + ck_hour t div 10) \<noteq> CHR '':''" "char_of (48 + ck_hour t mod 10) \<noteq> CHR '':''"
      by (auto dest!: arg_cong [where f = "of_char :: char \<Rightarrow> nat"])
    then show ?thesis using that digits2_small [OF lt(1)] by blast
  qed
  have "split_once '':'' (show_hhmm t) = Some (digits2 (ck_hour t), digits2 (ck_minute t))"
    using ab by (simp add: show_hhmm_def split_once.simps starts_with_def)
  moreover have "length (digits2 (ck_hour t)) = 2" "length (digits2 (ck_minute t)) = 2" using digits2_small lt by simp_all
  ultimately show ?thesis using assms two_digits_digits2 [OF lt(1)] two_digits_digits2 [OF lt(2)] by (simp add: parse_hhmm_def)
qed

lemma show_parse_hhmm: "parse_hhmm s = Inr t \<Longrightarrow> show_hhmm t = s"
  by (auto simp: parse_hhmm_def show_hhmm_def split: option.splits if_splits dest!: split_once_Some two_digits_Some)

lemma parse_weekday_name: "parse_weekday (weekday_name d) = Inr d"
proof -
  have "list_all (\<lambda>d. parse_weekday (weekday_name d) = Inr d) weekdays" by code_simp
  moreover have "d \<in> set weekdays" by (cases d) (simp_all add: weekdays_def)
  ultimately show ?thesis by (simp only: list_all_iff)
qed

lemma parse_tz_sample: "parse_tz ''+02:00'' = Inr 120"
  by code_simp

text \<open>
  C37. What is saved reads back: every offset within a day, every time and every weekday is parsed from its own text, and a
  text that is accepted as a time or an offset is the canonical one, with one exception, the offset \<open>-00:00\<close>.
\<close>
theorem hours_roundtrip:
  "(abs o' < 1440 \<longrightarrow> parse_tz (show_tz o') = Inr o')
 \<and> (ck_hour t < 24 \<and> ck_minute t < 60 \<longrightarrow> parse_hhmm (show_hhmm t) = Inr t)
 \<and> parse_weekday (weekday_name d) = Inr d
 \<and> (parse_hhmm s = Inr t \<longrightarrow> show_hhmm t = s)
 \<and> (parse_tz s = Inr o' \<longrightarrow> show_tz o' = s \<or> s = ''-00:00'')"
  using parse_show_tz show_parse_tz parse_show_hhmm show_parse_hhmm parse_weekday_name by blast

theorem hours_roundtrip_witness: "parse_tz (show_tz (- 90)) = Inr (- 90) \<and> show_tz 120 = ''+02:00''"
  using hours_roundtrip [of "- 90" undefined undefined undefined] hours_roundtrip [of 120 undefined undefined "''+02:00''"]
    parse_tz_sample by simp

lemma minus_zero_accepted: "parse_tz ''-00:00'' = Inr 0 \<and> show_tz 0 = ''+00:00''"
  by code_simp

end
