(* ===== verification/Parsing.thy ===== *)
theory Parsing
  imports Merge_Policy
begin

text \<open>
  The shared parsing of agent replies and the similarity of titles (\<open>application/src/parsing.rs\<close>).
  \<open>serde_json\<close> is third-party code: whether a text is a JSON array and what an object or an array
  deserialises to are parameters. The slices of the program start and end at brackets, which are single
  bytes, so positions are counted in characters here. A Jaccard score is the exact quotient of two counts.
  The program rounds it to a double. A quotient of counts below \<open>2^50\<close> that is not three or four fifths
  differs from both bounds by more than the rounding, and at three and at four fifths the rounded quotient
  and the rounded bound compare as the exact ones: the comparisons come out the same.
\<close>

section \<open>Finding JSON in prose\<close>

definition find_char :: "char \<Rightarrow> string \<Rightarrow> nat option" where
  "find_char c s = find (\<lambda>i. s ! i = c) [0..<length s]"

definition rfind_char :: "char \<Rightarrow> string \<Rightarrow> nat option" where
  "rfind_char c s = find (\<lambda>i. s ! i = c) (rev [0..<length s])"

definition str_slice :: "string \<Rightarrow> nat \<Rightarrow> nat \<Rightarrow> string" where
  "str_slice s a b = take (Suc b - a) (drop a s)"

definition FENCE :: string where "FENCE = ''```''"

definition strip_code_fences :: "string \<Rightarrow> string" where
  "strip_code_fences raw =
     (let lines = str_lines raw in
      if length lines < 2 then raw
      else if starts_with (dropWhile is_white (hd lines)) FENCE \<and> ends_with (trim (last lines)) FENCE
      then join [CHR 0x0A] (butlast (tl lines))
      else raw)"

definition trim_trailing_prose :: "string \<Rightarrow> string" where
  "trim_trailing_prose s =
     (case (rfind_char (CHR '']'') s, rfind_char (CHR ''}'') s) of
        (Some ab, Some cb) \<Rightarrow> take (Suc (max ab cb)) s
      | (Some ab, None) \<Rightarrow> take (Suc ab) s
      | (None, Some cb) \<Rightarrow> take (Suc cb) s
      | (None, None) \<Rightarrow> s)"

definition first_valid_slice :: "(string \<Rightarrow> bool) \<Rightarrow> string \<Rightarrow> string option" where
  "first_valid_slice is_array s =
     (case find_char (CHR ''['') s of
        None \<Rightarrow> None
      | Some start \<Rightarrow>
          find is_array (map (str_slice s start) (filter (\<lambda>i. s ! i = CHR '']'' \<and> start < i) [0..<length s])))"

definition parse_items ::
  "(string \<Rightarrow> bool) \<Rightarrow> (string \<Rightarrow> string + 'i list) \<Rightarrow> string \<Rightarrow> string + 'i list" where
  "parse_items is_array items raw =
     (let stripped = strip_code_fences raw;
          usable = (\<lambda>body. if CHR ''['' \<in> set body \<and> CHR '']'' \<in> set body
                           then first_valid_slice is_array body else None)
      in case usable (trim_trailing_prose stripped) of
           Some candidate \<Rightarrow> items candidate
         | None \<Rightarrow> (case usable stripped of
             Some candidate \<Rightarrow> items candidate
           | None \<Rightarrow> Inl ''no JSON array found''))"

text \<open>The scan for objects; \<open>depth\<close> may go below zero.\<close>

fun scan_objects :: "string \<Rightarrow> nat \<Rightarrow> int \<Rightarrow> bool \<Rightarrow> bool \<Rightarrow> nat option \<Rightarrow> string \<Rightarrow> string list" where
  "scan_objects s i depth in_string escaped start [] = []"
| "scan_objects s i depth in_string escaped start (b # bs) =
     (if in_string then
        (if escaped then scan_objects s (Suc i) depth True False start bs
         else if b = CHR 0x5C then scan_objects s (Suc i) depth True True start bs
         else if b = CHR 0x22 then scan_objects s (Suc i) depth False False start bs
         else scan_objects s (Suc i) depth True False start bs)
      else if b = CHR 0x22 then scan_objects s (Suc i) depth True escaped start bs
      else if b = CHR ''{'' then
        scan_objects s (Suc i) (depth + 1) False escaped
          (if depth = 0 \<and> start = None then Some i else start) bs
      else if b = CHR ''}'' then
        (if depth - 1 = 0 then
           (case start of
              Some st \<Rightarrow> str_slice s st i # scan_objects s (Suc i) (depth - 1) False escaped None bs
            | None \<Rightarrow> scan_objects s (Suc i) (depth - 1) False escaped None bs)
         else scan_objects s (Suc i) (depth - 1) False escaped start bs)
      else scan_objects s (Suc i) depth False escaped start bs)"

definition top_level_objects :: "string \<Rightarrow> string list" where
  "top_level_objects s = scan_objects s 0 0 False False None s"

definition parse_items_lenient :: "(string \<Rightarrow> 'i option) \<Rightarrow> string \<Rightarrow> string + 'i list" where
  "parse_items_lenient item raw =
     (let valid = List.map_filter item (top_level_objects (strip_code_fences raw)) in
      if valid = [] then Inl ''no valid feature items found'' else Inr valid)"

definition parse_string_list :: "(string \<Rightarrow> string + string list) \<Rightarrow> string \<Rightarrow> string + string list" where
  "parse_string_list strings raw =
     (case find_char (CHR ''['') raw of
        None \<Rightarrow> Inl ''no JSON array found''
      | Some start \<Rightarrow> (case rfind_char (CHR '']'') raw of
          None \<Rightarrow> Inl ''no closing bracket''
        | Some ending \<Rightarrow>
            if ending < start then Inl ''malformed array bounds'' else strings (str_slice raw start ending)))"

text \<open>A complete document with bugs and verdicts first, the bare array of bugs otherwise.\<close>

definition parse_test_output ::
  "(string \<Rightarrow> ('i list \<times> 'v list) option) \<Rightarrow> (string \<Rightarrow> bool) \<Rightarrow> (string \<Rightarrow> string + 'i list)
   \<Rightarrow> string \<Rightarrow> string + 'i list \<times> 'v list" where
  "parse_test_output document is_array items raw =
     (let stripped = strip_code_fences raw;
          named = filter (\<lambda>obj. contains_str obj ([CHR 0x22] @ ''bugs'' @ [CHR 0x22])
                              \<or> contains_str obj ([CHR 0x22] @ ''verdicts'' @ [CHR 0x22]))
                    (top_level_objects stripped)
      in case List.map_filter document named of
           out # _ \<Rightarrow> Inr out
         | [] \<Rightarrow> (case parse_items is_array items stripped of
             Inl e \<Rightarrow> Inl e
           | Inr bugs \<Rightarrow> Inr (bugs, [])))"

section \<open>Titles\<close>

text \<open>The loop of \<open>normalize_title\<close>: the text so far and whether it ends in a space just pushed.\<close>

definition push_title :: "char \<Rightarrow> string \<times> bool \<Rightarrow> string \<times> bool" where
  "push_title c acc =
     (if is_ascii_alphanumeric c then (fst acc @ [ascii_lower c], False)
      else if \<not> snd acc \<and> fst acc \<noteq> [] then (fst acc @ '' '', True)
      else acc)"

definition normalize_title :: "string \<Rightarrow> string" where
  "normalize_title title = trim (fst (fold push_title title ([], False)))"

definition STOP :: "string list" where
  "STOP = [''the'', ''and'', ''for'', ''with'', ''a'', ''an'', ''of'', ''to'', ''in'', ''on'', ''per'', ''via'',
     ''your'', ''our'', ''support'', ''feature'', ''add'', ''enable'']"

definition title_tokens :: "string \<Rightarrow> string set" where
  "title_tokens title =
     set (filter (\<lambda>w. byte_len w > 2 \<and> w \<notin> set STOP) (split_on (\<lambda>c. c = CHR '' '') (normalize_title title)))"

definition jaccard :: "string set \<Rightarrow> string set \<Rightarrow> rat" where
  "jaccard a b =
     (if a = {} \<or> b = {} then 0
      else if card (a \<union> b) = 0 then 0
      else of_nat (card (a \<inter> b)) / of_nat (card (a \<union> b)))"

definition is_backlog_meta :: "string \<Rightarrow> bool" where
  "is_backlog_meta title =
     (let t = normalize_title title in
      list_ex (contains_str t) [''triage'', ''burndown'', ''burn down'', ''stabiliz'', ''grooming'']
      \<and> list_ex (contains_str t) [''bug'', ''backlog'', ''sprint''])"

definition DUPLICATE_JACCARD_THRESHOLD :: rat where "DUPLICATE_JACCARD_THRESHOLD = 3 / 5"

definition SAME_TAG_MAX_DISSIMILARITY :: rat where "SAME_TAG_MAX_DISSIMILARITY = 1 / 5"

definition duplicates_existing :: "string \<Rightarrow> string list \<Rightarrow> bool" where
  "duplicates_existing title existing =
     (let norm = normalize_title title in
      if norm = [] then True
      else list_ex (\<lambda>e. normalize_title e = norm \<or> (is_backlog_meta title \<and> is_backlog_meta e)
                     \<or> jaccard (title_tokens title) (title_tokens e) \<ge> DUPLICATE_JACCARD_THRESHOLD) existing)"

section \<open>Objects in a reply\<close>

text \<open>
  The grammar of what the scan sees as one object: quoted strings with escapes, plain characters and braces
  that pair up. A \<open>flat\<close> text has strings and characters but no braces.
\<close>

inductive str_body :: "string \<Rightarrow> bool" where
  str_nil: "str_body []"
| str_char: "c \<noteq> CHR 0x22 \<Longrightarrow> c \<noteq> CHR 0x5C \<Longrightarrow> str_body b \<Longrightarrow> str_body (c # b)"
| str_esc: "str_body b \<Longrightarrow> str_body (CHR 0x5C # c # b)"

inductive flat :: "string \<Rightarrow> bool" where
  flat_nil: "flat []"
| flat_char: "c \<notin> {CHR 0x22, CHR ''{'', CHR ''}''} \<Longrightarrow> flat r \<Longrightarrow> flat (c # r)"
| flat_str: "str_body b \<Longrightarrow> flat r \<Longrightarrow> flat (CHR 0x22 # b @ CHR 0x22 # r)"

inductive balanced :: "string \<Rightarrow> bool" where
  bal_nil: "balanced []"
| bal_char: "c \<notin> {CHR 0x22, CHR ''{'', CHR ''}''} \<Longrightarrow> balanced r \<Longrightarrow> balanced (c # r)"
| bal_str: "str_body b \<Longrightarrow> balanced r \<Longrightarrow> balanced (CHR 0x22 # b @ CHR 0x22 # r)"
| bal_obj: "balanced a \<Longrightarrow> balanced r \<Longrightarrow> balanced (CHR ''{'' # a @ CHR ''}'' # r)"

definition braced :: "string \<Rightarrow> string" where
  "braced a = CHR ''{'' # a @ [CHR ''}'']"

text \<open>A reply: objects with flat text before each, and flat text at the end.\<close>

definition reply_text :: "(string \<times> string) list \<Rightarrow> string \<Rightarrow> string" where
  "reply_text ps ending = concat (map (\<lambda>(gap, a). gap @ braced a) ps) @ ending"

lemma scan_string:
  "str_body b \<Longrightarrow>
   scan_objects s i d True False st (b @ CHR 0x22 # r) = scan_objects s (i + length b + 1) d False False st r"
  by (induction arbitrary: i rule: str_body.induct) auto

lemma scan_flat:
  "flat g \<Longrightarrow> scan_objects s i d False False st (g @ r) = scan_objects s (i + length g) d False False st r"
  by (induction arbitrary: i rule: flat.induct) (auto simp: scan_string add.assoc)

lemma scan_balanced:
  "balanced a \<Longrightarrow> 1 \<le> d \<Longrightarrow>
   scan_objects s i d False False (Some st) (a @ r) = scan_objects s (i + length a) d False False (Some st) r"
  by (induction arbitrary: i d r rule: balanced.induct) (auto simp: scan_string add.assoc)

lemma str_slice_middle: "str_slice (p @ m @ r) (length p) (length p + length m - 1) = m" if "m \<noteq> []"
  using that by (cases m) (auto simp: str_slice_def)

lemma scan_braced:
  assumes "balanced a"
  shows "scan_objects (p @ braced a @ r) (length p) 0 False False None (braced a @ r)
         = braced a # scan_objects (p @ braced a @ r) (length (p @ braced a)) 0 False False None r"
proof -
  have "scan_objects (p @ braced a @ r) (Suc (length p)) 1 False False (Some (length p)) (a @ CHR ''}'' # r)
        = scan_objects (p @ braced a @ r) (Suc (length p) + length a) 1 False False (Some (length p)) (CHR ''}'' # r)"
    using assms by (rule scan_balanced) simp
  moreover have "str_slice (p @ braced a @ r) (length p) (Suc (length p) + length a) = braced a"
    using str_slice_middle [of "braced a" p r] by (simp add: braced_def)
  ultimately show ?thesis by (simp add: braced_def)
qed

lemma scan_reply:
  assumes "list_all (\<lambda>(g, a). flat g \<and> balanced a) ps" and "flat ending"
  shows "scan_objects (p @ reply_text ps ending) (length p) 0 False False None (reply_text ps ending)
         = map (braced \<circ> snd) ps"
  using assms(1)
proof (induction ps arbitrary: p)
  case Nil
  from scan_flat [OF assms(2), of _ _ _ _ "[]"] show ?case by (simp add: reply_text_def)
next
  case (Cons x ps)
  obtain g a where x: "x = (g, a)" by (cases x)
  let ?rest = "reply_text ps ending" and ?s = "p @ reply_text (x # ps) ending"
  have t: "reply_text (x # ps) ending = g @ braced a @ ?rest" by (simp add: x reply_text_def)
  have g: "flat g" and a: "balanced a" using Cons.prems by (simp_all add: x)
  have "scan_objects ?s (length p) 0 False False None (reply_text (x # ps) ending)
        = scan_objects ((p @ g) @ braced a @ ?rest) (length (p @ g)) 0 False False None (braced a @ ?rest)"
    using scan_flat [OF g, of ?s "length p" 0 None "braced a @ ?rest"] by (simp add: t)
  also have "\<dots> = braced a # scan_objects ((p @ g @ braced a) @ ?rest) (length (p @ g @ braced a)) 0 False False None ?rest"
    using scan_braced [OF a, of "p @ g" ?rest] by simp
  also have "\<dots> = braced a # map (braced \<circ> snd) ps"
    using Cons.IH [of "p @ g @ braced a"] Cons.prems by simp
  finally show ?case by (simp add: x)
qed

lemma top_level_exact:
  assumes "list_all (\<lambda>(g, a). flat g \<and> balanced a) ps" and "flat ending"
  shows "top_level_objects (reply_text ps ending) = map (braced \<circ> snd) ps"
  using scan_reply [OF assms, of "[]"] by (simp add: top_level_objects_def)

text \<open>Below depth zero an object without another inside is passed over.\<close>

lemma scan_below:
  assumes "list_all (\<lambda>(g, a). flat g \<and> flat a) ps" and "flat ending"
  shows "scan_objects s i (- 1) False False None (reply_text ps ending) = []"
  using assms(1)
proof (induction ps arbitrary: i)
  case Nil
  from scan_flat [OF assms(2), of _ _ _ _ "[]"] show ?case by (simp add: reply_text_def)
next
  case (Cons x ps)
  obtain g a where x: "x = (g, a)" by (cases x)
  let ?rest = "reply_text ps ending"
  have t: "reply_text (x # ps) ending = g @ CHR ''{'' # a @ CHR ''}'' # ?rest" by (simp add: x reply_text_def braced_def)
  have g: "flat g" and a: "flat a" using Cons.prems by (simp_all add: x)
  show ?case using Cons by (simp add: t scan_flat [OF g] scan_flat [OF a])
qed

section \<open>Titles\<close>

lemma ascii_lower_not_white: "is_ascii_alphanumeric c \<Longrightarrow> \<not> is_white (ascii_lower c)"
  by (auto simp: is_ascii_alphanumeric_def ascii_lower_def is_white_def Let_def)

lemma push_title_letters:
  "filter (\<lambda>c. \<not> is_white c) (fst (fold push_title t acc))
   = filter (\<lambda>c. \<not> is_white c) (fst acc) @ map ascii_lower (filter is_ascii_alphanumeric t)"
proof (induction t arbitrary: acc)
  case (Cons c t)
  have "is_white CHR '' ''" by code_simp
  then have "filter (\<lambda>c. \<not> is_white c) (fst (push_title c acc))
        = filter (\<lambda>c. \<not> is_white c) (fst acc) @ (if is_ascii_alphanumeric c then [ascii_lower c] else [])"
    by (simp add: push_title_def ascii_lower_not_white)
  with Cons show ?case by simp
qed simp

lemma normalize_title_Nil: "normalize_title t = [] \<longleftrightarrow> (\<forall>c \<in> set t. \<not> is_ascii_alphanumeric c)"
proof -
  let ?s = "fst (fold push_title t ([], False))"
  have "normalize_title t = [] \<longleftrightarrow> filter (\<lambda>c. \<not> is_white c) ?s = []"
    using is_blank_iff_all_white [of ?s] by (simp add: normalize_title_def is_blank_def filter_empty_conv)
  also have "\<dots> \<longleftrightarrow> filter is_ascii_alphanumeric t = []" by (simp add: push_title_letters)
  finally show ?thesis by (simp add: filter_empty_conv)
qed

lemma jaccard_bounds: "0 \<le> jaccard a b \<and> jaccard a b \<le> 1"
proof (cases "finite (a \<union> b)")
  case True
  then have "card (a \<inter> b) \<le> card (a \<union> b)" by (intro card_mono) auto
  then show ?thesis by (auto simp: jaccard_def divide_le_eq_1)
next
  case False
  then show ?thesis by (simp add: jaccard_def)
qed

lemma jaccard_commute: "jaccard a b = jaccard b a"
  by (simp add: jaccard_def Int_commute Un_commute)

lemma jaccard_self: "finite a \<Longrightarrow> a \<noteq> {} \<Longrightarrow> jaccard a a = 1"
  by (simp add: jaccard_def)

lemma duplicates_mono:
  "duplicates_existing t es \<Longrightarrow> set es \<subseteq> set fs \<Longrightarrow> duplicates_existing t fs"
  by (auto simp: duplicates_existing_def Let_def list_ex_iff split: if_splits)

lemma duplicates_same_title: "normalize_title e = normalize_title t \<Longrightarrow> e \<in> set es \<Longrightarrow> duplicates_existing t es"
  by (auto simp: duplicates_existing_def Let_def list_ex_iff)

end
