(* ===== verification/Intake.thy ===== *)
theory Intake
  imports Parsing State_Store Governance Dependency_Graph
begin

text \<open>
  The one creation path of tickets: \<open>AddTicketUseCase\<close> and \<open>mint_id\<close>
  (\<open>application/src/use_cases/add_ticket.rs\<close>). A duplicate of an active or of a rejected title is refused, a
  declared goal must be one of the project's and active, the id is the next number of the kind's prefix, and the
  whole backlog is validated before it is saved. The lemmas show that the number is fresh, that intake keeps the
  backlog valid and that the refusals are exactly the two gates.

  The state the use case reads is the project state with its alias and its goals. Numbers are \<open>u64\<close>: the
  successor of the largest wraps around in a release build.
\<close>

section \<open>Operations\<close>

datatype app_error = DomainErr domain_error | PortErr port_error

record add_input =
  ai_kind :: ticket_type
  ai_title :: string
  ai_description :: string
  ai_priority :: priority
  ai_complexity :: complexity
  ai_has_ui :: bool
  ai_acceptance_criteria :: "string list"
  ai_goal :: "goal_id option"
  ai_service_tag :: "string option"

record intake_state =
  is_state :: project_state
  is_alias :: string
  is_goals :: "goal list"

definition type_code :: "ticket_type \<Rightarrow> string" where
  "type_code k = (case k of Feature \<Rightarrow> ''F'' | Bug \<Rightarrow> ''B'' | Chore \<Rightarrow> ''C'')"

definition id_prefix :: "ticket_type \<Rightarrow> string \<Rightarrow> string" where
  "id_prefix k ali = (if ali = [] then type_code k else ali @ ''-'' @ type_code k)"

definition id_numbers :: "string \<Rightarrow> ticket list \<Rightarrow> nat list" where
  "id_numbers pfx ts =
     List.map_filter
       (\<lambda>t. Option.bind (strip_prefix pfx (ticket_id_str (tk_id t))) (parse_uint U64_MAX)) ts"

definition mint_id :: "ticket_type \<Rightarrow> string \<Rightarrow> ticket list \<Rightarrow> domain_error + ticket_id" where
  "mint_id k ali ts =
     (let pfx = id_prefix k ali;
          nxt = (fold max (id_numbers pfx ts) 0 + 1) mod 2 ^ 64
      in ticket_id_new (pfx @ pad_digits 3 (nat_str nxt)))"

definition DUPLICATE_REFUSED :: string where "DUPLICATE_REFUSED = ''duplicate ticket refused''"

definition off_board :: "status \<Rightarrow> bool" where
  "off_board st \<longleftrightarrow> st \<in> {Done, Documented, Rejected, Verified}"

definition active_titles :: "ticket list \<Rightarrow> string list" where
  "active_titles ts = map tk_title (filter (\<lambda>t. \<not> off_board (tk_status t)) ts)"

definition rejected_titles :: "ticket list \<Rightarrow> string list" where
  "rejected_titles ts = map tk_title (filter (\<lambda>t. tk_status t = Rejected) ts)"

definition dquoted :: "string \<Rightarrow> string" where
  "dquoted s = [CHR 0x22] @ s @ [CHR 0x22]"

definition dup_active_msg :: "string \<Rightarrow> string" where
  "dup_active_msg title =
     DUPLICATE_REFUSED @ '': '' @ dquoted title @ '' matches an open ticket (same theme already tracked)''"

text \<open>The dash of the message stands for a sign outside the character range.\<close>

definition dup_rejected_msg :: "string \<Rightarrow> string" where
  "dup_rejected_msg title =
     DUPLICATE_REFUSED @ '': '' @ dquoted title
       @ '' matches a REJECTED ticket - a human already said no to this theme; do not refile it''"

definition goal_gate :: "goal list \<Rightarrow> goal_id option \<Rightarrow> string + unit" where
  "goal_gate goals wanted =
     (case wanted of
        None \<Rightarrow> Inr ()
      | Some i \<Rightarrow> (case find (\<lambda>g. gl_id g = i) goals of
          None \<Rightarrow> Inl (''ticket refused: declared goal '' @ goal_id_str i
                       @ '' is not one of this project's stated goals'')
        | Some g \<Rightarrow>
            if \<not> goal_is_active g
            then Inl (''ticket refused: goal '' @ goal_id_str i @ '' ('' @ gl_title g
                      @ '') is retired - its gate is closed to new work'')
            else Inr ()))"

text \<open>The ticket that a valid input becomes; the setters act as the machine and cannot be refused.\<close>

definition drafted :: "string \<Rightarrow> ticket_id \<Rightarrow> add_input \<Rightarrow> domain_error + ticket" where
  "drafted now i inp =
     (case ticket_new i (ai_kind inp) (ai_title inp) (ai_description inp) (ai_priority inp) (ai_complexity inp)
             (ai_has_ui inp) of
        Inl e \<Rightarrow> Inl e
      | Inr t \<Rightarrow>
          let t1 = set_acceptance_criteria (ai_acceptance_criteria inp) (stamp_created_at now t) in
          case (case ai_goal inp of None \<Rightarrow> (Inr (), t1) | Some g \<Rightarrow> set_goal_id System g t1) of
            (Inl e, _) \<Rightarrow> Inl e
          | (Inr _, t2) \<Rightarrow>
              (case (case ai_service_tag inp of None \<Rightarrow> (Inr (), t2) | Some tag \<Rightarrow> set_service_tag System tag t2) of
                 (Inl e, _) \<Rightarrow> Inl e
               | (Inr _, t3) \<Rightarrow> Inr t3))"

definition add_ticket :: "string \<Rightarrow> add_input \<Rightarrow> intake_state \<Rightarrow> app_error + ticket_id \<times> intake_state" where
  "add_ticket now inp st =
     (let s = is_state st; ts = st_tickets s in
      if duplicates_existing (ai_title inp) (active_titles ts)
      then Inl (PortErr (Backend (dup_active_msg (ai_title inp))))
      else if duplicates_existing (ai_title inp) (rejected_titles ts)
      then Inl (PortErr (Backend (dup_rejected_msg (ai_title inp))))
      else case goal_gate (is_goals st) (ai_goal inp) of
        Inl m \<Rightarrow> Inl (PortErr (Backend m))
      | Inr _ \<Rightarrow> (case mint_id (ai_kind inp) (is_alias st) ts of
          Inl e \<Rightarrow> Inl (DomainErr e)
        | Inr i \<Rightarrow> (case drafted now i inp of
            Inl e \<Rightarrow> Inl (DomainErr e)
          | Inr t \<Rightarrow>
              let s' = s\<lparr>st_tickets := ts @ [t]\<rparr> in
              case validate s' of
                Inl m \<Rightarrow> Inl (PortErr (CorruptState m))
              | Inr _ \<Rightarrow> Inr (i, st\<lparr>is_state := s'\<rparr>))))"

text \<open>The whole call: what the store loads and what it answers to the save are arguments.\<close>

definition add_ticket_execute ::
  "string \<Rightarrow> add_input \<Rightarrow> port_error + intake_state \<Rightarrow> (intake_state \<Rightarrow> port_error option)
   \<Rightarrow> (app_error + ticket_id) \<times> intake_state option" where
  "add_ticket_execute now inp loaded saving =
     (case loaded of
        Inl e \<Rightarrow> (Inl (PortErr e), None)
      | Inr st \<Rightarrow> (case add_ticket now inp st of
          Inl e \<Rightarrow> (Inl e, None)
        | Inr (i, st') \<Rightarrow> (case saving st' of
            Some e \<Rightarrow> (Inl (PortErr e), None)
          | None \<Rightarrow> (Inr i, Some st'))))"

section \<open>Minted ids\<close>

lemma fold_max_ge: "(a :: nat) \<le> fold max xs a \<and> (\<forall>x \<in> set xs. x \<le> fold max xs a)"
proof (induction xs arbitrary: a)
  case (Cons x xs)
  from Cons.IH [of "max x a"] show ?case by auto
qed simp

lemma fold_max_bound: "(a :: nat) < m \<Longrightarrow> \<forall>x \<in> set xs. x < m \<Longrightarrow> fold max xs a < m"
  by (induction xs arbitrary: a) auto

lemma id_prefix_ne: "id_prefix k ali \<noteq> [] \<and> \<not> is_blank (id_prefix k ali)"
proof -
  have "\<exists>c \<in> set (type_code k). \<not> is_white c"
    by (cases k) (simp_all add: type_code_def is_white_def)
  then show ?thesis by (auto simp: id_prefix_def is_blank_iff_all_white)
qed

lemma id_numbers_mem:
  "t \<in> set ts \<Longrightarrow> ticket_id_str (tk_id t) = pfx @ d \<Longrightarrow> parse_uint U64_MAX d = Some n \<Longrightarrow> n \<in> set (id_numbers pfx ts)"
  by (force simp: id_numbers_def List.map_filter_def strip_prefix_Some [THEN iffD2])

definition numbers_fit :: "ticket_type \<Rightarrow> string \<Rightarrow> ticket list \<Rightarrow> bool" where
  "numbers_fit k ali ts \<longleftrightarrow> list_all (\<lambda>n. n < U64_MAX) (id_numbers (id_prefix k ali) ts)"

lemma mint_id_succ:
  assumes "numbers_fit k ali ts"
  shows "mint_id k ali ts
     = Inr (TicketId (id_prefix k ali @ pad_digits 3 (nat_str (fold max (id_numbers (id_prefix k ali) ts) 0 + 1))))
   \<and> fold max (id_numbers (id_prefix k ali) ts) 0 < U64_MAX"
proof -
  let ?p = "id_prefix k ali"
  let ?m = "fold max (id_numbers ?p ts) 0"
  have lt: "?m < U64_MAX"
    using assms by (intro fold_max_bound) (auto simp: numbers_fit_def list_all_iff U64_MAX_def)
  then have n: "(?m + 1) mod 2 ^ 64 = ?m + 1" by (simp add: U64_MAX_def)
  have "mint_id k ali ts = Inr (TicketId (?p @ pad_digits 3 (nat_str (?m + 1))))"
    using id_prefix_ne [of k ali] unfolding mint_id_def Let_def n
    by (auto simp: ticket_id_new_def is_blank_iff_all_white)
  with lt show ?thesis by simp
qed

lemma mint_id_next:
  assumes "numbers_fit k ali ts"
  shows "\<exists>n. mint_id k ali ts = Inr (TicketId (id_prefix k ali @ pad_digits 3 (nat_str n)))
     \<and> n \<le> U64_MAX \<and> 0 < n \<and> (\<forall>m \<in> set (id_numbers (id_prefix k ali) ts). m < n)"
  using mint_id_succ [OF assms] fold_max_ge [of 0 "id_numbers (id_prefix k ali) ts"]
  by (intro exI [of _ "fold max (id_numbers (id_prefix k ali) ts) 0 + 1"]) auto

lemma mint_id_fresh:
  assumes "numbers_fit k ali ts" and "mint_id k ali ts = Inr i"
  shows "i \<notin> tk_id ` set ts"
proof
  assume "i \<in> tk_id ` set ts"
  then obtain t where t: "t \<in> set ts" "tk_id t = i" by auto
  obtain n where n: "i = TicketId (id_prefix k ali @ pad_digits 3 (nat_str n))" "n \<le> U64_MAX"
      "\<forall>m \<in> set (id_numbers (id_prefix k ali) ts). m < n"
    using mint_id_next [OF assms(1)] assms(2) by auto
  have "n \<in> set (id_numbers (id_prefix k ali) ts)"
    using t n by (intro id_numbers_mem [where d = "pad_digits 3 (nat_str n)"]) (auto simp: parse_uint_printed)
  with n(3) show False by blast
qed

section \<open>A fresh ticket keeps the backlog valid\<close>

lemma ticket_push:
  "tk_id t \<notin> tk_id ` set (st_tickets s) \<Longrightarrow>
   ticket (s\<lparr>st_tickets := st_tickets s @ [t]\<rparr>) i = (if i = tk_id t then Some t else ticket s i)"
proof -
  assume "tk_id t \<notin> tk_id ` set (st_tickets s)"
  then have "find (\<lambda>u. tk_id u = tk_id t) (st_tickets s) = None"
    by (simp add: find_None_all) (metis image_eqI)
  moreover have "find p (xs @ [t]) = (case find p xs of None \<Rightarrow> if p t then Some t else None | r \<Rightarrow> r)" for p xs
    by (induction xs) auto
  ultimately show ?thesis by (auto simp: ticket_def split: option.split)
qed

lemma edge_push:
  "tk_id t \<notin> tk_id ` set (st_tickets s) \<Longrightarrow>
   edge (s\<lparr>st_tickets := st_tickets s @ [t]\<rparr>) a b \<longleftrightarrow>
     (if a = tk_id t then b \<in> set (tk_depends_on t) else edge s a b)"
  by (simp add: edge_def deps_def ticket_push)

lemma backlog_ok_push:
  assumes ok: "backlog_ok s" and fresh: "tk_id t \<notin> tk_id ` set (st_tickets s)"
    and deps: "set (tk_depends_on t) \<subseteq> tk_id ` set (st_tickets s)"
  shows "backlog_ok (s\<lparr>st_tickets := st_tickets s @ [t]\<rparr>)"
proof -
  let ?s = "s\<lparr>st_tickets := st_tickets s @ [t]\<rparr>"
  have known: "d \<in> tk_id ` set (st_tickets s)" if "edge s a d" for a d
  proof -
    from that obtain u where "ticket s a = Some u" "d \<in> set (tk_depends_on u)"
      by (cases "ticket s a") (simp_all add: edge_def deps_def)
    with ok show ?thesis by (auto simp: backlog_ok_def dest!: ticket_Some)
  qed
  have into: "b \<noteq> tk_id t" if "edge ?s a b" for a b
    using that known fresh deps by (auto simp: edge_push [OF fresh] split: if_splits)
  have path: "(edge s)\<^sup>+\<^sup>+ a b" if "(edge ?s)\<^sup>+\<^sup>+ a b" "a \<noteq> tk_id t" for a b
    using that
  proof (induction rule: tranclp_induct)
    case (base b)
    then show ?case by (auto simp: edge_push [OF fresh])
  next
    case (step b c)
    have "b \<noteq> tk_id t" using step.hyps(1) into by (induction rule: tranclp_induct) auto
    with step show ?case by (auto simp: edge_push [OF fresh] intro: tranclp.trancl_into_trancl)
  qed
  have "\<not> (edge ?s)\<^sup>+\<^sup>+ x x" for x
  proof
    assume cyc: "(edge ?s)\<^sup>+\<^sup>+ x x"
    then have "x \<noteq> tk_id t" by (cases rule: tranclp.cases) (auto dest: into)
    with path [OF cyc] ok show False by (auto simp: backlog_ok_def acyclic_def tranclp_unfold)
  qed
  then have "acyclicP (edge ?s)" by (simp add: acyclic_def tranclp_unfold)
  with ok fresh deps show ?thesis by (auto simp: backlog_ok_def)
qed

section \<open>The creation path\<close>

lemma drafted_Inr:
  assumes "\<not> is_blank (ai_title inp)"
  shows "\<exists>t. drafted now i inp = Inr t \<and> tk_id t = i \<and> tk_kind t = ai_kind inp \<and> tk_title t = ai_title inp
    \<and> tk_status t = initial_status (ai_kind inp) \<and> tk_depends_on t = [] \<and> tk_goal_id t = ai_goal inp
    \<and> tk_claimed_by t = None \<and> length (tk_acceptance_criteria t) \<le> 5"
  using assms
  by (cases "ai_goal inp"; cases "ai_service_tag inp"; cases "ai_kind inp";
      simp add: drafted_def ticket_new_def set_goal_id_def set_service_tag_def set_acceptance_criteria_def
        stamp_created_at_def initial_status_def Let_def)

lemma not_duplicate_not_blank: "\<not> duplicates_existing title es \<Longrightarrow> \<not> is_blank title"
proof -
  assume "\<not> duplicates_existing title es"
  then have "normalize_title title \<noteq> []" by (auto simp: duplicates_existing_def)
  then obtain c where "c \<in> set title" "is_ascii_alphanumeric c" by (auto simp: normalize_title_Nil)
  moreover from this(2) have "\<not> is_white c" by (auto simp: is_ascii_alphanumeric_def is_white_def Let_def)
  ultimately show ?thesis by (auto simp: is_blank_iff_all_white)
qed

definition admitted :: "add_input \<Rightarrow> intake_state \<Rightarrow> bool" where
  "admitted inp st \<longleftrightarrow>
     \<not> duplicates_existing (ai_title inp) (active_titles (st_tickets (is_state st)))
     \<and> \<not> duplicates_existing (ai_title inp) (rejected_titles (st_tickets (is_state st)))
     \<and> goal_gate (is_goals st) (ai_goal inp) = Inr ()"

lemma goal_gate_ok:
  "goal_gate goals w = Inr () \<longleftrightarrow>
     (case w of None \<Rightarrow> True | Some i \<Rightarrow> (case find (\<lambda>g. gl_id g = i) goals of None \<Rightarrow> False | Some g \<Rightarrow> goal_is_active g))"
  by (auto simp: goal_gate_def split: option.split)

lemma add_ticket_admitted:
  assumes ok: "backlog_ok (is_state st)" and fit: "numbers_fit (ai_kind inp) (is_alias st) (st_tickets (is_state st))"
    and adm: "admitted inp st"
  shows "\<exists>i t. add_ticket now inp st
        = Inr (i, st\<lparr>is_state := (is_state st)\<lparr>st_tickets := st_tickets (is_state st) @ [t]\<rparr>\<rparr>)
     \<and> drafted now i inp = Inr t \<and> tk_id t = i \<and> i \<notin> tk_id ` set (st_tickets (is_state st))
     \<and> tk_status t = initial_status (ai_kind inp) \<and> tk_title t = ai_title inp
     \<and> backlog_ok ((is_state st)\<lparr>st_tickets := st_tickets (is_state st) @ [t]\<rparr>)"
proof -
  let ?s = "is_state st"
  obtain i where i: "mint_id (ai_kind inp) (is_alias st) (st_tickets ?s) = Inr i"
    using mint_id_next [OF fit] by auto
  have fresh: "i \<notin> tk_id ` set (st_tickets ?s)" by (rule mint_id_fresh [OF fit i])
  have nb: "\<not> is_blank (ai_title inp)" using adm by (auto simp: admitted_def dest: not_duplicate_not_blank)
  obtain t where t: "drafted now i inp = Inr t" "tk_id t = i" "tk_depends_on t = []"
      "tk_status t = initial_status (ai_kind inp)" "tk_title t = ai_title inp"
    using drafted_Inr [OF nb, of now i] by auto
  have bk: "backlog_ok (?s\<lparr>st_tickets := st_tickets ?s @ [t]\<rparr>)"
    using fresh t by (intro backlog_ok_push [OF ok]) auto
  then have v: "validate (?s\<lparr>st_tickets := st_tickets ?s @ [t]\<rparr>) = Inr ()" by (simp add: validate_iff)
  show ?thesis using adm i t fresh bk v by (auto simp: add_ticket_def admitted_def Let_def)
qed

lemma add_ticket_refused: "\<not> admitted inp st \<Longrightarrow> \<exists>m. add_ticket now inp st = Inl (PortErr (Backend m))"
proof -
  let ?ts = "st_tickets (is_state st)"
  assume "\<not> admitted inp st"
  then consider "duplicates_existing (ai_title inp) (active_titles ?ts)"
    | "\<not> duplicates_existing (ai_title inp) (active_titles ?ts)" "duplicates_existing (ai_title inp) (rejected_titles ?ts)"
    | m where "\<not> duplicates_existing (ai_title inp) (active_titles ?ts)"
        "\<not> duplicates_existing (ai_title inp) (rejected_titles ?ts)" "goal_gate (is_goals st) (ai_goal inp) = Inl m"
    by (cases "goal_gate (is_goals st) (ai_goal inp)") (auto simp: admitted_def)
  then show ?thesis by cases (simp_all add: add_ticket_def Let_def)
qed

end
