(* ===== verification/Intake_Properties.thy ===== *)
theory Intake_Properties
  imports Intake
begin

text \<open>
  What the creation path guarantees: which inputs become tickets, what becomes of the backlog, what a second filing
  meets, and which objects of an agent's reply are read.
\<close>

section \<open>Filing\<close>

lemma refiled_refused:
  assumes "add_ticket now inp st = Inr (i, st')" and ok: "backlog_ok (is_state st)"
    and fit: "numbers_fit (ai_kind inp) (is_alias st) (st_tickets (is_state st))"
    and same: "normalize_title (ai_title inp2) = normalize_title (ai_title inp)"
  shows "add_ticket later inp2 st' = Inl (PortErr (Backend (dup_active_msg (ai_title inp2))))"
proof -
  have adm: "admitted inp st" using add_ticket_refused [of inp st now] assms(1) by (cases "admitted inp st") auto
  obtain t where t: "st_tickets (is_state st') = st_tickets (is_state st) @ [t]" "tk_title t = ai_title inp"
      "tk_status t = initial_status (ai_kind inp)"
    using add_ticket_admitted [OF ok fit adm, of now] assms(1) by auto
  have "\<not> off_board (tk_status t)" using t(3) by (cases "ai_kind inp") (auto simp: off_board_def initial_status_def)
  then have "ai_title inp \<in> set (active_titles (st_tickets (is_state st')))"
    using t(1,2) by (auto simp: active_titles_def)
  then have "duplicates_existing (ai_title inp2) (active_titles (st_tickets (is_state st')))"
    using same by (intro duplicates_same_title [of "ai_title inp"]) simp_all
  then show ?thesis by (simp add: add_ticket_def Let_def)
qed

text \<open>
  C18. Filing a ticket on a valid backlog whose numbers leave room. It succeeds exactly when the title duplicates no active
  and no rejected one and the declared goal is an active goal of the project; the id is then new, the ticket starts
  its lifecycle with the title given, the other tickets are untouched and the backlog stays valid. Filing it a second
  time, under any title that normalises to the same, is refused.
\<close>

theorem intake_exact:
  assumes "backlog_ok (is_state st)" and "numbers_fit (ai_kind inp) (is_alias st) (st_tickets (is_state st))"
  shows "((\<exists>r. add_ticket now inp st = Inr r) \<longleftrightarrow>
        \<not> duplicates_existing (ai_title inp) (active_titles (st_tickets (is_state st)))
        \<and> \<not> duplicates_existing (ai_title inp) (rejected_titles (st_tickets (is_state st)))
        \<and> (case ai_goal inp of None \<Rightarrow> True
            | Some i \<Rightarrow> (case find (\<lambda>g. gl_id g = i) (is_goals st) of None \<Rightarrow> False | Some g \<Rightarrow> goal_is_active g)))
    \<and> (\<forall>i st'. add_ticket now inp st = Inr (i, st') \<longrightarrow>
        (\<exists>t. is_state st' = (is_state st)\<lparr>st_tickets := st_tickets (is_state st) @ [t]\<rparr>
           \<and> tk_id t = i \<and> i \<notin> tk_id ` set (st_tickets (is_state st))
           \<and> tk_title t = ai_title inp \<and> tk_status t = initial_status (ai_kind inp))
        \<and> validate (is_state st') = Inr ()
        \<and> (\<forall>later inp2. normalize_title (ai_title inp2) = normalize_title (ai_title inp) \<longrightarrow>
             add_ticket later inp2 st' = Inl (PortErr (Backend (dup_active_msg (ai_title inp2))))))"
proof (intro conjI allI impI)
  show "(\<exists>r. add_ticket now inp st = Inr r) \<longleftrightarrow>
        \<not> duplicates_existing (ai_title inp) (active_titles (st_tickets (is_state st)))
        \<and> \<not> duplicates_existing (ai_title inp) (rejected_titles (st_tickets (is_state st)))
        \<and> (case ai_goal inp of None \<Rightarrow> True
            | Some i \<Rightarrow> (case find (\<lambda>g. gl_id g = i) (is_goals st) of None \<Rightarrow> False | Some g \<Rightarrow> goal_is_active g))"
    using add_ticket_refused [of inp st now] add_ticket_admitted [OF assms, of now]
    unfolding goal_gate_ok [symmetric] admitted_def [symmetric] by fastforce
next
  fix i st' assume r: "add_ticket now inp st = Inr (i, st')"
  have adm: "admitted inp st" using add_ticket_refused [of inp st now] r by (cases "admitted inp st") auto
  from add_ticket_admitted [OF assms adm, of now] r
  show "\<exists>t. is_state st' = (is_state st)\<lparr>st_tickets := st_tickets (is_state st) @ [t]\<rparr>
      \<and> tk_id t = i \<and> i \<notin> tk_id ` set (st_tickets (is_state st))
      \<and> tk_title t = ai_title inp \<and> tk_status t = initial_status (ai_kind inp)"
    and "validate (is_state st') = Inr ()" by (auto simp: validate_iff)
  show "add_ticket later inp2 st' = Inl (PortErr (Backend (dup_active_msg (ai_title inp2))))"
    if "normalize_title (ai_title inp2) = normalize_title (ai_title inp)" for later inp2
    using r assms that by (rule refiled_refused)
qed

definition example_input :: add_input where
  "example_input =
     \<lparr>ai_kind = Bug, ai_title = ''Crash'', ai_description = [], ai_priority = High, ai_complexity = Small,
      ai_has_ui = False, ai_acceptance_criteria = [], ai_goal = None, ai_service_tag = None\<rparr>"

definition example_intake :: intake_state where
  "example_intake = \<lparr>is_state = project_state_default, is_alias = ''CX'', is_goals = []\<rparr>"

theorem intake_exact_witness:
  "\<exists>i st'. add_ticket ''t'' example_input example_intake = Inr (i, st') \<and> validate (is_state st') = Inr ()"
proof -
  have ts: "st_tickets (is_state example_intake) = []" by (simp add: example_intake_def project_state_default_def)
  have "backlog_ok (is_state example_intake)"
    by (simp add: backlog_ok_def ts acyclic_def edge_def deps_def ticket_def)
  moreover have "numbers_fit (ai_kind example_input) (is_alias example_intake) (st_tickets (is_state example_intake))"
    by (simp add: numbers_fit_def id_numbers_def ts List.map_filter_def)
  moreover have "normalize_title ''Crash'' \<noteq> []" by (simp add: normalize_title_Nil is_ascii_alphanumeric_def)
  ultimately show ?thesis
    using intake_exact [of example_intake example_input "''t''"]
    by (auto simp: ts active_titles_def rejected_titles_def duplicates_existing_def example_input_def)
qed

text \<open>A title without a letter or digit of ASCII is refused as a duplicate of an open ticket, on an empty board too.\<close>

lemma foreign_title_refused:
  assumes "\<forall>c \<in> set (ai_title inp). \<not> is_ascii_alphanumeric c"
  shows "add_ticket now inp st = Inl (PortErr (Backend (dup_active_msg (ai_title inp))))"
proof -
  have "duplicates_existing (ai_title inp) ts" for ts
    using assms by (simp add: duplicates_existing_def normalize_title_Nil)
  then show ?thesis by (simp add: add_ticket_def Let_def)
qed

section \<open>Replies\<close>

text \<open>
  The lenient parser on a reply made of objects with text around them, where the text has no brace and every quoted
  string is closed: it looks at exactly the objects, nested ones as part of their parent, in order, and returns those
  that deserialise; it fails only when none does.
\<close>

theorem reply_objects_exact:
  assumes "list_all (\<lambda>(g, a). flat g \<and> balanced a) ps" and "flat ending"
    and "strip_code_fences raw = reply_text ps ending"
  shows "parse_items_lenient item raw =
    (let valid = List.map_filter item (map (braced \<circ> snd) ps)
     in if valid = [] then Inl ''no valid feature items found'' else Inr valid)"
  using top_level_exact [OF assms(1,2)] assms(3) by (simp add: parse_items_lenient_def Let_def)

theorem reply_objects_exact_witness:
  "parse_items_lenient (\<lambda>o'. if o' = ''{a{b}}'' then Some (1::nat) else None) ''x{a{b}} {c}'' = Inr [1]"
proof -
  have b: "balanced ''a{b}''" "balanced ''c''"
    using bal_char [of "CHR ''a''" "''{b}''"] bal_obj [of "''b''" "[]"] bal_char [of "CHR ''b''" "[]"]
      bal_char [of "CHR ''c''" "[]"] bal_nil by simp_all
  have f: "flat ''x''" "flat '' ''" "flat []"
    using flat_char [of "CHR ''x''" "[]"] flat_char [of "CHR '' ''" "[]"] flat_nil by simp_all
  have "strip_code_fences ''x{a{b}} {c}'' = reply_text [(''x'', ''a{b}''), ('' '', ''c'')] []"
    by (simp add: strip_code_fences_def str_lines_def reply_text_def braced_def)
  from reply_objects_exact [OF _ _ this, of "\<lambda>o'. if o' = ''{a{b}}'' then Some (1::nat) else None"] b f show ?thesis
    by (simp add: braced_def List.map_filter_def)
qed

text \<open>One closing brace too many before them hides every object that has none inside.\<close>

lemma stray_brace_blinds:
  assumes "list_all (\<lambda>(g, a). flat g \<and> flat a) ps" and "flat ending" and "flat g"
  shows "top_level_objects (g @ CHR ''}'' # reply_text ps ending) = []"
  using scan_below [OF assms(1,2)] by (simp add: top_level_objects_def scan_flat [OF assms(3)])

end
