(* ===== verification/Focus.thy ===== *)
theory Focus
  imports Questions Project_State Merge_Policy
begin

text \<open>
  Questions to people: the \<open>ASK\<close> line of a reply (\<open>parse_ask\<close> and its use in \<open>use_cases/run_dev/mod.rs\<close>), focus
  windows that hold them back (\<open>use_cases/question_batching.rs\<close>, \<open>in_quiet_window\<close> of \<open>config.rs\<close>), and the
  passes of a cycle that answer, escalate and release them (\<open>answer_open_questions\<close>,
  \<open>escalate_stale_human_questions\<close> and \<open>flush_focus_digests\<close> of \<open>cycle/escalation.rs\<close>).

  The minute of the day, the clock, minted ids, the age of a timestamp and what an engine replies are arguments.
  Signs of the messages outside the character range are written in ASCII. \<open>to_uppercase\<close> leaves the two
  letters below 256 whose upper case lies above as they are: none of the texts compared with contains one.
\<close>

section \<open>Quiet windows\<close>

definition window_minute :: "string \<Rightarrow> nat option" where
  "window_minute s =
     (case split_once '':'' (trim s) of
        None \<Rightarrow> None
      | Some (h, m) \<Rightarrow> (case (parse_uint U32_MAX h, parse_uint U32_MAX m) of
          (Some h', Some m') \<Rightarrow> if h' < 24 \<and> m' < 60 then Some (h' * 60 + m') else None
        | _ \<Rightarrow> None))"

definition in_quiet_window :: "string \<Rightarrow> nat \<Rightarrow> bool" where
  "in_quiet_window window now =
     (case split_once ''-'' (trim window) of
        None \<Rightarrow> False
      | Some (a, b) \<Rightarrow> (case (window_minute a, window_minute b) of
          (Some start, Some ending) \<Rightarrow>
            if start = ending then False
            else if start < ending then start \<le> now \<and> now < ending
            else start \<le> now \<or> now < ending
        | _ \<Rightarrow> False))"

section \<open>Holding and releasing\<close>

record focus_window =
  fw_window_utc :: string
  fw_defer_to_digest :: bool

text \<open>The focus windows in the order of their keys, and the SLA.\<close>

record human_config =
  hu_sla_minutes :: nat
  hu_focus_windows :: "(string \<times> focus_window) list"

definition ascii_lowercase :: "string \<Rightarrow> string" where
  "ascii_lowercase = map ascii_lower"

definition eq_ignore_case :: "string \<Rightarrow> string \<Rightarrow> bool" where
  "eq_ignore_case a b \<longleftrightarrow> ascii_lowercase a = ascii_lowercase b"

definition owner_of :: "string \<Rightarrow> string" where
  "owner_of dst = ascii_lowercase (case strip_prefix ''@'' (trim dst) of Some r \<Rightarrow> r | None \<Rightarrow> trim dst)"

definition focus_of :: "human_config \<Rightarrow> string \<Rightarrow> focus_window option" where
  "focus_of human dst =
     (let owner = owner_of dst in
      if owner = [] then None
      else map_option snd (find (\<lambda>(name, _). eq_ignore_case name owner) (hu_focus_windows human)))"

definition batching_on :: "human_config \<Rightarrow> string \<Rightarrow> focus_window option" where
  "batching_on human dst =
     (case focus_of human dst of
        None \<Rightarrow> None
      | Some fw \<Rightarrow> if fw_defer_to_digest fw \<and> \<not> is_blank (fw_window_utc fw) then Some fw else None)"

definition should_defer :: "human_config \<Rightarrow> string \<Rightarrow> nat \<Rightarrow> nat \<Rightarrow> nat \<Rightarrow> bool" where
  "should_defer human dst now_minutes age_minutes sla_minutes =
     (if \<not> starts_with (trim dst) ''@'' then False
      else case batching_on human dst of
        None \<Rightarrow> False
      | Some fw \<Rightarrow>
          if 0 < sla_minutes \<and> sla_minutes \<le> age_minutes then False
          else in_quiet_window (fw_window_utc fw) now_minutes)"

definition held :: "agent_question \<Rightarrow> bool" where
  "held q \<longleftrightarrow> q_is_open q \<and> aq_deferred q \<and> starts_with (aq_to q) ''@'' \<and> owner_of (aq_to q) \<noteq> []"

definition push_owner :: "agent_question \<Rightarrow> string list \<Rightarrow> string list" where
  "push_owner q os = (let o' = owner_of (aq_to q) in if o' \<in> set os then os else os @ [o'])"

definition select_deferred :: "agent_question list \<Rightarrow> (string \<times> agent_question list) list" where
  "select_deferred qs =
     map (\<lambda>o'. (o', filter (\<lambda>q. owner_of (aq_to q) = o') (filter held qs))) (fold push_owner (filter held qs) [])"

definition still_relevant :: "project_state \<Rightarrow> agent_question \<Rightarrow> bool" where
  "still_relevant s q =
     (if \<not> q_is_open q then False
      else if aq_ticket q = [] then True
      else case find (\<lambda>t. ticket_id_str (tk_id t) = aq_ticket q) (st_tickets s) of
        None \<Rightarrow> False
      | Some t \<Rightarrow> tk_status t \<notin> {Done, Documented, Rejected, Verified})"

definition window_over :: "human_config \<Rightarrow> nat \<Rightarrow> string \<Rightarrow> bool" where
  "window_over human now_minutes dst \<longleftrightarrow>
     \<not> (case batching_on human dst of None \<Rightarrow> False | Some fw \<Rightarrow> in_quiet_window (fw_window_utc fw) now_minutes)"

definition flush_batches :: "project_state \<Rightarrow> human_config \<Rightarrow> nat \<Rightarrow> (string \<times> agent_question list) list" where
  "flush_batches s human now_minutes =
     filter (\<lambda>(_, live). live \<noteq> [])
       (map (\<lambda>(owner, batch). (owner, filter (still_relevant s) (filter (\<lambda>q. window_over human now_minutes (aq_to q)) batch)))
         (select_deferred (so_questions (st_social s))))"

definition digest_line :: "agent_question \<Rightarrow> string" where
  "digest_line q =
     [CHR 0x0A] @ ''* '' @ aq_from q @ (if aq_ticket q = [] then [] else '' ('' @ aq_ticket q @ '')'')
       @ '': '' @ take 160 (aq_body q) @ '' - reply in your inbox''"

definition digest_message :: "string \<Rightarrow> agent_question list \<Rightarrow> string" where
  "digest_message owner batch =
     ''[mail] @'' @ owner @ '' - your focus window ended: '' @ nat_str (length batch) @ '' question''
       @ (if length batch = 1 then [] else ''s'') @ '' waited while you were heads-down:''
       @ concat (map digest_line batch)"

section \<open>Asking\<close>

definition to_uppercase :: "string \<Rightarrow> string" where
  "to_uppercase s = concat (map (\<lambda>c. let n = (of_char c :: nat) in
     if (97 \<le> n \<and> n \<le> 122) \<or> (224 \<le> n \<and> n \<le> 254 \<and> n \<noteq> 247) then [char_of (n - 32)]
     else if n = 223 then ''SS'' else [c]) s)"

definition is_person :: "string \<Rightarrow> bool" where
  "is_person r \<longleftrightarrow>
     byte_len r > 1 \<and> starts_with r ''@''
     \<and> list_all (\<lambda>c. is_ascii_alphanumeric c \<or> c \<in> {CHR ''-'', CHR ''_'', CHR ''.''}) (tl r)"

definition ask_line :: "string \<Rightarrow> (string \<times> string) option" where
  "ask_line line =
     (case strip_prefix ''ASK '' (dropWhile (\<lambda>c. c \<in> {CHR 0x60, CHR ''*'', CHR ''-'', CHR '' ''}) (trim line)) of
        None \<Rightarrow> None
      | Some rest \<Rightarrow> (case split_once '':'' rest of
          None \<Rightarrow> None
        | Some (r, question) \<Rightarrow>
            let who = to_uppercase (trim r); q = trim question in
            if who \<notin> {''BA'', ''SA''} \<and> \<not> is_person who then None
            else if byte_len q < 10 then None
            else Some (who, q)))"

definition parse_ask :: "string \<Rightarrow> (string \<times> string) option" where
  "parse_ask stdout =
     (case List.map_filter ask_line (take 20 (rev (str_lines stdout))) of [] \<Rightarrow> None | a # _ \<Rightarrow> Some a)"

definition hold_last :: "agent_question list \<Rightarrow> agent_question list" where
  "hold_last qs = (if qs = [] then [] else butlast qs @ [(last qs)\<lparr>aq_deferred := True\<rparr>])"

text \<open>What a DEV run with an \<open>ASK\<close> line does to the state: \<open>key\<close> is its ticket, \<open>frm\<close> its role.\<close>

definition dev_ask ::
  "human_config \<Rightarrow> nat \<Rightarrow> string \<Rightarrow> string \<Rightarrow> string \<Rightarrow> string \<Rightarrow> string \<Rightarrow> project_state \<Rightarrow> project_state" where
  "dev_ask human now_minutes now mid key frm stdout s =
     (case parse_ask stdout of
        None \<Rightarrow> s
      | Some (dst, body) \<Rightarrow>
          let defer = should_defer human dst now_minutes 0 (hu_sla_minutes human) in
          case ask_question now key frm dst body (st_social s) of
            (False, _) \<Rightarrow> s
          | (True, so) \<Rightarrow>
              let so' = (if defer then so\<lparr>so_questions := hold_last (so_questions so)\<rparr> else so) in
              s\<lparr>st_social := post_comment mid now frm (''? '' @ frm @ '' -> '' @ dst @ '': '' @ body) (Some key) so'\<rparr>)"

section \<open>Answering\<close>

definition answer_queue :: "project_state \<Rightarrow> agent_question list" where
  "answer_queue s =
     take 2 (filter (\<lambda>q. q_is_open q \<and> \<not> starts_with (aq_to q) ''@'') (so_questions (st_social s)))"

definition decided :: "string \<Rightarrow> string option \<Rightarrow> string" where
  "decided answer second =
     (if contains_str (to_uppercase answer) ''ACTION:'' then answer
      else case second of
        Some out \<Rightarrow> if contains_str (to_uppercase out) ''ACTION:'' then trim out else answer
      | None \<Rightarrow> answer)"

text \<open>
  One question of the pass. \<open>reply\<close> is the trimmed output of a successful run, \<open>second\<close> that of the run that asks
  for the missing decision.
\<close>

definition answer_one ::
  "string \<Rightarrow> string \<Rightarrow> string option \<Rightarrow> string option \<Rightarrow> agent_question \<Rightarrow> project_state \<Rightarrow> project_state" where
  "answer_one now mid reply second q s =
     (case reply of
        None \<Rightarrow> s
      | Some answer \<Rightarrow>
          let tkt = (if aq_ticket q = [] then None else Some (aq_ticket q)); so = st_social s in
          case parse_ask answer of
            Some (dst, forwarded_q) \<Rightarrow>
              (case forward_question (aq_id q) dst so of
                 (False, _) \<Rightarrow> s
               | (True, so') \<Rightarrow>
                   s\<lparr>st_social := post_comment mid now (aq_to q)
                      (''-> '' @ aq_to q @ '' -> '' @ dst @ '': '' @ forwarded_q) tkt so'\<rparr>)
          | None \<Rightarrow>
              if byte_len answer < 30 then s
              else let final = decided answer second in
                   case answer_question now (aq_id q) final so of
                        (False, _) \<Rightarrow> s
                      | (True, so') \<Rightarrow>
                          s\<lparr>st_social := post_comment mid now (aq_to q)
                             (''<> '' @ aq_to q @ '' -> '' @ aq_from q @ '' ('' @ aq_id q @ ''): '' @ final) tkt so'\<rparr>)"

section \<open>The passes of a cycle\<close>

definition age_minutes :: "(string \<Rightarrow> nat option) \<Rightarrow> agent_question \<Rightarrow> nat" where
  "age_minutes since q = (case since (aq_asked_at q) of None \<Rightarrow> 0 | Some secs \<Rightarrow> secs div 60)"

definition overdue :: "(string \<Rightarrow> nat option) \<Rightarrow> nat \<Rightarrow> agent_question \<Rightarrow> bool" where
  "overdue since sla q \<longleftrightarrow> q_is_open q \<and> starts_with (aq_to q) ''@'' \<and> sla \<le> age_minutes since q"

definition escalation_note :: "(string \<Rightarrow> nat option) \<Rightarrow> nat \<Rightarrow> agent_question \<Rightarrow> string" where
  "escalation_note since sla q =
     ''(!) '' @ aq_id q @ '' has waited '' @ nat_str (age_minutes since q) @ ''m for '' @ aq_to q @ '' (SLA ''
       @ nat_str sla @ ''m) - ticket '' @ (if aq_ticket q = [] then ''-'' else aq_ticket q)
       @ '' is blocked on it: '' @ [CHR 0x22] @ take 160 (aq_body q) @ [CHR 0x22]"

text \<open>A chat message of the Scrum Master and its line in the activity log.\<close>

definition sm_says :: "string \<Rightarrow> string \<Rightarrow> string \<times> string \<Rightarrow> project_state \<Rightarrow> project_state" where
  "sm_says mid now m s =
     log_activity now ''SM'' (snd m) None
       (s\<lparr>st_social := post_chat_in mid now ''SM'' (fst m) AGENTS_CHANNEL [] (st_social s)\<rparr>)"

fun say_all :: "(nat \<Rightarrow> string) \<Rightarrow> string \<Rightarrow> nat \<Rightarrow> (string \<times> string) list \<Rightarrow> project_state \<Rightarrow> project_state" where
  "say_all mid now n [] s = s"
| "say_all mid now n (m # ms) s = say_all mid now (n + 1) ms (sm_says (mid n) now m s)"

definition escalate_stale_human_questions ::
  "(nat \<Rightarrow> string) \<Rightarrow> string \<Rightarrow> (string \<Rightarrow> nat option) \<Rightarrow> human_config \<Rightarrow> project_state \<Rightarrow> project_state" where
  "escalate_stale_human_questions mid now since human s =
     (let sla = hu_sla_minutes human;
          due = (\<lambda>q. overdue since sla q \<and> \<not> aq_escalated q);
          qs = so_questions (st_social s)
      in if sla = 0 then s
         else say_all mid now 0 (map (\<lambda>q. (escalation_note since sla q, ''escalated an overdue human question'')) (filter due qs))
           (s\<lparr>st_social := (st_social s)\<lparr>so_questions :=
              map (\<lambda>q. if due q then q\<lparr>aq_escalated := True, aq_deferred := False\<rparr> else q) qs\<rparr>\<rparr>))"

definition undefer :: "agent_question \<Rightarrow> agent_question" where
  "undefer q = q\<lparr>aq_deferred := False\<rparr>"

definition release_batch :: "agent_question list \<Rightarrow> agent_question list \<Rightarrow> agent_question list" where
  "release_batch batch qs = fold (\<lambda>q. update_first (\<lambda>h. aq_id h = aq_id q) undefer) batch qs"

definition release_owner :: "string \<Rightarrow> agent_question list \<Rightarrow> agent_question list" where
  "release_owner owner qs =
     map (\<lambda>q. if aq_deferred q \<and> eq_ignore_case (aq_to q) (CHR ''@'' # owner) then undefer q else q) qs"

definition release_flushed :: "(string \<times> agent_question list) list \<Rightarrow> agent_question list \<Rightarrow> agent_question list" where
  "release_flushed bs qs = fold (\<lambda>(owner, batch) qs. release_owner owner (release_batch batch qs)) bs qs"

definition flush_activity :: "string \<Rightarrow> agent_question list \<Rightarrow> string" where
  "flush_activity owner batch = ''flushed '' @ nat_str (length batch) @ '' queued question(s) to @'' @ owner"

text \<open>
  The loop releases and announces owner by owner; releases and announcements touch different parts of the state,
  so they are two passes here.
\<close>

definition flush_focus_digests ::
  "(nat \<Rightarrow> string) \<Rightarrow> string \<Rightarrow> human_config \<Rightarrow> nat \<Rightarrow> project_state \<Rightarrow> project_state" where
  "flush_focus_digests mid now human now_minutes s =
     (let bs = flush_batches s human now_minutes in
      say_all mid now 0 (map (\<lambda>(owner, batch). (digest_message owner batch, flush_activity owner batch)) bs)
        (s\<lparr>st_social := (st_social s)\<lparr>so_questions := release_flushed bs (so_questions (st_social s))\<rparr>\<rparr>))"

end
