(* ===== verification/Focus_Properties.thy ===== *)
theory Focus_Properties
  imports Focus
begin

text \<open>
  What a focus window may do to a question. The state machine of questions, with asks, answers, hand-overs,
  escalations and digests in any order, keeps three facts: one open question per ticket, every address is a role or
  a person, an escalated question is not held. From these: no overdue question stays hidden, a digest releases
  exactly the owners it speaks to, and what is left behind is named.
\<close>

section \<open>Frames\<close>

abbreviation questions :: "project_state \<Rightarrow> agent_question list" where
  "questions s \<equiv> so_questions (st_social s)"

lemma sm_says_frame [simp]:
  "questions (sm_says mid now m s) = questions s"
  "st_tickets (sm_says mid now m s) = st_tickets s"
  by (simp_all add: sm_says_def log_activity_def push_activity_def post_chat_in_def push_chat_def)

lemma say_all_frame [simp]:
  "questions (say_all mid now n ms s) = questions s"
  "st_tickets (say_all mid now n ms s) = st_tickets s"
  by (induction ms arbitrary: n s) simp_all

lemma post_comment_questions [simp]: "so_questions (post_comment mid now a b t s) = so_questions s"
  by (simp add: post_comment_def post_comment_att_def push_comment_def)

lemma undefer_simps [simp]:
  "aq_deferred (undefer q) = False" "aq_to (undefer q) = aq_to q" "aq_id (undefer q) = aq_id q"
  "aq_ticket (undefer q) = aq_ticket q" "aq_escalated (undefer q) = aq_escalated q"
  "q_is_open (undefer q) = q_is_open q" "aq_asked_at (undefer q) = aq_asked_at q"
  by (simp_all add: undefer_def q_is_open_def)

section \<open>Addresses\<close>

definition addressee :: "string \<Rightarrow> bool" where
  "addressee dst \<longleftrightarrow> dst \<in> {''BA'', ''SA''} \<or> is_person dst"

lemma ask_line_addressee: "ask_line l = Some (dst, q) \<Longrightarrow> addressee dst"
  by (auto simp: ask_line_def addressee_def Let_def split: option.splits if_splits)

lemma parse_ask_addressee:
  assumes "parse_ask out = Some (dst, q)" shows "addressee dst"
proof -
  have "(dst, q) \<in> set (List.map_filter ask_line (take 20 (rev (str_lines out))))"
    using assms by (auto simp: parse_ask_def split: list.splits)
  then show ?thesis by (auto simp: List.map_filter_def ask_line_addressee)
qed







section \<open>The system\<close>

definition focus_ok :: "project_state \<Rightarrow> bool" where
  "focus_ok s \<longleftrightarrow>
     questions_ok (st_social s)
     \<and> (\<forall>q \<in> set (questions s). addressee (aq_to q) \<and> (aq_escalated q \<longrightarrow> \<not> aq_deferred q))"

inductive focus_step :: "project_state \<Rightarrow> project_state \<Rightarrow> bool" where
  by_dev: "focus_step s (dev_ask human m now mid key frm stdout s)"
| by_role: "focus_step s (answer_one now mid reply second q s)"
| by_master: "focus_step s (s\<lparr>st_social := snd (ask_question now t frm ''SA'' b (st_social s))\<rparr>)"
| by_person: "focus_step s (s\<lparr>st_social := snd (answer_question now i a (st_social s))\<rparr>)"
| escalation: "focus_step s (escalate_stale_human_questions mids now since human s)"
| digest: "focus_step s (flush_focus_digests mids now human m s)"
| elsewhere: "questions s' = questions s \<Longrightarrow> focus_step s s'"

text \<open>A rewrite of questions that keeps tickets and answers, pointwise.\<close>

lemma questions_ok_map:
  assumes "questions_ok so" and "\<And>q. aq_ticket (f q) = aq_ticket q \<and> q_is_open (f q) = q_is_open q"
  shows "questions_ok (so\<lparr>so_questions := map f (so_questions so)\<rparr>)"
proof -
  have "map aq_ticket (filter q_is_open (map f qs)) = map aq_ticket (filter q_is_open qs)" for qs
    using assms(2) by (induction qs) auto
  with assms(1) show ?thesis by (simp add: questions_ok_def open_of_def)
qed

lemma update_first_undefer_tickets:
  "map aq_ticket (filter q_is_open (update_first p undefer qs)) = map aq_ticket (filter q_is_open qs)"
  by (induction qs) auto

lemma questions_ok_cong:
  assumes "questions_ok so" and "length (so_questions so') = length (so_questions so)"
    and "map aq_ticket (filter q_is_open (so_questions so')) = map aq_ticket (filter q_is_open (so_questions so))"
  shows "questions_ok so'"
  using assms by (simp add: questions_ok_def open_of_def)

lemma release_batch_tickets:
  "map aq_ticket (filter q_is_open (release_batch b qs)) = map aq_ticket (filter q_is_open qs)
   \<and> length (release_batch b qs) = length qs"
proof (induction b arbitrary: qs)
  case (Cons q b)
  from Cons.IH [of "update_first (\<lambda>h. aq_id h = aq_id q) undefer qs"] show ?case
    by (simp add: release_batch_def update_first_undefer_tickets)
qed (simp add: release_batch_def)

lemma release_flushed_tickets:
  "map aq_ticket (filter q_is_open (release_flushed bs qs)) = map aq_ticket (filter q_is_open qs)
   \<and> length (release_flushed bs qs) = length qs"
proof (induction bs arbitrary: qs)
  case (Cons x bs)
  have "map aq_ticket (filter q_is_open (release_owner o' ys)) = map aq_ticket (filter q_is_open ys)
      \<and> length (release_owner o' ys) = length ys" for o' ys
    by (induction ys) (auto simp: release_owner_def)
  with Cons.IH release_batch_tickets show ?case by (cases x) (simp add: release_flushed_def)
qed (simp add: release_flushed_def)

text \<open>Every question of the released list is one of the old ones, possibly no longer held.\<close>

lemma update_first_undefer_mem: "q \<in> set (update_first p undefer qs) \<Longrightarrow> q \<in> set qs \<or> (\<exists>r \<in> set qs. q = undefer r)"
  by (induction qs) (auto split: if_splits)

lemma undefer_undefer [simp]: "undefer (undefer q) = undefer q"
  by (simp add: undefer_def)

lemma release_batch_mem: "q \<in> set (release_batch b qs) \<Longrightarrow> q \<in> set qs \<or> (\<exists>r \<in> set qs. q = undefer r)"
proof (induction b arbitrary: qs)
  case (Cons x b)
  let ?ys = "update_first (\<lambda>h. aq_id h = aq_id x) undefer qs"
  have "q \<in> set (release_batch b ?ys)" using Cons.prems by (simp add: release_batch_def)
  from Cons.IH [OF this] show ?case by (auto dest!: update_first_undefer_mem)
qed (simp add: release_batch_def)

lemma release_flushed_mem:
  "q \<in> set (release_flushed bs qs) \<Longrightarrow> q \<in> set qs \<or> (\<exists>r \<in> set qs. q = undefer r)"
proof (induction bs arbitrary: qs)
  case (Cons x bs)
  obtain o' b where x: "x = (o', b)" by (cases x)
  have "q \<in> set (release_flushed bs (release_owner o' (release_batch b qs)))"
    using Cons.prems by (simp add: release_flushed_def x)
  from Cons.IH [OF this] have "q \<in> set (release_batch b qs) \<or> (\<exists>r \<in> set (release_batch b qs). q = undefer r)"
    by (auto simp: release_owner_def split: if_splits)
  then show ?case by (metis undefer_undefer release_batch_mem)
qed (simp add: release_flushed_def)

lemma ask_last:
  assumes "questions_ok so" and "ask_question now t f d b so = (True, so')"
  shows "\<exists>xs q. so_questions so' = xs @ [q] \<and> set xs \<subseteq> set (so_questions so) \<and> aq_to q = d \<and> aq_escalated q = False
    \<and> aq_deferred q = False \<and> q_is_open q \<and> aq_ticket q = t"
proof -
  obtain q where q: "so_questions so' = age_out (so_questions so @ [q])" "aq_to q = d" "aq_escalated q = False"
      "aq_deferred q = False" "q_is_open q" "aq_ticket q = t"
    using assms(2) by (auto simp: ask_question_def Let_def q_is_open_def split: if_splits)
  have len: "length (so_questions so) \<le> MAX_QUESTIONS" using assms(1) by (simp add: questions_ok_def)
  have "remove_first (\<lambda>q. \<not> q_is_open q) (so_questions so @ [q])
      = remove_first (\<lambda>q. \<not> q_is_open q) (so_questions so) @ [q]"
    if "\<exists>x \<in> set (so_questions so @ [q]). \<not> q_is_open x"
    using that q(5) by (intro remove_first_append) auto
  moreover have "tl (so_questions so @ [q]) = tl (so_questions so) @ [q]"
    if "\<not> length (so_questions so) < MAX_QUESTIONS"
    using that by (cases "so_questions so") (auto simp: MAX_QUESTIONS_def)
  ultimately have "\<exists>xs. so_questions so' = xs @ [q] \<and> set xs \<subseteq> set (so_questions so)"
    using age_out_push [OF len, of q] q(1) set_remove_first [of "\<lambda>q. \<not> q_is_open q" "so_questions so"]
      set_mono_suffix [of "tl (so_questions so)" "so_questions so"]
    by (auto simp: suffix_def split: if_splits)
      (metis list.set_sel(2) list.sel(2) subsetI)
  with q show ?thesis by auto
qed


section \<open>The invariant\<close>

lemma focus_ok_pointwise:
  assumes ok: "focus_ok s" and qo: "questions_ok so'"
    and mem: "\<And>q. q \<in> set (so_questions so') \<Longrightarrow> addressee (aq_to q) \<and> (aq_escalated q \<longrightarrow> \<not> aq_deferred q)"
  shows "focus_ok (s\<lparr>st_social := so'\<rparr>)"
  using qo mem by (simp add: focus_ok_def)

lemma focus_ok_questions: "focus_ok s \<Longrightarrow> questions s' = questions s \<Longrightarrow> focus_ok s'"
  by (simp add: focus_ok_def questions_ok_def open_of_def)

lemma update_first_mem: "q \<in> set (update_first p f qs) \<Longrightarrow> q \<in> set qs \<or> (\<exists>r \<in> set qs. p r \<and> q = f r)"
  by (induction qs) (auto split: if_splits)

lemma dev_ask_ok: "focus_ok s \<Longrightarrow> focus_ok (dev_ask human m now mid key frm out s)"
proof (cases "parse_ask out")
  case (Some a)
  assume ok: "focus_ok s"
  obtain d b where a: "parse_ask out = Some (d, b)" using Some by (cases a) auto
  obtain r so where ask: "ask_question now key frm d b (st_social s) = (r, so)" by fastforce
  show ?thesis
  proof (cases r)
    case True
    have qok: "questions_ok (st_social s)" using ok by (simp add: focus_ok_def)
    obtain xs q where q: "so_questions so = xs @ [q]" "set xs \<subseteq> set (questions s)" "aq_to q = d"
        "aq_escalated q = False" "aq_deferred q = False" "q_is_open q"
      using ask_last [OF qok, of now key frm d b so] ask True by auto
    have "questions_ok so" using ask_ok [OF qok, of now key frm d b] ask by simp
    then have qo: "questions_ok (so\<lparr>so_questions := hold_last (so_questions so)\<rparr>)"
      using q by (auto simp: questions_ok_def open_of_def hold_last_def q_is_open_def)
    define so' where "so' = (if should_defer human d m 0 (hu_sla_minutes human)
      then so\<lparr>so_questions := hold_last (so_questions so)\<rparr> else so)"
    have so': "questions_ok so'" using \<open>questions_ok so\<close> qo by (simp add: so'_def)
    have ad: "addressee d" using a by (rule parse_ask_addressee)
    have mem: "addressee (aq_to x) \<and> (aq_escalated x \<longrightarrow> \<not> aq_deferred x)" if "x \<in> set (so_questions so')" for x
      using that ok q ad by (auto simp: so'_def hold_last_def focus_ok_def split: if_splits)
    have "focus_ok (s\<lparr>st_social := so'\<rparr>)" by (rule focus_ok_pointwise [OF ok so' mem])
    then show ?thesis
      by (rule focus_ok_questions) (use a ask True in \<open>simp add: dev_ask_def so'_def Let_def\<close>)
  qed (use ok a ask in \<open>simp add: dev_ask_def Let_def\<close>)
qed (simp add: dev_ask_def)

lemma forward_mem:
  assumes "forward_question i d so = (True, so')"
  shows "so_questions so' = update_first (\<lambda>q. aq_id q = i) (\<lambda>q. q\<lparr>aq_to := d, aq_forwarded := True\<rparr>) (so_questions so)"
  using assms by (auto simp: forward_question_def split: option.splits if_splits)

lemma answer_mem:
  "snd (answer_question now i a so) = so \<or>
   so_questions (snd (answer_question now i a so)) = update_first (\<lambda>q. aq_id q = i)
     (\<lambda>q. q\<lparr>aq_answer := take 1500 (trim a), aq_answered_at := now\<rparr>) (so_questions so)"
  by (auto simp: answer_question_def split: option.split)

lemma answer_person_ok: "focus_ok s \<Longrightarrow> focus_ok (s\<lparr>st_social := snd (answer_question now i a (st_social s))\<rparr>)"
proof -
  assume ok: "focus_ok s"
  have qo: "questions_ok (snd (answer_question now i a (st_social s)))"
    using ok by (intro answer_ok) (simp add: focus_ok_def)
  show ?thesis
    using answer_mem [of now i a "st_social s"] ok
    by (intro focus_ok_pointwise [OF ok qo]) (auto simp: focus_ok_def dest!: update_first_mem)
qed

lemma forward_step_ok:
  assumes ok: "focus_ok s" and "addressee d" and "forward_question i d (st_social s) = (True, so')"
  shows "focus_ok (s\<lparr>st_social := so'\<rparr>)"
proof -
  have qo: "questions_ok so'" using ok forward_ok [of "st_social s" i d] assms(3) by (simp add: focus_ok_def)
  show ?thesis
    using ok assms(2)
    by (intro focus_ok_pointwise [OF ok qo]) (auto simp: focus_ok_def forward_mem [OF assms(3)] dest!: update_first_mem)
qed

lemma answer_one_quiet: "reply = None \<Longrightarrow> answer_one now mid reply second q s = s"
  by (simp add: answer_one_def)

lemma answer_one_answers:
  assumes "reply = Some ans" and "parse_ask ans = None"
  shows "questions (answer_one now mid reply second q s) = questions s \<or>
     questions (answer_one now mid reply second q s)
       = so_questions (snd (answer_question now (aq_id q) (decided ans second) (st_social s)))"
proof -
  obtain r so where "answer_question now (aq_id q) (decided ans second) (st_social s) = (r, so)" by fastforce
  then show ?thesis using assms by (cases r) (simp_all add: answer_one_def Let_def)
qed

lemma answer_one_forwards:
  assumes "reply = Some ans" and "parse_ask ans = Some (d, b)"
  shows "answer_one now mid reply second q s = s \<or>
     (\<exists>so'. forward_question (aq_id q) d (st_social s) = (True, so')
        \<and> questions (answer_one now mid reply second q s) = so_questions so')"
proof -
  obtain r so where "forward_question (aq_id q) d (st_social s) = (r, so)" by fastforce
  then show ?thesis using assms by (cases r) (simp_all add: answer_one_def Let_def)
qed

lemma answer_one_ok: "focus_ok s \<Longrightarrow> focus_ok (answer_one now mid reply second q s)"
proof -
  assume ok: "focus_ok s"
  show ?thesis
  proof (cases reply)
    case (Some ans)
    show ?thesis
    proof (cases "parse_ask ans")
      case None
      from answer_one_answers [OF Some None, of now mid second q s] show ?thesis
      proof (elim disjE)
        assume "questions (answer_one now mid reply second q s) = questions s"
        then show ?thesis by (rule focus_ok_questions [OF ok])
      next
        assume "questions (answer_one now mid reply second q s)
          = so_questions (snd (answer_question now (aq_id q) (decided ans second) (st_social s)))"
        then show ?thesis by (intro focus_ok_questions [OF answer_person_ok [OF ok]]) simp
      qed
    next
      case (Some db)
      obtain d b where db: "parse_ask ans = Some (d, b)" using Some by (cases db) auto
      have "addressee d" using db by (rule parse_ask_addressee)
      with answer_one_forwards [OF \<open>reply = Some ans\<close> db, of now mid second q s] show ?thesis
        using ok forward_step_ok [OF ok, of d "aq_id q"] focus_ok_questions by fastforce
    qed
  qed (use ok in \<open>simp add: answer_one_quiet\<close>)
qed

lemma escalate_questions:
  "questions (escalate_stale_human_questions mids now since human s) =
     map (\<lambda>q. if hu_sla_minutes human \<noteq> 0 \<and> overdue since (hu_sla_minutes human) q \<and> \<not> aq_escalated q
              then q\<lparr>aq_escalated := True, aq_deferred := False\<rparr> else q) (questions s)"
  by (simp add: escalate_stale_human_questions_def Let_def)

lemma flush_questions:
  "questions (flush_focus_digests mids now human m s) = release_flushed (flush_batches s human m) (questions s)"
  by (simp add: flush_focus_digests_def Let_def)

lemma escalate_ok: "focus_ok s \<Longrightarrow> focus_ok (escalate_stale_human_questions mids now since human s)"
proof -
  let ?f = "\<lambda>q. if hu_sla_minutes human \<noteq> 0 \<and> overdue since (hu_sla_minutes human) q \<and> \<not> aq_escalated q
              then q\<lparr>aq_escalated := True, aq_deferred := False\<rparr> else q"
  assume ok: "focus_ok s"
  have "questions_ok ((st_social s)\<lparr>so_questions := map ?f (questions s)\<rparr>)"
    using ok by (intro questions_ok_map) (auto simp: focus_ok_def q_is_open_def)
  then have "focus_ok (s\<lparr>st_social := (st_social s)\<lparr>so_questions := map ?f (questions s)\<rparr>\<rparr>)"
  proof (rule focus_ok_pointwise [OF ok])
    fix q assume "q \<in> set (so_questions ((st_social s)\<lparr>so_questions := map ?f (questions s)\<rparr>))"
    then obtain r where "r \<in> set (questions s)" "q = ?f r" by auto
    with ok show "addressee (aq_to q) \<and> (aq_escalated q \<longrightarrow> \<not> aq_deferred q)" by (simp add: focus_ok_def)
  qed
  then show ?thesis by (rule focus_ok_questions) (simp add: escalate_questions)
qed

lemma flush_ok: "focus_ok s \<Longrightarrow> focus_ok (flush_focus_digests mids now human m s)"
proof -
  assume ok: "focus_ok s"
  let ?qs = "release_flushed (flush_batches s human m) (questions s)"
  have "questions_ok ((st_social s)\<lparr>so_questions := ?qs\<rparr>)"
  proof (rule questions_ok_cong)
    show "questions_ok (st_social s)" using ok by (simp add: focus_ok_def)
  qed (simp_all add: release_flushed_tickets)
  then have "focus_ok (s\<lparr>st_social := (st_social s)\<lparr>so_questions := ?qs\<rparr>\<rparr>)"
  proof (rule focus_ok_pointwise [OF ok])
    fix q assume "q \<in> set (so_questions ((st_social s)\<lparr>so_questions := ?qs\<rparr>))"
    then have "q \<in> set ?qs" by simp
    from release_flushed_mem [OF this] ok show "addressee (aq_to q) \<and> (aq_escalated q \<longrightarrow> \<not> aq_deferred q)"
      by (auto simp: focus_ok_def)
  qed
  then show ?thesis by (rule focus_ok_questions) (simp add: flush_questions)
qed

lemma master_ask_ok: "focus_ok s \<Longrightarrow> focus_ok (s\<lparr>st_social := snd (ask_question now t frm ''SA'' b (st_social s))\<rparr>)"
proof -
  assume ok: "focus_ok s"
  obtain r so where ask: "ask_question now t frm ''SA'' b (st_social s) = (r, so)" by fastforce
  have qok: "questions_ok (st_social s)" using ok by (simp add: focus_ok_def)
  have qo: "questions_ok so" using ask_ok [OF qok, of now t frm "''SA''" b] ask by simp
  have "focus_ok (s\<lparr>st_social := so\<rparr>)"
  proof (cases r)
    case True
    obtain xs q where "so_questions so = xs @ [q]" "set xs \<subseteq> set (questions s)" "aq_to q = ''SA''" "\<not> aq_escalated q"
      using ask_last [OF qok, of now t frm "''SA''" b so] ask True by auto
    then show ?thesis using ok by (intro focus_ok_pointwise [OF ok qo]) (auto simp: focus_ok_def addressee_def)
  next
    case False
    then have "so = st_social s" using ask by (auto simp: ask_question_def Let_def split: if_splits)
    with ok show ?thesis by simp
  qed
  then show ?thesis by (simp add: ask)
qed

interpretation focus_sys: invariant_system "\<lambda>s. questions s = []" focus_step focus_ok
proof
  show "questions s = [] \<Longrightarrow> focus_ok s" for s by (simp add: focus_ok_def questions_ok_def open_of_def)
  show "focus_ok t" if "focus_ok s" and "focus_step s t" for s t
    using that(2,1)
    by cases (auto intro: dev_ask_ok answer_one_ok master_ask_ok answer_person_ok escalate_ok flush_ok focus_ok_questions)
qed


section \<open>No question hidden past its deadline\<close>

text \<open>
  C23. A focus window can delay a question but never hide it past its deadline: whatever asks, answers, hand-overs,
  escalations and digests came before, after the escalation pass of a project with an SLA every open question to a
  person that is as old as the SLA is marked escalated and is not held.
\<close>

theorem sla_reaches_person:
  assumes "reach (\<lambda>s. questions s = []) focus_step s" and sla: "0 < hu_sla_minutes human"
  shows "\<forall>q \<in> set (questions (escalate_stale_human_questions mids now since human s)).
           overdue since (hu_sla_minutes human) q \<longrightarrow> aq_escalated q \<and> \<not> aq_deferred q"
proof (intro ballI impI)
  let ?sla = "hu_sla_minutes human"
  fix q assume q: "q \<in> set (questions (escalate_stale_human_questions mids now since human s))" "overdue since ?sla q"
  then obtain r where r: "r \<in> set (questions s)"
      "q = (if overdue since ?sla r \<and> \<not> aq_escalated r then r\<lparr>aq_escalated := True, aq_deferred := False\<rparr> else r)"
    using sla by (auto simp: escalate_questions)
  have "aq_escalated r \<longrightarrow> \<not> aq_deferred r"
    using focus_sys.reach_inv [OF assms(1)] r(1) by (simp add: focus_ok_def)
  with r(2) q(2) show "aq_escalated q \<and> \<not> aq_deferred q" by (auto split: if_splits)
qed

definition example_human :: human_config where
  "example_human = \<lparr>hu_sla_minutes = 30, hu_focus_windows = [(''bob'', \<lparr>fw_window_utc = ''09:00-12:00'', fw_defer_to_digest = True\<rparr>)]\<rparr>"

definition example_asked :: project_state where
  "example_asked = dev_ask example_human 600 ''t'' ''m'' ''F1'' ''DEV'' ''ASK @bob: which colour is right?'' project_state_default"

definition example_question :: agent_question where
  "example_question =
     \<lparr>aq_id = ''F1#1'', aq_ticket = ''F1'', aq_from = ''DEV'', aq_to = ''@BOB'', aq_body = ''which colour is right?'', aq_answer = '''',
      aq_asked_at = ''t'', aq_answered_at = '''', aq_forwarded = False, aq_escalated = False, aq_deferred = True\<rparr>"

lemma unsplit: "list_all (\<lambda>c. \<not> p c) s \<Longrightarrow> split_on p s = [s]"
  by (induction s) auto

lemma example_ask: "parse_ask ''ASK @bob: which colour is right?'' = Some (''@BOB'', ''which colour is right?'')"
proof -
  let ?l = "''ASK @bob: which colour is right?''"
  have "trim ?l = ?l" "trim ''@bob'' = ''@bob''" "trim '' which colour is right?'' = ''which colour is right?''"
    by (simp_all add: trim_def is_white_def)
  moreover have "split_once '':'' ''@bob: which colour is right?'' = Some (''@bob'', '' which colour is right?'')"
    by (simp add: split_once.simps starts_with_def)
  moreover have "to_uppercase ''@bob'' = ''@BOB''" by code_simp
  moreover have "is_person ''@BOB''"
    by (simp add: is_person_def byte_len_def starts_with_def is_ascii_alphanumeric_def)
  moreover have "\<not> byte_len ''which colour is right?'' < 10" by (simp add: byte_len_def)
  ultimately have "ask_line ?l = Some (''@BOB'', ''which colour is right?'')"
    by (simp add: ask_line_def strip_prefix_def starts_with_def)
  moreover have "split_on (\<lambda>c. c = CHR 0x0A) ?l = [?l]" by (rule unsplit) simp
  then have "str_lines ?l = [?l]" unfolding str_lines_def Let_def by (simp del: split_on.simps)
  ultimately show ?thesis by (simp add: parse_ask_def List.map_filter_def)
qed

lemma example_minutes: "window_minute ''09:00'' = Some 540" "window_minute ''12:00'' = Some 720"
  by (simp_all add: window_minute_def trim_def is_white_def split_once.simps starts_with_def parse_uint_def
      is_ascii_digit_def U32_MAX_def)

lemma example_window: "in_quiet_window ''09:00-12:00'' m \<longleftrightarrow> 540 \<le> m \<and> m < 720"
  by (simp add: in_quiet_window_def trim_def is_white_def split_once.simps starts_with_def example_minutes)

lemma example_batching:
  "batching_on example_human ''@BOB'' = Some \<lparr>fw_window_utc = ''09:00-12:00'', fw_defer_to_digest = True\<rparr>"
  by code_simp

lemma example_questions: "questions example_asked = [example_question]"
proof -
  have "starts_with (trim ''@BOB'') ''@''" by code_simp
  then have "should_defer example_human ''@BOB'' 600 0 (hu_sla_minutes example_human)"
    by (simp add: should_defer_def example_batching example_window) (simp add: example_human_def)
  moreover have "ask_question ''t'' ''F1'' ''DEV'' ''@BOB'' ''which colour is right?'' social_default
      = (True, social_default\<lparr>so_questions := [example_question\<lparr>aq_deferred := False\<rparr>]\<rparr>)"
    by code_simp
  moreover have "st_social project_state_default = social_default" by (simp add: project_state_default_def)
  ultimately show ?thesis
    by (simp add: example_asked_def dev_ask_def example_ask Let_def hold_last_def example_question_def)
qed

lemma example_reach: "reach (\<lambda>s. questions s = []) focus_step example_asked"
  unfolding example_asked_def
proof (rule reach_step)
  show "reach (\<lambda>s. questions s = []) focus_step project_state_default"
    by (rule reach_init) (simp add: project_state_default_def social_default_def)
qed (rule by_dev)

theorem sla_reaches_person_witness:
  "\<exists>q. questions (escalate_stale_human_questions (\<lambda>n. ''m'') ''u'' (\<lambda>_. Some 1800) example_human example_asked) = [q]
     \<and> aq_to q = ''@BOB'' \<and> aq_escalated q \<and> \<not> aq_deferred q"
proof -
  let ?since = "\<lambda>_. Some 1800" and ?q = "example_question\<lparr>aq_escalated := True, aq_deferred := False\<rparr>"
  have "overdue ?since 30 example_question"
    by (simp add: overdue_def example_question_def q_is_open_def starts_with_def age_minutes_def)
  then have qs: "questions (escalate_stale_human_questions (\<lambda>n. ''m'') ''u'' ?since example_human example_asked) = [?q]"
    using example_questions by (simp add: escalate_questions example_human_def example_question_def)
  have "overdue ?since (hu_sla_minutes example_human) ?q"
    by (simp add: overdue_def example_human_def example_question_def q_is_open_def starts_with_def age_minutes_def)
  with sla_reaches_person [OF example_reach, of example_human "\<lambda>n. ''m''" "''u''" ?since]
  have "aq_escalated ?q \<and> \<not> aq_deferred ?q" by (auto simp: qs example_human_def)
  with qs show ?thesis by (intro exI [of _ ?q]) (simp add: example_question_def)
qed

section \<open>Digests\<close>

definition due_now :: "project_state \<Rightarrow> human_config \<Rightarrow> nat \<Rightarrow> agent_question \<Rightarrow> bool" where
  "due_now s human m q \<longleftrightarrow> held q \<and> window_over human m (aq_to q) \<and> still_relevant s q"

lemma push_owner_set: "set (fold push_owner qs os) = set os \<union> (\<lambda>q. owner_of (aq_to q)) ` set qs"
  by (induction qs arbitrary: os) (auto simp: push_owner_def Let_def)


lemma flush_batches_set:
  "set (flush_batches s human m) =
     {(o', b). b = filter (\<lambda>q. due_now s human m q \<and> owner_of (aq_to q) = o') (questions s) \<and> b \<noteq> []}"
proof -
  let ?b = "\<lambda>o'. filter (\<lambda>q. due_now s human m q \<and> owner_of (aq_to q) = o') (questions s)"
  let ?os = "(\<lambda>q. owner_of (aq_to q)) ` set (filter held (questions s))"
  have b: "filter (still_relevant s) (filter (\<lambda>q. window_over human m (aq_to q))
      (filter (\<lambda>q. owner_of (aq_to q) = o') (filter held (questions s)))) = ?b o'" for o'
    unfolding filter_filter by (rule filter_cong) (auto simp: due_now_def)
  have "flush_batches s human m = filter (\<lambda>(_, live). live \<noteq> [])
      (map (\<lambda>o'. (o', ?b o')) (fold push_owner (filter held (questions s)) []))"
    unfolding flush_batches_def select_deferred_def map_map comp_def prod.case b ..
  then have "set (flush_batches s human m) = {x \<in> (\<lambda>o'. (o', ?b o')) ` ?os. snd x \<noteq> []}"
    by (simp only: set_filter set_map push_owner_set list.set(1) Un_empty_left split_beta)
  moreover have "o' \<in> ?os" if "?b o' \<noteq> []" for o'
    using that by (force simp: filter_empty_conv due_now_def)
  ultimately show ?thesis by (auto simp del: set_filter)
qed










section \<open>What is left behind\<close>

text \<open>
  A person whose held questions are all stale gets no digest, and without a digest nothing of theirs is released: a
  question whose ticket has been finished or pruned stays held through every later pass.
\<close>

lemma stale_hold_stays:
  "\<exists>s q. reach (\<lambda>s. questions s = []) focus_step s \<and> questions s = [q] \<and> held q
     \<and> (\<forall>mids now human m. questions (flush_focus_digests mids now human m s) = [q])"
proof (intro exI conjI allI)
  let ?s = "example_asked"
  show "reach (\<lambda>s. questions s = []) focus_step ?s" by (rule example_reach)
  show "questions ?s = [example_question]" by (rule example_questions)
  show "held example_question" by code_simp
  have "st_tickets ?s = []"
    by (simp add: example_asked_def dev_ask_def example_ask Let_def project_state_default_def split: prod.split bool.split)
  then have "\<not> still_relevant ?s example_question" by (simp add: still_relevant_def example_question_def)
  then have "set (flush_batches ?s human m) = {}" for human m
    by (auto simp: flush_batches_set example_questions due_now_def)
  then show "questions (flush_focus_digests mids now human m ?s) = [example_question]" for mids now human m
    by (simp add: flush_questions release_flushed_def example_questions)
qed

text \<open>
  A question that was handed over once and whose second answerer hands it back is left as it is: two such questions at
  the head of the queue are all a pass looks at, and no question behind them is reached.
\<close>

lemma forwarded_refused:
  assumes "find (\<lambda>h. aq_id h = aq_id q) (so_questions so) = Some h" and "aq_forwarded h"
  shows "forward_question (aq_id q) d so = (False, so)"
  using assms by (simp add: forward_question_def)

lemma handed_back_stalls:
  assumes "answer_queue s = [q1, q2]"
    and "find (\<lambda>h. aq_id h = aq_id q1) (questions s) = Some h1" "aq_forwarded h1"
    and "find (\<lambda>h. aq_id h = aq_id q2) (questions s) = Some h2" "aq_forwarded h2"
    and "parse_ask a1 = Some b1" "parse_ask a2 = Some b2"
  shows "answer_one n2 m2 (Some a2) c2 q2 (answer_one n1 m1 (Some a1) c1 q1 s) = s"
proof -
  obtain d1 e1 d2 e2 where "b1 = (d1, e1)" "b2 = (d2, e2)" by (cases b1; cases b2)
  with assms show ?thesis by (simp add: answer_one_def Let_def forwarded_refused)
qed

end
