(* ===== verification/Rescue.thy ===== *)
theory Rescue
  imports Intake Claims Sprint Merge_Policy
begin

text \<open>
  Stuck work (\<open>use_cases/cycle/escalation.rs\<close>): the Scrum Master's push through the sprint
  (\<open>sm_drive_sprint_flow\<close>), the escalation of a parked ticket to a senior (\<open>sm_unpark_tickets\<close>,
  \<open>escalate_parked_ticket\<close>) with its budget, the split of a ticket too large for one run
  (\<open>split_oversize_ticket\<close>, \<open>parse_subtasks\<close>).

  The record \<open>team_state\<close> adds to the project state the fields only these read: the rescues spent per ticket
  and the days on which a daily job ran. What an engine replies, what JSON deserialises to, the clock, minted ids and
  the localised announcements (two languages, outside the character range) are arguments. Log lines are left out.
\<close>

section \<open>State\<close>

record team_state =
  tm_state :: project_state
  tm_redesigns :: "string \<rightharpoonup> nat"
  tm_daily_jobs :: "string \<rightharpoonup> string"

definition counter :: "(string \<rightharpoonup> nat) \<Rightarrow> string \<Rightarrow> nat" where
  "counter m k = (case m k of None \<Rightarrow> 0 | Some n \<Rightarrow> n)"

definition id_of :: "ticket \<Rightarrow> string" where
  "id_of t = ticket_id_str (tk_id t)"

definition on_ticket :: "string \<Rightarrow> (ticket \<Rightarrow> ticket) \<Rightarrow> project_state \<Rightarrow> project_state" where
  "on_ticket i f s = s\<lparr>st_tickets := update_first (\<lambda>t. id_of t = i) f (st_tickets s)\<rparr>"

section \<open>Driving the sprint\<close>

definition CHURN_ARREST :: nat where "CHURN_ARREST = 6"

definition settled_status :: "status \<Rightarrow> bool" where
  "settled_status st \<longleftrightarrow> st \<in> {Documented, Verified, Rejected}"

definition parent_str :: "ticket \<Rightarrow> string option" where
  "parent_str t = map_option ticket_id_str (tk_parent_id t)"

definition live_parents :: "project_state \<Rightarrow> string list" where
  "live_parents s = List.map_filter parent_str (filter (\<lambda>t. \<not> settled_status (tk_status t)) (st_tickets s))"

definition dead_children :: "project_state \<Rightarrow> string list" where
  "dead_children s =
     (let gone = map id_of (filter (\<lambda>t. tk_status t = Rejected) (st_tickets s)) in
      map id_of (filter (\<lambda>t. \<not> settled_status (tk_status t)
                            \<and> (case parent_str t of None \<Rightarrow> False | Some p \<Rightarrow> p \<in> set gone)) (st_tickets s)))"

definition held_bugs :: "string list \<Rightarrow> team_state \<Rightarrow> string list" where
  "held_bugs parents T =
     map id_of (filter (\<lambda>t. tk_kind t = Bug \<and> tk_status t = OnHold \<and> id_of t \<notin> set parents
       \<and> counter (st_ticket_fail_attempts (tm_state T)) (id_of t) < CHURN_ARREST
       \<and> counter (tm_redesigns T) (id_of t) < MAX_TICKET_RESCUES + 5) (st_tickets (tm_state T)))"

definition arrested :: "team_state \<Rightarrow> string list" where
  "arrested T =
     (let fails = counter (st_ticket_fail_attempts (tm_state T)) in
      map (\<lambda>t. id_of t @ '' ('' @ nat_str (fails (id_of t)) @ ''x)'')
        (filter (\<lambda>t. tk_kind t = Bug \<and> tk_status t = OnHold \<and> CHURN_ARREST \<le> fails (id_of t)) (st_tickets (tm_state T))))"

definition arrest_message :: "string list \<Rightarrow> string" where
  "arrest_message as =
     ''[stop] Churn arrest: '' @ nat_str (length as) @ '' bug(s) stuck past '' @ nat_str CHURN_ARREST
       @ '' attempts, no longer auto-resumed - SA please split or escalate: '' @ join '', '' as"

definition report_arrested :: "string \<Rightarrow> string \<Rightarrow> team_state \<Rightarrow> team_state" where
  "report_arrested mid now T =
     (let as = arrested T; today = take 10 now; s = tm_state T in
      if as \<noteq> [] \<and> tm_daily_jobs T ''churn_arrest'' \<noteq> Some today
      then T\<lparr>tm_daily_jobs := (tm_daily_jobs T)(''churn_arrest'' \<mapsto> today),
             tm_state := s\<lparr>st_social := post_chat_in mid now ''SM'' (arrest_message as) AGENTS_CHANNEL [] (st_social s)\<rparr>\<rparr>
      else T)"

definition drive_one :: "string list \<Rightarrow> ticket \<Rightarrow> ticket" where
  "drive_one parents t =
     (if tk_status t = OnHold \<and> id_of t \<notin> set parents then snd (transition_to Sm Pending t)
      else if tk_status t \<in> {Open, Pending, Ready} \<and> tk_priority t \<noteq> High then snd (set_priority Po High t)
      else t)"

definition sm_drive_sprint_flow :: "string \<Rightarrow> string \<Rightarrow> team_state \<Rightarrow> team_state" where
  "sm_drive_sprint_flow mid now T =
     (let s = tm_state T;
          scope = (case st_sprint s of None \<Rightarrow> [] | Some sp \<Rightarrow> map ticket_id_str (sp_committed sp)) in
      if scope = [] then T
      else
        let parents = live_parents s;
            s1 = fold (\<lambda>i. on_ticket i (\<lambda>t. snd (transition_to System Rejected t))) (dead_children s) s;
            T1 = T\<lparr>tm_state := s1\<rparr>;
            bugs = held_bugs parents T1;
            T2 = report_arrested mid now T1;
            s2 = fold (\<lambda>i. on_ticket i (\<lambda>t. snd (transition_to Sm Open t))) bugs (tm_state T2);
            s3 = fold (\<lambda>i. on_ticket i (drive_one parents)) scope s2
        in T2\<lparr>tm_state := s3\<rparr>)"

section \<open>Escalating a parked ticket\<close>

definition CAP_WORDS :: string where "CAP_WORDS = ''iteration/token cap''"

definition rescuable :: "team_state \<Rightarrow> string \<Rightarrow> bool" where
  "rescuable T i =
     (case st_ticket_fail_attempts (tm_state T) i of
        None \<Rightarrow> False
      | Some n \<Rightarrow>
          if n < 3 then False
          else let spent = counter (tm_redesigns T) i;
                   caps = length (filter (\<lambda>f. contains_str (af_detail f) CAP_WORDS) (attempt_failures (tm_state T) i))
               in spent < MAX_TICKET_RESCUES \<or> (2 \<le> caps \<and> spent < MAX_TICKET_RESCUES + 5))"

text \<open>The attempt counters are walked in the order of their keys; a key without a ticket is passed over.\<close>

definition unpark_candidate :: "team_state \<Rightarrow> (string \<times> string) option" where
  "unpark_candidate T =
     (case filter (rescuable T) (sort (map id_of (st_tickets (tm_state T)))) of
        [] \<Rightarrow> None
      | i # _ \<Rightarrow> map_option (\<lambda>t. (i, tk_title t)) (find (\<lambda>t. id_of t = i) (st_tickets (tm_state T))))"

definition layer_debug :: "failure_layer \<Rightarrow> string" where
  "layer_debug l = (case l of LSpec \<Rightarrow> ''Spec'' | LGate \<Rightarrow> ''Gate'' | LDesign \<Rightarrow> ''Design'' | LInfra \<Rightarrow> ''Infra'')"

definition failure_line :: "attempt_failure \<Rightarrow> string" where
  "failure_line f =
     ''attempt '' @ nat_str (af_attempt f) @ '' - rejected by '' @ af_gate f @ '' ('' @ layer_debug (af_layer f) @ ''): '' @ af_detail f"

definition failure_history :: "project_state \<Rightarrow> string \<Rightarrow> string" where
  "failure_history s i =
     (let fs = attempt_failures s i in
      if fs = [] then join [CHR 0x0A] (log_entry (st_ticket_journal s) i)
      else join [CHR 0x0A] (map failure_line fs))"

definition thin_spec :: "project_state \<Rightarrow> string \<Rightarrow> bool" where
  "thin_spec s i =
     (case find (\<lambda>t. id_of t = i) (st_tickets s) of
        None \<Rightarrow> False
      | Some t \<Rightarrow> tk_acceptance_criteria t = [] \<or> byte_len (trim (tk_description t)) < 80)"

definition rescue_route :: "project_state \<Rightarrow> string \<Rightarrow> takeover_route" where
  "rescue_route s i =
     (let fs = attempt_failures s i in
      if fs = [] then escalation_route (failure_history s i) (thin_spec s i)
      else route_from_failures fs (thin_spec s i))"

definition claim_rescue :: "nat \<Rightarrow> string \<Rightarrow> team_state \<Rightarrow> port_error + team_state" where
  "claim_rescue budget i T =
     (let spent = counter (tm_redesigns T) i in
      if budget \<le> spent then Inl (State_Store.Conflict ''rescues exhausted'')
      else Inr (T\<lparr>tm_redesigns := (tm_redesigns T)(i \<mapsto> spent + 1)\<rparr>))"

definition rescuer :: "takeover_route \<Rightarrow> string" where
  "rescuer r = (if r = RouteSpec then ''BA'' else ''SA'')"

definition rescue_edit :: "takeover_route \<Rightarrow> string \<Rightarrow> ticket \<Rightarrow> ticket" where
  "rescue_edit r out t =
     (if r = RouteSpec then snd (clarify Ba out t)
      else snd (set_technical_design Sa (technical_design_default\<lparr>td_approach := out\<rparr>) t))"

text \<open>The second write of a rescue. \<open>say\<close> gives the announcement of a route, its number and the ticket.\<close>

definition apply_rescue ::
  "(takeover_route \<Rightarrow> nat \<Rightarrow> string \<Rightarrow> string) \<Rightarrow> string \<Rightarrow> string \<Rightarrow> string \<Rightarrow> string \<Rightarrow> takeover_route \<Rightarrow> string
   \<Rightarrow> team_state \<Rightarrow> team_state" where
  "apply_rescue say mid1 mid2 now i r out T =
     (let s1 = on_ticket i (rescue_edit r out) (tm_state T);
          s2 = s1\<lparr>st_ticket_fail_attempts := (st_ticket_fail_attempts s1)(i := None)\<rparr>;
          s3 = journal_note i (rescuer r @ '' rescue: '' @ out) s2;
          attempt = (case tm_redesigns T i of None \<Rightarrow> 1 | Some n \<Rightarrow> n);
          msg = say r attempt i;
          so = post_chat_in mid2 now ''SM'' msg AGENTS_CHANNEL [] (post_comment mid1 now ''SM'' msg (Some i) (st_social s3))
      in T\<lparr>tm_state := s3\<lparr>st_social := so\<rparr>\<rparr>)"

section \<open>Splitting\<close>

record proposed_subtask =
  sub_title :: string
  sub_description :: string
  sub_criteria :: "string list"
  sub_complexity :: string
  sub_service_tag :: string

definition parse_subtasks :: "(string \<Rightarrow> proposed_subtask list option) \<Rightarrow> string \<Rightarrow> proposed_subtask list option" where
  "parse_subtasks from_json raw =
     (let txt = trim raw in
      case (find_char (CHR ''['') txt, rfind_char (CHR '']'') txt) of
        (Some start, Some ending) \<Rightarrow>
          if ending \<le> start then None
          else (case from_json (str_slice txt start ending) of
            None \<Rightarrow> None
          | Some all \<Rightarrow>
              let subs = take 3 (filter (\<lambda>x. \<not> is_blank (sub_title x) \<and> \<not> is_blank (sub_description x)) all) in
              if length subs < 2 then None else Some subs)
      | _ \<Rightarrow> None)"

definition NO_REPLY :: string where "NO_REPLY = ''(the model finished without a text reply''"

definition no_reply :: "string \<Rightarrow> bool" where
  "no_reply out \<longleftrightarrow> is_blank out \<or> starts_with (dropWhile is_white out) NO_REPLY"

definition refund :: "string \<Rightarrow> team_state \<Rightarrow> team_state" where
  "refund i T =
     T\<lparr>tm_redesigns := (case tm_redesigns T i of None \<Rightarrow> tm_redesigns T | Some n \<Rightarrow> (tm_redesigns T)(i \<mapsto> n - 1)),
       tm_state := journal_note i ''oversize split brief got no engine output - rescue refunded'' (tm_state T)\<rparr>"

definition child_of ::
  "string \<Rightarrow> string \<Rightarrow> ticket \<Rightarrow> ticket_id \<Rightarrow> ticket_id option \<Rightarrow> nat \<Rightarrow> nat \<Rightarrow> proposed_subtask \<Rightarrow> domain_error + ticket" where
  "child_of now title parent cid prev k n sub =
     (case ticket_new cid (tk_kind parent) (sub_title sub @ '' ['' @ nat_str k @ ''/'' @ nat_str n @ '']'')
             (''Subtask of '' @ id_of parent @ '' ('' @ dquoted title @ ''). '' @ sub_description sub)
             (tk_priority parent)
             (if map ascii_lower (sub_complexity sub) = ''small'' then Small else CMedium) False of
        Inl e \<Rightarrow> Inl e
      | Inr t \<Rightarrow>
          let t = set_acceptance_criteria (sub_criteria sub) (stamp_created_at now t);
              tag = (if is_blank (sub_service_tag sub) then tk_service_tag parent else Some (trim (sub_service_tag sub)));
              t = (case tag of None \<Rightarrow> t | Some g \<Rightarrow> snd (set_service_tag Sa g t));
              t = snd (set_parent Sa (tk_id parent) t);
              t = (case prev of None \<Rightarrow> t | Some p \<Rightarrow> snd (add_dependency Sa p t))
          in Inr t)"

text \<open>The loop over the subtasks: the tickets so far, the last child and the ids of the children.\<close>

definition file_child ::
  "string \<Rightarrow> string \<Rightarrow> string \<Rightarrow> ticket \<Rightarrow> nat \<Rightarrow> proposed_subtask
   \<Rightarrow> ticket list \<times> ticket_id option \<times> string list \<Rightarrow> ticket list \<times> ticket_id option \<times> string list" where
  "file_child now ali title parent n sub acc =
     (case acc of (ts, prev, kids) \<Rightarrow>
       (case mint_id (tk_kind parent) ali ts of
          Inl _ \<Rightarrow> acc
        | Inr cid \<Rightarrow>
            (case child_of now title parent cid prev (length kids + 1) n sub of
               Inl _ \<Rightarrow> acc
             | Inr child \<Rightarrow> (ts @ [child], Some cid, kids @ [ticket_id_str cid]))))"

definition file_children ::
  "(string list \<Rightarrow> string) \<Rightarrow> string \<Rightarrow> string \<Rightarrow> string \<Rightarrow> string \<Rightarrow> string \<Rightarrow> proposed_subtask list \<Rightarrow> team_state \<Rightarrow> team_state" where
  "file_children say mid now ali i title subs T =
     (case find (\<lambda>t. id_of t = i) (st_tickets (tm_state T)) of
        None \<Rightarrow> T
      | Some parent \<Rightarrow>
          (case fold (file_child now ali title parent (length subs)) subs (st_tickets (tm_state T), None, []) of
             (ts, _, kids) \<Rightarrow>
               let s = (tm_state T)\<lparr>st_tickets := ts\<rparr> in
               if kids = [] then T\<lparr>tm_state := s\<rparr>
               else let s1 = on_ticket i (\<lambda>t. snd (transition_to System OnHold t)) s;
                        s2 = s1\<lparr>st_ticket_fail_attempts := (st_ticket_fail_attempts s1)(i := None)\<rparr>;
                        s3 = journal_note i (''split into subtasks: '' @ join '', '' kids) s2
                    in T\<lparr>tm_state := s3\<lparr>st_social := post_chat mid now ''SM'' (say kids) (st_social s3)\<rparr>\<rparr>))"

definition split_oversize_ticket ::
  "(string list \<Rightarrow> string) \<Rightarrow> (string \<Rightarrow> proposed_subtask list option) \<Rightarrow> string option \<Rightarrow> string \<Rightarrow> string \<Rightarrow> string
   \<Rightarrow> string \<Rightarrow> string \<Rightarrow> team_state \<Rightarrow> team_state" where
  "split_oversize_ticket say from_json reply mid now ali i title T =
     (case claim_rescue (MAX_TICKET_RESCUES + 5) i T of
        Inl _ \<Rightarrow> T
      | Inr T1 \<Rightarrow>
          let out = (case reply of None \<Rightarrow> [] | Some o' \<Rightarrow> o') in
          if no_reply out then refund i T1
          else case parse_subtasks from_json out of
            None \<Rightarrow> T1\<lparr>tm_state := journal_note i
                     (''SA split attempt produced no parseable subtasks; reply head: '' @ take 300 out) (tm_state T1)\<rparr>
          | Some subs \<Rightarrow> file_children say mid now ali i title subs T1)"

text \<open>The whole escalation, with no other writer between its two writes.\<close>

definition escalate_parked_ticket ::
  "(takeover_route \<Rightarrow> nat \<Rightarrow> string \<Rightarrow> string) \<Rightarrow> (string list \<Rightarrow> string) \<Rightarrow> (string \<Rightarrow> proposed_subtask list option)
   \<Rightarrow> string option \<Rightarrow> string \<Rightarrow> string \<Rightarrow> string \<Rightarrow> string \<Rightarrow> string \<Rightarrow> string \<Rightarrow> team_state \<Rightarrow> team_state" where
  "escalate_parked_ticket say say_split from_json reply mid1 mid2 now ali i title T =
     (let r = rescue_route (tm_state T) i in
      if r = RouteOversize then split_oversize_ticket say_split from_json reply mid1 now ali i title T
      else case claim_rescue MAX_TICKET_RESCUES i T of
        Inl _ \<Rightarrow> T
      | Inr T1 \<Rightarrow>
          let out = (case reply of None \<Rightarrow> [] | Some o' \<Rightarrow> take 1200 (trim o')) in
          if byte_len out < 40 then T1 else apply_rescue say mid1 mid2 now i r out T1)"

definition sm_unpark_tickets ::
  "(takeover_route \<Rightarrow> nat \<Rightarrow> string \<Rightarrow> string) \<Rightarrow> (string list \<Rightarrow> string) \<Rightarrow> (string \<Rightarrow> proposed_subtask list option)
   \<Rightarrow> string option \<Rightarrow> string \<Rightarrow> string \<Rightarrow> string \<Rightarrow> string \<Rightarrow> team_state \<Rightarrow> team_state" where
  "sm_unpark_tickets say say_split from_json reply mid1 mid2 now ali T =
     (case unpark_candidate T of
        None \<Rightarrow> T
      | Some (i, title) \<Rightarrow> escalate_parked_ticket say say_split from_json reply mid1 mid2 now ali i title T)"

end
