(* ===== verification/Recovery.thy ===== *)
theory Recovery
  imports Rescue
begin

text \<open>
  The decision core of the daily recovery (\<open>use_cases/daily_recovery.rs\<close>), the recovery after a crash
  (\<open>use_cases/recover.rs\<close>), and the two watches of \<open>cycle/recovery.rs\<close>: the recovery mode of the merge queue and the
  monitor of the deployed app. The open pull requests, the answers of the forge and of the health probe, the outcome of
  a save and the localised announcements are arguments. What the monitor does besides the state is a list of
  actions. Dashes of the texts are written in ASCII.
\<close>

section \<open>Daily recovery\<close>

definition DAILY_RECOVERY_FLOOR :: nat where "DAILY_RECOVERY_FLOOR = MAX_TICKET_RESCUES + 5"

definition SWEEP_ACTOR :: string where "SWEEP_ACTOR = ''daily-sweep''"

record recovery_snapshot =
  rs_id :: string
  rs_ticket_type :: ticket_type
  rs_status :: status
  rs_rescues_used :: nat
  rs_attempts :: "attempt_failure list"
  rs_hold_reason :: "string option"
  rs_live_parent :: bool

datatype recovery_block = RescueBudgetRemaining | LiveParent | HumanHold | NotHeldBug | NoCountedFailure

definition block_str :: "recovery_block \<Rightarrow> string" where
  "block_str b =
     (case b of RescueBudgetRemaining \<Rightarrow> ''rescue-budget-remaining'' | LiveParent \<Rightarrow> ''live-parent''
      | HumanHold \<Rightarrow> ''human-hold'' | NotHeldBug \<Rightarrow> ''not-held-bug'' | NoCountedFailure \<Rightarrow> ''no-counted-failure'')"

definition explain :: "recovery_block \<Rightarrow> recovery_snapshot \<Rightarrow> string" where
  "explain b sn =
     ''kept held by '' @ SWEEP_ACTOR @ '': '' @
     (case b of
        RescueBudgetRemaining \<Rightarrow>
          ''rescue budget not spent yet ('' @ nat_str (rs_rescues_used sn) @ '' rescue(s) < floor ''
            @ nat_str DAILY_RECOVERY_FLOOR @ '') - the unpark lane owns it this cycle''
      | LiveParent \<Rightarrow> ''parent ticket is still live - the child resumes with its parent, not on the sweep''
      | HumanHold \<Rightarrow> ''a human parked it deliberately (hold reason''
          @ (case rs_hold_reason sn of Some r \<Rightarrow> '': '' @ dquoted r @ '')'' | None \<Rightarrow> '' recorded separately)'')
      | NotHeldBug \<Rightarrow> ''not a bug in OnHold - outside the daily-recovery lane''
      | NoCountedFailure \<Rightarrow>
          if rs_attempts sn = [] then ''no failure recorded - the sweep never acts without evidence''
          else ''every recorded failure is infra-layer, which never counts - resuming would burn an attempt on nobody's fault'')"

record recovery_verdict =
  rv_snapshot_id :: string
  rv_eligible :: bool
  rv_blocked :: "recovery_block option"
  rv_diagnosis :: string

definition counted_failures :: "recovery_snapshot \<Rightarrow> nat" where
  "counted_failures sn = length (filter (\<lambda>f. af_layer f \<noteq> LInfra) (rs_attempts sn))"

definition route_owner :: "takeover_route \<Rightarrow> string" where
  "route_owner r =
     (case r of RouteSpec \<Rightarrow> ''BA (spec)'' | RouteMechanical \<Rightarrow> ''SA repair (mechanical gates)''
      | RouteDesign \<Rightarrow> ''SA (design)'' | RouteOversize \<Rightarrow> ''SA (split - oversize)'')"

definition resume_diagnosis :: "recovery_snapshot \<Rightarrow> string \<Rightarrow> string" where
  "resume_diagnosis sn at' =
     (let used = nat_str (rs_rescues_used sn);
          latest = (case find (\<lambda>f. af_layer f \<noteq> LInfra) (rev (rs_attempts sn)) of
              None \<Rightarrow> ''(no failure recorded)''
            | Some f \<Rightarrow> ''['' @ layer_debug (af_layer f) @ ''/'' @ af_gate f @ ''] '' @ af_detail f);
          because = (case rs_hold_reason sn of
              None \<Rightarrow> ''auto-held after '' @ used @ '' senior rescue(s) exhausted''
            | Some r \<Rightarrow> ''parked by hand: '' @ dquoted r)
      in SWEEP_ACTOR @ '' at '' @ at' @ '': resuming - swept because rescues_used '' @ used @ '' >= recovery floor ''
         @ nat_str DAILY_RECOVERY_FLOOR @ '' (unpark lane left it); '' @ because @ ''; '' @ nat_str (counted_failures sn)
         @ '' counted failure(s), routed to '' @ route_owner (route_from_failures (rs_attempts sn) False)
         @ ''; last failure: '' @ latest)"

definition recovery_block_of :: "recovery_snapshot \<Rightarrow> recovery_block option" where
  "recovery_block_of sn =
     (if rs_ticket_type sn \<noteq> Bug \<or> rs_status sn \<noteq> OnHold then Some NotHeldBug
      else if rs_hold_reason sn \<noteq> None then Some HumanHold
      else if rs_live_parent sn then Some LiveParent
      else if rs_rescues_used sn < DAILY_RECOVERY_FLOOR then Some RescueBudgetRemaining
      else if counted_failures sn = 0 then Some NoCountedFailure
      else None)"

definition recovery_eligibility :: "recovery_snapshot \<Rightarrow> string \<Rightarrow> recovery_verdict" where
  "recovery_eligibility sn at' =
     (let b = recovery_block_of sn in
      \<lparr>rv_snapshot_id = rs_id sn, rv_eligible = (b = None), rv_blocked = b,
       rv_diagnosis = (case b of Some c \<Rightarrow> explain c sn | None \<Rightarrow> resume_diagnosis sn at')\<rparr>)"

record recovery_plan =
  rp_verdicts :: "recovery_verdict list"
  rp_eligible :: nat
  rp_blocked :: nat

definition daily_recovery_plan :: "recovery_snapshot list \<Rightarrow> string \<Rightarrow> recovery_plan" where
  "daily_recovery_plan snaps at' =
     (let vs = sort_by (\<lambda>a b. rv_eligible b \<longrightarrow> rv_eligible a) (map (\<lambda>sn. recovery_eligibility sn at') snaps);
          n = length (filter rv_eligible vs)
      in \<lparr>rp_verdicts = vs, rp_eligible = n, rp_blocked = length vs - n\<rparr>)"

section \<open>Recovery after a crash\<close>

fun release_all :: "ticket_id list \<Rightarrow> project_state \<Rightarrow> domain_error + project_state" where
  "release_all [] s = Inr s"
| "release_all (i # is') s =
     (case ticket s i of
        None \<Rightarrow> release_all is' s
      | Some t \<Rightarrow>
          (case release_claim System t of
             (Inl e, _) \<Rightarrow> Inl e
           | (Inr _, t') \<Rightarrow> release_all is' (with_ticket_mut i (\<lambda>_. t') s)))"

text \<open>The ids released and the state to save, if it is to be saved.\<close>

definition recover :: "project_state \<Rightarrow> domain_error + ticket_id list \<times> project_state option" where
  "recover s =
     (let orphaned = map tk_id (filter (\<lambda>t. tk_status t = InProgress) (st_tickets s)) in
      if orphaned = [] then Inr ([], None)
      else case release_all orphaned s of
        Inl e \<Rightarrow> Inl e
      | Inr s' \<Rightarrow> Inr (orphaned, Some s'))"

section \<open>The recovery mode of the merge queue\<close>

definition recovery_threshold :: "nat \<Rightarrow> nat" where
  "recovery_threshold max_open_prs = max (max_open_prs * 2) 8"

record queue_state =
  qs_social :: social
  qs_recovery :: bool
  qs_pr_fix_attempts :: "nat \<rightharpoonup> nat"
  qs_seen_closed :: "nat set"

record open_pr =
  pr_number :: nat
  pr_title :: string
  pr_mergeable :: bool

definition RESOLVER :: string where "RESOLVER = ''Resolve merge conflict on PR #''"

definition sm_chat :: "string \<Rightarrow> string \<Rightarrow> string \<Rightarrow> social \<Rightarrow> social" where
  "sm_chat mid now msg so = post_chat_in mid now ''SM'' msg AGENTS_CHANNEL [] so"

text \<open>
  \<open>msgs\<close> are the announcements of the end, of the start and of the state of the queue given the number of conflicting
  requests; \<open>prs\<close> and \<open>prs2\<close> are what the forge lists when asked, if it answers; \<open>closes\<close> tells whether closing a request succeeds.
\<close>

definition run_queue_recovery ::
  "string \<times> string \<times> (nat \<Rightarrow> string) \<Rightarrow> (nat \<Rightarrow> string) \<Rightarrow> string \<Rightarrow> open_pr list option \<Rightarrow> open_pr list option \<Rightarrow> (nat \<Rightarrow> bool) \<Rightarrow> nat \<Rightarrow> nat option
   \<Rightarrow> queue_state \<Rightarrow> bool \<times> queue_state" where
  "run_queue_recovery msgs mid now prs prs2 closes limit queue q =
     (case queue of
        None \<Rightarrow> (False, q)
      | Some n \<Rightarrow>
          if n < recovery_threshold limit then
            (False, if n \<le> limit \<and> qs_recovery q
                    then q\<lparr>qs_recovery := False, qs_social := sm_chat (mid 0) now (fst msgs) (qs_social q)\<rparr>
                    else q)
          else
            let start = fst (snd msgs);
                q1 = (if \<not> qs_recovery q
                      then q\<lparr>qs_recovery := True, qs_pr_fix_attempts := Map.empty,
                             qs_social := sm_chat (mid 1) now start (post_comment (mid 0) now ''SM'' start None (qs_social q))\<rparr>
                      else q);
                q2 = (case prs of
                    None \<Rightarrow> q1
                  | Some ps \<Rightarrow>
                      if qs_recovery q1
                      then q1\<lparr>qs_social := sm_chat (mid 2) now
                             (snd (snd msgs) (length (filter (\<lambda>p. \<not> pr_mergeable p) ps))) (qs_social q1)\<rparr>
                      else q1);
                q3 = (case prs2 of
                    None \<Rightarrow> q2
                  | Some ps \<Rightarrow> q2\<lparr>qs_seen_closed := qs_seen_closed q2 \<union>
                      pr_number ` set (filter (\<lambda>p. contains_str (pr_title p) RESOLVER \<and> closes (pr_number p)) ps)\<rparr>)
            in (True, q3))"

section \<open>The monitor of the deployed app\<close>

datatype ops_action = FileDownBug | NotifyDown | NotifyUp | LiveRollback

record ops_state =
  op_down :: bool
  op_streak :: nat

text \<open>
  One tick of the monitor once something has been deployed. \<open>healthy\<close> is the probe, taken for healthy when it fails;
  \<open>saved\<close> tells whether the write goes through. The streak is a \<open>u32\<close> that saturates.
\<close>

definition ops_monitor :: "nat \<Rightarrow> bool \<Rightarrow> bool \<Rightarrow> ops_state \<Rightarrow> ops_action list \<times> ops_state" where
  "ops_monitor fail_checks healthy saved o' =
     (let bump = min U32_MAX (op_streak o' + 1) in
      if \<not> healthy then
        ((if \<not> op_down o' then [FileDownBug, NotifyDown] else [])
           @ (if bump = max fail_checks 1 then [LiveRollback] else []),
         if saved then \<lparr>op_down = True, op_streak = bump\<rparr> else o')
      else if op_down o' then ([NotifyUp], if saved then \<lparr>op_down = False, op_streak = 0\<rparr> else o')
      else ([], o'))"

fun ops_run :: "nat \<Rightarrow> bool list \<Rightarrow> ops_state \<Rightarrow> ops_action list" where
  "ops_run n [] o' = []"
| "ops_run n (h # hs) o' = fst (ops_monitor n h True o') @ ops_run n hs (snd (ops_monitor n h True o'))"

end
