(* ===== verification/Rescue_Properties.thy ===== *)
theory Rescue_Properties
  imports Recovery Sprint_Properties
begin

text \<open>
  What rescues may do and what they leave undone: tickets move along legal edges only, a split is a chain of new
  tickets on a valid backlog, the budget of rescues holds under any interleaving, the crash recovery frees every claim,
  an outage is reported and rolled back once; and the lanes that each leave a held bug to another.
\<close>

section \<open>Writes by id\<close>

definition look :: "project_state \<Rightarrow> string \<Rightarrow> ticket option" where
  "look s i = find (\<lambda>t. id_of t = i) (st_tickets s)"

text \<open>What a write of these components may change of a ticket: what its own methods change, never its identity.\<close>

definition follows :: "ticket \<Rightarrow> ticket \<Rightarrow> bool" where
  "follows t t' \<longleftrightarrow>
     ticket_step\<^sup>*\<^sup>* t t' \<and> tk_id t' = tk_id t \<and> tk_kind t' = tk_kind t \<and> tk_parent_id t' = tk_parent_id t
     \<and> tk_depends_on t' = tk_depends_on t"

definition all_follow :: "project_state \<Rightarrow> project_state \<Rightarrow> bool" where
  "all_follow s s' \<longleftrightarrow> list_all2 follows (st_tickets s) (st_tickets s')"

lemma follows_refl [simp]: "follows t t"
  by (simp add: follows_def)

lemma follows_trans: "follows t u \<Longrightarrow> follows u v \<Longrightarrow> follows t v"
  by (auto simp: follows_def)

lemma all_follow_refl [simp]: "all_follow s s"
  by (simp add: all_follow_def list_all2_refl)

lemma all_follow_trans: "all_follow s t \<Longrightarrow> all_follow t u \<Longrightarrow> all_follow s u"
  unfolding all_follow_def by (rule list_all2_trans [OF follows_trans])

lemma follows_transition: "follows t (snd (transition_to a dst t))"
proof (cases "may_move a dst t")
  case True
  then have e: "transition_to a dst t = (Inr (), moved dst t)" by (rule transition_to_ok)
  then have "ticket_step t (moved dst t)" by (rule step_transition)
  then show ?thesis by (auto simp: e follows_def moved_def)
next
  case False
  then obtain e where "transition_to a dst t = (Inl e, t)" using transition_to_err by blast
  then show ?thesis by simp
qed



lemma follows_rescue_edit: "follows t (rescue_edit r out t)"
proof -
  have c: "follows t (snd (clarify Ba out t))"
  proof (cases "is_blank out")
    case False
    then have e: "clarify Ba out t = (Inr (), t\<lparr>tk_description := trim out\<rparr>)" by (simp add: op_defs)
    then show ?thesis using step_clarify [OF e] by (auto simp: follows_def)
  qed (simp add: op_defs)
  have "follows t (snd (set_technical_design Sa d t))" for d
  proof -
    have e: "set_technical_design Sa d t = (Inr (), t\<lparr>tk_design := (tk_design t)\<lparr>d_technical := Some d\<rparr>\<rparr>)"
      by (simp add: op_defs field_permitted_def)
    then show ?thesis using step_technical [OF e] by (auto simp: follows_def)
  qed
  with c show ?thesis by (simp add: rescue_edit_def)
qed

lemma update_first_follow:
  "(\<And>t. follows t (f t)) \<Longrightarrow> list_all2 follows ts (update_first p f ts)"
  by (induction ts) (auto simp: list_all2_refl)

lemma on_ticket_follow: "(\<And>t. follows t (f t)) \<Longrightarrow> all_follow s (on_ticket i f s)"
  by (simp add: all_follow_def on_ticket_def update_first_follow)


lemma all_follow_same_tickets: "st_tickets s' = st_tickets s \<Longrightarrow> all_follow s s'"
  by (simp add: all_follow_def list_all2_refl)

lemma report_arrested_tickets [simp]:
  "st_tickets (tm_state (report_arrested mid now T)) = st_tickets (tm_state T)"
  "st_ticket_fail_attempts (tm_state (report_arrested mid now T)) = st_ticket_fail_attempts (tm_state T)"
  "st_ticket_failures (tm_state (report_arrested mid now T)) = st_ticket_failures (tm_state T)"
  "tm_redesigns (report_arrested mid now T) = tm_redesigns T"
  "st_sprint (tm_state (report_arrested mid now T)) = st_sprint (tm_state T)"
  by (simp_all add: report_arrested_def Let_def)


lemma journal_note_tickets [simp]: "st_tickets (journal_note i n s) = st_tickets s"
  by (simp add: journal_note_def push_note_def Let_def)

lemma apply_rescue_follow: "all_follow (tm_state T) (tm_state (apply_rescue say m1 m2 now i r out T))"
proof -
  have "all_follow (tm_state T) (on_ticket i (rescue_edit r out) (tm_state T))"
    by (rule on_ticket_follow) (rule follows_rescue_edit)
  then show ?thesis by (rule all_follow_trans) (rule all_follow_same_tickets, simp add: apply_rescue_def Let_def)
qed

lemma all_follow_map:
  assumes "all_follow s s'"
  shows "map tk_id (st_tickets s') = map tk_id (st_tickets s)"
    and "map tk_depends_on (st_tickets s') = map tk_depends_on (st_tickets s)"
    and "length (st_tickets s') = length (st_tickets s)"
  using assms unfolding all_follow_def
  by (induction rule: list_all2_induct) (auto simp: follows_def)

lemma ticket_deps_cong:
  "list_all2 follows ts ts' \<Longrightarrow>
   map_option tk_depends_on (find (\<lambda>t. tk_id t = i) ts') = map_option tk_depends_on (find (\<lambda>t. tk_id t = i) ts)"
  by (induction rule: list_all2_induct) (auto simp: follows_def)

lemma all_follow_backlog: "all_follow s s' \<Longrightarrow> backlog_ok s \<Longrightarrow> backlog_ok s'"
proof -
  assume f: "all_follow s s'" and ok: "backlog_ok s"
  have "deps s' i = deps s i" for i
    using ticket_deps_cong [of "st_tickets s" "st_tickets s'" i] f
    by (auto simp: all_follow_def deps_def ticket_def split: option.splits)
  then have e: "edge s' = edge s" by (simp add: fun_eq_iff edge_def)
  have ids: "tk_id ` set (st_tickets s') = tk_id ` set (st_tickets s)"
    using all_follow_map(1) [OF f] by (metis list.set_map)
  have "tk_depends_on ` set (st_tickets s') = tk_depends_on ` set (st_tickets s)"
    using all_follow_map(2) [OF f] by (metis list.set_map)
  then have "\<forall>t \<in> set (st_tickets s'). set (tk_depends_on t) \<subseteq> tk_id ` set (st_tickets s')"
    using ok unfolding backlog_ok_def ids by (metis (no_types, lifting) image_iff)
  with ok show ?thesis unfolding backlog_ok_def e all_follow_map(1) [OF f] by auto
qed

section \<open>Splits\<close>

text \<open>Room for the numbers of \<open>n\<close> more tickets of a kind.\<close>

definition room :: "nat \<Rightarrow> ticket_type \<Rightarrow> string \<Rightarrow> ticket list \<Rightarrow> bool" where
  "room n k ali ts \<longleftrightarrow> n \<le> U64_MAX \<and> list_all (\<lambda>m. m + n \<le> U64_MAX) (id_numbers (id_prefix k ali) ts)"

lemma fold_max_room: "(a :: nat) + n \<le> M \<Longrightarrow> list_all (\<lambda>m. m + n \<le> M) xs \<Longrightarrow> fold max xs a + n \<le> M"
  by (induction xs arbitrary: a) (auto simp: max_def)

lemma room_fits: "room (Suc n) k ali ts \<Longrightarrow> numbers_fit k ali ts"
  by (auto simp: room_def numbers_fit_def list_all_iff)

lemma room_push:
  assumes "room (Suc n) k ali ts" and "mint_id k ali ts = Inr (tk_id t)"
  shows "room n k ali (ts @ [t])"
proof -
  let ?p = "id_prefix k ali"
  let ?m = "fold max (id_numbers ?p ts) 0"
  have id: "ticket_id_str (tk_id t) = ?p @ pad_digits 3 (nat_str (?m + 1))" and lt: "?m < U64_MAX"
    using mint_id_succ [OF room_fits [OF assms(1)]] assms(2) by (auto dest: arg_cong [of _ _ ticket_id_str])
  have "?m + Suc n \<le> U64_MAX" using assms(1) by (intro fold_max_room) (auto simp: room_def)
  moreover have "id_numbers ?p (ts @ [t]) = id_numbers ?p ts @ [?m + 1]"
    using lt by (simp add: id_numbers_def List.map_filter_def id strip_prefix_Some [THEN iffD2, OF refl] parse_uint_printed)
  ultimately show ?thesis using assms(1) by (auto simp: room_def list_all_iff)
qed

fun chain :: "ticket_id option \<Rightarrow> ticket list \<Rightarrow> bool" where
  "chain p [] \<longleftrightarrow> True"
| "chain p (c # cs) \<longleftrightarrow> tk_depends_on c = (case p of None \<Rightarrow> [] | Some x \<Rightarrow> [x]) \<and> chain (Some (tk_id c)) cs"

definition is_child :: "ticket \<Rightarrow> ticket \<Rightarrow> bool" where
  "is_child parent c \<longleftrightarrow>
     tk_parent_id c = Some (tk_id parent) \<and> tk_kind c = tk_kind parent \<and> tk_priority c = tk_priority parent
     \<and> tk_status c = initial_status (tk_kind parent) \<and> tk_claimed_by c = None"

lemma child_of_Inr:
  "\<exists>c. child_of now title parent cid prev k n sub = Inr c \<and> tk_id c = cid \<and> is_child parent c
     \<and> tk_depends_on c = (case prev of None \<Rightarrow> [] | Some p \<Rightarrow> [p])"
proof -
  have "\<not> is_white CHR ''[''" by code_simp
  then have nb: "\<not> is_blank (sub_title sub @ '' ['' @ nat_str k @ ''/'' @ nat_str n @ '']'')"
    by (auto simp: is_blank_iff_all_white)
  show ?thesis
    by (cases prev; cases "tk_service_tag parent"; cases "is_blank (sub_service_tag sub)"; cases "tk_kind parent")
      (use nb in \<open>simp_all add: child_of_def ticket_new_def Let_def op_defs field_permitted_def set_acceptance_criteria_def
        stamp_created_at_def is_child_def initial_status_def\<close>)
qed

lemma file_child_pushes:
  assumes "room (Suc n) (tk_kind parent) ali ts" and "mint_id (tk_kind parent) ali ts = Inr cid"
  shows "\<exists>c. file_child now ali title parent m sub (ts, prev, kids) = (ts @ [c], Some cid, kids @ [ticket_id_str cid])
     \<and> tk_id c = cid \<and> is_child parent c \<and> tk_depends_on c = (case prev of None \<Rightarrow> [] | Some p \<Rightarrow> [p])"
  using child_of_Inr [of now title parent cid prev "length kids + 1" m sub] assms(2)
  by (auto simp: file_child_def)

lemma file_child_fold:
  assumes "backlog_ok (s\<lparr>st_tickets := ts\<rparr>)" and "room (length subs) (tk_kind parent) ali ts"
    and "case prev of None \<Rightarrow> True | Some p \<Rightarrow> p \<in> tk_id ` set ts"
  shows "\<exists>cs pr. fold (file_child now ali title parent m) subs (ts, prev, kids) = (ts @ cs, pr, kids @ map id_of cs)
     \<and> length cs = length subs \<and> chain prev cs \<and> list_all (is_child parent) cs
     \<and> backlog_ok (s\<lparr>st_tickets := ts @ cs\<rparr>)"
  using assms
proof (induction subs arbitrary: ts prev kids)
  case (Cons sub subs)
  have rm: "room (Suc (length subs)) (tk_kind parent) ali ts" using Cons.prems(2) by simp
  obtain cid where cid: "mint_id (tk_kind parent) ali ts = Inr cid"
    using mint_id_succ [OF room_fits [OF rm]] by blast
  obtain c where c: "file_child now ali title parent m sub (ts, prev, kids) = (ts @ [c], Some cid, kids @ [ticket_id_str cid])"
      "tk_id c = cid" "is_child parent c" "tk_depends_on c = (case prev of None \<Rightarrow> [] | Some p \<Rightarrow> [p])"
    using file_child_pushes [OF rm cid] by blast
  have "cid \<notin> tk_id ` set ts" by (rule mint_id_fresh [OF room_fits [OF rm] cid])
  moreover have "set (tk_depends_on c) \<subseteq> tk_id ` set ts" using Cons.prems(3) c(4) by (auto split: option.splits)
  ultimately have "backlog_ok (s\<lparr>st_tickets := ts @ [c]\<rparr>)"
    using backlog_ok_push [OF Cons.prems(1), of c] c(2) by simp
  moreover have "room (length subs) (tk_kind parent) ali (ts @ [c])" using rm cid c(2) by (intro room_push) simp_all
  ultimately obtain cs pr where
    "fold (file_child now ali title parent m) subs (ts @ [c], Some cid, kids @ [ticket_id_str cid])
       = ((ts @ [c]) @ cs, pr, (kids @ [ticket_id_str cid]) @ map id_of cs)"
    "length cs = length subs" "chain (Some cid) cs" "list_all (is_child parent) cs"
    "backlog_ok (s\<lparr>st_tickets := (ts @ [c]) @ cs\<rparr>)"
    using Cons.IH [of "ts @ [c]" "Some cid" "kids @ [ticket_id_str cid]"] c(2) by fastforce
  then show ?case using c by (intro exI [of _ "c # cs"] exI [of _ pr]) (simp add: id_of_def)
qed simp

lemma update_first_append: "\<exists>x \<in> set xs. p x \<Longrightarrow> update_first p f (xs @ ys) = update_first p f xs @ ys"
  by (induction xs) auto

lemma find_in_front: "find p xs = Some x \<Longrightarrow> find p (xs @ ys) = Some x"
  by (induction xs) (auto split: if_splits)

text \<open>
  C19. A split is sound. On a valid backlog with room for the numbers, filing the subtasks of a ticket leaves its old
  tickets in place, each moved only along its own legal steps, and appends one new ticket per subtask: a child of the
  split ticket, of its kind and priority and at the start of the lifecycle, the first free to start and every other
  one waiting for the child before it. The backlog stays valid, and the parent is on hold if its lifecycle allows it.
\<close>

theorem split_sound:
  assumes ok: "backlog_ok (tm_state T)" and p: "look (tm_state T) i = Some parent" and "subs \<noteq> []"
    and "room (length subs) (tk_kind parent) ali (st_tickets (tm_state T))"
  shows "\<exists>ts cs. st_tickets (tm_state (file_children say mid now ali i title subs T)) = ts @ cs
     \<and> list_all2 follows (st_tickets (tm_state T)) ts
     \<and> length cs = length subs \<and> chain None cs \<and> list_all (is_child parent) cs
     \<and> validate (tm_state (file_children say mid now ali i title subs T)) = Inr ()
     \<and> (may_move System OnHold parent \<longrightarrow>
          map_option tk_status (look (tm_state (file_children say mid now ali i title subs T)) i) = Some OnHold)"
proof -
  let ?s = "tm_state T" and ?f = "\<lambda>t. snd (transition_to System OnHold t)"
  let ?ts = "st_tickets ?s" and ?p = "\<lambda>t. id_of t = i"
  obtain cs pr where f: "fold (file_child now ali title parent (length subs)) subs (?ts, None, []) = (?ts @ cs, pr, map id_of cs)"
      and cs: "length cs = length subs" "chain None cs" "list_all (is_child parent) cs" "backlog_ok (?s\<lparr>st_tickets := ?ts @ cs\<rparr>)"
    using file_child_fold [where s = ?s and ts = ?ts and subs = subs and parent = parent and ali = ali and prev = None
        and kids = "[]" and now = now and title = title and m = "length subs"] ok assms(4) by auto
  have ne: "map id_of cs \<noteq> []" using cs(1) assms(3) by auto
  have pm: "parent \<in> set ?ts" "id_of parent = i" using find_Some_props [OF p [unfolded look_def]] by auto
  let ?T = "file_children say mid now ali i title subs T"
  have T: "st_tickets (tm_state ?T) = update_first ?p ?f (?ts @ cs)"
    using p ne by (simp add: file_children_def look_def f Let_def on_ticket_def)
  then have ts: "st_tickets (tm_state ?T) = update_first ?p ?f ?ts @ cs"
    using pm by (auto intro: update_first_append)
  have "all_follow (?s\<lparr>st_tickets := ?ts @ cs\<rparr>) (tm_state ?T)"
    unfolding all_follow_def T by (simp add: update_first_follow follows_transition)
  then have "backlog_ok (tm_state ?T)" using cs(4) by (rule all_follow_backlog)
  then have v: "validate (tm_state ?T) = Inr ()" by (simp add: validate_iff)
  have "map_option tk_status (look (tm_state ?T) i) = Some OnHold" if m: "may_move System OnHold parent"
  proof -
    have e: "?f parent = moved OnHold parent" using transition_to_ok [OF m] by simp
    have "find ?p (?ts @ cs) = Some parent" using p unfolding look_def by (rule find_in_front)
    then have "find ?p (update_first ?p ?f (?ts @ cs)) = Some (?f parent)"
      by (rule find_update_first_same) (use pm e in \<open>simp add: moved_def id_of_def\<close>)
    then show ?thesis by (simp add: look_def T e moved_def)
  qed
  then show ?thesis
    using ts cs v update_first_follow [of ?f ?ts ?p, OF follows_transition] by blast
qed

definition example_parent :: ticket where
  "example_parent = (case ticket_new (TicketId ''B001'') Bug ''Too big'' '''' High Large False of Inr t \<Rightarrow> t | Inl _ \<Rightarrow> undefined)"

definition example_subs :: "proposed_subtask list" where
  "example_subs =
     [\<lparr>sub_title = ''one'', sub_description = ''a'', sub_criteria = [], sub_complexity = '''', sub_service_tag = ''''\<rparr>,
      \<lparr>sub_title = ''two'', sub_description = ''b'', sub_criteria = [], sub_complexity = '''', sub_service_tag = ''''\<rparr>]"

definition example_team :: team_state where
  "example_team =
     \<lparr>tm_state = project_state_default\<lparr>st_tickets := [example_parent]\<rparr>, tm_redesigns = Map.empty, tm_daily_jobs = Map.empty\<rparr>"

lemma example_parent_simps:
  "tk_id example_parent = TicketId ''B001''" "tk_kind example_parent = Bug" "tk_depends_on example_parent = []"
  "tk_status example_parent = Open"
  by (simp_all add: example_parent_def ticket_new_def is_blank_iff_all_white is_white_def)

theorem split_sound_witness:
  "validate (tm_state (file_children (\<lambda>_. ''split'') ''m'' ''t'' '''' ''B001'' ''Too big'' example_subs example_team)) = Inr ()"
proof -
  have ts: "st_tickets (tm_state example_team) = [example_parent]" by (simp add: example_team_def)
  have "backlog_ok (tm_state example_team)"
  proof -
    have "\<not> edge (tm_state example_team) a b" for a b
      by (auto simp: edge_def deps_def ticket_def ts example_parent_simps)
    then have "edge (tm_state example_team) = (\<lambda>_ _. False)" by (simp add: fun_eq_iff)
    then show ?thesis by (simp add: backlog_ok_def ts example_parent_simps acyclic_def)
  qed
  moreover have "look (tm_state example_team) ''B001'' = Some example_parent"
    by (simp add: look_def ts id_of_def example_parent_simps)
  moreover have "room (length example_subs) (tk_kind example_parent) '''' (st_tickets (tm_state example_team))"
    by (simp add: room_def ts example_parent_simps id_numbers_def List.map_filter_def example_subs_def id_prefix_def
        type_code_def strip_prefix_def starts_with_def parse_uint_def is_ascii_digit_def U64_MAX_def)
  moreover have "example_subs \<noteq> []" by (simp add: example_subs_def)
  ultimately show ?thesis using split_sound by blast
qed

section \<open>The budget of rescues\<close>









section \<open>After a crash\<close>

lemma release_all_frees:
  assumes "distinct (map tk_id (st_tickets s))" and "distinct is'"
    and "\<forall>i \<in> set is'. \<exists>t. ticket s i = Some t \<and> tk_status t = InProgress"
  shows "release_all is' s = Inr (s\<lparr>st_tickets := map (\<lambda>t. if tk_id t \<in> set is' then snd (release_claim System t) else t) (st_tickets s)\<rparr>)"
  using assms
proof (induction is' arbitrary: s)
  case Nil
  then show ?case by simp
next
  case (Cons i is')
  obtain t where t: "ticket s i = Some t" "tk_status t = InProgress" using Cons.prems(3) by auto
  let ?f = "\<lambda>t. if tk_id t = i then snd (release_claim System t) else t"
  let ?s = "with_ticket_mut i (\<lambda>_. snd (release_claim System t)) s"
  have rel: "release_claim System u = (Inr (), snd (release_claim System u))" if "tk_status u = InProgress" for u
    using that by (simp add: release_claim_def)
  have idf: "tk_id (?f u) = tk_id u" for u by (simp add: release_claim_def)
  have tm: "t \<in> set (st_tickets s)" "tk_id t = i" using ticket_Some [OF t(1)] by auto
  have upd: "st_tickets ?s = map ?f (st_tickets s)"
  proof -
    have "update_first (\<lambda>u. tk_id u = i) (\<lambda>_. snd (release_claim System t)) us = map ?f us"
      if "distinct (map tk_id us)" "\<forall>u \<in> set us. tk_id u = i \<longrightarrow> u = t" for us
      using that by (induction us) (auto intro!: map_idI [symmetric])
    moreover have "\<forall>u \<in> set (st_tickets s). tk_id u = i \<longrightarrow> u = t"
      using Cons.prems(1) tm by (auto simp: distinct_map inj_on_def)
    ultimately show ?thesis using Cons.prems(1) by (simp add: with_ticket_mut_def)
  qed
  have d: "distinct (map tk_id (st_tickets ?s))" using Cons.prems(1) by (simp add: upd comp_def idf)
  have "\<exists>u. ticket ?s j = Some u \<and> tk_status u = InProgress" if j: "j \<in> set is'" for j
  proof -
    obtain u where u: "ticket s j = Some u" "tk_status u = InProgress" using Cons.prems(3) j by auto
    have "j \<noteq> i" using Cons.prems(2) j by auto
    then have "find (\<lambda>t. tk_id t = j) (update_first (\<lambda>t. tk_id t = i) (\<lambda>_. snd (release_claim System t)) (st_tickets s))
        = find (\<lambda>t. tk_id t = j) (st_tickets s)"
      by (intro find_update_first_other) (use tm in \<open>auto simp: release_claim_def\<close>)
    then have "ticket ?s j = ticket s j" by (simp add: ticket_def with_ticket_mut_def)
    with u show ?thesis by simp
  qed
  then have "release_all is' ?s = Inr (?s\<lparr>st_tickets := map (\<lambda>t. if tk_id t \<in> set is' then snd (release_claim System t) else t) (st_tickets ?s)\<rparr>)"
    using Cons.prems(2) d by (intro Cons.IH) auto
  moreover have "fst (release_claim System t) = Inr ()" using rel [OF t(2)] by (metis fst_conv)
  then have "release_all (i # is') s = release_all is' ?s" using t by (simp add: prod.case_eq_if)
  moreover have "map (\<lambda>t. if tk_id t \<in> set is' then snd (release_claim System t) else t) (map ?f (st_tickets s))
      = map (\<lambda>t. if tk_id t \<in> set (i # is') then snd (release_claim System t) else t) (st_tickets s)"
    using Cons.prems(2) by (auto simp: idf)
  ultimately show ?case by (simp add: upd) (simp add: with_ticket_mut_def)
qed

text \<open>
  A crash loses no claim: on a board with distinct ids, the recovery at startup frees every ticket in progress, returns
  exactly their ids, touches no other ticket and cannot fail; when nothing is in progress it saves nothing.
\<close>

theorem recover_exact:
  assumes d: "distinct (map tk_id (st_tickets s))"
  shows "(let orphaned = map tk_id (filter (\<lambda>t. tk_status t = InProgress) (st_tickets s)) in
    recover s = Inr (orphaned, if orphaned = [] then None else
      Some (s\<lparr>st_tickets := map (\<lambda>t. if tk_status t = InProgress then snd (release_claim System t) else t) (st_tickets s)\<rparr>)))"
proof -
  let ?ts = "st_tickets s" and ?is = "map tk_id (filter (\<lambda>t. tk_status t = InProgress) (st_tickets s))"
  have "\<forall>i \<in> set ?is. \<exists>t. ticket s i = Some t \<and> tk_status t = InProgress"
    using ticket_member [OF d] by fastforce
  then have r: "release_all ?is s = Inr (s\<lparr>st_tickets := map (\<lambda>t. if tk_id t \<in> set ?is then snd (release_claim System t) else t) ?ts\<rparr>)"
    using d by (intro release_all_frees) (auto simp: distinct_map_filter)
  have m: "tk_id t \<in> set ?is \<longleftrightarrow> tk_status t = InProgress" if "t \<in> set ?ts" for t
    using that d by (auto simp: distinct_map inj_on_def)
  have "map (\<lambda>t. if tk_id t \<in> set ?is then snd (release_claim System t) else t) ?ts
      = map (\<lambda>t. if tk_status t = InProgress then snd (release_claim System t) else t) ?ts"
    by (rule map_cong [OF refl]) (simp only: m)
  then show ?thesis using r by (simp add: recover_def Let_def del: set_map set_filter)
qed

theorem recover_exact_witness:
  "let s = project_state_default\<lparr>st_tickets := [example_parent\<lparr>tk_status := InProgress\<rparr>]\<rparr>;
       orphaned = map tk_id (filter (\<lambda>t. tk_status t = InProgress) (st_tickets s))
   in recover s = Inr (orphaned, if orphaned = [] then None else
      Some (s\<lparr>st_tickets := map (\<lambda>t. if tk_status t = InProgress then snd (release_claim System t) else t) (st_tickets s)\<rparr>))"
  using recover_exact [of "project_state_default\<lparr>st_tickets := [example_parent\<lparr>tk_status := InProgress\<rparr>]\<rparr>"] by (simp add: Let_def)

section \<open>An outage\<close>

lemma ops_run_down:
  assumes "j + k \<le> U32_MAX" and "0 < j"
  shows "ops_run n (replicate k False @ hs) \<lparr>op_down = True, op_streak = j\<rparr> =
    (if j < max n 1 \<and> max n 1 \<le> j + k then [LiveRollback] else []) @ ops_run n hs \<lparr>op_down = True, op_streak = j + k\<rparr>"
  using assms
proof (induction k arbitrary: j)
  case (Suc k)
  have "min U32_MAX (j + 1) = j + 1" using Suc.prems(1) by simp
  then show ?case using Suc.IH [of "Suc j"] Suc.prems by (auto simp: ops_monitor_def Let_def)
qed (auto simp: max_def)

text \<open>
  An outage is handled once. From a healthy state, any number of failed probes in a row (up to the width of the
  counter) files one bug, alerts once, tries the rollback exactly once and at the configured probe, if the outage lasts
  that long, and announces the recovery once at the first healthy probe; after that the monitor is as it was.
\<close>

theorem outage_once:
  assumes "0 < k" and "k \<le> U32_MAX"
  shows "ops_run n (replicate k False @ True # hs) \<lparr>op_down = False, op_streak = 0\<rparr> =
    [FileDownBug, NotifyDown] @ (if max n 1 \<le> k then [LiveRollback] else []) @ [NotifyUp]
      @ ops_run n hs \<lparr>op_down = False, op_streak = 0\<rparr>"
proof -
  obtain k' where k: "k = Suc k'" using assms(1) by (cases k) auto
  have "ops_run n (replicate k' False @ True # hs) \<lparr>op_down = True, op_streak = 1\<rparr> =
      (if 1 < max n 1 \<and> max n 1 \<le> 1 + k' then [LiveRollback] else []) @ ops_run n (True # hs) \<lparr>op_down = True, op_streak = 1 + k'\<rparr>"
    using assms(2) k by (intro ops_run_down) simp_all
  moreover have "min U32_MAX (Suc 0) = 1" by (simp add: U32_MAX_def)
  ultimately show ?thesis by (auto simp: k ops_monitor_def Let_def)
qed

theorem outage_once_witness:
  "ops_run 3 (replicate 4 False @ True # []) \<lparr>op_down = False, op_streak = 0\<rparr> =
    [FileDownBug, NotifyDown] @ (if max 3 1 \<le> (4::nat) then [LiveRollback] else []) @ [NotifyUp] @ ops_run 3 [] \<lparr>op_down = False, op_streak = 0\<rparr>"
  by (rule outage_once) (simp_all add: U32_MAX_def)

section \<open>The queue\<close>

text \<open>
  The recovery mode keeps its flag until the queue is back under the limit, but the cycle is told to do merge work only
  while the queue is at the threshold: in between the flag is on and the cycle runs as usual.
\<close>

lemma recovery_flag_outlives_gate:
  assumes "limit < n" and "n < recovery_threshold limit"
  shows "run_queue_recovery msgs mid now prs prs2 closes limit (Some n) q = (False, q)"
  using assms by (simp add: run_queue_recovery_def)

lemma recovery_flag_ends:
  assumes "n \<le> limit" and "0 < limit"
  shows "fst (run_queue_recovery msgs mid now prs prs2 closes limit (Some n) q) = False
     \<and> \<not> qs_recovery (snd (run_queue_recovery msgs mid now prs prs2 closes limit (Some n) q))"
proof -
  have "n < recovery_threshold limit" using assms by (simp add: recovery_threshold_def)
  then show ?thesis using assms by (simp add: run_queue_recovery_def)
qed

section \<open>Between the lanes\<close>








lemma fold_on_ticket_frame [simp]:
  "st_ticket_fail_attempts (fold (\<lambda>j. on_ticket j f) js s) = st_ticket_fail_attempts s"
  "st_ticket_failures (fold (\<lambda>j. on_ticket j f) js s) = st_ticket_failures s"
  "st_sprint (fold (\<lambda>j. on_ticket j f) js s) = st_sprint s"
  by (induction js arbitrary: s) (simp_all add: on_ticket_def)

lemma drive_frame [simp]:
  "st_ticket_fail_attempts (tm_state (sm_drive_sprint_flow mid now T)) = st_ticket_fail_attempts (tm_state T)"
  "st_ticket_failures (tm_state (sm_drive_sprint_flow mid now T)) = st_ticket_failures (tm_state T)"
  "tm_redesigns (sm_drive_sprint_flow mid now T) = tm_redesigns T"
  by (simp_all add: sm_drive_sprint_flow_def Let_def)
















section \<open>Daily recovery and the unpark lane\<close>

text \<open>The two lanes never act on one bug: what the daily recovery resumes, the Scrum Master's push leaves alone.\<close>

lemma lanes_disjoint:
  assumes "rv_eligible (recovery_eligibility sn at')" and "rs_rescues_used sn = counter (tm_redesigns T) (rs_id sn)"
  shows "rs_id sn \<notin> set (held_bugs ps T)"
  using assms
  by (auto simp: recovery_eligibility_def recovery_block_of_def DAILY_RECOVERY_FLOOR_def held_bugs_def Let_def split: if_splits)

text \<open>But not every held bug has one: past six failures the push arrests it while its budget keeps it from the recovery.\<close>

lemma lanes_gap:
  assumes "CHURN_ARREST \<le> counter (st_ticket_fail_attempts (tm_state T)) (rs_id sn)"
    and "rs_rescues_used sn < DAILY_RECOVERY_FLOOR"
  shows "rs_id sn \<notin> set (held_bugs ps T) \<and> \<not> rv_eligible (recovery_eligibility sn at')"
  using assms by (auto simp: recovery_eligibility_def recovery_block_of_def held_bugs_def Let_def)

text \<open>
  The sweep that parks a ticket records a reason, and the daily recovery takes any recorded reason for a person's: what
  the machine parked is never recovered.
\<close>

lemma hold_one_reasons:
  assumes "\<forall>j \<in> set (fst x). st_hold_reasons (snd x) (ticket_id_str j) \<noteq> None"
  shows "\<forall>j \<in> set (fst (hold_one ck k x)). st_hold_reasons (snd (hold_one ck k x)) (ticket_id_str j) \<noteq> None"
  using assms
  by (cases x) (auto simp: hold_one_def Let_def with_ticket_mut_def map_committed_def log_activity_def push_activity_def
      split: option.splits prod.splits sum.splits)

lemma auto_held_never_recovered:
  assumes "auto_hold_exhausted ck s = (hs, s')" and "j \<in> set hs"
    and "rs_hold_reason sn = st_hold_reasons s' (ticket_id_str j)"
  shows "\<not> rv_eligible (recovery_eligibility sn at')
     \<and> (rs_ticket_type sn = Bug \<and> rs_status sn = OnHold \<longrightarrow> rv_blocked (recovery_eligibility sn at') = Some HumanHold)"
proof -
  have "\<forall>j \<in> set (fst (fold (hold_one ck) js x)). st_hold_reasons (snd (fold (hold_one ck) js x)) (ticket_id_str j) \<noteq> None"
    if "\<forall>j \<in> set (fst x). st_hold_reasons (snd x) (ticket_id_str j) \<noteq> None" for js x
    using that
  proof (induction js arbitrary: x)
    case (Cons k js)
    from Cons.IH [OF hold_one_reasons [OF Cons.prems]] show ?case by simp
  qed simp
  from this [of "([], s)" "map tk_id (filter (exhausted s) (st_tickets s))"] assms(1,2)
  have "st_hold_reasons s' (ticket_id_str j) \<noteq> None" by (simp add: auto_hold_exhausted_def)
  then show ?thesis using assms(3) by (auto simp: recovery_eligibility_def recovery_block_of_def Let_def)
qed

section \<open>The plan\<close>

lemma recovery_plan_counts:
  "rp_eligible (daily_recovery_plan snaps at') + rp_blocked (daily_recovery_plan snaps at') = length snaps
   \<and> mset (rp_verdicts (daily_recovery_plan snaps at')) = mset (map (\<lambda>sn. recovery_eligibility sn at') snaps)"
proof -
  let ?vs = "map (\<lambda>sn. recovery_eligibility sn at') snaps" and ?le = "\<lambda>a b. rv_eligible b \<longrightarrow> rv_eligible a"
  have "length (filter rv_eligible (sort_by ?le ?vs)) \<le> length snaps"
    using length_filter_le [of rv_eligible "sort_by ?le ?vs"] by simp
  then show ?thesis by (simp add: daily_recovery_plan_def Let_def)
qed

end
