(* ===== verification/Radar.thy ===== *)
theory Radar
  imports Parsing
begin

text \<open>
  The duplicate radar across projects (\<open>application/src/use_cases/duplicate_radar.rs\<close>): identical titles collapse into
  one entry, near-paraphrases are reported in pairs, and pairs a person allowed are left out. The groups of identical
  titles come out of a hash map: the order of its keys is an argument.
\<close>

section \<open>Operations\<close>

definition MIN_TITLE_LEN :: nat where "MIN_TITLE_LEN = 4"

record ticket_snapshot =
  sn_project_id :: string
  sn_project_name :: string
  sn_ticket_id :: string
  sn_title :: string
  sn_scope :: string
  sn_service_tag :: "string option"

record radar_ticket =
  ra_project_id :: string
  ra_project_name :: string
  ra_ticket_id :: string
  ra_title :: string
  ra_scope :: string
  ra_score :: "rat option"

record duplicate_pair =
  dp_home :: radar_ticket
  dp_dups :: "radar_ticket list"
  dp_normalized_title :: string

definition pair_key :: "string \<times> string \<Rightarrow> string \<times> string \<Rightarrow> string" where
  "pair_key a b =
     (let ka = fst a @ ''/'' @ snd a; kb = fst b @ ''/'' @ snd b in
      if ka \<le> kb then ka @ ''|'' @ kb else kb @ ''|'' @ ka)"

definition key_of :: "ticket_snapshot \<Rightarrow> string \<times> string" where
  "key_of s = (sn_project_id s, sn_ticket_id s)"

definition same_service_tag :: "ticket_snapshot \<Rightarrow> ticket_snapshot \<Rightarrow> bool" where
  "same_service_tag a b =
     (case (sn_service_tag a, sn_service_tag b) of
        (Some x, Some y) \<Rightarrow> map ascii_lower (trim x) = map ascii_lower (trim y)
      | _ \<Rightarrow> False)"

definition same_tag_exempt :: "ticket_snapshot \<Rightarrow> ticket_snapshot \<Rightarrow> rat \<Rightarrow> bool" where
  "same_tag_exempt a b score \<longleftrightarrow> same_service_tag a b \<and> 1 - score \<le> SAME_TAG_MAX_DISSIMILARITY"

record radar_entry =
  en_snap :: ticket_snapshot
  en_norm :: string
  en_toks :: "string set"

definition radar_entries :: "ticket_snapshot list \<Rightarrow> radar_entry list" where
  "radar_entries snaps =
     filter (\<lambda>e. MIN_TITLE_LEN \<le> byte_len (en_norm e))
       (map (\<lambda>s. \<lparr>en_snap = s, en_norm = normalize_title (sn_title s), en_toks = title_tokens (sn_title s)\<rparr>) snaps)"

definition two_le :: "string \<times> string \<Rightarrow> string \<times> string \<Rightarrow> bool" where
  "two_le a b \<longleftrightarrow> fst a < fst b \<or> (fst a = fst b \<and> snd a \<le> snd b)"

definition member_le :: "radar_entry list \<Rightarrow> nat \<Rightarrow> nat \<Rightarrow> bool" where
  "member_le es x y =
     (let a = en_snap (es ! x); b = en_snap (es ! y) in
      two_le (sn_project_name a, sn_ticket_id a) (sn_project_name b, sn_ticket_id b))"

definition radar_side :: "ticket_snapshot \<Rightarrow> rat option \<Rightarrow> radar_ticket" where
  "radar_side s score =
     \<lparr>ra_project_id = sn_project_id s, ra_project_name = sn_project_name s, ra_ticket_id = sn_ticket_id s,
      ra_title = sn_title s, ra_scope = sn_scope s, ra_score = score\<rparr>"

definition radar_home :: "ticket_snapshot \<Rightarrow> radar_ticket" where
  "radar_home s = radar_side s None"

text \<open>The group of one title: its entry, if there is one, and the positions it collapses.\<close>

definition collapse_group :: "radar_entry list \<Rightarrow> string list \<Rightarrow> string \<Rightarrow> duplicate_pair list \<times> nat list" where
  "collapse_group es allowed nrm =
     (let idxs = filter (\<lambda>i. en_norm (es ! i) = nrm) [0..<length es] in
      if length idxs < 2 then ([], [])
      else
        let members = sort_by (member_le es) idxs;
            projects = remdups (map (\<lambda>i. sn_project_id (en_snap (es ! i))) members) in
        if length projects < 2 then ([], [])
        else
          let home_i = hd members;
              home = en_snap (es ! home_i);
              dup_is = filter (\<lambda>i. let m = en_snap (es ! i) in
                  \<not> sn_project_id m = sn_project_id home \<and> \<not> same_tag_exempt home m 1
                  \<and> pair_key (key_of home) (key_of m) \<notin> set allowed) (tl members) in
          if dup_is = [] then ([], [])
          else ([\<lparr>dp_home = radar_home home,
                  dp_dups = map (\<lambda>i. radar_side (en_snap (es ! i)) (Some 1)) dup_is,
                  dp_normalized_title = nrm\<rparr>], home_i # dup_is))"

definition collapse_identical_titles ::
  "string list \<Rightarrow> radar_entry list \<Rightarrow> string list \<Rightarrow> duplicate_pair list \<times> nat list" where
  "collapse_identical_titles keys es allowed =
     (concat (map (fst \<circ> collapse_group es allowed) keys), concat (map (snd \<circ> collapse_group es allowed) keys))"

definition paraphrase_entry :: "string list \<Rightarrow> radar_entry \<Rightarrow> radar_entry \<Rightarrow> duplicate_pair list" where
  "paraphrase_entry allowed a b =
     (let score = jaccard (en_toks a) (en_toks b); x = en_snap a; y = en_snap b in
      if en_norm b = en_norm a then []
      else if score < DUPLICATE_JACCARD_THRESHOLD then []
      else if same_tag_exempt x y score then []
      else if pair_key (key_of x) (key_of y) \<in> set allowed then []
      else
        let (home, dup) = (if two_le (sn_project_name x, sn_ticket_id x) (sn_project_name y, sn_ticket_id y)
                           then (x, y) else (y, x))
        in [\<lparr>dp_home = radar_home home, dp_dups = [radar_side dup (Some score)],
             dp_normalized_title = normalize_title (sn_title home)\<rparr>])"

definition paraphrase_pairs :: "radar_entry list \<Rightarrow> string list \<Rightarrow> nat list \<Rightarrow> duplicate_pair list" where
  "paraphrase_pairs es allowed collapsed =
     concat (map (\<lambda>i. if i \<in> set collapsed then []
                       else concat (map (paraphrase_entry allowed (es ! i)) (drop (Suc i) es))) [0..<length es])"

definition pair_le :: "duplicate_pair \<Rightarrow> duplicate_pair \<Rightarrow> bool" where
  "pair_le x y =
     two_le (ra_project_name (dp_home x), ra_title (dp_home x)) (ra_project_name (dp_home y), ra_title (dp_home y))"

definition find_cross_project_duplicates ::
  "string list \<Rightarrow> ticket_snapshot list \<Rightarrow> string list \<Rightarrow> duplicate_pair list" where
  "find_cross_project_duplicates keys snaps allowed =
     (let es = radar_entries snaps; (out, collapsed) = collapse_identical_titles keys es allowed in
      sort_by pair_le (out @ paraphrase_pairs es allowed collapsed))"

section \<open>Lemmas\<close>

lemma pair_key_commute: "pair_key a b = pair_key b a"
  by (auto simp: pair_key_def Let_def)

lemma same_tag_exempt_commute: "same_tag_exempt a b s = same_tag_exempt b a s"
  by (auto simp: same_tag_exempt_def same_service_tag_def split: option.split)

text \<open>What a reported pair is, by its two snapshots and its score.\<close>

definition reported :: "ticket_snapshot \<Rightarrow> ticket_snapshot \<Rightarrow> rat \<Rightarrow> string list \<Rightarrow> bool" where
  "reported a b score allowed \<longleftrightarrow>
     \<not> same_tag_exempt a b score \<and> pair_key (key_of a) (key_of b) \<notin> set allowed
     \<and> (if normalize_title (sn_title a) = normalize_title (sn_title b)
        then sn_project_id a \<noteq> sn_project_id b \<and> score = 1
        else score = jaccard (title_tokens (sn_title a)) (title_tokens (sn_title b)) \<and> 3 / 5 \<le> score)"

lemma entry_of:
  "e \<in> set (radar_entries snaps) \<Longrightarrow>
   en_snap e \<in> set snaps \<and> en_norm e = normalize_title (sn_title (en_snap e)) \<and> en_toks e = title_tokens (sn_title (en_snap e))"
  by (auto simp: radar_entries_def)

lemma collapse_group_reported:
  assumes "p \<in> set (fst (collapse_group (radar_entries snaps) allowed nrm))" and "d \<in> set (dp_dups p)"
  shows "\<exists>a \<in> set snaps. \<exists>b \<in> set snaps. \<exists>score.
    dp_home p = radar_side a None \<and> d = radar_side b (Some score) \<and> reported a b score allowed"
proof -
  let ?es = "radar_entries snaps"
  let ?idxs = "filter (\<lambda>i. en_norm (?es ! i) = nrm) [0..<length ?es]"
  let ?ms = "sort_by (member_le ?es) ?idxs"
  let ?home = "en_snap (?es ! hd ?ms)"
  have len: "\<not> length ?idxs < 2" using assms(1) by (auto simp: collapse_group_def Let_def)
  then have ne: "?ms \<noteq> []" by (metis length_sort_by length_0_conv zero_less_numeral)
  have mem: "i < length ?es \<and> en_norm (?es ! i) = nrm" if "i \<in> set ?ms" for i using that by auto
  have p: "p = \<lparr>dp_home = radar_home ?home,
      dp_dups = map (\<lambda>i. radar_side (en_snap (?es ! i)) (Some 1))
        (filter (\<lambda>i. let m = en_snap (?es ! i) in \<not> sn_project_id m = sn_project_id ?home \<and> \<not> same_tag_exempt ?home m 1
                  \<and> pair_key (key_of ?home) (key_of m) \<notin> set allowed) (tl ?ms)),
      dp_normalized_title = nrm\<rparr>"
    using assms(1) by (auto simp: collapse_group_def Let_def split: if_splits)
  then obtain i where i: "i \<in> set (tl ?ms)" "d = radar_side (en_snap (?es ! i)) (Some 1)"
      "sn_project_id (en_snap (?es ! i)) \<noteq> sn_project_id ?home" "\<not> same_tag_exempt ?home (en_snap (?es ! i)) 1"
      "pair_key (key_of ?home) (key_of (en_snap (?es ! i))) \<notin> set allowed"
    using assms(2) by (auto simp: Let_def)
  have h: "hd ?ms < length ?es" "en_norm (?es ! hd ?ms) = nrm" using mem [OF hd_in_set [OF ne]] by auto
  have k: "i < length ?es" "en_norm (?es ! i) = nrm" using mem [OF list.set_sel(2) [OF ne i(1)]] by auto
  have eh: "?home \<in> set snaps" "normalize_title (sn_title ?home) = nrm"
    using entry_of [OF nth_mem [OF h(1)]] h(2) by auto
  have ek: "en_snap (?es ! i) \<in> set snaps" "normalize_title (sn_title (en_snap (?es ! i))) = nrm"
    using entry_of [OF nth_mem [OF k(1)]] k(2) by auto
  have "reported ?home (en_snap (?es ! i)) 1 allowed"
    unfolding reported_def eh(2) ek(2) using i(3-5) by simp
  moreover have "dp_home p = radar_side ?home None" by (simp add: p radar_home_def)
  ultimately show ?thesis using eh(1) ek(1) i(2) by blast
qed

lemma paraphrase_entry_reported:
  assumes "p \<in> set (paraphrase_entry allowed x y)" and "x \<in> set (radar_entries snaps)" and "y \<in> set (radar_entries snaps)"
    and "d \<in> set (dp_dups p)"
  shows "\<exists>a \<in> set snaps. \<exists>b \<in> set snaps. \<exists>score.
    dp_home p = radar_side a None \<and> d = radar_side b (Some score) \<and> reported a b score allowed"
proof -
  let ?score = "jaccard (en_toks x) (en_toks y)"
  have g: "en_norm y \<noteq> en_norm x" "\<not> ?score < DUPLICATE_JACCARD_THRESHOLD" "\<not> same_tag_exempt (en_snap x) (en_snap y) ?score"
      "pair_key (key_of (en_snap x)) (key_of (en_snap y)) \<notin> set allowed"
    using assms(1) by (auto simp: paraphrase_entry_def Let_def split: if_splits)
  then have r: "reported (en_snap x) (en_snap y) ?score allowed"
    using entry_of [OF assms(2)] entry_of [OF assms(3)] by (auto simp: reported_def DUPLICATE_JACCARD_THRESHOLD_def)
  then have r': "reported (en_snap y) (en_snap x) ?score allowed"
    using g entry_of [OF assms(2)] entry_of [OF assms(3)]
    by (auto simp: reported_def pair_key_commute [of "key_of (en_snap y)"] same_tag_exempt_commute [of "en_snap y"]
        jaccard_commute [of "title_tokens (sn_title (en_snap y))"])
  show ?thesis
    using assms(1,4) g r r' entry_of [OF assms(2)] entry_of [OF assms(3)]
    by (auto simp: paraphrase_entry_def Let_def radar_home_def split: if_splits)
qed

text \<open>
  The radar reports nothing it should not: both tickets of every reported pair are among the snapshots, no person has
  allowed the pair and no shared service tag excuses it, and the titles are either the same in different projects or
  similar to three fifths, with the score given.
\<close>

theorem radar_justified:
  assumes "p \<in> set (find_cross_project_duplicates keys snaps allowed)" and "d \<in> set (dp_dups p)"
  shows "\<exists>a \<in> set snaps. \<exists>b \<in> set snaps. \<exists>score.
    dp_home p = radar_side a None \<and> d = radar_side b (Some score) \<and> reported a b score allowed"
proof -
  let ?es = "radar_entries snaps"
  have "p \<in> set (fst (collapse_identical_titles keys ?es allowed))
      \<or> p \<in> set (paraphrase_pairs ?es allowed (snd (collapse_identical_titles keys ?es allowed)))"
    using assms(1) by (auto simp: find_cross_project_duplicates_def Let_def prod.case_eq_if)
  then consider nrm where "p \<in> set (fst (collapse_group ?es allowed nrm))"
    | i b where "p \<in> set (paraphrase_entry allowed (?es ! i) b)" "i < length ?es" "b \<in> set (drop (Suc i) ?es)"
    by (auto simp: collapse_identical_titles_def paraphrase_pairs_def split: if_splits)
  then show ?thesis
  proof cases
    case 1
    then show ?thesis using assms(2) by (rule collapse_group_reported)
  next
    case (2 i b)
    then show ?thesis using assms(2) in_set_dropD [of b] by (intro paraphrase_entry_reported [where x = "?es ! i" and y = b]) auto
  qed
qed

definition example_snap :: "string \<Rightarrow> string \<Rightarrow> string \<Rightarrow> ticket_snapshot" where
  "example_snap pid tid title =
     \<lparr>sn_project_id = pid, sn_project_name = pid, sn_ticket_id = tid, sn_title = title, sn_scope = [], sn_service_tag = None\<rparr>"

lemma example_titles:
  "normalize_title ''aaa bbb'' = ''aaa bbb''" "normalize_title ''bbb aaa'' = ''bbb aaa''"
  by code_simp+

lemma example_tokens: "title_tokens ''aaa bbb'' = {''aaa'', ''bbb''}" "title_tokens ''bbb aaa'' = {''aaa'', ''bbb''}"
  by (simp_all add: title_tokens_def example_titles STOP_def byte_len_def insert_commute)

definition example_pair :: duplicate_pair where
  "example_pair =
     \<lparr>dp_home = radar_side (example_snap ''p'' ''F1'' ''aaa bbb'') None,
      dp_dups = [radar_side (example_snap ''p'' ''F2'' ''bbb aaa'') (Some 1)], dp_normalized_title = ''aaa bbb''\<rparr>"

lemma example_radar:
  "example_pair \<in> set (find_cross_project_duplicates [''aaa bbb'', ''bbb aaa'']
     [example_snap ''p'' ''F1'' ''aaa bbb'', example_snap ''p'' ''F2'' ''bbb aaa''] [])"
proof -
  let ?a = "\<lparr>en_snap = example_snap ''p'' ''F1'' ''aaa bbb'', en_norm = ''aaa bbb'', en_toks = {''aaa'', ''bbb''}\<rparr>"
  let ?b = "\<lparr>en_snap = example_snap ''p'' ''F2'' ''bbb aaa'', en_norm = ''bbb aaa'', en_toks = {''aaa'', ''bbb''}\<rparr>"
  have es: "radar_entries [example_snap ''p'' ''F1'' ''aaa bbb'', example_snap ''p'' ''F2'' ''bbb aaa''] = [?a, ?b]"
    by (simp add: radar_entries_def example_snap_def example_titles example_tokens MIN_TITLE_LEN_def byte_len_def)
  have c: "collapse_identical_titles [''aaa bbb'', ''bbb aaa''] [?a, ?b] [] = ([], [])"
    by (simp add: collapse_identical_titles_def collapse_group_def Let_def upt_rec)
  have "jaccard {''aaa'', ''bbb''} {''aaa'', ''bbb''} = 1" by (rule jaccard_self) simp_all
  moreover have "two_le (''p'', ''F1'') (''p'', ''F2'')" by (simp add: two_le_def less_list_code less_eq_list_code less_char_def)
  ultimately have "paraphrase_entry [] ?a ?b = [example_pair]"
    by (simp add: paraphrase_entry_def Let_def DUPLICATE_JACCARD_THRESHOLD_def same_tag_exempt_def same_service_tag_def
        example_snap_def example_pair_def radar_home_def example_titles)
  then have "paraphrase_pairs [?a, ?b] [] [] = [example_pair]" by (simp add: paraphrase_pairs_def upt_rec)
  then show ?thesis by (simp add: find_cross_project_duplicates_def Let_def es c)
qed

theorem radar_justified_witness:
  "\<exists>a \<in> set [example_snap ''p'' ''F1'' ''aaa bbb'', example_snap ''p'' ''F2'' ''bbb aaa''].
   \<exists>b \<in> set [example_snap ''p'' ''F1'' ''aaa bbb'', example_snap ''p'' ''F2'' ''bbb aaa'']. \<exists>score.
     dp_home example_pair = radar_side a None
     \<and> radar_side (example_snap ''p'' ''F2'' ''bbb aaa'') (Some 1) = radar_side b (Some score) \<and> reported a b score []"
  by (rule radar_justified [OF example_radar]) (simp add: example_pair_def)

text \<open>The paraphrase pass does not look at the projects: two similar titles of one project are reported as a pair.\<close>

lemma radar_within_project:
  "\<exists>keys snaps p d. p \<in> set (find_cross_project_duplicates keys snaps []) \<and> d \<in> set (dp_dups p)
     \<and> ra_project_id (dp_home p) = ra_project_id d"
  using example_radar by (intro exI conjI) (assumption, auto simp: example_pair_def radar_side_def example_snap_def)

end
