(* ===== verification/Deploy.thy ===== *)
theory Deploy
  imports Intake Lessons Runner Recovery
begin

text \<open>
  The deploy of a leader cycle and the rollback (\<open>use_cases/cycle/ops.rs\<close>, the deploy block of \<open>run_cycle\<close> in
  \<open>use_cases/cycle/mod.rs\<close>, \<open>file_test_failure\<close> of \<open>use_cases/cycle/qa_evidence.rs\<close>, \<open>verify_deploy_health\<close> of
  \<open>ports/outbound/deploy.rs\<close>): the health gate, the record of an attempt, the promotion of a commit to the known-good
  one, the redeploy of that commit when a deploy or the tests fail, and the post-mortem.

  What the deploy adapter, git, the probes and the clock answer is the record \<open>deploy_world\<close>; the store answers and no other
  writer comes between. What a pass does outside the state is a list of effects. One stamp stands for all the clock readings of
  a pass. The search for a lesson that matches a failure and the collection of evidence are effects here. Commit ids are
  ASCII. Signs outside the character range are written in ASCII or left out.
\<close>

section \<open>State\<close>

record health_result =
  hr_passed :: bool
  hr_http_status :: "nat option"
  hr_response_time_ms :: "nat option"

record container_log_tail =
  cl_service :: string
  cl_tail :: string

record deploy_failure_bundle =
  fb_stderr_tail :: string
  fb_container_logs :: "container_log_tail list"
  fb_no_container_logs :: bool

record deploy_status =
  dy_at :: string
  dy_ok :: bool
  dy_summary :: string
  dy_commit_sha :: "string option"
  dy_health_check :: "health_result option"
  dy_failure_bundle :: "deploy_failure_bundle option"

record known_good_deploy =
  kg_sha :: string
  kg_at :: string
  kg_deploy_index :: nat
  kg_summary :: string

record rollback_status =
  rb_at :: string
  rb_reason :: string
  rb_to_sha :: string
  rb_ok :: bool
  rb_summary :: string
  rb_stale :: bool
  rb_migration_blocked :: bool
  rb_failure_bundle :: "deploy_failure_bundle option"

record incident_record =
  in_at :: string
  in_reason :: string
  in_failed_sha :: string
  in_to_sha :: string
  in_ok :: bool
  in_summary :: string
  in_root_cause_ticket :: "string option"
  in_lesson :: "string option"

record deploy_report =
  dp_success :: bool
  dp_deployed :: bool
  dp_summary :: string
  dp_failure_bundle :: "deploy_failure_bundle option"

record deploy_config =
  dg_host_port :: "nat option"
  dg_enabled :: bool
  dg_auto_rollback :: bool
  dg_live_health_auto_rollback :: bool
  dg_max_rollback_age_secs :: nat
  dg_migration_detection_paths :: "string list"

record deploy_state =
  dl_intake :: intake_state
  dl_lessons :: lesson_state
  dl_cycle :: nat
  dl_deploy :: "deploy_status option"
  dl_last_good :: "known_good_deploy option"
  dl_in_rollback :: bool
  dl_deploy_index :: nat
  dl_last_rollback :: "rollback_status option"
  dl_rolled_back :: "string set"
  dl_incidents :: "incident_record list"

record deploy_world =
  dw_now :: string
  dw_mid :: "nat \<Rightarrow> string"
  dw_port :: bool
  dw_git :: bool
  dw_head :: "string option"
  dw_deploys :: "string + deploy_report"
  dw_probe :: "unit + nat option"
  dw_wait :: "nat \<Rightarrow> health_result option"
  dw_tests :: "string + deploy_report"
  dw_age :: "string \<Rightarrow> nat option"
  dw_changed :: "string \<Rightarrow> string \<Rightarrow> string list"
  dw_worktree :: "string option"
  dw_redeploys :: "string + deploy_report"
  dw_health :: "nat \<Rightarrow> bool"
  dw_visual :: "ticket_id \<Rightarrow> ticket_id list"

datatype deploy_effect =
    Notify string string
  | UpdateRef string
  | AddWorktree string
  | DeployFrom string
  | CollectEvidence ticket_id
  | VisualQa ticket_id
  | CollectMissing
  | MatchLesson string string string

record deploy_run =
  dr_state :: deploy_state
  dr_report :: cycle_report
  dr_effects :: "deploy_effect list"

definition perform :: "deploy_effect \<Rightarrow> deploy_run \<Rightarrow> deploy_run" where
  "perform e r = r\<lparr>dr_effects := dr_effects r @ [e]\<rparr>"

definition filed :: "ticket_id list \<Rightarrow> deploy_run \<Rightarrow> deploy_run" where
  "filed is' r = r\<lparr>dr_report := (dr_report r)\<lparr>cr_bugs_filed := cr_bugs_filed (dr_report r) @ is'\<rparr>\<rparr>"

definition failed_with :: "string \<Rightarrow> deploy_run \<Rightarrow> deploy_run" where
  "failed_with e r = r\<lparr>dr_report := (dr_report r)\<lparr>cr_errors := cr_errors (dr_report r) @ [e]\<rparr>\<rparr>"

definition on_deploy :: "(deploy_state \<Rightarrow> deploy_state) \<Rightarrow> deploy_run \<Rightarrow> deploy_run" where
  "on_deploy f r = r\<lparr>dr_state := f (dr_state r)\<rparr>"

definition on_project :: "(project_state \<Rightarrow> project_state) \<Rightarrow> deploy_state \<Rightarrow> deploy_state" where
  "on_project f d = d\<lparr>dl_intake := (dl_intake d)\<lparr>is_state := f (is_state (dl_intake d))\<rparr>\<rparr>"

section \<open>Health\<close>

definition ATTEMPTS :: nat where "ATTEMPTS = 15"

definition verify_deploy_health :: "(nat \<Rightarrow> bool) \<Rightarrow> nat option \<Rightarrow> bool" where
  "verify_deploy_health health port =
     (case port of None \<Rightarrow> True | Some p \<Rightarrow> p \<noteq> 0 \<and> list_ex health [0..<ATTEMPTS])"

definition verify_health_after_deploy :: "deploy_world \<Rightarrow> bool" where
  "verify_health_after_deploy w =
     (\<not> dw_port w \<or> (case dw_probe w of Inl _ \<Rightarrow> False | Inr port \<Rightarrow> verify_deploy_health (dw_health w) port))"

definition run_health_check :: "deploy_world \<Rightarrow> bool \<times> health_result option" where
  "run_health_check w =
     (if \<not> dw_port w then (True, None)
      else case dw_probe w of
        Inl _ \<Rightarrow> (False, None)
      | Inr None \<Rightarrow> (True, None)
      | Inr (Some port) \<Rightarrow>
          let result = (case dw_wait w port of
              Some h \<Rightarrow> h
            | None \<Rightarrow> \<lparr>hr_passed = False, hr_http_status = None, hr_response_time_ms = None\<rparr>)
          in (hr_passed result, Some result))"

definition describe_health_failure :: "health_result \<Rightarrow> string" where
  "describe_health_failure h =
     ''(containers started but the app never answered healthily on its port - health check failed: ''
       @ (case hr_http_status h of None \<Rightarrow> ''no response'' | Some c \<Rightarrow> ''HTTP '' @ nat_str c)
       @ (case hr_response_time_ms h of None \<Rightarrow> [] | Some ms \<Rightarrow> '' after '' @ nat_str ms @ ''ms'') @ '')''"

definition short_sha :: "string \<Rightarrow> string" where
  "short_sha sha = take 7 sha"

section \<open>Filing bugs\<close>

definition open_marked :: "string \<Rightarrow> ticket list \<Rightarrow> bool" where
  "open_marked marker ts \<longleftrightarrow>
     list_ex (\<lambda>t. tk_kind t = Bug \<and> tk_status t = Open \<and> starts_with (tk_title t) marker) ts"

definition high_bug :: "string \<Rightarrow> string \<Rightarrow> string list \<Rightarrow> add_input" where
  "high_bug title description criteria =
     \<lparr>ai_kind = Bug, ai_title = title, ai_description = description, ai_priority = High, ai_complexity = CMedium,
      ai_has_ui = False, ai_acceptance_criteria = criteria, ai_goal = None, ai_service_tag = None\<rparr>"

text \<open>File the bug unless one with the marker is open; a refusal of the intake is dropped.\<close>

definition file_marked :: "string \<Rightarrow> string \<Rightarrow> add_input \<Rightarrow> deploy_run \<Rightarrow> deploy_run" where
  "file_marked now marker inp r =
     (let st = dl_intake (dr_state r) in
      if open_marked marker (st_tickets (is_state st)) then r
      else case add_ticket now inp st of
        Inl _ \<Rightarrow> r
      | Inr (i, st') \<Rightarrow> filed [i] (on_deploy (dl_intake_update (\<lambda>_. st')) r))"

definition port_clash :: "string \<Rightarrow> bool" where
  "port_clash summary \<longleftrightarrow>
     list_ex (contains_str (map ascii_lower summary)) [''already allocated'', ''address already in use'', ''bind for'']"

definition deploy_bug :: "nat option \<Rightarrow> string \<Rightarrow> add_input" where
  "deploy_bug port summary =
     (if port_clash summary
      then high_bug (''Deploy failing: '' @ summary)
        (''The docker deploy failed because a host port is already in use - an infra clash, not a code defect. ''
         @ ''Fix the compose file so every published port maps from an environment variable defaulting to ''
         @ (case port of None \<Rightarrow> ''the project's assigned host port''
            | Some p \<Rightarrow> ''host port '' @ nat_str p @ '' (this project's assigned port)'')
         @ '' (e.g. `'' @ dquoted ''${APP_PORT:-<port>}:<container>'' @ ''`), never a hardcoded shared port, so ''
         @ ''redeploys and other stacks don't collide. Verify `docker compose up -d --build` then succeeds.''
         @ [CHR 0x0A, CHR 0x0A] @ ''Deploy output: '' @ summary)
        [''Published ports come from an env var, not a hardcoded value'',
         ''`docker compose up -d --build` succeeds with the container running'']
      else high_bug (''Deploy failing: '' @ summary)
        (''The docker deploy failed and the container is not running. ''
         @ ''Root-cause and fix so `docker compose up -d --build` succeeds.''
         @ [CHR 0x0A, CHR 0x0A] @ ''Deploy output: '' @ summary) [])"

definition file_deploy_bug :: "deploy_config \<Rightarrow> string \<Rightarrow> string \<Rightarrow> deploy_run \<Rightarrow> deploy_run" where
  "file_deploy_bug cfg now summary r = file_marked now ''Deploy failing'' (deploy_bug (dg_host_port cfg) summary) r"

definition file_test_failure :: "string \<Rightarrow> string \<Rightarrow> deploy_run \<Rightarrow> deploy_run" where
  "file_test_failure now summary r =
     file_marked now ''Tests failing''
       (high_bug (''Tests failing: '' @ (case str_lines summary of [] \<Rightarrow> ''test suite is red'' | l # _ \<Rightarrow> l))
         (''The test suite is failing - Definition of Done is not met. Make the tests pass (fix the code or the test).''
          @ [CHR 0x0A, CHR 0x0A] @ ''Output:'' @ [CHR 0x0A] @ summary) [''The full test suite passes'']) r"

definition file_rollback_failed_bug :: "string \<Rightarrow> string \<Rightarrow> deploy_run \<Rightarrow> deploy_run" where
  "file_rollback_failed_bug now summary r =
     file_marked now ''Rollback failed''
       (high_bug (''Rollback failed: '' @ summary)
         (''Auto-rollback to the last known-good deploy failed after one retry - the environment may still be on a ''
          @ ''broken build. Investigate the deploy tooling (e.g. is the Docker daemon up?) and restore service by hand if needed.''
          @ [CHR 0x0A, CHR 0x0A] @ ''Rollback output: '' @ summary)
         [''The app is reachable and serving a known-good build'']) r"

section \<open>Records\<close>

definition noted :: "string \<Rightarrow> string \<Rightarrow> string \<Rightarrow> string \<Rightarrow> string \<Rightarrow> project_state \<Rightarrow> project_state" where
  "noted mid now who action body s =
     (let s1 = log_activity now who action None s in
      s1\<lparr>st_social := post_comment mid now ''SM'' body None (st_social s1)\<rparr>)"

definition record_deploy ::
  "deploy_world \<Rightarrow> bool \<Rightarrow> string \<Rightarrow> string option \<Rightarrow> health_result option \<Rightarrow> deploy_failure_bundle option
   \<Rightarrow> deploy_state \<Rightarrow> deploy_state" where
  "record_deploy w ok summary sha hc bundle d =
     (on_project (noted (dw_mid w 0) (dw_now w) ''DEPLOY'' summary
        ((if ok then ''shipped'' else ''deploy failed'') @ '': '' @ summary)) d)
     \<lparr>dl_deploy := Some \<lparr>dy_at = dw_now w, dy_ok = ok, dy_summary = summary, dy_commit_sha = sha,
        dy_health_check = hc, dy_failure_bundle = bundle\<rparr>\<rparr>"

definition record_known_good :: "deploy_world \<Rightarrow> string option \<Rightarrow> string \<Rightarrow> deploy_run \<Rightarrow> deploy_run" where
  "record_known_good w sha summary r =
     (case sha of
        None \<Rightarrow> r
      | Some h \<Rightarrow>
          on_deploy (\<lambda>d. d\<lparr>dl_deploy_index := dl_deploy_index d + 1, dl_in_rollback := False,
            dl_last_good := Some \<lparr>kg_sha = h, kg_at = dw_now w, kg_deploy_index = dl_deploy_index d + 1, kg_summary = summary\<rparr>\<rparr>)
            (if dw_git w then perform (UpdateRef h) r else r))"

definition MAX_INCIDENTS :: nat where "MAX_INCIDENTS = 12"

definition INCIDENTS_CHANNEL :: string where "INCIDENTS_CHANNEL = ''incidents''"

definition post_mortem ::
  "deploy_world \<Rightarrow> string \<Rightarrow> string option \<Rightarrow> string \<Rightarrow> bool \<Rightarrow> string \<Rightarrow> string option \<Rightarrow> deploy_run \<Rightarrow> deploy_run" where
  "post_mortem w reason failed_sha target rolled_forward summary failure_summary r =
     (let now = dw_now w;
          bad = (case failed_sha of None \<Rightarrow> [] | Some h \<Rightarrow> h);
          body = ''Post-mortem ('' @ reason @ ''): '' @ summary @ '' -> ''
            @ (if rolled_forward then ''rolled-forward/stale'' else ''rolled-back'') @ '' to '' @ short_sha target
            @ '' ['' @ bad @ ''] - root cause filed as tracked work.'';
          d = dr_state r;
          d1 = (on_project (\<lambda>s. s\<lparr>st_social := post_chat_in (dw_mid w 2) now ''SM'' body INCIDENTS_CHANNEL [] (st_social s)\<rparr>) d)
            \<lparr>dl_rolled_back := (if bad = [] then dl_rolled_back d else insert bad (dl_rolled_back d)),
             dl_incidents := keep_newest MAX_INCIDENTS (dl_incidents d @
               [\<lparr>in_at = now, in_reason = reason, in_failed_sha = bad, in_to_sha = target, in_ok = (\<not> rolled_forward),
                 in_summary = summary, in_root_cause_ticket = None, in_lesson = None\<rparr>])\<rparr>;
          lesson = reason @ '' triggered an auto-rollback to '' @ short_sha target @ ''; fix shipped as tracked work.'';
          d2 = d1\<lparr>dl_lessons := snd (record_lesson now (dl_cycle d1) lesson (dl_lessons d1))\<rparr>;
          matched = (case failure_summary of None \<Rightarrow> summary | Some t \<Rightarrow> if is_blank t then summary else t)
      in perform (MatchLesson matched reason now) (perform (Notify ''incident_post_mortem'' body) (r\<lparr>dr_state := d2\<rparr>)))"

section \<open>Rolling back\<close>

definition migration_shipped_since :: "deploy_config \<Rightarrow> deploy_world \<Rightarrow> string \<Rightarrow> string \<Rightarrow> bool" where
  "migration_shipped_since cfg w good bad \<longleftrightarrow>
     list_ex (\<lambda>p. list_ex (starts_with p) (dg_migration_detection_paths cfg)) (dw_changed w good bad)"

definition finish_rollback ::
  "deploy_world \<Rightarrow> string \<Rightarrow> string option \<Rightarrow> string \<Rightarrow> bool \<Rightarrow> string \<Rightarrow> string option \<Rightarrow> deploy_failure_bundle option
   \<Rightarrow> deploy_run \<Rightarrow> deploy_run" where
  "finish_rollback w reason failed_sha good ok summary failure_summary bundle r =
     (let now = dw_now w; short = short_sha good;
          line = ''auto-rollback ('' @ reason @ '') to '' @ short @ '': '' @ summary;
          d = on_project (noted (dw_mid w 1) now ''ROLLBACK'' summary line) (dr_state r);
          d1 = d\<lparr>dl_last_rollback := Some \<lparr>rb_at = now, rb_reason = reason, rb_to_sha = good, rb_ok = ok, rb_summary = summary,
            rb_stale = False, rb_migration_blocked = False, rb_failure_bundle = bundle\<rparr>\<rparr>;
          d2 = (if ok then d1\<lparr>dl_in_rollback := True,
              dl_deploy := Some \<lparr>dy_at = now, dy_ok = True, dy_summary = ''rolled back to '' @ short @ '': '' @ summary,
                dy_commit_sha = Some good,
                dy_health_check = (case dl_deploy d1 of None \<Rightarrow> None | Some s \<Rightarrow> dy_health_check s),
                dy_failure_bundle = None\<rparr>\<rparr> else d1);
          r1 = perform (Notify (if ok then ''rollback_ok'' else ''rollback_failed'') line) (r\<lparr>dr_state := d2\<rparr>)
      in if \<not> ok then file_rollback_failed_bug now summary r1
         else post_mortem w reason failed_sha good False summary failure_summary r1)"

definition record_rollback_skipped ::
  "deploy_world \<Rightarrow> string \<Rightarrow> string option \<Rightarrow> string \<Rightarrow> string \<Rightarrow> bool \<Rightarrow> bool \<Rightarrow> deploy_run \<Rightarrow> deploy_run" where
  "record_rollback_skipped w reason failed_sha target summary too_old blocked r =
     post_mortem w reason failed_sha target True summary None
       (perform (Notify ''rollback_blocked'' (''Rollback skipped for `'' @ reason @ ''`: '' @ summary))
         (on_deploy (\<lambda>d. d\<lparr>dl_last_rollback := Some \<lparr>rb_at = dw_now w, rb_reason = reason, rb_to_sha = target, rb_ok = False,
            rb_summary = summary, rb_stale = too_old, rb_migration_blocked = blocked, rb_failure_bundle = None\<rparr>\<rparr>) r))"

text \<open>The redeploy of the known-good commit: whether it is up, the summary, the evidence of its own failure.\<close>

definition redeploy :: "deploy_world \<Rightarrow> bool \<times> string \<times> deploy_failure_bundle option" where
  "redeploy w =
     (case dw_worktree w of
        Some e \<Rightarrow> (False, ''rollback worktree failed: '' @ e, None)
      | None \<Rightarrow> (case dw_redeploys w of
          Inl e \<Rightarrow> (False, ''rollback deploy failed: '' @ e, None)
        | Inr p \<Rightarrow>
            if dp_success p then
              (if verify_health_after_deploy w then (True, dp_summary p, None)
               else (False, dp_summary p
                 @ '' (containers started but the app never bound its port - health check failed)'', None))
            else (False, dp_summary p, dp_failure_bundle p)))"

definition revert_to_known_good ::
  "deploy_config \<Rightarrow> deploy_world \<Rightarrow> string \<Rightarrow> string option \<Rightarrow> deploy_run \<Rightarrow> deploy_run" where
  "revert_to_known_good cfg w reason failed_sha r =
     (if \<not> dw_port w \<or> \<not> dw_git w then r
      else case dl_last_good (dr_state r) of
        None \<Rightarrow> r
      | Some g \<Rightarrow>
          if failed_sha = Some (kg_sha g) then r
          else if (case dw_age w (kg_at g) of Some age \<Rightarrow> dg_max_rollback_age_secs cfg < age | None \<Rightarrow> True)
          then record_rollback_skipped w reason failed_sha (kg_sha g) ''known-good deploy is stale'' True False r
          else if (case failed_sha of Some h \<Rightarrow> migration_shipped_since cfg w (kg_sha g) h | None \<Rightarrow> False)
          then record_rollback_skipped w reason failed_sha (kg_sha g)
            ''a migration shipped since the known-good deploy - rolling back the app code alone would be unsafe'' False True r
          else
            let trigger = dl_deploy (dr_state r);
                r1 = perform (AddWorktree (kg_sha g)) r;
                r2 = (if dw_worktree w = None then perform (DeployFrom (kg_sha g)) r1 else r1)
            in case redeploy w of (ok, summary, own) \<Rightarrow>
                 finish_rollback w reason failed_sha (kg_sha g) ok summary (map_option dy_summary trigger)
                   (if ok then Option.bind trigger dy_failure_bundle else own) r2)"

definition attempt_rollback ::
  "deploy_config \<Rightarrow> deploy_world \<Rightarrow> string \<Rightarrow> string option \<Rightarrow> deploy_run \<Rightarrow> deploy_run" where
  "attempt_rollback cfg w reason failed_sha r =
     (if dg_auto_rollback cfg then revert_to_known_good cfg w reason failed_sha r else r)"

definition attempt_live_health_rollback :: "deploy_config \<Rightarrow> deploy_world \<Rightarrow> string option \<Rightarrow> deploy_run \<Rightarrow> deploy_run" where
  "attempt_live_health_rollback cfg w failed_sha r =
     (if dg_live_health_auto_rollback cfg then revert_to_known_good cfg w ''live health failed'' failed_sha r else r)"

section \<open>The deploy of a cycle\<close>

definition deploy_wanted :: "deploy_config \<Rightarrow> deploy_world \<Rightarrow> deploy_run \<Rightarrow> bool" where
  "deploy_wanted cfg w r \<longleftrightarrow>
     (cr_feature_done (dr_report r) \<noteq> None \<or> cr_bug_fixed (dr_report r) \<noteq> None
      \<or> (case dl_deploy (dr_state r) of None \<Rightarrow> False | Some s \<Rightarrow> \<not> dy_ok s) \<or> dl_in_rollback (dr_state r))
     \<and> dw_port w \<and> dg_enabled cfg"

text \<open>The shipped tickets get their evidence, the feature a look at its screens.\<close>

definition after_ship :: "deploy_world \<Rightarrow> deploy_run \<Rightarrow> deploy_run" where
  "after_ship w r =
     (let rep = dr_report r;
          shipped = (case cr_feature_done rep of None \<Rightarrow> [] | Some i \<Rightarrow> [i]) @ (case cr_bug_fixed rep of None \<Rightarrow> [] | Some i \<Rightarrow> [i]);
          r1 = fold (\<lambda>i. perform (CollectEvidence i)) shipped r;
          r2 = (case cr_feature_done rep of None \<Rightarrow> r1 | Some i \<Rightarrow> filed (dw_visual w i) (perform (VisualQa i) r1))
      in perform CollectMissing r2)"

text \<open>The attempt: whether it went bad, whether it ran and is up, and the run after it.\<close>

definition deploy_attempt :: "deploy_config \<Rightarrow> deploy_world \<Rightarrow> deploy_run \<Rightarrow> bool \<times> bool \<times> deploy_run" where
  "deploy_attempt cfg w r =
     (case dw_deploys w of
        Inl e \<Rightarrow>
          let summary = ''deploy failed: '' @ e;
              r1 = perform (Notify ''deploy_failed'' summary) (on_deploy (record_deploy w False summary (dw_head w) None None) r)
          in (True, False, failed_with (''DEPLOY: '' @ e) (file_deploy_bug cfg (dw_now w) summary r1))
      | Inr p \<Rightarrow>
          if \<not> dp_deployed p then (False, False, r)
          else
            let (healthy, hc) = (if dp_success p then run_health_check w else (True, None));
                ok = (dp_success p \<and> healthy);
                summary = (case hc of
                    Some h \<Rightarrow> if \<not> healthy then dp_summary p @ '' '' @ describe_health_failure h else dp_summary p
                  | None \<Rightarrow> dp_summary p);
                r1 = perform (Notify (if ok then ''deploy_ok'' else ''deploy_failed'') summary)
                  (on_deploy (record_deploy w ok summary (dw_head w) hc (dp_failure_bundle p)) r)
            in if ok then (False, True, after_ship w r1)
               else (True, False, file_deploy_bug cfg (dw_now w) summary r1))"

definition run_suite :: "deploy_world \<Rightarrow> deploy_run \<Rightarrow> bool \<times> deploy_run" where
  "run_suite w r =
     (case dw_tests w of
        Inl e \<Rightarrow> (False, failed_with (''TESTS: '' @ e) r)
      | Inr p \<Rightarrow> if dp_deployed p \<and> \<not> dp_success p then (True, file_test_failure (dw_now w) (dp_summary p) r) else (False, r))"

definition deploy_phase :: "deploy_config \<Rightarrow> deploy_world \<Rightarrow> deploy_run \<Rightarrow> deploy_run" where
  "deploy_phase cfg w r =
     (if \<not> deploy_wanted cfg w r then r
      else
        let (deploy_bad, deploy_ran_ok, r1) = deploy_attempt cfg w r;
            (tests_bad, r2) = run_suite w r1
        in if deploy_bad \<or> tests_bad
           then attempt_rollback cfg w (if deploy_bad then ''deploy failed'' else ''tests failed'') (dw_head w) r2
           else if deploy_ran_ok then record_known_good w (dw_head w) ''deploy + tests passed'' r2
           else r2)"

end
