(* ===== verification/Deploy_Properties.thy ===== *)
theory Deploy_Properties
  imports Deploy
begin

text \<open>
  Properties of the deploy pass: what it redeploys, which commit becomes the known-good one, what it says is live, and
  which of the documented promises do not hold.
\<close>

section \<open>Outcomes\<close>

definition went_bad :: "deploy_world \<Rightarrow> bool" where
  "went_bad w =
     (case dw_deploys w of Inl _ \<Rightarrow> True | Inr p \<Rightarrow> dp_deployed p \<and> \<not> (dp_success p \<and> fst (run_health_check w)))"

definition came_up :: "deploy_world \<Rightarrow> bool" where
  "came_up w =
     (case dw_deploys w of Inl _ \<Rightarrow> False | Inr p \<Rightarrow> dp_deployed p \<and> dp_success p \<and> fst (run_health_check w))"

definition suite_red :: "deploy_world \<Rightarrow> bool" where
  "suite_red w = (case dw_tests w of Inl _ \<Rightarrow> False | Inr p \<Rightarrow> dp_deployed p \<and> \<not> dp_success p)"

text \<open>A rollback to \<open>g\<close> is started.\<close>

definition rolls_back :: "deploy_config \<Rightarrow> deploy_world \<Rightarrow> deploy_run \<Rightarrow> known_good_deploy \<Rightarrow> bool" where
  "rolls_back cfg w r g \<longleftrightarrow>
     deploy_wanted cfg w r \<and> (went_bad w \<or> suite_red w) \<and> dg_auto_rollback cfg \<and> dw_git w
     \<and> dl_last_good (dr_state r) = Some g \<and> dw_head w \<noteq> Some (kg_sha g)
     \<and> (\<exists>age. dw_age w (kg_at g) = Some age \<and> age \<le> dg_max_rollback_age_secs cfg)
     \<and> \<not> (\<exists>h. dw_head w = Some h \<and> migration_shipped_since cfg w (kg_sha g) h)"

fun redeploy_of :: "deploy_effect \<Rightarrow> string option" where
  "redeploy_of (DeployFrom h) = Some h"
| "redeploy_of _ = None"

definition redeploys :: "deploy_run \<Rightarrow> string list" where
  "redeploys r = List.map_filter redeploy_of (dr_effects r)"

text \<open>What the state says is live: whether it is well and which commit it is.\<close>

definition live :: "deploy_run \<Rightarrow> (bool \<times> string option) option" where
  "live r = map_option (\<lambda>s. (dy_ok s, dy_commit_sha s)) (dl_deploy (dr_state r))"

section \<open>What the operations leave alone\<close>

lemma map_filter_append [simp]: "List.map_filter f (xs @ ys) = List.map_filter f xs @ List.map_filter f ys"
  by (simp add: List.map_filter_def)

lemma perform_simps [simp]:
  "dr_state (perform e r) = dr_state r" "dr_report (perform e r) = dr_report r"
  "redeploys (perform e r) = redeploys r @ (case redeploy_of e of None \<Rightarrow> [] | Some h \<Rightarrow> [h])"
  by (simp_all add: perform_def redeploys_def List.map_filter_def split: option.split)

lemma live_perform: "live (perform e r) = live r"
  by (simp add: live_def)

lemma filed_simps [simp]: "dr_state (filed is' r) = dr_state r" "redeploys (filed is' r) = redeploys r"
  by (simp_all add: filed_def redeploys_def)

lemma failed_with_simps [simp]: "dr_state (failed_with e r) = dr_state r" "redeploys (failed_with e r) = redeploys r"
  by (simp_all add: failed_with_def redeploys_def)

lemma on_deploy_simps [simp]:
  "dr_state (on_deploy f r) = f (dr_state r)" "dr_report (on_deploy f r) = dr_report r" "redeploys (on_deploy f r) = redeploys r"
  by (simp_all add: on_deploy_def redeploys_def)

lemma redeploys_state [simp]: "redeploys (r\<lparr>dr_state := d\<rparr>) = redeploys r"
  by (simp add: redeploys_def)

lemma on_project_simps [simp]:
  "dl_last_good (on_project f d) = dl_last_good d" "dl_deploy (on_project f d) = dl_deploy d"
  "dl_in_rollback (on_project f d) = dl_in_rollback d" "dl_deploy_index (on_project f d) = dl_deploy_index d"
  "dl_incidents (on_project f d) = dl_incidents d" "dl_rolled_back (on_project f d) = dl_rolled_back d"
  by (simp_all add: on_project_def)

text \<open>Filing a bug changes the tickets only.\<close>

lemma file_marked_simps [simp]:
  "redeploys (file_marked now m inp r) = redeploys r"
  "dl_last_good (dr_state (file_marked now m inp r)) = dl_last_good (dr_state r)"
  "dl_deploy (dr_state (file_marked now m inp r)) = dl_deploy (dr_state r)"
  "dl_in_rollback (dr_state (file_marked now m inp r)) = dl_in_rollback (dr_state r)"
  "dl_deploy_index (dr_state (file_marked now m inp r)) = dl_deploy_index (dr_state r)"
  "dl_incidents (dr_state (file_marked now m inp r)) = dl_incidents (dr_state r)"
  by (auto simp: file_marked_def Let_def split: sum.split)

lemmas filing = file_deploy_bug_def file_test_failure_def file_rollback_failed_bug_def

lemma record_deploy_simps [simp]:
  "dl_last_good (record_deploy w ok s h hc b d) = dl_last_good d"
  "dl_in_rollback (record_deploy w ok s h hc b d) = dl_in_rollback d"
  "dl_deploy_index (record_deploy w ok s h hc b d) = dl_deploy_index d"
  "dl_incidents (record_deploy w ok s h hc b d) = dl_incidents d"
  "dl_deploy (record_deploy w ok s h hc b d) = Some \<lparr>dy_at = dw_now w, dy_ok = ok, dy_summary = s, dy_commit_sha = h,
     dy_health_check = hc, dy_failure_bundle = b\<rparr>"
  by (simp_all add: record_deploy_def)

lemma fold_evidence:
  "dr_state (fold (\<lambda>i. perform (CollectEvidence i)) is' r) = dr_state r"
  "redeploys (fold (\<lambda>i. perform (CollectEvidence i)) is' r) = redeploys r"
  by (induction is' arbitrary: r) simp_all

lemma after_ship_simps [simp]: "dr_state (after_ship w r) = dr_state r" "redeploys (after_ship w r) = redeploys r"
  by (simp_all add: after_ship_def Let_def fold_evidence split: option.split)

lemma post_mortem_simps [simp]:
  "redeploys (post_mortem w reason bad g fwd s fs r) = redeploys r"
  "dl_last_good (dr_state (post_mortem w reason bad g fwd s fs r)) = dl_last_good (dr_state r)"
  "dl_deploy (dr_state (post_mortem w reason bad g fwd s fs r)) = dl_deploy (dr_state r)"
  "dl_in_rollback (dr_state (post_mortem w reason bad g fwd s fs r)) = dl_in_rollback (dr_state r)"
  "dl_deploy_index (dr_state (post_mortem w reason bad g fwd s fs r)) = dl_deploy_index (dr_state r)"
  by (simp_all add: post_mortem_def Let_def)

section \<open>The pass\<close>

lemma attempt_cases:
  "fst (deploy_attempt cfg w r) = went_bad w" "fst (snd (deploy_attempt cfg w r)) = came_up w"
  by (auto simp: deploy_attempt_def went_bad_def came_up_def Let_def split: sum.split option.split prod.split)

lemma attempt_simps:
  fixes cfg w r
  defines "r' \<equiv> snd (snd (deploy_attempt cfg w r))"
  shows "redeploys r' = redeploys r" and "dl_last_good (dr_state r') = dl_last_good (dr_state r)"
    and "dl_in_rollback (dr_state r') = dl_in_rollback (dr_state r)"
    and "dl_deploy_index (dr_state r') = dl_deploy_index (dr_state r)"
    and "dl_incidents (dr_state r') = dl_incidents (dr_state r)"
    and "live r' = (if went_bad w \<or> came_up w then Some (came_up w, dw_head w) else live r)"
  unfolding r'_def
  by (auto simp: deploy_attempt_def filing live_def went_bad_def came_up_def Let_def split: sum.split option.split prod.split)

lemma suite_simps:
  fixes w r
  defines "r' \<equiv> snd (run_suite w r)"
  shows "fst (run_suite w r) = suite_red w" and "redeploys r' = redeploys r" and "live r' = live r"
    and "dl_last_good (dr_state r') = dl_last_good (dr_state r)" and "dl_in_rollback (dr_state r') = dl_in_rollback (dr_state r)"
    and "dl_deploy_index (dr_state r') = dl_deploy_index (dr_state r)"
    and "dl_incidents (dr_state r') = dl_incidents (dr_state r)"
  unfolding r'_def by (auto simp: run_suite_def suite_red_def filing live_def split: sum.split)

text \<open>The last step of a pass on its own: a rollback, a skipped one or neither.\<close>

definition goes_back :: "deploy_config \<Rightarrow> deploy_world \<Rightarrow> deploy_run \<Rightarrow> known_good_deploy \<Rightarrow> bool" where
  "goes_back cfg w r g \<longleftrightarrow>
     dw_port w \<and> dw_git w \<and> dl_last_good (dr_state r) = Some g \<and> dw_head w \<noteq> Some (kg_sha g)
     \<and> (\<exists>age. dw_age w (kg_at g) = Some age \<and> age \<le> dg_max_rollback_age_secs cfg)
     \<and> \<not> (\<exists>h. dw_head w = Some h \<and> migration_shipped_since cfg w (kg_sha g) h)"

lemma skipped_simps [simp]:
  "redeploys (record_rollback_skipped w reason bad g s o' b r) = redeploys r"
  "live (record_rollback_skipped w reason bad g s o' b r) = live r"
  "dl_last_good (dr_state (record_rollback_skipped w reason bad g s o' b r)) = dl_last_good (dr_state r)"
  "dl_in_rollback (dr_state (record_rollback_skipped w reason bad g s o' b r)) = dl_in_rollback (dr_state r)"
  by (simp_all add: record_rollback_skipped_def live_def)

lemma finish_simps [simp]:
  "redeploys (finish_rollback w reason bad g ok s fs b r) = redeploys r"
  "live (finish_rollback w reason bad g ok s fs b r) = (if ok then Some (True, Some g) else live r)"
  "dl_last_good (dr_state (finish_rollback w reason bad g ok s fs b r)) = dl_last_good (dr_state r)"
  "dl_in_rollback (dr_state (finish_rollback w reason bad g ok s fs b r)) = (ok \<or> dl_in_rollback (dr_state r))"
  by (auto simp: finish_rollback_def filing live_def Let_def)

lemma no_rollback:
  fixes reason
  assumes "\<And>g. \<not> goes_back cfg w r g"
  defines "r' \<equiv> revert_to_known_good cfg w reason (dw_head w) r"
  shows "redeploys r' = redeploys r" and "live r' = live r" and "dl_last_good (dr_state r') = dl_last_good (dr_state r)"
    and "dl_in_rollback (dr_state r') = dl_in_rollback (dr_state r)"
proof -
  have "redeploys r' = redeploys r \<and> live r' = live r \<and> dl_last_good (dr_state r') = dl_last_good (dr_state r)
    \<and> dl_in_rollback (dr_state r') = dl_in_rollback (dr_state r)"
  proof (cases "dw_port w \<and> dw_git w")
    case True
    show ?thesis
    proof (cases "dl_last_good (dr_state r)")
      case (Some g)
      with True assms(1) [of g] show ?thesis
        unfolding r'_def revert_to_known_good_def goes_back_def
        by (cases "dw_age w (kg_at g)"; cases "dw_head w"; simp; force)
    qed (simp add: r'_def revert_to_known_good_def)
  qed (auto simp: r'_def revert_to_known_good_def)
  then show "redeploys r' = redeploys r" and "live r' = live r" and "dl_last_good (dr_state r') = dl_last_good (dr_state r)"
    and "dl_in_rollback (dr_state r') = dl_in_rollback (dr_state r)" by simp_all
qed

lemma rollback_taken:
  fixes reason
  assumes "goes_back cfg w r g"
  defines "r' \<equiv> revert_to_known_good cfg w reason (dw_head w) r"
  shows "\<exists>s fs b. r' = finish_rollback w reason (dw_head w) (kg_sha g) (fst (redeploy w)) s fs b
      (let r1 = perform (AddWorktree (kg_sha g)) r in if dw_worktree w = None then perform (DeployFrom (kg_sha g)) r1 else r1)"
proof -
  obtain age where "dw_age w (kg_at g) = Some age" "age \<le> dg_max_rollback_age_secs cfg"
    using assms(1) unfolding goes_back_def by blast
  moreover obtain ok s own where "redeploy w = (ok, s, own)" by (cases "redeploy w")
  ultimately show ?thesis
    using assms(1) unfolding r'_def revert_to_known_good_def goes_back_def Let_def by (cases "dw_head w") auto
qed

lemma rollback_simps:
  fixes reason
  assumes "goes_back cfg w r g"
  defines "r' \<equiv> revert_to_known_good cfg w reason (dw_head w) r"
  shows "redeploys r' = redeploys r @ (if dw_worktree w = None then [kg_sha g] else [])"
    and "live r' = (if fst (redeploy w) then Some (True, Some (kg_sha g)) else live r)"
    and "dl_last_good (dr_state r') = dl_last_good (dr_state r)"
    and "dl_in_rollback (dr_state r') = (fst (redeploy w) \<or> dl_in_rollback (dr_state r))"
proof -
  obtain s fs b where r': "r' = finish_rollback w reason (dw_head w) (kg_sha g) (fst (redeploy w)) s fs b
      (let r1 = perform (AddWorktree (kg_sha g)) r in if dw_worktree w = None then perform (DeployFrom (kg_sha g)) r1 else r1)"
    using rollback_taken [OF assms(1)] unfolding r'_def by blast
  show "redeploys r' = redeploys r @ (if dw_worktree w = None then [kg_sha g] else [])"
    and "live r' = (if fst (redeploy w) then Some (True, Some (kg_sha g)) else live r)"
    and "dl_last_good (dr_state r') = dl_last_good (dr_state r)"
    and "dl_in_rollback (dr_state r') = (fst (redeploy w) \<or> dl_in_rollback (dr_state r))"
    unfolding r' Let_def by (auto simp: live_perform)
qed

definition promoted :: "deploy_config \<Rightarrow> deploy_world \<Rightarrow> deploy_run \<Rightarrow> string option" where
  "promoted cfg w r = (if deploy_wanted cfg w r \<and> came_up w \<and> \<not> suite_red w then dw_head w else None)"

definition back_to :: "deploy_config \<Rightarrow> deploy_world \<Rightarrow> deploy_run \<Rightarrow> known_good_deploy option" where
  "back_to cfg w r = Option.bind (dl_last_good (dr_state r)) (\<lambda>g. if rolls_back cfg w r g then Some g else None)"

lemma not_both: "came_up w \<Longrightarrow> \<not> went_bad w"
  by (auto simp: came_up_def went_bad_def split: sum.splits)

text \<open>The run before the last step.\<close>

definition midway :: "deploy_config \<Rightarrow> deploy_world \<Rightarrow> deploy_run \<Rightarrow> deploy_run" where
  "midway cfg w r = snd (run_suite w (snd (snd (deploy_attempt cfg w r))))"

lemma midway_simps:
  "redeploys (midway cfg w r) = redeploys r" "dl_last_good (dr_state (midway cfg w r)) = dl_last_good (dr_state r)"
  "dl_in_rollback (dr_state (midway cfg w r)) = dl_in_rollback (dr_state r)"
  "dl_deploy_index (dr_state (midway cfg w r)) = dl_deploy_index (dr_state r)"
  "dl_incidents (dr_state (midway cfg w r)) = dl_incidents (dr_state r)"
  "live (midway cfg w r) = (if went_bad w \<or> came_up w then Some (came_up w, dw_head w) else live r)"
  by (simp_all add: midway_def suite_simps attempt_simps)

lemma phase_shape:
  "deploy_phase cfg w r =
    (if \<not> deploy_wanted cfg w r then r
     else if went_bad w \<or> suite_red w
     then attempt_rollback cfg w (if went_bad w then ''deploy failed'' else ''tests failed'') (dw_head w) (midway cfg w r)
     else if came_up w then record_known_good w (dw_head w) ''deploy + tests passed'' (midway cfg w r)
     else midway cfg w r)"
proof -
  let ?a = "deploy_attempt cfg w r"
  have a: "?a = (went_bad w, came_up w, snd (snd ?a))" by (simp flip: attempt_cases [of cfg w r])
  have t: "run_suite w (snd (snd ?a)) = (suite_red w, midway cfg w r)" by (simp add: midway_def flip: suite_simps(1) [of w "snd (snd ?a)"])
  show ?thesis unfolding deploy_phase_def by (subst a) (simp add: t)
qed

lemma known_good_simps:
  "redeploys (record_known_good w sha s r) = redeploys r" "live (record_known_good w sha s r) = live r"
  "dl_last_good (dr_state (record_known_good w sha s r)) =
     (case sha of None \<Rightarrow> dl_last_good (dr_state r)
      | Some h \<Rightarrow> Some \<lparr>kg_sha = h, kg_at = dw_now w, kg_deploy_index = dl_deploy_index (dr_state r) + 1, kg_summary = s\<rparr>)"
  "dl_in_rollback (dr_state (record_known_good w sha s r)) = (sha = None \<and> dl_in_rollback (dr_state r))"
  by (auto simp: record_known_good_def live_def split: option.split)

lemma rolls_back_midway:
  assumes "deploy_wanted cfg w r" and "went_bad w \<or> suite_red w" and "dg_auto_rollback cfg"
  shows "goes_back cfg w (midway cfg w r) g \<longleftrightarrow> rolls_back cfg w r g"
  using assms by (auto simp: goes_back_def rolls_back_def midway_simps deploy_wanted_def)

text \<open>
  C22. A deploy pass, exactly. It redeploys at most one commit, and only the known-good one, when the deploy or the tests have
  failed, rollback is switched on, the known-good commit is another one and young enough and no migration lies between. The
  pushed commit becomes the known-good one exactly when the deploy came up and the tests are not red. The record of what is
  live names the known-good commit after a rollback that came up, and otherwise the commit just tried with its outcome; a
  rollback stays marked until a commit is promoted.
\<close>

theorem deploy_exact:
  "redeploys (deploy_phase cfg w r) = redeploys r @
      (case back_to cfg w r of None \<Rightarrow> [] | Some g \<Rightarrow> if dw_worktree w = None then [kg_sha g] else [])
   \<and> dl_last_good (dr_state (deploy_phase cfg w r)) =
      (case promoted cfg w r of None \<Rightarrow> dl_last_good (dr_state r)
       | Some h \<Rightarrow> Some \<lparr>kg_sha = h, kg_at = dw_now w, kg_deploy_index = dl_deploy_index (dr_state r) + 1,
                         kg_summary = ''deploy + tests passed''\<rparr>)
   \<and> live (deploy_phase cfg w r) =
      (case back_to cfg w r of
         Some g \<Rightarrow> if fst (redeploy w) then Some (True, Some (kg_sha g))
                   else if went_bad w \<or> came_up w then Some (came_up w, dw_head w) else live r
       | None \<Rightarrow> if deploy_wanted cfg w r \<and> (went_bad w \<or> came_up w) then Some (came_up w, dw_head w) else live r)
   \<and> dl_in_rollback (dr_state (deploy_phase cfg w r)) =
      (promoted cfg w r = None \<and> (dl_in_rollback (dr_state r) \<or> back_to cfg w r \<noteq> None \<and> fst (redeploy w)))"
proof (cases "deploy_wanted cfg w r \<and> (went_bad w \<or> suite_red w)")
  case True
  then have p: "promoted cfg w r = None" using not_both by (auto simp: promoted_def)
  let ?reason = "if went_bad w then ''deploy failed'' else ''tests failed''"
  have f: "deploy_phase cfg w r = attempt_rollback cfg w ?reason (dw_head w) (midway cfg w r)"
    using True by (auto simp: phase_shape)
  show ?thesis
  proof (cases "dg_auto_rollback cfg \<and> (\<exists>g. rolls_back cfg w r g)")
    case yes: True
    then obtain g where g: "rolls_back cfg w r g" by blast
    then have b: "back_to cfg w r = Some g" by (simp add: back_to_def rolls_back_def)
    have m: "goes_back cfg w (midway cfg w r) g" using rolls_back_midway True yes g by blast
    have f': "deploy_phase cfg w r = revert_to_known_good cfg w ?reason (dw_head w) (midway cfg w r)"
      using f yes by (simp add: attempt_rollback_def)
    show ?thesis unfolding f' rollback_simps [OF m] by (auto simp: b p midway_simps)
  next
    case no: False
    then have b: "back_to cfg w r = None" by (auto simp: back_to_def rolls_back_def split: option.splits bind_splits)
    show ?thesis
    proof (cases "dg_auto_rollback cfg")
      case on: True
      then have n: "\<not> goes_back cfg w (midway cfg w r) g" for g using rolls_back_midway True no by blast
      have f': "deploy_phase cfg w r = revert_to_known_good cfg w ?reason (dw_head w) (midway cfg w r)"
        using f on by (simp add: attempt_rollback_def)
      show ?thesis unfolding f' no_rollback [OF n] using True by (auto simp: b p midway_simps)
    next
      case False
      then have "deploy_phase cfg w r = midway cfg w r" using f by (simp add: attempt_rollback_def)
      then show ?thesis using True by (auto simp: b p midway_simps)
    qed
  qed
next
  case False
  then have b: "back_to cfg w r = None" by (auto simp: back_to_def rolls_back_def split: option.splits bind_splits)
  show ?thesis
    using False by (auto simp: b phase_shape promoted_def known_good_simps midway_simps split: option.split)
qed

section \<open>Promises that do not hold\<close>

lemma promoted_good:
  "promoted cfg w r = Some h \<Longrightarrow> map_option kg_sha (dl_last_good (dr_state (deploy_phase cfg w r))) = Some h"
  using not_both by (auto simp: promoted_def phase_shape known_good_simps split: if_splits)

text \<open>
  A commit becomes the target of rollbacks without a test run: when the test command cannot be started, the error is noted and
  the commit is recorded as one whose tests passed.
\<close>

lemma untested_promoted:
  assumes "deploy_wanted cfg w r" and "came_up w" and "dw_tests w = Inl e" and "dw_head w = Some h"
  shows "map_option kg_sha (dl_last_good (dr_state (deploy_phase cfg w r))) = Some h"
  using assms by (intro promoted_good) (simp add: promoted_def suite_red_def)

text \<open>The list of commits that have been rolled back is never read: such a commit is promoted like any other.\<close>

lemma blacklisted_promoted:
  assumes "h \<in> dl_rolled_back (dr_state r)" and "deploy_wanted cfg w r" and "came_up w" and "\<not> suite_red w" and "dw_head w = Some h"
  shows "map_option kg_sha (dl_last_good (dr_state (deploy_phase cfg w r))) = Some h"
  using assms by (intro promoted_good) (simp add: promoted_def)

text \<open>A deploy failure whose title a person once rejected never becomes work again.\<close>

lemma rejected_failure_unfiled:
  assumes "t \<in> set (st_tickets (is_state (dl_intake (dr_state r))))" and "tk_status t = Rejected"
    and "tk_title t = ''Deploy failing: '' @ summary"
  shows "file_deploy_bug cfg now summary r = r"
proof -
  let ?st = "dl_intake (dr_state r)" and ?inp = "deploy_bug (dg_host_port cfg) summary"
  have i: "ai_title ?inp = ''Deploy failing: '' @ summary" by (simp add: deploy_bug_def high_bug_def)
  have "tk_title t \<in> set (rejected_titles (st_tickets (is_state ?st)))" using assms(1,2) by (auto simp: rejected_titles_def)
  then have "duplicates_existing (ai_title ?inp) (rejected_titles (st_tickets (is_state ?st)))"
    by (rule duplicates_same_title [rotated]) (simp add: i assms)
  then have "\<exists>e. add_ticket now ?inp ?st = Inl e" by (simp add: add_ticket_def Let_def)
  then show ?thesis by (auto simp: file_deploy_bug_def file_marked_def Let_def)
qed

text \<open>The next leader cycle that ships nothing itself.\<close>

definition fresh_run :: "deploy_state \<Rightarrow> deploy_run" where
  "fresh_run d =
     \<lparr>dr_state = d, dr_report = \<lparr>cr_cycle = 0, cr_ba_created = [], cr_sa_readied = None, cr_design_system_created = False,
        cr_pd_designed = None, cr_bug_fixed = None, cr_feature_done = None, cr_documented = None, cr_bugs_filed = [],
        cr_errors = [], cr_over_budget = False\<rparr>, dr_effects = []\<rparr>"

definition next_deploy :: "deploy_config \<Rightarrow> deploy_world \<Rightarrow> deploy_state \<Rightarrow> deploy_state" where
  "next_deploy cfg w d = dr_state (deploy_phase cfg w (fresh_run d))"

lemma finish_incident:
  "map in_failed_sha (dl_incidents (dr_state (finish_rollback w reason (Some h) g True s fs b r)))
   = keep_newest MAX_INCIDENTS (map in_failed_sha (dl_incidents (dr_state r)) @ [h])"
  by (simp add: finish_rollback_def post_mortem_def keep_newest_def drop_map MAX_INCIDENTS_def Let_def)

lemma keep_newest_replicate: "keep_newest m (replicate (min n m) h @ [h]) = replicate (min (Suc n) m) h"
proof -
  have "replicate (min n m) h @ [h] = replicate (Suc (min n m)) h" by (simp add: replicate_append_same)
  then show ?thesis by (simp only: keep_newest_def length_replicate drop_replicate) (rule arg_cong2 [where f = replicate]; simp)
qed

lemma rolled_again:
  assumes b: "rolls_back cfg w (fresh_run d) g" and up: "fst (redeploy w)" and h: "dw_head w = Some h"
  shows "rolls_back cfg w (fresh_run (next_deploy cfg w d)) g"
    and "map in_failed_sha (dl_incidents (next_deploy cfg w d))
         = keep_newest MAX_INCIDENTS (map in_failed_sha (dl_incidents d) @ [h])"
proof -
  let ?r = "midway cfg w (fresh_run d)" and ?reason = "if went_bad w then ''deploy failed'' else ''tests failed''"
  from b have c: "deploy_wanted cfg w (fresh_run d)" "went_bad w \<or> suite_red w" "dg_auto_rollback cfg"
    by (simp_all add: rolls_back_def)
  then have m: "goes_back cfg w ?r g" using rolls_back_midway b by blast
  have f: "next_deploy cfg w d = dr_state (revert_to_known_good cfg w ?reason (dw_head w) ?r)"
    unfolding next_deploy_def phase_shape attempt_rollback_def using c by auto
  have "dl_in_rollback (next_deploy cfg w d)" unfolding f rollback_simps [OF m] using up by simp
  moreover have "dl_last_good (next_deploy cfg w d) = dl_last_good d"
    unfolding f rollback_simps [OF m] midway_simps by (simp add: fresh_run_def)
  ultimately show "rolls_back cfg w (fresh_run (next_deploy cfg w d)) g"
    using b by (auto simp: rolls_back_def deploy_wanted_def fresh_run_def)
  obtain s fs b' where t: "revert_to_known_good cfg w ?reason (dw_head w) ?r
      = finish_rollback w ?reason (dw_head w) (kg_sha g) (fst (redeploy w)) s fs b'
      (let r1 = perform (AddWorktree (kg_sha g)) ?r in if dw_worktree w = None then perform (DeployFrom (kg_sha g)) r1 else r1)"
    using rollback_taken [OF m, of ?reason] by blast
  show "map in_failed_sha (dl_incidents (next_deploy cfg w d))
         = keep_newest MAX_INCIDENTS (map in_failed_sha (dl_incidents d) @ [h])"
    unfolding f t using up h by (simp add: finish_incident Let_def midway_simps fresh_run_def)
qed

text \<open>
  The post-mortem of one revision is written again at every cycle: a rollback leaves its mark, the mark makes the next leader
  cycle deploy the same broken commit again, and nothing asks whether it has had its post-mortem. The log of incidents fills
  with this one revision.
\<close>

lemma post_mortem_repeats:
  assumes "rolls_back cfg w (fresh_run d) g" and "fst (redeploy w)" and "dw_head w = Some h" and "dl_incidents d = []"
  shows "map in_failed_sha (dl_incidents ((next_deploy cfg w ^^ n) d)) = replicate (min n MAX_INCIDENTS) h"
proof -
  have "rolls_back cfg w (fresh_run ((next_deploy cfg w ^^ n) d)) g
    \<and> map in_failed_sha (dl_incidents ((next_deploy cfg w ^^ n) d)) = replicate (min n MAX_INCIDENTS) h"
  proof (induction n)
    case (Suc n)
    then show ?case
      using rolled_again [of cfg w "(next_deploy cfg w ^^ n) d" g h] assms(2,3)
      by (simp add: keep_newest_replicate)
  qed (simp add: assms)
  then show ?thesis by blast
qed

end
