(* ===== verification/Spec2Isabelle.thy ===== *)
theory Spec2Isabelle
  imports Claims Social_Properties Sprint_Properties Value_Objects Platform_Properties
    Governance_Properties Approval_Properties Integrity_Properties Store_Properties Policy_Properties Gate_Properties
    Watchdog_Properties Working_Hours Intake_Properties Focus_Properties Rescue_Properties Radar
    Deploy_Properties
begin

text \<open>
  CoXAgent runs a team of software agents against one backlog. This development models the
  part that decides: the domain crate's ticket aggregate, the project state of the application
  crate, the selection of work, the sprints, the claims, the approval gate, the ledgers of goals,
  interventions and lessons, the conversation and wiki kept beside the tickets, the decisions about
  pull requests, and the platform services whose correctness the rest relies on: the store with its
  shards and its optimistic writes, the coordination leases, the gate every save passes, the merge
  lease, the alert outbox, the audit log, and the accounts, sessions and rights that decide which request is let in. Paths below
  are relative to \<open>src/crates/\<close>.

  \<^bold>\<open>The parts and how they interact.\<close> A \<^emph>\<open>ticket\<close> is changed only through guarded
  methods. The \<^emph>\<open>project state\<close> holds the list of tickets, the running sprint, the queue of
  planned sprints, bounded ledgers and the conversation. \<^emph>\<open>Selection\<close> reads the state and
  orders the queues the roles pull from; a running \<^emph>\<open>sprint\<close> restricts the DEV queues to its
  commitment; a DEV runner walks its queue and \<^emph>\<open>claims\<close> a ticket through the store, a person
  may take the claim over or hand the ticket back. \<^emph>\<open>Questions\<close>, \<^emph>\<open>channels\<close> and the
  \<^emph>\<open>wiki\<close> are operations on the same state. The \<^emph>\<open>approval gate\<close> moves designed tickets to
  \<open>Ready\<close> on the strength of a risk score and of rules learned from people; \<^emph>\<open>goals\<close>,
  \<^emph>\<open>interventions\<close>, \<^emph>\<open>drift alerts\<close> and \<^emph>\<open>lessons\<close> are ledgers beside the tickets. Every
  change of the state is saved through the \<^emph>\<open>write gate\<close>, which validates the backlog and audits
  the document, and written by the \<^emph>\<open>store\<close>, whole or shard by shard, with a revision check that
  the read-modify-write helpers retry on. Runners elect a leader and claim stages through
  \<^emph>\<open>leases\<close>. Before a pull request lands, the \<^emph>\<open>merge policy\<close> decides whether it may,
  whether a rival for the same ticket is closed, and when a hold ends. Runners that merge take the \<^emph>\<open>merge lease\<close> of the branch; alerts go to the
  \<^emph>\<open>outbox\<close> and a flusher delivers them; every request is recorded in the \<^emph>\<open>audit log\<close>.
  A request passes the \<^emph>\<open>limiter\<close> and the \<^emph>\<open>gate\<close>, which asks an \<^emph>\<open>account service\<close>, on files or on
  Postgres, for the principal behind a cookie or a token and compares its role with the path.
  The \<^emph>\<open>runner\<close> repeats the cycle under the control of a handle, and a \<^emph>\<open>watchdog\<close> outside of it tells the team
  when it falls silent. New work enters through the \<^emph>\<open>intake\<close>, which reads the replies of agents and refuses duplicates;
  questions to people are held during their \<^emph>\<open>focus windows\<close>; work that is stuck goes through the lanes of \<^emph>\<open>rescue\<close> and
  \<^emph>\<open>recovery\<close>.

  \<^bold>\<open>Theories and the code they model.\<close>

  \<^item> \<open>Prelude\<close>: strings, first-match update and removal, bounded logs (locale
    \<open>capped_log\<close>), stable sorting (locale \<open>total_preorder\<close>), fallible methods and their
    atomicity, reachability (locale \<open>invariant_system\<close>).
  \<^item> \<open>Kinds\<close>, \<open>Transitions\<close>: \<open>domain/src/kinds.rs\<close>, \<open>ids.rs\<close>, \<open>error.rs\<close>,
    \<open>events.rs\<close>, \<open>transitions.rs\<close>.
  \<^item> \<open>Test_Case\<close>, \<open>Ticket\<close>, \<open>Ticket_Cases\<close>: \<open>domain/src/test_case.rs\<close>,
    \<open>coverage.rs\<close>, \<open>ticket.rs\<close>, \<open>wip_checkpoint.rs\<close>; one definition per method.
    \<open>Ticket_Machine\<close> collects the methods into the step relation \<open>ticket_step\<close>.
  \<^item> \<open>Project_State\<close>: the ticket list and the ledgers of \<open>application/src/state/mod.rs\<close>
    with the records of \<open>state/work.rs\<close> and \<open>state/ops.rs\<close>.
  \<^item> \<open>Dependency_Graph\<close>: \<open>ProjectState::validate\<close> and its depth-first search.
  \<^item> \<open>Selection\<close>: \<open>application/src/selection.rs\<close>.
  \<^item> \<open>Sprint\<close>: \<open>application/src/sprint.rs\<close> and \<open>backlog_scoping.rs\<close>; \<open>Sprint_Scope\<close> and
    \<open>Sprint_Machine\<close> hold the lemmas and the step relation \<open>sprint_step\<close>.
  \<^item> \<open>Claims\<close>: \<open>claim_ticket\<close> of \<open>ports/outbound/state_store.rs\<close>, the pick loop of
    \<open>use_cases/run_dev/mod.rs\<close>, \<open>reclaim_misfiled_bugs\<close> of
    \<open>use_cases/cycle/escalation.rs\<close> and \<open>use_cases/claims.rs\<close>.
  \<^item> \<open>Social\<close>, \<open>Questions\<close>, \<open>Channels\<close>, \<open>Wiki\<close>: the conversation, channel and wiki
    operations of \<open>state/mod.rs\<close> with \<open>state/chat.rs\<close> and \<open>state/docs.rs\<close>.
  \<^item> \<open>Value_Objects\<close>: \<open>domain/src/goal.rs\<close>, \<open>depth.rs\<close>, \<open>version.rs\<close>,
    \<open>artifact.rs\<close>, \<open>debt.rs\<close>.
  \<^item> \<open>Approval\<close>: \<open>use_cases/approval_risk.rs\<close>, \<open>approval_memory.rs\<close>, \<open>approval_policy.rs\<close> and
    \<open>adaptive_approval_pass\<close> of \<open>use_cases/cycle/audits.rs\<close>.
  \<^item> \<open>Governance\<close>: \<open>state/goals.rs\<close>, \<open>state/governance.rs\<close>, \<open>state/drift.rs\<close>;
    \<open>Lessons\<close>: \<open>state/lessons.rs\<close>.
  \<^item> \<open>Integrity\<close>: \<open>state/integrity.rs\<close> and the write gate of
    \<open>infrastructure/src/state/quarantine.rs\<close>.
  \<^item> \<open>Merge_Lock\<close>: \<open>infrastructure/src/kv_merge_lock.rs\<close> on the document table of \<open>kv_doc.rs\<close>,
    one program counter per await, with the atomic lease as its abstract specification.
  \<^item> \<open>Outbox\<close>: \<open>state/outbox.rs\<close>, the port with its in-memory store
    (\<open>ports/outbound/outbox.rs\<close>), the file store (\<open>infrastructure/src/outbox.rs\<close>) and the flusher
    (\<open>infrastructure/src/notifier.rs\<close>); the locale \<open>outbox_store\<close> is the contract of the port,
    interpreted on both stores.
  \<^item> \<open>Audit_Chain\<close>: \<open>infrastructure/src/audit_chain.rs\<close> and \<open>audit_sink.rs\<close>; \<open>Rate_Limit\<close>:
    \<open>presentation/src/middleware/rate_limit.rs\<close>; \<open>Totp\<close>: \<open>infrastructure/src/totp.rs\<close>.
  \<^item> \<open>Shards\<close>: \<open>state/shards.rs\<close> and \<open>infrastructure/src/state/sql_shards.rs\<close>; a document is a map from
    the field names of \<open>ProjectState\<close>, and the locale \<open>sharded\<close> states the laws of reading and
    writing one shard.
  \<^item> \<open>State_Store\<close>: \<open>infrastructure/src/state/sql_store.rs\<close>, \<open>tombstone.rs\<close> and the helpers
    \<open>mutate_state\<close> and \<open>mutate_shard\<close> of \<open>ports/outbound/state_store.rs\<close>, one program counter per
    await, any number of calls on any number of store instances.
  \<^item> \<open>Coordination\<close>: leader, stage and worker leases of \<open>json_store.rs\<close>, \<open>sql_store.rs\<close> and
    \<open>redis_coord.rs\<close> under \<open>infrastructure/src/state/\<close>; the locale \<open>lease_service\<close> is the contract of a
    lease, interpreted on all four.
  \<^item> \<open>Merge_Policy\<close>: \<open>use_cases/merge_policy.rs\<close>, \<open>use_cases/merge_gate.rs\<close>, \<open>policy.rs\<close> and
    \<open>open_hold_round\<close> of \<open>use_cases/cycle/forge_review.rs\<close>.
  \<^item> \<open>Access\<close>: the roles of \<open>application/src/auth.rs\<close>, the principal of a request (\<open>guards.rs\<close>, \<open>engines.rs\<close>)
    and the gate \<open>auth_mw\<close> (\<open>auth.rs\<close>) under \<open>presentation/src/server/\<close>.
  \<^item> \<open>Accounts\<close>: \<open>infrastructure/src/auth.rs\<close>; \<open>Sql_Accounts\<close>: \<open>infrastructure/src/sql_auth.rs\<close>;
    \<open>Account_Book\<close>: the book of accounts both implement, with the locale \<open>account_service\<close>, interpreted on both.
  \<^item> \<open>Runner\<close>: the handle and the loop of \<open>use_cases/runner.rs\<close>, one program counter per access to shared memory, with
    \<open>application/src/faults.rs\<close> and the report of \<open>use_cases/cycle/mod.rs\<close>.
  \<^item> \<open>Watchdog\<close>: \<open>application/src/liveness.rs\<close> and the sweep of \<open>presentation/src/server/background.rs\<close>.
  \<^item> \<open>Working_Hours\<close>: \<open>application/src/working_hours.rs\<close>.
  \<^item> \<open>Parsing\<close>: \<open>application/src/parsing.rs\<close>; \<open>Intake\<close>: \<open>use_cases/add_ticket.rs\<close>; \<open>Radar\<close>:
    \<open>use_cases/duplicate_radar.rs\<close>.
  \<^item> \<open>Focus\<close>: \<open>use_cases/question_batching.rs\<close>, \<open>in_quiet_window\<close> of \<open>config.rs\<close>, \<open>parse_ask\<close> of
    \<open>use_cases/run_dev/mod.rs\<close> and the passes of \<open>use_cases/cycle/escalation.rs\<close> over questions.
  \<^item> \<open>Rescue\<close>: the passes of \<open>use_cases/cycle/escalation.rs\<close> over tickets; \<open>Recovery\<close>:
    \<open>use_cases/daily_recovery.rs\<close>, \<open>use_cases/recover.rs\<close>, \<open>use_cases/cycle/recovery.rs\<close>.
  \<^item> \<open>Deploy\<close>: \<open>use_cases/cycle/ops.rs\<close> and the deploy block of \<open>run_cycle\<close> in \<open>use_cases/cycle/mod.rs\<close>.
  \<^item> \<open>Ticket_Properties\<close>, \<open>Backlog_Properties\<close>, \<open>Sprint_Properties\<close>, \<open>Social_Properties\<close>,
    \<open>Approval_Properties\<close>, \<open>Governance_Properties\<close>, \<open>Integrity_Properties\<close>,
    \<open>Platform_Properties\<close>, \<open>Store_Properties\<close>, \<open>Policy_Properties\<close>, \<open>Access_Properties\<close>, \<open>Gate_Properties\<close>, \<open>Runner_Properties\<close>,
    \<open>Watchdog_Properties\<close>, \<open>Intake_Properties\<close>, \<open>Focus_Properties\<close>, \<open>Rescue_Properties\<close>, \<open>Deploy_Properties\<close> and this theory: the properties, each
    that has a hypothesis with a witness.

  \<^bold>\<open>How the code is translated.\<close> A struct is a record, an enum a datatype. A \<open>&mut self\<close>
  method that returns \<open>Result\<close> is a function from the state to the pair of the result and the
  state it leaves, also on the error path, so that atomicity is a theorem and not a convention.
  A method that returns \<open>bool\<close> or a count returns it beside the state. \<open>Vec\<close> is a list,
  \<open>BTreeMap\<close> a map, \<open>BTreeSet\<close> used for membership a set. \<open>iter_mut().find\<close> followed by a
  write is \<open>update_first\<close>, so that a list with duplicate ids behaves as in the code.

  \<^bold>\<open>What the lemmas show.\<close>

  \<^item> \<^emph>\<open>Tickets\<close> (C1, C5, C12, C40): the invariant of every reachable ticket, the exact
    behaviour of \<open>transition_to\<close>, the verify gate, atomicity of every method; further that the gate can be opened,
    agreement of the coverage matrix with it, finality of \<open>Rejected\<close>, the
    exact lifecycle of each kind, reconciliation of test cases, bounded verdict histories.
  \<^item> \<^emph>\<open>Backlog\<close> (C4, C16, C17): \<open>validate\<close> accepts exactly the well-formed backlogs, the cycle
    search is total, sound and complete, a validated backlog is never deadlocked; further the ready
    queue, the burn-mode sweep and the ledger of reverted work.
  \<^item> \<^emph>\<open>Sprints\<close> (C2): the invariant of every reachable sprint state;
    further rollover, refill, the window guard, the commitment, the top-up, the parking sweep and the sprint queue.
  \<^item> \<^emph>\<open>Claims\<close> (C3, C9): exclusiveness under any interleaving of attempts, the pick loop;
    further agreement of the blocked-work view with the queue, takeover and handback.
  \<^item> \<^emph>\<open>Write gate\<close> (C10, C11): only sound documents are saved, a heal is exact and complete; further,
    the gate refuses a document it has just repaired.
  \<^item> \<^emph>\<open>Store\<close> (C6, C15, C26): concurrent shard mutations all land; further every call ends, the shard columns agree with the document, a document and its shards determine each other, a
    deleted project stays deleted until somebody connects; a whole-document mutation can overwrite
    another one, and a late save can bring a deleted project back.
  \<^item> \<^emph>\<open>Leases\<close> (C25): the four lease services give the answers of one reference table; further the
    worker registry.
  \<^item> \<^emph>\<open>Merge lease\<close> (C7, C8): leases are exclusive and the interleaved protocol refines the
    atomic lease, as long as no release writes after its lease ran out; without that a release
    clears the lease of somebody else.
  \<^item> \<^emph>\<open>Pull requests\<close>: a rival is closed only when its files are covered, a hold expires in
    a known round; further the ticket id of a title and agreement of the gate with the lease.
  \<^item> \<^emph>\<open>Outbox\<close> (C13, C14): a pass settles exactly the due alerts, delivery terminates for both
    stores; further the invariant of the spool and the floor of the backoff.
  \<^item> \<^emph>\<open>Accounts\<close> (C27, C30, C31, C32): both account services answer every
    sequence of calls as one book does, an administrator remains, five failures lock a name for fifteen minutes, a
    restart keeps the sessions; further, secrets are compared exactly, and two concurrent deletions can remove the
    last administrator.
  \<^item> \<^emph>\<open>Admission\<close> (C28, C29): who may replace a state through the store endpoint, what a
    deleted account can still reach, how far a sign-out reaches; further the exact condition of the gate.
  \<^item> \<^emph>\<open>Approval\<close> (C38): the pass does what the panel shows; further a learned rule overrides the
    floors of the risk score, the bounds of the score, the shape vocabulary, unanimity of rules.
  \<^item> \<^emph>\<open>Ledgers\<close>: the outcome report accounts for every verified ticket, lessons recur once
    per incident, goals keep their identity, attention and drift.
  \<^item> \<^emph>\<open>Audit log and sign-in\<close> (C39): tamper evidence against an anchor; further
    the limiter is an exact sliding window, the written log verifies, every secret round-trips and its codes verify.
  \<^item> \<^emph>\<open>Conversation and wiki\<close>: channels, membership, questions, slugs, folders.
  \<^item> \<^emph>\<open>The loop\<close> (C33, C34): a stop the loop can see ends it, the breaker
    trips at every third failing cycle since the last sign of life; further the incident ledger is exact, no cycle runs
    before somebody starts it, and what races and texts lose: a stop, a resume, a label, an announcement, the loop itself.
  \<^item> \<^emph>\<open>The watchdog\<close> (C35, C36): what it tells is consistent over any run of sweeps and no
    alarm is repeated inside the escalation window; further it catches a lost resume and misses a second stall.
  \<^item> \<^emph>\<open>Working hours\<close> (C37): what is saved reads back; further which windows an instant falls into.
  \<^item> \<^emph>\<open>Intake\<close> (C18): when a ticket is filed and what it adds; further which objects of a reply are
    read, what the duplicate radar reports.
  \<^item> \<^emph>\<open>Questions to people\<close> (C23, C24): no focus window hides a question past its deadline, digests
    are exact; further what stays held and what blocks the queue of answers.
  \<^item> \<^emph>\<open>Stuck work\<close> (C19, C20, C21): a split keeps the backlog valid, rescues stay within their
    budget under any interleaving, a bug between the lanes circles for ever; further the recovery after a crash frees
    exactly the claimed tickets, an outage is handled once.
  \<^item> \<^emph>\<open>Deploys\<close> (C22): what a deploy pass redeploys, promotes and records; further which promises about
    known-good commits and post-mortems do not hold.

  Some theorems state behaviour that differs from the documentation or from what the code means
  to do: C21, and \<open>sql_logout_reach\<close>, \<open>mutate_state_loses_update\<close>, \<open>merge_lock_release_race\<close>, \<open>zombie_save_resurrects\<close>, \<open>project_name_opens_store\<close>,
  \<open>admin_token_outlives_owner\<close>, \<open>last_admin_lost\<close>, \<open>stop_lost_in_step\<close>, \<open>resume_lost\<close>, \<open>label_race\<close>,
  \<open>incident_never_announced\<close>, \<open>dead_key_unseen\<close>, \<open>long_error_kills_loop\<close>, \<open>second_stall_unnoticed\<close>, \<open>boundary_in_two_windows\<close>, \<open>save_gate_refuses_healed\<close>, \<open>learned_rule_overrides_floor\<close>,
  \<open>on_hold_is_committed\<close>, \<open>question_id_clash\<close>, \<open>agents_name_not_reserved\<close>, \<open>audit_prune_breaks\<close>,
  \<open>outbox_backoff_floor\<close>, \<open>outcome_report_bugs_only\<close>, \<open>dismissed_match_returns\<close>,
  \<open>foreign_title_refused\<close>, \<open>stray_brace_blinds\<close>, \<open>stale_hold_stays\<close>, \<open>handed_back_stalls\<close>, \<open>recovery_flag_outlives_gate\<close>,
  \<open>lanes_gap\<close>, \<open>auto_held_never_recovered\<close>, \<open>radar_within_project\<close>, \<open>untested_promoted\<close>, \<open>blacklisted_promoted\<close>, \<open>post_mortem_repeats\<close>,
  \<open>rejected_failure_unfiled\<close>.

  \<^bold>\<open>Totality.\<close> No definition uses fuel beyond the length of its input. The depth-first search ends because every step either
  pops the stack or turns a white node grey (measure in \<open>Dependency_Graph\<close>); the ageing loop of
  the question log ends because each round removes a question; the minting of goal ids ends because
  different numbers give different ids and the list of goals is finite; all other loops are folds
  over lists. A call of the store ends because each step lowers \<open>steps_left\<close>; the count of disjoint
  matches in a text takes the length of the text as its bound. Histories are bounded by the constants of the source (\<open>MAX_ACTIVITY\<close> and the like),
  which are kept at their values.

  \<^bold>\<open>Parameters.\<close> Time comes from the \<open>time\<close> crate: operations take the stamp \<open>now\<close>, and
  the sprint layer the record \<open>clock\<close>. Random message ids are the argument \<open>mid\<close>. Parsing of
  versions by the \<open>semver\<close> crate is \<open>from_str\<close>. The resolver of a ticket's service is the
  predicate \<open>mine\<close>. The float comparison of the cost gate is made once, outside the loop, and is
  the flag \<open>cg_over_cap\<close>. Nothing is assumed of any of these. SHA-256 is \<open>sha\<close>: the properties
  that need it assume non-empty digests or no collision among the rows in question. HMAC-SHA1 is
  \<open>hmac\<close> and unconstrained. The JSON of a lease is \<open>enc\<close> and \<open>dec\<close>, with a decoder that reads back
  what was encoded. The store takes the write gate, the default document and the schema test as
  arguments, and the coordination file the RFC 3339 reader \<open>parse\<close>. The account services take Argon2, SHA-256 and HMAC as the record \<open>crypto\<close> and
  the clocks and the disk as the record \<open>moment\<close>. What a cycle reports, the answers of the store and the ids of
  messages are the inputs of the runner; the watchdog reads stamps through \<open>secs\<close>, and working hours read an
  instant through \<open>wall\<close>. What engines reply and what JSON deserialises to are arguments of intake, focus and rescue; the deploy pass takes the answers of its adapters as \<open>deploy_world\<close>. The answers of a webhook are the function \<open>post\<close>; the clock of the limiter
  does not go back.

  \<^bold>\<open>Conventions.\<close> Strings hold code points below 256; an emoji or a dash outside that range in
  a fixed message is left out or written \<open>-\<close>. Sprint numbers, cycle counters and lengths are
  \<open>nat\<close>; subtractions written \<open>saturating_sub\<close> are the truncated subtraction of \<open>nat\<close>;
  counters the source saturates are capped at \<open>U32_MAX\<close>; version numbers are \<open>64 word\<close>.

  \<^bold>\<open>Not modelled.\<close> The async shells around these functions (loading, saving, retrying through
  the store port), engines, git, forge and deploy adapters, the HTTP server and its pages,
  serialisation, prompts, the Redis variant of the session table, and the fields of \<open>ProjectState\<close> no modelled operation touches.
  
\<close>

section \<open>Claiming work\<close>





text \<open>
  The blocked-work projection and the scheduler agree: a feature or chore at \<open>Ready\<close> is
  in the scoped queue of the DEV-FEATURE lane exactly when the projection shows no row for it.
\<close>

theorem blockers_agree_with_dev_queue:
  assumes "distinct (map tk_id (st_tickets s))" and "t \<in> set (st_tickets s)"
    and "tk_kind t \<in> {Feature, Chore}" and "tk_status t = Ready"
  shows "tk_id t \<in> set (dev_candidates FeatureMode (\<lambda>_. True) s) \<longleftrightarrow>
    (\<forall>b \<in> set (work_blockers s). bw_id b \<noteq> tk_id t)"
proof -
  have uniq: "u = t" if "u \<in> set (st_tickets s)" "tk_id u = tk_id t" for u
    using that assms(1,2) by (auto simp: distinct_map dest: inj_onD)
  have q: "tk_id t \<in> set (dev_candidates FeatureMode (\<lambda>_. True) s) \<longleftrightarrow>
      in_dev_scope s (tk_id t) \<and> deps_satisfied s t"
  proof -
    have "tk_id t \<in> tk_id ` {u \<in> set (st_tickets s). is_feature u \<and> tk_status u = Ready \<and> deps_satisfied s u}
        \<longleftrightarrow> deps_satisfied s t" (is "?l \<longleftrightarrow> _")
    proof
      assume ?l
      then obtain u where u: "u \<in> set (st_tickets s)" "tk_id u = tk_id t" "deps_satisfied s u"
        by (metis (no_types, lifting) imageE mem_Collect_eq)
      with uniq [OF u(1,2)] show "deps_satisfied s t" by simp
    next
      assume "deps_satisfied s t"
      then show ?l using assms(2-4) by (intro imageI) (simp add: is_feature_def)
    qed
    then show ?thesis
      by (auto simp: dev_candidates_def ready_feature_candidates_def set_candidates)
  qed
  have "(\<exists>b \<in> set (work_blockers s). bw_id b = tk_id t) \<longleftrightarrow> blocked_reasons s t \<noteq> []"
  proof
    assume "\<exists>b \<in> set (work_blockers s). bw_id b = tk_id t"
    then show "blocked_reasons s t \<noteq> []" using uniq unfolding work_blockers_id by metis
  next
    assume "blocked_reasons s t \<noteq> []"
    then show "\<exists>b \<in> set (work_blockers s). bw_id b = tk_id t"
      using assms(2-4) unfolding work_blockers_id is_feature_def by (intro bexI [of _ t]) simp_all
  qed
  also have "\<dots> \<longleftrightarrow> \<not> (in_dev_scope s (tk_id t) \<and> deps_satisfied s t)"
    by (auto simp: blocked_reasons_def)
  finally show ?thesis using q by blast
qed

theorem blockers_agree_with_dev_queue_witness:
  "TicketId ''F1'' \<in> set (dev_candidates FeatureMode (\<lambda>_. True) (board [sample_ticket ''F1'' Feature Ready]))"
  using blockers_agree_with_dev_queue [of "board [sample_ticket ''F1'' Feature Ready]" "sample_ticket ''F1'' Feature Ready"]
  by (simp add: work_blockers_def blocked_reasons_def is_feature_def deps_satisfied_def
      in_dev_scope_def ticket_def)

section \<open>Takeover and handback\<close>

text \<open>
  A successful takeover was allowed (the caller manages the project or is the account that
  holds the claim, and the holder is not the live runner) and starts from an unclaimed claimable
  ticket or a claim in progress; afterwards the ticket is in progress under the new worker, the
  outcome names the displaced holder, every other ticket is untouched and the newest entries of
  the activity feed and of the discussion record it.
\<close>

theorem takeover_result:
  assumes "takeover_in_state mid cn i w now manager caller runner s = (Inr out, s')"
  shows "\<exists>t. ticket s i = Some t
    \<and> (manager \<or> (\<exists>h. tk_claimed_by t = Some h \<and> claim_account h = caller))
    \<and> (tk_claimed_by t \<noteq> None \<longrightarrow> tk_claimed_by t \<noteq> runner)
    \<and> (tk_claimed_by t \<noteq> None \<and> tk_status t = InProgress
       \<or> tk_claimed_by t = None \<and> claimable (tk_kind t) (tk_status t))
    \<and> ticket s' i = Some (t\<lparr>tk_status := InProgress, tk_claimed_by := Some w, tk_claimed_at := Some now\<rparr>)
    \<and> to_previous_holder out = tk_claimed_by t \<and> ticket s' i = Some (to_ticket out)
    \<and> (\<forall>j. j \<noteq> i \<longrightarrow> ticket s' j = ticket s j)
    \<and> ac_agent (last (st_activity s')) = caller
    \<and> cm_ticket (last (so_comments (st_social s'))) = Some (ticket_id_str i)"
  using assms
proof (cases rule: takeover_facts)
  case (1 t t' body)
  have "tk_id t' = i" using ticket_Some [OF 1(1)] 1(4) by simp
  moreover have "manager \<or> (\<exists>h. tk_claimed_by t = Some h \<and> claim_account h = caller)"
    using 1(2) by (auto simp: may_touch_claim_def split: option.splits)
  moreover have "tk_claimed_by t \<noteq> None \<longrightarrow> tk_claimed_by t \<noteq> runner"
    using 1(3) by (auto simp: runner_busy_def split: option.splits if_splits)
  ultimately show ?thesis
    using 1 ticket_with_ticket_mut [OF 1(1), of t'] ticket_with_ticket_mut_other [of t' i _ s]
    by (auto simp: audit_trail)
qed

theorem takeover_result_witness:
  "\<exists>out s'. takeover_in_state ''m'' ''n'' (TicketId ''B1'') ''ann@mac'' ''n'' True ''ann'' None
     (board [sample_ticket ''B1'' Bug Open]) = (Inr out, s') \<and> to_previous_holder out = None"
proof -
  let ?t = "sample_ticket ''B1'' Bug Open"
  let ?s = "board [?t]"
  have t: "ticket ?s (TicketId ''B1'') = Some ?t" by (simp add: ticket_def)
  have "claim System ''ann@mac'' ''n'' ?t = (Inr (), ?t\<lparr>tk_status := InProgress,
      tk_claimed_by := Some ''ann@mac'', tk_claimed_at := Some ''n''\<rparr>)"
    by (rule claim_ok) (simp_all add: may_move_def transition_allowed_def)
  then obtain out s' where run: "takeover_in_state ''m'' ''n'' (TicketId ''B1'') ''ann@mac'' ''n'' True
      ''ann'' None ?s = (Inr out, s')"
    using t by (simp add: takeover_in_state_def may_touch_claim_def runner_busy_def claimable_def)
  from takeover_result [OF run] t have "to_previous_holder out = None" by auto
  with run show ?thesis by blast
qed

text \<open>
  A successful handback was allowed and starts from a ticket in progress; it lands on
  \<open>Fixed\<close> for a bug and \<open>Done\<close> otherwise, drops the claim, leaves every other ticket alone, is
  recorded in the activity feed, and afterwards no runner can claim the ticket again.
\<close>

theorem handback_result:
  assumes "handback_in_state mid cn i remark br manager caller runner s = (Inr dst, s')"
  shows "\<exists>t. ticket s i = Some t \<and> tk_status t = InProgress
    \<and> (manager \<or> (\<exists>h. tk_claimed_by t = Some h \<and> claim_account h = caller))
    \<and> dst = (if tk_kind t = Bug then Fixed else Done)
    \<and> ticket s' i = Some (t\<lparr>tk_status := dst, tk_claimed_by := None, tk_claimed_at := None\<rparr>)
    \<and> (\<forall>j. j \<noteq> i \<longrightarrow> ticket s' j = ticket s j)
    \<and> ac_agent (last (st_activity s')) = caller
    \<and> claim_ticket i w now s' = (False, s')"
  using assms
proof (cases rule: handback_facts)
  case (1 t body)
  let ?t = "t\<lparr>tk_status := dst, tk_claimed_by := None, tk_claimed_at := None\<rparr>"
  have m: "moved dst t = ?t" using 1(5) by (simp add: moved_def)
  have id: "tk_id ?t = i" using ticket_Some [OF 1(1)] by simp
  have new: "ticket s' i = Some ?t"
    using 1(6) ticket_with_ticket_mut [OF 1(1) id] by (simp add: m)
  have "\<not> may_move System InProgress ?t"
    using 1(5) by (cases "tk_kind t") (auto simp: may_move_def transition_allowed_def)
  then have "\<not> is_ok (claim System w now ?t)" by (simp add: claim_ok_iff)
  then have "fst (claim_ticket i w now s') = False"
    using new by (auto simp: claim_ticket_def is_ok_def split: prod.splits sum.splits)
  then have "claim_ticket i w now s' = (False, s')"
    by (metis claim_ticket_lost prod.collapse)
  moreover have "manager \<or> (\<exists>h. tk_claimed_by t = Some h \<and> claim_account h = caller)"
    using 1(2) by (auto simp: may_touch_claim_def split: option.splits)
  moreover have "\<forall>j. j \<noteq> i \<longrightarrow> ticket s' j = ticket s j"
    using 1(6) ticket_with_ticket_mut_other [OF id] by (simp add: m)
  ultimately show ?thesis using 1 new by (auto simp: audit_trail)
qed

theorem handback_result_witness:
  "\<exists>s'. handback_in_state ''m'' ''n'' (TicketId ''B1'') ''fixed it'' '''' True ''ann'' None
     (board [sample_ticket ''B1'' Bug InProgress]) = (Inr Fixed, s')
     \<and> claim_ticket (TicketId ''B1'') ''w'' ''n'' s' = (False, s')"
proof -
  let ?t = "sample_ticket ''B1'' Bug InProgress"
  let ?s = "board [?t]"
  have t: "ticket ?s (TicketId ''B1'') = Some ?t" by (simp add: ticket_def)
  have "transition_to System Fixed ?t = (Inr (), moved Fixed ?t)"
    by (rule transition_to_ok) (simp add: may_move_def transition_allowed_def)
  then obtain s' where run: "handback_in_state ''m'' ''n'' (TicketId ''B1'') ''fixed it'' '''' True
      ''ann'' None ?s = (Inr Fixed, s')"
    using t by (simp add: handback_in_state_def may_touch_claim_def runner_busy_def Let_def)
  from handback_result [OF run, of "''w''" "''n''"] run show ?thesis by blast
qed

text \<open>
  Takeover and handback are safe to refuse: an error leaves the whole project state as it
  was, and a caller who neither manages the project nor is the account on the claim is always
  refused with \<open>NotPermitted\<close>, an unclaimed ticket included.
\<close>

theorem claim_actions_guarded:
  assumes "ticket s i = Some t" and "\<not> manager"
    and "\<forall>h. tk_claimed_by t = Some h \<longrightarrow> takeWhile (\<lambda>c. c \<noteq> CHR ''@'') h \<noteq> caller"
  shows "takeover_in_state mid cn i w now manager caller runner s = (Inl NotPermitted, s)
    \<and> handback_in_state mid cn i remark br manager caller runner s = (Inl NotPermitted, s)
    \<and> atomic (takeover_in_state mid cn i w now cm c r) \<and> atomic (handback_in_state mid cn i remark br cm c r)"
proof -
  have "\<not> may_touch_claim manager caller (tk_claimed_by t)"
    using assms(2,3) by (auto simp: may_touch_claim_def claim_account_def split: option.splits)
  then show ?thesis
    using assms(1) atomic_takeover atomic_handback
    by (simp add: takeover_in_state_def handback_in_state_def Let_def)
qed

theorem claim_actions_guarded_witness:
  "takeover_in_state ''m'' ''n'' (TicketId ''B1'') ''eve@pc'' ''n'' False ''eve'' None
     (board [(sample_ticket ''B1'' Bug InProgress)\<lparr>tk_claimed_by := Some ''ann@mac''\<rparr>])
   = (Inl NotPermitted, board [(sample_ticket ''B1'' Bug InProgress)\<lparr>tk_claimed_by := Some ''ann@mac''\<rparr>])"
proof -
  let ?t = "(sample_ticket ''B1'' Bug InProgress)\<lparr>tk_claimed_by := Some ''ann@mac''\<rparr>"
  have t: "ticket (board [?t]) (TicketId ''B1'') = Some ?t" by (simp add: ticket_def)
  have "\<forall>h. tk_claimed_by ?t = Some h \<longrightarrow> takeWhile (\<lambda>c. c \<noteq> CHR ''@'') h \<noteq> ''eve''" by simp
  from claim_actions_guarded [OF t _ this] show ?thesis by blast
qed

end
